(* ===== verification/Prelude.thy ===== *)
theory Prelude
  imports Complex_Main "HOL-Library.AList" "HOL-Library.Char_ord" "HOL-Library.List_Lexorder"
begin

text \<open>
  Shared vocabulary of the development.

  \<^item> Python values that travel through event payloads, step parameters and artifacts (\<open>pyval\<close>);
    floats are rationals, so no rounding is modelled.
  \<^item> Python exceptions (\<open>exn\<close>): an exception carries the class names of its method
    resolution order, so that an \<open>except C\<close> clause is a membership test, and its message.
  \<^item> Python dictionaries (\<open>dict\<close>): association lists in insertion order, with the operations
    of \<open>HOL-Library.AList\<close>. Assigning to a present key keeps its position, assigning to a new
    key appends, as in Python.
  \<^item> Slices of lists, and strings with the handful of methods the kernel calls.
\<close>

named_theorems dict_simps "reading and writing Python dictionaries"
named_theorems exn_simps "the exception classes and the except clauses that match them"

section \<open>Definitions\<close>

subsection \<open>Python values and exceptions\<close>

datatype pyval =
    PNone
  | PBool bool
  | PInt int
  | PFloat rat
  | PStr string
  | PList "pyval list"
  | PDict "(string \<times> pyval) list"

text \<open>\<open>v or default\<close> in Python: \<open>None\<close>, \<open>False\<close>, zero, and the empty string, list and dict are false.\<close>

fun truthy :: "pyval \<Rightarrow> bool" where
  "truthy PNone = False"
| "truthy (PBool b) = b"
| "truthy (PInt i) = (i \<noteq> 0)"
| "truthy (PFloat q) = (q \<noteq> 0)"
| "truthy (PStr s) = (s \<noteq> [])"
| "truthy (PList xs) = (xs \<noteq> [])"
| "truthy (PDict d) = (d \<noteq> [])"

definition POptStr :: "string option \<Rightarrow> pyval" where
  "POptStr so = (case so of None \<Rightarrow> PNone | Some s \<Rightarrow> PStr s)"

definition PStrs :: "string list \<Rightarrow> pyval" where
  "PStrs ss = PList (map PStr ss)"

datatype exn = Exn (exn_mro: "string list") (exn_msg: string)

text \<open>\<open>except C\<close> catches an exception whose class has \<open>C\<close> among its bases.\<close>

definition catches :: "string \<Rightarrow> exn \<Rightarrow> bool" where
  "catches c e \<longleftrightarrow> c \<in> set (exn_mro e)"

definition exn_class :: "exn \<Rightarrow> string" where
  "exn_class e = (case exn_mro e of [] \<Rightarrow> [] | c # _ \<Rightarrow> c)"

definition std_exn :: "string list \<Rightarrow> string \<Rightarrow> exn" where
  "std_exn cs m = Exn (cs @ [''Exception'', ''BaseException'', ''object'']) m"

text \<open>
  \<open>exn_msg\<close> is what \<open>str\<close> gives for the exception; for a \<open>KeyError\<close> that is the quoted key.
\<close>

definition quoted :: "string \<Rightarrow> string" where
  "quoted m = [CHR 0x27] @ m @ [CHR 0x27]"

definition KeyError :: "string \<Rightarrow> exn" where
  "KeyError m = std_exn [''KeyError'', ''LookupError''] (quoted m)"

definition ValueError :: "string \<Rightarrow> exn" where
  "ValueError m = std_exn [''ValueError''] m"

definition RuntimeError :: "string \<Rightarrow> exn" where
  "RuntimeError m = std_exn [''RuntimeError''] m"

definition TypeError :: "string \<Rightarrow> exn" where
  "TypeError m = std_exn [''TypeError''] m"

definition AttributeError :: "string \<Rightarrow> exn" where
  "AttributeError m = std_exn [''AttributeError''] m"

definition PermissionError :: "string \<Rightarrow> exn" where
  "PermissionError m = std_exn [''PermissionError'', ''OSError''] m"

definition TimeoutError :: "string \<Rightarrow> exn" where
  "TimeoutError m = std_exn [''TimeoutError'', ''OSError''] m"

text \<open>Cancelling a task raises an exception that is \<^emph>\<open>not\<close> an \<open>Exception\<close> (Python 3.8 and later).\<close>

definition CancelledError :: exn where
  "CancelledError = Exn [''CancelledError'', ''BaseException'', ''object''] []"

text \<open>
  A call returns a value or raises, and in both cases leaves the state as far as it got:
  raising does not roll the state back.
\<close>

type_synonym ('a, 's) res = "(exn + 'a) \<times> 's"

text \<open>Times: \<open>datetime\<close> values are microseconds, \<open>time.monotonic()\<close> floats are rational seconds.\<close>

type_synonym datetime = int
type_synonym seconds = rat

subsection \<open>Dictionaries\<close>

type_synonym ('k, 'v) dict = "('k \<times> 'v) list"

abbreviation dget :: "('k, 'v) dict \<Rightarrow> 'k \<Rightarrow> 'v option" where
  "dget d k \<equiv> map_of d k"

abbreviation dset :: "'k \<Rightarrow> 'v \<Rightarrow> ('k, 'v) dict \<Rightarrow> ('k, 'v) dict" where
  "dset k v d \<equiv> AList.update k v d"

abbreviation ddel :: "'k \<Rightarrow> ('k, 'v) dict \<Rightarrow> ('k, 'v) dict" where
  "ddel k d \<equiv> AList.delete k d"

abbreviation dkeys :: "('k, 'v) dict \<Rightarrow> 'k list" where
  "dkeys d \<equiv> map fst d"

abbreviation dvals :: "('k, 'v) dict \<Rightarrow> 'v list" where
  "dvals d \<equiv> map snd d"

definition dget_or :: "('k, 'v) dict \<Rightarrow> 'k \<Rightarrow> 'v \<Rightarrow> 'v" where
  "dget_or d k v = (case dget d k of None \<Rightarrow> v | Some w \<Rightarrow> w)"

text \<open>\<open>d.setdefault(k, v)\<close> followed by an update of the entry with \<open>f\<close>.\<close>

definition dmod :: "'k \<Rightarrow> 'v \<Rightarrow> ('v \<Rightarrow> 'v) \<Rightarrow> ('k, 'v) dict \<Rightarrow> ('k, 'v) dict" where
  "dmod k v f d = dset k (f (dget_or d k v)) d"

text \<open>\<open>d.update(e)\<close>\<close>

definition dupdate :: "('k, 'v) dict \<Rightarrow> ('k, 'v) dict \<Rightarrow> ('k, 'v) dict" where
  "dupdate d e = fold (\<lambda>(k, v). dset k v) e d"

text \<open>\<open>INSERT OR REPLACE\<close> into a table read in row order: the old row goes, the new one comes last.\<close>

definition row_replace :: "'k \<Rightarrow> 'v \<Rightarrow> ('k, 'v) dict \<Rightarrow> ('k, 'v) dict" where
  "row_replace k v d = ddel k d @ [(k, v)]"

definition dict_ok :: "('k, 'v) dict \<Rightarrow> bool" where
  "dict_ok d \<longleftrightarrow> distinct (dkeys d)"

subsection \<open>Lists and strings\<close>

text \<open>The slice \<open>xs[-n:]\<close>. For \<open>n = 0\<close> Python reads it as \<open>xs[0:]\<close>, the whole list.\<close>

definition tail_slice :: "int \<Rightarrow> 'a list \<Rightarrow> 'a list" where
  "tail_slice n xs =
     (if n = 0 then xs
      else if n > 0 then drop (length xs - nat n) xs
      else drop (nat (- n)) xs)"

text \<open>The slice \<open>xs[:n]\<close>; a negative \<open>n\<close> counts from the end.\<close>

definition head_slice :: "int \<Rightarrow> 'a list \<Rightarrow> 'a list" where
  "head_slice n xs = (if n \<ge> 0 then take (nat n) xs else take (length xs - nat (- n)) xs)"

text \<open>\<open>v or default\<close> for an optional string: \<open>None\<close> and the empty string are false.\<close>

definition or_str :: "string option \<Rightarrow> string \<Rightarrow> string" where
  "or_str so d = (case so of None \<Rightarrow> d | Some s \<Rightarrow> if s = [] then d else s)"

text \<open>\<open>min(x # xs, key=f)\<close>: of several least elements the first.\<close>

definition first_least :: "('a \<Rightarrow> 'b::linorder) \<Rightarrow> 'a \<Rightarrow> 'a list \<Rightarrow> 'a" where
  "first_least f x xs = fold (\<lambda>y best. if f y < f best then y else best) xs x"

text \<open>Appending to a buffer and trimming it from the front when it is over the limit.\<close>

definition ring_push :: "int \<Rightarrow> 'a \<Rightarrow> 'a list \<Rightarrow> 'a list" where
  "ring_push limit x xs =
     (let ys = xs @ [x]
      in if int (length ys) > limit then tail_slice limit ys else ys)"

definition startswith :: "string \<Rightarrow> string \<Rightarrow> bool" where
  "startswith p s \<longleftrightarrow> take (length p) s = p"

fun contains :: "string \<Rightarrow> string \<Rightarrow> bool" where
  "contains p [] = (p = [])"
| "contains p (c # s) = (startswith p (c # s) \<or> contains p s)"

text \<open>\<open>str.lower()\<close> on ASCII.\<close>

definition lower_char :: "char \<Rightarrow> char" where
  "lower_char c =
     (let n = (of_char c :: nat)
      in if 65 \<le> n \<and> n \<le> 90 then char_of (n + 32) else c)"

definition lower :: "string \<Rightarrow> string" where
  "lower s = map lower_char s"

text \<open>\<open>s.split(c)\<close> for a one-character separator, and \<open>s.split("::", 1)\<close> for a longer one.\<close>

fun split_on :: "char \<Rightarrow> string \<Rightarrow> string list" where
  "split_on c [] = [[]]"
| "split_on c (x # s) =
     (if x = c then [] # split_on c s
      else (case split_on c s of [] \<Rightarrow> [[x]] | w # ws \<Rightarrow> (x # w) # ws))"

fun split_once :: "string \<Rightarrow> string \<Rightarrow> (string \<times> string) option" where
  "split_once sep [] = (if sep = [] then Some ([], []) else None)"
| "split_once sep (c # s) =
     (if startswith sep (c # s) then Some ([], drop (length sep) (c # s))
      else map_option (\<lambda>(a, b). (c # a, b)) (split_once sep s))"

text \<open>\<open>sep.join(ss)\<close>\<close>

definition join :: "string \<Rightarrow> string list \<Rightarrow> string" where
  "join sep ss = (case ss of [] \<Rightarrow> [] | s # ss' \<Rightarrow> s @ concat (map (\<lambda>t. sep @ t) ss'))"

text \<open>\<open>s.split()\<close>: the maximal runs of characters that are not white space.\<close>

definition is_space :: "char \<Rightarrow> bool" where
  "is_space c = (let n = (of_char c :: nat) in 9 \<le> n \<and> n \<le> 13 \<or> 28 \<le> n \<and> n \<le> 32 \<or> n = 133 \<or> n = 160)"

fun words_from :: "string \<Rightarrow> string \<Rightarrow> string list" where
  "words_from w [] = (if w = [] then [] else [w])"
| "words_from w (c # s) =
     (if is_space c then (if w = [] then [] else [w]) @ words_from [] s else words_from (w @ [c]) s)"

definition split_ws :: "string \<Rightarrow> string list" where
  "split_ws s = words_from [] s"

text \<open>\<open>int((b - a).total_seconds() * 1000)\<close> for two times in microseconds: truncation towards zero.\<close>

definition millis :: "datetime \<Rightarrow> datetime \<Rightarrow> int" where
  "millis a b = (if a \<le> b then (b - a) div 1000 else - ((a - b) div 1000))"

text \<open>Decimal numerals, as \<open>str\<close> prints integers.\<close>

fun nat_str :: "nat \<Rightarrow> string" where
  "nat_str n =
     (if n < 10 then [char_of (48 + n)] else nat_str (n div 10) @ [char_of (48 + n mod 10)])"

definition int_str :: "int \<Rightarrow> string" where
  "int_str i = (if i < 0 then ''-'' @ nat_str (nat (- i)) else nat_str (nat i))"

section \<open>Lemmas\<close>

declare nat_str.simps [simp del]

subsection \<open>Exceptions\<close>

lemma catches_Exn [simp]: "catches c (Exn cs m) \<longleftrightarrow> c \<in> set cs"
  by (simp add: catches_def)

lemmas exn_defs [exn_simps] =
  KeyError_def ValueError_def RuntimeError_def TypeError_def AttributeError_def
  PermissionError_def TimeoutError_def CancelledError_def std_exn_def exn_class_def

lemma Cancelled_not_Exception: "\<not> catches ''Exception'' CancelledError"
  by (simp add: exn_simps)

lemma std_exn_Exception [simp]: "catches ''Exception'' (std_exn cs m)"
  by (simp add: std_exn_def)

subsection \<open>Dictionaries\<close>

lemma dget_dset_same [simp]: "dget (dset k v d) k = Some v"
  by (simp add: update_conv')

lemma dget_dset_other [simp]: "k \<noteq> k' \<Longrightarrow> dget (dset k v d) k' = dget d k'"
  by (simp add: update_conv')

lemma dget_dset: "dget (dset k v d) k' = (if k' = k then Some v else dget d k')"
  by (simp add: update_conv')

lemma dget_ddel_same [simp]: "dget (ddel k d) k = None"
  by (simp add: delete_conv')

lemma dget_ddel_other [simp]: "k \<noteq> k' \<Longrightarrow> dget (ddel k d) k' = dget d k'"
  by (simp add: delete_conv')

lemma dget_ddel: "dget (ddel k d) k' = (if k' = k then None else dget d k')"
  by (simp add: delete_conv')

lemma dkeys_dset [simp]: "fst ` set (dset k v d) = insert k (fst ` set d)"
  by (induction d) auto

lemma dkeys_ddel [simp]: "fst ` set (ddel k d) = fst ` set d - {k}"
  by (auto simp: AList.delete_eq)

lemma dict_ok_Nil [simp, intro]: "dict_ok []"
  by (simp add: dict_ok_def)

lemma dict_ok_dset [simp, intro]: "dict_ok d \<Longrightarrow> dict_ok (dset k v d)"
  by (simp add: dict_ok_def distinct_update)

lemma dict_ok_ddel [simp, intro]: "dict_ok d \<Longrightarrow> dict_ok (ddel k d)"
  by (simp add: dict_ok_def distinct_delete)

lemma dget_Some_in: "dget d k = Some v \<Longrightarrow> (k, v) \<in> set d"
  by (rule map_of_SomeD)

lemma dget_iff_in: "dict_ok d \<Longrightarrow> dget d k = Some v \<longleftrightarrow> (k, v) \<in> set d"
  by (simp add: dict_ok_def map_of_eq_Some_iff)

lemma in_dset: "dict_ok d \<Longrightarrow> (k', w) \<in> set (dset k v d) \<longleftrightarrow> (k' = k \<and> w = v) \<or> (k' \<noteq> k \<and> (k', w) \<in> set d)"
  by (auto simp: dget_iff_in [symmetric] dict_ok_dset dget_dset split: if_splits)

lemma in_dsetD: "kw \<in> set (dset k v d) \<Longrightarrow> kw = (k, v) \<or> kw \<in> set d"
  by (induction d) (auto split: if_splits)

lemma in_ddel: "(k', w) \<in> set (ddel k d) \<longleftrightarrow> k' \<noteq> k \<and> (k', w) \<in> set d"
  by (auto simp: AList.delete_eq)

lemma dget_None_iff: "dget d k = None \<longleftrightarrow> k \<notin> fst ` set d"
  by (simp add: map_of_eq_None_iff)

lemma dset_new: "k \<notin> fst ` set d \<Longrightarrow> dset k v d = d @ [(k, v)]"
  by (induction d) auto

lemma dget_row_replace: "dget (row_replace k v d) k' = (if k' = k then Some v else dget d k')"
  by (simp add: row_replace_def map_add_def dget_ddel split: option.splits)

lemma dict_ok_row_replace [simp, intro]: "dict_ok d \<Longrightarrow> dict_ok (row_replace k v d)"
  by (simp add: row_replace_def dict_ok_def distinct_delete)

lemma dget_or_dset_same [simp]: "dget_or (dset k v d) k w = v"
  by (simp add: dget_or_def)

lemma dget_or_dset_other [simp]: "k \<noteq> k' \<Longrightarrow> dget_or (dset k v d) k' w = dget_or d k' w"
  by (simp add: dget_or_def)

lemmas dict_rules [dict_simps] =
  dget_dset dget_ddel dget_or_def dmod_def dupdate_def

lemma dget_fold_dset:
  "dget (fold (\<lambda>(k, v). dset k v) kvs d) k =
     (case map_of (rev kvs) k of Some v \<Rightarrow> Some v | None \<Rightarrow> dget d k)"
  by (induction kvs arbitrary: d)
     (auto simp: dget_dset map_add_def split: option.splits prod.splits)

subsection \<open>Ring buffers\<close>

lemma length_tail_slice: "n > 0 \<Longrightarrow> length (tail_slice n xs) = min (nat n) (length xs)"
  by (simp add: tail_slice_def)

lemma ring_push_bound: "limit > 0 \<Longrightarrow> int (length (ring_push limit x xs)) \<le> limit"
  by (simp add: ring_push_def Let_def length_tail_slice)

lemma ring_push_eq:
  "limit > 0 \<Longrightarrow> ring_push limit x xs = drop (length xs + 1 - nat limit) (xs @ [x])"
  by (auto simp: ring_push_def Let_def tail_slice_def)

lemma ring_push_drop:
  assumes "limit > 0"
  shows "ring_push limit x (drop (length xs - nat limit) xs) = drop (length xs + 1 - nat limit) (xs @ [x])"
proof -
  let ?n = "nat limit" and ?k = "length xs - nat limit"
  have "ring_push limit x (drop ?k xs) = drop (length (drop ?k xs) + 1 - ?n) (drop ?k (xs @ [x]))"
    using ring_push_eq [OF assms, of x "drop ?k xs"] by simp
  also have "\<dots> = drop (length (drop ?k xs) + 1 - ?n + ?k) (xs @ [x])"
    by (simp only: drop_drop)
  also have "length (drop ?k xs) + 1 - ?n + ?k = length xs + 1 - ?n"
    using assms by auto
  finally show ?thesis .
qed

lemma ring_push_zero: "ring_push 0 x xs = xs @ [x]"
  by (simp add: ring_push_def tail_slice_def Let_def)

lemma ring_push_last: "limit > 0 \<Longrightarrow> last (ring_push limit x xs) = x"
  by (subst ring_push_eq) (auto simp: last_drop)

subsection \<open>Selection\<close>

lemma first_least_spec: "first_least f x xs \<in> set (x # xs) \<and> (\<forall>y \<in> set (x # xs). f (first_least f x xs) \<le> f y)"
proof (induction xs arbitrary: x)
  case (Cons y ys)
  from Cons.IH [of "if f y < f x then y else x"] show ?case by (auto simp: first_least_def)
qed (simp add: first_least_def)

lemma in_map_filter: "y \<in> set (List.map_filter f xs) \<longleftrightarrow> (\<exists>x \<in> set xs. f x = Some y)"
  by (induction xs) (auto simp: List.map_filter_simps split: option.splits)

lemma dict_ok_filter: "dict_ok t \<Longrightarrow> dict_ok (filter P t)"
  by (simp add: dict_ok_def distinct_map_filter)

lemma in_dvals: "dict_ok d \<Longrightarrow> v \<in> set (dvals d) \<longleftrightarrow> (\<exists>i. dget d i = Some v)"
  by (force simp: dget_iff_in)

subsection \<open>Strings\<close>

lemma startswith_append [simp]: "startswith p (p @ s)"
  by (simp add: startswith_def)

lemma startswith_iff: "startswith p s \<longleftrightarrow> (\<exists>r. s = p @ r)"
  by (metis append_take_drop_id append_eq_conv_conj startswith_def)

lemma contains_iff: "contains p s \<longleftrightarrow> (\<exists>a b. s = a @ p @ b)"
proof (induction s)
  case (Cons c s)
  note IH = Cons.IH
  show ?case
  proof
    assume "contains p (c # s)"
    then consider "startswith p (c # s)" | "contains p s" by auto
    then show "\<exists>a b. c # s = a @ p @ b"
      by cases (metis startswith_iff append_Nil, metis IH append_Cons)
  next
    assume "\<exists>a b. c # s = a @ p @ b"
    then obtain a b where ab: "c # s = a @ p @ b" by blast
    show "contains p (c # s)"
    proof (cases a)
      case Nil
      with ab have "startswith p (c # s)" by (simp add: startswith_iff)
      then show ?thesis by simp
    next
      case (Cons x a')
      with ab have "s = a' @ p @ b" by simp
      then have "contains p s" using IH by blast
      then show ?thesis by simp
    qed
  qed
qed simp

lemma separator_unique:
  assumes "a @ c # b = a' @ c # b'" and "c \<notin> set a" and "c \<notin> set a'"
  shows "a = a' \<and> b = b'"
  using assms
proof (induction a arbitrary: a')
  case Nil
  then show ?case by (cases a') auto
next
  case (Cons x a)
  then show ?case by (cases a') auto
qed

end
