(* ===== verification/Interfaces.thy ===== *)
theory Interfaces
  imports Prelude
begin

text \<open>
  The contracts that several components of the kernel implement, as locales. Each locale fixes the
  operations a client calls and assumes the laws it may rely on; what follows from the laws is
  proved here once, and every component interprets the locale on its own definitions.

  \<^item> \<open>keyed_store\<close>: \<open>put\<close>/\<open>get\<close> on a dictionary-backed store.
  \<^item> \<open>registry\<close>: registration that refuses a clash and leaves the registry alone when it does.
  \<^item> \<open>ring_buffer\<close>: a log trimmed from the front.
  \<^item> \<open>breaker\<close>: a circuit breaker; the abstract machine it refines is \<open>cb_edge\<close>.
  \<^item> \<open>guarded_system\<close>: the operations of a component as a step relation that keeps an invariant.
\<close>

section \<open>Definitions\<close>

text \<open>
  The states of a circuit breaker: \<open>CircuitBreakerState\<close> of \<open>kernel/domain.py\<close> and
  \<open>CircuitState\<close> of \<open>kernel/resilience_domain.py\<close> have the same three members.
\<close>

datatype circuit_state = CLOSED | OPEN | HALF_OPEN

fun circuit_state_value :: "circuit_state \<Rightarrow> string" where
  "circuit_state_value CLOSED = ''closed''"
| "circuit_state_value OPEN = ''open''"
| "circuit_state_value HALF_OPEN = ''half_open''"

text \<open>The documented machine: CLOSED to OPEN, OPEN to HALF\_OPEN, HALF\_OPEN to CLOSED or OPEN.\<close>

inductive cb_edge :: "circuit_state \<Rightarrow> circuit_state \<Rightarrow> bool" where
  trip: "cb_edge CLOSED OPEN"
| probe: "cb_edge OPEN HALF_OPEN"
| restore: "cb_edge HALF_OPEN CLOSED"
| reopen: "cb_edge HALF_OPEN OPEN"

section \<open>Keyed stores\<close>

locale keyed_store =
  fixes inv :: "'s \<Rightarrow> bool"
    and put :: "'k \<Rightarrow> 'v \<Rightarrow> 's \<Rightarrow> 's"
    and get :: "'s \<Rightarrow> 'k \<Rightarrow> 'v option"
  assumes inv_put: "inv s \<Longrightarrow> inv (put k v s)"
    and get_put_same: "inv s \<Longrightarrow> get (put k v s) k = Some v"
    and get_put_other: "inv s \<Longrightarrow> k' \<noteq> k \<Longrightarrow> get (put k v s) k' = get s k'"
begin

lemma get_put: "inv s \<Longrightarrow> get (put k v s) = (get s)(k \<mapsto> v)"
  by (rule ext) (simp add: get_put_same get_put_other)

lemma inv_puts: "inv s \<Longrightarrow> inv (fold (\<lambda>(k, v). put k v) kvs s)"
  by (induction kvs arbitrary: s) (auto simp: inv_put)

text \<open>After any sequence of writes the last write to a key is what is read.\<close>

lemma get_puts:
  "inv s \<Longrightarrow> get (fold (\<lambda>(k, v). put k v) kvs s) k =
     (case map_of (rev kvs) k of Some v \<Rightarrow> Some v | None \<Rightarrow> get s k)"
proof (induction kvs arbitrary: s)
  case Nil
  then show ?case by simp
next
  case (Cons kv kvs)
  obtain k' v where [simp]: "kv = (k', v)" by (cases kv)
  from Cons.IH [OF inv_put [OF Cons.prems]] show ?case
    using Cons.prems by (simp add: get_put map_add_def split: option.splits)
qed

end

section \<open>Registries\<close>

locale registry =
  fixes wf :: "'r \<Rightarrow> bool"
    and ident :: "'e \<Rightarrow> string"
    and clash :: "'r \<Rightarrow> 'e \<Rightarrow> bool"
    and register :: "'e \<Rightarrow> 'r \<Rightarrow> (exn + string) \<times> 'r"
    and unregister :: "string \<Rightarrow> 'r \<Rightarrow> bool \<times> 'r"
    and get :: "'r \<Rightarrow> string \<Rightarrow> 'e option"
  assumes refuse: "clash r e \<Longrightarrow> \<exists>x. register e r = (Inl x, r)"
    and accept: "wf r \<Longrightarrow> \<not> clash r e \<Longrightarrow>
      fst (register e r) = Inr (ident e) \<and> wf (snd (register e r)) \<and>
      get (snd (register e r)) = (get r)(ident e \<mapsto> e)"
    and clash_again: "wf r \<Longrightarrow> \<not> clash r e \<Longrightarrow> clash (snd (register e r)) e"
    and drop: "wf r \<Longrightarrow>
      fst (unregister i r) = (get r i \<noteq> None) \<and> wf (snd (unregister i r)) \<and>
      get (snd (unregister i r)) = (get r)(i := None)"
begin

lemma wf_register: "wf r \<Longrightarrow> wf (snd (register e r))"
  using refuse accept by (cases "clash r e") fastforce+

lemma register_twice:
  assumes "wf r" and "\<not> clash r e"
  shows "\<exists>x. register e (snd (register e r)) = (Inl x, snd (register e r))"
  using clash_again [OF assms] by (rule refuse)

lemma register_get:
  assumes "wf r" and "fst (register e r) = Inr i"
  shows "i = ident e \<and> get (snd (register e r)) i = Some e"
proof (cases "clash r e")
  case True
  with refuse [of r e] assms show ?thesis by auto
next
  case False
  with accept assms show ?thesis by (metis fun_upd_same sum.inject(2))
qed

lemma register_unregister:
  assumes "wf r" and "\<not> clash r e" and "get r (ident e) = None"
  shows "get (snd (unregister (ident e) (snd (register e r)))) = get r"
  using accept [OF assms(1,2)] drop [of "snd (register e r)" "ident e"] assms(3)
  by auto

text \<open>Nothing enters the registry but what was registered, whatever is registered and in which order.\<close>

lemma get_registers:
  "wf r \<Longrightarrow> get (fold (\<lambda>e r. snd (register e r)) es r) i = Some e \<Longrightarrow>
     get r i = Some e \<or> (e \<in> set es \<and> i = ident e)"
proof (induction es arbitrary: r)
  case Nil
  then show ?case by simp
next
  case (Cons d es)
  let ?r' = "snd (register d r)"
  from Cons.prems have "get ?r' i = Some e \<or> e \<in> set es \<and> i = ident e"
    by (intro Cons.IH) (auto simp: wf_register)
  moreover have "get ?r' i = Some e \<Longrightarrow> get r i = Some e \<or> e = d \<and> i = ident d"
    using refuse [of r d] accept [of r d] Cons.prems(1)
    by (cases "clash r d") (auto split: if_splits)
  ultimately show ?case by auto
qed

end

section \<open>Ring buffers\<close>

locale ring_buffer =
  fixes limit :: "'s \<Rightarrow> int"
    and items :: "'s \<Rightarrow> 'e list"
    and push :: "'e \<Rightarrow> 's \<Rightarrow> 's"
  assumes items_push: "items (push e s) = ring_push (limit s) e (items s)"
    and limit_push: "limit (push e s) = limit s"
begin

lemma limit_pushes: "limit (fold push es s) = limit s"
  by (induction es arbitrary: s) (auto simp: limit_push)

lemma pushes_bound:
  "limit s > 0 \<Longrightarrow> int (length (items s)) \<le> limit s \<Longrightarrow> int (length (items (fold push es s))) \<le> limit s"
proof (induction es arbitrary: s)
  case (Cons e es)
  have "int (length (items (push e s))) \<le> limit (push e s)"
    using Cons.prems(1) by (simp add: items_push limit_push ring_push_bound)
  with Cons.IH [of "push e s"] Cons.prems(1) show ?case by (simp add: limit_push)
qed simp

text \<open>What a bounded buffer holds is exactly the newest entries, in the order they were pushed.\<close>

lemma pushes_items:
  "limit s > 0 \<Longrightarrow> int (length (items s)) \<le> limit s \<Longrightarrow>
     items (fold push es s) =
       drop (length (items s) + length es - nat (limit s)) (items s @ es)"
proof (induction es arbitrary: s rule: rev_induct)
  case Nil
  then show ?case by simp
next
  case (snoc e es)
  let ?xs = "items s @ es" and ?n = "nat (limit s)"
  have IH: "items (fold push es s) = drop (length ?xs - ?n) ?xs"
    using snoc by simp
  have "items (fold push (es @ [e]) s) = ring_push (limit s) e (drop (length ?xs - ?n) ?xs)"
    by (simp add: items_push limit_pushes IH)
  also have "\<dots> = drop (length ?xs + 1 - ?n) (?xs @ [e])"
    using snoc.prems(1) by (rule ring_push_drop)
  finally show ?case by simp
qed

text \<open>A limit of zero bounds nothing: the slice \<open>xs[-0:]\<close> is the whole list.\<close>

lemma pushes_unbounded: "limit s = 0 \<Longrightarrow> items (fold push es s) = items s @ es"
  by (induction es arbitrary: s) (auto simp: items_push limit_push ring_push_zero)

end

section \<open>Circuit breakers\<close>

inductive_simps cb_edge_simps [simp]: "cb_edge a b"
inductive_cases cb_edge_from_OPEN [elim!]: "cb_edge OPEN b"

text \<open>
  \<open>admit\<close> is what happens before the guarded call (the recovery check, the rejection, the trial
  count), \<open>succ\<close> and \<open>fail\<close> what happens after it. \<open>ripe\<close> says that the recovery timeout
  of an open breaker has elapsed.
\<close>

locale breaker =
  fixes inv :: "'b \<Rightarrow> bool"
    and st :: "'b \<Rightarrow> circuit_state"
    and ripe :: "'t \<Rightarrow> 'b \<Rightarrow> bool"
    and admit :: "'t \<Rightarrow> 'b \<Rightarrow> bool \<times> 'b"
    and succ :: "'t \<Rightarrow> 'b \<Rightarrow> 'b"
    and fail :: "'t \<Rightarrow> 'b \<Rightarrow> 'b"
  assumes inv_admit: "inv b \<Longrightarrow> inv (snd (admit t b))"
    and inv_succ: "inv b \<Longrightarrow> inv (succ t b)"
    and inv_fail: "inv b \<Longrightarrow> inv (fail t b)"
    and closed_admits: "inv b \<Longrightarrow> st b = CLOSED \<Longrightarrow> admit t b = (True, b)"
    and open_rejects: "inv b \<Longrightarrow> st b = OPEN \<Longrightarrow> \<not> ripe t b \<Longrightarrow> admit t b = (False, b)"
    and open_recovers: "inv b \<Longrightarrow> st b = OPEN \<Longrightarrow> ripe t b \<Longrightarrow> st (snd (admit t b)) = HALF_OPEN"
    and half_open_stays: "inv b \<Longrightarrow> st b = HALF_OPEN \<Longrightarrow> st (snd (admit t b)) = HALF_OPEN"
    and succ_closed: "inv b \<Longrightarrow> st b = CLOSED \<Longrightarrow> st (succ t b) = CLOSED"
    and succ_open: "inv b \<Longrightarrow> st b = OPEN \<Longrightarrow> st (succ t b) = OPEN"
    and succ_half_open: "inv b \<Longrightarrow> st b = HALF_OPEN \<Longrightarrow> st (succ t b) \<noteq> OPEN"
    and fail_closed: "inv b \<Longrightarrow> st b = CLOSED \<Longrightarrow> st (fail t b) \<noteq> HALF_OPEN"
    and fail_open: "inv b \<Longrightarrow> st b = OPEN \<Longrightarrow> st (fail t b) = OPEN"
    and fail_half_open: "inv b \<Longrightarrow> st b = HALF_OPEN \<Longrightarrow> st (fail t b) = OPEN"
begin

text \<open>One operation is at most one edge of the abstract machine.\<close>

lemma admit_edge: "inv b \<Longrightarrow> st (snd (admit t b)) = st b \<or> cb_edge (st b) (st (snd (admit t b)))"
  by (cases "st b"; cases "ripe t b")
     (simp_all add: closed_admits open_rejects open_recovers half_open_stays)

lemma succ_edge: "inv b \<Longrightarrow> st (succ t b) = st b \<or> cb_edge (st b) (st (succ t b))"
  using succ_closed [of b t] succ_open [of b t] succ_half_open [of b t]
  by (cases "st b"; cases "st (succ t b)") auto

lemma fail_edge: "inv b \<Longrightarrow> st (fail t b) = st b \<or> cb_edge (st b) (st (fail t b))"
  using fail_closed [of b t] fail_open [of b t] fail_half_open [of b t]
  by (cases "st b"; cases "st (fail t b)") auto

lemma open_not_closed:
  assumes "inv b" and "st b = OPEN"
  shows "st (snd (admit t b)) \<noteq> CLOSED \<and> st (succ t b) \<noteq> CLOSED \<and> st (fail t b) \<noteq> CLOSED"
  using admit_edge [OF assms(1), of t] succ_edge [OF assms(1), of t] fail_edge [OF assms(1), of t] assms(2)
  by auto

text \<open>
  Calls overlap, so the operations arrive in any order: whatever the sequence, the breaker keeps its
  invariant and every single operation is at most one edge of the abstract machine.
\<close>

lemma ops_keep_inv:
  assumes "\<And>f. f \<in> set fs \<Longrightarrow> \<exists>t. f = (\<lambda>b. snd (admit t b)) \<or> f = succ t \<or> f = fail t" and "inv b"
  shows "inv (fold (\<lambda>f b. f b) fs b)"
  using assms
proof (induction fs arbitrary: b)
  case (Cons f fs)
  obtain t where "f = (\<lambda>b. snd (admit t b)) \<or> f = succ t \<or> f = fail t" using Cons.prems(1) [of f] by auto
  then have "inv (f b)" using Cons.prems(2) by (auto simp: inv_admit inv_succ inv_fail)
  with Cons.IH Cons.prems(1) show ?case by simp
qed simp

lemma run_refines:
  assumes "\<And>f. f \<in> set fs \<Longrightarrow> \<exists>t. f = (\<lambda>b. snd (admit t b)) \<or> f = succ t \<or> f = fail t" and "inv b" and "n < length fs"
  shows "let b1 = fold (\<lambda>f b. f b) (take n fs) b; b2 = fold (\<lambda>f b. f b) (take (Suc n) fs) b
         in st b2 = st b1 \<or> cb_edge (st b1) (st b2)"
proof -
  let ?b = "fold (\<lambda>f b. f b) (take n fs) b"
  obtain t where f: "fs ! n = (\<lambda>b. snd (admit t b)) \<or> fs ! n = succ t \<or> fs ! n = fail t"
    using assms(1) [of "fs ! n"] assms(3) by auto
  have "inv ?b" by (rule ops_keep_inv) (auto intro: assms(1,2) dest: in_set_takeD)
  then have "st ((fs ! n) ?b) = st ?b \<or> cb_edge (st ?b) (st ((fs ! n) ?b))"
    using f by (auto simp del: cb_edge_simps dest: admit_edge [of _ t] succ_edge [of _ t] fail_edge [of _ t])
  then show ?thesis using assms(3) by (simp add: take_Suc_conv_app_nth Let_def del: cb_edge_simps)
qed

end

section \<open>Systems with an invariant\<close>

locale guarded_system =
  fixes init :: "'s \<Rightarrow> bool"
    and step :: "'s \<Rightarrow> 's \<Rightarrow> bool"
    and invariant :: "'s \<Rightarrow> bool"
  assumes init_inv: "init s \<Longrightarrow> invariant s"
    and step_inv: "invariant s \<Longrightarrow> step s t \<Longrightarrow> invariant t"
begin

lemma steps_inv: "step\<^sup>*\<^sup>* s t \<Longrightarrow> invariant s \<Longrightarrow> invariant t"
  by (induction rule: rtranclp_induct) (auto intro: step_inv)

lemma reachable_inv: "init s \<Longrightarrow> step\<^sup>*\<^sup>* s t \<Longrightarrow> invariant t"
  by (blast intro: init_inv steps_inv)

end

end
