(* ===== verification/Events.thy ===== *)
theory Events
  imports Interfaces
begin

text \<open>
  The event platform of \<open>kernel/events.py\<close>.

  \<^item> Every event class is a constructor with the arguments of its \<open>__init__\<close>; one datatype per
    section of the source file. \<open><section>_body\<close> is what the constructor passes to
    \<open>DomainEvent.__init__\<close>: the type string subscribers route on, the aggregate the event
    belongs to, and the payload dictionary in key order. The ids and creation times that pydantic
    stamps are added where they are read (\<open>stamped\<close>, for the event store).
  \<^item> \<open>sink\<close> is where an engine emits: the optional \<open>EventStore\<close> and the optional
    \<open>EventBus\<close>. Emission order is the order of the two lists.
  \<^item> \<open>event_store\<close> is the append-only journal with its optional SQLite table, and
    \<open>command_bus\<close> / \<open>query_bus\<close> the two dispatchers.
\<close>

section \<open>Event classes\<close>

type_synonym pydict = "(string \<times> pyval) list"

record event =
  ev_type :: string
  ev_aggregate :: string
  ev_payload :: pydict

text \<open>The f-string \<open>scope:scope_id or 'global'\<close> that names a configuration scope.\<close>

definition scope_key :: "string \<Rightarrow> string option \<Rightarrow> string" where
  "scope_key scope scope_id =
     scope @ '':'' @ (case scope_id of None \<Rightarrow> ''global'' | Some i \<Rightarrow> if i = [] then ''global'' else i)"

datatype workflow_event =
    WorkflowStepStarted string string string
  | WorkflowStepCompleted string string string rat
  | WorkflowStepFailed string string string int bool
  | WorkflowStepAwaitingApproval string string string
  | WorkflowCompensating string string string

fun workflow_event_body :: "workflow_event \<Rightarrow> event" where
  "workflow_event_body (WorkflowStepStarted instance_id step_id capability) =
     \<lparr>ev_type = ''workflow.step_started'', ev_aggregate = instance_id,
      ev_payload = [(''step_id'', PStr step_id), (''capability'', PStr capability)]\<rparr>"
| "workflow_event_body (WorkflowStepCompleted instance_id step_id artifact_id duration_ms) =
     \<lparr>ev_type = ''workflow.step_completed'', ev_aggregate = instance_id,
      ev_payload = [(''step_id'', PStr step_id), (''artifact_id'', PStr artifact_id), (''duration_ms'', PFloat duration_ms)]\<rparr>"
| "workflow_event_body (WorkflowStepFailed instance_id step_id error attempt will_retry) =
     \<lparr>ev_type = ''workflow.step_failed'', ev_aggregate = instance_id,
      ev_payload = [(''step_id'', PStr step_id), (''error'', PStr error), (''attempt'', PInt attempt), (''will_retry'', PBool will_retry)]\<rparr>"
| "workflow_event_body (WorkflowStepAwaitingApproval instance_id step_id reason) =
     \<lparr>ev_type = ''workflow.step_awaiting_approval'', ev_aggregate = instance_id,
      ev_payload = [(''step_id'', PStr step_id), (''reason'', PStr reason)]\<rparr>"
| "workflow_event_body (WorkflowCompensating instance_id failed_step compensation_step) =
     \<lparr>ev_type = ''workflow.compensating'', ev_aggregate = instance_id,
      ev_payload = [(''failed_step'', PStr failed_step), (''compensation_step'', PStr compensation_step)]\<rparr>"

datatype sandbox_event =
    SandboxViolationEvent string string pydict pydict
  | SandboxCleanupCompleted string bool "string option"

fun sandbox_event_body :: "sandbox_event \<Rightarrow> event" where
  "sandbox_event_body (SandboxViolationEvent aggregate_id violation_type policy details) =
     \<lparr>ev_type = ''sandbox.violation'', ev_aggregate = aggregate_id,
      ev_payload = [(''violation_type'', PStr violation_type), (''policy'', PDict policy), (''details'', PDict details)]\<rparr>"
| "sandbox_event_body (SandboxCleanupCompleted aggregate_id success error) =
     \<lparr>ev_type = ''sandbox.cleanup_completed'', ev_aggregate = aggregate_id,
      ev_payload = [(''success'', PBool success), (''error'', POptStr error)]\<rparr>"

datatype health_event =
    AgentUnhealthy string "string option" int
  | AgentRecovered string int
  | WorkflowStalled string string string
  | DeadLetterAppended string string string int
  | DeadLetterRecovered string string
  | CircuitBreakerTripped string string int

fun health_event_body :: "health_event \<Rightarrow> event" where
  "health_event_body (AgentUnhealthy component_id last_error consecutive_failures) =
     \<lparr>ev_type = ''health.agent_unhealthy'', ev_aggregate = component_id,
      ev_payload = [(''last_error'', POptStr last_error), (''consecutive_failures'', PInt consecutive_failures)]\<rparr>"
| "health_event_body (AgentRecovered component_id restart_count) =
     \<lparr>ev_type = ''health.agent_recovered'', ev_aggregate = component_id,
      ev_payload = [(''restart_count'', PInt restart_count)]\<rparr>"
| "health_event_body (WorkflowStalled instance_id failed_step_id error) =
     \<lparr>ev_type = ''health.workflow_stalled'', ev_aggregate = instance_id,
      ev_payload = [(''failed_step_id'', PStr failed_step_id), (''error'', PStr error)]\<rparr>"
| "health_event_body (DeadLetterAppended entry_id component_id entry_type retry_count) =
     \<lparr>ev_type = ''health.dead_letter_appended'', ev_aggregate = component_id,
      ev_payload = [(''entry_id'', PStr entry_id), (''entry_type'', PStr entry_type), (''retry_count'', PInt retry_count)]\<rparr>"
| "health_event_body (DeadLetterRecovered entry_id component_id) =
     \<lparr>ev_type = ''health.dead_letter_recovered'', ev_aggregate = component_id,
      ev_payload = [(''entry_id'', PStr entry_id)]\<rparr>"
| "health_event_body (CircuitBreakerTripped capability state failure_count) =
     \<lparr>ev_type = ''health.circuit_breaker_tripped'', ev_aggregate = capability,
      ev_payload = [(''state'', PStr state), (''failure_count'', PInt failure_count)]\<rparr>"

datatype behavior_event =
    MouseMoved string "int \<times> int" "int \<times> int" rat string
  | MouseClicked string "int \<times> int" int string
  | Scrolled string string int "int list"
  | TextTyped string string int int rat
  | GazeFixated string "int \<times> int" int
  | ReadingProgress string int int rat

fun behavior_event_body :: "behavior_event \<Rightarrow> event" where
  "behavior_event_body (MouseMoved agent_id from_pos to_pos duration_ms curve_type) =
     \<lparr>ev_type = ''behavior.mouse_moved'', ev_aggregate = agent_id,
      ev_payload = [(''from_pos'', PList [PInt (fst from_pos), PInt (snd from_pos)]), (''to_pos'', PList [PInt (fst to_pos), PInt (snd to_pos)]), (''duration_ms'', PFloat duration_ms), (''curve_type'', PStr curve_type)]\<rparr>"
| "behavior_event_body (MouseClicked agent_id position fixation_ms button) =
     \<lparr>ev_type = ''behavior.mouse_clicked'', ev_aggregate = agent_id,
      ev_payload = [(''position'', PList [PInt (fst position), PInt (snd position)]), (''fixation_ms'', PInt fixation_ms), (''button'', PStr button)]\<rparr>"
| "behavior_event_body (Scrolled agent_id direction distance_px pauses_ms) =
     \<lparr>ev_type = ''behavior.scrolled'', ev_aggregate = agent_id,
      ev_payload = [(''direction'', PStr direction), (''distance_px'', PInt distance_px), (''pauses_ms'', PList (map PInt pauses_ms))]\<rparr>"
| "behavior_event_body (TextTyped agent_id text wpm error_count duration_ms) =
     \<lparr>ev_type = ''behavior.text_typed'', ev_aggregate = agent_id,
      ev_payload = [(''text'', PStr text), (''wpm'', PInt wpm), (''error_count'', PInt error_count), (''duration_ms'', PFloat duration_ms)]\<rparr>"
| "behavior_event_body (GazeFixated agent_id position duration_ms) =
     \<lparr>ev_type = ''behavior.gaze_fixated'', ev_aggregate = agent_id,
      ev_payload = [(''position'', PList [PInt (fst position), PInt (snd position)]), (''duration_ms'', PInt duration_ms)]\<rparr>"
| "behavior_event_body (ReadingProgress agent_id words_read regressions duration_ms) =
     \<lparr>ev_type = ''behavior.reading_progress'', ev_aggregate = agent_id,
      ev_payload = [(''words_read'', PInt words_read), (''regressions'', PInt regressions), (''duration_ms'', PFloat duration_ms)]\<rparr>"

datatype swarm_event =
    AgentJoinedSwarm string string string string "string list"
  | AgentLeftSwarm string string string
  | HeartbeatReceived string string rat rat
  | HeartbeatMissed string string int string
  | LeaderElected string "string option" "string option" string
  | TaskDelegated string string string string string
  | TaskCompleted string string string
  | NodePartitioned string string "string list"

fun swarm_event_body :: "swarm_event \<Rightarrow> event" where
  "swarm_event_body (AgentJoinedSwarm swarm_id agent_id node_id role capabilities) =
     \<lparr>ev_type = ''swarm.agent_joined'', ev_aggregate = swarm_id,
      ev_payload = [(''agent_id'', PStr agent_id), (''node_id'', PStr node_id), (''role'', PStr role), (''capabilities'', PStrs capabilities)]\<rparr>"
| "swarm_event_body (AgentLeftSwarm swarm_id agent_id reason) =
     \<lparr>ev_type = ''swarm.agent_left'', ev_aggregate = swarm_id,
      ev_payload = [(''agent_id'', PStr agent_id), (''reason'', PStr reason)]\<rparr>"
| "swarm_event_body (HeartbeatReceived node_id agent_id ts load_score) =
     \<lparr>ev_type = ''swarm.heartbeat_received'', ev_aggregate = node_id,
      ev_payload = [(''agent_id'', PStr agent_id), (''timestamp'', PFloat ts), (''load_score'', PFloat load_score)]\<rparr>"
| "swarm_event_body (HeartbeatMissed node_id agent_id missed_count suspicion_level) =
     \<lparr>ev_type = ''swarm.heartbeat_missed'', ev_aggregate = node_id,
      ev_payload = [(''agent_id'', PStr agent_id), (''missed_count'', PInt missed_count), (''suspicion_level'', PStr suspicion_level)]\<rparr>"
| "swarm_event_body (LeaderElected swarm_id leader_id previous_leader_id algorithm) =
     \<lparr>ev_type = ''swarm.leader_elected'', ev_aggregate = swarm_id,
      ev_payload = [(''leader_id'', POptStr leader_id), (''previous_leader_id'', POptStr previous_leader_id), (''algorithm'', PStr algorithm)]\<rparr>"
| "swarm_event_body (TaskDelegated delegation_id task_id from_agent to_agent swarm_id) =
     \<lparr>ev_type = ''swarm.task_delegated'', ev_aggregate = swarm_id,
      ev_payload = [(''delegation_id'', PStr delegation_id), (''task_id'', PStr task_id), (''from_agent'', PStr from_agent), (''to_agent'', PStr to_agent)]\<rparr>"
| "swarm_event_body (TaskCompleted delegation_id task_id result_summary) =
     \<lparr>ev_type = ''swarm.task_completed'', ev_aggregate = delegation_id,
      ev_payload = [(''task_id'', PStr task_id), (''result_summary'', PStr result_summary)]\<rparr>"
| "swarm_event_body (NodePartitioned node_id partition_reason affected_agents) =
     \<lparr>ev_type = ''swarm.node_partitioned'', ev_aggregate = node_id,
      ev_payload = [(''partition_reason'', PStr partition_reason), (''affected_agents'', PStrs affected_agents)]\<rparr>"

datatype planner_event =
    PlanCreated string string int int
  | StepPlanned string string string "string option" string
  | ReplanTriggered string string string "string option"
  | PlanAdapted string int int string
  | StepExecuted string string string int int
  | RiskEscalated string string string string string

fun planner_event_body :: "planner_event \<Rightarrow> event" where
  "planner_event_body (PlanCreated plan_id workflow_id step_count version) =
     \<lparr>ev_type = ''planner.plan_created'', ev_aggregate = plan_id,
      ev_payload = [(''plan_id'', PStr plan_id), (''workflow_id'', PStr workflow_id), (''step_count'', PInt step_count), (''version'', PInt version)]\<rparr>"
| "planner_event_body (StepPlanned plan_id step_id capability agent_id risk) =
     \<lparr>ev_type = ''planner.step_planned'', ev_aggregate = plan_id,
      ev_payload = [(''plan_id'', PStr plan_id), (''step_id'', PStr step_id), (''capability'', PStr capability), (''agent_id'', POptStr agent_id), (''risk'', PStr risk)]\<rparr>"
| "planner_event_body (ReplanTriggered trigger_id plan_id reason failed_step_id) =
     \<lparr>ev_type = ''planner.replan_triggered'', ev_aggregate = plan_id,
      ev_payload = [(''trigger_id'', PStr trigger_id), (''plan_id'', PStr plan_id), (''reason'', PStr reason), (''failed_step_id'', POptStr failed_step_id)]\<rparr>"
| "planner_event_body (PlanAdapted plan_id old_version new_version changes_summary) =
     \<lparr>ev_type = ''planner.plan_adapted'', ev_aggregate = plan_id,
      ev_payload = [(''plan_id'', PStr plan_id), (''old_version'', PInt old_version), (''new_version'', PInt new_version), (''changes_summary'', PStr changes_summary)]\<rparr>"
| "planner_event_body (StepExecuted plan_id step_id status duration_ms retry_count) =
     \<lparr>ev_type = ''planner.step_executed'', ev_aggregate = plan_id,
      ev_payload = [(''plan_id'', PStr plan_id), (''step_id'', PStr step_id), (''status'', PStr status), (''duration_ms'', PInt duration_ms), (''retry_count'', PInt retry_count)]\<rparr>"
| "planner_event_body (RiskEscalated plan_id step_id from_risk to_risk reason) =
     \<lparr>ev_type = ''planner.risk_escalated'', ev_aggregate = plan_id,
      ev_payload = [(''plan_id'', PStr plan_id), (''step_id'', PStr step_id), (''from_risk'', PStr from_risk), (''to_risk'', PStr to_risk), (''reason'', PStr reason)]\<rparr>"

datatype kg_event =
    EntityDiscovered string string string string string rat
  | RelationCreated string string string string string rat
  | GraphUpdated string int string
  | QueryExecuted string string string int int
  | InferenceFired string string "string list" string
  | EntityMerged string string "string list" string

fun kg_event_body :: "kg_event \<Rightarrow> event" where
  "kg_event_body (EntityDiscovered graph_id entity_id name ty source confidence) =
     \<lparr>ev_type = ''kg.entity_discovered'', ev_aggregate = graph_id,
      ev_payload = [(''graph_id'', PStr graph_id), (''entity_id'', PStr entity_id), (''name'', PStr name), (''type'', PStr ty), (''source'', PStr source), (''confidence'', PFloat confidence)]\<rparr>"
| "kg_event_body (RelationCreated graph_id relation_id source_id target_id ty weight) =
     \<lparr>ev_type = ''kg.relation_created'', ev_aggregate = graph_id,
      ev_payload = [(''graph_id'', PStr graph_id), (''relation_id'', PStr relation_id), (''source_id'', PStr source_id), (''target_id'', PStr target_id), (''type'', PStr ty), (''weight'', PFloat weight)]\<rparr>"
| "kg_event_body (GraphUpdated graph_id version change_summary) =
     \<lparr>ev_type = ''kg.graph_updated'', ev_aggregate = graph_id,
      ev_payload = [(''graph_id'', PStr graph_id), (''version'', PInt version), (''change_summary'', PStr change_summary)]\<rparr>"
| "kg_event_body (QueryExecuted query_id graph_id query_type result_count duration_ms) =
     \<lparr>ev_type = ''kg.query_executed'', ev_aggregate = graph_id,
      ev_payload = [(''query_id'', PStr query_id), (''graph_id'', PStr graph_id), (''query_type'', PStr query_type), (''result_count'', PInt result_count), (''duration_ms'', PInt duration_ms)]\<rparr>"
| "kg_event_body (InferenceFired graph_id rule_id matched_entities action_taken) =
     \<lparr>ev_type = ''kg.inference_fired'', ev_aggregate = graph_id,
      ev_payload = [(''graph_id'', PStr graph_id), (''rule_id'', PStr rule_id), (''matched_entities'', PStrs matched_entities), (''action_taken'', PStr action_taken)]\<rparr>"
| "kg_event_body (EntityMerged graph_id canonical_id merged_ids reason) =
     \<lparr>ev_type = ''kg.entity_merged'', ev_aggregate = graph_id,
      ev_payload = [(''graph_id'', PStr graph_id), (''canonical_id'', PStr canonical_id), (''merged_ids'', PStrs merged_ids), (''reason'', PStr reason)]\<rparr>"

datatype mp_event =
    PluginDiscovered string string string string string
  | PluginInstalled string string string string bool
  | PluginInstallFailed string string string
  | NodeJoined string string string "string list"
  | NodeLeft string string string

fun mp_event_body :: "mp_event \<Rightarrow> event" where
  "mp_event_body (PluginDiscovered package_id name source version source_url) =
     \<lparr>ev_type = ''mp.plugin_discovered'', ev_aggregate = package_id,
      ev_payload = [(''package_id'', PStr package_id), (''name'', PStr name), (''source'', PStr source), (''version'', PStr version), (''source_url'', PStr source_url)]\<rparr>"
| "mp_event_body (PluginInstalled package_id name version source secrets_resolved) =
     \<lparr>ev_type = ''mp.plugin_installed'', ev_aggregate = package_id,
      ev_payload = [(''package_id'', PStr package_id), (''name'', PStr name), (''version'', PStr version), (''source'', PStr source), (''secrets_resolved'', PBool secrets_resolved)]\<rparr>"
| "mp_event_body (PluginInstallFailed package_id name reason) =
     \<lparr>ev_type = ''mp.plugin_install_failed'', ev_aggregate = package_id,
      ev_payload = [(''package_id'', PStr package_id), (''name'', PStr name), (''reason'', PStr reason)]\<rparr>"
| "mp_event_body (NodeJoined node_id address cluster_id capabilities) =
     \<lparr>ev_type = ''mp.node_joined'', ev_aggregate = node_id,
      ev_payload = [(''node_id'', PStr node_id), (''address'', PStr address), (''cluster_id'', PStr cluster_id), (''capabilities'', PStrs capabilities)]\<rparr>"
| "mp_event_body (NodeLeft node_id cluster_id reason) =
     \<lparr>ev_type = ''mp.node_left'', ev_aggregate = node_id,
      ev_payload = [(''node_id'', PStr node_id), (''cluster_id'', PStr cluster_id), (''reason'', PStr reason)]\<rparr>"

datatype obs_event =
    MetricRecorded string rat string pydict string
  | TraceSpanStarted string string string "string option" "string option"
  | TraceSpanFinished string string string "string option"
  | LogEntryEmitted string string "string option" "pydict option"

fun obs_event_body :: "obs_event \<Rightarrow> event" where
  "obs_event_body (MetricRecorded name value metric_type labels aggregate_id) =
     \<lparr>ev_type = ''obs.metric_recorded'', ev_aggregate = aggregate_id,
      ev_payload = [(''name'', PStr name), (''value'', PFloat value), (''type'', PStr metric_type), (''labels'', PDict labels)]\<rparr>"
| "obs_event_body (TraceSpanStarted span_id trace_id span_name parent_id correlation_id) =
     \<lparr>ev_type = ''obs.span_started'', ev_aggregate = trace_id,
      ev_payload = [(''span_id'', PStr span_id), (''trace_id'', PStr trace_id), (''span_name'', PStr span_name), (''parent_id'', POptStr parent_id), (''correlation_id'', POptStr correlation_id)]\<rparr>"
| "obs_event_body (TraceSpanFinished span_id trace_id status correlation_id) =
     \<lparr>ev_type = ''obs.span_finished'', ev_aggregate = trace_id,
      ev_payload = [(''span_id'', PStr span_id), (''trace_id'', PStr trace_id), (''status'', PStr status), (''correlation_id'', POptStr correlation_id)]\<rparr>"
| "obs_event_body (LogEntryEmitted level message correlation_id ctx) =
     \<lparr>ev_type = ''obs.log_emitted'', ev_aggregate = (case correlation_id of None \<Rightarrow> [] | Some c \<Rightarrow> c),
      ev_payload = [(''level'', PStr level), (''message'', PStr message), (''correlation_id'', POptStr correlation_id), (''context'', PDict (case ctx of None \<Rightarrow> [] | Some d \<Rightarrow> d))]\<rparr>"

datatype sec_event =
    PermissionDenied string string string
  | ResourceLimitExceeded string string rat
  | PluginSandboxed string string
  | AuditLogEntry string string string string string string

fun sec_event_body :: "sec_event \<Rightarrow> event" where
  "sec_event_body (PermissionDenied princ action resource) =
     \<lparr>ev_type = ''sec.permission_denied'', ev_aggregate = princ,
      ev_payload = [(''principal'', PStr princ), (''action'', PStr action), (''resource'', PStr resource)]\<rparr>"
| "sec_event_body (ResourceLimitExceeded princ limit_type value) =
     \<lparr>ev_type = ''sec.resource_limit_exceeded'', ev_aggregate = princ,
      ev_payload = [(''principal'', PStr princ), (''limit_type'', PStr limit_type), (''value'', PFloat value)]\<rparr>"
| "sec_event_body (PluginSandboxed package_id policy_summary) =
     \<lparr>ev_type = ''sec.plugin_sandboxed'', ev_aggregate = package_id,
      ev_payload = [(''package_id'', PStr package_id), (''policy_summary'', PStr policy_summary)]\<rparr>"
| "sec_event_body (AuditLogEntry entry_id who action resource result ts) =
     \<lparr>ev_type = ''sec.audit_entry'', ev_aggregate = who,
      ev_payload = [(''entry_id'', PStr entry_id), (''who'', PStr who), (''action'', PStr action), (''resource'', PStr resource), (''result'', PStr result), (''timestamp'', PStr ts)]\<rparr>"

datatype mcp_event =
    McpConnected string string string string
  | McpToolCalled string string string rat
  | McpResourceRead string string int
  | McpSessionClosed string string
  | McpError string string string

fun mcp_event_body :: "mcp_event \<Rightarrow> event" where
  "mcp_event_body (McpConnected session_id server_url server_name server_version) =
     \<lparr>ev_type = ''mcp.connected'', ev_aggregate = session_id,
      ev_payload = [(''session_id'', PStr session_id), (''server_url'', PStr server_url), (''server_name'', PStr server_name), (''server_version'', PStr server_version)]\<rparr>"
| "mcp_event_body (McpToolCalled session_id tool_name arguments_hash latency_ms) =
     \<lparr>ev_type = ''mcp.tool_called'', ev_aggregate = session_id,
      ev_payload = [(''tool_name'', PStr tool_name), (''arguments_hash'', PStr arguments_hash), (''latency_ms'', PFloat latency_ms)]\<rparr>"
| "mcp_event_body (McpResourceRead session_id uri size_bytes) =
     \<lparr>ev_type = ''mcp.resource_read'', ev_aggregate = session_id,
      ev_payload = [(''uri'', PStr uri), (''size_bytes'', PInt size_bytes)]\<rparr>"
| "mcp_event_body (McpSessionClosed session_id reason) =
     \<lparr>ev_type = ''mcp.session_closed'', ev_aggregate = session_id,
      ev_payload = [(''reason'', PStr reason)]\<rparr>"
| "mcp_event_body (McpError server_url error_type message) =
     \<lparr>ev_type = ''mcp.error'', ev_aggregate = server_url,
      ev_payload = [(''error_type'', PStr error_type), (''message'', PStr message)]\<rparr>"

datatype cfg_event =
    ConfigChanged string "string option" string int string
  | SecretRotated string string "string option" string int
  | SecretAccessed string string string string
  | ConfigReloaded int string
  | ConfigAccessDenied string string string string

fun cfg_event_body :: "cfg_event \<Rightarrow> event" where
  "cfg_event_body (ConfigChanged scope scope_id key version changed_by) =
     \<lparr>ev_type = ''cfg.config_changed'', ev_aggregate = scope_key scope scope_id,
      ev_payload = [(''key'', PStr key), (''scope'', PStr scope), (''scope_id'', POptStr scope_id), (''version'', PInt version), (''changed_by'', PStr changed_by)]\<rparr>"
| "cfg_event_body (SecretRotated secret_key scope scope_id rotated_at version) =
     \<lparr>ev_type = ''cfg.secret_rotated'', ev_aggregate = secret_key,
      ev_payload = [(''scope'', PStr scope), (''scope_id'', POptStr scope_id), (''rotated_at'', PStr rotated_at), (''version'', PInt version)]\<rparr>"
| "cfg_event_body (SecretAccessed secret_key accessor action ts) =
     \<lparr>ev_type = ''cfg.secret_accessed'', ev_aggregate = secret_key,
      ev_payload = [(''accessor'', PStr accessor), (''action'', PStr action), (''timestamp'', PStr ts)]\<rparr>"
| "cfg_event_body (ConfigReloaded keys_reloaded source) =
     \<lparr>ev_type = ''cfg.config_reloaded'', ev_aggregate = ''global'',
      ev_payload = [(''keys_reloaded'', PInt keys_reloaded), (''source'', PStr source)]\<rparr>"
| "cfg_event_body (ConfigAccessDenied princ key requested_scope reason) =
     \<lparr>ev_type = ''cfg.config_access_denied'', ev_aggregate = princ,
      ev_payload = [(''key'', PStr key), (''requested_scope'', PStr requested_scope), (''reason'', PStr reason)]\<rparr>"

datatype res_event =
    CircuitBreakerOpened string int int
  | CircuitBreakerClosed string string
  | RetryAttempted string int int string
  | RetryExhausted string int string
  | DeadLetterEnqueued string string int

fun res_event_body :: "res_event \<Rightarrow> event" where
  "res_event_body (CircuitBreakerOpened circuit_name failure_count threshold) =
     \<lparr>ev_type = ''res.circuit_opened'', ev_aggregate = circuit_name,
      ev_payload = [(''circuit_name'', PStr circuit_name), (''failure_count'', PInt failure_count), (''threshold'', PInt threshold)]\<rparr>"
| "res_event_body (CircuitBreakerClosed circuit_name from_state) =
     \<lparr>ev_type = ''res.circuit_closed'', ev_aggregate = circuit_name,
      ev_payload = [(''circuit_name'', PStr circuit_name), (''from_state'', PStr from_state)]\<rparr>"
| "res_event_body (RetryAttempted task_id attempt backoff_ms error) =
     \<lparr>ev_type = ''res.retry_attempted'', ev_aggregate = task_id,
      ev_payload = [(''attempt'', PInt attempt), (''backoff_ms'', PInt backoff_ms), (''error'', PStr error)]\<rparr>"
| "res_event_body (RetryExhausted task_id total_attempts last_error) =
     \<lparr>ev_type = ''res.retry_exhausted'', ev_aggregate = task_id,
      ev_payload = [(''total_attempts'', PInt total_attempts), (''last_error'', PStr last_error)]\<rparr>"
| "res_event_body (DeadLetterEnqueued entry_id error attempts) =
     \<lparr>ev_type = ''res.dead_letter_enqueued'', ev_aggregate = entry_id,
      ev_payload = [(''entry_id'', PStr entry_id), (''error'', PStr error), (''attempts'', PInt attempts)]\<rparr>"


text \<open>
  Any domain event: one of the classes above, or a plain \<open>DomainEvent\<close> built in place, as
  \<open>AgentRuntime\<close> does.
\<close>

datatype domain_event =
    WorkflowEv workflow_event
  | SandboxEv sandbox_event
  | HealthEv health_event
  | BehaviorEv behavior_event
  | SwarmEv swarm_event
  | PlannerEv planner_event
  | KgEv kg_event
  | MpEv mp_event
  | ObsEv obs_event
  | SecEv sec_event
  | McpEv mcp_event
  | CfgEv cfg_event
  | ResEv res_event
  | RawEv event

fun event_body :: "domain_event \<Rightarrow> event" where
  "event_body (WorkflowEv e) = workflow_event_body e"
| "event_body (SandboxEv e) = sandbox_event_body e"
| "event_body (HealthEv e) = health_event_body e"
| "event_body (BehaviorEv e) = behavior_event_body e"
| "event_body (SwarmEv e) = swarm_event_body e"
| "event_body (PlannerEv e) = planner_event_body e"
| "event_body (KgEv e) = kg_event_body e"
| "event_body (MpEv e) = mp_event_body e"
| "event_body (ObsEv e) = obs_event_body e"
| "event_body (SecEv e) = sec_event_body e"
| "event_body (McpEv e) = mcp_event_body e"
| "event_body (CfgEv e) = cfg_event_body e"
| "event_body (ResEv e) = res_event_body e"
| "event_body (RawEv e) = e"

section \<open>Event sinks\<close>

text \<open>
  An engine's \<open>_emit\<close>/\<open>_publish\<close>: append to the store if one is wired, publish on the bus if
  one is wired. \<open>None\<close> is an unwired collaborator.
\<close>

record sink =
  snk_store :: "domain_event list option"
  snk_bus :: "domain_event list option"

definition emit :: "domain_event \<Rightarrow> sink \<Rightarrow> sink" where
  "emit e s = s\<lparr>snk_store := map_option (\<lambda>es. es @ [e]) (snk_store s),
                snk_bus := map_option (\<lambda>es. es @ [e]) (snk_bus s)\<rparr>"

definition emits :: "domain_event list \<Rightarrow> sink \<Rightarrow> sink" where
  "emits es s = fold emit es s"

text \<open>Publication on the bus only, for the synchronous call sites.\<close>

definition emit_bus :: "domain_event \<Rightarrow> sink \<Rightarrow> sink" where
  "emit_bus e s = s\<lparr>snk_bus := map_option (\<lambda>es. es @ [e]) (snk_bus s)\<rparr>"

definition unwired :: sink where
  "unwired = \<lparr>snk_store = None, snk_bus = None\<rparr>"

definition wired :: sink where
  "wired = \<lparr>snk_store = Some [], snk_bus = Some []\<rparr>"

text \<open>The events a sink received on its bus; an unwired bus received none.\<close>

definition published :: "sink \<Rightarrow> domain_event list" where
  "published s = (case snk_bus s of None \<Rightarrow> [] | Some es \<Rightarrow> es)"

section \<open>The event store\<close>

record stamped =
  st_id :: string
  st_event :: event
  st_timestamp :: datetime
  st_version :: int

text \<open>
  The journal: an in-memory list and, when a path was given, a table with \<open>id\<close> as its primary
  key. \<open>None\<close> is an absent (or closed) connection.
\<close>

record event_store =
  es_events :: "stamped list"
  es_db :: "(string, stamped) dict option"

text \<open>
  Opening a path gives the table of that file, with the rows an earlier store has left there; a new
  file has none. The rows are not read back into the journal in memory.
\<close>

definition event_store_init :: "(string, stamped) dict option \<Rightarrow> event_store" where
  "event_store_init file = \<lparr>es_events = [], es_db = file\<rparr>"

text \<open>\<open>INSERT\<close> of an id the table already holds violates the primary key and raises.\<close>

definition es_append :: "stamped \<Rightarrow> event_store \<Rightarrow> (unit, event_store) res" where
  "es_append e s =
     (let s1 = s\<lparr>es_events := es_events s @ [e]\<rparr>
      in case es_db s of
           None \<Rightarrow> (Inr (), s1)
         | Some db \<Rightarrow>
             if dget db (st_id e) \<noteq> None
             then (Inl (std_exn [''IntegrityError'', ''DatabaseError'', ''Error''] (st_id e)), s1)
             else (Inr (), s1\<lparr>es_db := Some (dset (st_id e) e db)\<rparr>))"

definition read_stream :: "string \<Rightarrow> event_store \<Rightarrow> stamped list" where
  "read_stream aggregate_id s = filter (\<lambda>e. ev_aggregate (st_event e) = aggregate_id) (es_events s)"

definition read_all :: "datetime option \<Rightarrow> event_store \<Rightarrow> stamped list" where
  "read_all since s =
     (case since of
        None \<Rightarrow> es_events s
      | Some t \<Rightarrow> filter (\<lambda>e. st_timestamp e \<ge> t) (es_events s))"

definition es_count :: "event_store \<Rightarrow> nat" where
  "es_count s = length (es_events s)"

definition es_close :: "event_store \<Rightarrow> event_store" where
  "es_close s = s\<lparr>es_db := None\<rparr>"

section \<open>Command and query buses\<close>

text \<open>
  Handlers are injected; a handler is a value of \<open>'h\<close> and \<open>run\<close> is what calling it does to the
  state \<open>'s\<close> it works on. Commands and queries are routed by the name of their class.
\<close>

record 'h command_bus =
  cmd_handlers :: "(string, 'h) dict"
  cmd_sink :: sink

definition cmd_register :: "string \<Rightarrow> 'h \<Rightarrow> 'h command_bus \<Rightarrow> 'h command_bus" where
  "cmd_register command_type handler b = b\<lparr>cmd_handlers := dset command_type handler (cmd_handlers b)\<rparr>"

definition cmd_send ::
  "('h \<Rightarrow> string \<Rightarrow> 's \<Rightarrow> (unit, 's) res) \<Rightarrow> 'h command_bus \<Rightarrow> string \<Rightarrow> string \<Rightarrow> 's \<Rightarrow> (unit, 's) res" where
  "cmd_send run b command_type aggregate_id s =
     (case dget (cmd_handlers b) command_type of
        None \<Rightarrow> (Inl (KeyError (''no handler for command '' @ command_type)), s)
      | Some handler \<Rightarrow> run handler aggregate_id s)"

definition cmd_publish_event :: "domain_event \<Rightarrow> 'h command_bus \<Rightarrow> 'h command_bus" where
  "cmd_publish_event e b = b\<lparr>cmd_sink := emit e (cmd_sink b)\<rparr>"

record 'h query_bus =
  qry_handlers :: "(string, 'h) dict"

definition qry_register :: "string \<Rightarrow> 'h \<Rightarrow> 'h query_bus \<Rightarrow> 'h query_bus" where
  "qry_register query_type handler b = b\<lparr>qry_handlers := dset query_type handler (qry_handlers b)\<rparr>"

definition qry_ask ::
  "('h \<Rightarrow> 's \<Rightarrow> ('a, 's) res) \<Rightarrow> 'h query_bus \<Rightarrow> string \<Rightarrow> 's \<Rightarrow> ('a, 's) res" where
  "qry_ask run b query_type s =
     (case dget (qry_handlers b) query_type of
        None \<Rightarrow> (Inl (KeyError (''no handler for query '' @ query_type)), s)
      | Some handler \<Rightarrow> run handler s)"

section \<open>Topics\<close>

text \<open>The namespace of a type string: what stands before its first dot.\<close>

definition topic_ns :: "string \<Rightarrow> string" where
  "topic_ns t = takeWhile (\<lambda>c. c \<noteq> CHR ''.'') t"

text \<open>\<open>RawEv\<close> is excluded: its type is chosen where it is built.\<close>

definition declared_event :: "domain_event \<Rightarrow> bool" where
  "declared_event e = (case e of RawEv _ \<Rightarrow> False | _ \<Rightarrow> True)"

section \<open>Lemmas\<close>

lemma emit_simps [simp]:
  "snk_store (emit e s) = map_option (\<lambda>es. es @ [e]) (snk_store s)"
  "snk_bus (emit e s) = map_option (\<lambda>es. es @ [e]) (snk_bus s)"
  by (simp_all add: emit_def)

lemma emits_unfold [simp]:
  "emits [] s = s" "emits (e # es) s = emits es (emit e s)" "emits (es @ es') s = emits es' (emits es s)"
  by (simp_all add: emits_def)

lemma emits_simps [simp]:
  "snk_store (emits es s) = map_option (\<lambda>xs. xs @ es) (snk_store s)"
  "snk_bus (emits es s) = map_option (\<lambda>xs. xs @ es) (snk_bus s)"
  unfolding emits_def
  by (induction es arbitrary: s) (auto simp: option.map_comp o_def option.map_ident)

lemma emit_unwired [simp]: "emit e unwired = unwired"
  by (simp add: emit_def unwired_def)

lemma published_emit [simp]:
  "published (emit e s) = published s @ (if snk_bus s = None then [] else [e])"
  by (auto simp: published_def split: option.splits)

lemma es_append_events [simp]: "es_events (snd (es_append e s)) = es_events s @ [e]"
  by (simp add: es_append_def Let_def split: option.splits)

lemma es_append_fresh:
  assumes "es_db s = Some db" and "st_id e \<notin> fst ` set db"
  shows "es_append e s = (Inr (), s\<lparr>es_events := es_events s @ [e], es_db := Some (db @ [(st_id e, e)])\<rparr>)"
  using assms by (simp add: es_append_def Let_def dget_None_iff [THEN iffD2] dset_new)

lemma es_appends:
  assumes "es_db s = Some (rows @ map (\<lambda>e. (st_id e, e)) (es_events s))"
    and "distinct (map fst rows @ map st_id (es_events s @ es))"
  shows "fold (\<lambda>e s. snd (es_append e s)) es s =
           s\<lparr>es_events := es_events s @ es, es_db := Some (rows @ map (\<lambda>e. (st_id e, e)) (es_events s @ es))\<rparr>"
  using assms
proof (induction es arbitrary: s)
  case Nil
  then show ?case by simp
next
  case (Cons e es)
  have "es_append e s = (Inr (), s\<lparr>es_events := es_events s @ [e],
      es_db := Some ((rows @ map (\<lambda>e. (st_id e, e)) (es_events s)) @ [(st_id e, e)])\<rparr>)"
    using Cons.prems by (intro es_append_fresh) (auto simp: image_image)
  with Cons.IH [of "snd (es_append e s)"] Cons.prems show ?case by simp
qed

interpretation cmds: keyed_store "\<lambda>_. True" cmd_register "\<lambda>b. dget (cmd_handlers b)"
  by unfold_locales (auto simp: cmd_register_def dget_dset)

interpretation qrys: keyed_store "\<lambda>_. True" qry_register "\<lambda>b. dget (qry_handlers b)"
  by unfold_locales (auto simp: qry_register_def dget_dset)

lemma ns_workflow [simp]: "topic_ns (ev_type (workflow_event_body e)) = ''workflow''"
  by (cases e) (simp_all add: topic_ns_def)

lemma schema_workflow:
  "ev_type (workflow_event_body e) = ev_type (workflow_event_body e') \<Longrightarrow>
   map fst (ev_payload (workflow_event_body e)) = map fst (ev_payload (workflow_event_body e'))"
  by (cases e; cases e') simp_all

lemma ns_sandbox [simp]: "topic_ns (ev_type (sandbox_event_body e)) = ''sandbox''"
  by (cases e) (simp_all add: topic_ns_def)

lemma schema_sandbox:
  "ev_type (sandbox_event_body e) = ev_type (sandbox_event_body e') \<Longrightarrow>
   map fst (ev_payload (sandbox_event_body e)) = map fst (ev_payload (sandbox_event_body e'))"
  by (cases e; cases e') simp_all

lemma ns_health [simp]: "topic_ns (ev_type (health_event_body e)) = ''health''"
  by (cases e) (simp_all add: topic_ns_def)

lemma schema_health:
  "ev_type (health_event_body e) = ev_type (health_event_body e') \<Longrightarrow>
   map fst (ev_payload (health_event_body e)) = map fst (ev_payload (health_event_body e'))"
  by (cases e; cases e') simp_all

lemma ns_behavior [simp]: "topic_ns (ev_type (behavior_event_body e)) = ''behavior''"
  by (cases e) (simp_all add: topic_ns_def)

lemma schema_behavior:
  "ev_type (behavior_event_body e) = ev_type (behavior_event_body e') \<Longrightarrow>
   map fst (ev_payload (behavior_event_body e)) = map fst (ev_payload (behavior_event_body e'))"
  by (cases e; cases e') simp_all

lemma ns_swarm [simp]: "topic_ns (ev_type (swarm_event_body e)) = ''swarm''"
  by (cases e) (simp_all add: topic_ns_def)

lemma schema_swarm:
  "ev_type (swarm_event_body e) = ev_type (swarm_event_body e') \<Longrightarrow>
   map fst (ev_payload (swarm_event_body e)) = map fst (ev_payload (swarm_event_body e'))"
  by (cases e; cases e') simp_all

lemma ns_planner [simp]: "topic_ns (ev_type (planner_event_body e)) = ''planner''"
  by (cases e) (simp_all add: topic_ns_def)

lemma schema_planner:
  "ev_type (planner_event_body e) = ev_type (planner_event_body e') \<Longrightarrow>
   map fst (ev_payload (planner_event_body e)) = map fst (ev_payload (planner_event_body e'))"
  by (cases e; cases e') simp_all

lemma ns_kg [simp]: "topic_ns (ev_type (kg_event_body e)) = ''kg''"
  by (cases e) (simp_all add: topic_ns_def)

lemma schema_kg:
  "ev_type (kg_event_body e) = ev_type (kg_event_body e') \<Longrightarrow>
   map fst (ev_payload (kg_event_body e)) = map fst (ev_payload (kg_event_body e'))"
  by (cases e; cases e') simp_all

lemma ns_mp [simp]: "topic_ns (ev_type (mp_event_body e)) = ''mp''"
  by (cases e) (simp_all add: topic_ns_def)

lemma schema_mp:
  "ev_type (mp_event_body e) = ev_type (mp_event_body e') \<Longrightarrow>
   map fst (ev_payload (mp_event_body e)) = map fst (ev_payload (mp_event_body e'))"
  by (cases e; cases e') simp_all

lemma ns_obs [simp]: "topic_ns (ev_type (obs_event_body e)) = ''obs''"
  by (cases e) (simp_all add: topic_ns_def)

lemma schema_obs:
  "ev_type (obs_event_body e) = ev_type (obs_event_body e') \<Longrightarrow>
   map fst (ev_payload (obs_event_body e)) = map fst (ev_payload (obs_event_body e'))"
  by (cases e; cases e') simp_all

lemma ns_sec [simp]: "topic_ns (ev_type (sec_event_body e)) = ''sec''"
  by (cases e) (simp_all add: topic_ns_def)

lemma schema_sec:
  "ev_type (sec_event_body e) = ev_type (sec_event_body e') \<Longrightarrow>
   map fst (ev_payload (sec_event_body e)) = map fst (ev_payload (sec_event_body e'))"
  by (cases e; cases e') simp_all

lemma ns_mcp [simp]: "topic_ns (ev_type (mcp_event_body e)) = ''mcp''"
  by (cases e) (simp_all add: topic_ns_def)

lemma schema_mcp:
  "ev_type (mcp_event_body e) = ev_type (mcp_event_body e') \<Longrightarrow>
   map fst (ev_payload (mcp_event_body e)) = map fst (ev_payload (mcp_event_body e'))"
  by (cases e; cases e') simp_all

lemma ns_cfg [simp]: "topic_ns (ev_type (cfg_event_body e)) = ''cfg''"
  by (cases e) (simp_all add: topic_ns_def)

lemma schema_cfg:
  "ev_type (cfg_event_body e) = ev_type (cfg_event_body e') \<Longrightarrow>
   map fst (ev_payload (cfg_event_body e)) = map fst (ev_payload (cfg_event_body e'))"
  by (cases e; cases e') simp_all

lemma ns_res [simp]: "topic_ns (ev_type (res_event_body e)) = ''res''"
  by (cases e) (simp_all add: topic_ns_def)

lemma schema_res:
  "ev_type (res_event_body e) = ev_type (res_event_body e') \<Longrightarrow>
   map fst (ev_payload (res_event_body e)) = map fst (ev_payload (res_event_body e'))"
  by (cases e; cases e') simp_all

lemmas schema_within = schema_workflow
  schema_sandbox
  schema_health
  schema_behavior
  schema_swarm
  schema_planner
  schema_kg
  schema_mp
  schema_obs
  schema_sec
  schema_mcp
  schema_cfg
  schema_res

section \<open>Properties\<close>

text \<open>
  C4: the type string of an event decides its payload schema. Two events of declared classes that
  a subscriber receives under the same topic carry the same payload keys in the same order.
\<close>

theorem topic_fixes_schema:
  assumes "declared_event e" and "declared_event e'"
    and "ev_type (event_body e) = ev_type (event_body e')"
  shows "map fst (ev_payload (event_body e)) = map fst (ev_payload (event_body e'))"
proof -
  have ns: "topic_ns (ev_type (event_body e)) = topic_ns (ev_type (event_body e'))"
    using assms(3) by simp
  show ?thesis
    using assms(1,2) ns
    by (cases e; cases e'; simp add: declared_event_def)
       (use assms(3) in \<open>auto elim: schema_within\<close>)
qed

theorem topic_fixes_schema_witness:
  "map fst (ev_payload (event_body (HealthEv (AgentRecovered ''a'' 1)))) =
   map fst (ev_payload (event_body (HealthEv (AgentRecovered ''b'' 2))))"
  by (rule topic_fixes_schema) (simp_all add: declared_event_def)

text \<open>
  C5: the journal is append-only and its SQLite table mirrors it. Appending events with distinct
  ids, none of which the table of the opened file has, to a new durable store keeps them in order,
  adds exactly their rows to the table in that order behind those the file had, and a stream read
  returns the appended events of the aggregate in append order.
\<close>

theorem event_store_mirrors:
  assumes "distinct (map fst rows @ map st_id es)"
  shows "let s = fold (\<lambda>e s. snd (es_append e s)) es (event_store_init (Some rows))
         in read_all None s = es \<and> es_db s = Some (rows @ map (\<lambda>e. (st_id e, e)) es) \<and>
            read_stream a s = filter (\<lambda>e. ev_aggregate (st_event e) = a) es"
  using es_appends [of "event_store_init (Some rows)" rows es] assms
  by (simp add: event_store_init_def read_all_def read_stream_def)

theorem event_store_mirrors_witness:
  "let e1 = \<lparr>st_id = ''1'', st_event = event_body (ResEv (CircuitBreakerClosed ''c'' ''half_open'')), st_timestamp = 5, st_version = 1\<rparr>;
       e2 = \<lparr>st_id = ''2'', st_event = event_body (ResEv (DeadLetterEnqueued ''d'' ''boom'' 3)), st_timestamp = 6, st_version = 1\<rparr>;
       s = fold (\<lambda>e s. snd (es_append e s)) [e1, e2] (event_store_init (Some [(''0'', e1\<lparr>st_id := ''0''\<rparr>)]))
   in read_all None s = [e1, e2] \<and> read_stream ''d'' s = [e2]"
  using event_store_mirrors
    [of "[(''0'', \<lparr>st_id = ''0'', st_event = event_body (ResEv (CircuitBreakerClosed ''c'' ''half_open'')), st_timestamp = 5, st_version = 1\<rparr>)]"
        "[\<lparr>st_id = ''1'', st_event = event_body (ResEv (CircuitBreakerClosed ''c'' ''half_open'')), st_timestamp = 5, st_version = 1\<rparr>,
          \<lparr>st_id = ''2'', st_event = event_body (ResEv (DeadLetterEnqueued ''d'' ''boom'' 3)), st_timestamp = 6, st_version = 1\<rparr>]" "''d''"]
  by (simp add: Let_def)

end
