(* ===== verification/Bus.thy ===== *)
theory Bus
  imports Events
begin

text \<open>
  The asynchronous event bus of \<open>kernel/bus.py\<close>.

  \<^item> \<open>bus\<close> holds the subscriptions (type to subscription id to handler), the list of waiters and
    the futures \<open>wait_for\<close> handed out; a future is its index in \<open>bus_futs\<close>. The record is
    extensible: handlers run on a bus with whatever else they change as its extension, and may
    call the bus themselves.
  \<^item> Handlers are injected, so calling one is the parameter \<open>run\<close>. A handler awaits, and
    what other tasks do meanwhile is part of what \<open>run\<close> does to the state.
  \<^item> \<open>publish\<close> schedules \<open>dispatch\<close>; the code after the handlers runs without a further
    await, so \<open>settle\<close> is atomic.
\<close>

section \<open>Definitions\<close>

datatype future_state =
    Pending
  | Resolved event
  | TimedOut
  | Cancelled

record 'h bus =
  bus_subs :: "(string, (string, 'h) dict) dict"
  bus_waiters :: "(string list \<times> nat) list"
  bus_futs :: "future_state list"

definition bus_init :: "'h bus" where
  "bus_init = \<lparr>bus_subs = [], bus_waiters = [], bus_futs = []\<rparr>"

definition subscribe :: "string \<Rightarrow> string \<Rightarrow> 'h \<Rightarrow> ('h, 'a) bus_scheme \<Rightarrow> string \<times> ('h, 'a) bus_scheme" where
  "subscribe sub_id event_type handler b =
     (sub_id, b\<lparr>bus_subs := dmod event_type [] (dset sub_id handler) (bus_subs b)\<rparr>)"

text \<open>The loop over the handler dictionaries stops at the first that has the id.\<close>

fun pop_subscription ::
  "string \<Rightarrow> (string, (string, 'h) dict) dict \<Rightarrow> bool \<times> (string, (string, 'h) dict) dict" where
  "pop_subscription i [] = (False, [])"
| "pop_subscription i ((t, handlers) # subs) =
     (if dget handlers i \<noteq> None then (True, (t, ddel i handlers) # subs)
      else map_prod id ((#) (t, handlers)) (pop_subscription i subs))"

definition unsubscribe :: "string \<Rightarrow> ('h, 'a) bus_scheme \<Rightarrow> bool \<times> ('h, 'a) bus_scheme" where
  "unsubscribe subscription_id b =
     (let (found, subs) = pop_subscription subscription_id (bus_subs b)
      in (found, b\<lparr>bus_subs := subs\<rparr>))"

definition handlers_for :: "string \<Rightarrow> ('h, 'a) bus_scheme \<Rightarrow> 'h list" where
  "handlers_for event_type b = dvals (dget_or (bus_subs b) event_type [])"

text \<open>\<open>except Exception\<close> contains the fault; a cancellation is not an \<open>Exception\<close> and ends the task.\<close>

fun deliver ::
  "('h \<Rightarrow> event \<Rightarrow> 's \<Rightarrow> (unit, 's) res) \<Rightarrow> 'h list \<Rightarrow> event \<Rightarrow> 's \<Rightarrow> (unit, 's) res" where
  "deliver run [] e w = (Inr (), w)"
| "deliver run (h # hs) e w =
     (case run h e w of
        (Inr _, w') \<Rightarrow> deliver run hs e w'
      | (Inl x, w') \<Rightarrow> if catches ''Exception'' x then deliver run hs e w' else (Inl x, w'))"

definition fut_done :: "future_state list \<Rightarrow> nat \<Rightarrow> bool" where
  "fut_done futs f \<longleftrightarrow> futs ! f \<noteq> Pending"

fun resolve_waiters ::
  "event \<Rightarrow> (string list \<times> nat) list \<Rightarrow> future_state list \<Rightarrow> (string list \<times> nat) list \<times> future_state list" where
  "resolve_waiters e [] futs = ([], futs)"
| "resolve_waiters e ((types, f) # ws) futs =
     (if fut_done futs f then resolve_waiters e ws futs
      else if ev_type e \<in> set types then resolve_waiters e ws (futs[f := Resolved e])
      else map_prod ((#) (types, f)) id (resolve_waiters e ws futs))"

definition settle :: "event \<Rightarrow> ('h, 'a) bus_scheme \<Rightarrow> ('h, 'a) bus_scheme" where
  "settle e b =
     (let (ws, futs) = resolve_waiters e (bus_waiters b) (bus_futs b)
      in b\<lparr>bus_waiters := ws, bus_futs := futs\<rparr>)"

definition dispatch ::
  "('h \<Rightarrow> event \<Rightarrow> ('h, 'a) bus_scheme \<Rightarrow> (unit, ('h, 'a) bus_scheme) res) \<Rightarrow>
   event \<Rightarrow> ('h, 'a) bus_scheme \<Rightarrow> (unit, ('h, 'a) bus_scheme) res" where
  "dispatch run e b =
     (case deliver run (handlers_for (ev_type e) b) e b of
        (Inl x, b') \<Rightarrow> (Inl x, b')
      | (Inr _, b') \<Rightarrow> (Inr (), settle e b'))"

definition wait_for :: "string list \<Rightarrow> ('h, 'a) bus_scheme \<Rightarrow> nat \<times> ('h, 'a) bus_scheme" where
  "wait_for event_types b =
     (let f = length (bus_futs b)
      in (f, b\<lparr>bus_futs := bus_futs b @ [Pending], bus_waiters := bus_waiters b @ [(event_types, f)]\<rparr>))"

definition on_timeout :: "nat \<Rightarrow> ('h, 'a) bus_scheme \<Rightarrow> ('h, 'a) bus_scheme" where
  "on_timeout f b =
     (if fut_done (bus_futs b) f then b else b\<lparr>bus_futs := (bus_futs b)[f := TimedOut]\<rparr>)"

text \<open>\<open>Future.cancel\<close> on a future that is done changes nothing.\<close>

definition cancel_fut :: "nat \<Rightarrow> ('h, 'a) bus_scheme \<Rightarrow> ('h, 'a) bus_scheme" where
  "cancel_fut f b =
     (if fut_done (bus_futs b) f then b else b\<lparr>bus_futs := (bus_futs b)[f := Cancelled]\<rparr>)"

definition subscriber_count :: "string \<Rightarrow> ('h, 'a) bus_scheme \<Rightarrow> nat" where
  "subscriber_count event_type b = length (dget_or (bus_subs b) event_type [])"

definition bus_clear :: "('h, 'a) bus_scheme \<Rightarrow> ('h, 'a) bus_scheme" where
  "bus_clear b =
     (let b1 = b\<lparr>bus_subs := []\<rparr>;
          b2 = fold (\<lambda>(_, f). cancel_fut f) (bus_waiters b1) b1
      in b2\<lparr>bus_waiters := []\<rparr>)"

definition bus_close :: "('h, 'a) bus_scheme \<Rightarrow> ('h, 'a) bus_scheme" where
  "bus_close b =
     (let b1 = fold (\<lambda>(_, f). cancel_fut f) (bus_waiters b) b
      in b1\<lparr>bus_waiters := [], bus_subs := []\<rparr>)"

text \<open>
  What any task may do to the bus between two awaits. \<open>timeout\<close> is the loop's timer and
  \<open>cancel\<close> a client that cancels the future it got; the extension of the record may change freely.
\<close>

inductive bus_step :: "('h, 'a) bus_scheme \<Rightarrow> ('h, 'a) bus_scheme \<Rightarrow> bool" where
  step_subscribe: "bus_step b (snd (subscribe i t h b))"
| step_unsubscribe: "bus_step b (snd (unsubscribe i b))"
| step_wait_for: "bus_step b (snd (wait_for ts b))"
| step_settle: "bus_step b (settle e b)"
| step_timeout: "f < length (bus_futs b) \<Longrightarrow> bus_step b (on_timeout f b)"
| step_cancel: "f < length (bus_futs b) \<Longrightarrow> bus_step b (cancel_fut f b)"
| step_clear: "bus_step b (bus_clear b)"
| step_close: "bus_step b (bus_close b)"
| step_other: "bus_step b (bus.extend (bus.truncate b) m)"

definition bus_steps :: "('h, 'a) bus_scheme \<Rightarrow> ('h, 'a) bus_scheme \<Rightarrow> bool" where
  "bus_steps = bus_step\<^sup>*\<^sup>*"

text \<open>Waiters name existing futures, each once, and no pending future is forgotten.\<close>

definition bus_wf :: "('h, 'a) bus_scheme \<Rightarrow> bool" where
  "bus_wf b \<longleftrightarrow>
     snd ` set (bus_waiters b) \<subseteq> {..<length (bus_futs b)} \<and>
     distinct (map snd (bus_waiters b)) \<and>
     (\<forall>f < length (bus_futs b). bus_futs b ! f = Pending \<longrightarrow> f \<in> snd ` set (bus_waiters b))"

text \<open>A future that is done keeps its outcome, and futures are never dropped.\<close>

definition futs_le :: "future_state list \<Rightarrow> future_state list \<Rightarrow> bool" where
  "futs_le xs ys \<longleftrightarrow>
     length xs \<le> length ys \<and> (\<forall>f < length xs. xs ! f \<noteq> Pending \<longrightarrow> ys ! f = xs ! f)"

section \<open>Lemmas\<close>

lemma futs_le_refl [simp]: "futs_le xs xs"
  by (simp add: futs_le_def)

lemma futs_le_trans: "futs_le xs ys \<Longrightarrow> futs_le ys zs \<Longrightarrow> futs_le xs zs"
  by (auto simp: futs_le_def)

lemma futs_le_update: "xs ! f = Pending \<Longrightarrow> futs_le xs (xs[f := v])"
  by (auto simp: futs_le_def) (metis nth_list_update_neq)

lemma futs_le_append [simp]: "futs_le xs (xs @ ys)"
  by (simp add: futs_le_def nth_append)

lemma deliver_contained:
  assumes "\<And>h w x. fst (run h e w) = Inl x \<Longrightarrow> catches ''Exception'' x"
  shows "deliver run hs e w = (Inr (), fold (\<lambda>h w. snd (run h e w)) hs w)"
proof (induction hs arbitrary: w)
  case (Cons h hs)
  obtain r w' where run: "run h e w = (r, w')" by (cases "run h e w")
  with assms [of h w] Cons.IH [of w'] show ?case by (cases r) auto
qed simp

lemma resolve_length: "length (snd (resolve_waiters e ws futs)) = length futs"
  by (induction e ws futs rule: resolve_waiters.induct) auto

lemma resolve_futs_le: "futs_le futs (snd (resolve_waiters e ws futs))"
  by (induction e ws futs rule: resolve_waiters.induct)
     (auto simp: fut_done_def intro: futs_le_trans futs_le_update)

lemma resolve_subset: "set (fst (resolve_waiters e ws futs)) \<subseteq> set ws"
  by (induction e ws futs rule: resolve_waiters.induct) auto

lemma resolve_distinct:
  "distinct (map snd ws) \<Longrightarrow> distinct (map snd (fst (resolve_waiters e ws futs)))"
proof (induction e ws futs rule: resolve_waiters.induct)
  case (2 e types f ws futs)
  then show ?case using resolve_subset [of e ws futs] by (auto dest: subsetD)
qed simp

text \<open>What is still pending after the loop did not wait for this event, and still waits.\<close>

lemma resolve_pending:
  assumes "snd (resolve_waiters e ws futs) ! f = Pending" and "(types, f) \<in> set ws"
    and "\<forall>(_, g) \<in> set ws. g < length futs"
  shows "ev_type e \<notin> set types \<and> (types, f) \<in> set (fst (resolve_waiters e ws futs))"
  using assms
proof (induction e ws futs rule: resolve_waiters.induct)
  case (1 e futs)
  then show ?case by simp
next
  case (2 e ts g ws futs)
  have keep: "futs' ! f = Pending" if "futs_le futs' (snd (resolve_waiters e ws futs''))"
      "snd (resolve_waiters e ws futs'') ! f = Pending" "f < length futs'" for futs' futs''
    using that by (auto simp: futs_le_def)
  have bound: "f < length futs"
    using "2.prems" by auto
  show ?case
  proof (cases "fut_done futs g \<or> ev_type e \<in> set ts")
    case True
    have "f \<noteq> g"
    proof
      assume "f = g"
      then show False
        using True "2.prems"(1) bound keep [of futs futs] keep [of "futs[g := Resolved e]" "futs[g := Resolved e]"]
          resolve_futs_le [of futs e ws] resolve_futs_le [of "futs[g := Resolved e]" e ws]
        by (auto simp: fut_done_def split: if_splits)
    qed
    with True "2.prems" show ?thesis
      by (cases "fut_done futs g") (use "2.IH" in auto)
  next
    case False
    with "2.prems" "2.IH"(3) show ?thesis by auto
  qed
qed

lemma settle_futs_le: "futs_le (bus_futs b) (bus_futs (settle e b))"
  using resolve_futs_le [of "bus_futs b" e "bus_waiters b"]
  by (simp add: settle_def case_prod_beta)

lemma cancel_fut_facts:
  "bus_waiters (cancel_fut f b) = bus_waiters b"
  "length (bus_futs (cancel_fut f b)) = length (bus_futs b)"
  "futs_le (bus_futs b) (bus_futs (cancel_fut f b))"
  "f < length (bus_futs b) \<Longrightarrow> bus_futs (cancel_fut f b) ! f \<noteq> Pending"
  by (auto simp: cancel_fut_def fut_done_def intro: futs_le_update)

lemma cancel_futs_facts:
  "length (bus_futs (fold (\<lambda>(_, f). cancel_fut f) ws b)) = length (bus_futs b) \<and>
   futs_le (bus_futs b) (bus_futs (fold (\<lambda>(_, f). cancel_fut f) ws b))"
proof (induction ws arbitrary: b)
  case Nil
  then show ?case by simp
next
  case (Cons w ws)
  obtain ts f where [simp]: "w = (ts, f)" by (cases w)
  from Cons.IH [of "cancel_fut f b"] cancel_fut_facts [where b = b and f = f]
  show ?case by (auto intro: futs_le_trans)
qed

lemma cancel_futs_done:
  assumes "f \<in> snd ` set ws" and "f < length (bus_futs b)"
  shows "bus_futs (fold (\<lambda>(_, f). cancel_fut f) ws b) ! f \<noteq> Pending"
  using assms
proof (induction ws arbitrary: b)
  case (Cons w ws)
  obtain ts g where [simp]: "w = (ts, g)" by (cases w)
  show ?case
  proof (cases "f \<in> snd ` set ws")
    case True
    with Cons.IH [of "cancel_fut g b"] Cons.prems show ?thesis by (simp add: cancel_fut_facts)
  next
    case False
    with Cons.prems have "f = g" by simp
    with cancel_futs_facts [where b = "cancel_fut g b" and ws = ws] Cons.prems cancel_fut_facts [where b = b and f = g]
    show ?thesis by (auto simp: futs_le_def)
  qed
qed simp

lemma bus_wf_cleared:
  assumes "bus_wf b" and "bus_waiters b' = []"
    and "bus_futs b' = bus_futs (fold (\<lambda>(_, f). cancel_fut f) (bus_waiters b) c)"
    and "bus_futs c = bus_futs b"
  shows "bus_wf b'"
  using assms cancel_futs_facts [where b = c and ws = "bus_waiters b"] cancel_futs_done [of _ "bus_waiters b" c]
  by (auto simp: bus_wf_def futs_le_def)

lemma bus_wf_settle:
  assumes "bus_wf b"
  shows "bus_wf (settle e b)"
proof -
  let ?r = "resolve_waiters e (bus_waiters b) (bus_futs b)"
  have bound: "\<forall>(_, g) \<in> set (bus_waiters b). g < length (bus_futs b)"
    using assms by (auto simp: bus_wf_def)
  have "f \<in> snd ` set (fst ?r)" if f: "f < length (bus_futs b)" "snd ?r ! f = Pending" for f
  proof -
    have "bus_futs b ! f = Pending"
      using f resolve_futs_le [of "bus_futs b" e "bus_waiters b"] by (auto simp: futs_le_def)
    then obtain types where "(types, f) \<in> set (bus_waiters b)"
      using assms f(1) unfolding bus_wf_def by fastforce
    with resolve_pending [OF f(2) this bound] show ?thesis by force
  qed
  then show ?thesis
    using assms resolve_subset [of e "bus_waiters b" "bus_futs b"] resolve_distinct [of "bus_waiters b" e "bus_futs b"]
      resolve_length [of e "bus_waiters b" "bus_futs b"]
    by (auto simp: bus_wf_def settle_def split: prod.splits) fastforce+
qed

lemma fut_set_wf:
  assumes "bus_wf b"
  shows "bus_wf (on_timeout f b)" "bus_wf (cancel_fut f b)"
  using assms
  by (auto simp: bus_wf_def on_timeout_def cancel_fut_def)
     (metis future_state.distinct nth_list_update_eq nth_list_update_neq)+

lemma bus_step_wf: "bus_step b b' \<Longrightarrow> bus_wf b \<Longrightarrow> bus_wf b'"
proof (induction rule: bus_step.induct)
  case (step_wait_for b ts)
  then show ?case
    by (auto simp: bus_wf_def wait_for_def Let_def nth_append less_Suc_eq subset_eq)
next
  case (step_clear b)
  show ?case
    by (rule bus_wf_cleared [OF step_clear, where c = "b\<lparr>bus_subs := []\<rparr>"])
       (simp_all add: bus_clear_def Let_def)
next
  case (step_close b)
  show ?case
    by (rule bus_wf_cleared [OF step_close, where c = b]) (simp_all add: bus_close_def Let_def)
qed (simp_all add: fut_set_wf bus_wf_settle,
     simp_all add: bus_wf_def subscribe_def unsubscribe_def bus.defs split: prod.splits)

lemma bus_step_futs_le: "bus_step b b' \<Longrightarrow> futs_le (bus_futs b) (bus_futs b')"
proof (induction rule: bus_step.induct)
  case (step_clear b)
  then show ?case
    using cancel_futs_facts [where b = "b\<lparr>bus_subs := []\<rparr>" and ws = "bus_waiters b"] by (simp add: bus_clear_def Let_def)
next
  case (step_close b)
  then show ?case
    using cancel_futs_facts [where b = b and ws = "bus_waiters b"] by (simp add: bus_close_def Let_def)
next
  case (step_timeout f b)
  then show ?case by (simp add: on_timeout_def fut_done_def futs_le_update)
qed (simp_all add: settle_futs_le cancel_fut_facts subscribe_def unsubscribe_def wait_for_def
       bus.defs Let_def split: prod.splits)

lemma bus_steps_invariant:
  "bus_steps b b' \<Longrightarrow> bus_wf b \<Longrightarrow> bus_wf b' \<and> futs_le (bus_futs b) (bus_futs b')"
  unfolding bus_steps_def
  by (induction rule: rtranclp_induct) (auto intro: bus_step_wf futs_le_trans dest: bus_step_futs_le)

lemma deliver_steps:
  assumes "\<And>h b. bus_steps b (snd (run h e b))"
  shows "bus_steps b (snd (deliver run hs e b))"
  using assms
  by (induction hs arbitrary: b)
     (auto simp: bus_steps_def split: prod.splits sum.splits intro: rtranclp_trans,
      (metis rtranclp_trans snd_conv)+)

lemma dispatch_steps:
  assumes "\<And>h b. bus_steps b (snd (run h e b))"
  shows "bus_steps b (snd (dispatch run e b))"
  using deliver_steps [where run = run and e = e and hs = "handlers_for (ev_type e) b" and b = b, OF assms]
  by (auto simp: dispatch_def bus_steps_def split: prod.splits sum.splits
      intro: rtranclp.rtrancl_into_rtrancl step_settle)

lemma resolve_matching:
  assumes "(types, f) \<in> set ws" and "ev_type e \<in> set types" and "futs ! f = Pending" and "f < length futs"
    and "distinct (map snd ws)"
  shows "snd (resolve_waiters e ws futs) ! f = Resolved e"
  using assms
proof (induction e ws futs rule: resolve_waiters.induct)
  case (2 e ts g ws futs)
  show ?case
  proof (cases "f = g")
    case True
    with "2.prems" have "ts = types" by force
    moreover have "snd (resolve_waiters e ws (futs[g := Resolved e])) ! g = Resolved e"
      using resolve_futs_le [of "futs[g := Resolved e]" e ws] "2.prems"(4) True
      by (auto simp: futs_le_def)
    ultimately show ?thesis using True "2.prems" by (simp add: fut_done_def)
  next
    case False
    with 2 show ?thesis by auto
  qed
qed simp

lemma bus_step_waiters:
  assumes "bus_step b b'" and "f < length (bus_futs b)" and "(types, f) \<in> set (bus_waiters b')"
  shows "(types, f) \<in> set (bus_waiters b)"
  using assms
proof (induction rule: bus_step.induct)
  case (step_settle b e)
  then show ?case
    using resolve_subset [of e "bus_waiters b" "bus_futs b"] by (auto simp: settle_def split: prod.splits)
qed (auto simp: subscribe_def unsubscribe_def wait_for_def on_timeout_def cancel_fut_facts
       bus_clear_def bus_close_def bus.defs Let_def split: prod.splits if_splits)

lemma bus_steps_waiters:
  assumes "bus_steps b b'" and "f < length (bus_futs b)" and "(types, f) \<in> set (bus_waiters b')"
  shows "(types, f) \<in> set (bus_waiters b)"
  using assms unfolding bus_steps_def
proof (induction rule: rtranclp_induct)
  case (step b1 b2)
  have "futs_le (bus_futs b) (bus_futs b1)"
    using step.hyps(1) by (induction rule: rtranclp_induct) (auto intro: futs_le_trans dest: bus_step_futs_le)
  then have "f < length (bus_futs b1)"
    using step.prems(1) by (simp add: futs_le_def)
  with bus_step_waiters [OF step.hyps(2)] step.prems step.IH show ?case by blast
qed simp

lemma bus_wf_init [simp]: "bus_wf (bus.extend bus_init m)"
  by (simp add: bus_wf_def bus_init_def bus.defs)

lemma ddel_dset_fresh: "dget d k = None \<Longrightarrow> ddel k (dset k v d) = d"
  by (induction d) (auto split: if_splits)

lemma pop_dset:
  assumes "\<And>t' hs. (t', hs) \<in> set subs \<Longrightarrow> dget hs i = None" and "dget hs i = None"
  shows "pop_subscription i (dset t (dset i h hs) subs) = (True, dset t hs subs)"
  using assms
proof (induction subs)
  case Nil
  then show ?case by (simp add: ddel_dset_fresh)
next
  case (Cons s subs)
  obtain t' hs' where [simp]: "s = (t', hs')" by (cases s)
  have "dget hs' i = None" using Cons.prems(1) by auto
  moreover have "pop_subscription i (dset t (dset i h hs) subs) = (True, dset t hs subs)"
    using Cons by (metis list.set_intros(2))
  ultimately show ?case using Cons.prems(2) by (simp add: ddel_dset_fresh)
qed

lemma pop_fresh:
  assumes "\<And>t' hs. (t', hs) \<in> set subs \<Longrightarrow> dget hs i = None"
  shows "dget_or (snd (pop_subscription i (dmod t [] (dset i h) subs))) t' [] = dget_or subs t' []"
    and "fst (pop_subscription i (dmod t [] (dset i h) subs))"
proof -
  have "dget (dget_or subs t []) i = None"
    using assms dget_Some_in [of subs t] by (auto simp: dget_or_def split: option.splits)
  from pop_dset [where t = t and h = h, OF assms this]
  show "dget_or (snd (pop_subscription i (dmod t [] (dset i h) subs))) t' [] = dget_or subs t' []"
    and "fst (pop_subscription i (dmod t [] (dset i h) subs))"
    by (auto simp: dmod_def dget_or_def dget_dset split: option.splits)
qed

section \<open>Properties\<close>

text \<open>
  C6: fault containment. Whatever the subscribers of an event do to the bus and whichever of them
  raise, as long as what they raise is an \<open>Exception\<close>, the dispatch task ends normally, has called
  every handler subscribed when it started exactly once and in subscription order, and has settled
  the waiters on the state the handlers left.
\<close>

theorem dispatch_contains_faults:
  assumes "\<And>h b x. fst (run h e b) = Inl x \<Longrightarrow> catches ''Exception'' x"
  shows "dispatch run e b =
           (Inr (), settle e (fold (\<lambda>h b. snd (run h e b)) (handlers_for (ev_type e) b) b))"
  using deliver_contained [of run e] assms by (simp add: dispatch_def)

theorem dispatch_contains_faults_witness:
  "let e = event_body (HealthEv (AgentRecovered ''a'' 1));
       run = (\<lambda>h e b. (if h = (0 :: nat) then Inl (ValueError ''boom'') else Inr (), snd (wait_for [''t''] b)));
       b = snd (subscribe ''s2'' ''health.agent_recovered'' 1 (snd (subscribe ''s1'' ''health.agent_recovered'' 0 bus_init)))
   in fst (dispatch run e b) = Inr () \<and> bus_futs (snd (dispatch run e b)) = [Pending, Pending]"
  unfolding Let_def
  by (subst (1 2) dispatch_contains_faults)
     (auto simp: exn_simps subscribe_def bus_init_def dmod_def dget_or_def handlers_for_def wait_for_def
        settle_def fut_done_def split: if_splits)

text \<open>
  The synchronous barrier loses no wake-up and is settled once. Take any reachable bus, wait on
  some types, and let any tasks run (subscribing, waiting, timing out, cancelling, clearing, other
  dispatches). When an event of an awaited type is then settled, the future holds that event if it
  was still pending, and its earlier outcome otherwise; and nothing that happens later changes it.
\<close>

theorem wait_for_settles_once:
  assumes reach: "bus_steps (bus.extend bus_init m) b" and wait: "wait_for types b = (f, b1)"
    and run: "bus_steps b1 b2" and event: "ev_type e \<in> set types"
    and later: "bus_steps (settle e b2) b3"
  shows "bus_futs (settle e b2) ! f = (if bus_futs b2 ! f = Pending then Resolved e else bus_futs b2 ! f) \<and>
         bus_futs b3 ! f = bus_futs (settle e b2) ! f"
proof -
  have wf: "bus_wf b" "bus_wf b1"
    using bus_steps_invariant [OF reach] wait bus_step_wf [OF step_wait_for, of b types] by auto
  have f: "f < length (bus_futs b1)" and ws: "bus_waiters b1 = bus_waiters b @ [(types, f)]"
    using wait by (auto simp: wait_for_def Let_def)
  have wf2: "bus_wf b2" "f < length (bus_futs b2)" "f < length (bus_futs (settle e b2))"
    using bus_steps_invariant [OF run wf(2)] f settle_futs_le [of b2 e] by (auto simp: futs_le_def)
  have only: "types' = types" if "(types', f) \<in> set (bus_waiters b2)" for types'
  proof -
    have "(types', f) \<in> set (bus_waiters b1)" by (rule bus_steps_waiters [OF run f that])
    with ws wf(2) show ?thesis by (force simp: bus_wf_def)
  qed
  have now: "bus_futs (settle e b2) ! f = (if bus_futs b2 ! f = Pending then Resolved e else bus_futs b2 ! f)"
  proof (cases "bus_futs b2 ! f = Pending")
    case True
    then obtain types' where "(types', f) \<in> set (bus_waiters b2)"
      using wf2 unfolding bus_wf_def by fastforce
    with only have "(types, f) \<in> set (bus_waiters b2)" by blast
    then show ?thesis
      using resolve_matching [of types f _ e] event True wf2
      by (simp add: settle_def case_prod_beta bus_wf_def)
  next
    case False
    then show ?thesis using settle_futs_le [of b2 e] wf2 by (simp add: futs_le_def)
  qed
  then have "bus_futs (settle e b2) ! f \<noteq> Pending" by (auto split: if_splits)
  then have "bus_futs b3 ! f = bus_futs (settle e b2) ! f"
    using bus_steps_invariant [OF later bus_wf_settle [OF wf2(1)]] wf2(3) by (simp add: futs_le_def)
  with now show ?thesis ..
qed

theorem wait_for_settles_once_witness:
  "let e = event_body (HealthEv (AgentRecovered ''a'' 1));
       b1 = snd (wait_for [''health.agent_recovered''] (bus.extend (bus_init :: nat bus) ()));
       b2 = settle e b1
   in bus_futs b2 ! 0 = Resolved e \<and> bus_futs (on_timeout 0 b2) ! 0 = Resolved e"
proof -
  let ?e = "event_body (HealthEv (AgentRecovered ''a'' 1))"
  let ?b = "bus.extend (bus_init :: nat bus) ()"
  let ?b1 = "snd (wait_for [''health.agent_recovered''] ?b)"
  have refl: "bus_steps b b" for b :: "nat bus" by (simp add: bus_steps_def)
  have wait: "wait_for [''health.agent_recovered''] ?b = (0, ?b1)"
    by (simp add: wait_for_def bus_init_def bus.defs)
  have step: "bus_steps (settle ?e ?b1) (on_timeout 0 (settle ?e ?b1))"
    unfolding bus_steps_def
    by (intro r_into_rtranclp step_timeout)
       (simp add: wait_for_def bus_init_def bus.defs settle_def fut_done_def)
  show ?thesis
    using wait_for_settles_once [OF refl wait refl _ step]
    by (simp add: Let_def wait_for_def bus_init_def bus.defs)
qed

text \<open>
  Unsubscribing undoes a subscription: with a fresh id the bus reports the subscription as
  found, and every topic is left with exactly the handlers, in the order, it had before.
\<close>

theorem unsubscribe_subscribe:
  assumes "\<And>t' hs. (t', hs) \<in> set (bus_subs b) \<Longrightarrow> dget hs i = None"
  shows "fst (unsubscribe i (snd (subscribe i t h b))) \<and>
         handlers_for t' (snd (unsubscribe i (snd (subscribe i t h b)))) = handlers_for t' b"
  using pop_fresh [where subs = "bus_subs b" and i = i and t = t and h = h, OF assms]
  by (auto simp: unsubscribe_def subscribe_def handlers_for_def case_prod_beta)

theorem unsubscribe_subscribe_witness:
  "let b = snd (subscribe ''s1'' ''t'' (0 :: nat) bus_init)
   in handlers_for ''t'' (snd (unsubscribe ''s2'' (snd (subscribe ''s2'' ''t'' 1 b)))) = [0]"
  unfolding Let_def
  by (subst unsubscribe_subscribe [THEN conjunct2])
     (auto simp: subscribe_def bus_init_def dmod_def dget_or_def handlers_for_def)

end
