(* ===== verification/Access.thy ===== *)
theory Access
  imports Prelude
begin

text \<open>
  Users and roles: \<open>kernel/auth.py\<close> and \<open>kernel/rbac.py\<close>.

  \<^item> The key derivation \<open>hashlib.pbkdf2_hmac\<close> is the parameter \<open>kdf\<close> (password, salt, digest bytes);
    nothing is assumed of it. Bytes are numbers below 256, printed and parsed as hexadecimal.
  \<^item> The random salt and the id of a new user are arguments of the operations that draw them.
  \<^item> \<open>rbac\<close> holds the \<open>AuthRegistry\<close> it was given: \<open>assign_role\<close> changes the shared user.
\<close>

section \<open>Passwords\<close>

type_synonym bytes = "nat list"

definition hex_digit :: "nat \<Rightarrow> char" where
  "hex_digit n = (if n < 10 then char_of (48 + n) else char_of (87 + n))"

definition hex_byte :: "nat \<Rightarrow> string" where
  "hex_byte n = [hex_digit (n div 16), hex_digit (n mod 16)]"

definition hex :: "bytes \<Rightarrow> string" where
  "hex bs = concat (map hex_byte bs)"

definition unhex_digit :: "char \<Rightarrow> nat option" where
  "unhex_digit c =
     (let n = (of_char c :: nat)
      in if 48 \<le> n \<and> n \<le> 57 then Some (n - 48)
         else if 97 \<le> n \<and> n \<le> 102 then Some (n - 87)
         else if 65 \<le> n \<and> n \<le> 70 then Some (n - 55)
         else None)"

text \<open>\<open>bytes.fromhex\<close>: white space may stand between bytes; anything else that is not two digits raises.\<close>

definition hex_space :: "char \<Rightarrow> bool" where
  "hex_space c \<longleftrightarrow> (let n = (of_char c :: nat) in n = 32 \<or> 9 \<le> n \<and> n \<le> 13)"

fun fromhex :: "string \<Rightarrow> bytes option" where
  "fromhex [] = Some []"
| "fromhex [c] = (if hex_space c then Some [] else None)"
| "fromhex (c # d # s) =
     (if hex_space c then fromhex (d # s)
      else
        (case (unhex_digit c, unhex_digit d) of
           (Some a, Some b) \<Rightarrow> map_option (\<lambda>bs. (16 * a + b) # bs) (fromhex s)
         | _ \<Rightarrow> None))"

definition hash_password :: "(string \<Rightarrow> bytes \<Rightarrow> bytes) \<Rightarrow> string \<Rightarrow> bytes \<Rightarrow> string" where
  "hash_password kdf password salt = hex salt @ ''$'' @ hex (kdf password salt)"

definition verify_password :: "(string \<Rightarrow> bytes \<Rightarrow> bytes) \<Rightarrow> string \<Rightarrow> string \<Rightarrow> bool" where
  "verify_password kdf password stored =
     (case split_once ''$'' stored of
        None \<Rightarrow> False
      | Some (salt_hex, hash_hex) \<Rightarrow>
          (case fromhex salt_hex of
             None \<Rightarrow> False
           | Some salt \<Rightarrow> hex (kdf password salt) = hash_hex))"

section \<open>AuthRegistry\<close>

record user =
  u_id :: string
  u_username :: string
  u_hashed_password :: string
  u_roles :: "string list"

record auth =
  au_by_id :: "(string, user) dict"
  au_by_username :: "(string, string) dict"

definition auth_init :: auth where
  "auth_init = \<lparr>au_by_id = [], au_by_username = []\<rparr>"

definition auth_register ::
  "(string \<Rightarrow> bytes \<Rightarrow> bytes) \<Rightarrow> string \<Rightarrow> bytes \<Rightarrow> string \<Rightarrow> string \<Rightarrow> string list \<Rightarrow> auth \<Rightarrow> (user, auth) res" where
  "auth_register kdf uid salt username password roles a =
     (if dget (au_by_username a) username \<noteq> None
      then (Inl (ValueError (''username '' @ quoted username @ '' already registered'')), a)
      else
        (let user = \<lparr>u_id = uid, u_username = username, u_hashed_password = hash_password kdf password salt, u_roles = roles\<rparr>
         in (Inr user, a\<lparr>au_by_id := dset uid user (au_by_id a), au_by_username := dset username uid (au_by_username a)\<rparr>)))"

text \<open>\<open>self._by_id[user_id]\<close> raises \<open>KeyError\<close> if the user is missing; \<open>auth_wf\<close> below excludes it.\<close>

definition authenticate ::
  "(string \<Rightarrow> bytes \<Rightarrow> bytes) \<Rightarrow> string \<Rightarrow> string \<Rightarrow> auth \<Rightarrow> exn + user option" where
  "authenticate kdf username password a =
     (case dget (au_by_username a) username of
        None \<Rightarrow> Inr None
      | Some uid \<Rightarrow>
          (case dget (au_by_id a) uid of
             None \<Rightarrow> Inl (KeyError uid)
           | Some user \<Rightarrow> Inr (if verify_password kdf password (u_hashed_password user) then Some user else None)))"

definition get_user :: "auth \<Rightarrow> string \<Rightarrow> user option" where
  "get_user a uid = dget (au_by_id a) uid"

definition get_by_username :: "auth \<Rightarrow> string \<Rightarrow> user option" where
  "get_by_username a username =
     (case dget (au_by_username a) username of
        None \<Rightarrow> None
      | Some uid \<Rightarrow> if uid = [] then None else dget (au_by_id a) uid)"

definition has_role :: "auth \<Rightarrow> string \<Rightarrow> string \<Rightarrow> bool" where
  "has_role a uid role = (case dget (au_by_id a) uid of None \<Rightarrow> False | Some user \<Rightarrow> role \<in> set (u_roles user))"

definition list_users :: "auth \<Rightarrow> user list" where
  "list_users a = dvals (au_by_id a)"

text \<open>Every username leads to the user of that name.\<close>

definition auth_wf :: "auth \<Rightarrow> bool" where
  "auth_wf a \<longleftrightarrow>
     (\<forall>(name, uid) \<in> set (au_by_username a).
        case dget (au_by_id a) uid of None \<Rightarrow> False | Some user \<Rightarrow> u_username user = name \<and> u_id user = uid)"

section \<open>RBACRegistry\<close>

type_synonym rperm = "string \<times> string"

record role =
  ro_name :: string
  ro_permissions :: "rperm list"

record rbac =
  rb_auth :: auth
  rb_roles :: "(string, role) dict"

definition perm_str :: "rperm \<Rightarrow> string" where
  "perm_str p = fst p @ '':'' @ snd p"

definition create_role :: "string \<Rightarrow> rperm list \<Rightarrow> rbac \<Rightarrow> role \<times> rbac" where
  "create_role name permissions r =
     (let role = \<lparr>ro_name = name, ro_permissions = permissions\<rparr>
      in (role, r\<lparr>rb_roles := dset name role (rb_roles r)\<rparr>))"

definition assign_role :: "string \<Rightarrow> string \<Rightarrow> rbac \<Rightarrow> (unit, rbac) res" where
  "assign_role uid role_name r =
     (if dget (rb_roles r) role_name = None
      then (Inl (ValueError (''role '' @ quoted role_name @ '' does not exist'')), r)
      else
        (case get_user (rb_auth r) uid of
           None \<Rightarrow> (Inl (ValueError (''user '' @ quoted uid @ '' not found'')), r)
         | Some user \<Rightarrow>
             (Inr (),
              if role_name \<in> set (u_roles user) then r
              else r\<lparr>rb_auth := (rb_auth r)\<lparr>au_by_id :=
                     dset uid (user\<lparr>u_roles := u_roles user @ [role_name]\<rparr>) (au_by_id (rb_auth r))\<rparr>\<rparr>)))"

definition list_roles :: "rbac \<Rightarrow> role list" where
  "list_roles r = dvals (rb_roles r)"

definition get_role :: "rbac \<Rightarrow> string \<Rightarrow> role option" where
  "get_role r name = dget (rb_roles r) name"

definition check_permission :: "rbac \<Rightarrow> string \<Rightarrow> rperm \<Rightarrow> bool" where
  "check_permission r uid p =
     (case get_user (rb_auth r) uid of
        None \<Rightarrow> False
      | Some user \<Rightarrow>
          \<exists>name \<in> set (u_roles user).
            case dget (rb_roles r) name of None \<Rightarrow> False | Some role \<Rightarrow> p \<in> set (ro_permissions role))"

definition require_permission :: "rbac \<Rightarrow> string \<Rightarrow> rperm \<Rightarrow> exn + unit" where
  "require_permission r uid p =
     (if \<not> check_permission r uid p
      then Inl (PermissionError (''user '' @ quoted uid @ '' lacks permission '' @ perm_str p))
      else Inr ())"

definition permissions_of :: "rbac \<Rightarrow> string \<Rightarrow> rperm set" where
  "permissions_of r uid =
     (case get_user (rb_auth r) uid of
        None \<Rightarrow> {}
      | Some user \<Rightarrow>
          \<Union> ((\<lambda>name. case dget (rb_roles r) name of None \<Rightarrow> {} | Some role \<Rightarrow> set (ro_permissions role)) ` set (u_roles user)))"

section \<open>Lemmas\<close>

lemma unhex_hex_digit: "n < 16 \<Longrightarrow> unhex_digit (hex_digit n) = Some n"
  by (auto simp: unhex_digit_def hex_digit_def Let_def)

lemma hex_digit_not_space: "n < 16 \<Longrightarrow> \<not> hex_space (hex_digit n)"
  by (auto simp: hex_space_def hex_digit_def Let_def)

lemma hex_digit_not_dollar:
  "n < 16 \<Longrightarrow> hex_digit n \<noteq> CHR ''$''"
proof
  assume n: "n < 16" and eq: "hex_digit n = CHR ''$''"
  from unhex_hex_digit [OF n] have "unhex_digit (CHR ''$'') = Some n" unfolding eq .
  then show False by (simp add: unhex_digit_def)
qed

lemma fromhex_hex: "\<forall>b \<in> set bs. b < 256 \<Longrightarrow> fromhex (hex bs) = Some bs"
proof (induction bs)
  case (Cons b bs)
  then have "b div 16 < 16" "b mod 16 < 16" by auto
  with Cons show ?case
    by (simp add: hex_def hex_byte_def unhex_hex_digit hex_digit_not_space)
qed (simp add: hex_def)

lemma hex_no_dollar: "\<forall>b \<in> set bs. b < 256 \<Longrightarrow> CHR ''$'' \<notin> set (hex bs)"
proof (induction bs)
  case (Cons b bs)
  then have "b div 16 < 16" "b mod 16 < 16" by auto
  with Cons hex_digit_not_dollar [of "b div 16"] hex_digit_not_dollar [of "b mod 16"] show ?case
    by (auto simp: hex_def hex_byte_def)
qed (simp add: hex_def)

lemma split_once_char: "c \<notin> set a \<Longrightarrow> split_once [c] (a @ [c] @ b) = Some (a, b)"
  by (induction a) (auto simp: startswith_def)

lemma verify_hash:
  assumes "\<forall>b \<in> set salt. b < 256"
  shows "verify_password kdf p' (hash_password kdf p salt) \<longleftrightarrow> hex (kdf p' salt) = hex (kdf p salt)"
  using split_once_char [OF hex_no_dollar [OF assms], of "hex (kdf p salt)"] fromhex_hex [OF assms]
  by (simp add: verify_password_def hash_password_def)

lemma auth_wf_register:
  assumes "auth_wf a" and "uid \<notin> fst ` set (au_by_id a)"
  shows "auth_wf (snd (auth_register kdf uid salt username password roles a))"
proof -
  have "uid' \<noteq> uid" if "(name, uid') \<in> set (au_by_username a)" for name uid'
    using assms that by (force simp: auth_wf_def dget_None_iff [THEN iffD2] split: option.splits)
  with assms(1) show ?thesis
    by (auto simp: auth_register_def auth_wf_def Let_def dget_dset dest!: in_dsetD split: if_splits)
qed

lemma permissions_of_iff: "p \<in> permissions_of r uid \<longleftrightarrow> check_permission r uid p"
  by (auto simp: permissions_of_def check_permission_def split: option.splits)

section \<open>Properties\<close>

text \<open>
  Passwords round-trip and authentication is exact. In a registry whose usernames lead to their
  users, register a new user under a fresh id: authenticating under that name returns the user exactly
  for the passwords whose derived key equals the stored one (so for the registered password), a
  second registration of the name is refused and changes nothing, and what any other name
  authenticates to is unchanged.
\<close>

theorem authenticate_registered:
  assumes "auth_wf a" and "uid \<notin> fst ` set (au_by_id a)" and "dget (au_by_username a) username = None"
    and "\<forall>b \<in> set salt. b < 256"
  shows "let (r, a') = auth_register kdf uid salt username password roles a
         in auth_wf a' \<and>
            (\<exists>user. r = Inr user \<and> u_roles user = roles \<and>
               (\<forall>p. authenticate kdf username p a' =
                  Inr (if hex (kdf p salt) = hex (kdf password salt) then Some user else None))) \<and>
            (\<exists>x. \<forall>uid' salt' p' roles'. auth_register kdf uid' salt' username p' roles' a' = (Inl x, a')) \<and>
            (\<forall>other p. other \<noteq> username \<longrightarrow> authenticate kdf other p a' = authenticate kdf other p a)"
proof -
  have "uid' \<noteq> uid" if "dget (au_by_username a) name = Some uid'" for name uid'
    using assms(1,2) dget_Some_in [OF that]
    by (force simp: auth_wf_def dget_None_iff [THEN iffD2] split: option.splits)
  moreover have "auth_wf (snd (auth_register kdf uid salt username password roles a))"
    using assms(1,2) by (rule auth_wf_register)
  ultimately show ?thesis
    using assms(3) verify_hash [OF assms(4)]
    by (auto simp: auth_register_def authenticate_def Let_def dget_dset split: option.splits)
qed

theorem authenticate_registered_witness:
  "let a' = snd (auth_register (\<lambda>p s. map of_char p @ s) ''1'' [7, 200] ''ann'' ''pw'' [] auth_init)
   in \<exists>user. authenticate (\<lambda>p s. map of_char p @ s) ''ann'' ''pw'' a' = Inr (Some user)"
  using authenticate_registered [of auth_init "''1''" "''ann''" "[7, 200]" "\<lambda>p s. map of_char p @ s" "''pw''" "[]"]
  by (auto simp: auth_wf_def auth_init_def Let_def case_prod_beta)

text \<open>
  Assigning a role grants exactly its permissions. The checker and the listing agree;
  \<open>require_permission\<close> raises exactly when the check fails; and a role assignment that succeeds adds
  the permissions of the role to that user, takes none away, and changes no other user.
\<close>

theorem assign_role_grants:
  assumes "dget (rb_roles r) role_name = Some role" and "get_user (rb_auth r) uid = Some user"
  shows "let (res, r') = assign_role uid role_name r
         in res = Inr () \<and>
            (\<forall>u p. check_permission r' u p \<longleftrightarrow> check_permission r u p \<or> (u = uid \<and> p \<in> set (ro_permissions role))) \<and>
            (\<forall>u. permissions_of r' u = permissions_of r u \<union> (if u = uid then set (ro_permissions role) else {})) \<and>
            (\<forall>u p. require_permission r' u p = Inr () \<longleftrightarrow> p \<in> permissions_of r' u)"
proof -
  have check: "check_permission (snd (assign_role uid role_name r)) u p \<longleftrightarrow>
      check_permission r u p \<or> (u = uid \<and> p \<in> set (ro_permissions role))" for u p
    using assms
    by (cases "u = uid"; cases "role_name \<in> set (u_roles user)")
       (auto simp: assign_role_def check_permission_def get_user_def dget_dset split: option.splits)
  have "permissions_of (snd (assign_role uid role_name r)) u =
      permissions_of r u \<union> (if u = uid then set (ro_permissions role) else {})" for u
    by (auto simp: permissions_of_iff check set_eq_iff)
  with check assms show ?thesis
    by (auto simp: Let_def case_prod_beta require_permission_def permissions_of_iff) (auto simp: assign_role_def)
qed

theorem assign_role_grants_witness:
  "let a = snd (auth_register (\<lambda>p s. s) ''1'' [7] ''ann'' ''pw'' [] auth_init);
       r = snd (create_role ''admin'' [(''workspace'', ''create'')] \<lparr>rb_auth = a, rb_roles = []\<rparr>);
       r' = snd (assign_role ''1'' ''admin'' r)
   in check_permission r' ''1'' (''workspace'', ''create'')"
  using assign_role_grants
    [of "snd (create_role ''admin'' [(''workspace'', ''create'')]
           \<lparr>rb_auth = snd (auth_register (\<lambda>p s. s) ''1'' [7] ''ann'' ''pw'' [] auth_init), rb_roles = []\<rparr>)"
        "''admin''" "\<lparr>ro_name = ''admin'', ro_permissions = [(''workspace'', ''create'')]\<rparr>" "''1''"
        "\<lparr>u_id = ''1'', u_username = ''ann'', u_hashed_password = hash_password (\<lambda>p s. s) ''pw'' [7], u_roles = []\<rparr>"]
  by (simp add: Let_def create_role_def auth_register_def auth_init_def get_user_def case_prod_beta)

end
