(* ===== verification/Health.thy ===== *)
theory Health
  imports Bus
begin

text \<open>
  Health recovery: \<open>kernel/health.py\<close> and its models in \<open>kernel/domain.py\<close>.

  \<^item> \<open>monitor\<close> is \<open>HealthMonitor\<close>. A probe awaits while the monitor may be changed, and the result
    goes to the registration the probe started with, so registrations live in \<open>hm_objs\<close> and the
    registry maps ids to positions. The probe is a parameter; the timeout of \<open>wait_for\<close> is one of the
    exceptions it may raise.
  \<^item> \<open>dlq\<close> is \<open>DeadLetterQueue\<close>; its entries are mutated in place.
  \<^item> \<open>breakers\<close> is \<open>CircuitBreaker\<close>, one state object per capability, again by position because
    \<open>reset\<close> replaces the object under a running call.
  \<^item> \<open>recovery\<close> is \<open>RecoveryEngine\<close>; the agent runtime and the workflow engine it is given are
    parameters.
\<close>

section \<open>HealthMonitor\<close>

datatype health_status = HEALTHY | DEGRADED | UNHEALTHY | UNKNOWN

record health_record =
  hr_component_id :: string
  hr_component_type :: string
  hr_status :: health_status
  hr_last_probe_at :: "datetime option"
  hr_consecutive_failures :: int
  hr_consecutive_successes :: int
  hr_last_error :: "string option"

record health_check =
  hc_interval_seconds :: rat
  hc_timeout_seconds :: rat
  hc_failure_threshold :: int
  hc_success_threshold :: int
  hc_enabled :: bool

text \<open>\<open>reg_task\<close> says whether a probe loop is running for the registration.\<close>

record 'p registration =
  reg_component_type :: string
  reg_probe :: 'p
  reg_check :: health_check
  reg_record :: health_record
  reg_task :: bool

record 'p monitor =
  hm_sink :: sink
  hm_objs :: "'p registration list"
  hm_registry :: "(string, nat) dict"
  hm_running :: bool

definition health_record_init :: "string \<Rightarrow> string \<Rightarrow> health_record" where
  "health_record_init component_id component_type =
     \<lparr>hr_component_id = component_id, hr_component_type = component_type, hr_status = UNKNOWN,
      hr_last_probe_at = None, hr_consecutive_failures = 0, hr_consecutive_successes = 0, hr_last_error = None\<rparr>"

definition hm_register :: "string \<Rightarrow> string \<Rightarrow> 'p \<Rightarrow> health_check \<Rightarrow> ('p, 'a) monitor_scheme \<Rightarrow> ('p, 'a) monitor_scheme" where
  "hm_register component_id component_type probe chk m =
     (let reg = \<lparr>reg_component_type = component_type, reg_probe = probe, reg_check = chk,
                 reg_record = health_record_init component_id component_type,
                 reg_task = (hm_running m \<and> hc_enabled chk)\<rparr>
      in m\<lparr>hm_registry := dset component_id (length (hm_objs m)) (hm_registry m), hm_objs := hm_objs m @ [reg]\<rparr>)"

definition hm_mod :: "nat \<Rightarrow> ('p registration \<Rightarrow> 'p registration) \<Rightarrow> ('p, 'a) monitor_scheme \<Rightarrow> ('p, 'a) monitor_scheme" where
  "hm_mod i f m = m\<lparr>hm_objs := (hm_objs m)[i := f (hm_objs m ! i)]\<rparr>"

definition hm_unregister :: "string \<Rightarrow> ('p, 'a) monitor_scheme \<Rightarrow> ('p, 'a) monitor_scheme" where
  "hm_unregister component_id m =
     (case dget (hm_registry m) component_id of
        None \<Rightarrow> m
      | Some i \<Rightarrow> (hm_mod i (\<lambda>r. r\<lparr>reg_task := False\<rparr>) m)\<lparr>hm_registry := ddel component_id (hm_registry m)\<rparr>)"

text \<open>The effect of a probe result on the record.\<close>

definition apply_record :: "health_check \<Rightarrow> datetime \<Rightarrow> bool \<Rightarrow> health_record \<Rightarrow> health_record" where
  "apply_record chk now healthy rec0 =
     (let rec = rec0\<lparr>hr_last_probe_at := Some now\<rparr>; prev = hr_status rec0
      in if healthy then
           (let rec1 = rec\<lparr>hr_consecutive_successes := hr_consecutive_successes rec + 1, hr_consecutive_failures := 0\<rparr>
            in if hr_consecutive_successes rec1 \<ge> hc_success_threshold chk
               then (let rec2 = rec1\<lparr>hr_status := HEALTHY\<rparr>
                     in if prev \<noteq> HEALTHY then rec2\<lparr>hr_last_error := None\<rparr> else rec2)
               else rec1)
         else
           (let rec1 = rec\<lparr>hr_consecutive_failures := hr_consecutive_failures rec + 1, hr_consecutive_successes := 0\<rparr>
            in if hr_consecutive_failures rec1 \<ge> hc_failure_threshold chk then rec1\<lparr>hr_status := UNHEALTHY\<rparr>
               else if hr_status rec1 = HEALTHY \<or> hr_status rec1 = UNKNOWN then rec1\<lparr>hr_status := DEGRADED\<rparr>
               else rec1))"

definition transition_events :: "health_record \<Rightarrow> health_status \<Rightarrow> health_event list" where
  "transition_events rec prev =
     (if hr_status rec = UNHEALTHY
      then [AgentUnhealthy (hr_component_id rec) (hr_last_error rec) (hr_consecutive_failures rec)]
      else if hr_status rec = HEALTHY \<and> prev = UNHEALTHY then [AgentRecovered (hr_component_id rec) 0]
      else [])"

definition apply_result :: "datetime \<Rightarrow> nat \<Rightarrow> bool \<Rightarrow> ('p, 'a) monitor_scheme \<Rightarrow> ('p, 'a) monitor_scheme" where
  "apply_result now i healthy m =
     (let reg = hm_objs m ! i; prev = hr_status (reg_record reg);
          rec = apply_record (reg_check reg) now healthy (reg_record reg);
          m1 = hm_mod i (\<lambda>r. r\<lparr>reg_record := rec\<rparr>) m
      in if hr_status rec \<noteq> prev then m1\<lparr>hm_sink := emits (map HealthEv (transition_events rec prev)) (hm_sink m1)\<rparr>
         else m1)"

text \<open>\<open>str(exc) or type(exc).__name__\<close>\<close>

definition probe_error :: "exn \<Rightarrow> string" where
  "probe_error exc = (if exn_msg exc = [] then exn_class exc else exn_msg exc)"

definition run_probe ::
  "('p \<Rightarrow> ('p, 'a) monitor_scheme \<Rightarrow> (bool, ('p, 'a) monitor_scheme) res) \<Rightarrow> nat \<Rightarrow>
   ('p, 'a) monitor_scheme \<Rightarrow> (bool, ('p, 'a) monitor_scheme) res" where
  "run_probe run i m =
     (case run (reg_probe (hm_objs m ! i)) m of
        (Inr b, m1) \<Rightarrow> (Inr b, m1)
      | (Inl x, m1) \<Rightarrow>
          if catches ''Exception'' x
          then (Inr False, hm_mod i (\<lambda>r. r\<lparr>reg_record := (reg_record r)\<lparr>hr_last_error := Some (probe_error x)\<rparr>\<rparr>) m1)
          else (Inl x, m1))"

definition check_now ::
  "(('p, 'a) monitor_scheme \<Rightarrow> datetime) \<Rightarrow> ('p \<Rightarrow> ('p, 'a) monitor_scheme \<Rightarrow> (bool, ('p, 'a) monitor_scheme) res) \<Rightarrow>
   string \<Rightarrow> ('p, 'a) monitor_scheme \<Rightarrow> (health_record, ('p, 'a) monitor_scheme) res" where
  "check_now clock run component_id m =
     (case dget (hm_registry m) component_id of
        None \<Rightarrow> (Inl (KeyError (''no component registered: '' @ component_id)), m)
      | Some i \<Rightarrow>
          (case run_probe run i m of
             (Inl x, m1) \<Rightarrow> (Inl x, m1)
           | (Inr healthy, m1) \<Rightarrow>
               (let m2 = apply_result (clock m1) i healthy m1 in (Inr (reg_record (hm_objs m2 ! i)), m2))))"

definition get_status :: "('p, 'a) monitor_scheme \<Rightarrow> string \<Rightarrow> health_status" where
  "get_status m component_id =
     (case dget (hm_registry m) component_id of None \<Rightarrow> UNKNOWN | Some i \<Rightarrow> hr_status (reg_record (hm_objs m ! i)))"

definition get_record :: "('p, 'a) monitor_scheme \<Rightarrow> string \<Rightarrow> health_record option" where
  "get_record m component_id = map_option (\<lambda>i. reg_record (hm_objs m ! i)) (dget (hm_registry m) component_id)"

definition list_unhealthy :: "('p, 'a) monitor_scheme \<Rightarrow> string list" where
  "list_unhealthy m =
     map fst (filter (\<lambda>(_, i). hr_status (reg_record (hm_objs m ! i)) = UNHEALTHY) (hm_registry m))"

definition hm_start :: "('p, 'a) monitor_scheme \<Rightarrow> ('p, 'a) monitor_scheme" where
  "hm_start m =
     fold (\<lambda>(_, i). hm_mod i (\<lambda>r. if hc_enabled (reg_check r) \<and> \<not> reg_task r then r\<lparr>reg_task := True\<rparr> else r))
       (hm_registry m) (m\<lparr>hm_running := True\<rparr>)"

definition hm_stop :: "('p, 'a) monitor_scheme \<Rightarrow> ('p, 'a) monitor_scheme" where
  "hm_stop m =
     fold (\<lambda>(_, i). hm_mod i (\<lambda>r. r\<lparr>reg_task := False\<rparr>)) (hm_registry m) (m\<lparr>hm_running := False\<rparr>)"

text \<open>One turn of \<open>_probe_loop\<close> after its sleep; the boolean says whether the loop goes on.\<close>

definition probe_turn ::
  "(('p, 'a) monitor_scheme \<Rightarrow> datetime) \<Rightarrow> ('p \<Rightarrow> ('p, 'a) monitor_scheme \<Rightarrow> (bool, ('p, 'a) monitor_scheme) res) \<Rightarrow>
   string \<Rightarrow> ('p, 'a) monitor_scheme \<Rightarrow> (bool, ('p, 'a) monitor_scheme) res" where
  "probe_turn clock run component_id m =
     (if dget (hm_registry m) component_id = None \<or> \<not> hm_running m then (Inr False, m)
      else
        (case check_now clock run component_id m of
           (Inl x, m1) \<Rightarrow> (Inl x, m1)
         | (Inr _, m1) \<Rightarrow> (Inr (hm_running m1), m1)))"

section \<open>DeadLetterQueue\<close>

record dead_entry =
  de_entry_id :: string
  de_component_id :: string
  de_entry_type :: string
  de_payload :: pydict
  de_error :: string
  de_retry_count :: int
  de_max_retries :: int
  de_created_at :: datetime
  de_recovered_at :: "datetime option"

record dlq =
  dq_sink :: sink
  dq_entries :: "dead_entry list"

definition dlq_append :: "dead_entry \<Rightarrow> 'a dlq_scheme \<Rightarrow> 'a dlq_scheme" where
  "dlq_append entry q =
     q\<lparr>dq_entries := dq_entries q @ [entry],
       dq_sink := emit (HealthEv (DeadLetterAppended (de_entry_id entry) (de_component_id entry)
                    (de_entry_type entry) (de_retry_count entry))) (dq_sink q)\<rparr>"

definition dlq_list :: "string option \<Rightarrow> int \<Rightarrow> 'a dlq_scheme \<Rightarrow> dead_entry list" where
  "dlq_list component_id limit q =
     head_slice limit
       (case component_id of None \<Rightarrow> dq_entries q | Some c \<Rightarrow> filter (\<lambda>e. de_component_id e = c) (dq_entries q))"

definition dlq_get :: "string \<Rightarrow> 'a dlq_scheme \<Rightarrow> dead_entry option" where
  "dlq_get entry_id q = find (\<lambda>e. de_entry_id e = entry_id) (dq_entries q)"

text \<open>Only the first entry of the id is marked, the one \<open>get\<close> returns.\<close>

fun mark_recovered :: "string \<Rightarrow> datetime \<Rightarrow> dead_entry list \<Rightarrow> dead_entry list" where
  "mark_recovered entry_id now [] = []"
| "mark_recovered entry_id now (e # es) =
     (if de_entry_id e = entry_id then e\<lparr>de_recovered_at := Some now\<rparr> # es
      else e # mark_recovered entry_id now es)"

definition dlq_recover ::
  "datetime \<Rightarrow> string \<Rightarrow> 'a dlq_scheme \<Rightarrow> dead_entry option \<times> 'a dlq_scheme" where
  "dlq_recover now entry_id q =
     (case dlq_get entry_id q of
        None \<Rightarrow> (None, q)
      | Some entry \<Rightarrow>
          (Some (entry\<lparr>de_recovered_at := Some now\<rparr>),
           q\<lparr>dq_entries := mark_recovered entry_id now (dq_entries q),
             dq_sink := emit (HealthEv (DeadLetterRecovered (de_entry_id entry) (de_component_id entry))) (dq_sink q)\<rparr>))"

text \<open>The loop runs over the positions the queue had at the start and reads the entries as they are by then.\<close>

fun replay_loop ::
  "('a dlq_scheme \<Rightarrow> datetime) \<Rightarrow> string \<Rightarrow> (dead_entry \<Rightarrow> 'a dlq_scheme \<Rightarrow> (bool, 'a dlq_scheme) res) \<Rightarrow>
   nat list \<Rightarrow> int \<Rightarrow> 'a dlq_scheme \<Rightarrow> (int, 'a dlq_scheme) res" where
  "replay_loop clock component_id handler [] recovered q = (Inr recovered, q)"
| "replay_loop clock component_id handler (i # is) recovered q =
     (let entry = dq_entries q ! i
      in if de_component_id entry \<noteq> component_id \<or> de_recovered_at entry \<noteq> None
         then replay_loop clock component_id handler is recovered q
         else
           (case handler entry q of
              (Inl x, q1) \<Rightarrow> (Inl x, q1)
            | (Inr ok, q1) \<Rightarrow>
                if ok
                then replay_loop clock component_id handler is (recovered + 1)
                       (snd (dlq_recover (clock q1) (de_entry_id entry) q1))
                else replay_loop clock component_id handler is recovered q1))"

definition dlq_replay ::
  "('a dlq_scheme \<Rightarrow> datetime) \<Rightarrow> string \<Rightarrow> (dead_entry \<Rightarrow> 'a dlq_scheme \<Rightarrow> (bool, 'a dlq_scheme) res) \<Rightarrow>
   'a dlq_scheme \<Rightarrow> (int, 'a dlq_scheme) res" where
  "dlq_replay clock component_id handler q =
     replay_loop clock component_id handler [0..<length (dq_entries q)] 0 q"

definition dlq_count :: "string option \<Rightarrow> 'a dlq_scheme \<Rightarrow> nat" where
  "dlq_count component_id q =
     (case component_id of
        None \<Rightarrow> length (dq_entries q)
      | Some c \<Rightarrow> length (filter (\<lambda>e. de_component_id e = c) (dq_entries q)))"

section \<open>CircuitBreaker\<close>

record breaker_policy =
  bp_failure_threshold :: int
  bp_recovery_timeout_seconds :: seconds
  bp_success_threshold :: int

definition default_breaker_policy :: breaker_policy where
  "default_breaker_policy =
     \<lparr>bp_failure_threshold = 5, bp_recovery_timeout_seconds = 60, bp_success_threshold = 2\<rparr>"

record breaker_state =
  hb_state :: circuit_state
  hb_failure_count :: int
  hb_success_count :: int
  hb_opened_at :: "seconds option"
  hb_half_open_inflight :: bool

definition breaker_state_init :: breaker_state where
  "breaker_state_init =
     \<lparr>hb_state = CLOSED, hb_failure_count = 0, hb_success_count = 0, hb_opened_at = None, hb_half_open_inflight = False\<rparr>"

definition hb_ripe :: "breaker_policy \<Rightarrow> seconds \<Rightarrow> breaker_state \<Rightarrow> bool" where
  "hb_ripe pol now b =
     (case hb_opened_at b of None \<Rightarrow> False | Some t \<Rightarrow> now - t \<ge> bp_recovery_timeout_seconds pol)"

definition maybe_half_open :: "breaker_policy \<Rightarrow> seconds \<Rightarrow> breaker_state \<Rightarrow> breaker_state" where
  "maybe_half_open pol now b =
     (if hb_state b = OPEN \<and> hb_opened_at b \<noteq> None \<and> hb_ripe pol now b
      then b\<lparr>hb_state := HALF_OPEN, hb_success_count := 0, hb_half_open_inflight := False\<rparr> else b)"

definition hb_admit :: "breaker_policy \<Rightarrow> seconds \<Rightarrow> breaker_state \<Rightarrow> bool \<times> breaker_state" where
  "hb_admit pol now b0 =
     (let b = maybe_half_open pol now b0
      in if hb_state b = OPEN then (False, b)
         else if hb_state b = HALF_OPEN then
           (if hb_half_open_inflight b then (False, b) else (True, b\<lparr>hb_half_open_inflight := True\<rparr>))
         else (True, b))"

definition hb_transition :: "seconds \<Rightarrow> circuit_state \<Rightarrow> breaker_state \<Rightarrow> breaker_state" where
  "hb_transition now new b0 =
     (let b = b0\<lparr>hb_state := new\<rparr>
      in if new = OPEN then b\<lparr>hb_opened_at := Some now, hb_success_count := 0\<rparr>
         else if new = CLOSED then b\<lparr>hb_failure_count := 0, hb_success_count := 0, hb_opened_at := None\<rparr>
         else b)"

text \<open>The second component says whether \<open>_transition\<close> ran, which announces the new state.\<close>

definition hb_on_success :: "breaker_policy \<Rightarrow> seconds \<Rightarrow> breaker_state \<Rightarrow> breaker_state \<times> bool" where
  "hb_on_success pol now b =
     (if hb_state b = HALF_OPEN then
        (let b1 = b\<lparr>hb_half_open_inflight := False, hb_success_count := hb_success_count b + 1\<rparr>
         in if hb_success_count b1 \<ge> bp_success_threshold pol then (hb_transition now CLOSED b1, True) else (b1, False))
      else (b\<lparr>hb_failure_count := 0\<rparr>, False))"

definition hb_on_failure :: "breaker_policy \<Rightarrow> seconds \<Rightarrow> breaker_state \<Rightarrow> breaker_state \<times> bool" where
  "hb_on_failure pol now b =
     (if hb_state b = HALF_OPEN then (hb_transition now OPEN (b\<lparr>hb_half_open_inflight := False\<rparr>), True)
      else
        (let b1 = b\<lparr>hb_failure_count := hb_failure_count b + 1\<rparr>
         in if hb_failure_count b1 \<ge> bp_failure_threshold pol then (hb_transition now OPEN b1, True) else (b1, False)))"

record breakers =
  br_policy :: breaker_policy
  br_sink :: sink
  br_objs :: "breaker_state list"
  br_states :: "(string, nat) dict"

definition CircuitBreakerOpen :: "string \<Rightarrow> exn" where
  "CircuitBreakerOpen capability =
     std_exn [''CircuitBreakerOpen''] (''circuit breaker OPEN for capability '' @ quoted capability)"

definition br_mod :: "nat \<Rightarrow> (breaker_state \<Rightarrow> breaker_state) \<Rightarrow> 'a breakers_scheme \<Rightarrow> 'a breakers_scheme" where
  "br_mod i f s = s\<lparr>br_objs := (br_objs s)[i := f (br_objs s ! i)]\<rparr>"

definition br_get :: "string \<Rightarrow> 'a breakers_scheme \<Rightarrow> nat \<times> 'a breakers_scheme" where
  "br_get capability s =
     (case dget (br_states s) capability of
        Some i \<Rightarrow> (i, s)
      | None \<Rightarrow>
          (length (br_objs s),
           s\<lparr>br_states := dset capability (length (br_objs s)) (br_states s), br_objs := br_objs s @ [breaker_state_init]\<rparr>))"

definition br_state :: "('a breakers_scheme \<Rightarrow> seconds) \<Rightarrow> string \<Rightarrow> 'a breakers_scheme \<Rightarrow> circuit_state \<times> 'a breakers_scheme" where
  "br_state clock capability s =
     (case dget (br_states s) capability of
        None \<Rightarrow> (CLOSED, s)
      | Some i \<Rightarrow>
          (let s1 = br_mod i (maybe_half_open (br_policy s) (clock s)) s in (hb_state (br_objs s1 ! i), s1)))"

definition br_reset :: "string \<Rightarrow> 'a breakers_scheme \<Rightarrow> 'a breakers_scheme" where
  "br_reset capability s =
     s\<lparr>br_states := dset capability (length (br_objs s)) (br_states s), br_objs := br_objs s @ [breaker_state_init]\<rparr>"

text \<open>\<open>_transition\<close> after the state is set: the event, then the optional callback.\<close>

definition br_announce ::
  "(string \<Rightarrow> circuit_state \<Rightarrow> 'a breakers_scheme \<Rightarrow> (unit, 'a breakers_scheme) res) option \<Rightarrow>
   string \<Rightarrow> nat \<Rightarrow> 'a breakers_scheme \<Rightarrow> (unit, 'a breakers_scheme) res" where
  "br_announce cb capability i s =
     (let b = br_objs s ! i;
          s1 = s\<lparr>br_sink := emit (HealthEv (CircuitBreakerTripped capability (circuit_state_value (hb_state b)) (hb_failure_count b))) (br_sink s)\<rparr>
      in case cb of None \<Rightarrow> (Inr (), s1) | Some f \<Rightarrow> f capability (hb_state b) s1)"

definition br_outcome ::
  "(breaker_state \<Rightarrow> breaker_state \<times> bool) \<Rightarrow>
   (string \<Rightarrow> circuit_state \<Rightarrow> 'a breakers_scheme \<Rightarrow> (unit, 'a breakers_scheme) res) option \<Rightarrow>
   string \<Rightarrow> nat \<Rightarrow> 'a breakers_scheme \<Rightarrow> (unit, 'a breakers_scheme) res" where
  "br_outcome f cb capability i s =
     (let (b, announce) = f (br_objs s ! i); s1 = br_mod i (\<lambda>_. b) s
      in if announce then br_announce cb capability i s1 else (Inr (), s1))"

definition br_call ::
  "('a breakers_scheme \<Rightarrow> seconds) \<Rightarrow> string \<Rightarrow> ('a breakers_scheme \<Rightarrow> ('v, 'a breakers_scheme) res) \<Rightarrow>
   (string \<Rightarrow> circuit_state \<Rightarrow> 'a breakers_scheme \<Rightarrow> (unit, 'a breakers_scheme) res) option \<Rightarrow>
   'a breakers_scheme \<Rightarrow> ('v, 'a breakers_scheme) res" where
  "br_call clock capability coro cb s0 =
     (let (i, s) = br_get capability s0;
          (ok, b) = hb_admit (br_policy s) (clock s) (br_objs s ! i);
          s1 = br_mod i (\<lambda>_. b) s
      in if \<not> ok then (Inl (CircuitBreakerOpen capability), s1)
         else
           (case coro s1 of
              (Inl x, s2) \<Rightarrow>
                if \<not> catches ''Exception'' x then (Inl x, s2)
                else
                  (case br_outcome (hb_on_failure (br_policy s2) (clock s2)) cb capability i s2 of
                     (Inl y, s3) \<Rightarrow> (Inl y, s3) | (Inr _, s3) \<Rightarrow> (Inl x, s3))
            | (Inr v, s2) \<Rightarrow>
                (case br_outcome (hb_on_success (br_policy s2) (clock s2)) cb capability i s2 of
                   (Inl y, s3) \<Rightarrow> (Inl y, s3) | (Inr _, s3) \<Rightarrow> (Inr v, s3))))"

section \<open>RecoveryEngine\<close>

text \<open>The engine runs on its own fields, the dead-letter queue it was given, and an extension for its collaborators.\<close>

record recovery =
  rv_dlq :: dlq
  rv_sink :: sink
  rv_max_restarts :: int
  rv_restart_counts :: "(string, int) dict"
  rv_sub_id :: "string option"

text \<open>What the engine calls of the injected agent runtime and workflow engine.\<close>

record ('g, 'i, 'w) collaborators =
  ar_get :: "string \<Rightarrow> 'w \<Rightarrow> ('g option, 'w) res"
  ar_stop :: "string \<Rightarrow> 'w \<Rightarrow> (unit, 'w) res"
  ar_start :: "'g \<Rightarrow> 'w \<Rightarrow> (unit, 'w) res"
  wf_get_instance :: "string \<Rightarrow> 'w \<Rightarrow> ('i, 'w) res"

definition rv_start :: "string \<Rightarrow> 'h \<Rightarrow> 'a recovery_scheme \<times> ('h, 'b) bus_scheme \<Rightarrow> 'a recovery_scheme \<times> ('h, 'b) bus_scheme" where
  "rv_start uid handler s =
     (case s of (r, b) \<Rightarrow>
        if rv_sub_id r = None
        then (let (i, b1) = subscribe uid ''health.agent_unhealthy'' handler b in (r\<lparr>rv_sub_id := Some i\<rparr>, b1))
        else (r, b))"

definition rv_stop :: "'a recovery_scheme \<times> ('h, 'b) bus_scheme \<Rightarrow> 'a recovery_scheme \<times> ('h, 'b) bus_scheme" where
  "rv_stop s =
     (case s of (r, b) \<Rightarrow>
        (case rv_sub_id r of
           None \<Rightarrow> (r, b)
         | Some i \<Rightarrow> (r\<lparr>rv_sub_id := None\<rparr>, snd (unsubscribe i b))))"

definition restart_agent ::
  "('g, 'i, 'a recovery_scheme) collaborators \<Rightarrow> string \<Rightarrow> 'a recovery_scheme \<Rightarrow> (bool, 'a recovery_scheme) res" where
  "restart_agent c agent_id r =
     (let contained = (\<lambda>x r. if catches ''Exception'' x then (Inr False, r) else (Inl x, r))
      in case ar_get c agent_id r of
           (Inl x, r1) \<Rightarrow> contained x r1
         | (Inr None, r1) \<Rightarrow> (Inr False, r1)
         | (Inr (Some agent), r1) \<Rightarrow>
             (case ar_stop c agent_id r1 of
                (Inl x, r2) \<Rightarrow> contained x r2
              | (Inr _, r2) \<Rightarrow>
                  (case ar_start c agent r2 of
                     (Inl x, r3) \<Rightarrow> contained x r3
                   | (Inr _, r3) \<Rightarrow> (Inr True, r3))))"

definition rv_append :: "dead_entry \<Rightarrow> 'a recovery_scheme \<Rightarrow> 'a recovery_scheme" where
  "rv_append e r = r\<lparr>rv_dlq := dlq_append e (rv_dlq r)\<rparr>"

definition recover_workflow ::
  "('g, 'i, 'a recovery_scheme) collaborators \<Rightarrow> ('a recovery_scheme \<Rightarrow> datetime) \<Rightarrow> string \<Rightarrow> string \<Rightarrow>
   health_record option \<Rightarrow> 'a recovery_scheme \<Rightarrow> (bool, 'a recovery_scheme) res" where
  "recover_workflow c clock uid instance_id rec r =
     (case wf_get_instance c instance_id r of
        (Inl x, r1) \<Rightarrow> if catches ''Exception'' x then (Inr False, r1) else (Inl x, r1)
      | (Inr _, r1) \<Rightarrow>
          (Inr True,
           rv_append \<lparr>de_entry_id = uid, de_component_id = instance_id, de_entry_type = ''workflow_step'',
             de_payload = [(''instance_id'', PStr instance_id)],
             de_error = or_str (Option.bind rec hr_last_error) ''workflow stalled'',
             de_retry_count = 0, de_max_retries = 3, de_created_at = clock r1, de_recovered_at = None\<rparr> r1))"

definition rv_escalate ::
  "('a recovery_scheme \<Rightarrow> datetime) \<Rightarrow> string \<Rightarrow> string \<Rightarrow> string \<Rightarrow> health_record option \<Rightarrow>
   'a recovery_scheme \<Rightarrow> 'a recovery_scheme" where
  "rv_escalate clock uid component_id component_type rec r =
     rv_append \<lparr>de_entry_id = uid, de_component_id = component_id,
       de_entry_type = (if component_type = ''agent'' then ''task'' else ''workflow_step''),
       de_payload = [(''component_type'', PStr component_type)],
       de_error = or_str (Option.bind rec hr_last_error) ''max restarts exceeded'',
       de_retry_count = dget_or (rv_restart_counts r) component_id 0, de_max_retries = 3,
       de_created_at = clock r, de_recovered_at = None\<rparr> r"

definition on_unhealthy ::
  "('g, 'i, 'a recovery_scheme) collaborators \<Rightarrow> ('a recovery_scheme \<Rightarrow> datetime) \<Rightarrow> string \<Rightarrow> string \<Rightarrow>
   string \<Rightarrow> string \<Rightarrow> health_record option \<Rightarrow> 'a recovery_scheme \<Rightarrow> (unit, 'a recovery_scheme) res" where
  "on_unhealthy c clock uid uid' component_id component_type rec r =
     (let restarts = dget_or (rv_restart_counts r) component_id 0
      in if restarts \<ge> rv_max_restarts r then (Inr (), rv_escalate clock uid component_id component_type rec r)
         else
           (case (if component_type = ''agent'' then restart_agent c component_id r
                  else if component_type = ''workflow'' then recover_workflow c clock uid component_id rec r
                  else restart_agent c component_id r) of
              (Inl x, r1) \<Rightarrow> (Inl x, r1)
            | (Inr True, r1) \<Rightarrow>
                (Inr (), r1\<lparr>rv_restart_counts := dset component_id (restarts + 1) (rv_restart_counts r1),
                           rv_sink := emit (HealthEv (AgentRecovered component_id (restarts + 1))) (rv_sink r1)\<rparr>)
            | (Inr False, r1) \<Rightarrow> (Inr (), rv_escalate clock uid' component_id component_type rec r1)))"

text \<open>The subscriber: the record comes from the monitor the engine was given.\<close>

definition on_unhealthy_event ::
  "('g, 'i, 'a recovery_scheme) collaborators \<Rightarrow> ('a recovery_scheme \<Rightarrow> datetime) \<Rightarrow> string \<Rightarrow> string \<Rightarrow>
   ('p, 'b) monitor_scheme \<Rightarrow> event \<Rightarrow> 'a recovery_scheme \<Rightarrow> (unit, 'a recovery_scheme) res" where
  "on_unhealthy_event c clock uid uid' m e r =
     (let component_id = ev_aggregate e; rec = get_record m component_id;
          component_type = (case rec of None \<Rightarrow> ''agent'' | Some h \<Rightarrow> hr_component_type h)
      in on_unhealthy c clock uid uid' component_id component_type rec r)"

definition on_dead_letter :: "dead_entry \<Rightarrow> string" where
  "on_dead_letter e =
     (if de_recovered_at e \<noteq> None then ''archive''
      else if de_retry_count e < de_max_retries e then ''retry''
      else ''escalate'')"

definition restart_count :: "string \<Rightarrow> 'a recovery_scheme \<Rightarrow> int" where
  "restart_count component_id r = dget_or (rv_restart_counts r) component_id 0"

section \<open>Specification\<close>

text \<open>A record and the events it has caused, after a sequence of probe results.\<close>

fun probe_history :: "health_check \<Rightarrow> (datetime \<times> bool) list \<Rightarrow> health_record \<Rightarrow> health_event list \<times> health_record" where
  "probe_history chk [] rec = ([], rec)"
| "probe_history chk ((now, healthy) # ps) rec =
     (let rec1 = apply_record chk now healthy rec;
          es = (if hr_status rec1 \<noteq> hr_status rec then transition_events rec1 (hr_status rec) else []);
          (es', rec') = probe_history chk ps rec1
      in (es @ es', rec'))"

text \<open>Strictly alternating events, the next one being an \<open>AgentUnhealthy\<close> iff \<open>up\<close>.\<close>

fun alternates :: "bool \<Rightarrow> health_event list \<Rightarrow> bool" where
  "alternates up [] = True"
| "alternates up (AgentUnhealthy c x n # es) = (up \<and> alternates False es)"
| "alternates up (AgentRecovered c n # es) = (\<not> up \<and> alternates True es)"
| "alternates up (_ # es) = False"

definition hb_inv :: "breaker_state \<Rightarrow> bool" where
  "hb_inv b \<longleftrightarrow> (hb_state b = OPEN \<longrightarrow> hb_opened_at b \<noteq> None)"

text \<open>
  What the collaborators may do: anything that leaves the engine's own fields alone; what they raise
  is an \<open>Exception\<close>.
\<close>

definition rv_own :: "'a recovery_scheme \<Rightarrow> dlq \<times> sink \<times> int \<times> (string, int) dict" where
  "rv_own r = (rv_dlq r, rv_sink r, rv_max_restarts r, rv_restart_counts r)"

definition tame :: "('a recovery_scheme \<Rightarrow> ('v, 'a recovery_scheme) res) \<Rightarrow> bool" where
  "tame f \<longleftrightarrow> (\<forall>r. rv_own (snd (f r)) = rv_own r \<and>
     (case fst (f r) of Inl x \<Rightarrow> catches ''Exception'' x | Inr _ \<Rightarrow> True))"

definition well_behaved :: "('g, 'i, 'a recovery_scheme) collaborators \<Rightarrow> bool" where
  "well_behaved c \<longleftrightarrow>
     (\<forall>i. tame (ar_get c i)) \<and> (\<forall>i. tame (ar_stop c i)) \<and> (\<forall>g. tame (ar_start c g)) \<and> (\<forall>i. tame (wf_get_instance c i))"

text \<open>A sequence of unhealthy signals for one component: ids for the entries, its type and record at the time.\<close>

fun unhealthy_run ::
  "('g, 'i, 'a recovery_scheme) collaborators \<Rightarrow> ('a recovery_scheme \<Rightarrow> datetime) \<Rightarrow> string \<Rightarrow>
   (string \<times> string \<times> string \<times> health_record option) list \<Rightarrow> 'a recovery_scheme \<Rightarrow> 'a recovery_scheme" where
  "unhealthy_run c clock cid [] r = r"
| "unhealthy_run c clock cid ((u, u', ty, rec) # xs) r =
     unhealthy_run c clock cid xs (snd (on_unhealthy c clock u u' cid ty rec r))"

text \<open>What any task may do to one breaker.\<close>

datatype hb_op = Admit seconds | Succeed seconds | Fail seconds

fun hb_do :: "breaker_policy \<Rightarrow> hb_op \<Rightarrow> breaker_state \<Rightarrow> breaker_state" where
  "hb_do pol (Admit t) b = snd (hb_admit pol t b)"
| "hb_do pol (Succeed t) b = fst (hb_on_success pol t b)"
| "hb_do pol (Fail t) b = fst (hb_on_failure pol t b)"

text \<open>An entry still to be replayed for a component, and what a successful replay makes of an entry.\<close>

definition outstanding :: "string \<Rightarrow> dead_entry \<Rightarrow> bool" where
  "outstanding cid e \<longleftrightarrow> de_component_id e = cid \<and> de_recovered_at e = None"

definition replayed :: "string \<Rightarrow> dead_entry \<Rightarrow> dead_entry \<Rightarrow> bool" where
  "replayed cid e e' \<longleftrightarrow> (if outstanding cid e then \<exists>t. e' = e\<lparr>de_recovered_at := Some t\<rparr> else e' = e)"

section \<open>Lemmas\<close>

lemmas hb_op_defs = hb_admit_def maybe_half_open_def hb_on_success_def hb_on_failure_def hb_transition_def

interpretation health_breaker: breaker hb_inv hb_state "hb_ripe pol" "hb_admit pol"
    "\<lambda>t b. fst (hb_on_success pol t b)" "\<lambda>t b. fst (hb_on_failure pol t b)" for pol
  by unfold_locales (auto simp: hb_op_defs hb_inv_def Let_def split: if_splits)

text \<open>A probe result moves an UNHEALTHY record only to HEALTHY, and only a failure makes it UNHEALTHY.\<close>

lemma apply_record_status:
  "hr_status (apply_record chk now healthy rec) =
     (if healthy then (if hr_consecutive_successes rec + 1 \<ge> hc_success_threshold chk then HEALTHY else hr_status rec)
      else if hr_consecutive_failures rec + 1 \<ge> hc_failure_threshold chk then UNHEALTHY
      else if hr_status rec = HEALTHY \<or> hr_status rec = UNKNOWN then DEGRADED else hr_status rec)"
  by (simp add: apply_record_def Let_def)

lemma apply_record_failures:
  "hr_consecutive_failures (apply_record chk now healthy rec) = (if healthy then 0 else hr_consecutive_failures rec + 1)"
  by (simp add: apply_record_def Let_def)

lemma probe_history_alternates:
  "alternates (hr_status rec \<noteq> UNHEALTHY) (fst (probe_history chk ps rec))"
proof (induction ps arbitrary: rec)
  case (Cons p ps)
  obtain now healthy where [simp]: "p = (now, healthy)" by (cases p)
  from Cons.IH [of "apply_record chk now healthy rec"] show ?case
    by (auto simp: Let_def case_prod_beta transition_events_def apply_record_status split: if_splits)
qed simp

lemma hb_run_refines:
  assumes "hb_inv b"
  shows "hb_inv (fold (hb_do pol) ops b)"
    and "n < length ops \<Longrightarrow> let b1 = fold (hb_do pol) (take n ops) b; b2 = fold (hb_do pol) (take (Suc n) ops) b
           in hb_state b2 = hb_state b1 \<or> cb_edge (hb_state b1) (hb_state b2)"
proof -
  have op: "\<exists>t. f = (\<lambda>b. snd (hb_admit pol t b)) \<or> f = (\<lambda>b. fst (hb_on_success pol t b)) \<or> f = (\<lambda>b. fst (hb_on_failure pol t b))"
    if "f \<in> set (map (hb_do pol) ops)" for f
  proof -
    from that obtain op where "f = hb_do pol op" by auto
    then show ?thesis by (cases op) (auto simp: fun_eq_iff)
  qed
  from health_breaker.ops_keep_inv [where fs = "map (hb_do pol) ops", OF op assms] show "hb_inv (fold (hb_do pol) ops b)"
    by (simp add: fold_map o_def)
  show "let b1 = fold (hb_do pol) (take n ops) b; b2 = fold (hb_do pol) (take (Suc n) ops) b
    in hb_state b2 = hb_state b1 \<or> cb_edge (hb_state b1) (hb_state b2)" if "n < length ops"
    using health_breaker.run_refines [where fs = "map (hb_do pol) ops" and n = n, OF op assms] that
    by (simp add: fold_map o_def take_map del: cb_edge_simps)
qed

lemma hm_mod_simps [simp]:
  "hm_objs (hm_mod i f m) = (hm_objs m)[i := f (hm_objs m ! i)]" "hm_sink (hm_mod i f m) = hm_sink m"
  by (simp_all add: hm_mod_def)

lemma apply_results_history:
  assumes "i < length (hm_objs m)"
  shows "let m' = fold (\<lambda>(now, healthy). apply_result now i healthy) ps m;
             (es, rec) = probe_history (reg_check (hm_objs m ! i)) ps (reg_record (hm_objs m ! i))
         in reg_record (hm_objs m' ! i) = rec \<and>
            snk_bus (hm_sink m') = map_option (\<lambda>xs. xs @ map HealthEv es) (snk_bus (hm_sink m))"
  using assms
proof (induction ps arbitrary: m)
  case Nil
  then show ?case by (simp add: option.map_ident)
next
  case (Cons p ps)
  obtain now healthy where [simp]: "p = (now, healthy)" by (cases p)
  let ?reg = "hm_objs m ! i" and ?m1 = "apply_result now i healthy m"
  let ?rec1 = "apply_record (reg_check ?reg) now healthy (reg_record ?reg)"
  have "i < length (hm_objs ?m1)" "hm_objs ?m1 ! i = ?reg\<lparr>reg_record := ?rec1\<rparr>"
      "snk_bus (hm_sink ?m1) = map_option (\<lambda>xs. xs @ map HealthEv
         (if hr_status ?rec1 \<noteq> hr_status (reg_record ?reg) then transition_events ?rec1 (hr_status (reg_record ?reg)) else []))
         (snk_bus (hm_sink m))"
    using Cons.prems by (simp_all add: apply_result_def Let_def option.map_ident)
  with Cons.IH [of ?m1] show ?case
    by (simp add: Let_def case_prod_beta option.map_comp o_def)
qed

lemma probe_history_snoc:
  "snd (probe_history chk (ps @ [(t, b)]) rec) = apply_record chk t b (snd (probe_history chk ps rec))"
  by (induction ps arbitrary: rec) (auto simp: Let_def case_prod_beta)

lemma failing_probes:
  assumes "hr_status rec \<noteq> UNHEALTHY" and "hr_consecutive_failures rec = 0" and "1 \<le> hc_failure_threshold chk"
  shows "hr_consecutive_failures (snd (probe_history chk (map (\<lambda>t. (t, False)) ts) rec)) = int (length ts) \<and>
    (hr_status (snd (probe_history chk (map (\<lambda>t. (t, False)) ts) rec)) = UNHEALTHY \<longleftrightarrow> int (length ts) \<ge> hc_failure_threshold chk)"
  using assms
proof (induction ts rule: rev_induct)
  case (snoc t ts)
  then show ?case
    by (auto simp: probe_history_snoc apply_record_status apply_record_failures)
qed simp

lemma passing_probes:
  assumes "1 \<le> hc_success_threshold chk"
  shows "hr_consecutive_successes (snd (probe_history chk (ps @ (t, False) # map (\<lambda>t. (t, True)) ts) rec)) = int (length ts) \<and>
    (hr_status (snd (probe_history chk (ps @ (t, False) # map (\<lambda>t. (t, True)) ts) rec)) = HEALTHY \<longleftrightarrow> int (length ts) \<ge> hc_success_threshold chk)"
proof (induction ts rule: rev_induct)
  case Nil
  with assms show ?case by (simp add: probe_history_snoc apply_record_def Let_def)
next
  case (snoc u ts)
  then show ?case
    using probe_history_snoc [of chk "ps @ (t, False) # map (\<lambda>t. (t, True)) ts" u True rec]
    by (auto simp: apply_record_def Let_def)
qed

lemma tameD:
  assumes "tame f"
  shows "rv_own (snd (f r)) = rv_own r" and "fst (f r) = Inl x \<Longrightarrow> catches ''Exception'' x"
  using assms by (auto simp: tame_def split: sum.splits)

lemma tame_cases:
  assumes "tame f"
  obtains v r' where "f r = (Inr v, r')" "rv_own r' = rv_own r"
  | x r' where "f r = (Inl x, r')" "rv_own r' = rv_own r" "catches ''Exception'' x"
  using tameD [OF assms, of r] by (cases "f r"; cases "fst (f r)") auto

lemma restart_agent_tame:
  assumes "well_behaved c"
  obtains b r' where "restart_agent c i r = (Inr b, r')" "rv_own r' = rv_own r"
proof -
  have t: "tame (ar_get c i)" "tame (ar_stop c i)" "\<And>g. tame (ar_start c g)"
    using assms by (auto simp: well_behaved_def)
  show thesis
  proof (cases rule: tame_cases [OF t(1), of r])
    case (1 ag r1)
    show thesis
    proof (cases ag)
      case (Some g)
      show thesis
        by (cases rule: tame_cases [OF t(2), of r1]; cases rule: tame_cases [OF t(3) [of g], of "snd (ar_stop c i r1)"])
           (use 1 Some that in \<open>auto simp: restart_agent_def Let_def\<close>)
    qed (use 1 that in \<open>auto simp: restart_agent_def\<close>)
  qed (use that in \<open>auto simp: restart_agent_def\<close>)
qed

lemma on_unhealthy_accounts:
  assumes "well_behaved c" and "0 \<le> restart_count cid r" and "restart_count cid r \<le> max 0 (rv_max_restarts r)"
  shows "let r' = snd (on_unhealthy c clock u u' cid ty rec r)
         in fst (on_unhealthy c clock u u' cid ty rec r) = Inr () \<and> rv_max_restarts r' = rv_max_restarts r \<and>
            0 \<le> restart_count cid r' \<and> restart_count cid r' \<le> max 0 (rv_max_restarts r) \<and>
            int (length (dq_entries (rv_dlq r'))) + restart_count cid r' \<ge>
              int (length (dq_entries (rv_dlq r))) + restart_count cid r + 1"
proof (cases "restart_count cid r \<ge> rv_max_restarts r")
  case True
  with assms show ?thesis
    by (simp add: on_unhealthy_def restart_count_def rv_escalate_def rv_append_def dlq_append_def Let_def)
next
  case False
  show ?thesis
  proof (cases "ty = ''workflow''")
    case True
    have "tame (wf_get_instance c cid)" using assms(1) by (simp add: well_behaved_def)
    then show ?thesis
      by (cases rule: tame_cases [of _ r])
         (use False True assms(2) in \<open>auto simp: on_unhealthy_def restart_count_def recover_workflow_def rv_escalate_def
            rv_append_def dlq_append_def rv_own_def Let_def\<close>)
  next
    case no: False
    obtain b r1 where "restart_agent c cid r = (Inr b, r1)" "rv_own r1 = rv_own r"
      using restart_agent_tame [OF assms(1)] .
    then show ?thesis
      using False no assms(2)
      by (cases b) (auto simp: on_unhealthy_def restart_count_def rv_escalate_def rv_append_def dlq_append_def rv_own_def Let_def)
  qed
qed

subsection \<open>Replay\<close>

lemma mark_recovered_nth:
  "distinct (map de_entry_id es) \<Longrightarrow> k < length es \<Longrightarrow>
     mark_recovered (de_entry_id (es ! k)) now es = es[k := (es ! k)\<lparr>de_recovered_at := Some now\<rparr>]"
proof (induction es arbitrary: k)
  case (Cons e es)
  then show ?case by (cases k) (auto simp: nth_mem)
qed simp

lemma dlq_recover_nth:
  assumes "distinct (map de_entry_id (dq_entries q))" and "k < length (dq_entries q)"
  shows "dq_entries (snd (dlq_recover now (de_entry_id (dq_entries q ! k)) q)) =
           (dq_entries q)[k := (dq_entries q ! k)\<lparr>de_recovered_at := Some now\<rparr>]"
proof -
  have "dlq_get (de_entry_id (dq_entries q ! k)) q \<noteq> None"
    unfolding dlq_get_def find_None_iff using nth_mem [OF assms(2)] by blast
  then show ?thesis
    using mark_recovered_nth [OF assms] by (auto simp: dlq_recover_def)
qed

lemma replay_loop_marks:
  assumes "distinct (map de_entry_id (dq_entries q))" and "k \<le> length (dq_entries q)"
  shows "\<exists>q' es'. replay_loop clock cid (\<lambda>e q. (Inr True, q)) [k..<length (dq_entries q)] m q =
             (Inr (m + int (length (filter (outstanding cid) (drop k (dq_entries q))))), q') \<and>
           dq_entries q' = take k (dq_entries q) @ es' \<and> list_all2 (replayed cid) (drop k (dq_entries q)) es'"
  using assms
proof (induction "length (dq_entries q) - k" arbitrary: q k m)
  case 0
  then show ?case by simp
next
  case (Suc d)
  let ?es = "dq_entries q" and ?e = "dq_entries q ! k" and ?h = "\<lambda>e q. (Inr True, q)"
  have k: "k < length ?es" and d: "d = length ?es - Suc k" using Suc.hyps(2) by simp_all
  have upt: "[k..<length ?es] = k # [Suc k..<length ?es]" and drop: "drop k ?es = ?e # drop (Suc k) ?es"
    using k by (simp_all add: upt_conv_Cons Cons_nth_drop_Suc)
  show ?case
  proof (cases "outstanding cid ?e")
    case True
    let ?q1 = "snd (dlq_recover (clock q) (de_entry_id ?e) q)" and ?e1 = "?e\<lparr>de_recovered_at := Some (clock q)\<rparr>"
    have es1: "dq_entries ?q1 = ?es[k := ?e1]" by (rule dlq_recover_nth [OF Suc.prems(1) k])
    have ids: "map de_entry_id (dq_entries ?q1) = map de_entry_id ?es"
      unfolding es1 by (simp add: map_update) (metis k list_update_id nth_map)
    obtain q' es' where IH: "replay_loop clock cid ?h [Suc k..<length (dq_entries ?q1)] (m + 1) ?q1 =
          (Inr (m + 1 + int (length (filter (outstanding cid) (drop (Suc k) (dq_entries ?q1))))), q')"
        "dq_entries q' = take (Suc k) (dq_entries ?q1) @ es'" "list_all2 (replayed cid) (drop (Suc k) (dq_entries ?q1)) es'"
      using Suc.hyps(1) [of ?q1 "Suc k" "m + 1"] d Suc.prems(1) k ids es1 by auto
    have "replay_loop clock cid ?h [k..<length ?es] m q =
        replay_loop clock cid ?h [Suc k..<length ?es] (m + 1) ?q1"
      using True by (simp add: upt Let_def outstanding_def)
    with IH True show ?thesis
      unfolding drop es1
      by (intro exI [of _ q'] exI [of _ "?e1 # es'"])
         (use k in \<open>auto simp: replayed_def take_Suc_conv_app_nth\<close>)
  next
    case False
    obtain q' es' where IH: "replay_loop clock cid ?h [Suc k..<length ?es] m q =
          (Inr (m + int (length (filter (outstanding cid) (drop (Suc k) ?es)))), q')"
        "dq_entries q' = take (Suc k) ?es @ es'" "list_all2 (replayed cid) (drop (Suc k) ?es) es'"
      using Suc.hyps(1) [of q "Suc k" m] d Suc.prems(1) k by auto
    have "replay_loop clock cid ?h [k..<length ?es] m q = replay_loop clock cid ?h [Suc k..<length ?es] m q"
      using False by (auto simp: upt Let_def outstanding_def)
    with IH False show ?thesis
      unfolding drop
      by (intro exI [of _ q'] exI [of _ "?e # es'"])
         (use k in \<open>auto simp: replayed_def take_Suc_conv_app_nth\<close>)
  qed
qed

lemma replay_loop_nothing:
  assumes "\<forall>e \<in> set (dq_entries q). \<not> outstanding cid e" and "\<forall>i \<in> set is. i < length (dq_entries q)"
  shows "replay_loop clock cid handler is m q = (Inr m, q)"
  using assms by (induction "is") (auto simp: Let_def outstanding_def)

lemma replayed_filters:
  assumes "list_all2 (replayed cid) es es'"
  shows "\<forall>e \<in> set es'. \<not> outstanding cid e"
    and "filter (\<lambda>e. de_component_id e \<noteq> cid) es' = filter (\<lambda>e. de_component_id e \<noteq> cid) es"
  using assms by (induction rule: list_all2_induct) (auto simp: replayed_def outstanding_def split: if_splits)

section \<open>Properties\<close>

text \<open>
  Health signals are thresholded and alternate. Whatever the probe results of a registered
  component, the events its monitor publishes strictly alternate between \<open>AgentUnhealthy\<close> and
  \<open>AgentRecovered\<close>, beginning with \<open>AgentUnhealthy\<close>; and from a component that is not unhealthy and has
  no failure on record, \<open>n\<close> failed probes in a row make it UNHEALTHY exactly if \<open>n\<close> is at least
  the failure threshold. After any history that ends in a failed probe, \<open>n\<close> successful probes in a row
  make the component HEALTHY exactly if \<open>n\<close> is at least the success threshold.
\<close>

theorem health_signals:
  assumes "i < length (hm_objs m)" and "hr_status (reg_record (hm_objs m ! i)) \<noteq> UNHEALTHY"
    and "hr_consecutive_failures (reg_record (hm_objs m ! i)) = 0"
    and "1 \<le> hc_failure_threshold (reg_check (hm_objs m ! i))" and "1 \<le> hc_success_threshold (reg_check (hm_objs m ! i))"
  shows "(\<exists>es. snk_bus (hm_sink (fold (\<lambda>(now, healthy). apply_result now i healthy) ps m)) =
                 map_option (\<lambda>xs. xs @ map HealthEv es) (snk_bus (hm_sink m)) \<and> alternates True es) \<and>
         (hr_status (reg_record (hm_objs (fold (\<lambda>(now, healthy). apply_result now i healthy) (map (\<lambda>t. (t, False)) ts) m) ! i)) = UNHEALTHY
          \<longleftrightarrow> int (length ts) \<ge> hc_failure_threshold (reg_check (hm_objs m ! i))) \<and>
         (hr_status (reg_record (hm_objs (fold (\<lambda>(now, healthy). apply_result now i healthy) (ps @ (t, False) # map (\<lambda>t. (t, True)) ts) m) ! i)) = HEALTHY
          \<longleftrightarrow> int (length ts) \<ge> hc_success_threshold (reg_check (hm_objs m ! i)))"
  using apply_results_history [OF assms(1), of ps] apply_results_history [OF assms(1), of "map (\<lambda>t. (t, False)) ts"]
    probe_history_alternates [of "reg_record (hm_objs m ! i)" "reg_check (hm_objs m ! i)" ps]
    failing_probes [OF assms(2-4), of ts] assms(2)
    passing_probes [OF assms(5), of ps t ts "reg_record (hm_objs m ! i)"]
    apply_results_history [OF assms(1), of "ps @ (t, False) # map (\<lambda>t. (t, True)) ts"]
  by (auto simp: Let_def case_prod_beta)

theorem health_signals_witness:
  "let chk = \<lparr>hc_interval_seconds = 10, hc_timeout_seconds = 5, hc_failure_threshold = 2, hc_success_threshold = 1, hc_enabled = True\<rparr>;
       m = hm_register ''c'' ''agent'' (0 :: nat) chk \<lparr>hm_sink = wired, hm_objs = [], hm_registry = [], hm_running = False\<rparr>
   in hr_status (reg_record (hm_objs (fold (\<lambda>(now, healthy). apply_result now 0 healthy) (map (\<lambda>t. (t, False)) [1, 2]) m) ! 0)) = UNHEALTHY"
  using health_signals [where i = 0 and ps = "[]" and ts = "[1, 2]" and m = "hm_register ''c'' ''agent'' (0 :: nat)
      \<lparr>hc_interval_seconds = 10, hc_timeout_seconds = 5, hc_failure_threshold = 2, hc_success_threshold = 1, hc_enabled = True\<rparr>
      \<lparr>hm_sink = wired, hm_objs = [], hm_registry = [], hm_running = False\<rparr>"]
  by (simp add: hm_register_def health_record_init_def Let_def)

text \<open>
  The per-capability breaker of the health layer refines the same machine: in any sequence of
  admissions, successes and failures, at any times, every single operation leaves the state or is one
  documented edge, and while the breaker is OPEN it knows when it opened.
\<close>

theorem health_breaker_machine:
  assumes "n < length ops"
  shows "let b1 = fold (hb_do pol) (take n ops) breaker_state_init; b2 = fold (hb_do pol) (take (Suc n) ops) breaker_state_init
         in hb_inv b1 \<and> (hb_state b2 = hb_state b1 \<or> cb_edge (hb_state b1) (hb_state b2))"
proof -
  have "hb_inv breaker_state_init" by (simp add: hb_inv_def breaker_state_init_def)
  then show ?thesis using hb_run_refines [of breaker_state_init] assms by (simp add: Let_def del: cb_edge_simps)
qed

text \<open>
  A late success opens the half-open gate. \<open>CircuitBreaker\<close> promises exactly one test call at a
  time while HALF\_OPEN, but the success of a call admitted before the breaker opened clears the
  in-flight mark of the test call: the next call is admitted beside it.
\<close>

theorem half_open_overlap:
  assumes "hb_state b = HALF_OPEN" and "hb_half_open_inflight b"
    and "hb_success_count b + 1 < bp_success_threshold pol"
  shows "\<not> fst (hb_admit pol t b) \<and> fst (hb_admit pol t' (hb_do pol (Succeed t) b))"
  using assms by (simp add: hb_op_defs Let_def)

theorem half_open_overlap_witness:
  "let pol = default_breaker_policy\<lparr>bp_failure_threshold := 1\<rparr>;
       b = fold (hb_do pol) [Admit 0, Admit 0, Fail 1, Admit 100] breaker_state_init
   in \<not> fst (hb_admit pol 101 b) \<and> fst (hb_admit pol 102 (hb_do pol (Succeed 101) b))"
  using half_open_overlap
    [of "fold (hb_do (default_breaker_policy\<lparr>bp_failure_threshold := 1\<rparr>)) [Admit 0, Admit 0, Fail 1, Admit 100] breaker_state_init"
        "default_breaker_policy\<lparr>bp_failure_threshold := 1\<rparr>" 101 102]
  by (simp add: Let_def hb_op_defs hb_ripe_def breaker_state_init_def default_breaker_policy_def)

text \<open>
  C33: recovery is bounded and loses no signal. However often a component turns unhealthy, the engine
  never counts more than \<open>max_restarts\<close> recoveries for it, and every signal is accounted for: after
  \<open>n\<close> signals the recoveries counted and the dead letters appended together have grown by at
  least \<open>n\<close>. The agent runtime and the workflow engine may do anything to themselves and may fail with
  any \<open>Exception\<close>.
\<close>

theorem recovery_accounts:
  assumes "well_behaved c" and "0 \<le> restart_count cid r" and "restart_count cid r \<le> max 0 (rv_max_restarts r)"
  shows "let r' = unhealthy_run c clock cid xs r
         in restart_count cid r' \<le> max 0 (rv_max_restarts r) \<and>
            int (length (dq_entries (rv_dlq r'))) + restart_count cid r' \<ge>
              int (length (dq_entries (rv_dlq r))) + restart_count cid r + int (length xs)"
  using assms(2,3)
proof (induction xs arbitrary: r)
  case (Cons x xs)
  obtain u u' ty rec where [simp]: "x = (u, u', ty, rec)" by (cases x)
  from on_unhealthy_accounts [OF assms(1) Cons.prems, of clock u u' ty rec]
    Cons.IH [of "snd (on_unhealthy c clock u u' cid ty rec r)"]
  show ?case by (auto simp: Let_def)
qed simp

theorem recovery_accounts_witness:
  "let c = \<lparr>ar_get = \<lambda>i r. (Inr (Some ()), r), ar_stop = \<lambda>i r. (Inr (), r), ar_start = \<lambda>g r. (Inl (ValueError ''x''), r),
            wf_get_instance = \<lambda>i r. (Inr (), r)\<rparr> :: (unit, unit, recovery) collaborators;
       r = \<lparr>rv_dlq = \<lparr>dq_sink = unwired, dq_entries = []\<rparr>, rv_sink = unwired, rv_max_restarts = 1, rv_restart_counts = [], rv_sub_id = None\<rparr>;
       r' = unhealthy_run c (\<lambda>_. 0) ''a'' [(''1'', ''2'', ''agent'', None), (''3'', ''4'', ''agent'', None)] r
   in restart_count ''a'' r' \<le> 1 \<and> int (length (dq_entries (rv_dlq r'))) + restart_count ''a'' r' \<ge> 2"
  using recovery_accounts [where cid = "''a''" and clock = "\<lambda>_. 0"
      and c = "\<lparr>ar_get = \<lambda>i r. (Inr (Some ()), r), ar_stop = \<lambda>i r. (Inr (), r), ar_start = \<lambda>g r. (Inl (ValueError ''x''), r),
            wf_get_instance = \<lambda>i r. (Inr (), r)\<rparr> :: (unit, unit, recovery) collaborators"
      and r = "\<lparr>rv_dlq = \<lparr>dq_sink = unwired, dq_entries = []\<rparr>, rv_sink = unwired, rv_max_restarts = 1, rv_restart_counts = [], rv_sub_id = None\<rparr>"
      and xs = "[(''1'', ''2'', ''agent'', None), (''3'', ''4'', ''agent'', None)]"]
  by (simp add: well_behaved_def tame_def exn_simps restart_count_def dget_or_def Let_def)

text \<open>
  Replaying is complete and idempotent. With distinct entry ids and a handler that accepts every
  entry and leaves the queue alone, a replay for a component reports exactly the entries of it that
  were not recovered, marks them, changes no entry of another component, and a second replay finds
  nothing to do.
\<close>

theorem replay_idempotent:
  assumes "distinct (map de_entry_id (dq_entries q))"
  shows "let (n, q') = dlq_replay clock cid (\<lambda>e q. (Inr True, q)) q
         in n = Inr (int (length (filter (outstanding cid) (dq_entries q)))) \<and>
            filter (outstanding cid) (dq_entries q') = [] \<and>
            filter (\<lambda>e. de_component_id e \<noteq> cid) (dq_entries q') = filter (\<lambda>e. de_component_id e \<noteq> cid) (dq_entries q) \<and>
            dlq_replay clock cid (\<lambda>e q. (Inr True, q)) q' = (Inr 0, q')"
proof -
  obtain q' es' where "dlq_replay clock cid (\<lambda>e q. (Inr True, q)) q =
        (Inr (int (length (filter (outstanding cid) (dq_entries q)))), q')"
      and "dq_entries q' = es'" "list_all2 (replayed cid) (dq_entries q) es'"
    using replay_loop_marks [of q 0 clock cid 0] assms by (auto simp: dlq_replay_def)
  moreover from this have "dlq_replay clock cid (\<lambda>e q. (Inr True, q)) q' = (Inr 0, q')"
    unfolding dlq_replay_def using replayed_filters(1) by (intro replay_loop_nothing) auto
  ultimately show ?thesis
    using replayed_filters [of cid "dq_entries q" es'] by (simp add: filter_empty_conv)
qed

theorem replay_idempotent_witness:
  "let e = (\<lambda>i c. \<lparr>de_entry_id = i, de_component_id = c, de_entry_type = ''task'', de_payload = [], de_error = ''x'',
                   de_retry_count = 0, de_max_retries = 3, de_created_at = 0, de_recovered_at = None\<rparr>)
   in fst (dlq_replay (\<lambda>_. 5) ''a'' (\<lambda>e q. (Inr True, q)) \<lparr>dq_sink = unwired, dq_entries = [e ''1'' ''a'', e ''2'' ''b'']\<rparr>) = Inr 1"
  using replay_idempotent [of "\<lparr>dq_sink = unwired, dq_entries =
      [\<lparr>de_entry_id = ''1'', de_component_id = ''a'', de_entry_type = ''task'', de_payload = [], de_error = ''x'',
        de_retry_count = 0, de_max_retries = 3, de_created_at = 0, de_recovered_at = None\<rparr>,
       \<lparr>de_entry_id = ''2'', de_component_id = ''b'', de_entry_type = ''task'', de_payload = [], de_error = ''x'',
        de_retry_count = 0, de_max_retries = 3, de_created_at = 0, de_recovered_at = None\<rparr>]\<rparr>" "\<lambda>_. 5" "''a''"]
  by (simp add: Let_def case_prod_beta outstanding_def)

end
