(* ===== verification/Registries.thy ===== *)
theory Registries
  imports Events
begin

text \<open>
  The in-memory registries: \<open>kernel/registry.py\<close> (plugins, tools, agents), \<open>CapabilityRegistry\<close> of
  \<open>kernel/capability.py\<close>, and \<open>kernel/workspace.py\<close>.

  Every method that changes a registry runs without an await inside its lock, so it is atomic. Plugin
  instances are values of \<open>'i\<close>; \<open>sys.modules\<close> is the list of loaded module names. Ids drawn by
  \<open>uuid4\<close> and the clock are arguments. The four registries interpret \<open>registry\<close>.
\<close>

section \<open>PluginRegistry\<close>

record plugin_manifest =
  pm_name :: string
  pm_version :: string
  pm_capabilities :: "string list"
  pm_entrypoint :: string
  pm_dependencies :: "string list"

record plugin_info =
  pi_name :: string
  pi_version :: string
  pi_capabilities :: "string list"
  pi_entrypoint :: string
  pi_status :: string

record 'i plugin_registry =
  pr_plugins :: "(string, plugin_manifest \<times> 'i) dict"
  pr_disabled :: "string list"
  pr_bus :: "event list option"
  pr_modules :: "string list"

definition plugin_registry_init :: "event list option \<Rightarrow> string list \<Rightarrow> 'i plugin_registry" where
  "plugin_registry_init bus modules = \<lparr>pr_plugins = [], pr_disabled = [], pr_bus = bus, pr_modules = modules\<rparr>"

definition register_plugin :: "plugin_manifest \<times> 'i \<Rightarrow> 'i plugin_registry \<Rightarrow> (string, 'i plugin_registry) res" where
  "register_plugin e r =
     (let manifest = fst e; pid = pm_name manifest
      in if dget (pr_plugins r) pid \<noteq> None then (Inl (ValueError (''plugin '' @ quoted pid @ '' already registered'')), r)
         else if pm_entrypoint manifest = [] then (Inl (ValueError (''plugin '' @ quoted pid @ '' has empty entrypoint'')), r)
         else (Inr pid, r\<lparr>pr_plugins := dset pid e (pr_plugins r), pr_disabled := filter ((\<noteq>) pid) (pr_disabled r)\<rparr>))"

definition list_plugins :: "'i plugin_registry \<Rightarrow> plugin_info list" where
  "list_plugins r =
     map (\<lambda>(pid, manifest, _).
            \<lparr>pi_name = pid, pi_version = pm_version manifest, pi_capabilities = pm_capabilities manifest,
             pi_entrypoint = pm_entrypoint manifest,
             pi_status = (if pid \<in> set (pr_disabled r) then ''disabled'' else ''loaded'')\<rparr>) (pr_plugins r)"

definition plugin_get_sync :: "'i plugin_registry \<Rightarrow> string \<Rightarrow> 'i option" where
  "plugin_get_sync r pid =
     (if pid \<in> set (pr_disabled r) then None else map_option snd (dget (pr_plugins r) pid))"

definition is_disabled :: "'i plugin_registry \<Rightarrow> string \<Rightarrow> bool" where
  "is_disabled r pid \<longleftrightarrow> pid \<in> set (pr_disabled r)"

text \<open>The event is published only when an event loop is running, which \<open>loop\<close> says.\<close>

definition plugin_disable :: "bool \<Rightarrow> string \<Rightarrow> 'i plugin_registry \<Rightarrow> bool \<times> 'i plugin_registry" where
  "plugin_disable loop pid r =
     (case dget (pr_plugins r) pid of
        None \<Rightarrow> (False, r)
      | Some (manifest, _) \<Rightarrow>
          (let module_name = hd (split_on (CHR '':'') (pm_entrypoint manifest));
               r1 = r\<lparr>pr_modules := filter ((\<noteq>) module_name) (pr_modules r),
                      pr_disabled := (if pid \<in> set (pr_disabled r) then pr_disabled r else pr_disabled r @ [pid])\<rparr>
           in (True,
               if loop
               then r1\<lparr>pr_bus := map_option (\<lambda>es. es @ [\<lparr>ev_type = ''plugin.disabled'', ev_aggregate = [],
                                                 ev_payload = [(''name'', PStr pid)]\<rparr>]) (pr_bus r1)\<rparr>
               else r1)))"

definition plugin_enable :: "string \<Rightarrow> 'i plugin_registry \<Rightarrow> bool \<times> 'i plugin_registry" where
  "plugin_enable pid r =
     (if dget (pr_plugins r) pid \<noteq> None then (True, r\<lparr>pr_disabled := filter ((\<noteq>) pid) (pr_disabled r)\<rparr>)
      else (False, r))"

text \<open>The loaded instances with their manifests; a refused registration stops the loop.\<close>

fun register_loaded :: "(plugin_manifest \<times> 'i) list \<Rightarrow> 'i plugin_registry \<Rightarrow> (unit, 'i plugin_registry) res" where
  "register_loaded [] r = (Inr (), r)"
| "register_loaded (e # es) r =
     (case register_plugin e r of (Inl x, r1) \<Rightarrow> (Inl x, r1) | (Inr _, r1) \<Rightarrow> register_loaded es r1)"

definition load_paths ::
  "string list \<Rightarrow> (string list \<Rightarrow> (plugin_manifest \<times> 'i) list) option \<Rightarrow> 'i plugin_registry \<Rightarrow>
   ('i list, 'i plugin_registry) res" where
  "load_paths paths loader r =
     (case loader of
        None \<Rightarrow> (Inl (ValueError ''load_paths requires an explicit loader callable (e.g. plugins.loader.auto_load) to avoid a kernel->plugins dependency inversion''), r)
      | Some load \<Rightarrow>
          (let loaded = load paths
           in case register_loaded loaded r of
                (Inl x, r1) \<Rightarrow> (Inl x, r1)
              | (Inr _, r1) \<Rightarrow> (Inr (map snd loaded), r1)))"

definition unregister_plugin :: "string \<Rightarrow> 'i plugin_registry \<Rightarrow> bool \<times> 'i plugin_registry" where
  "unregister_plugin pid r = (dget (pr_plugins r) pid \<noteq> None, r\<lparr>pr_plugins := ddel pid (pr_plugins r)\<rparr>)"

definition get_plugin :: "'i plugin_registry \<Rightarrow> string \<Rightarrow> (plugin_manifest \<times> 'i) option" where
  "get_plugin r pid = dget (pr_plugins r) pid"

definition list_manifests :: "'i plugin_registry \<Rightarrow> plugin_manifest list" where
  "list_manifests r = map fst (dvals (pr_plugins r))"

definition get_by_capability :: "'i plugin_registry \<Rightarrow> string \<Rightarrow> 'i list" where
  "get_by_capability r capability =
     map snd (filter (\<lambda>(m, _). capability \<in> set (pm_capabilities m)) (dvals (pr_plugins r)))"

definition clear_plugins :: "'i plugin_registry \<Rightarrow> 'i plugin_registry" where
  "clear_plugins r = r\<lparr>pr_plugins := [], pr_disabled := []\<rparr>"

section \<open>ToolRegistry and AgentRegistry\<close>

record tool =
  t_id :: string
  t_name :: string
  t_capability :: string

type_synonym tool_registry = "(string, tool) dict"

definition register_tool :: "'a tool_scheme \<Rightarrow> (string, 'a tool_scheme) dict \<Rightarrow> (string, (string, 'a tool_scheme) dict) res" where
  "register_tool t r =
     (if dget r (t_id t) \<noteq> None then (Inl (ValueError (''tool '' @ quoted (t_id t) @ '' already registered'')), r)
      else if t_capability t = [] then (Inl (ValueError (''tool '' @ quoted (t_id t) @ '' has empty capability'')), r)
      else (Inr (t_id t), dset (t_id t) t r))"

definition unregister_tool :: "string \<Rightarrow> (string, 'a tool_scheme) dict \<Rightarrow> bool \<times> (string, 'a tool_scheme) dict" where
  "unregister_tool i r = (dget r i \<noteq> None, ddel i r)"

definition get_tool_by_name :: "(string, 'a tool_scheme) dict \<Rightarrow> string \<Rightarrow> 'a tool_scheme option" where
  "get_tool_by_name r name = find (\<lambda>t. t_name t = name) (dvals r)"

definition list_tools :: "(string, 'a tool_scheme) dict \<Rightarrow> 'a tool_scheme list" where
  "list_tools r = dvals r"

definition discover_tools :: "tool_registry \<Rightarrow> string \<Rightarrow> tool list" where
  "discover_tools r capability =
     filter (\<lambda>t. t_capability t = capability \<or> startswith (capability @ ''.'') (t_capability t)) (dvals r)"

record agent =
  a_id :: string
  a_name :: string
  a_capabilities :: "string list"
  a_status :: string

type_synonym agent_registry = "(string, agent) dict"

definition register_agent :: "agent \<Rightarrow> agent_registry \<Rightarrow> (string, agent_registry) res" where
  "register_agent a r =
     (if dget r (a_id a) \<noteq> None then (Inl (ValueError (''agent '' @ quoted (a_id a) @ '' already registered'')), r)
      else (Inr (a_id a), dset (a_id a) a r))"

definition unregister_agent :: "string \<Rightarrow> agent_registry \<Rightarrow> bool \<times> agent_registry" where
  "unregister_agent i r = (dget r i \<noteq> None, ddel i r)"

definition get_agent_by_name :: "agent_registry \<Rightarrow> string \<Rightarrow> agent option" where
  "get_agent_by_name r name = find (\<lambda>a. a_name a = name) (dvals r)"

definition list_agents :: "agent_registry \<Rightarrow> agent list" where
  "list_agents r = dvals r"

section \<open>CapabilityRegistry\<close>

record capability =
  c_id :: string
  c_name :: string
  c_description :: string
  c_tools :: "string list"

record cap_registry =
  cp_tools :: tool_registry
  cp_caps :: "(string, capability) dict"

definition register_capability :: "capability \<Rightarrow> cap_registry \<Rightarrow> (string, cap_registry) res" where
  "register_capability c r =
     (if \<exists>d \<in> set (dvals (cp_caps r)). c_name d = c_name c
      then (Inl (ValueError (''Capability name '' @ quoted (c_name c) @ '' already registered'')), r)
      else (Inr (c_id c), r\<lparr>cp_caps := dset (c_id c) c (cp_caps r)\<rparr>))"

definition get_capability :: "cap_registry \<Rightarrow> string \<Rightarrow> capability option" where
  "get_capability r i = dget (cp_caps r) i"

definition get_capability_by_name :: "cap_registry \<Rightarrow> string \<Rightarrow> capability option" where
  "get_capability_by_name r name = find (\<lambda>c. c_name c = name) (dvals (cp_caps r))"

definition resolve_tools :: "cap_registry \<Rightarrow> string \<Rightarrow> tool list" where
  "resolve_tools r i =
     (case get_capability r i of
        None \<Rightarrow> []
      | Some c \<Rightarrow> List.map_filter (get_tool_by_name (cp_tools r)) (c_tools c))"

definition resolve_tools_by_name :: "cap_registry \<Rightarrow> string \<Rightarrow> tool list" where
  "resolve_tools_by_name r name =
     (case get_capability_by_name r name of None \<Rightarrow> [] | Some c \<Rightarrow> resolve_tools r (c_id c))"

definition discover_capabilities :: "cap_registry \<Rightarrow> string \<Rightarrow> capability list" where
  "discover_capabilities r prefix =
     (if prefix = [] then dvals (cp_caps r)
      else filter (\<lambda>c. c_name c = prefix \<or> startswith (prefix @ ''.'') (c_name c)) (dvals (cp_caps r)))"

definition unregister_capability :: "string \<Rightarrow> cap_registry \<Rightarrow> bool \<times> cap_registry" where
  "unregister_capability i r = (dget (cp_caps r) i \<noteq> None, r\<lparr>cp_caps := ddel i (cp_caps r)\<rparr>)"

definition list_capabilities :: "cap_registry \<Rightarrow> capability list" where
  "list_capabilities r = dvals (cp_caps r)"

section \<open>WorkspaceRegistry\<close>

record workspace =
  w_id :: string
  w_name :: string
  w_owner_id :: string
  w_settings :: pydict
  w_updated_at :: datetime

record workspaces =
  wr_workspaces :: "(string, workspace) dict"
  wr_active_id :: "string option"

definition workspaces_init :: workspaces where
  "workspaces_init = \<lparr>wr_workspaces = [], wr_active_id = None\<rparr>"

definition add_workspace :: "workspace \<Rightarrow> workspaces \<Rightarrow> workspaces" where
  "add_workspace ws r =
     r\<lparr>wr_workspaces := dset (w_id ws) ws (wr_workspaces r),
       wr_active_id := (if wr_active_id r = None then Some (w_id ws) else wr_active_id r)\<rparr>"

definition ensure_default :: "string \<Rightarrow> datetime \<Rightarrow> workspaces \<Rightarrow> workspaces" where
  "ensure_default uid now r =
     (if wr_workspaces r = []
      then add_workspace \<lparr>w_id = uid, w_name = ''default'', w_owner_id = ''system'', w_settings = [], w_updated_at = now\<rparr> r
      else r)"

definition create_workspace ::
  "string \<Rightarrow> datetime \<Rightarrow> string \<Rightarrow> string \<Rightarrow> pydict \<Rightarrow> workspaces \<Rightarrow> (workspace, workspaces) res" where
  "create_workspace uid now name owner_id settings r =
     (if \<exists>w \<in> set (dvals (wr_workspaces r)). w_name w = name
      then (Inl (ValueError (''workspace name '' @ quoted name @ '' already exists'')), r)
      else
        (let ws = \<lparr>w_id = uid, w_name = name, w_owner_id = owner_id, w_settings = settings, w_updated_at = now\<rparr>
         in (Inr ws, add_workspace ws r)))"

definition get_workspace :: "workspaces \<Rightarrow> string \<Rightarrow> workspace option" where
  "get_workspace r i = dget (wr_workspaces r) i"

definition get_workspace_by_name :: "workspaces \<Rightarrow> string \<Rightarrow> workspace option" where
  "get_workspace_by_name r name = find (\<lambda>w. w_name w = name) (dvals (wr_workspaces r))"

definition list_workspaces :: "string \<Rightarrow> datetime \<Rightarrow> workspaces \<Rightarrow> workspace list \<times> workspaces" where
  "list_workspaces uid now r = (let r1 = ensure_default uid now r in (dvals (wr_workspaces r1), r1))"

definition update_workspace ::
  "string \<Rightarrow> datetime \<Rightarrow> string option \<Rightarrow> string option \<Rightarrow> pydict option \<Rightarrow> workspaces \<Rightarrow> (workspace option, workspaces) res" where
  "update_workspace i now name owner_id settings r =
     (case dget (wr_workspaces r) i of
        None \<Rightarrow> (Inr None, r)
      | Some ws \<Rightarrow>
          if (case name of
                None \<Rightarrow> False
              | Some new_name \<Rightarrow> \<exists>w \<in> set (dvals (wr_workspaces r)). w_name w = new_name \<and> w_id w \<noteq> i)
          then (Inl (ValueError (''workspace name '' @ quoted (case name of None \<Rightarrow> [] | Some n \<Rightarrow> n) @ '' already exists'')), r)
          else
            (let updated = ws\<lparr>w_name := (case name of None \<Rightarrow> w_name ws | Some n \<Rightarrow> n),
                              w_owner_id := (case owner_id of None \<Rightarrow> w_owner_id ws | Some x \<Rightarrow> x),
                              w_settings := (case settings of None \<Rightarrow> w_settings ws | Some x \<Rightarrow> x),
                              w_updated_at := now\<rparr>
             in (Inr (Some updated), r\<lparr>wr_workspaces := dset i updated (wr_workspaces r)\<rparr>)))"

definition delete_workspace :: "string \<Rightarrow> workspaces \<Rightarrow> bool \<times> workspaces" where
  "delete_workspace i r =
     (if dget (wr_workspaces r) i = None then (False, r)
      else (True, r\<lparr>wr_workspaces := ddel i (wr_workspaces r),
                    wr_active_id := (if wr_active_id r = Some i then None else wr_active_id r)\<rparr>))"

definition set_active :: "string \<Rightarrow> workspaces \<Rightarrow> (string option, workspaces) res" where
  "set_active i r =
     (if dget (wr_workspaces r) i = None
      then (Inl (ValueError (''workspace '' @ quoted i @ '' not found'')), r)
      else (Inr (wr_active_id r), r\<lparr>wr_active_id := Some i\<rparr>))"

text \<open>The rows come from the injected persistence.\<close>

definition load_from_db :: "workspace list \<Rightarrow> workspaces \<Rightarrow> nat \<times> workspaces" where
  "load_from_db rows r =
     (let wss = fold (\<lambda>w. dset (w_id w) w) rows (wr_workspaces r)
      in (length rows,
          r\<lparr>wr_workspaces := wss,
            wr_active_id := (case wr_active_id r of Some i \<Rightarrow> Some i | None \<Rightarrow> (case wss of [] \<Rightarrow> None | (i, _) # _ \<Rightarrow> Some i))\<rparr>))"

definition ws_wf :: "workspaces \<Rightarrow> bool" where
  "ws_wf r \<longleftrightarrow>
     dict_ok (wr_workspaces r) \<and> (\<forall>(i, w) \<in> set (wr_workspaces r). w_id w = i) \<and>
     distinct (map w_name (dvals (wr_workspaces r))) \<and>
     (case wr_active_id r of None \<Rightarrow> True | Some i \<Rightarrow> dget (wr_workspaces r) i \<noteq> None)"

text \<open>The operations on the registry; the id of a new workspace is part of the operation.\<close>

datatype ws_op =
    WCreate string datetime string string pydict
  | WList string datetime
  | WUpdate string datetime "string option" "string option" "pydict option"
  | WDelete string
  | WActivate string

fun ws_do :: "ws_op \<Rightarrow> workspaces \<Rightarrow> workspaces" where
  "ws_do (WCreate uid now name owner settings) r = snd (create_workspace uid now name owner settings r)"
| "ws_do (WList uid now) r = snd (list_workspaces uid now r)"
| "ws_do (WUpdate i now name owner settings) r = snd (update_workspace i now name owner settings r)"
| "ws_do (WDelete i) r = snd (delete_workspace i r)"
| "ws_do (WActivate i) r = snd (set_active i r)"

text \<open>\<open>uuid4\<close> gives an id that is not in use.\<close>

fun ws_fresh :: "ws_op \<Rightarrow> workspaces \<Rightarrow> bool" where
  "ws_fresh (WCreate uid _ _ _ _) r = (dget (wr_workspaces r) uid = None)"
| "ws_fresh (WList uid _) r = (dget (wr_workspaces r) uid = None)"
| "ws_fresh _ r = True"

fun ws_run :: "ws_op list \<Rightarrow> workspaces \<Rightarrow> workspaces option" where
  "ws_run [] r = Some r"
| "ws_run (op # ops) r = (if ws_fresh op r then ws_run ops (ws_do op r) else None)"

section \<open>Lemmas\<close>

interpretation plugins: registry "\<lambda>r. dict_ok (pr_plugins r)" "\<lambda>e. pm_name (fst e)"
    "\<lambda>r e. dget (pr_plugins r) (pm_name (fst e)) \<noteq> None \<or> pm_entrypoint (fst e) = []"
    register_plugin unregister_plugin get_plugin
  by unfold_locales
     (auto simp: register_plugin_def unregister_plugin_def get_plugin_def Let_def fun_eq_iff dget_dset dget_ddel)

interpretation tools: registry dict_ok t_id "\<lambda>r t. dget r (t_id t) \<noteq> None \<or> t_capability t = []"
    register_tool unregister_tool dget
  by unfold_locales (auto simp: register_tool_def unregister_tool_def fun_eq_iff dget_dset dget_ddel)

interpretation agents: registry dict_ok a_id "\<lambda>r a. dget r (a_id a) \<noteq> None" register_agent unregister_agent dget
  by unfold_locales (auto simp: register_agent_def unregister_agent_def fun_eq_iff dget_dset dget_ddel)

lemma plugin_registry_init_simps [simp]:
  "dict_ok (pr_plugins (plugin_registry_init bus modules))" "get_plugin (plugin_registry_init bus modules) pid = None"
  by (simp_all add: plugin_registry_init_def get_plugin_def)

lemma dvals_dset_mem: "v \<in> set (dvals (dset k v d))"
  using dget_Some_in [OF dget_dset_same [of k v d]] by force

interpretation capabilities: registry "\<lambda>r. dict_ok (cp_caps r)" c_id
    "\<lambda>r c. \<exists>d \<in> set (dvals (cp_caps r)). c_name d = c_name c"
    register_capability unregister_capability get_capability
proof unfold_locales
  fix r :: cap_registry and c :: capability
  assume "\<not> (\<exists>d \<in> set (dvals (cp_caps r)). c_name d = c_name c)"
  then show "\<exists>d \<in> set (dvals (cp_caps (snd (register_capability c r)))). c_name d = c_name c"
    using dvals_dset_mem [of c "c_id c" "cp_caps r"] by (auto simp: register_capability_def)
qed (auto simp: register_capability_def unregister_capability_def get_capability_def fun_eq_iff dget_dset dget_ddel)

text \<open>The names of a dictionary of workspaces after the entry of one id is replaced.\<close>

lemma names_dset:
  assumes "dict_ok d" and "distinct (map f (dvals d))" and "\<And>k' v'. (k', v') \<in> set d \<Longrightarrow> k' \<noteq> k \<Longrightarrow> f v' \<noteq> f v"
  shows "distinct (map f (dvals (dset k v d)))"
  using assms
proof (induction d)
  case (Cons kv d)
  obtain k1 v1 where [simp]: "kv = (k1, v1)" by (cases kv)
  show ?case
  proof (cases "k1 = k")
    case True
    then have "k' \<noteq> k" if "(k', v') \<in> set d" for k' v'
      using Cons.prems(1) that by (force simp: dict_ok_def)
    with True Cons.prems show ?thesis by (auto simp: image_image) metis
  next
    case False
    have "distinct (map f (dvals (dset k v d)))"
      using Cons.IH Cons.prems by (auto simp: dict_ok_def)
    moreover have "f v1 \<noteq> f w" if "(k', w) \<in> set (dset k v d)" for k' w
      using in_dsetD [OF that] Cons.prems(2) Cons.prems(3) [of k1 v1] False by force
    ultimately show ?thesis using False by force
  qed
qed simp

lemma ws_wf_dset:
  assumes "ws_wf r" and "\<And>k w. (k, w) \<in> set (wr_workspaces r) \<Longrightarrow> k \<noteq> w_id ws \<Longrightarrow> w_name w \<noteq> w_name ws"
    and "active = wr_active_id r \<or> active = Some (w_id ws)"
  shows "ws_wf (r\<lparr>wr_workspaces := dset (w_id ws) ws (wr_workspaces r), wr_active_id := active\<rparr>)"
proof -
  have names: "distinct (map w_name (dvals (dset (w_id ws) ws (wr_workspaces r))))"
    using assms(1,2) by (intro names_dset) (simp_all add: ws_wf_def)
  have ids: "\<forall>(i, w) \<in> set (dset (w_id ws) ws (wr_workspaces r)). w_id w = i"
    using assms(1) by (auto simp: ws_wf_def dest!: in_dsetD)
  show ?thesis
    using assms(1,3) names ids unfolding ws_wf_def
    by (auto simp: dget_dset split: option.splits)
qed

lemma ws_wf_add:
  assumes "ws_wf r" and "\<And>w. w \<in> set (dvals (wr_workspaces r)) \<Longrightarrow> w_name w \<noteq> w_name ws"
  shows "ws_wf (add_workspace ws r)"
  unfolding add_workspace_def
  by (rule ws_wf_dset) (use assms in force)+

lemma ws_wf_update:
  assumes "ws_wf r"
  shows "ws_wf (snd (update_workspace i now name owner settings r))"
proof (cases "dget (wr_workspaces r) i = None \<or>
    (case name of None \<Rightarrow> False | Some n \<Rightarrow> \<exists>w \<in> set (dvals (wr_workspaces r)). w_name w = n \<and> w_id w \<noteq> i)")
  case True
  with assms show ?thesis by (auto simp: update_workspace_def split: option.splits)
next
  case False
  then obtain ws where ws: "dget (wr_workspaces r) i = Some ws" by auto
  have ids: "w_id w = k" if "(k, w) \<in> set (wr_workspaces r)" for k w
    using assms that by (auto simp: ws_wf_def)
  have inj: "inj_on (w_name \<circ> snd) (set (wr_workspaces r))"
    using assms by (simp add: ws_wf_def distinct_map o_def)
  have "w_name w \<noteq> w_name ws" if "(k, w) \<in> set (wr_workspaces r)" "k \<noteq> i" for k w
    using inj_onD [OF inj, of "(k, w)" "(i, ws)"] dget_Some_in [OF ws] that by auto
  with False ids have new: "w_name w \<noteq> (case name of None \<Rightarrow> w_name ws | Some n \<Rightarrow> n)"
    if "(k, w) \<in> set (wr_workspaces r)" "k \<noteq> i" for k w
    using that by (fastforce split: option.splits)
  define updated where "updated = ws\<lparr>w_name := (case name of None \<Rightarrow> w_name ws | Some n \<Rightarrow> n),
      w_owner_id := (case owner of None \<Rightarrow> w_owner_id ws | Some x \<Rightarrow> x),
      w_settings := (case settings of None \<Rightarrow> w_settings ws | Some x \<Rightarrow> x), w_updated_at := now\<rparr>"
  have id: "w_id updated = i" using ids [OF dget_Some_in [OF ws]] by (simp add: updated_def)
  have "ws_wf (r\<lparr>wr_workspaces := dset (w_id updated) updated (wr_workspaces r), wr_active_id := wr_active_id r\<rparr>)"
    by (rule ws_wf_dset) (use assms new id in \<open>auto simp: updated_def\<close>)
  moreover have "snd (update_workspace i now name owner settings r) = r\<lparr>wr_workspaces := dset i updated (wr_workspaces r)\<rparr>"
    using False ws by (simp add: update_workspace_def Let_def updated_def)
  ultimately show ?thesis by (simp add: id)
qed

lemma ws_wf_delete:
  assumes "ws_wf r"
  shows "ws_wf (snd (delete_workspace i r))"
proof -
  have "distinct (map w_name (dvals (ddel i (wr_workspaces r))))"
    using assms by (simp add: ws_wf_def AList.delete_eq distinct_map_filter)
  with assms show ?thesis
    by (auto simp: ws_wf_def delete_workspace_def in_ddel dget_ddel split: option.splits if_splits)
qed

lemma ws_wf_active: "ws_wf r \<Longrightarrow> ws_wf (snd (set_active i r))"
  by (cases "dget (wr_workspaces r) i") (auto simp: ws_wf_def set_active_def)

lemma ws_do_wf: "ws_wf r \<Longrightarrow> ws_fresh op r \<Longrightarrow> ws_wf (ws_do op r)"
proof (cases op)
  case (WCreate uid now name owner settings)
  assume "ws_wf r" "ws_fresh op r"
  with WCreate show ?thesis by (auto simp: create_workspace_def Let_def intro!: ws_wf_add)
next
  case (WList uid now)
  assume "ws_wf r" "ws_fresh op r"
  with WList show ?thesis by (auto simp: list_workspaces_def ensure_default_def Let_def intro!: ws_wf_add)
qed (auto simp: ws_wf_update ws_wf_delete ws_wf_active)

section \<open>Properties\<close>

text \<open>
  The registry contract, for plugins. Registering a plugin with a new name and an entry point
  returns its name and makes it, and nothing else, retrievable; registering the name again is refused
  and changes nothing; and unregistering it restores the registry's content.
\<close>

theorem plugin_contract:
  assumes "dict_ok (pr_plugins r)" and "get_plugin r (pm_name m) = None" and "pm_entrypoint m \<noteq> []"
  shows "let (res, r') = register_plugin (m, inst) r
         in res = Inr (pm_name m) \<and> get_plugin r' = (get_plugin r)(pm_name m \<mapsto> (m, inst)) \<and>
            (\<exists>x. register_plugin (m, inst) r' = (Inl x, r')) \<and>
            get_plugin (snd (unregister_plugin (pm_name m) r')) = get_plugin r"
proof -
  have free: "\<not> (dget (pr_plugins r) (pm_name (fst (m, inst))) \<noteq> None \<or> pm_entrypoint (fst (m, inst)) = [])"
    using assms(2,3) by (simp add: get_plugin_def)
  show ?thesis
    using plugins.accept [OF assms(1) free] plugins.register_twice [OF assms(1) free]
      plugins.register_unregister [OF assms(1) free] assms(2)
    by (simp add: Let_def case_prod_beta)
qed

theorem plugin_contract_witness:
  "let m = \<lparr>pm_name = ''p'', pm_version = ''1'', pm_capabilities = [], pm_entrypoint = ''a:b'', pm_dependencies = []\<rparr>;
       r' = snd (register_plugin (m, 5 :: nat) (plugin_registry_init None []))
   in get_plugin r' ''p'' = Some (m, 5) \<and> get_plugin (snd (unregister_plugin ''p'' r')) ''p'' = None"
  using plugin_contract [of "plugin_registry_init None []"
      "\<lparr>pm_name = ''p'', pm_version = ''1'', pm_capabilities = [], pm_entrypoint = ''a:b'', pm_dependencies = []\<rparr>" "5 :: nat"]
  by (simp add: Let_def case_prod_beta)

text \<open>
  What disabling a plugin does and does not do. The instance is no longer returned by
  \<open>get_sync\<close> and is returned again after enabling; but it is still among the instances found by
  any of its capabilities.
\<close>

theorem disable_effect:
  assumes "get_plugin r pid = Some (m, inst)" and "pid \<notin> set (pr_disabled r)" and "cap \<in> set (pm_capabilities m)"
  shows "let r' = snd (plugin_disable loop pid r)
         in plugin_get_sync r' pid = None \<and> plugin_get_sync (snd (plugin_enable pid r')) pid = Some inst \<and>
            inst \<in> set (get_by_capability r' cap)"
proof -
  have "(m, inst) \<in> set (filter (\<lambda>(m, _). cap \<in> set (pm_capabilities m)) (dvals (pr_plugins r)))"
    using assms(1,3) dget_Some_in [of "pr_plugins r" pid "(m, inst)"] by (force simp: get_plugin_def)
  then have "inst \<in> set (get_by_capability r cap)"
    by (force simp: get_by_capability_def)
  with assms show ?thesis
    by (auto simp: plugin_disable_def plugin_enable_def plugin_get_sync_def get_by_capability_def get_plugin_def Let_def)
qed

theorem disable_effect_witness:
  "let m = \<lparr>pm_name = ''p'', pm_version = ''1'', pm_capabilities = [''c''], pm_entrypoint = ''a:b'', pm_dependencies = []\<rparr>;
       r' = snd (plugin_disable True ''p'' (snd (register_plugin (m, 5 :: nat) (plugin_registry_init (Some []) []))))
   in plugin_get_sync r' ''p'' = None \<and> 5 \<in> set (get_by_capability r' ''c'')"
  using disable_effect [of "snd (register_plugin (\<lparr>pm_name = ''p'', pm_version = ''1'', pm_capabilities = [''c''],
        pm_entrypoint = ''a:b'', pm_dependencies = []\<rparr>, 5 :: nat) (plugin_registry_init (Some []) []))" "''p''"
      "\<lparr>pm_name = ''p'', pm_version = ''1'', pm_capabilities = [''c''], pm_entrypoint = ''a:b'', pm_dependencies = []\<rparr>" 5 "''c''" True]
  by (simp add: plugin_registry_init_def get_plugin_def register_plugin_def Let_def)

text \<open>
  Workspaces keep unique names. Whatever is created, listed, renamed, deleted and activated, in any
  order, as long as new ids are fresh: no two workspaces share a name, every workspace is filed under its
  id, and the active workspace, if any, exists.
\<close>

theorem workspace_invariant:
  assumes "ws_run ops workspaces_init = Some r"
  shows "ws_wf r"
proof -
  have "ws_run ops r0 = Some r \<Longrightarrow> ws_wf r0 \<Longrightarrow> ws_wf r" for r0
    by (induction ops arbitrary: r0) (auto simp: ws_do_wf split: if_splits)
  with assms show ?thesis by (simp add: ws_wf_def workspaces_init_def)
qed

theorem workspace_invariant_witness:
  "\<exists>r. ws_run [WList ''1'' 0, WCreate ''2'' 1 ''a'' ''o'' [], WActivate ''2'', WDelete ''2''] workspaces_init = Some r \<and> ws_wf r"
  using workspace_invariant [of "[WList ''1'' 0, WCreate ''2'' 1 ''a'' ''o'' [], WActivate ''2'', WDelete ''2'']"]
  by (simp add: workspaces_init_def list_workspaces_def ensure_default_def add_workspace_def create_workspace_def Let_def)

end
