(* ===== verification/Dispatch.thy ===== *)
theory Dispatch
  imports Health Registries
begin

text \<open>
  Dispatch of capabilities and tasks: \<open>CapabilityExecutor\<close> of \<open>kernel/capability.py\<close>,
  \<open>kernel/discovery.py\<close>, \<open>kernel/executor.py\<close> and the static \<open>kernel/planner.py\<close>.

  \<^item> Handlers are injected, so running one is the parameter \<open>run\<close>; what it returns is an
    \<open>Artifact\<close> or any other value. A capability runs on the breakers of \<open>Health\<close> with the rest of
    the world as their extension, so that the optional circuit breaker wraps the handler as in the code.
  \<^item> A task is known to the \<open>Executor\<close> by its id; \<open>ex_status\<close> holds the status of each.
\<close>

section \<open>Artifacts\<close>

record artifact =
  af_id :: string
  af_type :: string
  af_content :: pyval
  af_format :: string
  af_source :: "string option"
  af_provenance :: "string list"

datatype handler_result = RArtifact artifact | RValue pyval

definition ValidationError :: "string \<Rightarrow> exn" where
  "ValidationError field = std_exn [''ValidationError'', ''ValueError''] field"

text \<open>Pydantic accepts only strings for a \<open>str\<close> field.\<close>

definition as_str :: "string \<Rightarrow> pyval \<Rightarrow> exn + string" where
  "as_str field v = (case v of PStr s \<Rightarrow> Inr s | _ \<Rightarrow> Inl (ValidationError field))"

definition as_opt_str :: "string \<Rightarrow> pyval \<Rightarrow> exn + string option" where
  "as_opt_str field v = (case v of PNone \<Rightarrow> Inr None | PStr s \<Rightarrow> Inr (Some s) | _ \<Rightarrow> Inl (ValidationError field))"

text \<open>\<open>list(v)\<close>: the items of a list, the characters of a string, the keys of a dictionary.\<close>

definition py_list :: "pyval \<Rightarrow> exn + pyval list" where
  "py_list v =
     (case v of
        PList xs \<Rightarrow> Inr xs
      | PStr s \<Rightarrow> Inr (map (\<lambda>c. PStr [c]) s)
      | PDict d \<Rightarrow> Inr (map PStr (dkeys d))
      | _ \<Rightarrow> Inl (TypeError ''object is not iterable''))"

fun as_strs :: "string \<Rightarrow> pyval list \<Rightarrow> exn + string list" where
  "as_strs field [] = Inr []"
| "as_strs field (v # vs) =
     (case as_str field v of
        Inl x \<Rightarrow> Inl x
      | Inr s \<Rightarrow> (case as_strs field vs of Inl x \<Rightarrow> Inl x | Inr ss \<Rightarrow> Inr (s # ss)))"

definition artifact_of_dict :: "string \<Rightarrow> string \<Rightarrow> pydict \<Rightarrow> exn + artifact" where
  "artifact_of_dict uid capability d =
     (case py_list (dget_or d ''provenance'' (PList [])) of
        Inl x \<Rightarrow> Inl x
      | Inr pl \<Rightarrow>
          (case (as_str ''type'' (dget_or d ''type'' (PStr ''result'')), as_str ''format'' (dget_or d ''format'' (PStr ''json'')),
                 as_opt_str ''source'' (dget_or d ''source'' (PStr (''capability:'' @ capability))), as_strs ''provenance'' pl) of
             (Inr ty, Inr fm, Inr src, Inr prov) \<Rightarrow>
               Inr \<lparr>af_id = uid, af_type = ty, af_content = dget_or d ''content'' PNone, af_format = fm,
                    af_source = src, af_provenance = prov\<rparr>
           | _ \<Rightarrow> Inl (ValidationError ''Artifact'')))"

definition normalize :: "string \<Rightarrow> handler_result \<Rightarrow> string \<Rightarrow> exn + artifact" where
  "normalize uid result capability =
     (let wrap = (\<lambda>v. \<lparr>af_id = uid, af_type = ''result'', af_content = v, af_format = ''json'',
                       af_source = Some (''capability:'' @ capability), af_provenance = []\<rparr>);
          artifact =
            (case result of
               RArtifact a \<Rightarrow> Inr a
             | RValue (PDict d) \<Rightarrow>
                 if dget d ''content'' \<noteq> None \<or> dget d ''type'' \<noteq> None then artifact_of_dict uid capability d
                 else Inr (wrap (PDict d))
             | RValue v \<Rightarrow> Inr (wrap v))
      in case artifact of
           Inl x \<Rightarrow> Inl x
         | Inr a \<Rightarrow> Inr (a\<lparr>af_provenance := af_provenance a @ [''cap:'' @ capability]\<rparr>))"

section \<open>CapabilityExecutor\<close>

text \<open>A handler is a function given to the executor, or one made for a capability of an agent or a plugin method.\<close>

datatype 'f handler =
    HFun 'f
  | HAgent string string
  | HMethod nat string

record 'f cap_executor =
  ce_handlers :: "(string, 'f handler) dict"
  ce_caps :: "cap_registry option"
  ce_breaker :: bool

definition ce_register_handler :: "string \<Rightarrow> 'f handler \<Rightarrow> 'f cap_executor \<Rightarrow> 'f cap_executor" where
  "ce_register_handler capability handler x = x\<lparr>ce_handlers := dset capability handler (ce_handlers x)\<rparr>"

definition ce_register_agent :: "string \<Rightarrow> string list \<Rightarrow> 'f cap_executor \<Rightarrow> 'f cap_executor" where
  "ce_register_agent agent_id capabilities x =
     fold (\<lambda>cap. ce_register_handler cap (HAgent agent_id cap)) capabilities x"

text \<open>The metadata of the task an agent handler builds: the context never overrides a parameter.\<close>

definition agent_task_metadata :: "pydict \<Rightarrow> pydict option \<Rightarrow> pydict" where
  "agent_task_metadata params context =
     (case context of
        None \<Rightarrow> params
      | Some c \<Rightarrow> dupdate params (filter (\<lambda>(k, _). dget params k = None) c))"

text \<open>A loaded instance: an agent with its capabilities, or an object with marked tool methods.\<close>

datatype instance_kind =
    IAgent string "string list"
  | IPlugin nat "(string \<times> string) list"

fun discover_handlers :: "instance_kind list \<Rightarrow> 'f cap_executor \<Rightarrow> nat \<times> 'f cap_executor" where
  "discover_handlers [] x = (0, x)"
| "discover_handlers (IAgent agent_id caps # is) x =
     map_prod ((+) (length caps)) id (discover_handlers is (ce_register_agent agent_id caps x))"
| "discover_handlers (IPlugin inst metas # is) x =
     map_prod ((+) (length metas)) id
       (discover_handlers is (fold (\<lambda>(cap, meth). ce_register_handler cap (HMethod inst meth)) metas x))"

definition autodiscover :: "instance_kind list \<Rightarrow> 'f cap_executor \<Rightarrow> nat \<times> 'f cap_executor" where
  "autodiscover instances x = discover_handlers instances x"

definition ce_execute ::
  "('f handler \<Rightarrow> pydict \<Rightarrow> pydict option \<Rightarrow> 'a breakers_scheme \<Rightarrow> (handler_result, 'a breakers_scheme) res) \<Rightarrow>
   ('a breakers_scheme \<Rightarrow> seconds) \<Rightarrow> string \<Rightarrow> 'f cap_executor \<Rightarrow> string \<Rightarrow> pydict \<Rightarrow> pydict option \<Rightarrow>
   'a breakers_scheme \<Rightarrow> (artifact, 'a breakers_scheme) res" where
  "ce_execute run clock uid x capability params context s =
     (case dget (ce_handlers x) capability of
        None \<Rightarrow>
          (Inl (KeyError
             (case ce_caps x of
                None \<Rightarrow> ''no handler registered for capability '' @ quoted capability
              | Some reg \<Rightarrow>
                  (case get_capability_by_name reg capability of
                     None \<Rightarrow> ''no handler or capability registered for '' @ quoted capability
                   | Some _ \<Rightarrow> ''capability '' @ quoted capability @ '' declared but no handler injected''))), s)
      | Some handler \<Rightarrow>
          (case (if ce_breaker x then br_call clock capability (run handler params context) None s
                 else run handler params context s) of
             (Inl e, s1) \<Rightarrow> (Inl e, s1)
           | (Inr result, s1) \<Rightarrow> (normalize uid result capability, s1)))"

section \<open>Executor\<close>

record task =
  tk_id :: string
  tk_name :: string
  tk_capability :: "string option"

record 'h task_executor =
  ex_handlers :: "(string, 'h) dict"
  ex_caps :: "cap_registry option"
  ex_bus :: "event list"
  ex_status :: "(string, string) dict"

definition task_event :: "string \<Rightarrow> pydict \<Rightarrow> event" where
  "task_event ty payload = \<lparr>ev_type = ty, ev_aggregate = [], ev_payload = payload\<rparr>"

definition ex_publish :: "event \<Rightarrow> ('h, 'a) task_executor_scheme \<Rightarrow> ('h, 'a) task_executor_scheme" where
  "ex_publish e x = x\<lparr>ex_bus := ex_bus x @ [e]\<rparr>"

definition ex_set_status :: "task \<Rightarrow> string \<Rightarrow> ('h, 'a) task_executor_scheme \<Rightarrow> ('h, 'a) task_executor_scheme" where
  "ex_set_status t status x = x\<lparr>ex_status := dset (tk_id t) status (ex_status x)\<rparr>"

definition has_capability :: "task \<Rightarrow> bool" where
  "has_capability t = (case tk_capability t of None \<Rightarrow> False | Some c \<Rightarrow> c \<noteq> [])"

definition resolve_capability :: "task \<Rightarrow> ('h, 'a) task_executor_scheme \<Rightarrow> capability option" where
  "resolve_capability t x =
     (if \<not> has_capability t then None
      else Option.bind (ex_caps x) (\<lambda>reg. get_capability_by_name reg (the (tk_capability t))))"

definition ex_resolve_tools :: "task \<Rightarrow> ('h, 'a) task_executor_scheme \<Rightarrow> tool list" where
  "ex_resolve_tools t x =
     (if \<not> has_capability t then []
      else (case ex_caps x of None \<Rightarrow> [] | Some reg \<Rightarrow> resolve_tools_by_name reg (the (tk_capability t))))"

text \<open>
  \<open>run handler task capability tools\<close> calls the handler with the execution context; \<open>repr\<close> prints
  the exception in the failure event.
\<close>

definition ex_run ::
  "('h \<Rightarrow> task \<Rightarrow> capability option \<Rightarrow> tool list \<Rightarrow> ('h, 'a) task_executor_scheme \<Rightarrow> (pyval, ('h, 'a) task_executor_scheme) res) \<Rightarrow>
   (exn \<Rightarrow> string) \<Rightarrow> task \<Rightarrow> ('h, 'a) task_executor_scheme \<Rightarrow> (pyval, ('h, 'a) task_executor_scheme) res" where
  "ex_run run repr t x =
     (if has_capability t \<and> dget (ex_handlers x) (the (tk_capability t)) = None
      then (Inl (KeyError (''No handler registered for capability '' @ quoted (the (tk_capability t)))), x)
      else
        (let x1 = ex_publish (task_event ''task.started'' [(''task_id'', PStr (tk_id t))]) (ex_set_status t ''RUNNING'' x);
             cap = resolve_capability t x1; tools = ex_resolve_tools t x1;
             handler = dget (ex_handlers x1) (if has_capability t then the (tk_capability t) else ''__default__'');
             outcome = (case handler of
                          None \<Rightarrow> (Inl (KeyError ''Task has no capability and no __default__ handler''), x1)
                        | Some h \<Rightarrow> run h t cap tools x1)
         in case outcome of
              (Inl exc, x2) \<Rightarrow>
                if catches ''Exception'' exc
                then (Inl exc, ex_publish (task_event ''task.failed'' [(''task_id'', PStr (tk_id t)), (''error'', PStr (repr exc))])
                                 (ex_set_status t ''FAILED'' x2))
                else (Inl exc, x2)
            | (Inr v, x2) \<Rightarrow>
                (Inr v, ex_publish (task_event ''task.completed'' [(''task_id'', PStr (tk_id t)), (''result'', v)])
                          (ex_set_status t ''COMPLETED'' x2))))"

definition ex_submit ::
  "('h \<Rightarrow> task \<Rightarrow> capability option \<Rightarrow> tool list \<Rightarrow> ('h, 'a) task_executor_scheme \<Rightarrow> (pyval, ('h, 'a) task_executor_scheme) res) \<Rightarrow>
   (exn \<Rightarrow> string) \<Rightarrow> task \<Rightarrow> ('h, 'a) task_executor_scheme \<Rightarrow> (pyval, ('h, 'a) task_executor_scheme) res" where
  "ex_submit run repr t x =
     ex_run run repr t (ex_publish (task_event ''task.queued'' [(''task_id'', PStr (tk_id t))]) (ex_set_status t ''QUEUED'' x))"

section \<open>Planner\<close>

record plan_step_template =
  ps_id :: string
  ps_capability :: string
  ps_name :: string

definition tmpl :: "string \<Rightarrow> string \<Rightarrow> string \<Rightarrow> plan_step_template" where
  "tmpl i c n = \<lparr>ps_id = i, ps_capability = c, ps_name = n\<rparr>"

definition goal_templates :: "(string, plan_step_template list) dict" where
  "goal_templates = [
     (''login'', [tmpl ''find_browser'' ''desktop.screenshot'' ''Screenshot desktop'',
                  tmpl ''read_label'' ''desktop.ocr'' ''OCR read labels'',
                  tmpl ''click_signin'' ''desktop.click'' ''Click Sign in'',
                  tmpl ''enter_user'' ''desktop.type'' ''Type username'',
                  tmpl ''click_next'' ''desktop.click'' ''Click Next'']),
     (''screenshot'', [tmpl ''shot'' ''desktop.screenshot'' ''Capture screenshot'']),
     (''click'', [tmpl ''shot'' ''desktop.screenshot'' ''Screenshot'',
                  tmpl ''ocr'' ''desktop.ocr'' ''OCR locate target'',
                  tmpl ''click'' ''desktop.click'' ''Click target'']),
     (''fill_form'', [tmpl ''shot'' ''desktop.screenshot'' ''Screenshot form'',
                      tmpl ''ocr'' ''desktop.ocr'' ''OCR read fields'',
                      tmpl ''type'' ''desktop.type'' ''Type into field'',
                      tmpl ''submit'' ''desktop.click'' ''Click submit''])]"

definition match_template :: "string \<Rightarrow> string" where
  "match_template goal =
     (let g = lower goal
      in if contains ''log in'' g \<or> contains ''login'' g \<or> contains ''sign in'' g then ''login''
         else if contains ''fill'' g \<and> contains ''form'' g then ''fill_form''
         else if contains ''screenshot'' g \<or> contains ''capture'' g then ''screenshot''
         else if contains ''click'' g \<or> contains ''press'' g \<or> contains ''tap'' g then ''click''
         else ''click'')"

text \<open>The steps of \<open>Planner.plan\<close>.\<close>

definition plan_steps :: "cap_registry option \<Rightarrow> string \<Rightarrow> string list option \<Rightarrow> plan_step_template list" where
  "plan_steps reg goal available_caps =
     (let caps = (case available_caps of
                    Some cs \<Rightarrow> Some cs
                  | None \<Rightarrow> map_option (\<lambda>r. map c_name (list_capabilities r)) reg);
          steps_raw = dget_or goal_templates (match_template goal) (the (dget goal_templates ''click''));
          steps = filter (\<lambda>s. case caps of None \<Rightarrow> True | Some cs \<Rightarrow> ps_capability s \<in> set cs) steps_raw
      in if steps = [] then [tmpl ''shot'' ''desktop.screenshot'' ''Screenshot''] else steps)"

section \<open>Lemmas\<close>

interpretation ce: keyed_store "\<lambda>_. True" ce_register_handler "\<lambda>x. dget (ce_handlers x)"
  by unfold_locales (auto simp: ce_register_handler_def dget_dset)

lemma ex_simps [simp]:
  "ex_bus (ex_publish e x) = ex_bus x @ [e]" "ex_status (ex_publish e x) = ex_status x"
  "ex_handlers (ex_publish e x) = ex_handlers x"
  "ex_bus (ex_set_status t st x) = ex_bus x" "ex_status (ex_set_status t st x) = dset (tk_id t) st (ex_status x)"
  "ex_handlers (ex_set_status t st x) = ex_handlers x"
  by (simp_all add: ex_publish_def ex_set_status_def)

lemma normalize_provenance:
  "normalize uid result capability = Inr a \<Longrightarrow> last (af_provenance a) = ''cap:'' @ capability \<and> af_provenance a \<noteq> []"
  by (auto simp: normalize_def Let_def split: sum.splits)

lemma template_ids: "(k, ts) \<in> set goal_templates \<Longrightarrow> distinct (map ps_id ts)"
  by (auto simp: goal_templates_def tmpl_def)

section \<open>Properties\<close>

text \<open>
  The life of a submitted task. For any handler that leaves the bus and the statuses alone:
  a task whose capability has no handler raises \<open>KeyError\<close>, stays QUEUED for good and is never
  announced as failed; otherwise it is announced queued and started, and then completed with the result
  and COMPLETED if the handler returns, failed and FAILED if it raises an \<open>Exception\<close> (which
  propagates), and nothing, still RUNNING, if it is cancelled.
\<close>

theorem task_lifecycle:
  assumes "tk_capability t = Some cap" and "cap \<noteq> []"
    and "\<And>h c ts y. ex_bus (snd (run h t c ts y)) = ex_bus y \<and> ex_status (snd (run h t c ts y)) = ex_status y"
  shows "let (r, x') = ex_submit run repr t x; i = (''task_id'', PStr (tk_id t));
             queued = task_event ''task.queued'' [i]; started = task_event ''task.started'' [i]
         in case dget (ex_handlers x) cap of
              None \<Rightarrow> (\<exists>m. r = Inl (KeyError m)) \<and> ex_bus x' = ex_bus x @ [queued] \<and> dget (ex_status x') (tk_id t) = Some ''QUEUED''
            | Some h \<Rightarrow> \<exists>c ts y. r = fst (run h t c ts y) \<and>
                (case r of
                   Inr v \<Rightarrow> ex_bus x' = ex_bus x @ [queued, started, task_event ''task.completed'' [i, (''result'', v)]] \<and>
                            dget (ex_status x') (tk_id t) = Some ''COMPLETED''
                 | Inl e \<Rightarrow>
                     if catches ''Exception'' e
                     then ex_bus x' = ex_bus x @ [queued, started, task_event ''task.failed'' [i, (''error'', PStr (repr e))]] \<and>
                          dget (ex_status x') (tk_id t) = Some ''FAILED''
                     else ex_bus x' = ex_bus x @ [queued, started] \<and> dget (ex_status x') (tk_id t) = Some ''RUNNING'')"
proof -
  have cap: "has_capability t" "the (tk_capability t) = cap" using assms(1,2) by (simp_all add: has_capability_def)
  let ?q = "ex_publish (task_event ''task.queued'' [(''task_id'', PStr (tk_id t))]) (ex_set_status t ''QUEUED'' x)"
  let ?s = "ex_publish (task_event ''task.started'' [(''task_id'', PStr (tk_id t))]) (ex_set_status t ''RUNNING'' ?q)"
  show ?thesis
  proof (cases "dget (ex_handlers x) cap")
    case None
    then show ?thesis by (auto simp: ex_submit_def ex_run_def cap)
  next
    case (Some h)
    define c ts y where "c = resolve_capability t ?s" and "ts = ex_resolve_tools t ?s" and "y = ?s"
    obtain r x2 where run: "run h t c ts y = (r, x2)" by (cases "run h t c ts y")
    have frame: "ex_bus x2 = ex_bus ?s" "ex_status x2 = ex_status ?s"
      using assms(3) [of h c ts y] run by (auto simp: y_def)
    have "ex_submit run repr t x =
        (case r of
           Inl e \<Rightarrow> if catches ''Exception'' e
             then (Inl e, ex_publish (task_event ''task.failed'' [(''task_id'', PStr (tk_id t)), (''error'', PStr (repr e))]) (ex_set_status t ''FAILED'' x2))
             else (Inl e, x2)
         | Inr v \<Rightarrow> (Inr v, ex_publish (task_event ''task.completed'' [(''task_id'', PStr (tk_id t)), (''result'', v)]) (ex_set_status t ''COMPLETED'' x2)))"
      using Some run unfolding c_def ts_def y_def by (simp add: ex_submit_def ex_run_def cap Let_def)
    note eq = this
    let ?out = "\<lambda>r x'. (case r of
                   Inr v \<Rightarrow> ex_bus x' = ex_bus x @ [task_event ''task.queued'' [(''task_id'', PStr (tk_id t))],
                              task_event ''task.started'' [(''task_id'', PStr (tk_id t))],
                              task_event ''task.completed'' [(''task_id'', PStr (tk_id t)), (''result'', v)]] \<and>
                            dget (ex_status x') (tk_id t) = Some ''COMPLETED''
                 | Inl e \<Rightarrow>
                     if catches ''Exception'' e
                     then ex_bus x' = ex_bus x @ [task_event ''task.queued'' [(''task_id'', PStr (tk_id t))],
                              task_event ''task.started'' [(''task_id'', PStr (tk_id t))],
                              task_event ''task.failed'' [(''task_id'', PStr (tk_id t)), (''error'', PStr (repr e))]] \<and>
                          dget (ex_status x') (tk_id t) = Some ''FAILED''
                     else ex_bus x' = ex_bus x @ [task_event ''task.queued'' [(''task_id'', PStr (tk_id t))],
                              task_event ''task.started'' [(''task_id'', PStr (tk_id t))]] \<and>
                          dget (ex_status x') (tk_id t) = Some ''RUNNING'')"
    have "fst (ex_submit run repr t x) = fst (run h t c ts y) \<and> ?out (fst (ex_submit run repr t x)) (snd (ex_submit run repr t x))"
      unfolding eq run using frame by (cases r) auto
    then have "\<exists>c ts y. fst (ex_submit run repr t x) = fst (run h t c ts y) \<and> ?out (fst (ex_submit run repr t x)) (snd (ex_submit run repr t x))"
      by blast
    then show ?thesis unfolding Some Let_def case_prod_beta by simp
  qed
qed

theorem task_lifecycle_witness:
  "let t = \<lparr>tk_id = ''1'', tk_name = ''n'', tk_capability = Some ''c''\<rparr>;
       run = (\<lambda>h t c ts x. (Inl (ValueError ''v''), x));
       x = \<lparr>ex_handlers = [(''c'', ())], ex_caps = None, ex_bus = [], ex_status = []\<rparr>
   in dget (ex_status (snd (ex_submit run exn_msg t x))) ''1'' = Some ''FAILED''"
  using task_lifecycle [of "\<lparr>tk_id = ''1'', tk_name = ''n'', tk_capability = Some ''c''\<rparr>" "''c''"
      "\<lambda>h t c ts x. (Inl (ValueError ''v''), x)" exn_msg "\<lparr>ex_handlers = [(''c'', ())], ex_caps = None, ex_bus = [], ex_status = []\<rparr>"]
  by (simp add: Let_def case_prod_beta exn_simps split: if_splits)

text \<open>
  An open breaker shields the handler. When the executor has a circuit breaker and the breaker of
  the capability is OPEN and its recovery time has not passed, dispatching the capability raises
  \<open>CircuitBreakerOpen\<close> and changes nothing, whatever the handler and the parameters.
\<close>

theorem open_breaker_shields:
  assumes "dget (ce_handlers x) capability = Some h" and "ce_breaker x"
    and "dget (br_states s) capability = Some i" and "hb_state (br_objs s ! i) = OPEN"
    and "hb_opened_at (br_objs s ! i) = Some t" and "clock s - t < bp_recovery_timeout_seconds (br_policy s)"
  shows "ce_execute run clock uid x capability params context s = (Inl (CircuitBreakerOpen capability), s)"
proof -
  have "\<not> hb_ripe (br_policy s) (clock s) (br_objs s ! i)"
    using assms(5,6) by (simp add: hb_ripe_def)
  then have "hb_admit (br_policy s) (clock s) (br_objs s ! i) = (False, br_objs s ! i)"
    using assms(4,5) by (intro health_breaker.open_rejects) (simp_all add: hb_inv_def)
  with assms(1-3) show ?thesis by (simp add: ce_execute_def br_call_def br_get_def br_mod_def)
qed

theorem open_breaker_shields_witness:
  "let s = \<lparr>br_policy = default_breaker_policy, br_sink = unwired,
            br_objs = [breaker_state_init\<lparr>hb_state := OPEN, hb_opened_at := Some 5\<rparr>], br_states = [(''c'', 0)]\<rparr>;
       x = \<lparr>ce_handlers = [(''c'', HFun ())], ce_caps = None, ce_breaker = True\<rparr>
   in ce_execute (\<lambda>h p c s. (Inr (RValue PNone), s)) (\<lambda>_. 6) ''u'' x ''c'' [] None s = (Inl (CircuitBreakerOpen ''c''), s)"
  unfolding Let_def
  by (rule open_breaker_shields [where i = 0 and t = 5 and h = "HFun ()"])
     (simp_all add: default_breaker_policy_def breaker_state_init_def)

text \<open>
  The static planner always returns a runnable plan. For every goal, with or without a list of
  available capabilities, the plan has at least one step and distinct step ids; with a list, either
  every step uses an available capability or the plan is the single fallback screenshot step.
\<close>

theorem plan_runnable:
  "let steps = plan_steps reg goal (Some caps)
   in steps \<noteq> [] \<and> distinct (map ps_id steps) \<and>
      ((\<forall>s \<in> set steps. ps_capability s \<in> set caps) \<or> steps = [tmpl ''shot'' ''desktop.screenshot'' ''Screenshot'']) \<and>
      plan_steps None goal None \<noteq> [] \<and> distinct (map ps_id (plan_steps None goal None))"
proof -
  have "\<exists>k. (k, dget_or goal_templates (match_template goal) (the (dget goal_templates ''click''))) \<in> set goal_templates"
    by (auto simp: match_template_def Let_def goal_templates_def dget_or_def)
  then have "distinct (map ps_id (dget_or goal_templates (match_template goal) (the (dget goal_templates ''click''))))"
    using template_ids by blast
  then show ?thesis
    by (auto simp: plan_steps_def Let_def distinct_map_filter)
qed

theorem plan_runnable_witness:
  "plan_steps None ''Log in'' (Some []) \<noteq> []"
  using plan_runnable [of None "''Log in''" "[]"] by (simp add: Let_def)

end
