(* ===== verification/Resilience.thy ===== *)
theory Resilience
  imports Events
begin

text \<open>
  The resilience platform: \<open>kernel/resilience.py\<close>, \<open>kernel/resilience_domain.py\<close> and
  \<open>kernel/resilience_store.py\<close>.

  \<^item> \<open>circuit_rt\<close> is \<open>_CircuitRuntime\<close>. A guarded call keeps a reference to the runtime object it
    entered with, and \<open>register_circuit\<close> may replace the object under the same name, so the engine
    keeps its runtimes in \<open>rs_objs\<close> and the dictionary \<open>rs_circuits\<close> maps names to positions in
    it. Dead-letter entries are mutated in place and are kept in \<open>rs_dles\<close> for the same reason.
  \<^item> \<open>resilience\<close> is extensible: the guarded body, the retried factory and the replayed task are
    parameters that run on the engine with whatever else they change as its extension.
  \<^item> \<open>clock\<close> and \<open>sleep\<close> are injected in the source and are parameters here.
  \<^item> \<open>resilience_store\<close> is the optional store; \<open>rst_files\<close> stands for the database files,
    \<open>rst_path\<close> for the open connection. Times are stored as ISO strings that parse back, and
    compare, as the times they print.
\<close>

section \<open>Domain\<close>

record circuit_config =
  cc_name :: string
  cc_failure_threshold :: int
  cc_recovery_timeout_ms :: int
  cc_half_open_max_calls :: int

definition default_circuit_config :: "string \<Rightarrow> circuit_config" where
  "default_circuit_config name =
     \<lparr>cc_name = name, cc_failure_threshold = 5, cc_recovery_timeout_ms = 60000, cc_half_open_max_calls = 1\<rparr>"

record retry_policy =
  rp_max_attempts :: int
  rp_backoff_base_ms :: int
  rp_max_backoff_ms :: int
  rp_retryable_exceptions :: "string list"

definition default_retry_policy :: retry_policy where
  "default_retry_policy =
     \<lparr>rp_max_attempts = 3, rp_backoff_base_ms = 100, rp_max_backoff_ms = 10000, rp_retryable_exceptions = []\<rparr>"

definition backoff_for :: "retry_policy \<Rightarrow> int \<Rightarrow> int" where
  "backoff_for pol attempt0 =
     (let attempt = (if attempt0 < 1 then 1 else attempt0);
          raw = rp_backoff_base_ms pol * (2 ^ nat (attempt - 1))
      in min raw (rp_max_backoff_ms pol))"

definition is_retryable :: "retry_policy \<Rightarrow> exn \<Rightarrow> bool" where
  "is_retryable pol exc =
     (if rp_retryable_exceptions pol = [] then True
      else \<exists>c \<in> set (exn_class exc # exn_mro exc). c \<in> set (rp_retryable_exceptions pol))"

record dead_letter =
  dl_entry_id :: string
  dl_original_task :: pydict
  dl_error :: string
  dl_attempts :: int
  dl_enqueued_at :: datetime
  dl_last_attempt :: "datetime option"
  dl_status :: string

definition CircuitBreakerOpenError :: "string \<Rightarrow> exn" where
  "CircuitBreakerOpenError name =
     std_exn [''CircuitBreakerOpenError'', ''RuntimeError''] (''circuit breaker open: '' @ name)"

definition RetryExhaustedError :: "string option \<Rightarrow> int \<Rightarrow> string \<Rightarrow> exn" where
  "RetryExhaustedError task_id total_attempts last_error =
     std_exn [''RetryExhaustedError'', ''RuntimeError'']
       (''retry exhausted after '' @ int_str total_attempts @ '' attempts'' @
        (case task_id of None \<Rightarrow> [] | Some t \<Rightarrow> if t = [] then [] else '' for '' @ t) @
        '': '' @ last_error)"

section \<open>The store\<close>

record circuit_row =
  cr_state :: string
  cr_failure_count :: int
  cr_last_failure :: "datetime option"
  cr_config :: circuit_config

record retry_row =
  rr_task_id :: string
  rr_attempt :: int
  rr_backoff_ms :: int
  rr_error :: string
  rr_timestamp :: datetime

record rtables =
  rt_circuits :: "(string, circuit_row) dict"
  rt_retries :: "retry_row list"
  rt_dead_letter :: "(string, dead_letter) dict"

definition rtables_init :: rtables where
  "rtables_init = \<lparr>rt_circuits = [], rt_retries = [], rt_dead_letter = []\<rparr>"

record resilience_store =
  rst_path :: "string option"
  rst_mem :: rtables
  rst_files :: "(string, rtables) dict"

text \<open>\<open>_ensure_schema\<close>: \<open>CREATE TABLE IF NOT EXISTS\<close> keeps the tables of an existing file.\<close>

definition ensure_schema :: "string \<Rightarrow> (string, rtables) dict \<Rightarrow> (string, rtables) dict" where
  "ensure_schema path files = dmod path rtables_init id files"

definition resilience_store_init :: "string option \<Rightarrow> (string, rtables) dict \<Rightarrow> resilience_store" where
  "resilience_store_init db_path files =
     \<lparr>rst_path = db_path, rst_mem = rtables_init,
      rst_files = (case db_path of None \<Rightarrow> files | Some p \<Rightarrow> ensure_schema p files)\<rparr>"

text \<open>The argument is \<open>None\<close> for the default \<open>"__keep__"\<close>.\<close>

definition rst_reload :: "string option option \<Rightarrow> resilience_store \<Rightarrow> resilience_store" where
  "rst_reload db_path st =
     (let path = (case db_path of None \<Rightarrow> rst_path st | Some p \<Rightarrow> p)
      in st\<lparr>rst_path := path,
            rst_files := (case path of None \<Rightarrow> rst_files st | Some p \<Rightarrow> ensure_schema p (rst_files st))\<rparr>)"

definition rst_tables :: "resilience_store \<Rightarrow> rtables" where
  "rst_tables st = (case rst_path st of None \<Rightarrow> rst_mem st | Some p \<Rightarrow> dget_or (rst_files st) p rtables_init)"

definition rst_update :: "(rtables \<Rightarrow> rtables) \<Rightarrow> resilience_store \<Rightarrow> resilience_store" where
  "rst_update f st =
     (case rst_path st of
        None \<Rightarrow> st\<lparr>rst_mem := f (rst_mem st)\<rparr>
      | Some p \<Rightarrow> st\<lparr>rst_files := dmod p rtables_init f (rst_files st)\<rparr>)"

definition put_circuit ::
  "string \<Rightarrow> string \<Rightarrow> int \<Rightarrow> datetime option \<Rightarrow> circuit_config \<Rightarrow> resilience_store \<Rightarrow> resilience_store" where
  "put_circuit name state failure_count last_failure config st =
     rst_update (\<lambda>t. t\<lparr>rt_circuits :=
       dset name \<lparr>cr_state = state, cr_failure_count = failure_count,
                  cr_last_failure = last_failure, cr_config = config\<rparr> (rt_circuits t)\<rparr>) st"

definition get_circuit :: "resilience_store \<Rightarrow> string \<Rightarrow> circuit_row option" where
  "get_circuit st name = dget (rt_circuits (rst_tables st)) name"

definition put_retry :: "string \<Rightarrow> int \<Rightarrow> int \<Rightarrow> string \<Rightarrow> datetime \<Rightarrow> resilience_store \<Rightarrow> resilience_store" where
  "put_retry task_id attempt backoff_ms error timestamp st =
     rst_update (\<lambda>t. t\<lparr>rt_retries := rt_retries t @
       [\<lparr>rr_task_id = task_id, rr_attempt = attempt, rr_backoff_ms = backoff_ms,
         rr_error = error, rr_timestamp = timestamp\<rparr>]\<rparr>) st"

definition list_retries :: "string option \<Rightarrow> resilience_store \<Rightarrow> retry_row list" where
  "list_retries task_id st =
     (case task_id of
        None \<Rightarrow> rt_retries (rst_tables st)
      | Some t \<Rightarrow> filter (\<lambda>r. rr_task_id r = t) (rt_retries (rst_tables st)))"

text \<open>
  The upsert of the SQLite branch leaves the task and the enqueue time of an existing row as they
  are; the in-memory branch replaces the whole entry.
\<close>

definition put_dead_letter :: "dead_letter \<Rightarrow> resilience_store \<Rightarrow> resilience_store" where
  "put_dead_letter entry st =
     (let row = (case rst_path st of
                   None \<Rightarrow> entry
                 | Some p \<Rightarrow>
                     (case dget (rt_dead_letter (rst_tables st)) (dl_entry_id entry) of
                        None \<Rightarrow> entry
                      | Some old \<Rightarrow> old\<lparr>dl_error := dl_error entry, dl_attempts := dl_attempts entry,
                                        dl_last_attempt := dl_last_attempt entry, dl_status := dl_status entry\<rparr>))
      in rst_update (\<lambda>t. t\<lparr>rt_dead_letter := dset (dl_entry_id entry) row (rt_dead_letter t)\<rparr>) st)"

definition get_dead_letter :: "resilience_store \<Rightarrow> string \<Rightarrow> dead_letter option" where
  "get_dead_letter st entry_id = dget (rt_dead_letter (rst_tables st)) entry_id"

definition rst_list_dead_letter :: "string option \<Rightarrow> resilience_store \<Rightarrow> dead_letter list" where
  "rst_list_dead_letter status st =
     (let entries = filter (\<lambda>e. case status of None \<Rightarrow> True | Some s \<Rightarrow> dl_status e = s)
                      (dvals (rt_dead_letter (rst_tables st)))
      in case rst_path st of None \<Rightarrow> entries | Some _ \<Rightarrow> sort_key dl_enqueued_at entries)"

definition update_dead_letter_status ::
  "string \<Rightarrow> string \<Rightarrow> datetime option \<Rightarrow> resilience_store \<Rightarrow> bool \<times> resilience_store" where
  "update_dead_letter_status entry_id status last_attempt st =
     (case get_dead_letter st entry_id of
        None \<Rightarrow> (False, st)
      | Some e \<Rightarrow>
          (True, rst_update (\<lambda>t. t\<lparr>rt_dead_letter := dset entry_id
             (e\<lparr>dl_status := status,
                dl_last_attempt := (case last_attempt of None \<Rightarrow> dl_last_attempt e | Some l \<Rightarrow> Some l)\<rparr>)
             (rt_dead_letter t)\<rparr>) st))"

section \<open>The circuit breaker of one name\<close>

record circuit_rt =
  cb_config :: circuit_config
  cb_state :: circuit_state
  cb_failure_count :: int
  cb_last_failure :: "datetime option"
  cb_half_open_calls :: int

definition circuit_rt_init :: "circuit_config \<Rightarrow> circuit_rt" where
  "circuit_rt_init cfg =
     \<lparr>cb_config = cfg, cb_state = CLOSED, cb_failure_count = 0, cb_last_failure = None, cb_half_open_calls = 0\<rparr>"

text \<open>\<open>total_seconds() * 1000\<close> of the elapsed time, which is in microseconds here.\<close>

definition cb_ripe :: "datetime \<Rightarrow> circuit_rt \<Rightarrow> bool" where
  "cb_ripe now rt =
     (case cb_last_failure rt of
        None \<Rightarrow> False
      | Some lf \<Rightarrow> (of_int (now - lf) / 1000 :: rat) \<ge> of_int (cc_recovery_timeout_ms (cb_config rt)))"

definition maybe_recover :: "datetime \<Rightarrow> circuit_rt \<Rightarrow> circuit_rt" where
  "maybe_recover now rt =
     (if cb_state rt \<noteq> OPEN \<or> cb_last_failure rt = None then rt
      else if cb_ripe now rt then rt\<lparr>cb_state := HALF_OPEN, cb_half_open_calls := 0\<rparr>
      else rt)"

text \<open>The admission part of \<open>call_with_circuit\<close>: recovery check, rejection, trial count.\<close>

definition cb_admit :: "datetime \<Rightarrow> circuit_rt \<Rightarrow> bool \<times> circuit_rt" where
  "cb_admit now rt0 =
     (let rt = maybe_recover now rt0
      in if cb_state rt = OPEN then (False, rt)
         else if cb_state rt = HALF_OPEN then
           (if cb_half_open_calls rt \<ge> cc_half_open_max_calls (cb_config rt) then (False, rt)
            else (True, rt\<lparr>cb_half_open_calls := cb_half_open_calls rt + 1\<rparr>))
         else (True, rt))"

definition cb_on_success :: "circuit_rt \<Rightarrow> circuit_rt" where
  "cb_on_success rt =
     (if cb_state rt = HALF_OPEN
      then rt\<lparr>cb_state := CLOSED, cb_failure_count := 0, cb_half_open_calls := 0\<rparr>
      else rt\<lparr>cb_failure_count := 0\<rparr>)"

definition cb_on_failure :: "datetime \<Rightarrow> circuit_rt \<Rightarrow> circuit_rt" where
  "cb_on_failure now rt0 =
     (let rt = rt0\<lparr>cb_last_failure := Some now\<rparr>
      in if cb_state rt = HALF_OPEN then rt\<lparr>cb_state := OPEN, cb_half_open_calls := 0\<rparr>
         else
           (let rt1 = rt\<lparr>cb_failure_count := cb_failure_count rt + 1\<rparr>
            in if cb_failure_count rt1 \<ge> cc_failure_threshold (cb_config rt1) \<and> cb_state rt1 = CLOSED
               then rt1\<lparr>cb_state := OPEN\<rparr> else rt1))"

section \<open>The engine\<close>

type_synonym metric = "string \<times> rat \<times> (string \<times> string) list"

record resilience =
  rs_store :: "resilience_store option"
  rs_sink :: sink
  rs_metrics :: "metric list option"
  rs_objs :: "circuit_rt list"
  rs_circuits :: "(string, nat) dict"
  rs_dles :: "dead_letter list"
  rs_dlq :: "(string, nat) dict"

definition resilience_init :: "resilience_store option \<Rightarrow> sink \<Rightarrow> metric list option \<Rightarrow> resilience" where
  "resilience_init store snk metrics =
     \<lparr>rs_store = store, rs_sink = snk, rs_metrics = metrics, rs_objs = [], rs_circuits = [],
      rs_dles = [], rs_dlq = []\<rparr>"

definition rs_emit :: "res_event \<Rightarrow> 'a resilience_scheme \<Rightarrow> 'a resilience_scheme" where
  "rs_emit e s = s\<lparr>rs_sink := emit (ResEv e) (rs_sink s)\<rparr>"

definition rs_metric :: "string \<Rightarrow> (string \<times> string) list \<Rightarrow> 'a resilience_scheme \<Rightarrow> 'a resilience_scheme" where
  "rs_metric name labels s = s\<lparr>rs_metrics := map_option (\<lambda>ms. ms @ [(name, 1, labels)]) (rs_metrics s)\<rparr>"

definition register_circuit :: "string \<Rightarrow> circuit_config option \<Rightarrow> 'a resilience_scheme \<Rightarrow> 'a resilience_scheme" where
  "register_circuit name config s =
     (let cfg0 = (case config of None \<Rightarrow> default_circuit_config name | Some c \<Rightarrow> c);
          cfg = (if cc_name cfg0 \<noteq> name then cfg0\<lparr>cc_name := name\<rparr> else cfg0)
      in s\<lparr>rs_circuits := dset name (length (rs_objs s)) (rs_circuits s),
           rs_objs := rs_objs s @ [circuit_rt_init cfg],
           rs_store := map_option (put_circuit name (circuit_state_value CLOSED) 0 None cfg) (rs_store s)\<rparr>)"

definition rs_mod :: "nat \<Rightarrow> (circuit_rt \<Rightarrow> circuit_rt) \<Rightarrow> 'a resilience_scheme \<Rightarrow> 'a resilience_scheme" where
  "rs_mod i f s = s\<lparr>rs_objs := (rs_objs s)[i := f (rs_objs s ! i)]\<rparr>"

definition get_circuit_status ::
  "('a resilience_scheme \<Rightarrow> datetime) \<Rightarrow> string \<Rightarrow> 'a resilience_scheme \<Rightarrow> (circuit_state, 'a resilience_scheme) res" where
  "get_circuit_status clock name s =
     (case dget (rs_circuits s) name of
        None \<Rightarrow> (Inl (KeyError (''circuit not registered: '' @ name)), s)
      | Some i \<Rightarrow>
          (let s1 = rs_mod i (maybe_recover (clock s)) s
           in (Inr (cb_state (rs_objs s1 ! i)), s1)))"

definition rs_persist :: "circuit_rt \<Rightarrow> 'a resilience_scheme \<Rightarrow> 'a resilience_scheme" where
  "rs_persist rt s =
     s\<lparr>rs_store := map_option (put_circuit (cc_name (cb_config rt)) (circuit_state_value (cb_state rt))
        (cb_failure_count rt) (cb_last_failure rt) (cb_config rt)) (rs_store s)\<rparr>"

definition opened_effects :: "circuit_rt \<Rightarrow> 'a resilience_scheme \<Rightarrow> 'a resilience_scheme" where
  "opened_effects rt s =
     rs_metric ''res.circuit_opened'' [(''circuit'', cc_name (cb_config rt))]
       (rs_emit (CircuitBreakerOpened (cc_name (cb_config rt)) (cb_failure_count rt) (cc_failure_threshold (cb_config rt)))
         (rs_persist rt s))"

definition on_success :: "nat \<Rightarrow> 'a resilience_scheme \<Rightarrow> 'a resilience_scheme" where
  "on_success i s =
     (let rt = rs_objs s ! i; s1 = rs_mod i cb_on_success s; rt1 = rs_objs s1 ! i
      in if cb_state rt = HALF_OPEN
         then rs_metric ''res.circuit_closed'' [(''circuit'', cc_name (cb_config rt1))]
                (rs_emit (CircuitBreakerClosed (cc_name (cb_config rt1)) ''half_open'') (rs_persist rt1 s1))
         else s1)"

definition on_failure :: "('a resilience_scheme \<Rightarrow> datetime) \<Rightarrow> nat \<Rightarrow> 'a resilience_scheme \<Rightarrow> 'a resilience_scheme" where
  "on_failure clock i s =
     (let rt = rs_objs s ! i; s1 = rs_mod i (cb_on_failure (clock s)) s; rt1 = rs_objs s1 ! i
      in if cb_state rt \<noteq> OPEN \<and> cb_state rt1 = OPEN then opened_effects rt1 s1 else s1)"

definition circuit_enter ::
  "('a resilience_scheme \<Rightarrow> datetime) \<Rightarrow> string \<Rightarrow> 'a resilience_scheme \<Rightarrow> (nat, 'a resilience_scheme) res" where
  "circuit_enter clock name s0 =
     (let s = (if dget (rs_circuits s0) name = None then register_circuit name None s0 else s0);
          i = the (dget (rs_circuits s) name);
          (ok, rt) = cb_admit (clock s) (rs_objs s ! i);
          s1 = rs_mod i (\<lambda>_. rt) s
      in if ok then (Inr i, s1)
         else (Inl (CircuitBreakerOpenError name), rs_metric ''res.circuit_rejected'' [(''circuit'', name)] s1))"

definition call_with_circuit ::
  "('a resilience_scheme \<Rightarrow> datetime) \<Rightarrow> string \<Rightarrow>
   ('a resilience_scheme \<Rightarrow> ('v, 'a resilience_scheme) res) \<Rightarrow>
   'a resilience_scheme \<Rightarrow> ('v, 'a resilience_scheme) res" where
  "call_with_circuit clock name body s =
     (case circuit_enter clock name s of
        (Inl x, s1) \<Rightarrow> (Inl x, s1)
      | (Inr i, s1) \<Rightarrow>
          (case body s1 of
             (Inr v, s2) \<Rightarrow> (Inr v, on_success i s2)
           | (Inl x, s2) \<Rightarrow>
               (Inl x, if catches ''Exception'' x then on_failure clock i s2 else s2)))"

subsection \<open>Retry\<close>

definition exc_text :: "exn \<Rightarrow> string" where
  "exc_text exc = exn_class exc @ '': '' @ exn_msg exc"

text \<open>\<open>for attempt in range(1, max_attempts + 1)\<close>: the first argument counts the iterations left.\<close>

fun retry_loop ::
  "('a resilience_scheme \<Rightarrow> datetime) \<Rightarrow> (rat \<Rightarrow> 'a resilience_scheme \<Rightarrow> (unit, 'a resilience_scheme) res) \<Rightarrow>
   ('a resilience_scheme \<Rightarrow> ('v, 'a resilience_scheme) res) \<Rightarrow> retry_policy \<Rightarrow> string option \<Rightarrow> string \<Rightarrow>
   nat \<Rightarrow> int \<Rightarrow> string \<Rightarrow> 'a resilience_scheme \<Rightarrow> ('v, 'a resilience_scheme) res" where
  "retry_loop clock sleep factory pol task_id tid 0 attempt last_error s =
     (Inl (RetryExhaustedError task_id (rp_max_attempts pol) last_error), s)"
| "retry_loop clock sleep factory pol task_id tid (Suc n) attempt last_error s =
     (case factory s of
        (Inr v, s1) \<Rightarrow> (Inr v, s1)
      | (Inl exc, s1) \<Rightarrow>
          if \<not> catches ''Exception'' exc then (Inl exc, s1)
          else
            (let err = exc_text exc
             in if \<not> is_retryable pol exc \<or> attempt \<ge> rp_max_attempts pol
                then (Inl (RetryExhaustedError task_id attempt err),
                      rs_metric ''res.retry_exhausted'' [(''task'', tid)] (rs_emit (RetryExhausted tid attempt err) s1))
                else
                  (let backoff = backoff_for pol attempt;
                       s2 = rs_metric ''res.retry_attempted'' [(''task'', tid)]
                              (rs_emit (RetryAttempted tid attempt backoff err) s1);
                       s3 = s2\<lparr>rs_store := map_option (put_retry tid attempt backoff err (clock s2)) (rs_store s2)\<rparr>
                   in case sleep (of_int backoff / 1000) s3 of
                        (Inl x, s4) \<Rightarrow> (Inl x, s4)
                      | (Inr _, s4) \<Rightarrow>
                          retry_loop clock sleep factory pol task_id tid n (attempt + 1) err s4)))"

definition retry ::
  "('a resilience_scheme \<Rightarrow> datetime) \<Rightarrow> (rat \<Rightarrow> 'a resilience_scheme \<Rightarrow> (unit, 'a resilience_scheme) res) \<Rightarrow>
   string \<Rightarrow> ('a resilience_scheme \<Rightarrow> ('v, 'a resilience_scheme) res) \<Rightarrow> retry_policy option \<Rightarrow> string option \<Rightarrow>
   'a resilience_scheme \<Rightarrow> ('v, 'a resilience_scheme) res" where
  "retry clock sleep uuid factory policy task_id s =
     (let pol = (case policy of None \<Rightarrow> default_retry_policy | Some p \<Rightarrow> p);
          tid = (case task_id of None \<Rightarrow> uuid | Some t \<Rightarrow> if t = [] then uuid else t)
      in retry_loop clock sleep factory pol task_id tid (nat (rp_max_attempts pol)) 1 [] s)"

subsection \<open>Dead letters\<close>

definition enqueue_dead_letter ::
  "('a resilience_scheme \<Rightarrow> datetime) \<Rightarrow> string \<Rightarrow> pydict \<Rightarrow> string \<Rightarrow> int \<Rightarrow> string option \<Rightarrow>
   'a resilience_scheme \<Rightarrow> dead_letter \<times> 'a resilience_scheme" where
  "enqueue_dead_letter clock uuid task error attempts entry_id s =
     (let eid = (case entry_id of None \<Rightarrow> uuid | Some i \<Rightarrow> if i = [] then uuid else i);
          entry = \<lparr>dl_entry_id = eid, dl_original_task = task, dl_error = error, dl_attempts = attempts,
                   dl_enqueued_at = clock s, dl_last_attempt = None, dl_status = ''pending''\<rparr>;
          s1 = s\<lparr>rs_dlq := dset eid (length (rs_dles s)) (rs_dlq s), rs_dles := rs_dles s @ [entry],
                 rs_store := map_option (put_dead_letter entry) (rs_store s)\<rparr>
      in (entry, rs_metric ''res.dead_letter_enqueued'' [] (rs_emit (DeadLetterEnqueued eid error attempts) s1)))"

text \<open>\<open>_dlq.get\<close>, else the store's copy, which is a new object not yet in \<open>_dlq\<close>.\<close>

definition find_dead_letter :: "string \<Rightarrow> 'a resilience_scheme \<Rightarrow> (nat \<times> 'a resilience_scheme) option" where
  "find_dead_letter entry_id s =
     (case dget (rs_dlq s) entry_id of
        Some i \<Rightarrow> Some (i, s)
      | None \<Rightarrow>
          (case rs_store s of
             None \<Rightarrow> None
           | Some st \<Rightarrow>
               map_option (\<lambda>e. (length (rs_dles s), s\<lparr>rs_dles := rs_dles s @ [e]\<rparr>)) (get_dead_letter st entry_id)))"

definition dle_mod :: "nat \<Rightarrow> (dead_letter \<Rightarrow> dead_letter) \<Rightarrow> 'a resilience_scheme \<Rightarrow> 'a resilience_scheme" where
  "dle_mod i f s = s\<lparr>rs_dles := (rs_dles s)[i := f (rs_dles s ! i)]\<rparr>"

definition replay_dead_letter ::
  "('a resilience_scheme \<Rightarrow> datetime) \<Rightarrow> string \<Rightarrow> (pydict \<Rightarrow> 'a resilience_scheme \<Rightarrow> ('v, 'a resilience_scheme) res) \<Rightarrow>
   'a resilience_scheme \<Rightarrow> ('v, 'a resilience_scheme) res" where
  "replay_dead_letter clock entry_id factory s =
     (case find_dead_letter entry_id s of
        None \<Rightarrow> (Inl (KeyError (''dead-letter entry not found: '' @ entry_id)), s)
      | Some (i, s0) \<Rightarrow>
          (let s1 = dle_mod i (\<lambda>e. e\<lparr>dl_last_attempt := Some (clock s0)\<rparr>) s0
           in case factory (dl_original_task (rs_dles s1 ! i)) s1 of
                (Inl x, s2) \<Rightarrow>
                  if \<not> catches ''Exception'' x then (Inl x, s2)
                  else
                    (let s3 = dle_mod i (\<lambda>e. e\<lparr>dl_attempts := dl_attempts e + 1\<rparr>) s2;
                         e = rs_dles s3 ! i;
                         s4 = s3\<lparr>rs_dlq := dset entry_id i (rs_dlq s3)\<rparr>
                     in (Inl x, s4\<lparr>rs_store := map_option
                           (\<lambda>st. put_dead_letter e
                              (snd (update_dead_letter_status entry_id ''pending'' (dl_last_attempt e) st)))
                           (rs_store s4)\<rparr>))
              | (Inr v, s2) \<Rightarrow>
                  (let s3 = dle_mod i (\<lambda>e. e\<lparr>dl_status := ''replayed''\<rparr>) s2;
                       e = rs_dles s3 ! i;
                       s4 = s3\<lparr>rs_dlq := dset entry_id i (rs_dlq s3)\<rparr>
                   in (Inr v, s4\<lparr>rs_store := map_option
                         (\<lambda>st. snd (update_dead_letter_status entry_id ''replayed'' (dl_last_attempt e) st))
                         (rs_store s4)\<rparr>))))"

definition discard_dead_letter ::
  "('a resilience_scheme \<Rightarrow> datetime) \<Rightarrow> string \<Rightarrow> 'a resilience_scheme \<Rightarrow> bool \<times> 'a resilience_scheme" where
  "discard_dead_letter clock entry_id s =
     (case find_dead_letter entry_id s of
        None \<Rightarrow> (False, s)
      | Some (i, s0) \<Rightarrow>
          (let s1 = dle_mod i (\<lambda>e. e\<lparr>dl_status := ''discarded''\<rparr>) s0;
               s2 = s1\<lparr>rs_dlq := dset entry_id i (rs_dlq s1)\<rparr>
           in (True, s2\<lparr>rs_store := map_option
                 (\<lambda>st. snd (update_dead_letter_status entry_id ''discarded'' (Some (clock s2)) st)) (rs_store s2)\<rparr>)))"

definition list_dead_letter :: "string option \<Rightarrow> 'a resilience_scheme \<Rightarrow> dead_letter list" where
  "list_dead_letter status s =
     (case rs_store s of
        Some st \<Rightarrow> rst_list_dead_letter status st
      | None \<Rightarrow>
          filter (\<lambda>e. case status of None \<Rightarrow> True | Some x \<Rightarrow> dl_status e = x)
            (map (\<lambda>i. rs_dles s ! i) (dvals (rs_dlq s))))"

section \<open>The breaker contract\<close>

text \<open>
  What any task may do to the engine between two awaits, as far as the circuits are concerned.
  \<open>res_other\<close> covers retries, dead letters and changes of the extension.
\<close>

inductive res_step :: "'a resilience_scheme \<Rightarrow> 'a resilience_scheme \<Rightarrow> bool" where
  res_register: "res_step s (register_circuit name config s)"
| res_status: "res_step s (snd (get_circuit_status clock name s))"
| res_enter: "res_step s (snd (circuit_enter clock name s))"
| res_success: "i < length (rs_objs s) \<Longrightarrow> res_step s (on_success i s)"
| res_failure: "i < length (rs_objs s) \<Longrightarrow> res_step s (on_failure clock i s)"
| res_other: "rs_objs s' = rs_objs s \<Longrightarrow> rs_circuits s' = rs_circuits s \<Longrightarrow> res_step s s'"

definition res_steps :: "'a resilience_scheme \<Rightarrow> 'a resilience_scheme \<Rightarrow> bool" where
  "res_steps = res_step\<^sup>*\<^sup>*"

text \<open>An open circuit knows when it failed, and the trials of a half-open one are within its budget.\<close>

definition cb_inv :: "circuit_rt \<Rightarrow> bool" where
  "cb_inv rt \<longleftrightarrow>
     (cb_state rt = OPEN \<longrightarrow> cb_last_failure rt \<noteq> None) \<and>
     0 \<le> cb_half_open_calls rt \<and>
     cb_half_open_calls rt \<le> max 0 (cc_half_open_max_calls (cb_config rt))"

definition res_wf :: "'a resilience_scheme \<Rightarrow> bool" where
  "res_wf s \<longleftrightarrow> (\<forall>rt \<in> set (rs_objs s). cb_inv rt) \<and> (\<forall>(n, i) \<in> set (rs_circuits s). i < length (rs_objs s))"

text \<open>Calls that arrive one after the other before any of them ends: which of them are let in.\<close>

fun enters ::
  "('a resilience_scheme \<Rightarrow> datetime) \<Rightarrow> string \<Rightarrow> nat \<Rightarrow> 'a resilience_scheme \<Rightarrow> bool list \<times> 'a resilience_scheme" where
  "enters clock name 0 s = ([], s)"
| "enters clock name (Suc n) s =
     (let (r, s1) = circuit_enter clock name s; (rs, s2) = enters clock name n s1
      in ((case r of Inl _ \<Rightarrow> False | Inr _ \<Rightarrow> True) # rs, s2))"

text \<open>Entries and rows are filed under their own id.\<close>

definition tables_wf :: "rtables \<Rightarrow> bool" where
  "tables_wf t \<longleftrightarrow> dict_ok (rt_dead_letter t) \<and> (\<forall>(k, e) \<in> set (rt_dead_letter t). dl_entry_id e = k)"

definition dlq_wf :: "'a resilience_scheme \<Rightarrow> bool" where
  "dlq_wf s \<longleftrightarrow>
     dict_ok (rs_dlq s) \<and>
     (\<forall>(k, i) \<in> set (rs_dlq s). i < length (rs_dles s) \<and> dl_entry_id (rs_dles s ! i) = k) \<and>
     (case rs_store s of None \<Rightarrow> True | Some st \<Rightarrow> tables_wf (rst_tables st))"

text \<open>What a replayed task may do to the queue: anything that drops no entry and renames none.\<close>

definition dlq_grows :: "'a resilience_scheme \<Rightarrow> 'a resilience_scheme \<Rightarrow> bool" where
  "dlq_grows s s' \<longleftrightarrow>
     dlq_wf s' \<and> length (rs_dles s) \<le> length (rs_dles s') \<and>
     (\<forall>j < length (rs_dles s). dl_entry_id (rs_dles s' ! j) = dl_entry_id (rs_dles s ! j))"

text \<open>
  A factory whose \<open>j\<close>-th call has the outcome \<open>outcome j\<close>; the extension of the engine counts the calls.
\<close>

definition scripted :: "(nat \<Rightarrow> exn + 'v) \<Rightarrow> nat resilience_scheme \<Rightarrow> ('v, nat resilience_scheme) res" where
  "scripted outcome s = (outcome (resilience.more s), resilience.more_update Suc s)"

text \<open>The events of \<open>k\<close> failed attempts that are retried.\<close>

definition retry_events :: "retry_policy \<Rightarrow> string \<Rightarrow> (nat \<Rightarrow> exn) \<Rightarrow> nat \<Rightarrow> domain_event list" where
  "retry_events pol tid exc k =
     map (\<lambda>j. ResEv (RetryAttempted tid (int j + 1) (backoff_for pol (int j + 1)) (exc_text (exc j)))) [0..<k]"

section \<open>Lemmas\<close>

subsection \<open>One circuit\<close>

lemmas cb_op_defs = cb_admit_def maybe_recover_def cb_on_success_def cb_on_failure_def

interpretation circuit: breaker cb_inv cb_state cb_ripe cb_admit "\<lambda>_. cb_on_success" cb_on_failure
  by unfold_locales (auto simp: cb_op_defs cb_inv_def Let_def split: if_splits)

lemma cb_config_ops [simp]:
  "cb_config (maybe_recover t rt) = cb_config rt"
  "cb_config (snd (cb_admit t rt)) = cb_config rt"
  "cb_config (cb_on_success rt) = cb_config rt"
  "cb_config (cb_on_failure t rt) = cb_config rt"
  by (simp_all add: cb_op_defs Let_def)

lemma cb_inv_init [simp]: "cb_inv (circuit_rt_init cfg)"
  by (simp add: cb_inv_def circuit_rt_init_def)

lemma cb_inv_recover: "cb_inv rt \<Longrightarrow> cb_inv (maybe_recover t rt)"
  by (auto simp: maybe_recover_def cb_inv_def)

subsection \<open>The engine\<close>

lemma rs_effects [simp]:
  "rs_objs (rs_emit e s) = rs_objs s" "rs_circuits (rs_emit e s) = rs_circuits s"
  "rs_objs (rs_metric n l s) = rs_objs s" "rs_circuits (rs_metric n l s) = rs_circuits s"
  "rs_objs (rs_persist rt s) = rs_objs s" "rs_circuits (rs_persist rt s) = rs_circuits s"
  "rs_objs (opened_effects rt s) = rs_objs s" "rs_circuits (opened_effects rt s) = rs_circuits s"
  by (simp_all add: rs_emit_def rs_metric_def rs_persist_def opened_effects_def)

lemma rs_mod_simps [simp]:
  "rs_objs (rs_mod i f s) = (rs_objs s)[i := f (rs_objs s ! i)]"
  "rs_circuits (rs_mod i f s) = rs_circuits s"
  by (simp_all add: rs_mod_def)

lemma on_success_objs [simp]:
  "rs_objs (on_success i s) = (rs_objs s)[i := cb_on_success (rs_objs s ! i)]"
  "rs_circuits (on_success i s) = rs_circuits s"
  by (simp_all add: on_success_def Let_def)

lemma on_failure_objs [simp]:
  "rs_objs (on_failure clock i s) = (rs_objs s)[i := cb_on_failure (clock s) (rs_objs s ! i)]"
  "rs_circuits (on_failure clock i s) = rs_circuits s"
  by (simp_all add: on_failure_def Let_def)

lemma register_objs:
  "\<exists>cfg. rs_objs (register_circuit name config s) = rs_objs s @ [circuit_rt_init cfg]"
  "rs_circuits (register_circuit name config s) = dset name (length (rs_objs s)) (rs_circuits s)"
  by (auto simp: register_circuit_def Let_def)

lemma enter_objs:
  assumes "dget (rs_circuits s) name = Some i"
  shows "rs_objs (snd (circuit_enter clock name s)) = (rs_objs s)[i := snd (cb_admit (clock s) (rs_objs s ! i))]"
    and "rs_circuits (snd (circuit_enter clock name s)) = rs_circuits s"
    and "fst (circuit_enter clock name s) =
           (if fst (cb_admit (clock s) (rs_objs s ! i)) then Inr i else Inl (CircuitBreakerOpenError name))"
  using assms by (simp_all add: circuit_enter_def Let_def case_prod_beta)

lemma enter_registers:
  assumes "dget (rs_circuits s) name = None"
  shows "circuit_enter clock name s = circuit_enter clock name (register_circuit name None s)"
  using assms by (simp add: circuit_enter_def register_objs)

lemma res_wf_index: "res_wf s \<Longrightarrow> dget (rs_circuits s) name = Some i \<Longrightarrow> i < length (rs_objs s)"
  by (auto simp: res_wf_def dest: dget_Some_in)

lemma res_wf_register: "res_wf s \<Longrightarrow> res_wf (register_circuit name config s)"
  using register_objs [of name config s]
  by (auto simp: res_wf_def dest!: in_dsetD)

lemma res_wf_mod:
  assumes "res_wf s" and "i < length (rs_objs s)" and "cb_inv (f (rs_objs s ! i))"
    and "rs_objs s' = (rs_objs s)[i := f (rs_objs s ! i)]" and "rs_circuits s' = rs_circuits s"
  shows "res_wf s'"
  using assms by (auto simp: res_wf_def dest!: set_update_subset_insert [THEN subsetD])

lemma res_wf_obj: "res_wf s \<Longrightarrow> i < length (rs_objs s) \<Longrightarrow> cb_inv (rs_objs s ! i)"
  by (simp add: res_wf_def)

lemma res_step_wf: "res_step s s' \<Longrightarrow> res_wf s \<Longrightarrow> res_wf s'"
proof (induction rule: res_step.induct)
  case (res_status s clock name)
  have "res_wf (rs_mod i (maybe_recover (clock s)) s)" if "dget (rs_circuits s) name = Some i" for i
    by (rule res_wf_mod [where s = s and i = i and f = "maybe_recover (clock s)"])
       (use that res_status in \<open>auto simp: res_wf_index res_wf_obj cb_inv_recover\<close>)
  with res_status show ?case
    by (simp add: get_circuit_status_def Let_def split: option.splits)
next
  case (res_enter s clock name)
  have known: "res_wf (snd (circuit_enter clock name s))" if "res_wf s" "dget (rs_circuits s) name = Some i" for s i
    by (rule res_wf_mod [where s = s and i = i and f = "\<lambda>rt. snd (cb_admit (clock s) rt)"])
       (use that in \<open>auto simp: enter_objs res_wf_index res_wf_obj circuit.inv_admit\<close>)
  show ?case
  proof (cases "dget (rs_circuits s) name")
    case None
    then show ?thesis
      using known [OF res_wf_register [OF res_enter, of name None]]
      by (simp add: enter_registers register_objs)
  next
    case (Some i)
    then show ?thesis using known res_enter by blast
  qed
next
  case (res_success i s)
  then show ?case
    by (auto intro!: res_wf_mod [where s = s and i = i and f = cb_on_success] simp: res_wf_obj circuit.inv_succ)
next
  case (res_failure i s clock)
  then show ?case
    by (auto intro!: res_wf_mod [where s = s and i = i and f = "cb_on_failure (clock s)"] simp: res_wf_obj circuit.inv_fail)
qed (auto simp: res_wf_register, simp add: res_wf_def)

text \<open>
  The state of a circuit after each operation on it. A trial is counted when it is let in, so a
  circuit that recovers in a call has at most one trial.
\<close>

lemma cb_state_ops:
  "cb_state (maybe_recover t rt) = (if cb_state rt = OPEN \<and> cb_ripe t rt then HALF_OPEN else cb_state rt)"
  "cb_state (snd (cb_admit t rt)) = (if cb_state rt = OPEN \<and> cb_ripe t rt then HALF_OPEN else cb_state rt)"
  "cb_state (cb_on_success rt) = (if cb_state rt = OPEN then OPEN else CLOSED)"
  "cb_state (cb_on_failure t rt) =
     (if cb_state rt = CLOSED \<and> cb_failure_count rt + 1 < cc_failure_threshold (cb_config rt) then CLOSED else OPEN)"
  by (cases "cb_state rt"; auto simp: cb_op_defs cb_ripe_def Let_def split: option.splits)+

text \<open>One step changes the state of circuit \<open>i\<close> along one edge, and only by the operation that belongs to it.\<close>

definition circuit_edge :: "nat \<Rightarrow> 'a resilience_scheme \<Rightarrow> 'a resilience_scheme \<Rightarrow> bool" where
  "circuit_edge i s s' \<longleftrightarrow>
     (let rt = rs_objs s ! i; rt' = rs_objs s' ! i
      in cb_state rt = CLOSED \<and> cb_state rt' = OPEN \<and> cc_failure_threshold (cb_config rt) \<le> cb_failure_count rt + 1 \<and>
           (\<exists>clock. s' = on_failure clock i s) \<or>
         cb_state rt = OPEN \<and> cb_state rt' = HALF_OPEN \<and> cb_half_open_calls rt' \<le> 1 \<and>
           (\<exists>clock name. dget (rs_circuits s) name = Some i \<and> cb_ripe (clock s) rt \<and>
              (s' = snd (get_circuit_status clock name s) \<or> s' = snd (circuit_enter clock name s))) \<or>
         cb_state rt = HALF_OPEN \<and> cb_state rt' = CLOSED \<and> cb_failure_count rt' = 0 \<and> cb_half_open_calls rt' = 0 \<and> s' = on_success i s \<or>
         cb_state rt = HALF_OPEN \<and> cb_state rt' = OPEN \<and> (\<exists>clock. s' = on_failure clock i s \<and> cb_last_failure rt' = Some (clock s)))"

lemma circuit_edges:
  assumes "i < length (rs_objs s)"
  shows "cb_state (rs_objs (on_success i s) ! i) \<noteq> cb_state (rs_objs s ! i) \<Longrightarrow> circuit_edge i s (on_success i s)"
    and "cb_state (rs_objs (on_failure clock i s) ! i) \<noteq> cb_state (rs_objs s ! i) \<Longrightarrow> circuit_edge i s (on_failure clock i s)"
    and "dget (rs_circuits s) name = Some i \<Longrightarrow>
      cb_state (rs_objs (snd (get_circuit_status clock name s)) ! i) \<noteq> cb_state (rs_objs s ! i) \<Longrightarrow> circuit_edge i s (snd (get_circuit_status clock name s))"
    and "dget (rs_circuits s) name = Some i \<Longrightarrow>
      cb_state (rs_objs (snd (circuit_enter clock name s)) ! i) \<noteq> cb_state (rs_objs s ! i) \<Longrightarrow> circuit_edge i s (snd (circuit_enter clock name s))"
proof -
  show "cb_state (rs_objs (on_success i s) ! i) \<noteq> cb_state (rs_objs s ! i) \<Longrightarrow> circuit_edge i s (on_success i s)"
    using assms by (simp add: circuit_edge_def cb_on_success_def split: if_splits)
  show "cb_state (rs_objs (on_failure clock i s) ! i) \<noteq> cb_state (rs_objs s ! i) \<Longrightarrow> circuit_edge i s (on_failure clock i s)"
    using assms by (cases "cb_state (rs_objs s ! i)") (auto simp: circuit_edge_def cb_state_ops Let_def, auto simp: cb_on_failure_def)
  assume name: "dget (rs_circuits s) name = Some i"
  show "circuit_edge i s (snd (get_circuit_status clock name s))"
    if "cb_state (rs_objs (snd (get_circuit_status clock name s)) ! i) \<noteq> cb_state (rs_objs s ! i)"
  proof -
    have objs: "rs_objs (snd (get_circuit_status clock name s)) ! i = maybe_recover (clock s) (rs_objs s ! i)"
      using assms name by (simp add: get_circuit_status_def Let_def)
    then have "cb_state (rs_objs s ! i) = OPEN" "cb_ripe (clock s) (rs_objs s ! i)" using that by (auto simp: cb_state_ops split: if_splits)
    moreover from this have "cb_half_open_calls (maybe_recover (clock s) (rs_objs s ! i)) \<le> 1"
      by (auto simp: maybe_recover_def cb_ripe_def split: option.splits)
    ultimately show ?thesis unfolding circuit_edge_def Let_def objs using name by (auto simp: cb_state_ops)
  qed
  show "circuit_edge i s (snd (circuit_enter clock name s))"
    if "cb_state (rs_objs (snd (circuit_enter clock name s)) ! i) \<noteq> cb_state (rs_objs s ! i)"
  proof -
    have objs: "rs_objs (snd (circuit_enter clock name s)) ! i = snd (cb_admit (clock s) (rs_objs s ! i))"
      using assms name by (simp add: enter_objs)
    then have "cb_state (rs_objs s ! i) = OPEN" "cb_ripe (clock s) (rs_objs s ! i)" using that by (auto simp: cb_state_ops split: if_splits)
    moreover from this have "cb_half_open_calls (snd (cb_admit (clock s) (rs_objs s ! i))) \<le> 1"
      by (auto simp: cb_admit_def maybe_recover_def cb_ripe_def Let_def split: option.splits)
    ultimately show ?thesis unfolding circuit_edge_def Let_def objs using name by (auto simp: cb_state_ops)
  qed
qed

text \<open>What a step leaves of the other circuits, and of its own configuration.\<close>

lemma res_step_circuit:
  "res_step s s' \<Longrightarrow> res_wf s \<Longrightarrow> i < length (rs_objs s) \<Longrightarrow>
     i < length (rs_objs s') \<and> cb_config (rs_objs s' ! i) = cb_config (rs_objs s ! i) \<and>
     (cb_state (rs_objs s' ! i) = cb_state (rs_objs s ! i) \<or> circuit_edge i s s')"
proof (induction rule: res_step.induct)
  case (res_register s name config)
  then show ?case using register_objs(1) [of name config s] by (auto simp: nth_append)
next
  case (res_status s clock name)
  show ?case
  proof (cases "dget (rs_circuits s) name")
    case (Some j)
    then show ?thesis
      using res_status circuit_edges(3) [of i s name clock] by (cases "j = i") (auto simp: get_circuit_status_def Let_def)
  qed (use res_status in \<open>simp add: get_circuit_status_def\<close>)
next
  case (res_enter s clock name)
  show ?case
  proof (cases "dget (rs_circuits s) name")
    case None
    let ?s = "register_circuit name None s"
    have new: "rs_objs ?s ! i = rs_objs s ! i" "i < length (rs_objs ?s)" "i \<noteq> length (rs_objs s)"
      using register_objs(1) [of name None s] res_enter.prems(2) by (auto simp: nth_append)
    then show ?thesis using None by (simp add: enter_registers enter_objs register_objs)
  next
    case (Some j)
    then show ?thesis using res_enter circuit_edges(4) [of i s name clock] by (cases "j = i") (auto simp: enter_objs)
  qed
next
  case (res_success j s)
  then show ?case using circuit_edges(1) [of i s] by (cases "j = i") auto
next
  case (res_failure j s clock)
  then show ?case using circuit_edges(2) [of i s clock] by (cases "j = i") auto
qed simp

lemma res_steps_wf:
  "res_steps s s' \<Longrightarrow> res_wf s \<Longrightarrow> res_wf s' \<and> length (rs_objs s) \<le> length (rs_objs s')"
  unfolding res_steps_def
proof (induction rule: rtranclp_induct)
  case (step s1 s2)
  have "length (rs_objs s1) \<le> length (rs_objs s2)"
  proof (rule ccontr)
    assume "\<not> length (rs_objs s1) \<le> length (rs_objs s2)"
    then show False using res_step_circuit [OF step.hyps(2), of "length (rs_objs s2)"] step by simp
  qed
  then show ?case using step res_step_wf [OF step.hyps(2)] by simp
qed simp

lemma res_wf_init [simp]: "res_wf (resilience.extend (resilience_init st snk ms) m)"
  by (simp add: res_wf_def resilience_init_def resilience.defs)

text \<open>A guarded call is a sequence of steps when its body is.\<close>

lemma call_with_circuit_steps:
  assumes "\<And>s. res_wf s \<Longrightarrow> res_steps s (snd (body s))" and "res_wf s"
  shows "res_steps s (snd (call_with_circuit clock name body s))"
proof (cases "fst (circuit_enter clock name s)")
  case (Inl x)
  then show ?thesis
    using res_enter [of s clock name]
    by (auto simp: call_with_circuit_def res_steps_def split: prod.splits)
next
  case (Inr i)
  let ?s1 = "snd (circuit_enter clock name s)" and ?s2 = "snd (body (snd (circuit_enter clock name s)))"
  have enter: "res_steps s ?s1" and wf: "res_wf ?s1"
    using res_enter [of s clock name] res_step_wf [OF _ assms(2)] by (auto simp: res_steps_def)
  have "i < length (rs_objs ?s1)"
  proof (cases "dget (rs_circuits s) name")
    case None
    have "dget (rs_circuits (register_circuit name None s)) name = Some (length (rs_objs s))"
      by (simp add: register_objs)
    with Inr None show ?thesis
      using enter_objs(1,3) [of "register_circuit name None s"] register_objs(1) [of name None s]
      by (auto simp: enter_registers split: if_splits)
  next
    case (Some j)
    with Inr assms(2) show ?thesis by (auto simp: enter_objs res_wf_index split: if_splits)
  qed
  then have i: "i < length (rs_objs ?s2)" and body: "res_steps ?s1 ?s2"
    using res_steps_wf [OF assms(1) [OF wf] wf] assms(1) [OF wf] by auto
  have "res_steps ?s2 (snd (call_with_circuit clock name body s))"
    using Inr res_success [OF i] res_failure [OF i, of clock]
    by (auto simp: call_with_circuit_def res_steps_def split: prod.splits sum.splits)
  with enter body show ?thesis
    unfolding res_steps_def by (meson rtranclp_trans)
qed

subsection \<open>Rejection, tripping and trials\<close>

lemma cb_reject_open:
  assumes "cb_state rt = OPEN" and "\<not> cb_ripe t rt"
  shows "cb_admit t rt = (False, rt)"
  using assms by (simp add: cb_admit_def maybe_recover_def Let_def)

lemma cb_reject_half_open:
  assumes "cb_state rt = HALF_OPEN" and "cb_half_open_calls rt \<ge> cc_half_open_max_calls (cb_config rt)"
  shows "cb_admit t rt = (False, rt)"
  using assms by (simp add: cb_admit_def maybe_recover_def Let_def)

lemma call_rejected:
  assumes "dget (rs_circuits s) name = Some i"
    and "cb_admit (clock s) (rs_objs s ! i) = (False, rs_objs s ! i)"
  shows "call_with_circuit clock name body s =
           (Inl (CircuitBreakerOpenError name), rs_metric ''res.circuit_rejected'' [(''circuit'', name)] s)"
  using assms by (simp add: call_with_circuit_def circuit_enter_def Let_def rs_mod_def)

lemma call_fails_closed:
  assumes "dget (rs_circuits s) name = Some i" and "cb_state (rs_objs s ! i) = CLOSED" and "catches ''Exception'' x"
  shows "snd (call_with_circuit clock name (\<lambda>s. (Inl x, s)) s) = on_failure clock i s"
  using assms by (simp add: call_with_circuit_def circuit_enter_def cb_admit_def maybe_recover_def Let_def rs_mod_def)

lemma rs_sink_effects [simp]:
  "rs_sink (rs_metric n l s) = rs_sink s"
  "rs_sink (rs_persist rt s) = rs_sink s"
  "rs_sink (rs_mod i f s) = rs_sink s"
  "rs_sink (rs_emit e s) = emit (ResEv e) (rs_sink s)"
  by (simp_all add: rs_metric_def rs_persist_def rs_mod_def rs_emit_def)

lemma enters_half_open:
  assumes "dget (rs_circuits s) name = Some i" and "i < length (rs_objs s)"
    and "cb_state (rs_objs s ! i) = HALF_OPEN"
  shows "length (filter (\<lambda>b. b) (fst (enters clock name n s))) =
           min n (nat (cc_half_open_max_calls (cb_config (rs_objs s ! i)) - cb_half_open_calls (rs_objs s ! i)))"
  using assms
proof (induction n arbitrary: s)
  case (Suc n)
  let ?rt = "rs_objs s ! i" and ?s1 = "snd (circuit_enter clock name s)"
  let ?left = "cc_half_open_max_calls (cb_config ?rt) - cb_half_open_calls ?rt"
  have objs: "rs_objs ?s1 ! i = snd (cb_admit (clock s) ?rt)" "rs_circuits ?s1 = rs_circuits s" "i < length (rs_objs ?s1)"
    using Suc.prems by (simp_all add: enter_objs)
  have adm: "cb_admit (clock s) ?rt =
      (?left > 0, if ?left > 0 then ?rt\<lparr>cb_half_open_calls := cb_half_open_calls ?rt + 1\<rparr> else ?rt)"
    using Suc.prems(3) by (simp add: cb_admit_def maybe_recover_def Let_def)
  have "length (filter (\<lambda>b. b) (fst (enters clock name n ?s1))) =
      min n (nat (if ?left > 0 then ?left - 1 else ?left))"
    using Suc.IH [of ?s1] Suc.prems objs adm by (simp split: if_splits)
  moreover have "(case fst (circuit_enter clock name s) of Inl _ \<Rightarrow> False | Inr _ \<Rightarrow> True) = (?left > 0)"
    using Suc.prems(1) adm by (simp add: enter_objs)
  ultimately show ?case
    by (auto simp: Let_def case_prod_beta)
qed simp

subsection \<open>Retry\<close>

lemma rs_more [simp]:
  "resilience.more (rs_emit e s) = resilience.more s"
  "resilience.more (rs_metric n l s) = resilience.more s"
  by (simp_all add: rs_emit_def rs_metric_def)

lemma retry_prefix:
  fixes s :: "nat resilience_scheme"
  assumes sleep: "\<And>d s. fst (sleep d s) = Inr () \<and> rs_sink (snd (sleep d s)) = rs_sink s \<and>
      resilience.more (snd (sleep d s)) = resilience.more s"
    and fails: "\<And>j. j < k \<Longrightarrow> outcome (resilience.more s + j) = Inl (exc j) \<and> catches ''Exception'' (exc j) \<and> is_retryable pol (exc j)"
    and bound: "k < nat (rp_max_attempts pol)"
  shows "\<exists>err s'. retry_loop clock sleep (scripted outcome) pol task_id tid (nat (rp_max_attempts pol)) 1 [] s =
             retry_loop clock sleep (scripted outcome) pol task_id tid (nat (rp_max_attempts pol) - k) (int k + 1) err s' \<and>
           resilience.more s' = resilience.more s + k \<and>
           snk_bus (rs_sink s') = map_option (\<lambda>es. es @ retry_events pol tid exc k) (snk_bus (rs_sink s))"
  using fails bound
proof (induction k)
  case 0
  then show ?case
    by (intro exI [of _ "[]"] exI [of _ s]) (simp add: retry_events_def option.map_ident)
next
  case (Suc k)
  let ?loop = "retry_loop clock sleep (scripted outcome) pol task_id tid" and ?N = "nat (rp_max_attempts pol)"
  obtain err s' where IH: "?loop ?N 1 [] s = ?loop (?N - k) (int k + 1) err s'"
      "resilience.more s' = resilience.more s + k"
      "snk_bus (rs_sink s') = map_option (\<lambda>es. es @ retry_events pol tid exc k) (snk_bus (rs_sink s))"
    using Suc by (metis less_SucI Suc_lessD)
  have out: "outcome (resilience.more s + k) = Inl (exc k)" "catches ''Exception'' (exc k)" "is_retryable pol (exc k)"
    using Suc.prems(1) [of k] by auto
  have left: "?N - k = Suc (?N - Suc k)" "\<not> rp_max_attempts pol \<le> int k + 1"
    using Suc.prems(2) by auto
  let ?s1 = "rs_metric ''res.retry_attempted'' [(''task'', tid)]
      (rs_emit (RetryAttempted tid (int k + 1) (backoff_for pol (int k + 1)) (exc_text (exc k))) (resilience.more_update Suc s'))"
  let ?s2 = "?s1\<lparr>rs_store := map_option (put_retry tid (int k + 1) (backoff_for pol (int k + 1)) (exc_text (exc k)) (clock ?s1)) (rs_store ?s1)\<rparr>"
  obtain s3 where s3: "sleep (of_int (backoff_for pol (int k + 1)) / 1000) ?s2 = (Inr (), s3)"
      "rs_sink s3 = rs_sink ?s2" "resilience.more s3 = resilience.more ?s2"
    using sleep [of "of_int (backoff_for pol (int k + 1)) / 1000" ?s2] by (metis prod.collapse)
  have "?loop (?N - k) (int k + 1) err s' = ?loop (?N - Suc k) (int (Suc k) + 1) (exc_text (exc k)) s3"
    using out left(2) s3(1) IH(2) unfolding left(1) by (simp add: scripted_def Let_def)
  then show ?case
    using IH s3
    by (intro exI [of _ "exc_text (exc k)"] exI [of _ s3])
       (simp add: option.map_comp o_def retry_events_def)
qed

lemma retry_at:
  fixes s :: "nat resilience_scheme"
  assumes sleep: "\<And>d s. fst (sleep d s) = Inr () \<and> rs_sink (snd (sleep d s)) = rs_sink s \<and>
      resilience.more (snd (sleep d s)) = resilience.more s"
    and fails: "\<And>j. j < k \<Longrightarrow> outcome (resilience.more s + j) = Inl (exc j) \<and> catches ''Exception'' (exc j) \<and> is_retryable pol (exc j)"
    and bound: "int k < rp_max_attempts pol" and tid: "tid \<noteq> []"
  obtains err s' where
    "retry clock sleep uuid (scripted outcome) (Some pol) (Some tid) s =
       retry_loop clock sleep (scripted outcome) pol (Some tid) tid (Suc (nat (rp_max_attempts pol) - Suc k)) (int k + 1) err s'"
    "resilience.more s' = resilience.more s + k"
    "snk_bus (rs_sink s') = map_option (\<lambda>es. es @ retry_events pol tid exc k) (snk_bus (rs_sink s))"
proof -
  have "k < nat (rp_max_attempts pol)" and left: "nat (rp_max_attempts pol) - k = Suc (nat (rp_max_attempts pol) - Suc k)"
    using bound by auto
  from retry_prefix [where sleep = sleep and outcome = outcome and pol = pol and tid = tid and clock = clock
      and task_id = "Some tid" and s = s, OF sleep fails this(1)] left tid that
  show thesis by (auto simp: retry_def)
qed

subsection \<open>Stores and dead letters\<close>

lemma rst_tables_update [simp]: "rst_tables (rst_update f st) = f (rst_tables st)"
  by (simp add: rst_tables_def rst_update_def dmod_def split: option.splits)

lemma rst_path_update [simp]: "rst_path (rst_update f st) = rst_path st"
  by (simp add: rst_update_def split: option.splits)

interpretation circuit_table: keyed_store "\<lambda>_. True"
    "\<lambda>name row. put_circuit name (cr_state row) (cr_failure_count row) (cr_last_failure row) (cr_config row)" get_circuit
  by unfold_locales (auto simp: put_circuit_def get_circuit_def dget_dset)

lemma tables_wf_dset:
  "tables_wf t \<Longrightarrow> dl_entry_id e = k \<Longrightarrow> tables_wf (t\<lparr>rt_dead_letter := dset k e (rt_dead_letter t)\<rparr>)"
  by (auto simp: tables_wf_def dest!: in_dsetD)

lemma tables_wf_get: "tables_wf (rst_tables st) \<Longrightarrow> get_dead_letter st k = Some e \<Longrightarrow> dl_entry_id e = k"
  by (auto simp: tables_wf_def get_dead_letter_def dest: dget_Some_in)

lemma tables_wf_put:
  assumes "tables_wf (rst_tables st)"
  shows "tables_wf (rst_tables (put_dead_letter e st))"
proof (cases "rst_path st = None \<or> get_dead_letter st (dl_entry_id e) = None")
  case True
  then have "rst_tables (put_dead_letter e st) =
      (rst_tables st)\<lparr>rt_dead_letter := dset (dl_entry_id e) e (rt_dead_letter (rst_tables st))\<rparr>"
    by (auto simp: put_dead_letter_def get_dead_letter_def split: option.splits)
  then show ?thesis using tables_wf_dset [OF assms] by simp
next
  case False
  then obtain p old where old: "rst_path st = Some p" "get_dead_letter st (dl_entry_id e) = Some old" by auto
  have "dl_entry_id old = dl_entry_id e" by (rule tables_wf_get [OF assms old(2)])
  then have "tables_wf ((rst_tables st)\<lparr>rt_dead_letter := dset (dl_entry_id e)
      (old\<lparr>dl_error := dl_error e, dl_attempts := dl_attempts e, dl_last_attempt := dl_last_attempt e,
           dl_status := dl_status e\<rparr>) (rt_dead_letter (rst_tables st))\<rparr>)"
    by (intro tables_wf_dset [OF assms]) simp
  with old show ?thesis by (simp add: put_dead_letter_def get_dead_letter_def)
qed

lemma tables_wf_status:
  "tables_wf (rst_tables st) \<Longrightarrow> tables_wf (rst_tables (snd (update_dead_letter_status k status la st)))"
  by (auto simp: update_dead_letter_status_def split: option.splits intro!: tables_wf_dset dest: tables_wf_get)

text \<open>After a status update, the row of that id has the new status.\<close>

lemma status_updated:
  assumes "tables_wf (rst_tables st)"
    and "e \<in> set (rst_list_dead_letter (Some x) (snd (update_dead_letter_status k status la st)))"
    and "status \<noteq> x"
  shows "dl_entry_id e \<noteq> k"
proof
  assume k: "dl_entry_id e = k"
  let ?st = "snd (update_dead_letter_status k status la st)"
  have wf: "tables_wf (rst_tables ?st)" by (rule tables_wf_status [OF assms(1)])
  from assms(2) obtain k' where "(k', e) \<in> set (rt_dead_letter (rst_tables ?st))" and x: "dl_status e = x"
    by (auto simp: rst_list_dead_letter_def Let_def split: option.splits)
  with wf k have "get_dead_letter ?st k = Some e"
    by (auto simp: tables_wf_def get_dead_letter_def dget_iff_in)
  with x assms(3) show False
    by (auto simp: update_dead_letter_status_def get_dead_letter_def split: option.splits)
qed

lemma find_dead_letter_wf:
  assumes "dlq_wf s" and "find_dead_letter k s = Some (i, s0)"
  shows "dlq_wf s0 \<and> i < length (rs_dles s0) \<and> dl_entry_id (rs_dles s0 ! i) = k"
proof (cases "dget (rs_dlq s) k")
  case (Some j)
  with assms show ?thesis by (auto simp: find_dead_letter_def dlq_wf_def dest!: dget_Some_in)
next
  case None
  with assms(2) obtain st e where st: "rs_store s = Some st" "get_dead_letter st k = Some e"
      and "i = length (rs_dles s)" "s0 = s\<lparr>rs_dles := rs_dles s @ [e]\<rparr>"
    by (auto simp: find_dead_letter_def split: option.splits)
  with assms(1) show ?thesis
    by (auto simp: dlq_wf_def nth_append dest: tables_wf_get)
qed

lemma dlq_wf_mod:
  assumes "dlq_wf s" and "i < length (rs_dles s)" and "dl_entry_id (f (rs_dles s ! i)) = dl_entry_id (rs_dles s ! i)"
  shows "dlq_wf (dle_mod i f s)"
proof -
  have "dl_entry_id ((rs_dles s)[i := f (rs_dles s ! i)] ! j) = dl_entry_id (rs_dles s ! j)" for j
    using assms(2,3) by (cases "j = i") auto
  with assms(1) show ?thesis by (auto simp: dlq_wf_def dle_mod_def)
qed

text \<open>Filing entry \<open>i\<close> under its id with a status that is not \<open>x\<close>, in the queue and in the store.\<close>

lemma settle_letter:
  assumes wf: "dlq_wf s" and i: "i < length (rs_dles s)" and id: "dl_entry_id (rs_dles s ! i) = k"
    and "status \<noteq> x"
    and s': "s' = (dle_mod i (\<lambda>e. e\<lparr>dl_status := status\<rparr>) s)
               \<lparr>rs_dlq := dset k i (rs_dlq s),
                rs_store := map_option (\<lambda>st. snd (update_dead_letter_status k status la st)) (rs_store s)\<rparr>"
  shows "dlq_wf s' \<and> (\<forall>e \<in> set (list_dead_letter (Some x) s'). dl_entry_id e \<noteq> k)"
proof
  have mod: "dlq_wf (dle_mod i (\<lambda>e. e\<lparr>dl_status := status\<rparr>) s)"
    using wf i by (rule dlq_wf_mod) simp
  then show wf': "dlq_wf s'"
    using i id s'
    by (auto simp: dlq_wf_def dle_mod_def tables_wf_status split: option.splits dest!: in_dsetD)
  show "\<forall>e \<in> set (list_dead_letter (Some x) s'). dl_entry_id e \<noteq> k"
  proof (cases "rs_store s")
    case (Some st)
    then show ?thesis
      using wf s' assms(4) by (auto simp: list_dead_letter_def dlq_wf_def dest: status_updated)
  next
    case None
    have "j = i" if "(n, j) \<in> set (rs_dlq s')" "dl_entry_id (rs_dles s' ! j) = k" for n j
    proof -
      from that wf' have "(k, j) \<in> set (rs_dlq s')" by (auto simp: dlq_wf_def)
      moreover have "dict_ok (rs_dlq s)" using wf by (simp add: dlq_wf_def)
      ultimately show "j = i" using s' by (auto simp: in_dset)
    qed
    moreover have "dl_status (rs_dles s' ! i) = status" "rs_store s' = None"
      using i s' None by (simp_all add: dle_mod_def)
    ultimately show ?thesis
      using assms(4) by (auto simp: list_dead_letter_def)
  qed
qed

lemma dlq_wf_init [simp]: "dlq_wf (resilience.extend (resilience_init None snk ms) m)"
  by (simp add: dlq_wf_def resilience_init_def resilience.defs)

lemma dlq_wf_enqueue: "dlq_wf s \<Longrightarrow> dlq_wf (snd (enqueue_dead_letter clock uuid task error attempts entry_id s))"
  by (auto simp: enqueue_dead_letter_def Let_def dlq_wf_def rs_metric_def rs_emit_def nth_append less_Suc_eq
      tables_wf_put split: option.splits dest!: in_dsetD)

text \<open>Enqueuing again under an id the SQLite table has keeps the task that was enqueued first.\<close>

lemma sqlite_upsert_keeps_task:
  assumes "rst_path st = Some p" and "get_dead_letter st (dl_entry_id e) = Some old"
  shows "map_option dl_original_task (get_dead_letter (put_dead_letter e st) (dl_entry_id e)) = Some (dl_original_task old)"
  using assms by (simp add: put_dead_letter_def get_dead_letter_def)

section \<open>Properties\<close>

text \<open>
  C30: the circuit breaker of the engine implements the documented machine, step by step. However the
  calls of any number of tasks interleave (entering, succeeding, failing, re-registering, asking the
  status, and anything else the tasks do), take any reachable engine and any next step of a task. Every
  circuit keeps its configuration, knows the time of its last failure while OPEN, and never counts more
  trial calls than its budget. Its state stays, or it changes along one edge by the operation that
  belongs to it: a failure that reaches the threshold opens it; a call or a status query under its name
  makes it HALF\_OPEN, if the recovery timeout has elapsed, with at most one trial; a success of a
  HALF\_OPEN circuit closes it with its counts at zero; a failure of a HALF\_OPEN circuit opens it again.
  And the edges are taken: a failure leaves a circuit CLOSED only below the threshold and OPEN otherwise,
  and a success leaves it CLOSED unless it is OPEN.
\<close>

theorem circuit_machine:
  assumes "res_steps (resilience.extend (resilience_init st snk ms) m) s" and "res_step s s'" and "i < length (rs_objs s)"
  shows "i < length (rs_objs s') \<and> cb_config (rs_objs s' ! i) = cb_config (rs_objs s ! i) \<and> cb_inv (rs_objs s' ! i) \<and>
    (cb_state (rs_objs s' ! i) = cb_state (rs_objs s ! i) \<or> circuit_edge i s s') \<and>
    cb_state (rs_objs (on_failure clock i s) ! i) =
      (if cb_state (rs_objs s ! i) = CLOSED \<and> cb_failure_count (rs_objs s ! i) + 1 < cc_failure_threshold (cb_config (rs_objs s ! i)) then CLOSED else OPEN) \<and>
    cb_state (rs_objs (on_success i s) ! i) = (if cb_state (rs_objs s ! i) = OPEN then OPEN else CLOSED)"
proof -
  have "res_wf s" using res_steps_wf [OF assms(1)] by simp
  then have "res_wf s'" and "i < length (rs_objs s') \<and> cb_config (rs_objs s' ! i) = cb_config (rs_objs s ! i) \<and>
      (cb_state (rs_objs s' ! i) = cb_state (rs_objs s ! i) \<or> circuit_edge i s s')"
    using res_step_wf [OF assms(2)] res_step_circuit [OF assms(2) _ assms(3)] by blast+
  then show ?thesis using assms(3) by (simp add: res_wf_obj cb_state_ops)
qed

theorem circuit_machine_witness:
  "let s = register_circuit ''c'' None (resilience.extend (resilience_init None unwired None) ());
       s' = snd (circuit_enter (\<lambda>_. 0) ''c'' s)
   in 0 < length (rs_objs s') \<and> cb_config (rs_objs s' ! 0) = cb_config (rs_objs s ! 0) \<and> cb_inv (rs_objs s' ! 0) \<and>
    (cb_state (rs_objs s' ! 0) = cb_state (rs_objs s ! 0) \<or> circuit_edge 0 s s') \<and>
    cb_state (rs_objs (on_failure (\<lambda>_. 0) 0 s) ! 0) =
      (if cb_state (rs_objs s ! 0) = CLOSED \<and> cb_failure_count (rs_objs s ! 0) + 1 < cc_failure_threshold (cb_config (rs_objs s ! 0)) then CLOSED else OPEN) \<and>
    cb_state (rs_objs (on_success 0 s) ! 0) = (if cb_state (rs_objs s ! 0) = OPEN then OPEN else CLOSED)"
proof -
  let ?init = "resilience.extend (resilience_init None unwired None) ()"
  let ?s = "register_circuit ''c'' None ?init"
  have "res_steps ?init ?s" unfolding res_steps_def by (rule r_into_rtranclp, rule res_register)
  moreover have "res_step ?s (snd (circuit_enter (\<lambda>_. 0) ''c'' ?s))" by (rule res_enter)
  moreover have "0 < length (rs_objs ?s)" by (simp add: register_circuit_def Let_def)
  ultimately show ?thesis unfolding Let_def by (rule circuit_machine)
qed

text \<open>
  An open circuit fails fast. While the recovery timeout has not elapsed, a call through the
  circuit raises \<open>CircuitBreakerOpenError\<close> and does not run the guarded body, whatever the body
  is: the engine is as before but for the rejection metric.
\<close>

theorem open_fails_fast:
  assumes "dget (rs_circuits s) name = Some i" and "cb_state (rs_objs s ! i) = OPEN"
    and "cb_last_failure (rs_objs s ! i) = Some lf"
    and "clock s - lf < 1000 * cc_recovery_timeout_ms (cb_config (rs_objs s ! i))"
  shows "call_with_circuit clock name body s =
           (Inl (CircuitBreakerOpenError name), rs_metric ''res.circuit_rejected'' [(''circuit'', name)] s)"
proof -
  have "(of_int (clock s - lf) :: rat) < of_int (1000 * cc_recovery_timeout_ms (cb_config (rs_objs s ! i)))"
    using assms(4) by (simp only: of_int_less_iff)
  then have "\<not> cb_ripe (clock s) (rs_objs s ! i)"
    using assms(3) by (simp add: cb_ripe_def field_simps)
  with assms(2) have "cb_admit (clock s) (rs_objs s ! i) = (False, rs_objs s ! i)"
    by (rule cb_reject_open)
  with assms(1) show ?thesis by (rule call_rejected)
qed

theorem open_fails_fast_witness:
  "let s = (resilience_init None unwired (Some []))
             \<lparr>rs_circuits := [(''c'', 0)],
              rs_objs := [(circuit_rt_init (default_circuit_config ''c''))\<lparr>cb_state := OPEN, cb_last_failure := Some 5\<rparr>]\<rparr>
   in fst (call_with_circuit (\<lambda>_. 6) ''c'' (\<lambda>s. (Inr (), s)) s) = Inl (CircuitBreakerOpenError ''c'')"
  unfolding Let_def
  by (subst open_fails_fast [where lf = 5 and i = 0]) (simp_all add: circuit_rt_init_def default_circuit_config_def)

text \<open>
  A circuit trips exactly at its threshold. Take a freshly registered circuit and let \<open>n\<close> calls
  in a row fail, with \<open>n\<close> up to the threshold: it has counted them all, is still CLOSED before the
  threshold, is OPEN at it, and \<open>CircuitBreakerOpened\<close> has been published once, at that moment.
\<close>

theorem trips_at_threshold:
  assumes "dget (rs_circuits s) name = Some i" and "i < length (rs_objs s)"
    and "rs_objs s ! i = circuit_rt_init cfg" and "catches ''Exception'' x"
    and "int n \<le> cc_failure_threshold cfg" and "1 \<le> cc_failure_threshold cfg"
  shows "let s' = ((\<lambda>s. snd (call_with_circuit clock name (\<lambda>s. (Inl x :: exn + 'v, s)) s)) ^^ n) s
         in cb_state (rs_objs s' ! i) = (if int n = cc_failure_threshold cfg then OPEN else CLOSED) \<and>
            cb_failure_count (rs_objs s' ! i) = int n \<and>
            snk_bus (rs_sink s') = map_option (\<lambda>es. es @
              (if int n = cc_failure_threshold cfg then [ResEv (CircuitBreakerOpened (cc_name cfg) (int n) (int n))] else []))
              (snk_bus (rs_sink s))"
proof -
  let ?s = "\<lambda>n. ((\<lambda>s. snd (call_with_circuit clock name (\<lambda>s. (Inl x :: exn + 'v, s)) s)) ^^ n) s"
  let ?k = "cc_failure_threshold cfg"
  have "cb_state (rs_objs (?s n) ! i) = (if int n = ?k then OPEN else CLOSED) \<and>
      cb_failure_count (rs_objs (?s n) ! i) = int n \<and> cb_config (rs_objs (?s n) ! i) = cfg \<and>
      rs_circuits (?s n) = rs_circuits s \<and> length (rs_objs (?s n)) = length (rs_objs s) \<and>
      snk_bus (rs_sink (?s n)) = map_option (\<lambda>es. es @
        (if int n = ?k then [ResEv (CircuitBreakerOpened (cc_name cfg) (int n) (int n))] else [])) (snk_bus (rs_sink s))"
    using assms(5)
  proof (induction n)
    case 0
    then show ?case
      using assms by (simp add: circuit_rt_init_def option.map_ident)
  next
    case (Suc n)
    then have step: "?s (Suc n) = on_failure clock i (?s n)"
      using assms by (simp add: call_fails_closed)
    let ?rt = "rs_objs (?s n) ! i"
    have fail: "cb_on_failure (clock (?s n)) ?rt = ?rt\<lparr>cb_last_failure := Some (clock (?s n)),
        cb_failure_count := int (Suc n), cb_state := (if int (Suc n) = ?k then OPEN else CLOSED)\<rparr>"
      using Suc by (auto simp: cb_on_failure_def Let_def)
    show ?case
      using Suc assms(2) step fail
      by (auto simp: on_failure_def opened_effects_def Let_def option.map_comp o_def)
  qed
  then show ?thesis by (simp add: Let_def)
qed

theorem trips_at_threshold_witness:
  "let cfg = (default_circuit_config ''c'')\<lparr>cc_failure_threshold := 2\<rparr>;
       s = register_circuit ''c'' (Some cfg) (resilience_init None wired None);
       s' = ((\<lambda>s. snd (call_with_circuit (\<lambda>_. 7) ''c'' (\<lambda>s. (Inl (ValueError ''v'') :: exn + unit, s)) s)) ^^ 2) s
   in cb_state (rs_objs s' ! 0) = OPEN \<and> snk_bus (rs_sink s') = Some [ResEv (CircuitBreakerOpened ''c'' 2 2)]"
  using trips_at_threshold [where 'v = unit,
     of "register_circuit ''c'' (Some ((default_circuit_config ''c'')\<lparr>cc_failure_threshold := 2\<rparr>)) (resilience_init None wired None)"
        "''c''" 0 "(default_circuit_config ''c'')\<lparr>cc_failure_threshold := 2\<rparr>" "ValueError ''v''" 2 "\<lambda>_. 7"]
  by (simp add: Let_def register_circuit_def resilience_init_def default_circuit_config_def exn_simps wired_def)

text \<open>
  The trial budget. When \<open>n\<close> calls reach a half-open circuit before any of them has ended,
  the number let in is the smaller of \<open>n\<close> and what is left of \<open>half_open_max_calls\<close>.
\<close>

theorem trial_budget:
  assumes "dget (rs_circuits s) name = Some i" and "i < length (rs_objs s)"
    and "cb_state (rs_objs s ! i) = HALF_OPEN"
  shows "length (filter (\<lambda>b. b) (fst (enters clock name n s))) =
           min n (nat (cc_half_open_max_calls (cb_config (rs_objs s ! i)) - cb_half_open_calls (rs_objs s ! i)))"
  using assms by (rule enters_half_open)

theorem trial_budget_witness:
  "let s = (resilience_init None unwired None)
             \<lparr>rs_circuits := [(''c'', 0)],
              rs_objs := [(circuit_rt_init ((default_circuit_config ''c'')\<lparr>cc_half_open_max_calls := 2\<rparr>))\<lparr>cb_state := HALF_OPEN\<rparr>]\<rparr>
   in length (filter (\<lambda>b. b) (fst (enters (\<lambda>_. 6) ''c'' 5 s))) = 2"
  unfolding Let_def
  by (subst trial_budget [where i = 0]) (simp_all add: circuit_rt_init_def default_circuit_config_def)

text \<open>
  A cancelled trial wedges the circuit. \<open>call_with_circuit\<close> records an outcome for a return and
  for an \<open>Exception\<close>, but a task cancelled inside the body (a timeout of the caller, a shutdown)
  raises an exception that is neither. If that was the last trial of a half-open circuit, every later
  call through the circuit is rejected, at any time and however often it is tried.
\<close>

theorem cancelled_trial_wedges:
  assumes "dget (rs_circuits s) name = Some i" and "i < length (rs_objs s)"
    and "cb_state (rs_objs s ! i) = HALF_OPEN"
    and "cb_half_open_calls (rs_objs s ! i) = cc_half_open_max_calls (cb_config (rs_objs s ! i)) - 1"
  shows "let s1 = snd (call_with_circuit clock name (\<lambda>s. (Inl CancelledError :: exn + 'v, s)) s);
             s2 = ((\<lambda>s. snd (call_with_circuit clock' name body s)) ^^ n) s1
         in fst (call_with_circuit clock' name body s2) = Inl (CircuitBreakerOpenError name)"
proof -
  let ?s1 = "snd (call_with_circuit clock name (\<lambda>s. (Inl CancelledError :: exn + 'v, s)) s)"
  let ?stuck = "\<lambda>s. dget (rs_circuits s) name = Some i \<and> cb_state (rs_objs s ! i) = HALF_OPEN \<and>
    cb_half_open_calls (rs_objs s ! i) \<ge> cc_half_open_max_calls (cb_config (rs_objs s ! i))"
  have start: "?stuck ?s1"
    using assms
    by (simp add: call_with_circuit_def circuit_enter_def cb_admit_def maybe_recover_def Let_def Cancelled_not_Exception)
  have rej: "call_with_circuit clock' name body s =
      (Inl (CircuitBreakerOpenError name), rs_metric ''res.circuit_rejected'' [(''circuit'', name)] s)" if "?stuck s" for s
    using that by (intro call_rejected) (auto simp: cb_reject_half_open)
  have "?stuck (((\<lambda>s. snd (call_with_circuit clock' name body s)) ^^ n) ?s1)"
    by (induction n) (use start in \<open>auto simp: rej\<close>)
  then show ?thesis by (simp add: Let_def rej)
qed

theorem cancelled_trial_wedges_witness:
  "let s = (resilience_init None unwired None)
             \<lparr>rs_circuits := [(''c'', 0)],
              rs_objs := [(circuit_rt_init (default_circuit_config ''c''))\<lparr>cb_state := HALF_OPEN\<rparr>]\<rparr>;
       s1 = snd (call_with_circuit (\<lambda>_. 0) ''c'' (\<lambda>s. (Inl CancelledError :: exn + unit, s)) s)
   in fst (call_with_circuit (\<lambda>_. 10 ^ 20) ''c'' (\<lambda>s. (Inr (), s)) s1) = Inl (CircuitBreakerOpenError ''c'')"
  using cancelled_trial_wedges [where 'v = unit and name = "''c''" and i = 0 and n = 0 and clock = "\<lambda>_. 0"
      and clock' = "\<lambda>_. 10 ^ 20" and body = "\<lambda>s. (Inr (), s)"
      and s = "(resilience_init None unwired None)\<lparr>rs_circuits := [(''c'', 0)],
           rs_objs := [(circuit_rt_init (default_circuit_config ''c''))\<lparr>cb_state := HALF_OPEN\<rparr>]\<rparr>"]
  by (simp add: Let_def circuit_rt_init_def default_circuit_config_def)

text \<open>
  Retry returns the first success. If the first \<open>k\<close> attempts fail with retryable exceptions, \<open>k\<close>
  is below \<open>max_attempts\<close>, and the next attempt succeeds, then \<open>retry\<close> returns its value after
  exactly \<open>k + 1\<close> calls of the factory, having published one \<open>RetryAttempted\<close> per failure, in
  order, each with the attempt number and its backoff.
\<close>

theorem retry_succeeds:
  assumes "\<And>d s. fst (sleep d s) = Inr () \<and> rs_sink (snd (sleep d s)) = rs_sink s \<and>
      resilience.more (snd (sleep d s)) = resilience.more s"
    and "\<And>j. j < k \<Longrightarrow> outcome (resilience.more s + j) = Inl (exc j) \<and> catches ''Exception'' (exc j) \<and> is_retryable pol (exc j)"
    and "int k < rp_max_attempts pol" and "tid \<noteq> []" and "outcome (resilience.more s + k) = Inr v"
  shows "let (r, s') = retry clock sleep uuid (scripted outcome) (Some pol) (Some tid) s
         in r = Inr v \<and> resilience.more s' = resilience.more s + k + 1 \<and>
            snk_bus (rs_sink s') = map_option (\<lambda>es. es @ retry_events pol tid exc k) (snk_bus (rs_sink s))"
  by (rule retry_at [where sleep = sleep and k = k and outcome = outcome and s = s and exc = exc and pol = pol
        and tid = tid and clock = clock and uuid = uuid, OF assms(1-4)])
     (use assms(5) in \<open>simp_all add: scripted_def\<close>)

theorem retry_succeeds_witness:
  "let pol = default_retry_policy;
       outcome = (\<lambda>j. if j < 2 then Inl (ValueError ''v'') else Inr (5 :: int));
       s = resilience.extend (resilience_init None wired None) (0 :: nat)
   in case retry (\<lambda>_. 0) (\<lambda>d s. (Inr (), s)) ''u'' (scripted outcome) (Some pol) (Some ''t'') s of
        (r, s') \<Rightarrow> r = Inr 5 \<and> resilience.more s' = 3"
  using retry_succeeds [where sleep = "\<lambda>d s. (Inr (), s)" and k = 2 and exc = "\<lambda>_. ValueError ''v''"
      and outcome = "\<lambda>j. if j < 2 then Inl (ValueError ''v'') else Inr (5 :: int)" and v = 5
      and s = "resilience.extend (resilience_init None wired None) (0 :: nat)" and pol = default_retry_policy
      and tid = "''t''" and clock = "\<lambda>_. 0" and uuid = "''u''"]
  by (simp add: Let_def default_retry_policy_def is_retryable_def exn_simps resilience.defs case_prod_beta)

text \<open>
  Retry gives up in time. If the first \<open>k\<close> attempts fail with retryable exceptions and the next
  one fails with an exception that is not retryable, or is the last one allowed, then \<open>retry\<close>
  raises \<open>RetryExhaustedError\<close> carrying the attempt number and the last error, after exactly
  \<open>k + 1\<close> calls, and the last event published is the matching \<open>RetryExhausted\<close>.
\<close>

theorem retry_gives_up:
  assumes "\<And>d s. fst (sleep d s) = Inr () \<and> rs_sink (snd (sleep d s)) = rs_sink s \<and>
      resilience.more (snd (sleep d s)) = resilience.more s"
    and "\<And>j. j < k \<Longrightarrow> outcome (resilience.more s + j) = Inl (exc j) \<and> catches ''Exception'' (exc j) \<and> is_retryable pol (exc j)"
    and "int k < rp_max_attempts pol" and "tid \<noteq> []"
    and "outcome (resilience.more s + k) = Inl x" and "catches ''Exception'' x"
    and "\<not> is_retryable pol x \<or> int k + 1 = rp_max_attempts pol"
  shows "let (r, s') = retry clock sleep uuid (scripted outcome) (Some pol) (Some tid) s
         in r = Inl (RetryExhaustedError (Some tid) (int k + 1) (exc_text x)) \<and>
            resilience.more s' = resilience.more s + k + 1 \<and>
            snk_bus (rs_sink s') = map_option
              (\<lambda>es. es @ retry_events pol tid exc k @ [ResEv (RetryExhausted tid (int k + 1) (exc_text x))])
              (snk_bus (rs_sink s))"
  by (rule retry_at [where sleep = sleep and k = k and outcome = outcome and s = s and exc = exc and pol = pol
        and tid = tid and clock = clock and uuid = uuid, OF assms(1-4)])
     (use assms(5-7) in \<open>auto simp: scripted_def Let_def option.map_comp o_def\<close>)

theorem retry_gives_up_witness:
  "let outcome = (\<lambda>j. Inl (ValueError ''v'') :: exn + int);
       s = resilience.extend (resilience_init None wired None) (0 :: nat)
   in case retry (\<lambda>_. 0) (\<lambda>d s. (Inr (), s)) ''u'' (scripted outcome) (Some default_retry_policy) (Some ''t'') s of
        (r, s') \<Rightarrow> r = Inl (RetryExhaustedError (Some ''t'') 3 (exc_text (ValueError ''v''))) \<and> resilience.more s' = 3"
  using retry_gives_up [where sleep = "\<lambda>d s. (Inr (), s)" and k = 2 and exc = "\<lambda>_. ValueError ''v''"
      and outcome = "\<lambda>j. Inl (ValueError ''v'') :: exn + int" and x = "ValueError ''v''"
      and s = "resilience.extend (resilience_init None wired None) (0 :: nat)" and pol = default_retry_policy
      and tid = "''t''" and clock = "\<lambda>_. 0" and uuid = "''u''"]
  by (simp add: Let_def default_retry_policy_def is_retryable_def exn_simps resilience.defs case_prod_beta)

text \<open>
  The backoff doubles until it reaches its ceiling: it starts at the base, each further attempt
  waits twice as long as the one before or the ceiling, whichever is less, it never shrinks and it
  never exceeds the ceiling. Attempt numbers below one count as one.
\<close>

theorem backoff_doubles:
  assumes "0 \<le> rp_backoff_base_ms pol" and "0 \<le> rp_max_backoff_ms pol"
  shows "backoff_for pol 1 = min (rp_backoff_base_ms pol) (rp_max_backoff_ms pol) \<and>
         (1 \<le> a \<longrightarrow> backoff_for pol (a + 1) = min (2 * backoff_for pol a) (rp_max_backoff_ms pol)) \<and>
         (a \<le> b \<longrightarrow> backoff_for pol a \<le> backoff_for pol b) \<and>
         backoff_for pol a \<le> rp_max_backoff_ms pol \<and> (a < 1 \<longrightarrow> backoff_for pol a = backoff_for pol 1)"
proof -
  have double: "backoff_for pol (a + 1) = min (2 * backoff_for pol a) (rp_max_backoff_ms pol)" if "1 \<le> a"
  proof -
    have "nat (a + 1 - 1) = Suc (nat (a - 1))" using that by simp
    moreover have "0 \<le> rp_backoff_base_ms pol * 2 ^ nat (a - 1)" using assms by simp
    ultimately show ?thesis
      using that assms(2) unfolding backoff_for_def Let_def by (simp add: min_def)
  qed
  have "backoff_for pol a \<le> backoff_for pol b" if "a \<le> b"
  proof -
    have "(2 :: int) ^ nat ((if a < 1 then 1 else a) - 1) \<le> 2 ^ nat ((if b < 1 then 1 else b) - 1)"
      using that by (intro power_increasing) auto
    from mult_left_mono [OF this assms(1)] show ?thesis
      unfolding backoff_for_def Let_def by (rule min.mono) simp
  qed
  with double show ?thesis
    by (simp add: backoff_for_def Let_def)
qed

theorem backoff_doubles_witness:
  "backoff_for default_retry_policy 4 = min (2 * backoff_for default_retry_policy 3) 10000 \<and>
   backoff_for default_retry_policy 3 \<le> backoff_for default_retry_policy 9"
  using backoff_doubles [of default_retry_policy 3 9] by (simp add: default_retry_policy_def)

text \<open>
  A settled dead letter leaves the pending list. With or without a store, from any queue whose
  entries are filed under their ids: after a replay that succeeds, and after a discard that reports
  success, no pending entry of that id is listed and the queue is still well filed. The replayed
  task may itself enqueue, replay and discard.
\<close>

theorem dead_letter_settled:
  assumes wf: "dlq_wf s"
    and task: "\<And>t s. dlq_wf s \<Longrightarrow> dlq_grows s (snd (factory t s))"
    and ok: "fst (replay_dead_letter clock k factory s) = Inr v"
    and found: "fst (discard_dead_letter clock k' s)"
  shows "dlq_wf (snd (replay_dead_letter clock k factory s)) \<and> dlq_wf (snd (discard_dead_letter clock k' s)) \<and>
         (\<forall>e \<in> set (list_dead_letter (Some ''pending'') (snd (replay_dead_letter clock k factory s))). dl_entry_id e \<noteq> k) \<and>
         (\<forall>e \<in> set (list_dead_letter (Some ''pending'') (snd (discard_dead_letter clock k' s))). dl_entry_id e \<noteq> k')"
proof -
  obtain i s0 where find: "find_dead_letter k s = Some (i, s0)"
    using ok by (auto simp: replay_dead_letter_def split: option.splits)
  let ?s1 = "dle_mod i (\<lambda>e. e\<lparr>dl_last_attempt := Some (clock s0)\<rparr>) s0"
  let ?s2 = "snd (factory (dl_original_task (rs_dles ?s1 ! i)) ?s1)"
  have s0: "dlq_wf s0" "i < length (rs_dles s0)" "dl_entry_id (rs_dles s0 ! i) = k"
    using find_dead_letter_wf [OF wf find] by auto
  then have "dlq_wf ?s1" by (intro dlq_wf_mod) simp_all
  from task [OF this, of "dl_original_task (rs_dles ?s1 ! i)"] s0
  have s2: "dlq_wf ?s2" "i < length (rs_dles ?s2)" "dl_entry_id (rs_dles ?s2 ! i) = k"
    by (auto simp: dlq_grows_def dle_mod_def)
  have replay: "snd (replay_dead_letter clock k factory s) = (dle_mod i (\<lambda>e. e\<lparr>dl_status := ''replayed''\<rparr>) ?s2)
      \<lparr>rs_dlq := dset k i (rs_dlq ?s2), rs_store := map_option (\<lambda>st. snd (update_dead_letter_status k ''replayed''
         (dl_last_attempt (rs_dles (dle_mod i (\<lambda>e. e\<lparr>dl_status := ''replayed''\<rparr>) ?s2) ! i)) st)) (rs_store ?s2)\<rparr>"
    using ok find by (auto simp: replay_dead_letter_def Let_def dle_mod_def split: prod.splits sum.splits if_splits)
  obtain j s3 where find': "find_dead_letter k' s = Some (j, s3)"
    using found by (auto simp: discard_dead_letter_def split: option.splits)
  have s3: "dlq_wf s3" "j < length (rs_dles s3)" "dl_entry_id (rs_dles s3 ! j) = k'"
    using find_dead_letter_wf [OF wf find'] by auto
  have discard: "snd (discard_dead_letter clock k' s) = (dle_mod j (\<lambda>e. e\<lparr>dl_status := ''discarded''\<rparr>) s3)
      \<lparr>rs_dlq := dset k' j (rs_dlq s3), rs_store := map_option (\<lambda>st. snd (update_dead_letter_status k' ''discarded''
         (Some (clock ((dle_mod j (\<lambda>e. e\<lparr>dl_status := ''discarded''\<rparr>) s3)\<lparr>rs_dlq := dset k' j (rs_dlq s3)\<rparr>))) st)) (rs_store s3)\<rparr>"
    using find' by (simp add: discard_dead_letter_def Let_def dle_mod_def)
  show ?thesis
    using settle_letter [OF s2 _ replay, of "''pending''"] settle_letter [OF s3 _ discard, of "''pending''"] by simp
qed

theorem dead_letter_settled_witness:
  "let s = snd (enqueue_dead_letter (\<lambda>_. 9) ''u'' [] ''boom'' 3 (Some ''d'')
             (resilience_init (Some (resilience_store_init None [])) wired None));
       s' = snd (replay_dead_letter (\<lambda>_. 10) ''d'' (\<lambda>t s. (Inr (), s)) s)
   in list_dead_letter (Some ''pending'') s \<noteq> [] \<and>
      (\<forall>e \<in> set (list_dead_letter (Some ''pending'') s'). dl_entry_id e \<noteq> ''d'')"
proof -
  let ?s = "snd (enqueue_dead_letter (\<lambda>_. 9) ''u'' [] ''boom'' 3 (Some ''d'')
             (resilience_init (Some (resilience_store_init None [])) wired None))"
  have wf: "dlq_wf ?s"
    by (simp add: enqueue_dead_letter_def resilience_init_def resilience_store_init_def rs_metric_def rs_emit_def
        Let_def dlq_wf_def dict_ok_def rtables_init_def put_dead_letter_def rst_update_def rst_tables_def tables_wf_def)
  have "list_dead_letter (Some ''pending'') ?s \<noteq> []"
    by (simp add: enqueue_dead_letter_def resilience_init_def resilience_store_init_def rs_metric_def rs_emit_def
        Let_def rtables_init_def put_dead_letter_def rst_update_def rst_tables_def list_dead_letter_def rst_list_dead_letter_def)
  moreover have "fst (replay_dead_letter (\<lambda>_. 10) ''d'' (\<lambda>t s. (Inr (), s)) ?s) = Inr ()"
    "fst (discard_dead_letter (\<lambda>_. 10) ''d'' ?s)"
    by (simp_all add: enqueue_dead_letter_def resilience_init_def rs_metric_def rs_emit_def Let_def
        replay_dead_letter_def find_dead_letter_def discard_dead_letter_def)
  ultimately show ?thesis
    using dead_letter_settled [OF wf, of "\<lambda>t s. (Inr (), s)" "\<lambda>_. 10" "''d''" "()" "''d''"]
    by (simp add: Let_def dlq_grows_def)
qed

end
