(* ===== verification/Guard.thy ===== *)
theory Guard
  imports Events
begin

text \<open>
  The capability guard: \<open>kernel/capability_guard.py\<close>, \<open>kernel/security_domain.py\<close> and
  \<open>kernel/security_store.py\<close>.

  \<^item> \<open>guard\<close> is \<open>CapabilityGuard\<close>; it is extensible, and the guarded handler runs on the guard
    with whatever else it changes as its extension. \<open>clock\<close> reads the time off the state;
    \<open>uid\<close> is the id \<open>uuid4\<close> gives the audit entry, \<open>isofmt\<close> prints a time and \<open>fstr\<close> a float.
  \<^item> \<open>guard_call\<close> is \<open>CapabilityGuard.call\<close>: \<open>_GuardContext.__aenter__\<close>, the handler,
    \<open>__aexit__\<close>, which also runs when the handler raises or is cancelled.
  \<^item> \<open>security_store\<close> is the store, a memory image and the optional SQLite tables.
\<close>

section \<open>Domain\<close>

record permission =
  perm_action :: string
  perm_resource :: string

definition perm_matches :: "permission \<Rightarrow> string \<Rightarrow> string \<Rightarrow> bool" where
  "perm_matches p action resource \<longleftrightarrow>
     perm_action p = action \<and> (perm_resource p = resource \<or> perm_resource p = ''*'')"

record resource_limit =
  rl_cpu_ms :: rat
  rl_mem_mb :: rat
  rl_max_calls :: int

definition default_resource_limit :: resource_limit where
  "default_resource_limit = \<lparr>rl_cpu_ms = 1000, rl_mem_mb = 128, rl_max_calls = 100\<rparr>"

record sandbox_policy =
  sp_permissions :: "permission list"
  sp_resource_limits :: resource_limit

definition policy_allows :: "sandbox_policy \<Rightarrow> string \<Rightarrow> string \<Rightarrow> bool" where
  "policy_allows sp action resource \<longleftrightarrow> (\<exists>p \<in> set (sp_permissions sp). perm_matches p action resource)"

record audit_entry =
  ae_entry_id :: string
  ae_who :: string
  ae_action :: string
  ae_resource :: string
  ae_result :: string
  ae_timestamp :: datetime
  ae_detail :: string

definition to_event_payload :: "(datetime \<Rightarrow> string) \<Rightarrow> audit_entry \<Rightarrow> pydict" where
  "to_event_payload isofmt e =
     [(''entry_id'', PStr (ae_entry_id e)), (''who'', PStr (ae_who e)), (''action'', PStr (ae_action e)),
      (''resource'', PStr (ae_resource e)), (''result'', PStr (ae_result e)),
      (''timestamp'', PStr (isofmt (ae_timestamp e))), (''detail'', PStr (ae_detail e))]"

section \<open>The store\<close>

record sec_db =
  sdb_policies :: "(string, sandbox_policy) dict"
  sdb_grants :: "(string, string \<times> permission) dict"
  sdb_audit :: "(string, audit_entry) dict"

record security_store =
  ss_policies :: "(string, sandbox_policy) dict"
  ss_grants :: "(string, permission list) dict"
  ss_audit :: "audit_entry list"
  ss_db :: "sec_db option"

definition sec_db_empty :: sec_db where
  "sec_db_empty = \<lparr>sdb_policies = [], sdb_grants = [], sdb_audit = []\<rparr>"

text \<open>\<open>INSERT OR REPLACE\<close> deletes the old row and appends the new one at the end of the table.\<close>

definition sql_replace :: "'k \<Rightarrow> 'v \<Rightarrow> ('k, 'v) dict \<Rightarrow> ('k, 'v) dict" where
  "sql_replace k v t = ddel k t @ [(k, v)]"

text \<open>The constructor; with a database its rows are loaded into memory.\<close>

definition sec_store_open :: "sec_db option \<Rightarrow> security_store" where
  "sec_store_open db =
     (case db of
        None \<Rightarrow> \<lparr>ss_policies = [], ss_grants = [], ss_audit = [], ss_db = None\<rparr>
      | Some d \<Rightarrow>
          \<lparr>ss_policies = fold (\<lambda>(k, p). dset k p) (sdb_policies d) [],
           ss_grants = fold (\<lambda>(_, pkg, p). dmod pkg [] (\<lambda>ps. ps @ [p])) (sdb_grants d) [],
           ss_audit = dvals (sdb_audit d), ss_db = Some d\<rparr>)"

definition put_policy :: "string \<Rightarrow> sandbox_policy \<Rightarrow> security_store \<Rightarrow> security_store" where
  "put_policy package_id sp st =
     st\<lparr>ss_policies := dset package_id sp (ss_policies st),
        ss_db := map_option (\<lambda>d. d\<lparr>sdb_policies := sql_replace package_id sp (sdb_policies d)\<rparr>) (ss_db st)\<rparr>"

definition get_policy :: "security_store \<Rightarrow> string \<Rightarrow> sandbox_policy option" where
  "get_policy st package_id = dget (ss_policies st) package_id"

definition grant_id :: "string \<Rightarrow> permission \<Rightarrow> string" where
  "grant_id package_id p = perm_action p @ '':'' @ perm_resource p @ '':'' @ package_id"

definition put_grant :: "string \<Rightarrow> permission \<Rightarrow> security_store \<Rightarrow> security_store" where
  "put_grant package_id p st =
     st\<lparr>ss_grants := dmod package_id [] (\<lambda>ps. ps @ [p]) (ss_grants st),
        ss_db := map_option (\<lambda>d. d\<lparr>sdb_grants := sql_replace (grant_id package_id p) (package_id, p) (sdb_grants d)\<rparr>) (ss_db st)\<rparr>"

definition get_grant :: "security_store \<Rightarrow> string \<Rightarrow> permission list" where
  "get_grant st package_id = dget_or (ss_grants st) package_id []"

definition put_audit :: "audit_entry \<Rightarrow> security_store \<Rightarrow> security_store" where
  "put_audit e st =
     st\<lparr>ss_audit := ss_audit st @ [e],
        ss_db := map_option (\<lambda>d. d\<lparr>sdb_audit := sql_replace (ae_entry_id e) e (sdb_audit d)\<rparr>) (ss_db st)\<rparr>"

definition audit_filter ::
  "string option \<Rightarrow> datetime option \<Rightarrow> datetime option \<Rightarrow> audit_entry list \<Rightarrow> audit_entry list" where
  "audit_filter who since until es =
     filter (\<lambda>e. (case who of None \<Rightarrow> True | Some w \<Rightarrow> ae_who e = w) \<and>
                 (case since of None \<Rightarrow> True | Some t \<Rightarrow> ae_timestamp e \<ge> t) \<and>
                 (case until of None \<Rightarrow> True | Some t \<Rightarrow> ae_timestamp e \<le> t)) es"

definition list_audit ::
  "string option \<Rightarrow> datetime option \<Rightarrow> datetime option \<Rightarrow> security_store \<Rightarrow> audit_entry list" where
  "list_audit who since until st = audit_filter who since until (ss_audit st)"

definition sec_store_close :: "security_store \<Rightarrow> security_store" where
  "sec_store_close st = st\<lparr>ss_db := None\<rparr>"

section \<open>The guard\<close>

record usage =
  us_calls :: rat
  us_cpu_ms :: rat

record guard =
  g_sink :: sink
  g_store :: "security_store option"
  g_policies :: "(string, sandbox_policy) dict"
  g_grants :: "(string, permission list) dict"
  g_usage :: "(string, usage) dict"
  g_audit :: "audit_entry list"
  g_audit_limit :: int

definition no_usage :: usage where
  "no_usage = \<lparr>us_calls = 0, us_cpu_ms = 0\<rparr>"

definition guard_init :: "sink \<Rightarrow> security_store option \<Rightarrow> int \<Rightarrow> guard" where
  "guard_init snk store audit_limit =
     \<lparr>g_sink = snk, g_store = store, g_policies = [], g_grants = [], g_usage = [], g_audit = [],
      g_audit_limit = audit_limit\<rparr>"

definition PermissionDeniedError :: "string \<Rightarrow> exn" where
  "PermissionDeniedError m = std_exn [''PermissionDeniedError''] m"

definition ResourceLimitExceededError :: "string \<Rightarrow> exn" where
  "ResourceLimitExceededError m = std_exn [''ResourceLimitExceededError''] m"

definition g_emit :: "sec_event \<Rightarrow> 'a guard_scheme \<Rightarrow> 'a guard_scheme" where
  "g_emit e g = g\<lparr>g_sink := emit (SecEv e) (g_sink g)\<rparr>"

definition register_policy ::
  "(rat \<Rightarrow> string) \<Rightarrow> string \<Rightarrow> sandbox_policy \<Rightarrow> 'a guard_scheme \<Rightarrow> 'a guard_scheme" where
  "register_policy fstr package_id sp g =
     (let summary = nat_str (length (sp_permissions sp)) @ '' perms / cpu='' @ fstr (rl_cpu_ms (sp_resource_limits sp)) @
                    ''ms calls='' @ int_str (rl_max_calls (sp_resource_limits sp))
      in g_emit (PluginSandboxed package_id summary)
           (g\<lparr>g_policies := dset package_id sp (g_policies g),
              g_usage := dmod package_id no_usage id (g_usage g),
              g_store := map_option (put_policy package_id sp) (g_store g)\<rparr>))"

definition get_policies :: "'a guard_scheme \<Rightarrow> (string, sandbox_policy) dict" where
  "get_policies g = g_policies g"

definition grant :: "string \<Rightarrow> permission \<Rightarrow> 'a guard_scheme \<Rightarrow> 'a guard_scheme" where
  "grant package_id p g =
     g\<lparr>g_grants := dmod package_id [] (\<lambda>ps. ps @ [p]) (g_grants g),
       g_store := map_option (put_grant package_id p) (g_store g)\<rparr>"

definition check :: "'a guard_scheme \<Rightarrow> string \<Rightarrow> string \<Rightarrow> string \<Rightarrow> bool" where
  "check g princ action resource =
     (let policy = dget (g_policies g) princ; grants = dget_or (g_grants g) princ []
      in if (case policy of None \<Rightarrow> False | Some sp \<Rightarrow> policy_allows sp action resource) then True
         else if grants \<noteq> [] \<and> (\<exists>p \<in> set grants. perm_matches p action resource) then True
         else policy = None \<and> grants = [])"

definition audit_push :: "audit_entry \<Rightarrow> 'a guard_scheme \<Rightarrow> 'a guard_scheme" where
  "audit_push e g = g\<lparr>g_audit := ring_push (g_audit_limit g) e (g_audit g)\<rparr>"

definition audit_record ::
  "('a guard_scheme \<Rightarrow> datetime) \<Rightarrow> (datetime \<Rightarrow> string) \<Rightarrow> string \<Rightarrow>
   string \<Rightarrow> string \<Rightarrow> string \<Rightarrow> string \<Rightarrow> string \<Rightarrow> 'a guard_scheme \<Rightarrow> 'a guard_scheme" where
  "audit_record clock isofmt uid who action resource result detail g =
     (let entry = \<lparr>ae_entry_id = uid, ae_who = who, ae_action = action, ae_resource = resource,
                   ae_result = result, ae_timestamp = clock g, ae_detail = detail\<rparr>;
          g1 = audit_push entry g;
          g2 = g1\<lparr>g_store := map_option (put_audit entry) (g_store g1)\<rparr>
      in g_emit (AuditLogEntry uid who action resource result (isofmt (ae_timestamp entry))) g2)"

definition get_audit_log ::
  "string option \<Rightarrow> datetime option \<Rightarrow> datetime option \<Rightarrow> 'a guard_scheme \<Rightarrow> audit_entry list" where
  "get_audit_log package_id since until g =
     (case g_store g of
        Some st \<Rightarrow> list_audit package_id since until st
      | None \<Rightarrow> audit_filter package_id since until (g_audit g))"

definition resource_ok :: "'a guard_scheme \<Rightarrow> string \<Rightarrow> bool \<times> string" where
  "resource_ok g package_id =
     (case dget (g_policies g) package_id of
        None \<Rightarrow> (True, [])
      | Some sp \<Rightarrow>
          (let usage = dget_or (g_usage g) package_id no_usage; rl = sp_resource_limits sp
           in if us_calls usage \<ge> of_int (rl_max_calls rl) then (False, ''max_calls'')
              else if us_cpu_ms usage \<ge> rl_cpu_ms rl then (False, ''cpu_ms'')
              else (True, [])))"

definition accrue :: "string \<Rightarrow> rat \<Rightarrow> 'a guard_scheme \<Rightarrow> 'a guard_scheme" where
  "accrue package_id ms g =
     g\<lparr>g_usage := dmod package_id no_usage
        (\<lambda>u. u\<lparr>us_calls := us_calls u + 1, us_cpu_ms := us_cpu_ms u + ms\<rparr>) (g_usage g)\<rparr>"

definition guard_pre ::
  "('a guard_scheme \<Rightarrow> datetime) \<Rightarrow> (datetime \<Rightarrow> string) \<Rightarrow> string \<Rightarrow>
   string \<Rightarrow> string \<Rightarrow> string \<Rightarrow> 'a guard_scheme \<Rightarrow> (unit, 'a guard_scheme) res" where
  "guard_pre clock isofmt uid package_id action resource g =
     (if \<not> check g package_id action resource then
        (Inl (PermissionDeniedError (''permission denied: '' @ action @ '' on '' @ resource @ '' for '' @ package_id)),
         g_emit (PermissionDenied package_id action resource)
           (audit_record clock isofmt uid package_id action resource ''denied'' [] g))
      else
        (let (ok, limit_type) = resource_ok g package_id
         in if \<not> ok then
              (Inl (ResourceLimitExceededError (''resource limit exceeded ('' @ limit_type @ '') for '' @ package_id)),
               g_emit (ResourceLimitExceeded package_id limit_type 0)
                 (audit_record clock isofmt uid package_id action resource ''limit_exceeded'' limit_type g))
            else (Inr (), g)))"

definition guard_post ::
  "('a guard_scheme \<Rightarrow> datetime) \<Rightarrow> (datetime \<Rightarrow> string) \<Rightarrow> string \<Rightarrow>
   string \<Rightarrow> string \<Rightarrow> string \<Rightarrow> bool \<Rightarrow> 'a guard_scheme \<Rightarrow> 'a guard_scheme" where
  "guard_post clock isofmt uid package_id action resource errored g =
     audit_record clock isofmt uid package_id action resource (if errored then ''error'' else ''allowed'') [] g"

definition guard_exit ::
  "('a guard_scheme \<Rightarrow> datetime) \<Rightarrow> (datetime \<Rightarrow> string) \<Rightarrow> string \<Rightarrow>
   string \<Rightarrow> string \<Rightarrow> string \<Rightarrow> datetime \<Rightarrow> bool \<Rightarrow> 'a guard_scheme \<Rightarrow> 'a guard_scheme" where
  "guard_exit clock isofmt uid package_id action resource start errored g =
     (let ms = max 0 (of_int (clock g - start) / 1000)
      in guard_post clock isofmt uid package_id action resource errored (accrue package_id ms g))"

definition guard_call ::
  "('a guard_scheme \<Rightarrow> datetime) \<Rightarrow> (datetime \<Rightarrow> string) \<Rightarrow> string \<Rightarrow>
   ('a guard_scheme \<Rightarrow> ('v, 'a guard_scheme) res) \<Rightarrow> string \<Rightarrow> string \<Rightarrow> string option \<Rightarrow>
   'a guard_scheme \<Rightarrow> ('v, 'a guard_scheme) res" where
  "guard_call clock isofmt uid handler package_id action resource0 g =
     (let resource = (case resource0 of None \<Rightarrow> ''plugin:'' @ package_id | Some r \<Rightarrow> r)
      in case guard_pre clock isofmt uid package_id action resource g of
           (Inl x, g1) \<Rightarrow> (Inl x, g1)
         | (Inr _, g1) \<Rightarrow>
             (case handler g1 of
                (Inl x, g2) \<Rightarrow> (Inl x, guard_exit clock isofmt uid package_id action resource (clock g1) True g2)
              | (Inr v, g2) \<Rightarrow> (Inr v, guard_exit clock isofmt uid package_id action resource (clock g1) False g2)))"

text \<open>A principal is sandboxed once it has a policy or a grant.\<close>

definition sandboxed :: "'a guard_scheme \<Rightarrow> string \<Rightarrow> bool" where
  "sandboxed g princ \<longleftrightarrow> dget (g_policies g) princ \<noteq> None \<or> dget_or (g_grants g) princ [] \<noteq> []"

text \<open>How a guarded call ended, as the audit log words it.\<close>

definition verdict :: "'a guard_scheme \<Rightarrow> string \<Rightarrow> string \<Rightarrow> string \<Rightarrow> exn + 'v \<Rightarrow> string" where
  "verdict g package_id action resource r =
     (if \<not> check g package_id action resource then ''denied''
      else if \<not> fst (resource_ok g package_id) then ''limit_exceeded''
      else case r of Inl _ \<Rightarrow> ''error'' | Inr _ \<Rightarrow> ''allowed'')"

text \<open>Writes a store may receive.\<close>

datatype sec_write = WPolicy string sandbox_policy | WGrant string permission | WAudit audit_entry

fun do_write :: "sec_write \<Rightarrow> security_store \<Rightarrow> security_store" where
  "do_write (WPolicy k sp) st = put_policy k sp st"
| "do_write (WGrant k p) st = put_grant k p st"
| "do_write (WAudit e) st = put_audit e st"

text \<open>The database holds what the memory image of the store holds; \<open>ids\<close> are the audit ids so far.\<close>

definition sec_mirror :: "security_store \<Rightarrow> string list \<Rightarrow> bool" where
  "sec_mirror st ids \<longleftrightarrow>
     (\<exists>d. ss_db st = Some d \<and> dict_ok (sdb_policies d) \<and>
        (\<forall>k. dget (sdb_policies d) k = dget (ss_policies st) k) \<and>
        sdb_audit d = map (\<lambda>e. (ae_entry_id e, e)) (ss_audit st) \<and> map ae_entry_id (ss_audit st) = ids)"

section \<open>Lemmas\<close>

interpretation audit_ring: ring_buffer g_audit_limit g_audit audit_push
  by unfold_locales (simp_all add: audit_push_def)

interpretation policy_table: keyed_store "\<lambda>_. True" put_policy get_policy
  by unfold_locales (auto simp: put_policy_def get_policy_def dget_dset)

lemma perm_matches_star: "perm_matches \<lparr>perm_action = a, perm_resource = ''*''\<rparr> a r"
  by (simp add: perm_matches_def)

lemma guard_frame [simp]:
  "g_audit (g_emit e g) = g_audit g" "g_usage (g_emit e g) = g_usage g"
  "g_policies (g_emit e g) = g_policies g" "g_grants (g_emit e g) = g_grants g"
  "g_audit_limit (g_emit e g) = g_audit_limit g" "guard.more (g_emit e g) = guard.more g"
  by (simp_all add: g_emit_def)

lemma audit_record_frame [simp]:
  "g_usage (audit_record clock isofmt uid w a r res d g) = g_usage g"
  "g_policies (audit_record clock isofmt uid w a r res d g) = g_policies g"
  "g_grants (audit_record clock isofmt uid w a r res d g) = g_grants g"
  "guard.more (audit_record clock isofmt uid w a r res d g) = guard.more g"
  by (simp_all add: audit_record_def audit_push_def Let_def)

lemma accrue_frame [simp]:
  "g_policies (accrue k ms g) = g_policies g" "g_grants (accrue k ms g) = g_grants g"
  "guard.more (accrue k ms g) = guard.more g" "g_audit (accrue k ms g) = g_audit g"
  "g_audit_limit (accrue k ms g) = g_audit_limit g" "g_store (accrue k ms g) = g_store g" "g_sink (accrue k ms g) = g_sink g"
  by (simp_all add: accrue_def)

lemma check_frame:
  "g_policies g' = g_policies g \<Longrightarrow> g_grants g' = g_grants g \<Longrightarrow> check g' k a r = check g k a r"
  by (simp add: check_def)

lemma check_iff:
  "check g k a r \<longleftrightarrow> \<not> sandboxed g k \<or>
     (\<exists>sp. dget (g_policies g) k = Some sp \<and> policy_allows sp a r) \<or>
     (\<exists>p \<in> set (dget_or (g_grants g) k []). perm_matches p a r)"
  by (auto simp: check_def sandboxed_def Let_def split: option.splits)

text \<open>A guarded call of a handler that counts its runs in the extension.\<close>

lemma counted_call:
  fixes g :: "nat guard_scheme"
  assumes "dget (g_policies g) k = Some sp"
  shows "let g' = snd (guard_call clock isofmt uid (\<lambda>g. (out (guard.more g), guard.more_update Suc g)) k a (Some r) g);
             calls = (\<lambda>g. us_calls (dget_or (g_usage g) k no_usage))
         in g_policies g' = g_policies g \<and>
            (guard.more g' = guard.more g \<and> calls g' = calls g \<or>
             guard.more g' = Suc (guard.more g) \<and> calls g' = calls g + 1 \<and>
             calls g < of_int (rl_max_calls (sp_resource_limits sp)))"
proof (cases "check g k a r \<and> fst (resource_ok g k)")
  case True
  then show ?thesis
    using assms
    by (auto simp: guard_call_def guard_pre_def guard_exit_def guard_post_def resource_ok_def Let_def
        accrue_def dmod_def case_prod_beta split: sum.splits if_splits)
next
  case False
  then show ?thesis
    by (auto simp: guard_call_def guard_pre_def Let_def case_prod_beta split: if_splits)
qed

text \<open>A counter that goes up with every run and is checked before it bounds the runs.\<close>

lemma runs_bounded:
  fixes calls :: "'g \<Rightarrow> rat" and ran :: "'g \<Rightarrow> nat"
  assumes step: "\<And>g. holds g \<Longrightarrow> holds (call g) \<and> (ran (call g) = ran g \<and> calls (call g) = calls g \<or>
      ran (call g) = Suc (ran g) \<and> calls (call g) = calls g + 1 \<and> calls g < of_int m)"
    and "holds g" and "calls g = of_nat c"
  shows "holds ((call ^^ n) g) \<and> ran g \<le> ran ((call ^^ n) g) \<and>
    calls ((call ^^ n) g) = of_nat (c + (ran ((call ^^ n) g) - ran g)) \<and> ran ((call ^^ n) g) - ran g \<le> nat (m - int c)"
proof (induction n)
  case 0
  with assms show ?case by simp
next
  case (Suc n)
  define h where "h = (call ^^ n) g"
  have IH: "holds h" "ran g \<le> ran h" "calls h = of_nat (c + (ran h - ran g))" "ran h - ran g \<le> nat (m - int c)"
    using Suc by (simp_all add: h_def)
  have "holds (call h) \<and> ran g \<le> ran (call h) \<and> calls (call h) = of_nat (c + (ran (call h) - ran g)) \<and>
      ran (call h) - ran g \<le> nat (m - int c)"
  proof (cases "ran (call h) = ran h \<and> calls (call h) = calls h")
    case True
    with step [OF IH(1)] IH show ?thesis by simp
  next
    case False
    with step [OF IH(1)] have new: "holds (call h)" "ran (call h) = Suc (ran h)" "calls (call h) = calls h + 1"
      and "calls h < of_int m" by auto
    with IH(3) have "(of_int (int (c + (ran h - ran g))) :: rat) < of_int m" by simp
    then have "int (c + (ran h - ran g)) < m" by (simp only: of_int_less_iff)
    with new IH show ?thesis by (simp add: Suc_diff_le)
  qed
  then show ?case by (simp add: h_def)
qed

lemma sql_replace_get: "dget (sql_replace k v t) k' = (if k' = k then Some v else dget t k')"
  by (auto simp: sql_replace_def map_add_def dget_ddel split: option.splits)

lemma sql_replace_ok: "dict_ok t \<Longrightarrow> dict_ok (sql_replace k v t)"
  by (simp add: sql_replace_def dict_ok_def AList.delete_eq distinct_map_filter) (auto simp: distinct_map_filter)

lemma reload_dict: "dict_ok t \<Longrightarrow> dget (fold (\<lambda>(k, p). dset k p) t []) k = dget t k"
proof -
  assume "dict_ok t"
  then have "map_of (rev t) k = Some v \<longleftrightarrow> map_of t k = Some v" for v
    by (simp add: dict_ok_def map_of_eq_Some_iff rev_map [symmetric])
  then have "map_of (rev t) k = map_of t k" by (metis not_Some_eq)
  then show ?thesis by (simp add: dget_fold_dset split: option.splits)
qed

lemma sql_replace_new: "k \<notin> fst ` set t \<Longrightarrow> sql_replace k v t = t @ [(k, v)]"
  by (simp add: sql_replace_def delete_id)

lemma writes_mirror:
  "sec_mirror st ids \<Longrightarrow> distinct (ids @ [ae_entry_id e. WAudit e \<leftarrow> ws]) \<Longrightarrow>
     sec_mirror (fold do_write ws st) (ids @ [ae_entry_id e. WAudit e \<leftarrow> ws])"
proof (induction ws arbitrary: st ids)
  case Nil
  then show ?case by simp
next
  case (Cons w ws)
  obtain d where d: "ss_db st = Some d" "dict_ok (sdb_policies d)" "\<And>k. dget (sdb_policies d) k = dget (ss_policies st) k"
      "sdb_audit d = map (\<lambda>e. (ae_entry_id e, e)) (ss_audit st)" "map ae_entry_id (ss_audit st) = ids"
    using Cons.prems(1) by (auto simp: sec_mirror_def)
  show ?case
  proof (cases w)
    case (WPolicy k sp)
    with d have "sec_mirror (do_write w st) ids"
      by (simp add: sec_mirror_def put_policy_def sql_replace_get sql_replace_ok dget_dset)
    with Cons WPolicy show ?thesis by simp
  next
    case (WGrant k q)
    with d have "sec_mirror (do_write w st) ids" by (simp add: sec_mirror_def put_grant_def)
    with Cons WGrant show ?thesis by simp
  next
    case (WAudit e)
    have "ae_entry_id e \<notin> fst ` set (sdb_audit d)"
      using Cons.prems(2) d(4,5) WAudit by (auto simp: image_image)
    with d WAudit have "sec_mirror (do_write w st) (ids @ [ae_entry_id e])"
      by (simp add: sec_mirror_def put_audit_def sql_replace_new)
    with Cons.IH [of "do_write w st" "ids @ [ae_entry_id e]"] Cons.prems WAudit show ?thesis by simp
  qed
qed

text \<open>A guard built over a store does not read the policies and grants the store holds.\<close>

lemma restart_forgets_policies: "check (guard_init snk (Some st) limit) princ action resource"
  by (simp add: check_def guard_init_def dget_or_def)

text \<open>The ids of the grants table run the three parts together, so two grants may share a row.\<close>

lemma grant_ids_collide:
  "grant_id ''c'' \<lparr>perm_action = ''execute'', perm_resource = ''a:b''\<rparr> =
   grant_id ''b:c'' \<lparr>perm_action = ''execute'', perm_resource = ''a''\<rparr>"
  by (simp add: grant_id_def)

section \<open>Properties\<close>

text \<open>
  C31: a denied call does not run. Whatever the handler is, a call the permissions do not allow
  raises \<open>PermissionDeniedError\<close>, leaves the policies, the grants, the usage counters and everything
  outside the guard as they were, and publishes the audit entry followed by \<open>PermissionDenied\<close>.
\<close>

theorem denied_not_run:
  assumes "\<not> check g k a r"
  shows "\<exists>g'. guard_call clock isofmt uid handler k a (Some r) g =
           (Inl (PermissionDeniedError (''permission denied: '' @ a @ '' on '' @ r @ '' for '' @ k)), g') \<and>
           guard.more g' = guard.more g \<and> g_usage g' = g_usage g \<and> g_policies g' = g_policies g \<and>
           g_grants g' = g_grants g \<and>
           snk_bus (g_sink g') = map_option (\<lambda>es. es @
             [SecEv (AuditLogEntry uid k a r ''denied'' (isofmt (clock g))), SecEv (PermissionDenied k a r)]) (snk_bus (g_sink g))"
  using assms
  by (simp add: guard_call_def guard_pre_def Let_def)
     (simp add: g_emit_def audit_record_def audit_push_def Let_def option.map_comp o_def)

theorem denied_not_run_witness:
  "let g = register_policy (\<lambda>_. []) ''p'' \<lparr>sp_permissions = [], sp_resource_limits = default_resource_limit\<rparr>
             (guard_init wired None 10)
   in \<exists>g'. guard_call (\<lambda>_. 0) (\<lambda>_. []) ''u'' (\<lambda>g. (Inr (), g)) ''p'' ''execute'' (Some ''x'') g =
        (Inl (PermissionDeniedError ''permission denied: execute on x for p''), g') \<and> g_usage g' = g_usage g"
proof -
  let ?g = "register_policy (\<lambda>_. []) ''p'' \<lparr>sp_permissions = [], sp_resource_limits = default_resource_limit\<rparr>
             (guard_init wired None 10)"
  have "\<not> check ?g ''p'' ''execute'' ''x''"
    by (simp add: register_policy_def guard_init_def check_def Let_def policy_allows_def dget_or_def)
  from denied_not_run [OF this, of "\<lambda>_. 0" "\<lambda>_. []" "''u''" "\<lambda>g. (Inr (), g)"] show ?thesis
    by (auto simp: Let_def)
qed

text \<open>
  Every guarded call leaves exactly one audit entry, and the entry says how the call ended. The
  entry carries the caller, the action and the resource, its result is \<open>denied\<close>,
  \<open>limit_exceeded\<close>, \<open>error\<close> or \<open>allowed\<close> as the call was, and it is pushed on the audit
  buffer and written to the store, on top of what the handler left there if the handler ran. An
  interrupted handler is audited as \<open>error\<close>.
\<close>

theorem call_audited:
  "\<exists>e. ae_entry_id e = uid \<and> ae_who e = k \<and> ae_action e = a \<and> ae_resource e = r \<and>
       ae_result e = verdict g k a r (fst (handler g)) \<and>
       (let g' = snd (guard_call clock isofmt uid handler k a (Some r) g);
            g1 = (if check g k a r \<and> fst (resource_ok g k) then snd (handler g) else g)
        in g_audit g' = ring_push (g_audit_limit g1) e (g_audit g1) \<and>
           g_store g' = map_option (put_audit e) (g_store g1))"
proof (cases "check g k a r \<and> fst (resource_ok g k)")
  case True
  obtain res g2 where h: "handler g = (res, g2)" by (cases "handler g")
  let ?g3 = "accrue k (max 0 (of_int (clock g2 - clock g) / 1000)) g2"
  from True h show ?thesis
    by (intro exI [of _ "\<lparr>ae_entry_id = uid, ae_who = k, ae_action = a, ae_resource = r,
        ae_result = verdict g k a r res, ae_timestamp = clock ?g3, ae_detail = []\<rparr>"])
       (auto simp: guard_call_def guard_pre_def guard_exit_def guard_post_def verdict_def audit_record_def
          audit_push_def g_emit_def Let_def case_prod_beta split: sum.splits)
next
  case False
  let ?e = "\<lambda>d. \<lparr>ae_entry_id = uid, ae_who = k, ae_action = a, ae_resource = r,
        ae_result = verdict g k a r (fst (handler g)), ae_timestamp = clock g, ae_detail = d\<rparr>"
  from False show ?thesis
    by (intro exI [of _ "?e (if check g k a r then snd (resource_ok g k) else [])"])
       (auto simp: guard_call_def guard_pre_def verdict_def audit_record_def audit_push_def g_emit_def
          Let_def case_prod_beta)
qed

text \<open>
  The call limit holds for calls made one after the other. Let a sandboxed package make any
  number of guarded calls, with any outcomes: the handler runs at most \<open>max_calls\<close> times less the
  calls already on the counter, and the counter counts the runs exactly.
\<close>

theorem sequential_call_limit:
  fixes g :: "nat guard_scheme"
  assumes "dget (g_policies g) k = Some sp" and "us_calls (dget_or (g_usage g) k no_usage) = of_nat c"
  shows "let call = (\<lambda>g. snd (guard_call clock isofmt uid (\<lambda>g. (out (guard.more g), guard.more_update Suc g)) k a (Some r) g));
             g' = (call ^^ n) g; ran = guard.more g' - guard.more g
         in guard.more g \<le> guard.more g' \<and> us_calls (dget_or (g_usage g') k no_usage) = of_nat (c + ran) \<and>
            ran \<le> nat (rl_max_calls (sp_resource_limits sp) - int c)"
proof -
  define call where "call = (\<lambda>g. snd (guard_call clock isofmt uid
      (\<lambda>g :: nat guard_scheme. (out (guard.more g), guard.more_update Suc g)) k a (Some r) g))"
  have step: "dget (g_policies (call h)) k = Some sp \<and>
      (guard.more (call h) = guard.more h \<and>
         us_calls (dget_or (g_usage (call h)) k no_usage) = us_calls (dget_or (g_usage h) k no_usage) \<or>
       guard.more (call h) = Suc (guard.more h) \<and>
         us_calls (dget_or (g_usage (call h)) k no_usage) = us_calls (dget_or (g_usage h) k no_usage) + 1 \<and>
         us_calls (dget_or (g_usage h) k no_usage) < of_int (rl_max_calls (sp_resource_limits sp)))"
    if "dget (g_policies h) k = Some sp" for h
    using counted_call [OF that, where clock = clock and isofmt = isofmt and uid = uid and out = out and a = a and r = r] that
    by (simp add: Let_def call_def)
  show ?thesis
    using runs_bounded [where holds = "\<lambda>g. dget (g_policies g) k = Some sp" and call = call and ran = guard.more
        and calls = "\<lambda>g. us_calls (dget_or (g_usage g) k no_usage)", OF step assms, of n]
    by (simp add: Let_def call_def)
qed

theorem sequential_call_limit_witness:
  "let sp = \<lparr>sp_permissions = [\<lparr>perm_action = ''execute'', perm_resource = ''*''\<rparr>],
             sp_resource_limits = default_resource_limit\<lparr>rl_max_calls := 2\<rparr>\<rparr>;
       g = guard.extend ((guard_init unwired None 10)\<lparr>g_policies := [(''p'', sp)]\<rparr>) (0 :: nat);
       call = (\<lambda>g. snd (guard_call (\<lambda>_. 0) (\<lambda>_. []) ''u'' (\<lambda>g. (Inr () :: exn + unit, guard.more_update Suc g)) ''p'' ''execute'' (Some ''x'') g))
   in guard.more ((call ^^ 5) g) \<le> 2"
  using sequential_call_limit
    [of "guard.extend ((guard_init unwired None 10)\<lparr>g_policies := [(''p'',
           \<lparr>sp_permissions = [\<lparr>perm_action = ''execute'', perm_resource = ''*''\<rparr>],
            sp_resource_limits = default_resource_limit\<lparr>rl_max_calls := 2\<rparr>\<rparr>)]\<rparr>) (0 :: nat)" "''p''" _ 0
        "\<lambda>_. 0" "\<lambda>_. []" "''u''" "\<lambda>_. Inr () :: exn + unit" "''execute''" "''x''" 5]
  by (simp add: Let_def guard.defs guard_init_def dget_or_def no_usage_def)

text \<open>
  What a grant does. For a principal that already has a policy or a grant it adds the permission
  and takes nothing away. For a principal with neither, who was allowed everything, it leaves only
  what the new permission matches. Other principals are not affected.
\<close>

theorem grant_effect:
  "check (grant k p g) k' a r =
     (if k' \<noteq> k then check g k' a r
      else if sandboxed g k then check g k a r \<or> perm_matches p a r
      else perm_matches p a r)"
  by (auto simp: check_iff sandboxed_def grant_def dmod_def)

text \<open>
  The audit buffer keeps the newest entries. After any sequence of audit records on an empty
  buffer it holds exactly the last \<open>audit_limit\<close> of them in order, if the limit is positive; with a
  limit of zero it is never trimmed and holds them all.
\<close>

theorem audit_buffer_newest:
  assumes "g_audit g = []" and "0 \<le> g_audit_limit g"
  shows "g_audit (fold audit_push es g) =
           (if g_audit_limit g = 0 then es else drop (length es - nat (g_audit_limit g)) es)"
proof (cases "g_audit_limit g = 0")
  case True
  with assms(1) show ?thesis by (simp add: audit_ring.pushes_unbounded)
next
  case False
  with assms show ?thesis by (simp add: audit_ring.pushes_items)
qed

theorem audit_buffer_newest_witness:
  "let e = (\<lambda>i. \<lparr>ae_entry_id = i, ae_who = ''p'', ae_action = ''execute'', ae_resource = ''x'',
                 ae_result = ''allowed'', ae_timestamp = 0, ae_detail = []\<rparr>)
   in g_audit (fold audit_push [e ''1'', e ''2'', e ''3''] (guard_init unwired None 2)) = [e ''2'', e ''3'']"
  unfolding Let_def
  by (subst audit_buffer_newest) (simp_all add: guard_init_def)

text \<open>
  What was written to a durable store is there after a restart. Open a store on an empty database
  and let it receive any policies, grants and audit entries, the entries with distinct ids: a store
  opened on the same database has the same policy for every package and the same audit log.
\<close>

theorem security_store_reload:
  assumes "distinct [ae_entry_id e. WAudit e \<leftarrow> ws]"
  shows "let st = fold do_write ws (sec_store_open (Some sec_db_empty)); st' = sec_store_open (ss_db st)
         in get_policy st' k = get_policy st k \<and> list_audit w t u st' = list_audit w t u st \<and> st' = sec_store_open (ss_db st')"
proof -
  define st where "st = fold do_write ws (sec_store_open (Some sec_db_empty))"
  have "sec_mirror st [ae_entry_id e. WAudit e \<leftarrow> ws]"
    using writes_mirror [of "sec_store_open (Some sec_db_empty)" "[]" ws] assms
    by (simp add: st_def sec_mirror_def sec_store_open_def sec_db_empty_def)
  then show ?thesis
    unfolding st_def [symmetric]
    by (auto simp: Let_def sec_mirror_def get_policy_def list_audit_def sec_store_open_def reload_dict o_def)
qed

theorem security_store_reload_witness:
  "let sp = \<lparr>sp_permissions = [], sp_resource_limits = default_resource_limit\<rparr>;
       st = fold do_write [WPolicy ''p'' sp] (sec_store_open (Some sec_db_empty))
   in get_policy (sec_store_open (ss_db st)) ''p'' = Some sp"
  using security_store_reload [of "[WPolicy ''p'' \<lparr>sp_permissions = [], sp_resource_limits = default_resource_limit\<rparr>]" "''p''" None None None]
  by (simp add: Let_def put_policy_def get_policy_def)

end
