(* ===== verification/Sandbox.thy ===== *)
theory Sandbox
  imports Events
begin

text \<open>
  The execution sandbox: \<open>kernel/sandbox.py\<close> and the policy model of \<open>kernel/domain.py\<close>.

  \<^item> \<open>sandbox\<close> is \<open>Sandbox\<close>: its only state is the sink; it is extensible, and the guarded coroutine
    and the cleanup hook run on the sandbox with whatever else they change as its extension.
  \<^item> A coroutine is a function on the state. If it is cancelled it ends in \<open>CancelledError\<close>, and
    \<open>wait_for\<close> turns that into a \<open>TimeoutError\<close> when the time was up.
  \<^item> \<open>probes\<close> are what the monitor reads off the machine: the monotonic clock, the resident memory
    if \<open>psutil\<close> is installed, and \<open>os.sysconf(os.SC_OPEN_MAX)\<close> if the module has that name.
\<close>

section \<open>Definitions\<close>

record exec_policy =
  ep_max_cpu_time_ms :: int
  ep_max_memory_mb :: int
  ep_max_file_size_mb :: int
  ep_max_files_open :: int
  ep_allow_network :: bool
  ep_allow_subprocess :: bool
  ep_timeout_seconds :: rat
  ep_max_retries :: int

definition default_exec_policy :: exec_policy where
  "default_exec_policy =
     \<lparr>ep_max_cpu_time_ms = 30000, ep_max_memory_mb = 512, ep_max_file_size_mb = 100, ep_max_files_open = 64,
      ep_allow_network = True, ep_allow_subprocess = False, ep_timeout_seconds = 30, ep_max_retries = 0\<rparr>"

definition policy_serialized :: "exec_policy \<Rightarrow> pydict" where
  "policy_serialized p =
     [(''max_cpu_time_ms'', PInt (ep_max_cpu_time_ms p)), (''max_memory_mb'', PInt (ep_max_memory_mb p)),
      (''max_file_size_mb'', PInt (ep_max_file_size_mb p)), (''max_files_open'', PInt (ep_max_files_open p)),
      (''allow_network'', PBool (ep_allow_network p)), (''allow_subprocess'', PBool (ep_allow_subprocess p)),
      (''timeout_seconds'', PFloat (ep_timeout_seconds p)), (''max_retries'', PInt (ep_max_retries p))]"

record violation =
  vi_policy :: exec_policy
  vi_type :: string
  vi_details :: pydict

text \<open>The errors; \<open>fmt\<close> prints the serialized policy.\<close>

definition SandboxError :: "(pydict \<Rightarrow> string) \<Rightarrow> violation \<Rightarrow> exn" where
  "SandboxError fmt v =
     std_exn [''SandboxError''] (''Sandbox '' @ vi_type v @ '' (policy='' @ fmt (policy_serialized (vi_policy v)) @ '')'')"

definition SandboxTimeoutError :: "(pydict \<Rightarrow> string) \<Rightarrow> violation \<Rightarrow> exn" where
  "SandboxTimeoutError fmt v =
     std_exn [''SandboxTimeoutError'', ''SandboxError'']
       (''Sandbox '' @ vi_type v @ '' (policy='' @ fmt (policy_serialized (vi_policy v)) @ '')'')"

record 's probes =
  pr_mono :: "'s \<Rightarrow> seconds"
  pr_rss_mb :: "('s \<Rightarrow> rat) option"
  pr_open_max :: "int option"

record monitor_state =
  ms_start :: seconds
  ms_peak_mb :: rat

definition current_memory_mb :: "'s probes \<Rightarrow> 's \<Rightarrow> rat" where
  "current_memory_mb pr s = (case pr_rss_mb pr of None \<Rightarrow> 0 | Some rss \<Rightarrow> rss s)"

definition monitor_start :: "'s probes \<Rightarrow> 's \<Rightarrow> monitor_state" where
  "monitor_start pr s = \<lparr>ms_start = pr_mono pr s, ms_peak_mb = current_memory_mb pr s\<rparr>"

definition elapsed_ms :: "'s probes \<Rightarrow> monitor_state \<Rightarrow> 's \<Rightarrow> rat" where
  "elapsed_ms pr m s = (pr_mono pr s - ms_start m) * 1000"

definition open_fds :: "'s probes \<Rightarrow> int" where
  "open_fds pr = (case pr_open_max pr of None \<Rightarrow> 0 | Some n \<Rightarrow> n)"

definition monitor_check :: "'s probes \<Rightarrow> monitor_state \<Rightarrow> exec_policy \<Rightarrow> 's \<Rightarrow> violation list" where
  "monitor_check pr m p s =
     (let cpu = elapsed_ms pr m s; peak = max (ms_peak_mb m) (current_memory_mb pr s); fds = open_fds pr;
          viol = (\<lambda>t d. \<lparr>vi_policy = p, vi_type = t, vi_details = d\<rparr>)
      in (if cpu > of_int (ep_max_cpu_time_ms p)
          then [viol ''cpu'' [(''elapsed_ms'', PFloat cpu), (''limit_ms'', PInt (ep_max_cpu_time_ms p))]] else []) @
         (if pr_rss_mb pr \<noteq> None \<and> peak > of_int (ep_max_memory_mb p)
          then [viol ''memory'' [(''peak_mb'', PFloat peak), (''limit_mb'', PInt (ep_max_memory_mb p))]] else []) @
         (if fds > ep_max_files_open p
          then [viol ''file'' [(''open_fds'', PInt fds), (''limit'', PInt (ep_max_files_open p))]] else []))"

text \<open>
  \<open>asyncio.wait_for\<close>: a deadline that has passed already means that the coroutine is never started;
  a coroutine that was cancelled once the time was up counts as timed out.
\<close>

definition wait_for_coro :: "('s \<Rightarrow> seconds) \<Rightarrow> ('s \<Rightarrow> ('v, 's) res) \<Rightarrow> seconds \<Rightarrow> 's \<Rightarrow> ('v, 's) res" where
  "wait_for_coro ticks coro timeout s =
     (if timeout \<le> 0 then (Inl (TimeoutError []), s)
      else
        (case coro s of
           (Inl x, s1) \<Rightarrow>
             (Inl (if catches ''CancelledError'' x \<and> ticks s1 - ticks s \<ge> timeout then TimeoutError [] else x), s1)
         | (Inr v, s1) \<Rightarrow> (Inr v, s1)))"

record sandbox =
  sb_sink :: sink

definition sb_emit :: "sandbox_event \<Rightarrow> 'a sandbox_scheme \<Rightarrow> 'a sandbox_scheme" where
  "sb_emit e s = s\<lparr>sb_sink := emit (SandboxEv e) (sb_sink s)\<rparr>"

definition breach ::
  "(pydict \<Rightarrow> string) \<Rightarrow> violation \<Rightarrow> ('a sandbox_scheme \<Rightarrow> (unit, 'a sandbox_scheme) res) option \<Rightarrow> string \<Rightarrow>
   'a sandbox_scheme \<Rightarrow> ('v, 'a sandbox_scheme) res" where
  "breach fmt v cleanup aggregate_id s =
     (let s1 = sb_emit (SandboxViolationEvent aggregate_id (vi_type v) (policy_serialized (vi_policy v)) (vi_details v)) s;
          raised = (if vi_type v = ''timeout'' then SandboxTimeoutError fmt v else SandboxError fmt v)
      in case (case cleanup of None \<Rightarrow> (Inr (), s1) | Some f \<Rightarrow> f s1) of
           (Inl x, s2) \<Rightarrow>
             if catches ''Exception'' x
             then (Inl raised, sb_emit (SandboxCleanupCompleted aggregate_id False (Some (exn_msg x))) s2)
             else (Inl x, s2)
         | (Inr _, s2) \<Rightarrow> (Inl raised, sb_emit (SandboxCleanupCompleted aggregate_id True None) s2))"

text \<open>\<open>(context or {}).get(k)\<close> tried for each key in turn, the first non-empty one wins.\<close>

definition sandbox_aggregate :: "(string, string) dict \<Rightarrow> string" where
  "sandbox_aggregate ctx =
     or_str (dget ctx ''aggregate_id'') (or_str (dget ctx ''agent_id'') (or_str (dget ctx ''workflow_id'') ''sandbox''))"

text \<open>
  \<open>Sandbox.run\<close>. A breach found by the check after the run is raised inside the \<open>try\<close>, where the
  clause for \<open>SandboxError\<close> passes it on.
\<close>

definition sandbox_run ::
  "('a sandbox_scheme) probes \<Rightarrow> (pydict \<Rightarrow> string) \<Rightarrow> ('a sandbox_scheme \<Rightarrow> ('v, 'a sandbox_scheme) res) \<Rightarrow> exec_policy \<Rightarrow>
   ('a sandbox_scheme \<Rightarrow> (unit, 'a sandbox_scheme) res) option \<Rightarrow> (string, string) dict \<Rightarrow>
   'a sandbox_scheme \<Rightarrow> ('v, 'a sandbox_scheme) res" where
  "sandbox_run pr fmt coro p cleanup ctx s =
     (let m = monitor_start pr s; agg = sandbox_aggregate ctx;
          viol = (\<lambda>t d. \<lparr>vi_policy = p, vi_type = t, vi_details = d\<rparr>)
      in case wait_for_coro (pr_mono pr) coro (ep_timeout_seconds p) s of
           (Inr r, s1) \<Rightarrow>
             (case monitor_check pr m p s1 of
                [] \<Rightarrow> (Inr r, s1)
              | v # _ \<Rightarrow> breach fmt v cleanup agg s1)
         | (Inl x, s1) \<Rightarrow>
             if catches ''TimeoutError'' x
             then breach fmt (viol ''timeout'' [(''timeout_seconds'', PFloat (ep_timeout_seconds p))]) cleanup agg s1
             else if catches ''SandboxError'' x then (Inl x, s1)
             else if catches ''Exception'' x then breach fmt (viol ''error'' [(''error'', PStr (exn_msg x))]) cleanup agg s1
             else (Inl x, s1))"

text \<open>The events a breach adds, and the states a cleanup hook may leave.\<close>

definition breach_events :: "string \<Rightarrow> violation \<Rightarrow> bool \<Rightarrow> string option \<Rightarrow> domain_event list" where
  "breach_events agg v ok err =
     [SandboxEv (SandboxViolationEvent agg (vi_type v) (policy_serialized (vi_policy v)) (vi_details v)),
      SandboxEv (SandboxCleanupCompleted agg ok err)]"

section \<open>Lemmas\<close>

lemma sandbox_exns [simp]:
  "catches c (SandboxError fmt v) \<longleftrightarrow> c \<in> {''SandboxError'', ''Exception'', ''BaseException'', ''object''}"
  "catches c (SandboxTimeoutError fmt v) \<longleftrightarrow>
     c \<in> {''SandboxTimeoutError'', ''SandboxError'', ''Exception'', ''BaseException'', ''object''}"
  by (auto simp: SandboxError_def SandboxTimeoutError_def std_exn_def)

lemma sb_emit_simps [simp]:
  "sb_sink (sb_emit e s) = emit (SandboxEv e) (sb_sink s)" "sandbox.more (sb_emit e s) = sandbox.more s"
  "sandbox.truncate (sb_emit e s) = sb_emit e (sandbox.truncate s)"
  by (simp_all add: sb_emit_def sandbox.truncate_def sandbox.make_def)

text \<open>
  A breach always raises: the sandbox error, unless the cleanup hook was cancelled. If the hook does
  not touch the sink, the breach adds exactly its two events.
\<close>

lemma breach_raises:
  assumes "\<forall>f \<in> set_option cleanup. \<forall>s. sb_sink (snd (f s)) = sb_sink s"
    and "breach fmt v cleanup agg s = (r, s')"
  shows "\<exists>x. r = Inl x \<and> (catches ''Exception'' x \<longrightarrow>
           catches ''SandboxError'' x \<and> (\<exists>ok err. sb_sink s' = emits (breach_events agg v ok err) (sb_sink s)))"
proof -
  let ?s1 = "sb_emit (SandboxViolationEvent agg (vi_type v) (policy_serialized (vi_policy v)) (vi_details v)) s"
  define c where "c = (case cleanup of None \<Rightarrow> (Inr (), ?s1) | Some f \<Rightarrow> f ?s1)"
  obtain o1 s2 where c: "c = (o1, s2)" by (cases c)
  have [simp]: "sb_sink s2 = sb_sink ?s1"
  proof (cases cleanup)
    case None
    with c show ?thesis by (simp add: c_def)
  next
    case (Some f)
    then have "f ?s1 = (o1, s2)" using c by (simp add: c_def)
    with Some assms(1) show ?thesis by (metis elem_set snd_conv)
  qed
  show ?thesis
    using assms(2) unfolding breach_def Let_def c_def [symmetric] breach_events_def c
    by (cases o1) (auto split: if_splits, blast+)
qed

section \<open>Properties\<close>

text \<open>
  C32: what leaves the sandbox. If neither the coroutine nor the cleanup hook emits through the
  sandbox's sink, then a run either returns what the coroutine returned and emits nothing; or raises
  a \<open>SandboxError\<close>, either the coroutine's own, with nothing emitted, or a new one that is announced
  by exactly one violation event and one cleanup event in this order; or passes on an exception that
  is no \<open>Exception\<close>, a cancellation. No other exception of the coroutine gets out.
\<close>

theorem sandbox_contains:
  assumes "\<forall>s. sb_sink (snd (coro s)) = sb_sink s"
    and "\<forall>f \<in> set_option cleanup. \<forall>s. sb_sink (snd (f s)) = sb_sink s"
  shows "let (r, s') = sandbox_run pr fmt coro p cleanup ctx s
         in case r of
              Inr v \<Rightarrow> coro s = (Inr v, s') \<and> sb_sink s' = sb_sink s
            | Inl x \<Rightarrow>
                catches ''Exception'' x \<longrightarrow>
                  catches ''SandboxError'' x \<and>
                  ((fst (coro s) = Inl x \<and> sb_sink s' = sb_sink s) \<or>
                   (\<exists>v ok err. vi_policy v = p \<and> sb_sink s' = emits (breach_events (sandbox_aggregate ctx) v ok err) (sb_sink s)))"
proof -
  obtain r s' where run: "sandbox_run pr fmt coro p cleanup ctx s = (r, s')" by (cases "sandbox_run pr fmt coro p cleanup ctx s")
  obtain w s1 where wait: "wait_for_coro (pr_mono pr) coro (ep_timeout_seconds p) s = (w, s1)"
    by (cases "wait_for_coro (pr_mono pr) coro (ep_timeout_seconds p) s")
  have sink: "sb_sink s1 = sb_sink s"
    using wait assms(1) by (auto simp: wait_for_coro_def split: prod.splits sum.splits if_splits) (metis snd_conv)+
  have ret: "coro s = (Inr v, s1)" if "w = Inr v" for v
    using wait that by (auto simp: wait_for_coro_def split: prod.splits sum.splits if_splits)
  have own: "fst (coro s) = Inl x" if "w = Inl x" "\<not> catches ''TimeoutError'' x" for x
    using wait that by (auto simp: wait_for_coro_def exn_simps split: prod.splits sum.splits if_splits)
  have viols: "vi_policy v = p" if "v \<in> set (monitor_check pr m p s1)" for m v
    using that by (auto simp: monitor_check_def Let_def split: if_splits)
  have breach: ?thesis if "breach fmt v cleanup (sandbox_aggregate ctx) s1 = (r, s')" and "vi_policy v = p" for v
    using breach_raises [OF assms(2) that(1)] that(2) sink run by (auto, blast+)
  show ?thesis
  proof (cases w)
    case (Inr v)
    show ?thesis
    proof (cases "monitor_check pr (monitor_start pr s) p s1")
      case Nil
      then have "sandbox_run pr fmt coro p cleanup ctx s = (Inr v, s1)"
        using wait Inr by (simp add: sandbox_run_def Let_def)
      with ret [OF Inr] sink show ?thesis by simp
    next
      case (Cons v' vs)
      have "vi_policy v' = p" using viols [of v' "monitor_start pr s"] Cons by simp
      moreover have "breach fmt v' cleanup (sandbox_aggregate ctx) s1 = (r, s')"
        using Cons run wait Inr by (simp add: sandbox_run_def Let_def)
      ultimately show ?thesis using breach by blast
    qed
  next
    case (Inl x)
    then consider (raise) v where "breach fmt v cleanup (sandbox_aggregate ctx) s1 = (r, s')" "vi_policy v = p"
      | (pass) "r = Inl x" "s' = s1" "\<not> catches ''TimeoutError'' x" "catches ''Exception'' x \<longrightarrow> catches ''SandboxError'' x"
      using run wait by (fastforce simp: sandbox_run_def Let_def split: if_splits)
    then show ?thesis
    proof cases
      case raise
      then show ?thesis by (rule breach)
    next
      case pass
      with own [OF Inl] sink run show ?thesis by simp
    qed
  qed
qed

theorem sandbox_contains_witness:
  "let pr = \<lparr>pr_mono = (\<lambda>_. 0), pr_rss_mb = None, pr_open_max = None\<rparr>;
       r = sandbox_run pr (\<lambda>_. []) (\<lambda>s. (Inl (KeyError ''k'') :: exn + unit, s)) default_exec_policy None [] \<lparr>sb_sink = wired\<rparr>
   in \<exists>x. fst r = Inl x \<and> catches ''SandboxError'' x"
  using sandbox_contains [where coro = "\<lambda>s. (Inl (KeyError ''k'') :: exn + unit, s)" and cleanup = None and
      pr = "\<lparr>pr_mono = (\<lambda>_. 0), pr_rss_mb = None, pr_open_max = None\<rparr>" and fmt = "\<lambda>_. []" and p = default_exec_policy and
      ctx = "[]" and s = "\<lparr>sb_sink = wired\<rparr>"]
  by (simp add: Let_def case_prod_beta sandbox_run_def wait_for_coro_def default_exec_policy_def breach_def exn_simps)

end
