(* ===== verification/Wrappers.thy ===== *)
theory Wrappers
  imports Resilience Guard Sandbox
begin

text \<open>
  Guard, circuit breaker, retries and sandbox are run around a body whose state is the \<open>more\<close> part of
  theirs. The engines that do so (\<open>kernel/workflow.py\<close>, \<open>kernel/agent.py\<close>) need to know what such a
  call does to their own state: exactly what the body, the hook and the pauses do.
\<close>

section \<open>Frames\<close>

lemma more_guard_pre: "guard_pre clock isofmt uid p a r g = (v, g') \<Longrightarrow> guard.more g' = guard.more g"
  by (auto simp: guard_pre_def audit_record_def audit_push_def g_emit_def Let_def split: if_splits prod.splits)

lemma more_guard_exit [simp]: "guard.more (guard_exit clock isofmt uid p a r st err g) = guard.more g"
  by (simp add: guard_exit_def guard_post_def accrue_def audit_record_def audit_push_def g_emit_def Let_def)

lemma more_circuit_enter: "circuit_enter clock name s = (v, s') \<Longrightarrow> resilience.more s' = resilience.more s"
  by (auto simp: circuit_enter_def register_circuit_def rs_mod_def rs_metric_def Let_def split: if_splits prod.splits)

lemma more_circuit_exit [simp]:
  "resilience.more (on_success i s) = resilience.more s" "resilience.more (on_failure clock i s) = resilience.more s"
  by (simp_all add: on_success_def on_failure_def opened_effects_def rs_emit_def rs_metric_def rs_persist_def rs_mod_def Let_def)

lemma more_extend [simp]:
  "guard.more (guard.extend g w) = w" "resilience.more (resilience.extend r w) = w" "sandbox.more (sandbox.extend s w) = w"
  by (simp_all add: guard.defs resilience.defs sandbox.defs)

section \<open>Calls\<close>

lemma guard_call_keeps:
  assumes "\<And>g. P (guard.more g) \<Longrightarrow> P (guard.more (snd (handler g)))" and "P (guard.more g)"
  shows "P (guard.more (snd (guard_call clock isofmt uid handler pkg action res g)))"
proof -
  have body: "handler g = (v, g') \<Longrightarrow> P (guard.more g) \<Longrightarrow> P (guard.more g')" for v g g' using assms(1) [of g] by simp
  show ?thesis
    using assms(2) by (auto simp: guard_call_def Let_def dest: more_guard_pre body split: prod.splits sum.splits) (metis body more_guard_pre)+
qed

lemma retry_loop_keeps:
  assumes "\<And>s. P (resilience.more s) \<Longrightarrow> P (resilience.more (snd (factory s)))" and "\<And>d s. P (resilience.more s) \<Longrightarrow> P (resilience.more (snd (sleep d s)))"
  shows "P (resilience.more s) \<Longrightarrow> P (resilience.more (snd (retry_loop clock sleep factory pol task_id tid n attempt err s)))"
proof (induction n arbitrary: s attempt err)
  case (Suc n)
  obtain r s1 where f: "factory s = (r, s1)" by (cases "factory s")
  then have p1: "P (resilience.more s1)" using assms(1) [OF Suc.prems] by simp
  show ?case
  proof (cases r)
    case (Inl x)
    show ?thesis
    proof (cases "\<not> catches ''Exception'' x \<or> \<not> is_retryable pol x \<or> attempt \<ge> rp_max_attempts pol")
      case True
      with f Inl p1 show ?thesis by (auto simp: Let_def)
    next
      case False
      let ?b = "backoff_for pol attempt"
      define s3 where "s3 = (let s2 = rs_metric ''res.retry_attempted'' [(''task'', tid)] (rs_emit (RetryAttempted tid attempt ?b (exc_text x)) s1)
        in s2\<lparr>rs_store := map_option (put_retry tid attempt ?b (exc_text x) (clock s2)) (rs_store s2)\<rparr>)"
      obtain q s4 where sl: "sleep (of_int ?b / 1000) s3 = (q, s4)" by (cases "sleep (of_int ?b / 1000) s3")
      have "P (resilience.more s3)" using p1 by (simp add: s3_def Let_def)
      then have p4: "P (resilience.more s4)" using assms(2) sl by (metis snd_conv)
      have "retry_loop clock sleep factory pol task_id tid (Suc n) attempt err s =
          (case q of Inl y \<Rightarrow> (Inl y, s4) | Inr _ \<Rightarrow> retry_loop clock sleep factory pol task_id tid n (attempt + 1) (exc_text x) s4)"
        using f Inl False sl by (simp add: s3_def Let_def split: sum.split)
      with p4 Suc.IH show ?thesis by (cases q) simp_all
    qed
  qed (use f p1 in simp)
qed simp

lemma breach_rel:
  assumes cl: "\<And>s. R s (snd (cl s))" and e: "\<And>s s' e. R s s' \<Longrightarrow> R s (sb_emit e s')"
    and refl: "\<And>s. R s s" and trans: "\<And>s t u. R s t \<Longrightarrow> R t u \<Longrightarrow> R s u"
  shows "R s (snd (breach fmt v (Some cl) agg s))"
proof -
  let ?s1 = "sb_emit (SandboxViolationEvent agg (vi_type v) (policy_serialized (vi_policy v)) (vi_details v)) s"
  obtain r s2 where c: "cl ?s1 = (r, s2)" by (cases "cl ?s1")
  have "R s s2" using trans [OF e [OF refl] cl [of ?s1]] c by simp
  then show ?thesis using c e by (auto simp: breach_def Let_def split: sum.splits)
qed

lemma sandbox_run_rel:
  assumes body: "\<And>s. R s (snd (coro s))" and cl: "\<And>s. R s (snd (cl s))" and e: "\<And>s s' e. R s s' \<Longrightarrow> R s (sb_emit e s')"
    and refl: "\<And>s. R s s" and trans: "\<And>s t u. R s t \<Longrightarrow> R t u \<Longrightarrow> R s u"
  shows "R s (snd (sandbox_run pr fmt coro p (Some cl) ctx s))"
proof -
  have wait: "R s s'" if "wait_for_coro t coro d s = (v, s')" for t d v s'
    using that body [of s] refl by (auto simp: wait_for_coro_def split: prod.splits sum.splits if_splits)
  have breach: "R s (snd (breach fmt v (Some cl) agg s'))" if "R s s'" for v agg s'
    using trans [OF that breach_rel [of R, OF cl e refl trans]] .
  show ?thesis
    by (auto simp: sandbox_run_def Let_def intro: breach dest!: wait split: prod.splits sum.splits list.splits)
qed

end
