(* ===== verification/Workflow.thy ===== *)
theory Workflow
  imports Dispatch Wrappers
begin

text \<open>
  The workflow engine: \<open>kernel/workflow.py\<close> and the workflow models of \<open>kernel/domain.py\<close>.

  \<^item> \<open>wf_engine\<close> is \<open>WorkflowEngine\<close> with the components it owns: the instances by id, the optional
    dead-letter queue, guard, resilience engine and sandbox. An instance object is named by its id in
    \<open>we_insts\<close>. \<open>we_env\<close> is the state of everything else.
  \<^item> \<open>wf_env\<close> collects what is called and not owned: the capability executor, the agent runtime, the
    MCP gateway, the vault, the marketplace, clocks and \<open>sleep\<close>, as functions on \<open>we_env\<close>.
  \<^item> The guard, the circuit breaker and the sandbox are the ones of their own theories: the engine
    runs as the extension of their records.
\<close>

section \<open>Data\<close>

datatype wf_status = DRAFT | PENDING | RUNNING | PAUSED | COMPLETED | FAILED | COMPENSATING

record step_retry =
  sr_max_attempts :: int
  sr_backoff_seconds :: rat
  sr_exponential :: bool

definition default_step_retry :: step_retry where
  "default_step_retry = \<lparr>sr_max_attempts = 3, sr_backoff_seconds = 1, sr_exponential = True\<rparr>"

record wf_step =
  wstep_id :: string
  wstep_name :: string
  wstep_capability :: string
  wstep_inputs :: "(string, string) dict"
  wstep_retry :: step_retry
  wstep_compensation :: "string option"
  wstep_approval :: bool
  wstep_timeout :: rat

record workflow =
  wf_id :: string
  wf_name :: string
  wf_steps :: "wf_step list"
  wf_context :: pydict
  wf_defaults :: "(string, pyval) dict option"

record wf_instance =
  wi_id :: string
  wi_workflow_id :: string
  wi_status :: wf_status
  wi_current :: "string option"
  wi_results :: pydict
  wi_attempts :: "(string, int) dict"
  wi_event_log :: "string list"
  wi_context :: pydict
  wi_started_at :: "datetime option"
  wi_completed_at :: "datetime option"

record wf_agent =
  wa_id :: string
  wa_capabilities :: "string list"

record wf_task =
  wt_name :: string
  wt_capability :: string
  wt_metadata :: pydict
  wt_workflow_id :: "string option"

record mcp_tool_ref =
  mt_server_url :: string
  mt_name :: string

record wf_package =
  pk_id :: string
  pk_capabilities :: "string list"

record 'e wf_env =
  wc_caps :: "string \<Rightarrow> pydict \<Rightarrow> 'e \<Rightarrow> (artifact, 'e) res"
  wc_agents :: "string \<Rightarrow> wf_task \<Rightarrow> 'e \<Rightarrow> (artifact, 'e) res"
  wc_mcp :: "((string \<Rightarrow> 'e \<Rightarrow> mcp_tool_ref option) \<times> (string \<Rightarrow> string \<Rightarrow> pydict \<Rightarrow> 'e \<Rightarrow> (artifact, 'e) res)) option"
  wc_vault :: "((string \<Rightarrow> pydict \<Rightarrow> 'e \<Rightarrow> (pydict, 'e) res) \<times> (string \<Rightarrow> string \<Rightarrow> pyval \<Rightarrow> 'e \<Rightarrow> (unit, 'e) res)) option"
  wc_market :: "(('e \<Rightarrow> wf_package list) \<times> ('e \<Rightarrow> wf_package list)) option"
  wc_now :: "'e \<Rightarrow> datetime"
  wc_mono :: "'e \<Rightarrow> seconds"
  wc_uid :: "'e \<Rightarrow> string"
  wc_sleep :: "rat \<Rightarrow> 'e \<Rightarrow> (unit, 'e) res"
  wc_rss_mb :: "('e \<Rightarrow> rat) option"
  wc_open_max :: "int option"
  wc_isofmt :: "datetime \<Rightarrow> string"
  wc_policy_str :: "pydict \<Rightarrow> string"
  wc_policy_of :: "pydict \<Rightarrow> exn + exec_policy"

record 'e wf_engine =
  we_sink :: sink
  we_insts :: "(string, wf_instance) dict"
  we_dlq :: "dlq option"
  we_guard :: "guard option"
  we_res :: "resilience option"
  we_sandbox :: "sandbox option"
  we_env :: 'e

section \<open>Lookups\<close>

fun step_by_id :: "wf_step list \<Rightarrow> string \<Rightarrow> wf_step option" where
  "step_by_id [] i = None"
| "step_by_id (s # ss) i = (if wstep_id s = i then Some s else step_by_id ss i)"

fun step_index_from :: "int \<Rightarrow> wf_step list \<Rightarrow> string \<Rightarrow> int" where
  "step_index_from n [] i = - 1"
| "step_index_from n (s # ss) i = (if wstep_id s = i then n else step_index_from (n + 1) ss i)"

definition step_index :: "workflow \<Rightarrow> string \<Rightarrow> int" where
  "step_index flow i = step_index_from 0 (wf_steps flow) i"

definition current_step :: "workflow \<Rightarrow> wf_instance \<Rightarrow> wf_step option" where
  "current_step flow inst = (case wi_current inst of None \<Rightarrow> None | Some i \<Rightarrow> step_by_id (wf_steps flow) i)"

definition advance :: "workflow \<Rightarrow> wf_instance \<Rightarrow> wf_instance" where
  "advance flow inst =
     (case wi_current inst of
        None \<Rightarrow> inst
      | Some cur \<Rightarrow>
          (let idx = step_index flow cur
           in if idx \<ge> 0 \<and> idx + 1 < int (length (wf_steps flow))
              then inst\<lparr>wi_current := Some (wstep_id (wf_steps flow ! nat (idx + 1)))\<rparr>
              else inst\<lparr>wi_current := None\<rparr>))"

text \<open>\<open>"<step_id>.output.<field>"\<close> reads a field of an earlier result; anything else is the value itself.\<close>

definition resolve_ref :: "wf_instance \<Rightarrow> string \<Rightarrow> pyval" where
  "resolve_ref inst ref =
     (let parts = split_on (CHR ''.'') ref
      in if length parts \<ge> 3 \<and> parts ! 1 = ''output''
         then (case dget (wi_results inst) (parts ! 0) of
                 Some (PDict d) \<Rightarrow> (case dget d (parts ! 2) of None \<Rightarrow> PNone | Some v \<Rightarrow> v)
               | _ \<Rightarrow> PNone)
         else PStr ref)"

definition resolve_inputs :: "wf_step \<Rightarrow> wf_instance \<Rightarrow> pydict" where
  "resolve_inputs step inst = map (\<lambda>(k, ref). (k, resolve_ref inst ref)) (wstep_inputs step)"

definition resolve_policy :: "'e wf_env \<Rightarrow> wf_step \<Rightarrow> workflow \<Rightarrow> exn + exec_policy" where
  "resolve_policy c step flow =
     (if wstep_timeout step \<noteq> 0 \<and> wstep_timeout step < 30
      then Inr (default_exec_policy\<lparr>ep_timeout_seconds := wstep_timeout step\<rparr>)
      else
        (case dget (wf_context flow) ''sandbox_policy'' of
           Some (PDict d) \<Rightarrow> wc_policy_of c (filter (\<lambda>(k, _). k \<in> set (dkeys (policy_serialized default_exec_policy))) d)
         | _ \<Rightarrow> Inr default_exec_policy))"

section \<open>The engine's state\<close>

definition inst_of :: "'e wf_engine \<Rightarrow> string \<Rightarrow> wf_instance" where
  "inst_of w iid = the (dget (we_insts w) iid)"

definition wi_mod :: "string \<Rightarrow> (wf_instance \<Rightarrow> wf_instance) \<Rightarrow> 'e wf_engine \<Rightarrow> 'e wf_engine" where
  "wi_mod iid f w =
     (case dget (we_insts w) iid of
        None \<Rightarrow> w
      | Some inst \<Rightarrow> w\<lparr>we_insts := dset iid (f inst) (we_insts w)\<rparr>)"

definition set_status :: "string \<Rightarrow> wf_status \<Rightarrow> 'e wf_engine \<Rightarrow> 'e wf_engine" where
  "set_status iid st = wi_mod iid (\<lambda>i. i\<lparr>wi_status := st\<rparr>)"

definition we_emit :: "domain_event \<Rightarrow> 'e wf_engine \<Rightarrow> 'e wf_engine" where
  "we_emit e w = w\<lparr>we_sink := emit e (we_sink w)\<rparr>"

definition get_instance :: "'e wf_engine \<Rightarrow> string \<Rightarrow> exn + wf_instance" where
  "get_instance w iid =
     (case dget (we_insts w) iid of
        None \<Rightarrow> Inl (KeyError (''workflow instance '' @ quoted iid @ '' not found''))
      | Some inst \<Rightarrow> Inr inst)"

text \<open>A call to a collaborator.\<close>

definition call_env :: "('e \<Rightarrow> ('v, 'e) res) \<Rightarrow> 'e wf_engine \<Rightarrow> ('v, 'e wf_engine) res" where
  "call_env f w = (case f (we_env w) of (r, e) \<Rightarrow> (r, w\<lparr>we_env := e\<rparr>))"

text \<open>\<open>start\<close>: the new instance, the workflow with its updated context, and the defaults put in the vault.\<close>

fun seed_vault ::
  "(string \<Rightarrow> string \<Rightarrow> pyval \<Rightarrow> 'e \<Rightarrow> (unit, 'e) res) \<Rightarrow> string \<Rightarrow> (string, pyval) dict \<Rightarrow> 'e wf_engine \<Rightarrow> (unit, 'e wf_engine) res" where
  "seed_vault vset iid [] w = (Inr (), w)"
| "seed_vault vset iid ((k, v) # kvs) w =
     (case call_env (vset iid k v) w of (Inl x, w1) \<Rightarrow> (Inl x, w1) | (Inr _, w1) \<Rightarrow> seed_vault vset iid kvs w1)"

definition wf_start ::
  "'e wf_env \<Rightarrow> string \<Rightarrow> pydict \<Rightarrow> workflow \<Rightarrow> 'e wf_engine \<Rightarrow> (string \<times> workflow, 'e wf_engine) res" where
  "wf_start c iid context flow w =
     (let inst = \<lparr>wi_id = iid, wi_workflow_id = wf_id flow, wi_status = RUNNING,
                  wi_current = (case wf_steps flow of [] \<Rightarrow> None | s # _ \<Rightarrow> Some (wstep_id s)),
                  wi_results = [], wi_attempts = [], wi_event_log = [], wi_context = [],
                  wi_started_at = Some (wc_now c (we_env w)), wi_completed_at = None\<rparr>;
          flow1 = (if context = [] then flow else flow\<lparr>wf_context := dupdate (wf_context flow) context\<rparr>);
          w1 = w\<lparr>we_insts := dset iid inst (we_insts w)\<rparr>
      in case (wc_vault c, wf_defaults flow) of
           (Some (_, vset), Some defaults) \<Rightarrow>
             (case seed_vault vset iid defaults w1 of (Inl x, w2) \<Rightarrow> (Inl x, w2) | (Inr _, w2) \<Rightarrow> (Inr (iid, flow1), w2))
         | _ \<Rightarrow> (Inr (iid, flow1), w1))"

section \<open>Running a step\<close>

text \<open>The circuit breaker, the guard and the sandbox around a body that runs on the engine.\<close>

definition in_circuit ::
  "'e wf_env \<Rightarrow> string \<Rightarrow> ('e wf_engine \<Rightarrow> ('v, 'e wf_engine) res) \<Rightarrow> 'e wf_engine \<Rightarrow> ('v, 'e wf_engine) res" where
  "in_circuit c name body w =
     (case we_res w of
        None \<Rightarrow> body w
      | Some r \<Rightarrow>
          (case call_with_circuit (\<lambda>s. wc_now c (we_env (resilience.more s))) name
                  (\<lambda>s. case body (resilience.more s) of (v, w1) \<Rightarrow> (v, resilience.extend (resilience.truncate s) w1))
                  (resilience.extend r w) of
             (v, s) \<Rightarrow> (v, (resilience.more s)\<lparr>we_res := Some (resilience.truncate s)\<rparr>)))"

definition in_guard ::
  "'e wf_env \<Rightarrow> guard \<Rightarrow> string \<Rightarrow> string \<Rightarrow> string \<Rightarrow> ('e wf_engine \<Rightarrow> ('v, 'e wf_engine) res) \<Rightarrow> 'e wf_engine \<Rightarrow> ('v, 'e wf_engine) res" where
  "in_guard c g pkg action resource body w =
     (case guard_call (\<lambda>g. wc_now c (we_env (guard.more g))) (wc_isofmt c) (wc_uid c (we_env w))
             (\<lambda>g. case body (guard.more g) of (v, w1) \<Rightarrow> (v, guard.extend (guard.truncate g) w1))
             pkg action (Some resource) (guard.extend g w) of
        (v, g1) \<Rightarrow> (v, (guard.more g1)\<lparr>we_guard := Some (guard.truncate g1)\<rparr>))"

definition in_sandbox ::
  "'e wf_env \<Rightarrow> sandbox \<Rightarrow> exec_policy \<Rightarrow> ('e wf_engine \<Rightarrow> (unit, 'e wf_engine) res) \<Rightarrow> (string, string) dict \<Rightarrow>
   ('e wf_engine \<Rightarrow> ('v, 'e wf_engine) res) \<Rightarrow> 'e wf_engine \<Rightarrow> ('v, 'e wf_engine) res" where
  "in_sandbox c sb p cleanup ctx body w =
     (case sandbox_run
             \<lparr>pr_mono = (\<lambda>s. wc_mono c (we_env (sandbox.more s))),
              pr_rss_mb = map_option (\<lambda>rss s. rss (we_env (sandbox.more s))) (wc_rss_mb c), pr_open_max = wc_open_max c\<rparr>
             (wc_policy_str c)
             (\<lambda>s. case body (sandbox.more s) of (v, w1) \<Rightarrow> (v, sandbox.extend (sandbox.truncate s) w1)) p
             (Some (\<lambda>s. case cleanup (sandbox.more s) of (v, w1) \<Rightarrow> (v, sandbox.extend (sandbox.truncate s) w1))) ctx
             (sandbox.extend sb w) of
        (v, s) \<Rightarrow> (v, (sandbox.more s)\<lparr>we_sandbox := Some (sandbox.truncate s)\<rparr>))"

definition is_mcp :: "wf_step \<Rightarrow> bool" where
  "is_mcp step \<longleftrightarrow> wstep_capability step \<noteq> [] \<and> startswith ''mcp:'' (wstep_capability step)"

text \<open>The instance is optional: a compensation step runs without one.\<close>

definition run_mcp_step ::
  "'e wf_env \<Rightarrow> (string \<Rightarrow> 'e \<Rightarrow> mcp_tool_ref option) \<times> (string \<Rightarrow> string \<Rightarrow> pydict \<Rightarrow> 'e \<Rightarrow> (artifact, 'e) res) \<Rightarrow>
   wf_step \<Rightarrow> pydict \<Rightarrow> string option \<Rightarrow> 'e wf_engine \<Rightarrow> (artifact, 'e wf_engine) res" where
  "run_mcp_step c mcp step params iid w =
     (let capability = wstep_capability step;
          target = (case split_once ''::'' (drop 4 capability) of
                      Some (server, tool) \<Rightarrow> Inr (server, tool)
                    | None \<Rightarrow>
                        (case fst mcp capability (we_env w) of
                           None \<Rightarrow> Inl (KeyError (''no MCP tool resolves capability '' @ quoted capability))
                         | Some tool \<Rightarrow> Inr (mt_server_url tool, mt_name tool)))
      in case target of
           Inl x \<Rightarrow> (Inl x, w)
         | Inr (server, tool) \<Rightarrow>
             (case call_env (snd mcp server tool params) w of
                (Inl x, w1) \<Rightarrow> (Inl x, w1)
              | (Inr a, w1) \<Rightarrow>
                  (let latency = (wc_mono c (we_env w1) - wc_mono c (we_env w)) * 1000
                   in (Inr a, case iid of
                                None \<Rightarrow> w1
                              | Some i \<Rightarrow> wi_mod i (\<lambda>inst. inst\<lparr>wi_context := dset ''mcp_latency_ms'' (PFloat latency) (wi_context inst)\<rparr>) w1))))"

definition run_step_inner ::
  "'e wf_env \<Rightarrow> wf_step \<Rightarrow> pydict \<Rightarrow> wf_agent option \<Rightarrow> string option \<Rightarrow> 'e wf_engine \<Rightarrow> (artifact, 'e wf_engine) res" where
  "run_step_inner c step params agent iid w =
     (case (if is_mcp step then wc_mcp c else None) of
        Some mcp \<Rightarrow> run_mcp_step c mcp step params iid w
      | None \<Rightarrow>
          (case agent of
             Some a \<Rightarrow>
               if wstep_capability step \<in> set (wa_capabilities a)
               then call_env (wc_agents c (wa_id a) \<lparr>wt_name = wstep_name step, wt_capability = wstep_capability step,
                                wt_metadata = params, wt_workflow_id = iid\<rparr>) w
               else call_env (wc_caps c (wstep_capability step) params) w
           | None \<Rightarrow> call_env (wc_caps c (wstep_capability step) params) w))"

definition run_step ::
  "'e wf_env \<Rightarrow> wf_step \<Rightarrow> pydict \<Rightarrow> wf_agent option \<Rightarrow> string option \<Rightarrow> 'e wf_engine \<Rightarrow> (artifact, 'e wf_engine) res" where
  "run_step c step params agent iid w =
     (let wid = (case iid of None \<Rightarrow> ''unknown'' | Some i \<Rightarrow> wi_workflow_id (inst_of w i))
      in in_circuit c (''wf:'' @ wid @ '':'' @ wstep_capability step) (run_step_inner c step params agent iid) w)"

section \<open>Compensation\<close>

definition run_compensation ::
  "'e wf_env \<Rightarrow> workflow \<Rightarrow> string \<Rightarrow> string \<Rightarrow> string \<Rightarrow> 'e wf_engine \<Rightarrow> (unit, 'e wf_engine) res" where
  "run_compensation c flow iid failed_step comp_step_id w =
     (case step_by_id (wf_steps flow) comp_step_id of
        None \<Rightarrow> (Inr (), w)
      | Some cstep \<Rightarrow>
          (let w1 = we_emit (WorkflowEv (WorkflowCompensating iid failed_step comp_step_id)) w
           in case run_step c cstep (resolve_inputs cstep (inst_of w1 iid)) None None w1 of
                (Inl x, w2) \<Rightarrow> if catches ''Exception'' x then (Inr (), w2) else (Inl x, w2)
              | (Inr _, w2) \<Rightarrow>
                  (Inr (), wi_mod iid (\<lambda>i. i\<lparr>wi_results := dset comp_step_id (PStr comp_step_id) (wi_results i)\<rparr>) w2)))"

fun run_compensations ::
  "'e wf_env \<Rightarrow> workflow \<Rightarrow> string \<Rightarrow> string \<Rightarrow> string list \<Rightarrow> 'e wf_engine \<Rightarrow> (unit, 'e wf_engine) res" where
  "run_compensations c flow iid failed_step [] w = (Inr (), w)"
| "run_compensations c flow iid failed_step (s # ss) w =
     (case run_compensation c flow iid failed_step s w of
        (Inl x, w1) \<Rightarrow> (Inl x, w1)
      | (Inr _, w1) \<Rightarrow> run_compensations c flow iid failed_step ss w1)"

text \<open>The compensation a step declares; the empty string counts as none.\<close>

definition compensation_of :: "wf_step \<Rightarrow> string list" where
  "compensation_of s = (case wstep_compensation s of None \<Rightarrow> [] | Some i \<Rightarrow> if i = [] then [] else [i])"

definition compensation_order :: "workflow \<Rightarrow> string \<Rightarrow> string list" where
  "compensation_order flow failed_step =
     concat (map compensation_of (rev (take (nat (step_index flow failed_step)) (wf_steps flow)))) @
     (case step_by_id (wf_steps flow) failed_step of None \<Rightarrow> [] | Some s \<Rightarrow> compensation_of s)"

definition compensate :: "'e wf_env \<Rightarrow> workflow \<Rightarrow> string \<Rightarrow> string \<Rightarrow> 'e wf_engine \<Rightarrow> (unit, 'e wf_engine) res" where
  "compensate c flow iid failed_step w =
     (case run_compensations c flow iid failed_step (compensation_order flow failed_step) (set_status iid COMPENSATING w) of
        (Inl x, w1) \<Rightarrow> (Inl x, w1)
      | (Inr _, w1) \<Rightarrow> (Inr (), set_status iid FAILED w1))"

definition compensate_on_breach :: "'e wf_env \<Rightarrow> workflow \<Rightarrow> string \<Rightarrow> 'e wf_engine \<Rightarrow> (unit, 'e wf_engine) res" where
  "compensate_on_breach c flow iid w =
     (case current_step flow (inst_of w iid) of
        None \<Rightarrow> (Inr (), w)
      | Some step \<Rightarrow>
          if compensation_of step = [] then (Inr (), w)
          else
            (case compensate c flow iid (wstep_id step) w of
               (Inl x, w1) \<Rightarrow> if catches ''Exception'' x then (Inr (), w1) else (Inl x, w1)
             | (Inr _, w1) \<Rightarrow> (Inr (), w1)))"

section \<open>Executing a step\<close>

definition json_artifact :: "string \<Rightarrow> string \<Rightarrow> (string \<times> pyval) list \<Rightarrow> string option \<Rightarrow> artifact" where
  "json_artifact uid ty content src =
     \<lparr>af_id = uid, af_type = ty, af_content = PDict content, af_format = ''json'', af_source = src, af_provenance = []\<rparr>"

text \<open>\<open>_step_package_id\<close>\<close>

definition step_package_id :: "'e wf_env \<Rightarrow> string \<Rightarrow> 'e wf_engine \<Rightarrow> string option" where
  "step_package_id c capability w =
     (case wc_market c of
        None \<Rightarrow> None
      | Some (installed, _) \<Rightarrow>
          map_option pk_id (List.find (\<lambda>p. \<exists>cap \<in> set (pk_capabilities p). cap = capability \<or> startswith (cap @ ''.'') capability)
            (installed (we_env w))))"

text \<open>The guarded, sandboxed or plain run inside the \<open>try\<close>.\<close>

definition guarded_run ::
  "'e wf_env \<Rightarrow> workflow \<Rightarrow> wf_step \<Rightarrow> pydict \<Rightarrow> wf_agent option \<Rightarrow> exec_policy option \<Rightarrow> string \<Rightarrow> string option \<Rightarrow>
   'e wf_engine \<Rightarrow> (artifact, 'e wf_engine) res" where
  "guarded_run c flow step params agent policy iid pkg w =
     (case (we_guard w, pkg, we_sandbox w) of
        (Some g, Some p, _) \<Rightarrow>
          in_guard c g p ''execute'' (''capability:'' @ wstep_capability step) (run_step c step params agent (Some iid)) w
      | (_, _, None) \<Rightarrow> run_step c step params agent (Some iid) w
      | (_, _, Some sb) \<Rightarrow>
          (case (case policy of Some p \<Rightarrow> Inr p | None \<Rightarrow> resolve_policy c step flow) of
             Inl x \<Rightarrow> (Inl x, w)
           | Inr p \<Rightarrow>
               in_sandbox c sb p (compensate_on_breach c flow iid) [(''workflow_id'', iid), (''step_id'', wstep_id step)]
                 (run_step c step params agent (Some iid)) w))"

text \<open>After a success: record the result, emit, advance, complete after the last step.\<close>

definition step_succeeded ::
  "'e wf_env \<Rightarrow> workflow \<Rightarrow> string \<Rightarrow> wf_step \<Rightarrow> seconds \<Rightarrow> artifact \<Rightarrow> 'e wf_engine \<Rightarrow> 'e wf_engine" where
  "step_succeeded c flow iid step started a w =
     (let duration_ms = (wc_mono c (we_env w) - started) * 1000;
          w1 = wi_mod iid (\<lambda>i. i\<lparr>wi_results := dset (wstep_id step) (PStr (af_id a)) (wi_results i),
                                 wi_event_log := wi_event_log i @ [af_id a]\<rparr>) w;
          w2 = we_emit (WorkflowEv (WorkflowStepCompleted iid (wstep_id step) (af_id a) duration_ms)) w1;
          w3 = wi_mod iid (advance flow) w2
      in if wi_current (inst_of w3 iid) = None
         then wi_mod iid (\<lambda>i. i\<lparr>wi_status := COMPLETED, wi_completed_at := Some (wc_now c (we_env w3))\<rparr>) w3
         else w3)"

text \<open>The clause for \<open>PermissionDeniedError\<close> and \<open>ResourceLimitExceededError\<close>.\<close>

definition step_denied :: "'e wf_env \<Rightarrow> string \<Rightarrow> wf_step \<Rightarrow> string option \<Rightarrow> 'e wf_engine \<Rightarrow> artifact \<times> 'e wf_engine" where
  "step_denied c iid step pkg w =
     (let entry = PDict [(''step_id'', PStr (wstep_id step)), (''capability'', PStr (wstep_capability step)), (''package_id'', POptStr pkg)];
          w1 = wi_mod iid (\<lambda>i. i\<lparr>wi_context := dmod ''permission_denied'' (PList [])
                 (\<lambda>v. case v of PList es \<Rightarrow> PList (es @ [entry]) | _ \<Rightarrow> v) (wi_context i), wi_status := FAILED\<rparr>) w
      in (json_artifact (wc_uid c (we_env w)) ''error''
            [(''reason'', PStr ''permission_denied''), (''capability'', PStr (wstep_capability step)), (''package_id'', POptStr pkg)]
            (Some (''guard:'' @ (case pkg of None \<Rightarrow> ''None'' | Some p \<Rightarrow> p))),
          we_emit (WorkflowEv (WorkflowStepFailed iid (wstep_id step) (''guard denied: '' @ wstep_capability step) 1 False)) w1))"

definition dead_step_entry :: "datetime \<Rightarrow> string \<Rightarrow> wf_step \<Rightarrow> pydict \<Rightarrow> int \<Rightarrow> string \<Rightarrow> dead_entry" where
  "dead_step_entry now iid step params attempt err =
     \<lparr>de_entry_id = iid @ '':'' @ wstep_id step @ '':'' @ int_str attempt, de_component_id = iid,
      de_entry_type = ''workflow_step'',
      de_payload = [(''step_id'', PStr (wstep_id step)), (''capability'', PStr (wstep_capability step)),
                    (''params'', PDict params), (''attempt'', PInt attempt)],
      de_error = err, de_retry_count = 0, de_max_retries = 3, de_created_at = now, de_recovered_at = None\<rparr>"

text \<open>The attempts are exhausted: park the step, report the stall, compensate or fail.\<close>

definition step_exhausted ::
  "'e wf_env \<Rightarrow> workflow \<Rightarrow> string \<Rightarrow> wf_step \<Rightarrow> pydict \<Rightarrow> int \<Rightarrow> exn \<Rightarrow> 'e wf_engine \<Rightarrow> (artifact, 'e wf_engine) res" where
  "step_exhausted c flow iid step params attempt exc w =
     (let now = wc_now c (we_env w); inst = inst_of w iid;
          w1 = w\<lparr>we_dlq := map_option (dlq_append (dead_step_entry now iid step params attempt (exn_msg exc))) (we_dlq w)\<rparr>;
          w2 = w1\<lparr>we_res := map_option (\<lambda>r. snd (enqueue_dead_letter (\<lambda>_. now) []
                 [(''workflow_id'', PStr (wi_workflow_id inst)), (''instance_id'', PStr iid), (''step_id'', PStr (wstep_id step)),
                  (''capability'', PStr (wstep_capability step)), (''params'', PDict params)]
                 (exn_msg exc) attempt (Some (''res:'' @ iid @ '':'' @ wstep_id step)) r)) (we_res w1)\<rparr>;
          w3 = we_emit (HealthEv (WorkflowStalled iid (wstep_id step) (exn_msg exc))) w2;
          outcome = (if compensation_of step \<noteq> [] then compensate c flow iid (wstep_id step) w3
                     else (Inr (), set_status iid FAILED w3))
      in case outcome of
           (Inl x, w4) \<Rightarrow> (Inl x, w4)
         | (Inr _, w4) \<Rightarrow> (Inr (json_artifact (wc_uid c (we_env w4)) ''error'' [(''error'', PStr (exn_msg exc))] None), w4))"

text \<open>One pass of \<open>execute_step\<close>: it ends, or asks to be called again after a pause.\<close>

datatype step_out = Finished "exn + artifact" | RetryAfter rat

definition step_failed ::
  "'e wf_env \<Rightarrow> workflow \<Rightarrow> string \<Rightarrow> wf_step \<Rightarrow> pydict \<Rightarrow> int \<Rightarrow> exn \<Rightarrow> 'e wf_engine \<Rightarrow> step_out \<times> 'e wf_engine" where
  "step_failed c flow iid step params attempt exc w =
     (let pol = wstep_retry step; will_retry = attempt < sr_max_attempts pol;
          w1 = we_emit (WorkflowEv (WorkflowStepFailed iid (wstep_id step) (exn_msg exc) attempt will_retry)) w
      in if will_retry
         then (RetryAfter (if sr_exponential pol then sr_backoff_seconds pol * 2 ^ nat (attempt - 1) else sr_backoff_seconds pol), w1)
         else map_prod Finished id (step_exhausted c flow iid step params attempt exc w1))"

text \<open>The \<open>try\<close> block with its clauses.\<close>

definition step_try ::
  "'e wf_env \<Rightarrow> workflow \<Rightarrow> wf_agent option \<Rightarrow> exec_policy option \<Rightarrow> string \<Rightarrow> wf_step \<Rightarrow> pydict \<Rightarrow> int \<Rightarrow>
   'e wf_engine \<Rightarrow> step_out \<times> 'e wf_engine" where
  "step_try c flow agent policy iid step params attempt w =
     (let pkg = (if we_guard w \<noteq> None \<and> wstep_capability step \<noteq> [] then step_package_id c (wstep_capability step) w else None)
      in case guarded_run c flow step params agent policy iid pkg w of
           (Inr a, w1) \<Rightarrow> (Finished (Inr a), step_succeeded c flow iid step (wc_mono c (we_env w)) a w1)
         | (Inl exc, w1) \<Rightarrow>
             if catches ''PermissionDeniedError'' exc \<or> catches ''ResourceLimitExceededError'' exc
             then map_prod (Finished \<circ> Inr) id (step_denied c iid step pkg w1)
             else if catches ''SandboxError'' exc then (Finished (Inl exc), w1)
             else if catches ''Exception'' exc then step_failed c flow iid step params attempt exc w1
             else (Finished (Inl exc), w1))"

definition step_pass ::
  "'e wf_env \<Rightarrow> workflow \<Rightarrow> wf_agent option \<Rightarrow> exec_policy option \<Rightarrow> string \<Rightarrow> 'e wf_engine \<Rightarrow> step_out \<times> 'e wf_engine" where
  "step_pass c flow agent policy iid w =
     (case current_step flow (inst_of w iid) of
        None \<Rightarrow>
          (Finished (Inr (json_artifact (wc_uid c (we_env w)) ''workflow'' [(''status'', PStr ''completed'')] None)),
           wi_mod iid (\<lambda>i. i\<lparr>wi_status := COMPLETED, wi_completed_at := Some (wc_now c (we_env w))\<rparr>) w)
      | Some step \<Rightarrow>
          (let attempt = dget_or (wi_attempts (inst_of w iid)) (wstep_id step) 0 + 1;
               w1 = wi_mod iid (\<lambda>i. i\<lparr>wi_current := Some (wstep_id step), wi_attempts := dset (wstep_id step) attempt (wi_attempts i)\<rparr>) w
           in if wstep_approval step \<and> attempt = 1
              then (Finished (Inr (json_artifact (wc_uid c (we_env w1)) ''approval_required'' [(''step_id'', PStr (wstep_id step))] None)),
                    we_emit (WorkflowEv (WorkflowStepAwaitingApproval iid (wstep_id step) ''requires_approval'')) (set_status iid PAUSED w1))
              else
                (let w2 = we_emit (WorkflowEv (WorkflowStepStarted iid (wstep_id step) (wstep_capability step))) w1;
                     raw = resolve_inputs step (inst_of w2 iid)
                 in case (case wc_vault c of None \<Rightarrow> (Inr raw, w2) | Some (interpolate, _) \<Rightarrow> call_env (interpolate iid raw) w2) of
                      (Inl x, w3) \<Rightarrow> (Finished (Inl x), w3)
                    | (Inr params, w3) \<Rightarrow>
                        if is_mcp step \<and> wc_mcp c = None
                        then (Finished (Inr (json_artifact (wc_uid c (we_env w3)) ''error''
                                [(''reason'', PStr ''mcp_not_wired''), (''capability'', PStr (wstep_capability step))] None)),
                              we_emit (WorkflowEv (WorkflowStepFailed iid (wstep_id step) ''mcp_not_wired'' attempt False)) (set_status iid FAILED w3))
                        else
                          step_try c flow agent policy iid step params attempt w3)))"

section \<open>Progress\<close>

text \<open>
  Where the instances stand, their current steps and attempts, is moved by \<open>step_pass\<close> alone: running
  a step, in the guard, a circuit or the sandbox, and compensating leave it as it is. That is why the
  retries of a step end, which is the termination proof of \<open>execute_step\<close>.
\<close>

definition progress :: "'e wf_engine \<Rightarrow> string \<Rightarrow> (string option \<times> (string, int) dict) option" where
  "progress w iid = map_option (\<lambda>i. (wi_current i, wi_attempts i)) (dget (we_insts w) iid)"

definition attempts_left :: "workflow \<Rightarrow> string \<Rightarrow> 'e wf_engine \<Rightarrow> nat" where
  "attempts_left flow iid w =
     (case current_step flow (inst_of w iid) of
        None \<Rightarrow> 0
      | Some s \<Rightarrow> nat (sr_max_attempts (wstep_retry s) - dget_or (wi_attempts (inst_of w iid)) (wstep_id s) 0))"

text \<open>The engine state after a guarded body, a body in a circuit and a sandboxed body.\<close>

lemma in_guard_rel:
  assumes "\<And>w. R w (snd (body w))" and "\<And>w w' g. R w w' \<Longrightarrow> R w (w'\<lparr>we_guard := g\<rparr>)" and "R w w"
  shows "R w (snd (in_guard c g pkg a r body w))"
proof -
  have body: "body w = (v, w') \<Longrightarrow> R w w'" for v w w' using assms(1) [of w] by simp
  show ?thesis
    by (auto simp: in_guard_def guard_call_def Let_def intro!: assms dest!: more_guard_pre body split: prod.splits sum.splits)
qed

lemma in_circuit_rel:
  assumes "\<And>w. R w (snd (body w))" and "\<And>w w' r. R w w' \<Longrightarrow> R w (w'\<lparr>we_res := r\<rparr>)" and "R w w"
  shows "R w (snd (in_circuit c name body w))"
proof -
  have body: "body w = (v, w') \<Longrightarrow> R w w'" for v w w' using assms(1) [of w] by simp
  show ?thesis
    by (auto simp: in_circuit_def call_with_circuit_def Let_def intro!: assms dest!: more_circuit_enter body
          split: prod.splits sum.splits option.splits)
qed

lemma in_sandbox_rel:
  assumes body: "\<And>w. R w (snd (body w))" and cl: "\<And>w. R w (snd (cl w))" and sb: "\<And>w w' s. R w w' \<Longrightarrow> R w (w'\<lparr>we_sandbox := s\<rparr>)"
    and refl: "\<And>w. R w w" and trans: "\<And>w w' w''. R w w' \<Longrightarrow> R w' w'' \<Longrightarrow> R w w''"
  shows "R w (snd (in_sandbox c sb p cl ctx body w))"
proof -
  let ?R = "\<lambda>s s'. R (sandbox.more s) (sandbox.more s')"
  let ?lift = "\<lambda>g s. case g (sandbox.more s) of (v, w1) \<Rightarrow> (v, sandbox.extend (sandbox.truncate s) w1)"
  have "?R s (snd (?lift g s))" if "\<And>w. R w (snd (g w))" for s and g :: "_ \<Rightarrow> (_, _) res"
    using that [of "sandbox.more s"] by (simp add: case_prod_beta)
  from sandbox_run_rel [of ?R, OF this this, OF body cl _ refl trans]
  have "?R s (snd (sandbox_run pr fmt (?lift body) p (Some (?lift cl)) ctx s))" for pr fmt ctx s by simp
  from this [of "sandbox.extend sb w"] show ?thesis
    by (auto simp: in_sandbox_def intro!: sb split: prod.splits) (metis (no_types, lifting) more_extend(3) snd_conv)
qed

text \<open>In particular, what body and hook keep is kept.\<close>

lemma in_guard_keeps:
  assumes "\<And>w. f (snd (body w)) = f w" and "\<And>w g. f (w\<lparr>we_guard := g\<rparr>) = f w"
  shows "f (snd (in_guard c g pkg a r body w)) = f w"
  by (rule in_guard_rel [of "\<lambda>w w'. f w' = f w"]) (simp_all add: assms)

lemma in_circuit_keeps:
  assumes "\<And>w. f (snd (body w)) = f w" and "\<And>w r. f (w\<lparr>we_res := r\<rparr>) = f w"
  shows "f (snd (in_circuit c name body w)) = f w"
  by (rule in_circuit_rel [of "\<lambda>w w'. f w' = f w"]) (simp_all add: assms)

lemma in_sandbox_keeps:
  assumes "\<And>w. f (snd (body w)) = f w" and "\<And>w. f (snd (cl w)) = f w" and "\<And>w s. f (w\<lparr>we_sandbox := s\<rparr>) = f w"
  shows "f (snd (in_sandbox c sb p cl ctx body w)) = f w"
  by (rule in_sandbox_rel [of "\<lambda>w w'. f w' = f w"]) (simp_all add: assms)

lemma progress_call_env [simp]: "progress (snd (call_env f w)) = progress w"
  by (simp add: call_env_def progress_def fun_eq_iff case_prod_beta)

lemma progress_wi_mod [simp]:
  assumes "\<And>i. wi_current (f i) = wi_current i \<and> wi_attempts (f i) = wi_attempts i"
  shows "progress (wi_mod iid f w) = progress w"
  using assms by (auto simp: progress_def wi_mod_def fun_eq_iff dget_dset split: option.splits)

lemma progress_simps [simp]:
  "progress (we_emit e w) = progress w" "progress (set_status iid st w) = progress w"
  "progress (w\<lparr>we_guard := g\<rparr>) = progress w" "progress (w\<lparr>we_res := r\<rparr>) = progress w"
  "progress (w\<lparr>we_sandbox := sb\<rparr>) = progress w" "progress (w\<lparr>we_dlq := d\<rparr>) = progress w"
  by (simp_all add: we_emit_def set_status_def) (simp_all add: progress_def fun_eq_iff)

lemma progress_run_mcp_step [simp]: "progress (snd (run_mcp_step c mcp step params iid w)) = progress w"
  using progress_call_env [of "snd mcp _ _ params" w]
  by (auto simp: run_mcp_step_def Let_def split: sum.splits prod.splits option.splits)
     (metis progress_call_env snd_conv)+

lemma progress_run_step [simp]: "progress (snd (run_step c step params agent iid w)) = progress w"
proof -
  have "progress (snd (run_step_inner c step params agent iid w)) = progress w" for w
    by (simp add: run_step_inner_def split: option.splits)
  then show ?thesis by (simp add: run_step_def Let_def in_circuit_keeps [of progress])
qed

lemma progress_run_compensation [simp]: "progress (snd (run_compensation c flow iid fs cs w)) = progress w"
proof -
  have "run_step c st ps a i w = (r, w') \<Longrightarrow> progress w' = progress w" for st ps a i w r w'
    using progress_run_step [of c st ps a i w] by simp
  then show ?thesis
    by (auto simp: run_compensation_def Let_def split: option.splits prod.splits sum.splits)
qed

lemma progress_run_compensations [simp]: "progress (snd (run_compensations c flow iid fs cs w)) = progress w"
proof (induction cs arbitrary: w)
  case (Cons s cs)
  have "run_compensation c flow iid fs s w = (r, w') \<Longrightarrow> progress w' = progress w" for r w'
    using progress_run_compensation [of c flow iid fs s w] by simp
  with Cons.IH show ?case by (auto split: prod.splits sum.splits)
qed simp

lemma progress_compensate [simp]: "progress (snd (compensate c flow iid fs w)) = progress w"
proof -
  have "run_compensations c flow iid fs cs w = (r, w') \<Longrightarrow> progress w' = progress w" for cs w r w'
    using progress_run_compensations [of c flow iid fs cs w] by simp
  then show ?thesis by (auto simp: compensate_def split: prod.splits sum.splits)
qed

lemma progress_compensate_on_breach [simp]: "progress (snd (compensate_on_breach c flow iid w)) = progress w"
proof -
  have "compensate c flow iid fs w = (r, w') \<Longrightarrow> progress w' = progress w" for fs r w'
    using progress_compensate [of c flow iid fs w] by simp
  then show ?thesis
    by (auto simp: compensate_on_breach_def split: option.splits prod.splits sum.splits)
qed

lemma progress_guarded_run: "guarded_run c flow step params agent policy iid pkg w = (r, w') \<Longrightarrow> progress w' = progress w"
proof -
  have "progress (snd (guarded_run c flow step params agent policy iid pkg w)) = progress w"
    by (auto simp: guarded_run_def in_guard_keeps [of progress] in_sandbox_keeps [of progress] split: option.splits sum.splits)
  then show "guarded_run c flow step params agent policy iid pkg w = (r, w') \<Longrightarrow> progress w' = progress w" by simp
qed

lemma progress_step_failed:
  "step_failed c flow iid step params attempt exc w = (out, w') \<Longrightarrow>
     progress w' = progress w \<and> (\<forall>b. out = RetryAfter b \<longrightarrow> attempt < sr_max_attempts (wstep_retry step))"
proof -
  have "progress (snd (step_exhausted c flow iid step params attempt exc w)) = progress w" for w
  proof -
    have "compensate c flow iid fs w = (r, w') \<Longrightarrow> progress w' = progress w" for fs r w w'
      using progress_compensate [of c flow iid fs w] by simp
    then show ?thesis by (auto simp: step_exhausted_def Let_def split: prod.splits sum.splits)
  qed
  then show "step_failed c flow iid step params attempt exc w = (out, w') \<Longrightarrow>
     progress w' = progress w \<and> (\<forall>b. out = RetryAfter b \<longrightarrow> attempt < sr_max_attempts (wstep_retry step))"
    by (auto simp: step_failed_def Let_def map_prod_def case_prod_beta split: if_splits)
qed

lemma step_try_retry:
  assumes "step_try c flow agent policy iid s params att w = (RetryAfter b, w')"
  shows "progress w' = progress w \<and> att < sr_max_attempts (wstep_retry s)"
  using assms
  by (auto simp: step_try_def Let_def map_prod_def dest!: progress_guarded_run progress_step_failed
        split: if_splits prod.splits sum.splits)

text \<open>A pass that asks for another one has used up one attempt of the same step.\<close>

lemma step_pass_retry:
  assumes "step_pass c flow agent policy iid w = (RetryAfter b, w')" and "dget (we_insts w) iid \<noteq> None"
  shows "\<exists>s. current_step flow (inst_of w iid) = Some s \<and>
     progress w' iid = Some (Some (wstep_id s), dset (wstep_id s) (dget_or (wi_attempts (inst_of w iid)) (wstep_id s) 0 + 1) (wi_attempts (inst_of w iid))) \<and>
     dget_or (wi_attempts (inst_of w iid)) (wstep_id s) 0 + 1 < sr_max_attempts (wstep_retry s)"
proof -
  obtain s where s: "current_step flow (inst_of w iid) = Some s"
    using assms(1) by (auto simp: step_pass_def split: option.splits)
  obtain i where i: "dget (we_insts w) iid = Some i" using assms(2) by auto
  let ?att = "dget_or (wi_attempts (inst_of w iid)) (wstep_id s) 0 + 1"
  define w2 where "w2 = we_emit (WorkflowEv (WorkflowStepStarted iid (wstep_id s) (wstep_capability s)))
    (wi_mod iid (\<lambda>i. i\<lparr>wi_current := Some (wstep_id s), wi_attempts := dset (wstep_id s) ?att (wi_attempts i)\<rparr>) w)"
  have w2: "progress w2 iid = Some (Some (wstep_id s), dset (wstep_id s) ?att (wi_attempts (inst_of w iid)))"
    using i by (simp add: w2_def progress_def wi_mod_def inst_of_def)
  have vault: "call_env f w2 = (r, w3) \<Longrightarrow> progress w3 = progress w2" for f :: "_ \<Rightarrow> (pydict, _) res" and r w3
    using progress_call_env [of f w2] by simp
  show ?thesis
    using assms(1) s w2
    unfolding step_pass_def s option.case Let_def w2_def [symmetric]
    by (auto dest!: vault step_try_retry split: if_splits prod.splits sum.splits option.splits)
qed

lemma step_by_id_id: "step_by_id ss i = Some s \<Longrightarrow> wstep_id s = i"
  by (induction ss) (auto split: if_splits)

lemma step_pass_decreases:
  assumes "step_pass c flow agent policy iid w = (RetryAfter b, w')" and "dget (we_insts w) iid \<noteq> None"
    and "progress w'' = progress w'"
  shows "attempts_left flow iid w'' < attempts_left flow iid w"
proof -
  from step_pass_retry [OF assms(1,2)] obtain s where s: "current_step flow (inst_of w iid) = Some s"
    and p: "progress w'' iid = Some (Some (wstep_id s), dset (wstep_id s) (dget_or (wi_attempts (inst_of w iid)) (wstep_id s) 0 + 1) (wi_attempts (inst_of w iid)))"
    and less: "dget_or (wi_attempts (inst_of w iid)) (wstep_id s) 0 + 1 < sr_max_attempts (wstep_retry s)"
    using assms(3) by auto
  have "step_by_id (wf_steps flow) (wstep_id s) = Some s"
    using s by (auto simp: current_step_def dest: step_by_id_id split: option.splits)
  then have "attempts_left flow iid w'' = nat (sr_max_attempts (wstep_retry s) - (dget_or (wi_attempts (inst_of w iid)) (wstep_id s) 0 + 1))"
    using p by (auto simp: attempts_left_def current_step_def progress_def inst_of_def)
  with less s show ?thesis by (simp add: attempts_left_def)
qed

function execute_step ::
  "'e wf_env \<Rightarrow> workflow \<Rightarrow> wf_agent option \<Rightarrow> exec_policy option \<Rightarrow> string \<Rightarrow> 'e wf_engine \<Rightarrow> (artifact, 'e wf_engine) res" where
  "execute_step c flow agent policy iid w =
     (case get_instance w iid of
        Inl x \<Rightarrow> (Inl x, w)
      | Inr _ \<Rightarrow>
          (case step_pass c flow agent policy iid w of
             (Finished r, w1) \<Rightarrow> (r, w1)
           | (RetryAfter backoff, w1) \<Rightarrow>
               (case call_env (wc_sleep c backoff) w1 of
                  (Inl x, w2) \<Rightarrow> (Inl x, w2)
                | (Inr _, w2) \<Rightarrow> execute_step c flow agent None iid w2)))"
  by pat_completeness auto

termination
proof (relation "measure (\<lambda>(c, flow, agent, policy, iid, w). attempts_left flow iid w)", goal_cases)
  case (2 c flow agent policy iid w u out w1 backoff r w2 v)
  then have "step_pass c flow agent policy iid w = (RetryAfter backoff, w1)" "dget (we_insts w) iid \<noteq> None"
    by (auto simp: get_instance_def split: option.splits)
  moreover have "progress w2 = progress w1"
    using 2 progress_call_env [of "wc_sleep c backoff" w1] by (metis snd_conv)
  ultimately show ?case using step_pass_decreases by simp
qed simp

text \<open>
  The loop of \<open>_execute_adaptive_inner\<close> without a planner and of \<open>approve\<close>. It may run forever;
  \<open>fuel\<close> bounds the steps it may execute, and running out of it is \<open>None\<close>.
\<close>

fun run_linear ::
  "'e wf_env \<Rightarrow> workflow \<Rightarrow> nat \<Rightarrow> string \<Rightarrow> artifact list \<Rightarrow> 'e wf_engine \<Rightarrow> (artifact list, 'e wf_engine) res option" where
  "run_linear c flow 0 iid artifacts w =
     (if wi_status (inst_of w iid) = RUNNING \<and> wi_current (inst_of w iid) \<noteq> None then None else Some (Inr artifacts, w))"
| "run_linear c flow (Suc fuel) iid artifacts w =
     (if wi_status (inst_of w iid) = RUNNING \<and> wi_current (inst_of w iid) \<noteq> None
      then (case execute_step c flow None None iid w of
              (Inl x, w1) \<Rightarrow> Some (Inl x, w1)
            | (Inr a, w1) \<Rightarrow> run_linear c flow fuel iid (artifacts @ [a]) w1)
      else Some (Inr artifacts, w))"

definition execute_linear :: "'e wf_env \<Rightarrow> workflow \<Rightarrow> nat \<Rightarrow> string \<Rightarrow> 'e wf_engine \<Rightarrow> (artifact list, 'e wf_engine) res option" where
  "execute_linear c flow fuel iid w =
     (case get_instance w iid of Inl x \<Rightarrow> Some (Inl x, w) | Inr _ \<Rightarrow> run_linear c flow fuel iid [] w)"

definition approve ::
  "'e wf_env \<Rightarrow> workflow \<Rightarrow> nat \<Rightarrow> string \<Rightarrow> string \<Rightarrow> bool \<Rightarrow> 'e wf_engine \<Rightarrow> (unit, 'e wf_engine) res option" where
  "approve c flow fuel iid step_id approved w =
     (case get_instance w iid of
        Inl x \<Rightarrow> Some (Inl x, w)
      | Inr inst \<Rightarrow>
          if wi_status inst \<noteq> PAUSED then Some (Inl (RuntimeError (''instance '' @ iid @ '' is not paused'')), w)
          else if approved
          then map_option (\<lambda>(r, w1). (map_sum id (\<lambda>_. ()) r, w1)) (run_linear c flow fuel iid [] (set_status iid RUNNING w))
          else
            (case step_by_id (wf_steps flow) step_id of
               Some s \<Rightarrow> if compensation_of s \<noteq> [] then Some (compensate c flow iid step_id w) else Some (Inr (), set_status iid FAILED w)
             | None \<Rightarrow> Some (Inr (), set_status iid FAILED w)))"

text \<open>\<open>discover_plugins\<close>: a package is listed once, and only if the guard lets it be discovered.\<close>

fun discover_scan :: "string \<Rightarrow> string list \<Rightarrow> wf_package list \<Rightarrow> wf_package list" where
  "discover_scan q seen [] = []"
| "discover_scan q seen (p # ps) =
     (if pk_id p \<in> set seen then discover_scan q seen ps
      else if \<exists>cap \<in> set (pk_capabilities p). contains q (lower cap) then p # discover_scan q (pk_id p # seen) ps
      else discover_scan q seen ps)"

definition discover_plugins :: "'e wf_env \<Rightarrow> string \<Rightarrow> 'e wf_engine \<Rightarrow> wf_package list" where
  "discover_plugins c query w =
     (case wc_market c of
        None \<Rightarrow> []
      | Some (installed, available) \<Rightarrow>
          (let matched = discover_scan (lower query) [] (installed (we_env w) @ available (we_env w))
           in case we_guard w of
                None \<Rightarrow> matched
              | Some g \<Rightarrow> filter (\<lambda>p. check g (pk_id p) ''discover'' (''plugin:'' @ pk_id p)) matched))"

end
