(* ===== verification/Workflow_Runs.thy ===== *)
theory Workflow_Runs
  imports Workflow
begin

text \<open>
  Runs of the workflow engine: what single steps, failing steps and whole runs do, and the properties
  of \<open>kernel/workflow.py\<close>. The definitions of this theory describe outcomes; the model is in \<open>Workflow\<close>.
\<close>

section \<open>Definitions\<close>

definition registered :: "string \<Rightarrow> 'e wf_engine \<Rightarrow> bool" where
  "registered iid w \<longleftrightarrow> dget (we_insts w) iid \<noteq> None"

text \<open>A circuit and the guard leave the other components of the engine as the body leaves them.\<close>

definition kept :: "'e wf_engine \<Rightarrow> sink \<times> (string, wf_instance) dict \<times> dlq option \<times> guard option \<times> sandbox option" where
  "kept w = (we_sink w, we_insts w, we_dlq w, we_guard w, we_sandbox w)"

text \<open>An exception the engine retries: an \<open>Exception\<close> that is neither the guard's nor the sandbox's.\<close>

definition ordinary :: "exn \<Rightarrow> bool" where
  "ordinary x \<longleftrightarrow> catches ''Exception'' x \<and> \<not> catches ''PermissionDeniedError'' x \<and>
     \<not> catches ''ResourceLimitExceededError'' x \<and> \<not> catches ''SandboxError'' x"

text \<open>What a step that always fails leaves in the journal: \<open>msgs\<close> are the errors of attempts \<open>a + 1\<close>, \<open>a + 2\<close>, ...\<close>

fun failure_log :: "string \<Rightarrow> wf_step \<Rightarrow> int \<Rightarrow> string list \<Rightarrow> domain_event list" where
  "failure_log iid s a [] = []"
| "failure_log iid s a (m # ms) =
     WorkflowEv (WorkflowStepStarted iid (wstep_id s) (wstep_capability s)) #
     WorkflowEv (WorkflowStepFailed iid (wstep_id s) m (a + 1) (a + 1 < sr_max_attempts (wstep_retry s))) #
     failure_log iid s (a + 1) ms"

text \<open>The state in which a pass runs the step, and the pass of a step that the gate lets through.\<close>

definition started_state :: "string \<Rightarrow> wf_step \<Rightarrow> 'e wf_engine \<Rightarrow> 'e wf_engine" where
  "started_state iid s w =
     we_emit (WorkflowEv (WorkflowStepStarted iid (wstep_id s) (wstep_capability s)))
       (wi_mod iid (\<lambda>i. i\<lparr>wi_current := Some (wstep_id s),
          wi_attempts := dset (wstep_id s) (dget_or (wi_attempts (inst_of w iid)) (wstep_id s) 0 + 1) (wi_attempts i)\<rparr>) w)"

text \<open>
  A call of \<open>execute_step\<close> that returns an artifact has either stopped the instance or moved it to the
  next step. Compensation and exhaustion end FAILED.
\<close>

definition stopped :: "string \<Rightarrow> 'e wf_engine \<Rightarrow> bool" where
  "stopped iid w \<longleftrightarrow> registered iid w \<and> wi_status (inst_of w iid) \<in> {PAUSED, FAILED, COMPLETED}"

definition next_step :: "workflow \<Rightarrow> string option \<Rightarrow> string option" where
  "next_step flow cur =
     (case cur of
        None \<Rightarrow> None
      | Some i \<Rightarrow>
          (let idx = step_index flow i
           in if idx \<ge> 0 \<and> idx + 1 < int (length (wf_steps flow)) then Some (wstep_id (wf_steps flow ! nat (idx + 1))) else None))"

definition steps_left :: "workflow \<Rightarrow> string option \<Rightarrow> nat" where
  "steps_left flow cur =
     (case cur of
        None \<Rightarrow> 0
      | Some i \<Rightarrow> if step_index flow i < 0 then 1 else length (wf_steps flow) - nat (step_index flow i))"

text \<open>A run in which every capability succeeds.\<close>

fun success_log :: "string \<Rightarrow> wf_step list \<Rightarrow> (artifact \<times> rat) list \<Rightarrow> domain_event list" where
  "success_log iid (s # ss) ((a, d) # ads) =
     WorkflowEv (WorkflowStepStarted iid (wstep_id s) (wstep_capability s)) #
     WorkflowEv (WorkflowStepCompleted iid (wstep_id s) (af_id a) d) # success_log iid ss ads"
| "success_log iid _ _ = []"

definition plain_step :: "wf_step \<Rightarrow> bool" where
  "plain_step s \<longleftrightarrow> \<not> wstep_approval s \<and> \<not> is_mcp s"

definition plain_engine :: "'e wf_engine \<Rightarrow> bool" where
  "plain_engine w \<longleftrightarrow> we_guard w = None \<and> we_sandbox w = None \<and> we_res w = None"

text \<open>The results recorded for steps are strings: ids of artifacts or of compensation steps.\<close>

definition id_results :: "wf_instance \<Rightarrow> bool" where
  "id_results i \<longleftrightarrow> (\<forall>v \<in> set (dvals (wi_results i)). \<exists>x. v = PStr x)"

definition all_id_results :: "'e wf_engine \<Rightarrow> bool" where
  "all_id_results w \<longleftrightarrow> (\<forall>i \<in> set (dvals (we_insts w)). id_results i)"

text \<open>A small environment and workflow for the witnesses.\<close>

definition idle_env :: "(string \<Rightarrow> pydict \<Rightarrow> nat \<Rightarrow> (artifact, nat) res) \<Rightarrow> nat wf_env" where
  "idle_env caps =
     \<lparr>wc_caps = caps, wc_agents = (\<lambda>_ _ e. (Inl (KeyError ''agent''), e)), wc_mcp = None, wc_vault = None, wc_market = None,
      wc_now = int, wc_mono = (\<lambda>_. 0), wc_uid = (\<lambda>_. ''u''), wc_sleep = (\<lambda>_ e. (Inr (), e + 1)), wc_rss_mb = None,
      wc_open_max = None, wc_isofmt = (\<lambda>_. []), wc_policy_str = (\<lambda>_. []), wc_policy_of = (\<lambda>_. Inr default_exec_policy)\<rparr>"

definition plain_wf_step :: "string \<Rightarrow> wf_step" where
  "plain_wf_step i =
     \<lparr>wstep_id = i, wstep_name = i, wstep_capability = ''c'', wstep_inputs = [], wstep_retry = default_step_retry,
      wstep_compensation = None, wstep_approval = False, wstep_timeout = 30\<rparr>"

definition flow_of :: "wf_step list \<Rightarrow> workflow" where
  "flow_of ss = \<lparr>wf_id = ''f'', wf_name = ''f'', wf_steps = ss, wf_context = [], wf_defaults = None\<rparr>"

definition fresh_engine :: "nat wf_engine" where
  "fresh_engine = \<lparr>we_sink = wired, we_insts = [], we_dlq = None, we_guard = None, we_res = None, we_sandbox = None, we_env = 0\<rparr>"

definition started_engine :: "nat wf_env \<Rightarrow> workflow \<Rightarrow> nat wf_engine" where
  "started_engine c flow = snd (wf_start c ''i'' [] flow fresh_engine)"

definition ok_artifact :: artifact where
  "ok_artifact = \<lparr>af_id = ''a'', af_type = ''result'', af_content = PNone, af_format = ''json'', af_source = None, af_provenance = []\<rparr>"

section \<open>Lemmas\<close>

lemma demo_simps:
  "wc_caps (idle_env caps) = caps" "wc_vault (idle_env caps) = None" "wc_mcp (idle_env caps) = None" "wc_market (idle_env caps) = None"
  "wc_sleep (idle_env caps) b e = (Inr (), e + 1)" "wf_steps (flow_of ss) = ss" "wstep_id (plain_wf_step i) = i"
  "wstep_approval (plain_wf_step i) = False" "wstep_retry (plain_wf_step i) = default_step_retry"
  "is_mcp (plain_wf_step i) = False" "compensation_of (plain_wf_step i) = []" "wstep_capability (plain_wf_step i) = ''c''"
  "we_guard fresh_engine = None" "we_sandbox fresh_engine = None" "we_res fresh_engine = None" "we_dlq fresh_engine = None"
  by (simp_all add: idle_env_def flow_of_def plain_wf_step_def fresh_engine_def is_mcp_def startswith_def compensation_of_def)

lemma started_engine_simps:
  "dget (we_insts (started_engine (idle_env caps) flow)) ''i'' \<noteq> None"
  "we_guard (started_engine (idle_env caps) flow) = None" "we_sandbox (started_engine (idle_env caps) flow) = None"
  "we_dlq (started_engine (idle_env caps) flow) = None"
  "wi_attempts (inst_of (started_engine (idle_env caps) flow) ''i'') = []"
  "wi_current (inst_of (started_engine (idle_env caps) flow) ''i'') = (case wf_steps flow of [] \<Rightarrow> None | s # _ \<Rightarrow> Some (wstep_id s))"
  by (simp_all add: started_engine_def wf_start_def Let_def demo_simps inst_of_def)

lemma map_of_rev_distinct: "distinct (map fst kvs) \<Longrightarrow> map_of (rev kvs) = map_of kvs"
  by (induction kvs) (auto simp: fun_eq_iff map_add_def map_of_eq_None_iff [symmetric] split: option.splits)

lemma wi_mod_simps [simp]:
  "we_sink (wi_mod iid f w) = we_sink w" "we_dlq (wi_mod iid f w) = we_dlq w" "we_guard (wi_mod iid f w) = we_guard w"
  "we_res (wi_mod iid f w) = we_res w" "we_sandbox (wi_mod iid f w) = we_sandbox w" "we_env (wi_mod iid f w) = we_env w"
  by (simp_all add: wi_mod_def split: option.splits)

lemma registered_wi_mod [simp]: "registered jid (wi_mod iid f w) \<longleftrightarrow> registered jid w"
  by (auto simp: registered_def wi_mod_def dget_dset split: option.splits)

lemma inst_of_wi_mod [simp]:
  "registered iid w \<Longrightarrow> inst_of (wi_mod iid f w) iid = f (inst_of w iid)"
  "jid \<noteq> iid \<Longrightarrow> inst_of (wi_mod iid f w) jid = inst_of w jid"
  by (auto simp: registered_def wi_mod_def inst_of_def split: option.splits)

lemma set_status_simps [simp]:
  "we_sink (set_status iid st w) = we_sink w" "we_dlq (set_status iid st w) = we_dlq w" "we_guard (set_status iid st w) = we_guard w"
  "we_res (set_status iid st w) = we_res w" "we_sandbox (set_status iid st w) = we_sandbox w" "we_env (set_status iid st w) = we_env w"
  "registered jid (set_status iid st w) \<longleftrightarrow> registered jid w"
  "registered iid w \<Longrightarrow> inst_of (set_status iid st w) iid = (inst_of w iid)\<lparr>wi_status := st\<rparr>"
  "jid \<noteq> iid \<Longrightarrow> inst_of (set_status iid st w) jid = inst_of w jid"
  by (simp_all add: set_status_def)

lemma we_emit_simps [simp]:
  "we_sink (we_emit e w) = emit e (we_sink w)" "we_dlq (we_emit e w) = we_dlq w" "we_guard (we_emit e w) = we_guard w"
  "we_res (we_emit e w) = we_res w" "we_sandbox (we_emit e w) = we_sandbox w" "we_env (we_emit e w) = we_env w"
  "we_insts (we_emit e w) = we_insts w" "inst_of (we_emit e w) iid = inst_of w iid"
  "registered iid (we_emit e w) \<longleftrightarrow> registered iid w"
  by (simp_all add: we_emit_def inst_of_def registered_def)

lemma inst_of_updates [simp]:
  "inst_of (w\<lparr>we_env := e\<rparr>) iid = inst_of w iid" "inst_of (w\<lparr>we_dlq := d\<rparr>) iid = inst_of w iid"
  "inst_of (w\<lparr>we_res := r\<rparr>) iid = inst_of w iid" "inst_of (w\<lparr>we_guard := g\<rparr>) iid = inst_of w iid"
  "inst_of (w\<lparr>we_sandbox := sb\<rparr>) iid = inst_of w iid"
  "registered iid (w\<lparr>we_env := e\<rparr>) = registered iid w" "registered iid (w\<lparr>we_dlq := d\<rparr>) = registered iid w"
  "registered iid (w\<lparr>we_res := r\<rparr>) = registered iid w" "registered iid (w\<lparr>we_guard := g\<rparr>) = registered iid w"
  "registered iid (w\<lparr>we_sandbox := sb\<rparr>) = registered iid w"
  by (simp_all add: inst_of_def registered_def)

lemma get_instance_registered [simp]: "registered iid w \<Longrightarrow> get_instance w iid = Inr (inst_of w iid)"
  by (auto simp: registered_def get_instance_def inst_of_def)

lemma registered_progress:
  assumes "progress w' = progress w"
  shows "registered iid w' \<longleftrightarrow> registered iid w"
proof -
  have "(progress w' iid = None) = (progress w iid = None)" using assms by simp
  then show ?thesis by (simp add: progress_def registered_def)
qed

lemma progress_eqs:
  assumes "registered iid w"
  shows "progress w iid = Some (wi_current (inst_of w iid), wi_attempts (inst_of w iid))"
  using assms by (auto simp: registered_def progress_def inst_of_def)

lemma current_progress:
  assumes "progress w' = progress w" and "registered iid w"
  shows "wi_current (inst_of w' iid) = wi_current (inst_of w iid)" and "wi_attempts (inst_of w' iid) = wi_attempts (inst_of w iid)"
proof -
  have "registered iid w'" using registered_progress [OF assms(1)] assms(2) by blast
  from progress_eqs [OF this] progress_eqs [OF assms(2)] assms(1)
  show "wi_current (inst_of w' iid) = wi_current (inst_of w iid)" "wi_attempts (inst_of w' iid) = wi_attempts (inst_of w iid)"
    by simp_all
qed

lemma kept_updates [simp]:
  "kept (w\<lparr>we_env := e\<rparr>) = kept w" "kept (w\<lparr>we_res := r\<rparr>) = kept w"
  by (simp_all add: kept_def)

lemma kept_call_env [simp]: "kept (snd (call_env f w)) = kept w"
  by (simp add: call_env_def case_prod_beta)

lemma kept_run_step:
  assumes "\<not> is_mcp step \<or> wc_mcp c = None \<or> iid = None"
  shows "kept (snd (run_step c step params agent iid w)) = kept w"
proof -
  have "kept (snd (run_mcp_step c mcp step params None w)) = kept w" for mcp w
  proof -
    have "call_env f w = (r, w1) \<Longrightarrow> kept w1 = kept w" for f :: "_ \<Rightarrow> (artifact, _) res" and r w1
      using kept_call_env [of f w] by simp
    then show ?thesis by (auto simp: run_mcp_step_def Let_def split: sum.splits prod.splits option.splits)
  qed
  then have "kept (snd (run_step_inner c step params agent iid w)) = kept w" for w
    using assms by (auto simp: run_step_inner_def split: option.splits)
  then show ?thesis by (simp add: run_step_def Let_def in_circuit_keeps [of kept])
qed

lemma ordinary_circuit_open [simp]: "ordinary (CircuitBreakerOpenError n)"
  by (simp add: ordinary_def CircuitBreakerOpenError_def std_exn_def)

text \<open>A circuit passes failures on and adds its own.\<close>

lemma in_circuit_fails:
  assumes "\<And>w. \<exists>x. fst (body w) = Inl x \<and> ordinary x"
  shows "\<exists>x. fst (in_circuit c name body w) = Inl x \<and> ordinary x"
proof (cases "we_res w")
  case None
  with assms show ?thesis by (simp add: in_circuit_def)
next
  case (Some r)
  let ?b = "\<lambda>s. case body (resilience.more s) of (v, w1) \<Rightarrow> (v, resilience.extend (resilience.truncate s) w1)"
  let ?call = "call_with_circuit (\<lambda>s. wc_now c (we_env (resilience.more s))) name ?b (resilience.extend r w)"
  have body: "body w = (r, w') \<Longrightarrow> \<exists>x. r = Inl x \<and> ordinary x" for w r w'
    using assms [of w] by simp
  have enter: "circuit_enter clock name s = (Inl x, s') \<Longrightarrow> ordinary x" for clock s x s'
    by (auto simp: circuit_enter_def Let_def split: prod.splits if_splits)
  have "\<exists>x. fst ?call = Inl x \<and> ordinary x"
    unfolding call_with_circuit_def by (auto dest!: body enter split: prod.splits sum.splits)
  with Some show ?thesis by (auto simp: in_circuit_def split: prod.splits)
qed

lemma run_step_fails:
  assumes "\<And>p e. \<exists>x. fst (wc_caps c (wstep_capability s) p e) = Inl x \<and> ordinary x" and "\<not> is_mcp s"
  shows "\<exists>x w'. run_step c s params None iid w = (Inl x, w') \<and> ordinary x \<and> kept w' = kept w"
proof -
  have "\<exists>x. fst (run_step_inner c s params None iid w) = Inl x \<and> ordinary x" for w
    using assms(1) [of params "we_env w"] assms(2) by (simp add: run_step_inner_def call_env_def case_prod_beta)
  then have "\<exists>x. fst (run_step c s params None iid w) = Inl x \<and> ordinary x"
    unfolding run_step_def Let_def by (rule in_circuit_fails)
  moreover have "kept (snd (run_step c s params None iid w)) = kept w"
    using assms(2) by (simp add: kept_run_step)
  ultimately show ?thesis by (metis prod.collapse)
qed

lemma keptD:
  assumes "kept w' = kept w"
  shows "we_sink w' = we_sink w" "we_insts w' = we_insts w" "we_dlq w' = we_dlq w" "we_guard w' = we_guard w"
    "we_sandbox w' = we_sandbox w" "inst_of w' iid = inst_of w iid" "registered iid w' = registered iid w"
  using assms by (simp_all add: kept_def inst_of_def registered_def)

lemma step_pass_runs:
  assumes "current_step flow (inst_of w iid) = Some s" and "\<not> (wstep_approval s \<and> dget_or (wi_attempts (inst_of w iid)) (wstep_id s) 0 = 0)"
    and "wc_vault c = None" and "\<not> is_mcp s \<or> wc_mcp c \<noteq> None"
  shows "step_pass c flow agent policy iid w =
    step_try c flow agent policy iid s (resolve_inputs s (inst_of (started_state iid s w) iid))
      (dget_or (wi_attempts (inst_of w iid)) (wstep_id s) 0 + 1) (started_state iid s w)"
proof -
  have "\<not> (wstep_approval s \<and> dget_or (wi_attempts (inst_of w iid)) (wstep_id s) 0 + 1 = 1)" "\<not> (is_mcp s \<and> wc_mcp c = None)"
    using assms(2,4) by auto
  then show ?thesis
    unfolding step_pass_def assms(1,3) option.case Let_def started_state_def by (simp only: if_False prod.case sum.case)
qed

lemma started_state_simps [simp]:
  "we_guard (started_state iid s w) = we_guard w" "we_sandbox (started_state iid s w) = we_sandbox w"
  "we_dlq (started_state iid s w) = we_dlq w" "we_env (started_state iid s w) = we_env w" "we_res (started_state iid s w) = we_res w"
  "we_sink (started_state iid s w) = emit (WorkflowEv (WorkflowStepStarted iid (wstep_id s) (wstep_capability s))) (we_sink w)"
  "registered jid (started_state iid s w) = registered jid w"
  "registered iid w \<Longrightarrow> inst_of (started_state iid s w) iid = (inst_of w iid)\<lparr>wi_current := Some (wstep_id s),
     wi_attempts := dset (wstep_id s) (dget_or (wi_attempts (inst_of w iid)) (wstep_id s) 0 + 1) (wi_attempts (inst_of w iid))\<rparr>"
  by (simp_all add: started_state_def)

text \<open>The state after the last failure of a step without compensation.\<close>

lemma step_exhausted_fails:
  assumes "compensation_of s = []"
  shows "\<exists>w'. step_exhausted c flow iid s params att x w =
       (Inr (json_artifact (wc_uid c (we_env w)) ''error'' [(''error'', PStr (exn_msg x))] None), w') \<and>
     we_guard w' = we_guard w \<and> we_sandbox w' = we_sandbox w \<and> we_env w' = we_env w \<and>
     (registered iid w \<longrightarrow> registered iid w' \<and> inst_of w' iid = (inst_of w iid)\<lparr>wi_status := FAILED\<rparr>) \<and>
     we_dlq w' = map_option (dlq_append (dead_step_entry (wc_now c (we_env w)) iid s params att (exn_msg x))) (we_dlq w) \<and>
     we_sink w' = emit (HealthEv (WorkflowStalled iid (wstep_id s) (exn_msg x))) (we_sink w)"
  by (simp add: step_exhausted_def Let_def assms)

text \<open>One failing pass of an ungated step of an engine without guard, sandbox and vault.\<close>

lemma failing_pass:
  assumes fails: "\<And>p e. \<exists>x. fst (wc_caps c (wstep_capability s) p e) = Inl x \<and> ordinary x" and "\<not> is_mcp s"
    and "wc_vault c = None" and w: "registered iid w" "current_step flow (inst_of w iid) = Some s"
      "we_guard w = None" "we_sandbox w = None"
    and a: "a = dget_or (wi_attempts (inst_of w iid)) (wstep_id s) 0" and gate: "\<not> (wstep_approval s \<and> a = 0)"
    and comp: "compensation_of s = []"
  defines "inst \<equiv> (inst_of w iid)\<lparr>wi_current := Some (wstep_id s), wi_attempts := dset (wstep_id s) (a + 1) (wi_attempts (inst_of w iid))\<rparr>"
  shows "\<exists>x w'. ordinary x \<and>
     we_guard w' = None \<and> we_sandbox w' = None \<and> registered iid w' \<and>
     (if a + 1 < sr_max_attempts (wstep_retry s)
      then (\<exists>b. step_pass c flow None policy iid w = (RetryAfter b, w')) \<and> inst_of w' iid = inst \<and> we_dlq w' = we_dlq w \<and>
           we_sink w' = emits (failure_log iid s a [exn_msg x]) (we_sink w)
      else (\<exists>u. step_pass c flow None policy iid w =
              (Finished (Inr (json_artifact u ''error'' [(''error'', PStr (exn_msg x))] None)), w')) \<and>
           inst_of w' iid = inst\<lparr>wi_status := FAILED\<rparr> \<and>
           map_option dq_entries (we_dlq w') =
             map_option (\<lambda>q. dq_entries q @ [dead_step_entry (wc_now c (we_env w')) iid s (resolve_inputs s inst) (a + 1) (exn_msg x)]) (we_dlq w) \<and>
           we_sink w' = emits (failure_log iid s a [exn_msg x] @ [HealthEv (WorkflowStalled iid (wstep_id s) (exn_msg x))]) (we_sink w))"
proof -
  let ?w2 = "started_state iid s w"
  have inst: "inst_of ?w2 iid = inst" using w(1) by (simp add: inst_def a)
  obtain x w3 where run: "run_step c s (resolve_inputs s inst) None (Some iid) ?w2 = (Inl x, w3)" and x: "ordinary x" and k: "kept w3 = kept ?w2"
    using run_step_fails [OF fails assms(2)] by blast
  note k = keptD [OF k]
  have "guarded_run c flow s (resolve_inputs s inst) None policy iid None ?w2 = (Inl x, w3)"
    using w(3,4) run by (simp add: guarded_run_def)
  then have pass: "step_pass c flow None policy iid w = step_failed c flow iid s (resolve_inputs s inst) (a + 1) x w3"
    using step_pass_runs [OF w(2), of c None policy] gate a assms(2,3) x w(3) inst by (simp add: step_try_def Let_def ordinary_def)
  have reg: "registered iid w3" using k w(1) by simp
  show ?thesis
  proof (cases "a + 1 < sr_max_attempts (wstep_retry s)")
    case True
    let ?w' = "we_emit (WorkflowEv (WorkflowStepFailed iid (wstep_id s) (exn_msg x) (a + 1) True)) w3"
    have "\<exists>b. step_pass c flow None policy iid w = (RetryAfter b, ?w')"
      using True unfolding pass step_failed_def Let_def by simp
    moreover have "inst_of ?w' iid = inst" "we_dlq ?w' = we_dlq w" "we_guard ?w' = None" "we_sandbox ?w' = None" "registered iid ?w'"
      using k w(3,4) inst reg by simp_all
    moreover have "we_sink ?w' = emits (failure_log iid s a [exn_msg x]) (we_sink w)"
      using True by (simp add: k(1))
    ultimately show ?thesis using x unfolding if_P [OF True]
      by - (rule exI [of _ x], rule exI [of _ ?w'], intro conjI)
  next
    case False
    let ?w4 = "we_emit (WorkflowEv (WorkflowStepFailed iid (wstep_id s) (exn_msg x) (a + 1) False)) w3"
    obtain w' where w': "step_exhausted c flow iid s (resolve_inputs s inst) (a + 1) x ?w4 =
         (Inr (json_artifact (wc_uid c (we_env ?w4)) ''error'' [(''error'', PStr (exn_msg x))] None), w')"
      and rest: "we_guard w' = we_guard ?w4 \<and> we_sandbox w' = we_sandbox ?w4 \<and> we_env w' = we_env ?w4 \<and>
        (registered iid ?w4 \<longrightarrow> registered iid w' \<and> inst_of w' iid = (inst_of ?w4 iid)\<lparr>wi_status := FAILED\<rparr>) \<and>
        we_dlq w' = map_option (dlq_append (dead_step_entry (wc_now c (we_env ?w4)) iid s (resolve_inputs s inst) (a + 1) (exn_msg x))) (we_dlq ?w4) \<and>
        we_sink w' = emit (HealthEv (WorkflowStalled iid (wstep_id s) (exn_msg x))) (we_sink ?w4)"
      using step_exhausted_fails [OF comp, of c flow iid "resolve_inputs s inst" "a + 1" x ?w4] by blast
    have "step_pass c flow None policy iid w =
        (Finished (Inr (json_artifact (wc_uid c (we_env ?w4)) ''error'' [(''error'', PStr (exn_msg x))] None)), w')"
      using False w' unfolding pass step_failed_def Let_def by simp
    moreover have "we_guard w' = None" "we_sandbox w' = None" "registered iid w'" "inst_of w' iid = inst\<lparr>wi_status := FAILED\<rparr>"
      using rest reg k(4-6) w(3,4) inst by simp_all
    moreover have "map_option dq_entries (we_dlq w') =
        map_option (\<lambda>q. dq_entries q @ [dead_step_entry (wc_now c (we_env w')) iid s (resolve_inputs s inst) (a + 1) (exn_msg x)]) (we_dlq w)"
      using rest by (simp add: k(3) dlq_append_def option.map_comp o_def)
    moreover have "we_sink w' = emits (failure_log iid s a [exn_msg x] @ [HealthEv (WorkflowStalled iid (wstep_id s) (exn_msg x))]) (we_sink w)"
      using rest False by (simp add: k(1))
    ultimately show ?thesis using x unfolding if_not_P [OF False]
      by - (rule exI [of _ x], rule exI [of _ w'], intro conjI, assumption, assumption, assumption, assumption, rule exI)
  qed
qed

declare execute_step.simps [simp del]

text \<open>A step that always fails is attempted until the attempts run out.\<close>

lemma exhausts:
  assumes fails: "\<And>p e. \<exists>x. fst (wc_caps c (wstep_capability s) p e) = Inl x \<and> ordinary x" and "\<not> is_mcp s"
    and "wc_vault c = None" and sleeps: "\<And>b e. fst (wc_sleep c b e) = Inr ()"
    and s: "step_by_id (wf_steps flow) (wstep_id s) = Some s" and comp: "compensation_of s = []"
    and w: "registered iid w" "wi_current (inst_of w iid) = Some (wstep_id s)" "we_guard w = None" "we_sandbox w = None"
    and a: "dget_or (wi_attempts (inst_of w iid)) (wstep_id s) 0 = a" and gate: "\<not> (wstep_approval s \<and> a = 0)"
    and n: "n = nat (sr_max_attempts (wstep_retry s) - a) - 1" "0 \<le> a"
  shows "\<exists>u msgs w'. length msgs = n + 1 \<and>
     execute_step c flow None policy iid w = (Inr (json_artifact u ''error'' [(''error'', PStr (last msgs))] None), w') \<and>
     wi_status (inst_of w' iid) = FAILED \<and> wi_current (inst_of w' iid) = Some (wstep_id s) \<and>
     dget (wi_attempts (inst_of w' iid)) (wstep_id s) = Some (a + int n + 1) \<and>
     (\<exists>now params. map_option dq_entries (we_dlq w') =
        map_option (\<lambda>q. dq_entries q @ [dead_step_entry now iid s params (a + int n + 1) (last msgs)]) (we_dlq w)) \<and>
     we_sink w' = emits (failure_log iid s a msgs @ [HealthEv (WorkflowStalled iid (wstep_id s) (last msgs))]) (we_sink w)"
  using w a gate n
proof (induction n arbitrary: w a policy)
  case 0
  let ?i = "(inst_of w iid)\<lparr>wi_current := Some (wstep_id s), wi_attempts := dset (wstep_id s) (a + 1) (wi_attempts (inst_of w iid))\<rparr>"
  have cur: "current_step flow (inst_of w iid) = Some s" using 0 s by (simp add: current_step_def)
  have last: "\<not> a + 1 < sr_max_attempts (wstep_retry s)" using 0 by auto
  obtain x u w' where p: "step_pass c flow None policy iid w = (Finished (Inr (json_artifact u ''error'' [(''error'', PStr (exn_msg x))] None)), w')"
    and i: "inst_of w' iid = ?i\<lparr>wi_status := FAILED\<rparr>"
    and d: "map_option dq_entries (we_dlq w') = map_option (\<lambda>q. dq_entries q @
         [dead_step_entry (wc_now c (we_env w')) iid s (resolve_inputs s ?i) (a + 1) (exn_msg x)]) (we_dlq w)"
    and k: "we_sink w' = emits (failure_log iid s a [exn_msg x] @ [HealthEv (WorkflowStalled iid (wstep_id s) (exn_msg x))]) (we_sink w)"
    using failing_pass [where policy = policy, OF fails assms(2,3) 0(1) cur 0(3,4) 0(5) [symmetric] 0(6) comp] unfolding if_not_P [OF last] by blast
  have "execute_step c flow None policy iid w = (Inr (json_artifact u ''error'' [(''error'', PStr (exn_msg x))] None), w')"
    using 0(1) p by (subst execute_step.simps) simp
  with i d k show ?case by (intro exI [of _ u] exI [of _ "[exn_msg x]"] exI [of _ w']) auto
next
  case (Suc n)
  let ?i = "(inst_of w iid)\<lparr>wi_current := Some (wstep_id s), wi_attempts := dset (wstep_id s) (a + 1) (wi_attempts (inst_of w iid))\<rparr>"
  have cur: "current_step flow (inst_of w iid) = Some s" using Suc.prems s by (simp add: current_step_def)
  have more: "a + 1 < sr_max_attempts (wstep_retry s)" using Suc.prems by auto
  obtain x b w1 where p: "step_pass c flow None policy iid w = (RetryAfter b, w1)" and i: "inst_of w1 iid = ?i"
    and d: "we_dlq w1 = we_dlq w" "we_guard w1 = None" "we_sandbox w1 = None" "registered iid w1"
    and k: "we_sink w1 = emits (failure_log iid s a [exn_msg x]) (we_sink w)"
    using failing_pass [where policy = policy, OF fails assms(2,3) Suc.prems(1) cur Suc.prems(3,4) Suc.prems(5) [symmetric] Suc.prems(6) comp]
    unfolding if_P [OF more] by blast
  define w2 where "w2 = snd (call_env (wc_sleep c b) w1)"
  have sl: "call_env (wc_sleep c b) w1 = (Inr (), w2)"
    using sleeps [of b "we_env w1"] by (simp add: w2_def call_env_def case_prod_beta)
  have w2: "we_sink w2 = we_sink w1" "we_dlq w2 = we_dlq w1" "we_guard w2 = None" "we_sandbox w2 = None"
      "registered iid w2" "inst_of w2 iid = ?i"
    using d i by (simp_all add: w2_def call_env_def case_prod_beta)
  have ex: "execute_step c flow None policy iid w = execute_step c flow None None iid w2"
    using Suc.prems(1) p sl by (subst execute_step.simps) simp
  have "wi_current (inst_of w2 iid) = Some (wstep_id s)" "dget_or (wi_attempts (inst_of w2 iid)) (wstep_id s) 0 = a + 1"
    "\<not> (wstep_approval s \<and> a + 1 = 0)" "n = nat (sr_max_attempts (wstep_retry s) - (a + 1)) - 1" "0 \<le> a + 1"
    using w2(6) Suc.prems(7,8) by auto
  from Suc.IH [OF w2(5) this(1) w2(3,4) this(2-5), of None] obtain u msgs w' where IH: "length msgs = n + 1"
     "execute_step c flow None None iid w2 = (Inr (json_artifact u ''error'' [(''error'', PStr (last msgs))] None), w')"
     "wi_status (inst_of w' iid) = FAILED" "wi_current (inst_of w' iid) = Some (wstep_id s)"
     "dget (wi_attempts (inst_of w' iid)) (wstep_id s) = Some (a + 1 + int n + 1)"
     "\<exists>now params. map_option dq_entries (we_dlq w') =
        map_option (\<lambda>q. dq_entries q @ [dead_step_entry now iid s params (a + 1 + int n + 1) (last msgs)]) (we_dlq w2)"
     "we_sink w' = emits (failure_log iid s (a + 1) msgs @ [HealthEv (WorkflowStalled iid (wstep_id s) (last msgs))]) (we_sink w2)"
    by blast
  from IH(1) have "msgs \<noteq> []" by auto
  with IH ex w2 d k show ?case
    by (intro exI [of _ u] exI [of _ "exn_msg x # msgs"] exI [of _ w']) (auto simp: algebra_simps)
qed

lemma compensate_ends:
  assumes "registered iid w" and "compensate c flow iid fs w = (Inr (), w')"
  shows "registered iid w' \<and> wi_status (inst_of w' iid) = FAILED"
proof -
  let ?run = "run_compensations c flow iid fs (compensation_order flow fs) (set_status iid COMPENSATING w)"
  obtain r w1 where run: "?run = (r, w1)" by (cases ?run)
  then have w': "w' = set_status iid FAILED w1"
    using assms(2) by (cases r) (simp_all add: compensate_def)
  have "progress w1 = progress w"
    using progress_run_compensations [of c flow iid fs "compensation_order flow fs" "set_status iid COMPENSATING w"] run by simp
  then have "registered iid w1" using registered_progress [of w1 w iid] assms(1) by blast
  with w' show ?thesis by simp
qed

lemma step_exhausted_ends:
  assumes "registered iid w" and "step_exhausted c flow iid s params att x w = (Inr a, w')"
  shows "registered iid w' \<and> wi_status (inst_of w' iid) = FAILED"
proof (cases "compensation_of s = []")
  case True
  from step_exhausted_fails [OF True, of c flow iid params att x w] assms show ?thesis by auto
next
  case False
  from assms obtain w3 where "compensate c flow iid (wstep_id s) w3 = (Inr (), w')" "registered iid w3"
    using False by (fastforce simp: step_exhausted_def Let_def split: prod.splits sum.splits)
  then show ?thesis by (rule compensate_ends [rotated])
qed

lemma step_failed_ends:
  assumes "registered iid w" and "step_failed c flow iid s params att x w = (Finished (Inr a), w')"
  shows "registered iid w' \<and> wi_status (inst_of w' iid) = FAILED"
proof -
  obtain w1 where "step_exhausted c flow iid s params att x w1 = (Inr a, w')" "registered iid w1"
    using assms by (fastforce simp: step_failed_def Let_def map_prod_def split: if_splits prod.splits)
  then show ?thesis by (rule step_exhausted_ends [rotated])
qed

lemma advance_next [simp]: "wi_current (advance flow i) = next_step flow (wi_current i)"
  by (simp add: advance_def next_step_def Let_def split: option.splits)

lemma step_succeeded_next:
  assumes "registered iid w"
  shows "registered iid (step_succeeded c flow iid s t a w) \<and> wi_current (inst_of (step_succeeded c flow iid s t a w) iid) = next_step flow (wi_current (inst_of w iid))"
  using assms by (simp add: step_succeeded_def Let_def)

lemma step_try_moves:
  assumes "step_try c flow agent policy iid s params att w = (Finished (Inr a), w')" and "registered iid w"
  shows "stopped iid w' \<or> registered iid w' \<and> wi_current (inst_of w' iid) = next_step flow (wi_current (inst_of w iid))"
proof -
  let ?pkg = "if we_guard w \<noteq> None \<and> wstep_capability s \<noteq> [] then step_package_id c (wstep_capability s) w else None"
  obtain r w1 where run: "guarded_run c flow s params agent policy iid ?pkg w = (r, w1)"
    by (cases "guarded_run c flow s params agent policy iid ?pkg w")
  note p = progress_guarded_run [OF run]
  have reg: "registered iid w1" using registered_progress [OF p] assms(2) by simp
  have cur: "wi_current (inst_of w1 iid) = wi_current (inst_of w iid)" using current_progress [OF p assms(2)] by simp
  show ?thesis
  proof (cases r)
    case (Inr a')
    with assms(1) run have "w' = step_succeeded c flow iid s (wc_mono c (we_env w)) a' w1"
      by (auto simp: step_try_def Let_def)
    with step_succeeded_next [OF reg] cur show ?thesis by simp
  next
    case (Inl exc)
    with assms(1) run consider "w' = snd (step_denied c iid s ?pkg w1)" | "step_failed c flow iid s params att exc w1 = (Finished (Inr a), w')"
      by (auto simp: step_try_def Let_def map_prod_def split: if_splits prod.splits)
    then show ?thesis
    proof cases
      case 1
      with reg show ?thesis by (simp add: step_denied_def Let_def stopped_def)
    next
      case 2
      from step_failed_ends [OF reg this] show ?thesis by (simp add: stopped_def)
    qed
  qed
qed

lemma progress_call_envD: "call_env f w = (r, w') \<Longrightarrow> progress w' = progress w"
  using progress_call_env [of f w] by simp

lemma step_pass_moves:
  assumes "step_pass c flow agent policy iid w = (Finished (Inr a), w')" and "registered iid w"
  shows "stopped iid w' \<or> registered iid w' \<and> wi_current (inst_of w' iid) = next_step flow (wi_current (inst_of w iid))"
proof (cases "current_step flow (inst_of w iid)")
  case None
  with assms show ?thesis by (auto simp: step_pass_def stopped_def)
next
  case (Some s)
  let ?att = "dget_or (wi_attempts (inst_of w iid)) (wstep_id s) 0 + 1"
  let ?raw = "resolve_inputs s (inst_of (started_state iid s w) iid)"
  have cur: "wi_current (inst_of w iid) = Some (wstep_id s)"
    using Some by (auto simp: current_step_def dest: step_by_id_id split: option.splits)
  have body: "stopped iid w' \<or> registered iid w' \<and> wi_current (inst_of w' iid) = next_step flow (wi_current (inst_of w iid))"
    if "step_try c flow agent policy iid s params ?att w3 = (Finished (Inr a), w')" "progress w3 = progress (started_state iid s w)" for params w3
    using step_try_moves [OF that(1)] registered_progress [OF that(2), of iid] current_progress(1) [OF that(2), of iid] assms(2) cur
    by simp
  have mcp: "stopped iid (we_emit e (set_status iid FAILED w3))" if "progress w3 = progress (started_state iid s w)" for e w3
    using registered_progress [OF that, of iid] assms(2) by (simp add: stopped_def)
  show ?thesis
  proof (cases "wstep_approval s \<and> ?att = 1")
    case True
    with assms Some show ?thesis by (auto simp: step_pass_def Let_def stopped_def)
  next
    case False
    let ?v = "case wc_vault c of None \<Rightarrow> (Inr ?raw, started_state iid s w) | Some (interpolate, _) \<Rightarrow> call_env (interpolate iid ?raw) (started_state iid s w)"
    obtain r w3 where v: "?v = (r, w3)" by (cases ?v)
    have p: "progress w3 = progress (started_state iid s w)"
      using v by (auto dest!: progress_call_envD split: option.splits)
    have "step_pass c flow agent policy iid w =
       (case ?v of
          (Inl x, w3) \<Rightarrow> (Finished (Inl x), w3)
        | (Inr params, w3) \<Rightarrow>
            if is_mcp s \<and> wc_mcp c = None
            then (Finished (Inr (json_artifact (wc_uid c (we_env w3)) ''error''
                    [(''reason'', PStr ''mcp_not_wired''), (''capability'', PStr (wstep_capability s))] None)),
                  we_emit (WorkflowEv (WorkflowStepFailed iid (wstep_id s) ''mcp_not_wired'' ?att False)) (set_status iid FAILED w3))
            else step_try c flow agent policy iid s params ?att w3)"
      unfolding step_pass_def Some option.case Let_def if_not_P [OF False] started_state_def ..
    with assms(1) v show ?thesis
      using body [OF _ p] mcp [OF p] by (auto split: sum.splits if_splits)
  qed
qed

lemma execute_moves:
  assumes "execute_step c flow agent policy iid w = (Inr a, w')" and "registered iid w"
  shows "stopped iid w' \<or> registered iid w' \<and> wi_current (inst_of w' iid) = next_step flow (wi_current (inst_of w iid))"
  using assms
proof (induction c flow agent policy iid w rule: execute_step.induct)
  case (1 c flow agent policy iid w)
  obtain out w1 where pass: "step_pass c flow agent policy iid w = (out, w1)" by (cases "step_pass c flow agent policy iid w")
  show ?case
  proof (cases out)
    case (Finished r)
    with "1.prems" pass have "step_pass c flow agent policy iid w = (Finished (Inr a), w')"
      by (subst (asm) execute_step.simps) simp
    then show ?thesis using "1.prems"(2) by (rule step_pass_moves)
  next
    case (RetryAfter b)
    obtain r w2 where sl: "call_env (wc_sleep c b) w1 = (r, w2)" by (cases "call_env (wc_sleep c b) w1")
    have ex: "execute_step c flow agent None iid w2 = (Inr a, w')" and r: "r = Inr ()"
      using "1.prems" pass RetryAfter sl by (subst (asm) execute_step.simps, simp split: sum.splits)+
    have "dget (we_insts w) iid \<noteq> None" using "1.prems"(2) by (simp add: registered_def)
    from step_pass_retry [OF pass [unfolded RetryAfter] this] obtain s att
      where "current_step flow (inst_of w iid) = Some s" and p: "progress w1 iid = Some (Some (wstep_id s), att)" by blast
    then have cur: "wi_current (inst_of w iid) = Some (wstep_id s)"
      by (auto simp: current_step_def dest: step_by_id_id split: option.splits)
    have "progress w2 iid = Some (Some (wstep_id s), att)" using p progress_call_envD [OF sl] by simp
    then have "registered iid w2" "wi_current (inst_of w2 iid) = Some (wstep_id s)"
      by (auto simp: progress_def registered_def inst_of_def)
    with "1.IH" [OF get_instance_registered [OF "1.prems"(2)] pass [symmetric] RetryAfter sl [symmetric] r ex] cur show ?thesis by simp
  qed
qed

text \<open>With distinct ids the next step is further down the list.\<close>

lemma step_index_from:
  "step_index_from n ss i = (if i \<in> wstep_id ` set ss then n + int (length (takeWhile (\<lambda>s. wstep_id s \<noteq> i) ss)) else - 1)"
  by (induction ss arbitrary: n) auto

lemma step_index_nth:
  assumes "distinct (map wstep_id (wf_steps flow))" and "k < length (wf_steps flow)"
  shows "step_index flow (wstep_id (wf_steps flow ! k)) = int k"
proof -
  have "length (takeWhile (\<lambda>s. wstep_id s \<noteq> wstep_id (wf_steps flow ! k)) (wf_steps flow)) = k"
    using assms by (subst takeWhile_eq_take_P_nth [of k]) (auto simp: distinct_conv_nth)
  then show ?thesis using assms(2) by (auto simp: step_index_def step_index_from)
qed

lemma step_index_bound: "step_index flow i < int (length (wf_steps flow))"
proof -
  have "length (takeWhile (\<lambda>s. wstep_id s \<noteq> i) ss) < length ss" if "i \<in> wstep_id ` set ss" for ss
    using that by (induction ss) auto
  then show ?thesis by (auto simp: step_index_def step_index_from)
qed

lemma steps_left_next:
  assumes "distinct (map wstep_id (wf_steps flow))" and "cur \<noteq> None"
  shows "steps_left flow (next_step flow cur) < steps_left flow cur"
proof -
  obtain i where "cur = Some i" using assms(2) by blast
  with step_index_bound [of flow i] step_index_nth [OF assms(1), of "nat (step_index flow i + 1)"] show ?thesis
    by (auto simp: next_step_def steps_left_def Let_def nat_add_distrib)
qed

lemma run_linear_returns:
  assumes "distinct (map wstep_id (wf_steps flow))" and "registered iid w" and "steps_left flow (wi_current (inst_of w iid)) \<le> fuel"
  shows "\<exists>r w'. run_linear c flow fuel iid as w = Some (r, w')"
  using assms(2,3)
proof (induction fuel arbitrary: as w)
  case 0
  then have "wi_current (inst_of w iid) = None"
    using step_index_bound [of flow "the (wi_current (inst_of w iid))"]
    by (auto simp: steps_left_def split: option.splits if_splits)
  then show ?case by simp
next
  case (Suc fuel)
  obtain r w1 where ex: "execute_step c flow None None iid w = (r, w1)" by (cases "execute_step c flow None None iid w")
  show ?case
  proof (cases "wi_status (inst_of w iid) = RUNNING \<and> wi_current (inst_of w iid) \<noteq> None")
    case True
    show ?thesis
    proof (cases r)
      case (Inr a)
      from execute_moves [OF ex [unfolded Inr] Suc.prems(1)] show ?thesis
      proof
        assume "stopped iid w1"
        then have "\<not> (wi_status (inst_of w1 iid) = RUNNING)" by (auto simp: stopped_def)
        then have "run_linear c flow fuel iid as' w1 = Some (Inr as', w1)" for as' by (cases fuel) auto
        with ex Inr True show ?thesis by auto
      next
        assume a: "registered iid w1 \<and> wi_current (inst_of w1 iid) = next_step flow (wi_current (inst_of w iid))"
        with True Suc.prems(2) steps_left_next [OF assms(1), of "wi_current (inst_of w iid)"]
        have "steps_left flow (wi_current (inst_of w1 iid)) \<le> fuel" by simp
        with Suc.IH a ex Inr True show ?thesis by auto
      qed
    qed (use ex True in auto)
  qed auto
qed

lemma run_linear_fuel:
  "run_linear c flow fuel iid as w = Some r \<Longrightarrow> fuel \<le> fuel' \<Longrightarrow> run_linear c flow fuel' iid as w = Some r"
proof (induction fuel arbitrary: fuel' as w)
  case 0
  then show ?case by (cases fuel') (auto split: if_splits)
next
  case (Suc fuel)
  then show ?case by (cases fuel') (auto split: if_splits prod.splits sum.splits)
qed

lemma succeeding_step:
  assumes ok: "\<And>cap p e. \<exists>a. fst (wc_caps c cap p e) = Inr a" and "wc_vault c = None" and "plain_step s" "plain_engine w"
    and w: "registered iid w" "wi_current (inst_of w iid) = Some (wstep_id s)" "step_by_id (wf_steps flow) (wstep_id s) = Some s"
  shows "\<exists>a d w' now. execute_step c flow None None iid w = (Inr a, w') \<and> registered iid w' \<and> plain_engine w' \<and>
     we_sink w' = emits (success_log iid [s] [(a, d)]) (we_sink w) \<and> we_dlq w' = we_dlq w \<and>
     wi_current (inst_of w' iid) = next_step flow (Some (wstep_id s)) \<and>
     wi_status (inst_of w' iid) = (if next_step flow (Some (wstep_id s)) = None then COMPLETED else wi_status (inst_of w iid)) \<and>
     wi_results (inst_of w' iid) = dset (wstep_id s) (PStr (af_id a)) (wi_results (inst_of w iid))"
proof -
  let ?w2 = "started_state iid s w" and ?ps = "resolve_inputs s (inst_of (started_state iid s w) iid)"
  have cur: "current_step flow (inst_of w iid) = Some s" using w by (simp add: current_step_def)
  obtain a e where caps: "wc_caps c (wstep_capability s) ?ps (we_env w) = (Inr a, e)"
    using ok [of "wstep_capability s" ?ps "we_env w"] by (metis prod.collapse)
  have run: "guarded_run c flow s ?ps None None iid None ?w2 = (Inr a, ?w2\<lparr>we_env := e\<rparr>)"
    using assms(3,4) caps
    by (simp add: guarded_run_def run_step_def in_circuit_def run_step_inner_def plain_step_def plain_engine_def call_env_def Let_def)
  let ?w' = "step_succeeded c flow iid s (wc_mono c (we_env ?w2)) a (?w2\<lparr>we_env := e\<rparr>)"
  have pass: "step_pass c flow None None iid w = (Finished (Inr a), ?w')"
    using step_pass_runs [OF cur, of c None None] assms(2-4) run
    by (simp add: plain_step_def plain_engine_def step_try_def Let_def)
  have ex: "execute_step c flow None None iid w = (Inr a, ?w')"
    using w(1) pass by (subst execute_step.simps) simp
  show ?thesis
  proof (intro exI conjI)
    show "execute_step c flow None None iid w = (Inr a, ?w')" by (fact ex)
    show "registered iid ?w'" "plain_engine ?w'" "we_dlq ?w' = we_dlq w"
      using w(1) assms(4) by (simp_all add: step_succeeded_def Let_def plain_engine_def)
    show "we_sink ?w' = emits (success_log iid [s] [(a, (wc_mono c e - wc_mono c (we_env w)) * 1000)]) (we_sink w)"
      using w(1) by (simp add: step_succeeded_def Let_def)
    show "wi_current (inst_of ?w' iid) = next_step flow (Some (wstep_id s))"
      using step_succeeded_next [of iid "?w2\<lparr>we_env := e\<rparr>"] w(1) by simp
    show "wi_status (inst_of ?w' iid) = (if next_step flow (Some (wstep_id s)) = None then COMPLETED else wi_status (inst_of w iid))"
      using w(1) by (auto simp: step_succeeded_def Let_def advance_def next_step_def split: option.splits)
    show "wi_results (inst_of ?w' iid) = dset (wstep_id s) (PStr (af_id a)) (wi_results (inst_of w iid))"
      using w(1) by (simp add: step_succeeded_def Let_def advance_def split: option.splits)
  qed
qed

lemma drop_ConsD: "drop k xs = y # ys \<Longrightarrow> k < length xs \<and> xs ! k = y \<and> drop (Suc k) xs = ys"
proof -
  assume d: "drop k xs = y # ys"
  then have "k < length xs" by (metis drop_all list.distinct(1) not_le_imp_less)
  with Cons_nth_drop_Suc [of k xs] d show ?thesis by simp
qed

lemma step_by_id_nth:
  assumes "distinct (map wstep_id ss)" and "k < length ss"
  shows "step_by_id ss (wstep_id (ss ! k)) = Some (ss ! k)"
  using assms
proof (induction ss arbitrary: k)
  case (Cons s ss)
  then show ?case by (cases k) auto
qed simp

lemma next_step_nth:
  assumes "distinct (map wstep_id (wf_steps flow))" and "k < length (wf_steps flow)"
  shows "next_step flow (Some (wstep_id (wf_steps flow ! k))) =
    (if Suc k < length (wf_steps flow) then Some (wstep_id (wf_steps flow ! Suc k)) else None)"
  using step_index_nth [OF assms] by (auto simp: next_step_def Let_def nat_add_distrib)

lemma succeeding_run:
  assumes ok: "\<And>cap p e. \<exists>a. fst (wc_caps c cap p e) = Inr a" and "wc_vault c = None"
    and plain: "\<forall>s \<in> set (wf_steps flow). plain_step s" and dist: "distinct (map wstep_id (wf_steps flow))"
    and "registered iid w" "plain_engine w" "wi_status (inst_of w iid) = RUNNING"
    and "drop k (wf_steps flow) = s # ss" and "wi_current (inst_of w iid) = Some (wstep_id s)"
  shows "\<exists>ads w'. run_linear c flow (Suc (length ss)) iid as w = Some (Inr (as @ map fst ads), w') \<and> length ads = Suc (length ss) \<and>
     wi_status (inst_of w' iid) = COMPLETED \<and> wi_current (inst_of w' iid) = None \<and> we_dlq w' = we_dlq w \<and>
     we_sink w' = emits (success_log iid (s # ss) ads) (we_sink w) \<and>
     wi_results (inst_of w' iid) = fold (\<lambda>(s, a, _). dset (wstep_id s) (PStr (af_id a))) (zip (s # ss) ads) (wi_results (inst_of w iid))"
  using assms(5-9)
proof (induction ss arbitrary: w k s as)
  case Nil
  note d = drop_ConsD [OF Nil.prems(4)]
  then have k: "k < length (wf_steps flow)" "s = wf_steps flow ! k" "\<not> Suc k < length (wf_steps flow)" by auto
  have s: "plain_step s" "step_by_id (wf_steps flow) (wstep_id s) = Some s" "next_step flow (Some (wstep_id s)) = None"
    using k plain step_by_id_nth [OF dist, of k] next_step_nth [OF dist, of k] by auto
  from succeeding_step [OF ok assms(2) s(1) Nil.prems(2,1,5) s(2)] s(3) obtain a d w' where st:
    "execute_step c flow None None iid w = (Inr a, w')" "we_dlq w' = we_dlq w" "wi_current (inst_of w' iid) = None"
    "wi_status (inst_of w' iid) = COMPLETED" "we_sink w' = emits (success_log iid [s] [(a, d)]) (we_sink w)"
    "wi_results (inst_of w' iid) = dset (wstep_id s) (PStr (af_id a)) (wi_results (inst_of w iid))" by auto
  then have "run_linear c flow (Suc (length [])) iid as w = Some (Inr (as @ map fst [(a, d)]), w')"
    using Nil.prems(3,5) by simp
  with st show ?case by (intro exI [of _ "[(a, d)]"] exI [of _ w']) simp
next
  case (Cons t ss)
  note d = drop_ConsD [OF Cons.prems(4)]
  note d' = drop_ConsD [of "Suc k" "wf_steps flow" t ss]
  from d d' have k: "k < length (wf_steps flow)" "s = wf_steps flow ! k" "Suc k < length (wf_steps flow)" "t = wf_steps flow ! Suc k" by auto
  have s: "plain_step s" "step_by_id (wf_steps flow) (wstep_id s) = Some s" "next_step flow (Some (wstep_id s)) = Some (wstep_id t)"
    using k plain step_by_id_nth [OF dist, of k] next_step_nth [OF dist, of k] by auto
  from succeeding_step [OF ok assms(2) s(1) Cons.prems(2,1,5) s(2)] s(3) Cons.prems(3) obtain a d w1 where st:
    "execute_step c flow None None iid w = (Inr a, w1)" "registered iid w1" "plain_engine w1" "we_dlq w1 = we_dlq w"
    "wi_current (inst_of w1 iid) = Some (wstep_id t)" "wi_status (inst_of w1 iid) = RUNNING"
    "we_sink w1 = emits (success_log iid [s] [(a, d)]) (we_sink w)"
    "wi_results (inst_of w1 iid) = dset (wstep_id s) (PStr (af_id a)) (wi_results (inst_of w iid))" by auto
  have "drop (Suc k) (wf_steps flow) = t # ss" using \<open>k < _ \<and> _\<close> by simp
  from Cons.IH [OF st(2,3,6) this st(5), of "as @ [a]"] obtain ads w' where IH:
    "run_linear c flow (Suc (length ss)) iid (as @ [a]) w1 = Some (Inr (as @ a # map fst ads), w')" "length ads = Suc (length ss)"
    "wi_status (inst_of w' iid) = COMPLETED" "wi_current (inst_of w' iid) = None" "we_dlq w' = we_dlq w1"
    "we_sink w' = emits (success_log iid (t # ss) ads) (we_sink w1)"
    "wi_results (inst_of w' iid) = fold (\<lambda>(s, a, _). dset (wstep_id s) (PStr (af_id a))) (zip (t # ss) ads) (wi_results (inst_of w1 iid))"
    by auto
  have "run_linear c flow (Suc (length (t # ss))) iid as w = Some (Inr (as @ map fst ((a, d) # ads)), w')"
    using Cons.prems(3,5) st(1) IH(1) by simp
  with IH st show ?case by (intro exI [of _ "(a, d) # ads"] exI [of _ w']) simp
qed

lemma in_circuit_Exceptions:
  assumes "\<And>w x. fst (body w) = Inl x \<Longrightarrow> catches ''Exception'' x" and "fst (in_circuit c name body w) = Inl x"
  shows "catches ''Exception'' x"
proof (cases "we_res w")
  case None
  with assms show ?thesis by (simp add: in_circuit_def)
next
  case (Some r)
  have body: "body w = (Inl x, w') \<Longrightarrow> catches ''Exception'' x" for w x w' using assms(1) [of w] by simp
  have enter: "circuit_enter clock name s = (Inl x, s') \<Longrightarrow> catches ''Exception'' x" for clock s x s'
    by (auto simp: circuit_enter_def Let_def CircuitBreakerOpenError_def split: prod.splits if_splits)
  show ?thesis
    using assms(2) Some
    by (auto simp: in_circuit_def call_with_circuit_def dest!: body enter split: prod.splits sum.splits)
qed

lemma run_compensation_quiet:
  assumes "\<forall>cap p e x. fst (wc_caps c cap p e) = Inl x \<longrightarrow> catches ''Exception'' x"
    and "\<forall>r m. wc_mcp c = Some (r, m) \<longrightarrow> (\<forall>u t p e x. fst (m u t p e) = Inl x \<longrightarrow> catches ''Exception'' x)"
  shows "\<exists>w'. run_compensation c flow iid fs i w = (Inr (), w') \<and>
     we_sink w' = (if step_by_id (wf_steps flow) i = None then we_sink w else emit (WorkflowEv (WorkflowCompensating iid fs i)) (we_sink w))"
proof (cases "step_by_id (wf_steps flow) i")
  case None
  then show ?thesis by (simp add: run_compensation_def)
next
  case (Some s)
  let ?w1 = "we_emit (WorkflowEv (WorkflowCompensating iid fs i)) w"
  obtain r w2 where run: "run_step c s (resolve_inputs s (inst_of ?w1 iid)) None None ?w1 = (r, w2)"
    by (cases "run_step c s (resolve_inputs s (inst_of ?w1 iid)) None None ?w1")
  have "kept w2 = kept ?w1" using kept_run_step [of s c None "resolve_inputs s (inst_of ?w1 iid)" None ?w1] run by simp
  then have sink: "we_sink w2 = emit (WorkflowEv (WorkflowCompensating iid fs i)) (we_sink w)" by (simp add: kept_def)
  have caps: "catches ''Exception'' x" if "wc_caps c cap p e = (Inl x, e')" for cap p e x e'
    using that assms(1) by (metis fst_conv)
  have mcp: "catches ''Exception'' x" if "wc_mcp c = Some (f, m)" "m u t p e = (Inl x, e')" for f m u t p e x e'
    using that assms(2) by (metis fst_conv)
  have inner: "catches ''Exception'' x" if "fst (run_step_inner c s ps None None w) = Inl x" for ps w x
    using that
    by (auto simp: run_step_inner_def run_mcp_step_def call_env_def Let_def exn_simps dest: caps mcp
          split: option.splits prod.splits sum.splits if_splits)
  have "catches ''Exception'' x" if "r = Inl x" for x
  proof -
    have "fst (in_circuit c (''wf:'' @ ''unknown'' @ '':'' @ wstep_capability s)
        (run_step_inner c s (resolve_inputs s (inst_of ?w1 iid)) None None) ?w1) = Inl x"
      using run that by (simp add: run_step_def)
    from in_circuit_Exceptions [of "run_step_inner c s (resolve_inputs s (inst_of ?w1 iid)) None None", OF inner this] show ?thesis .
  qed
  with Some run sink show ?thesis by (cases r) (simp_all add: run_compensation_def Let_def)
qed

lemma run_compensations_quiet:
  assumes "\<forall>cap p e x. fst (wc_caps c cap p e) = Inl x \<longrightarrow> catches ''Exception'' x"
    and "\<forall>r m. wc_mcp c = Some (r, m) \<longrightarrow> (\<forall>u t p e x. fst (m u t p e) = Inl x \<longrightarrow> catches ''Exception'' x)"
  shows "\<exists>w'. run_compensations c flow iid fs is w = (Inr (), w') \<and>
     we_sink w' = emits (map (\<lambda>i. WorkflowEv (WorkflowCompensating iid fs i)) (filter (\<lambda>i. step_by_id (wf_steps flow) i \<noteq> None) is)) (we_sink w)"
proof (induction "is" arbitrary: w)
  case (Cons i "is")
  obtain w1 where w1: "run_compensation c flow iid fs i w = (Inr (), w1)"
    "we_sink w1 = (if step_by_id (wf_steps flow) i = None then we_sink w else emit (WorkflowEv (WorkflowCompensating iid fs i)) (we_sink w))"
    using run_compensation_quiet [OF assms] by blast
  with Cons.IH [of w1] show ?case by auto
qed simp

text \<open>
  What running compensations means for the instance and for the world outside, when no breaker stands
  between the engine and its capabilities: the capabilities are called one after the other with the
  inputs resolved on the instance as it is then, and the successes are recorded.
\<close>

fun compensated :: "'e wf_env \<Rightarrow> workflow \<Rightarrow> string list \<Rightarrow> wf_instance \<times> 'e \<Rightarrow> wf_instance \<times> 'e" where
  "compensated c flow [] (inst, e) = (inst, e)"
| "compensated c flow (k # ks) (inst, e) =
     (case step_by_id (wf_steps flow) k of
        None \<Rightarrow> compensated c flow ks (inst, e)
      | Some s \<Rightarrow>
          (case wc_caps c (wstep_capability s) (resolve_inputs s inst) e of
             (Inr _, e1) \<Rightarrow> compensated c flow ks (inst\<lparr>wi_results := dset k (PStr k) (wi_results inst)\<rparr>, e1)
           | (Inl _, e1) \<Rightarrow> compensated c flow ks (inst, e1)))"

definition direct :: "'e wf_env \<Rightarrow> workflow \<Rightarrow> 'e wf_engine \<Rightarrow> bool" where
  "direct c flow w \<longleftrightarrow> we_res w = None \<and> (wc_mcp c = None \<or> (\<forall>s \<in> set (wf_steps flow). \<not> is_mcp s))"

lemma step_by_id_in: "step_by_id ss k = Some s \<Longrightarrow> s \<in> set ss"
  by (induction ss) (auto split: if_splits)

lemma run_compensation_direct:
  assumes "\<forall>cap p e x. fst (wc_caps c cap p e) = Inl x \<longrightarrow> catches ''Exception'' x"
    and "direct c flow w" and "registered iid w"
  shows "let w' = snd (run_compensation c flow iid fs k w)
         in direct c flow w' \<and> registered iid w' \<and> (inst_of w' iid, we_env w') = compensated c flow [k] (inst_of w iid, we_env w)"
proof (cases "step_by_id (wf_steps flow) k")
  case None
  with assms show ?thesis by (simp add: run_compensation_def)
next
  case (Some s)
  let ?w1 = "we_emit (WorkflowEv (WorkflowCompensating iid fs k)) w" and ?ps = "resolve_inputs s (inst_of w iid)"
  have "s \<in> set (wf_steps flow)" using Some by (rule step_by_id_in)
  then have "run_step c s ?ps None None ?w1 = call_env (wc_caps c (wstep_capability s) ?ps) ?w1"
    using assms(2) by (auto simp: run_step_def in_circuit_def run_step_inner_def direct_def)
  moreover obtain r e1 where r: "wc_caps c (wstep_capability s) ?ps (we_env w) = (r, e1)" by fastforce
  moreover have "catches ''Exception'' x" if "r = Inl x" for x using assms(1) r that by (metis fst_conv)
  ultimately show ?thesis using Some assms(2,3) by (cases r) (simp_all add: run_compensation_def call_env_def direct_def Let_def)
qed

lemma compensated_append: "compensated c flow (ks @ js) st = compensated c flow js (compensated c flow ks st)"
proof (induction ks arbitrary: st)
  case Nil
  then show ?case by (cases st) simp
next
  case (Cons k ks)
  then show ?case by (cases st) (simp split: option.split prod.split sum.split)
qed

lemma run_compensations_direct:
  assumes "\<forall>cap p e x. fst (wc_caps c cap p e) = Inl x \<longrightarrow> catches ''Exception'' x"
    and "\<forall>r m. wc_mcp c = Some (r, m) \<longrightarrow> (\<forall>u t p e x. fst (m u t p e) = Inl x \<longrightarrow> catches ''Exception'' x)"
    and "direct c flow w" and "registered iid w"
  shows "let w' = snd (run_compensations c flow iid fs ks w)
         in registered iid w' \<and> (inst_of w' iid, we_env w') = compensated c flow ks (inst_of w iid, we_env w)"
  using assms(3,4)
proof (induction ks arbitrary: w)
  case (Cons k ks)
  obtain w1 where w1: "run_compensation c flow iid fs k w = (Inr (), w1)" using run_compensation_quiet [OF assms(1,2)] by blast
  have "direct c flow w1" "registered iid w1" and st: "(inst_of w1 iid, we_env w1) = compensated c flow [k] (inst_of w iid, we_env w)"
    using run_compensation_direct [OF assms(1) Cons.prems, of fs k] by (simp_all only: w1 snd_conv Let_def simp_thms)
  with Cons.IH [of w1] show ?case
    using compensated_append [of c flow "[k]" ks "(inst_of w iid, we_env w)"] by (simp only: w1 run_compensations.simps prod.case sum.case append.simps)
qed simp

lemma in_guard_denied:
  fixes w :: "'e wf_engine"
  assumes "\<not> check g pkg action res"
  shows "\<exists>x g' entry. (\<forall>body :: 'e wf_engine \<Rightarrow> (artifact, 'e wf_engine) res. in_guard c g pkg action res body w = (Inl x, w\<lparr>we_guard := Some g'\<rparr>)) \<and>
     catches ''PermissionDeniedError'' x \<and> g_audit g' = ring_push (g_audit_limit g) entry (g_audit g) \<and>
     ae_who entry = pkg \<and> ae_result entry = ''denied''"
proof -
  let ?clock = "\<lambda>g. wc_now c (we_env (guard.more g))" and ?x = "PermissionDeniedError (''permission denied: '' @ action @ '' on '' @ res @ '' for '' @ pkg)"
  let ?g = "g_emit (PermissionDenied pkg action res)
    (audit_record ?clock (wc_isofmt c) (wc_uid c (we_env w)) pkg action res ''denied'' [] (guard.extend g w))"
  let ?entry = "\<lparr>ae_entry_id = wc_uid c (we_env w), ae_who = pkg, ae_action = action, ae_resource = res, ae_result = ''denied'',
    ae_timestamp = wc_now c (we_env w), ae_detail = []\<rparr>"
  have "\<not> check (guard.extend g w) pkg action res" using assms by (simp add: check_def guard.defs)
  then have "guard_pre ?clock (wc_isofmt c) (wc_uid c (we_env w)) pkg action res (guard.extend g w) = (Inl ?x, ?g)"
    by (simp add: guard_pre_def)
  moreover have "guard.more ?g = w"
    by (simp add: audit_record_def audit_push_def g_emit_def Let_def)
  ultimately have "in_guard c g pkg action res body w = (Inl ?x, w\<lparr>we_guard := Some (guard.truncate ?g)\<rparr>)"
    for body :: "'e wf_engine \<Rightarrow> (artifact, 'e wf_engine) res"
    by (simp add: in_guard_def guard_call_def)
  moreover have "g_audit (guard.truncate ?g) = ring_push (g_audit_limit g) ?entry (g_audit g)"
    by (simp add: audit_record_def audit_push_def g_emit_def Let_def guard.defs)
  moreover have "catches ''PermissionDeniedError'' ?x" by (simp add: PermissionDeniedError_def std_exn_def)
  ultimately show ?thesis
    by (intro exI [of _ ?x] exI [of _ "guard.truncate ?g"] exI [of _ ?entry]) simp
qed

lemma breach_fails:
  assumes "\<And>s. P s \<Longrightarrow> \<exists>s'. cl s = (Inr (), s') \<and> P s'" and "\<And>e s. P s \<Longrightarrow> P (sb_emit e s)" and "P s"
  shows "\<exists>x s'. breach fmt v (Some cl) agg s = (Inl x, s') \<and> x \<in> {SandboxError fmt v, SandboxTimeoutError fmt v} \<and> P s'"
proof -
  let ?s1 = "sb_emit (SandboxViolationEvent agg (vi_type v) (policy_serialized (vi_policy v)) (vi_details v)) s"
  obtain s' where "cl ?s1 = (Inr (), s')" "P s'" using assms(1) [OF assms(2) [OF assms(3)]] by blast
  with assms(2) show ?thesis by (simp add: breach_def Let_def)
qed

lemma sandbox_run_fails:
  fixes coro :: "'a sandbox_scheme \<Rightarrow> ('v, 'a sandbox_scheme) res"
  assumes "\<And>s. P s \<Longrightarrow> \<exists>x s'. coro s = (Inl x, s') \<and> catches ''Exception'' x \<and> \<not> catches ''SandboxError'' x \<and> P s'"
    and "\<And>s. P s \<Longrightarrow> \<exists>s'. cl s = (Inr (), s') \<and> P s'" and "\<And>e s. P s \<Longrightarrow> P (sb_emit e s)" and "P s"
  shows "\<exists>x v s'. sandbox_run pr fmt coro p (Some cl) ctx s = (Inl x, s') \<and> x \<in> {SandboxError fmt v, SandboxTimeoutError fmt v} \<and> P s'"
proof -
  obtain x s1 where x: "coro s = (Inl x, s1)" "catches ''Exception'' x" "\<not> catches ''SandboxError'' x" "P s1" using assms(1,4) by blast
  have "\<exists>y s2. wait_for_coro (pr_mono pr) coro (ep_timeout_seconds p) s = (Inl y, s2) \<and> catches ''Exception'' y \<and>
      \<not> catches ''SandboxError'' y \<and> P s2"
    using x assms(4) by (auto simp: wait_for_coro_def exn_simps)
  then obtain y s2 where wait: "wait_for_coro (pr_mono pr) coro (ep_timeout_seconds p) s = (Inl y, s2)"
    and y: "catches ''Exception'' y" "\<not> catches ''SandboxError'' y" "P s2" by blast
  have "\<exists>x v' s'. breach fmt v (Some cl) agg s2 = (Inl x :: exn + 'v, s') \<and> x \<in> {SandboxError fmt v', SandboxTimeoutError fmt v'} \<and> P s'" for v agg
    using breach_fails [of P cl s2 fmt v agg, where 'b = 'v, OF assms(2,3) y(3)] by blast
  then show ?thesis using y(1,2) by (simp add: sandbox_run_def Let_def wait)
qed

lemma id_results_dset [simp]: "id_results i \<Longrightarrow> id_results (i\<lparr>wi_results := dset k (PStr x) (wi_results i)\<rparr>)"
  by (auto simp: id_results_def dest!: in_dsetD)

lemma all_id_results_wi_mod:
  assumes "all_id_results w" and "\<And>i. id_results i \<Longrightarrow> id_results (f i)"
  shows "all_id_results (wi_mod iid f w)"
  using assms
  by (fastforce simp: all_id_results_def wi_mod_def dest!: in_dsetD dest: dget_Some_in split: option.splits)

lemma all_id_results_simps [simp]:
  "all_id_results (we_emit e w) = all_id_results w" "all_id_results (w\<lparr>we_env := v\<rparr>) = all_id_results w"
  "all_id_results (w\<lparr>we_res := r\<rparr>) = all_id_results w" "all_id_results (w\<lparr>we_guard := g\<rparr>) = all_id_results w"
  "all_id_results (w\<lparr>we_sandbox := sb\<rparr>) = all_id_results w" "all_id_results (w\<lparr>we_dlq := d\<rparr>) = all_id_results w"
  by (simp_all add: all_id_results_def we_emit_def)

lemma id_results_updates [simp]:
  "id_results (i\<lparr>wi_status := st\<rparr>) = id_results i" "id_results (i\<lparr>wi_current := cur\<rparr>) = id_results i"
  "id_results (i\<lparr>wi_attempts := m\<rparr>) = id_results i" "id_results (i\<lparr>wi_event_log := l\<rparr>) = id_results i"
  "id_results (i\<lparr>wi_context := cx\<rparr>) = id_results i" "id_results (i\<lparr>wi_completed_at := t\<rparr>) = id_results i"
  "id_results (advance flow i) = id_results i"
  by (simp_all add: id_results_def advance_def Let_def split: option.splits)

lemma id_set_status: "all_id_results w \<Longrightarrow> all_id_results (set_status iid st w)"
  unfolding set_status_def by (erule all_id_results_wi_mod) simp

lemma id_call_env: "call_env f w = (r, w') \<Longrightarrow> all_id_results w \<Longrightarrow> all_id_results w'"
  by (auto simp: call_env_def split: prod.splits)

lemma id_call_env_snd: "all_id_results w \<Longrightarrow> all_id_results (snd (call_env f w))"
  by (simp add: call_env_def split: prod.splits)

lemma id_run_step: "all_id_results w \<Longrightarrow> all_id_results (snd (run_step c s ps ag iid w))"
proof -
  have mcp: "all_id_results (snd (run_mcp_step c m s ps iid w))" if "all_id_results w" for m w
    using that
    by (auto simp: run_mcp_step_def Let_def intro!: all_id_results_wi_mod dest!: id_call_env split: sum.splits prod.splits option.splits)
  have "all_id_results w \<longrightarrow> all_id_results (snd (run_step_inner c s ps ag iid w))" for w
    by (auto simp: run_step_inner_def intro: mcp id_call_env_snd split: option.splits)
  then have "all_id_results w \<longrightarrow> all_id_results (snd (run_step c s ps ag iid w))"
    unfolding run_step_def Let_def by (intro in_circuit_rel [of "\<lambda>w w'. all_id_results w \<longrightarrow> all_id_results w'"]) auto
  then show "all_id_results w \<Longrightarrow> all_id_results (snd (run_step c s ps ag iid w))" by simp
qed

lemma id_run_compensation: "all_id_results w \<Longrightarrow> all_id_results (snd (run_compensation c flow iid fs i w))"
proof -
  assume w: "all_id_results w"
  have "run_step c s ps None None (we_emit e w) = (r, w2) \<Longrightarrow> all_id_results w2" for s ps e r w2
    using id_run_step [of "we_emit e w" c s ps None None] w by simp
  then show ?thesis
    using w by (auto simp: run_compensation_def Let_def intro!: all_id_results_wi_mod split: option.splits prod.splits sum.splits)
qed

lemma id_compensate: "all_id_results w \<Longrightarrow> all_id_results (snd (compensate c flow iid fs w))"
proof -
  assume w: "all_id_results w"
  have "all_id_results w \<Longrightarrow> all_id_results (snd (run_compensations c flow iid fs is w))" for "is" w
  proof (induction "is" arbitrary: w)
    case (Cons i "is")
    have "run_compensation c flow iid fs i w = (r, w1) \<Longrightarrow> all_id_results w1" for r w1
      using id_run_compensation [OF Cons.prems, of c flow iid fs i] by simp
    with Cons.IH show ?case by (auto split: prod.splits sum.splits)
  qed simp
  then have "run_compensations c flow iid fs is (set_status iid COMPENSATING w) = (r, w1) \<Longrightarrow> all_id_results w1" for "is" r w1
    using id_set_status [OF w, of iid COMPENSATING] by (metis snd_conv)
  then show ?thesis by (auto simp: compensate_def intro: id_set_status split: prod.splits sum.splits)
qed

lemma id_guarded_run:
  "all_id_results w \<Longrightarrow> all_id_results (snd (guarded_run c flow s ps ag pol iid pkg w))"
proof -
  assume w: "all_id_results w"
  let ?R = "\<lambda>w w' :: 'a wf_engine. all_id_results w \<longrightarrow> all_id_results w'"
  have "compensate c flow iid fs w = (r, w') \<Longrightarrow> all_id_results w \<Longrightarrow> all_id_results w'" for fs w r w'
    using id_compensate [of w c flow iid fs] by simp
  then have breach: "?R w (snd (compensate_on_breach c flow iid w))" for w
    by (auto simp: compensate_on_breach_def split: option.splits prod.splits sum.splits)
  have "?R w (snd (in_sandbox c sb p (compensate_on_breach c flow iid) ctx (run_step c s ps ag (Some iid)) w))" for sb p ctx
    by (rule in_sandbox_rel [of ?R]) (auto intro: id_run_step breach [rule_format])
  moreover have "?R w (snd (in_guard c g p a r (run_step c s ps ag (Some iid)) w))" for g p a r
    by (rule in_guard_rel [of ?R]) (auto intro: id_run_step)
  ultimately show ?thesis
    using w id_run_step [OF w] by (auto simp: guarded_run_def split: option.splits sum.splits)
qed

lemma id_step_exhausted: "all_id_results w \<Longrightarrow> all_id_results (snd (step_exhausted c flow iid s ps att x w))"
proof -
  assume w: "all_id_results w"
  have "all_id_results w3 \<Longrightarrow> all_id_results (snd (if compensation_of s \<noteq> [] then compensate c flow iid (wstep_id s) w3 else (Inr (), set_status iid FAILED w3)))" for w3
    by (simp add: id_compensate id_set_status)
  moreover have "snd (case p of (Inl x, w) \<Rightarrow> (Inl x, w) | (Inr u, w) \<Rightarrow> (Inr (h w), w)) = snd p" for p :: "(unit, 'a wf_engine) res" and h :: "'a wf_engine \<Rightarrow> artifact"
    by (auto split: prod.splits sum.splits)
  ultimately show ?thesis
    unfolding step_exhausted_def Let_def using w by (simp only: all_id_results_simps)
qed

lemma id_step_try: "all_id_results w \<Longrightarrow> all_id_results (snd (step_try c flow ag pol iid s ps att w))"
proof -
  assume w: "all_id_results w"
  have ok: "all_id_results w \<Longrightarrow> all_id_results (step_succeeded c flow iid s t a w)" for t a w
    by (auto simp: step_succeeded_def Let_def intro!: all_id_results_wi_mod)
  have den: "all_id_results w \<Longrightarrow> all_id_results (snd (step_denied c iid s pkg w))" for pkg w
    by (auto simp: step_denied_def Let_def intro!: all_id_results_wi_mod)
  have "all_id_results w \<Longrightarrow> all_id_results (snd (step_failed c flow iid s ps att x w))" for x w
    by (simp add: step_failed_def Let_def map_prod_def case_prod_beta id_step_exhausted)
  moreover
  let ?pkg = "if we_guard w \<noteq> None \<and> wstep_capability s \<noteq> [] then step_package_id c (wstep_capability s) w else None"
  obtain r w1 where run: "guarded_run c flow s ps ag pol iid ?pkg w = (r, w1)" by (cases "guarded_run c flow s ps ag pol iid ?pkg w")
  moreover have "all_id_results w1" using id_guarded_run [OF w, of c flow s ps ag pol iid ?pkg] run by simp
  ultimately show ?thesis
    using ok den unfolding step_try_def Let_def run by (cases r) (simp_all add: map_prod_def case_prod_beta)
qed

lemma id_step_pass: "all_id_results w \<Longrightarrow> all_id_results (snd (step_pass c flow ag pol iid w))"
proof -
  assume w: "all_id_results w"
  show ?thesis
  proof (cases "current_step flow (inst_of w iid)")
    case None
    then show ?thesis using w by (simp add: step_pass_def all_id_results_wi_mod)
  next
    case (Some s)
    let ?att = "dget_or (wi_attempts (inst_of w iid)) (wstep_id s) 0 + 1"
    define w1 where "w1 = wi_mod iid (\<lambda>i. i\<lparr>wi_current := Some (wstep_id s), wi_attempts := dset (wstep_id s) ?att (wi_attempts i)\<rparr>) w"
    define w2 where "w2 = we_emit (WorkflowEv (WorkflowStepStarted iid (wstep_id s) (wstep_capability s))) w1"
    have w12: "all_id_results w1" "all_id_results w2" using w by (auto simp: w1_def w2_def intro!: all_id_results_wi_mod)
    show ?thesis
      unfolding step_pass_def Some option.case Let_def w1_def [symmetric] w2_def [symmetric]
      using w12 by (auto intro!: id_set_status id_step_try dest!: id_call_env split: prod.splits sum.splits option.splits)
  qed
qed

lemma id_execute_step: "all_id_results w \<Longrightarrow> all_id_results (snd (execute_step c flow ag pol iid w))"
proof (induction c flow ag pol iid w rule: execute_step.induct)
  case (1 c flow ag pol iid w)
  have "step_pass c flow ag pol iid w = (out, w1) \<Longrightarrow> all_id_results w1" for out w1
    using id_step_pass [OF "1.prems", of c flow ag pol iid] by simp
  then show ?case
    using "1.prems" by (subst execute_step.simps)
      (auto dest: id_call_env intro!: "1.IH" split: sum.splits prod.splits step_out.splits)
qed

section \<open>Properties\<close>

text \<open>
  C1: the linear run returns. If the ids of the steps of a workflow are distinct, running an instance
  to the end returns, whatever the capabilities, agents, tools, guard, breaker and sandbox do, as long
  as each of their calls returns: one unit of fuel per step and one more is enough, and more fuel does
  not change the outcome.
\<close>

theorem linear_run_returns:
  assumes "distinct (map wstep_id (wf_steps flow))" and "dget (we_insts w) iid \<noteq> None"
  shows "\<exists>r. \<forall>fuel \<ge> Suc (length (wf_steps flow)). execute_linear c flow fuel iid w = Some r"
proof -
  have reg: "registered iid w" using assms(2) by (simp add: registered_def)
  have "steps_left flow (wi_current (inst_of w iid)) \<le> Suc (length (wf_steps flow))"
    by (auto simp: steps_left_def split: option.splits)
  from run_linear_returns [OF assms(1) reg this, of c "[]"] obtain r
    where "run_linear c flow (Suc (length (wf_steps flow))) iid [] w = Some r" by auto
  from run_linear_fuel [OF this] reg show ?thesis
    by (intro exI [of _ r]) (simp add: execute_linear_def)
qed

theorem linear_run_returns_witness:
  "let c = idle_env (\<lambda>_ _ e. (Inl (ValueError ''v''), e)); flow = flow_of [plain_wf_step ''s'', plain_wf_step ''t'']
   in \<exists>r. \<forall>fuel \<ge> 3. execute_linear c flow fuel ''i'' (started_engine c flow) = Some r"
  using linear_run_returns [where flow = "flow_of [plain_wf_step ''s'', plain_wf_step ''t'']" and iid = "''i''" and
      c = "idle_env (\<lambda>_ _ e. (Inl (ValueError ''v''), e))" and
      w = "started_engine (idle_env (\<lambda>_ _ e. (Inl (ValueError ''v''), e))) (flow_of [plain_wf_step ''s'', plain_wf_step ''t''])"]
  by (simp add: demo_simps started_engine_simps(1) numeral_3_eq_3)

text \<open>
  C3: a workflow whose capabilities all succeed completes. For a fresh instance of a workflow with at
  least one step, distinct ids, no approval gates and no MCP steps, on an engine without guard, sandbox,
  breaker and vault, the run returns one artifact per step, ends COMPLETED with no current step, dead-letters
  nothing, journals \<open>WorkflowStepStarted\<close> and \<open>WorkflowStepCompleted\<close> for each step in order, and has
  recorded for every step the id of its artifact.
\<close>

theorem linear_run_completes:
  assumes "\<forall>cap p e. \<exists>a. fst (wc_caps c cap p e) = Inr a" and "wc_vault c = None" and "wf_steps flow \<noteq> []"
    and "distinct (map wstep_id (wf_steps flow))" and "\<forall>s \<in> set (wf_steps flow). \<not> wstep_approval s \<and> \<not> is_mcp s"
    and "we_guard w = None \<and> we_sandbox w = None \<and> we_res w = None"
  shows "\<exists>ads w'. execute_linear c flow (length (wf_steps flow)) iid (snd (wf_start c iid [] flow w)) = Some (Inr (map fst ads), w') \<and>
     length ads = length (wf_steps flow) \<and>
     wi_status (inst_of w' iid) = COMPLETED \<and> wi_current (inst_of w' iid) = None \<and> we_dlq w' = we_dlq w \<and>
     we_sink w' = emits (success_log iid (wf_steps flow) ads) (we_sink w) \<and>
     (\<forall>k < length ads. dget (wi_results (inst_of w' iid)) (wstep_id (wf_steps flow ! k)) = Some (PStr (af_id (fst (ads ! k)))))"
proof -
  obtain s ss where ss: "wf_steps flow = s # ss" using assms(3) by (cases "wf_steps flow") auto
  let ?w = "snd (wf_start c iid [] flow w)"
  have w: "registered iid ?w" "plain_engine ?w" "wi_status (inst_of ?w iid) = RUNNING" "wi_current (inst_of ?w iid) = Some (wstep_id s)"
      "wi_results (inst_of ?w iid) = []" "we_sink ?w = we_sink w" "we_dlq ?w = we_dlq w"
    using assms(2,6) ss by (simp_all add: wf_start_def Let_def registered_def plain_engine_def inst_of_def)
  have "\<forall>s \<in> set (wf_steps flow). plain_step s" using assms(5) by (simp add: plain_step_def)
  from succeeding_run [OF _ assms(2) this assms(4) w(1-3) _ w(4), of 0 ss "[]"] assms(1) ss obtain ads w' where r:
    "run_linear c flow (Suc (length ss)) iid [] ?w = Some (Inr (map fst ads), w')" "length ads = Suc (length ss)"
    "wi_status (inst_of w' iid) = COMPLETED" "wi_current (inst_of w' iid) = None" "we_dlq w' = we_dlq w"
    "we_sink w' = emits (success_log iid (s # ss) ads) (we_sink w)"
    and res: "wi_results (inst_of w' iid) = fold (\<lambda>(s, a, _). dset (wstep_id s) (PStr (af_id a))) (zip (s # ss) ads) []"
    using w(5-7) by auto
  define kvs where "kvs = map (\<lambda>(s, a, _). (wstep_id s, PStr (af_id a))) (zip (s # ss) ads)"
  have len: "length kvs = Suc (length ss)" using r(2) by (simp add: kvs_def)
  have "map fst kvs = map wstep_id (map fst (zip (s # ss) ads))" by (simp add: kvs_def case_prod_beta)
  then have keys: "map fst kvs = map wstep_id (s # ss)" using r(2) by (simp only: map_fst_zip length_Cons)
  have "wi_results (inst_of w' iid) = fold (\<lambda>(k, v). dset k v) kvs []"
    unfolding res kvs_def by (simp add: fold_map o_def case_prod_unfold)
  moreover have "dget (fold (\<lambda>(k, v). dset k v) kvs []) k = map_of kvs k" for k
    using dget_fold_dset [of kvs "[]" k] assms(4) ss keys by (simp add: map_of_rev_distinct split: option.splits)
  ultimately have "dget (wi_results (inst_of w' iid)) (fst (kvs ! k)) = Some (snd (kvs ! k))" if "k < length kvs" for k
    using that assms(4) ss keys by (simp add: map_of_eq_Some_iff)
  then have look: "\<forall>k < length ads. dget (wi_results (inst_of w' iid)) (wstep_id (wf_steps flow ! k)) = Some (PStr (af_id (fst (ads ! k))))"
    using len r(2) ss by (auto simp: kvs_def case_prod_beta)
  have "execute_linear c flow (length (wf_steps flow)) iid ?w = Some (Inr (map fst ads), w')"
    using r(1) w(1) ss by (simp add: execute_linear_def)
  with r ss look show ?thesis by auto
qed

theorem linear_run_completes_witness:
  "\<exists>(ads :: (artifact \<times> rat) list) w'. execute_linear (idle_env (\<lambda>_ _ e. (Inr ok_artifact, e))) (flow_of [plain_wf_step ''s'', plain_wf_step ''t'']) 2 ''i''
      (snd (wf_start (idle_env (\<lambda>_ _ e. (Inr ok_artifact, e))) ''i'' [] (flow_of [plain_wf_step ''s'', plain_wf_step ''t'']) fresh_engine)) =
        Some (Inr (map fst ads), w') \<and> length ads = 2 \<and> wi_status (inst_of w' ''i'') = COMPLETED"
proof -
  let ?flow = "flow_of [plain_wf_step ''s'', plain_wf_step ''t'']" and ?c = "idle_env (\<lambda>_ _ e. (Inr ok_artifact, e))"
  have len: "length (wf_steps ?flow) = 2" by (simp add: demo_simps)
  have "\<forall>cap p e. \<exists>a. fst (wc_caps ?c cap p e) = Inr a" "wc_vault ?c = None" "wf_steps ?flow \<noteq> []"
    "distinct (map wstep_id (wf_steps ?flow))" "\<forall>s \<in> set (wf_steps ?flow). \<not> wstep_approval s \<and> \<not> is_mcp s"
    "we_guard fresh_engine = None \<and> we_sandbox fresh_engine = None \<and> we_res fresh_engine = None"
    by (simp_all add: demo_simps)
  from linear_run_completes [OF this, of "''i''"] show ?thesis unfolding len by blast
qed

text \<open>
  C2: a step that keeps failing is attempted exactly as often as its policy says and then parked. With
  \<open>a\<close> attempts on record, on an engine without guard, sandbox and vault, with or without a circuit
  breaker, a step that is no MCP step, has no compensation and waits for no approval, run without an
  agent, whose capability always raises an ordinary exception, is attempted
  \<open>max 1 (max_attempts - a)\<close> times in one call of \<open>execute_step\<close>; the call returns (it does not raise) an
  error artifact, the instance is FAILED at the same step, each attempt is journalled as started and
  failed and the last one as a stall, and a wired dead-letter queue gets exactly one entry, named after
  the last attempt.
\<close>

theorem failing_step_parked:
  assumes "\<forall>p e. \<exists>x. fst (wc_caps c (wstep_capability s) p e) = Inl x \<and> ordinary x" and "\<not> is_mcp s"
    and "wc_vault c = None" and "\<forall>b e. fst (wc_sleep c b e) = Inr ()"
    and "step_by_id (wf_steps flow) (wstep_id s) = Some s" and "compensation_of s = []"
    and "dget (we_insts w) iid \<noteq> None" and "wi_current (inst_of w iid) = Some (wstep_id s)"
    and "we_guard w = None" and "we_sandbox w = None"
    and "a = dget_or (wi_attempts (inst_of w iid)) (wstep_id s) 0" and "0 \<le> a" and "\<not> (wstep_approval s \<and> a = 0)"
  shows "let n = nat (max 1 (sr_max_attempts (wstep_retry s) - a))
     in \<exists>u msgs w'. length msgs = n \<and>
        execute_step c flow None policy iid w = (Inr (json_artifact u ''error'' [(''error'', PStr (last msgs))] None), w') \<and>
        wi_status (inst_of w' iid) = FAILED \<and> wi_current (inst_of w' iid) = Some (wstep_id s) \<and>
        dget (wi_attempts (inst_of w' iid)) (wstep_id s) = Some (a + int n) \<and>
        (\<exists>now params. map_option dq_entries (we_dlq w') =
           map_option (\<lambda>q. dq_entries q @ [dead_step_entry now iid s params (a + int n) (last msgs)]) (we_dlq w)) \<and>
        we_sink w' = emits (failure_log iid s a msgs @ [HealthEv (WorkflowStalled iid (wstep_id s) (last msgs))]) (we_sink w)"
proof -
  define n where "n = nat (sr_max_attempts (wstep_retry s) - a) - 1"
  have n: "nat (max 1 (sr_max_attempts (wstep_retry s) - a)) = n + 1" by (simp add: n_def)
  have reg: "registered iid w" using assms(7) by (simp add: registered_def)
  have eq: "a + int (n + 1) = a + int n + 1" by simp
  show ?thesis
    unfolding Let_def n eq
    by (rule exhausts [OF assms(1) [THEN spec, THEN spec] assms(2,3) assms(4) [THEN spec, THEN spec] assms(5,6) reg assms(8-10)
          assms(11) [symmetric] assms(13) n_def assms(12)])
qed

theorem failing_step_parked_witness:
  "let c = idle_env (\<lambda>_ _ e. (Inl (ValueError ''v''), e)); flow = flow_of [plain_wf_step ''s'']
   in \<exists>u msgs w'. length msgs = 3 \<and>
        execute_step c flow None None ''i'' (started_engine c flow) = (Inr (json_artifact u ''error'' [(''error'', PStr (last msgs))] None), w')"
proof -
  let ?c = "idle_env (\<lambda>_ _ e. (Inl (ValueError ''v''), e))" and ?flow = "flow_of [plain_wf_step ''s'']"
  have "\<forall>p e. \<exists>x. fst (wc_caps ?c (wstep_capability (plain_wf_step ''s'')) p e) = Inl x \<and> ordinary x"
    by (simp add: demo_simps ordinary_def exn_simps)
  then show ?thesis
    using failing_step_parked [where c = ?c and flow = ?flow and s = "plain_wf_step ''s''" and w = "started_engine ?c ?flow" and iid = "''i''" and a = 0 and policy = None]
    by (auto simp: demo_simps started_engine_simps dget_or_def default_step_retry_def Let_def)
qed

text \<open>
  C9: the approval gate. The first pass of a step that requires approval runs nothing: the instance is
  PAUSED at that step, a request is journalled, and guard, breaker, queue, sandbox and the world outside
  are as before. From there, a refusal fails the instance, if the step has no compensation, without
  running anything; approving an instance that is not paused is an error that changes nothing.
\<close>

theorem approval_gate:
  assumes "dget (we_insts w) iid \<noteq> None" and "wi_current (inst_of w iid) = Some (wstep_id s)"
    and "step_by_id (wf_steps flow) (wstep_id s) = Some s" and "wstep_approval s"
    and "dget_or (wi_attempts (inst_of w iid)) (wstep_id s) 0 = 0" and "compensation_of s = []"
  shows "\<exists>u w'. execute_step c flow agent policy iid w =
           (Inr (json_artifact u ''approval_required'' [(''step_id'', PStr (wstep_id s))] None), w') \<and>
         wi_status (inst_of w' iid) = PAUSED \<and> wi_current (inst_of w' iid) = Some (wstep_id s) \<and>
         we_sink w' = emit (WorkflowEv (WorkflowStepAwaitingApproval iid (wstep_id s) ''requires_approval'')) (we_sink w) \<and>
         (we_env w', we_guard w', we_res w', we_dlq w', we_sandbox w') = (we_env w, we_guard w, we_res w, we_dlq w, we_sandbox w) \<and>
         (\<exists>w''. approve c flow fuel iid (wstep_id s) False w' = Some (Inr (), w'') \<and> wi_status (inst_of w'' iid) = FAILED \<and>
            (we_env w'', we_sink w'') = (we_env w', we_sink w')) \<and>
         (wi_status (inst_of w iid) \<noteq> PAUSED \<longrightarrow> (\<exists>x. approve c flow fuel iid (wstep_id s) ok w = Some (Inl x, w) \<and> catches ''RuntimeError'' x))"
proof -
  have reg: "registered iid w" using assms(1) by (simp add: registered_def)
  let ?w1 = "wi_mod iid (\<lambda>i. i\<lparr>wi_current := Some (wstep_id s), wi_attempts := dset (wstep_id s) 1 (wi_attempts i)\<rparr>) w"
  let ?w' = "we_emit (WorkflowEv (WorkflowStepAwaitingApproval iid (wstep_id s) ''requires_approval'')) (set_status iid PAUSED ?w1)"
  have "current_step flow (inst_of w iid) = Some s" using assms(2,3) by (simp add: current_step_def)
  then have "step_pass c flow agent policy iid w =
      (Finished (Inr (json_artifact (wc_uid c (we_env w)) ''approval_required'' [(''step_id'', PStr (wstep_id s))] None)), ?w')"
    using assms(4,5) by (simp add: step_pass_def Let_def)
  then have ex: "execute_step c flow agent policy iid w =
      (Inr (json_artifact (wc_uid c (we_env w)) ''approval_required'' [(''step_id'', PStr (wstep_id s))] None), ?w')"
    using reg by (subst execute_step.simps) simp
  have rej: "approve c flow fuel iid (wstep_id s) False ?w' = Some (Inr (), set_status iid FAILED ?w')"
    using reg assms(3,6) by (simp add: approve_def)
  have "\<exists>x. approve c flow fuel iid (wstep_id s) ok w = Some (Inl x, w) \<and> catches ''RuntimeError'' x" if "wi_status (inst_of w iid) \<noteq> PAUSED"
    using reg that by (simp add: approve_def exn_simps)
  with ex rej reg show ?thesis by (intro exI [of _ "wc_uid c (we_env w)"] exI [of _ ?w']) simp
qed

theorem approval_gate_witness:
  "let c = idle_env (\<lambda>_ _ e. (Inr ok_artifact, e)); flow = flow_of [(plain_wf_step ''s'')\<lparr>wstep_approval := True\<rparr>]
   in \<exists>w'. (\<exists>a. execute_step c flow None None ''i'' (started_engine c flow) = (Inr a, w')) \<and> wi_status (inst_of w' ''i'') = PAUSED"
proof -
  let ?s = "(plain_wf_step ''s'')\<lparr>wstep_approval := True\<rparr>"
  have "wstep_id ?s = ''s''" "compensation_of ?s = []" by (simp_all add: plain_wf_step_def compensation_of_def)
  then show ?thesis
    using approval_gate [where c = "idle_env (\<lambda>_ _ e. (Inr ok_artifact, e))" and flow = "flow_of [?s]" and s = ?s and iid = "''i''" and
        w = "started_engine (idle_env (\<lambda>_ _ e. (Inr ok_artifact, e))) (flow_of [?s])" and agent = None and policy = None and fuel = 0 and ok = False]
    by (auto simp: demo_simps started_engine_simps dget_or_def Let_def)
qed

text \<open>
  C8: compensation runs backwards and ends FAILED. When the step at position \<open>k\<close> has failed and no
  collaborator is cancelled, compensating takes the declared compensation steps of the steps before it
  in reverse order and that of the failed step last, journals each one that exists in the workflow and
  runs it, whether it succeeds or fails; then the instance is FAILED, wherever it stood. On an engine
  without breaker and steps of MCP servers this means that the capabilities of these steps are called
  once each, in this order, with the inputs that resolve on the instance at that point, and that the
  instance records the successful ones and is otherwise as before.
\<close>

theorem compensation_reverse:
  assumes "distinct (map wstep_id (wf_steps flow))" and "k < length (wf_steps flow)" and "dget (we_insts w) iid \<noteq> None"
    and "\<forall>cap p e x. fst (wc_caps c cap p e) = Inl x \<longrightarrow> catches ''Exception'' x"
    and "\<forall>r m. wc_mcp c = Some (r, m) \<longrightarrow> (\<forall>u t p e x. fst (m u t p e) = Inl x \<longrightarrow> catches ''Exception'' x)"
  shows "let failed = wstep_id (wf_steps flow ! k);
             comps = concat (map compensation_of (rev (take k (wf_steps flow)))) @ compensation_of (wf_steps flow ! k)
         in \<exists>w'. compensate c flow iid failed w = (Inr (), w') \<and> wi_status (inst_of w' iid) = FAILED \<and>
              we_sink w' = emits (map (\<lambda>i. WorkflowEv (WorkflowCompensating iid failed i))
                (filter (\<lambda>i. step_by_id (wf_steps flow) i \<noteq> None) comps)) (we_sink w) \<and>
              (direct c flow w \<longrightarrow> (inst_of w' iid, we_env w') =
                 apfst (\<lambda>i. i\<lparr>wi_status := FAILED\<rparr>) (compensated c flow comps ((inst_of w iid)\<lparr>wi_status := COMPENSATING\<rparr>, we_env w)))"
proof -
  let ?failed = "wstep_id (wf_steps flow ! k)" and ?w = "set_status iid COMPENSATING w"
  have reg: "registered iid w" using assms(3) by (simp add: registered_def)
  have order: "compensation_order flow ?failed = concat (map compensation_of (rev (take k (wf_steps flow)))) @ compensation_of (wf_steps flow ! k)"
    using step_index_nth [OF assms(1,2)] step_by_id_nth [OF assms(1,2)] by (simp add: compensation_order_def)
  obtain w1 where run: "run_compensations c flow iid ?failed (compensation_order flow ?failed) ?w = (Inr (), w1)"
    and sink: "we_sink w1 = emits (map (\<lambda>i. WorkflowEv (WorkflowCompensating iid ?failed i))
      (filter (\<lambda>i. step_by_id (wf_steps flow) i \<noteq> None) (compensation_order flow ?failed))) (we_sink w)"
    using run_compensations_quiet [OF assms(4,5), of flow iid ?failed "compensation_order flow ?failed" ?w] by auto
  then have comp: "compensate c flow iid ?failed w = (Inr (), set_status iid FAILED w1)" by (simp add: compensate_def)
  have "direct c flow w \<Longrightarrow> registered iid w1 \<and> (inst_of w1 iid, we_env w1) =
      compensated c flow (compensation_order flow ?failed) ((inst_of w iid)\<lparr>wi_status := COMPENSATING\<rparr>, we_env w)"
    using run_compensations_direct [OF assms(4,5), of flow ?w iid ?failed "compensation_order flow ?failed"] reg run by (simp add: direct_def)
  then have effect: "direct c flow w \<longrightarrow> (inst_of (set_status iid FAILED w1) iid, we_env (set_status iid FAILED w1)) =
      apfst (\<lambda>i. i\<lparr>wi_status := FAILED\<rparr>) (compensated c flow (compensation_order flow ?failed) ((inst_of w iid)\<lparr>wi_status := COMPENSATING\<rparr>, we_env w))"
    by (metis apfst_conv set_status_simps(6,8))
  show ?thesis unfolding Let_def order [symmetric]
    using compensate_ends [OF reg comp] comp sink effect by (intro exI [of _ "set_status iid FAILED w1"]) simp
qed

text \<open>Capabilities whose calls are the digits of the world.\<close>

definition digit_caps :: "string \<Rightarrow> pydict \<Rightarrow> nat \<Rightarrow> (artifact, nat) res" where
  "digit_caps cap p e = (Inr ok_artifact, 10 * e + (if cap = ''cu'' then 1 else 2))"

definition undo_flow :: workflow where
  "undo_flow = flow_of [(plain_wf_step ''s'')\<lparr>wstep_compensation := Some ''u''\<rparr>, (plain_wf_step ''t'')\<lparr>wstep_compensation := Some ''v''\<rparr>,
     (plain_wf_step ''u'')\<lparr>wstep_capability := ''cu''\<rparr>, plain_wf_step ''v'']"

theorem compensation_reverse_witness:
  "let c = idle_env digit_caps
   in \<exists>w'. compensate c undo_flow ''i'' ''t'' (started_engine c undo_flow) = (Inr (), w') \<and>
        we_sink w' = emits [WorkflowEv (WorkflowCompensating ''i'' ''t'' ''u''), WorkflowEv (WorkflowCompensating ''i'' ''t'' ''v'')]
                       (we_sink (started_engine c undo_flow)) \<and>
        we_env w' = 12"
proof -
  have fl: "wf_steps undo_flow = [(plain_wf_step ''s'')\<lparr>wstep_compensation := Some ''u''\<rparr>, (plain_wf_step ''t'')\<lparr>wstep_compensation := Some ''v''\<rparr>,
     (plain_wf_step ''u'')\<lparr>wstep_capability := ''cu''\<rparr>, plain_wf_step ''v'']" by (simp add: undo_flow_def demo_simps)
  have ids: "distinct (map wstep_id (wf_steps undo_flow))" "1 < length (wf_steps undo_flow)" by (simp_all add: fl plain_wf_step_def)
  have caps: "\<forall>cap p e x. fst (wc_caps (idle_env digit_caps) cap p e) = Inl x \<longrightarrow> catches ''Exception'' x" by (simp add: demo_simps digit_caps_def)
  have mcp: "\<forall>r m. wc_mcp (idle_env digit_caps) = Some (r, m) \<longrightarrow> (\<forall>u t p e x. fst (m u t p e) = Inl x \<longrightarrow> catches ''Exception'' x)" by (simp add: demo_simps)
  have res: "we_res (started_engine (idle_env digit_caps) undo_flow) = None" "we_env (started_engine (idle_env digit_caps) undo_flow) = 0"
    by (simp_all add: started_engine_def wf_start_def Let_def demo_simps fresh_engine_def)
  show ?thesis
    using compensation_reverse [where c = "idle_env digit_caps" and iid = "''i''" and w = "started_engine (idle_env digit_caps) undo_flow",
        OF ids started_engine_simps(1) caps mcp] res
    by (auto simp: fl demo_simps Let_def compensation_of_def direct_def digit_caps_def plain_wf_step_def apfst_def map_prod_def)
qed



text \<open>
  With a sandbox, a failing step is neither retried nor parked. On an engine with a sandbox and
  without guard and vault, if the capability of an ungated step without compensation always raises an ordinary
  exception, one call of \<open>execute_step\<close> raises a \<open>SandboxError\<close> after a single attempt, whatever the
  retry policy of the step: the instance keeps its status and its step, no failure is journalled, and
  nothing is dead-lettered.
\<close>

theorem sandbox_defeats_retry:
  assumes "\<forall>p e. \<exists>x. fst (wc_caps c (wstep_capability s) p e) = Inl x \<and> ordinary x" and "\<not> is_mcp s" and "wc_vault c = None"
    and "step_by_id (wf_steps flow) (wstep_id s) = Some s" and "compensation_of s = []" and "\<not> wstep_approval s"
    and "dget (we_insts w) iid \<noteq> None" and "wi_current (inst_of w iid) = Some (wstep_id s)"
    and "we_guard w = None" and "we_sandbox w = Some sb"
  shows "\<exists>x w'. execute_step c flow None (Some p) iid w = (Inl x, w') \<and> catches ''SandboxError'' x \<and>
     wi_status (inst_of w' iid) = wi_status (inst_of w iid) \<and> wi_current (inst_of w' iid) = Some (wstep_id s) \<and>
     dget (wi_attempts (inst_of w' iid)) (wstep_id s) = Some (dget_or (wi_attempts (inst_of w iid)) (wstep_id s) 0 + 1) \<and>
     we_sink w' = emit (WorkflowEv (WorkflowStepStarted iid (wstep_id s) (wstep_capability s))) (we_sink w) \<and> we_dlq w' = we_dlq w"
proof -
  let ?w2 = "started_state iid s w" and ?ps = "resolve_inputs s (inst_of (started_state iid s w) iid)"
  let ?f = "\<lambda>w. (we_sink w, we_insts w, we_dlq w)"
  let ?P = "\<lambda>t :: 'a wf_engine sandbox_scheme. ?f (sandbox.more t) = ?f ?w2"
  let ?lift = "\<lambda>h t. case h (sandbox.more t) of (v, w1) \<Rightarrow> (v, sandbox.extend (sandbox.truncate t) w1)"
  let ?body = "run_step c s ?ps None (Some iid)" and ?cl = "compensate_on_breach c flow iid"
  have reg: "registered iid w" using assms(7) by (simp add: registered_def)
  have cur: "current_step flow (inst_of w iid) = Some s" using assms(4,8) by (simp add: current_step_def)
  have body: "\<exists>x t'. ?lift ?body t = (Inl x, t') \<and> catches ''Exception'' x \<and> \<not> catches ''SandboxError'' x \<and> ?P t'" if "?P t" for t
    using run_step_fails [OF assms(1) [THEN spec, THEN spec] assms(2), of ?ps "Some iid" "sandbox.more t"] that
    by (auto simp: ordinary_def kept_def)
  have "?cl (sandbox.more t) = (Inr (), sandbox.more t)" if "?P t" for t
    using that reg assms(4,5) by (auto simp: compensate_on_breach_def current_step_def inst_of_def [of "sandbox.more t"] inst_of_def [of ?w2, symmetric])
  then have cl: "\<exists>t'. ?lift ?cl t = (Inr (), t') \<and> ?P t'" if "?P t" for t
    using that by auto
  let ?pr = "\<lparr>pr_mono = (\<lambda>s. wc_mono c (we_env (sandbox.more s))),
     pr_rss_mb = map_option (\<lambda>rss s. rss (we_env (sandbox.more s))) (wc_rss_mb c), pr_open_max = wc_open_max c\<rparr>"
  let ?ctx = "[(''workflow_id'', iid), (''step_id'', wstep_id s)]"
  obtain x t where sr: "sandbox_run ?pr (wc_policy_str c) (?lift ?body) p (Some (?lift ?cl)) ?ctx (sandbox.extend sb ?w2) = (Inl x, t)"
    and v: "\<exists>v. x \<in> {SandboxError (wc_policy_str c) v, SandboxTimeoutError (wc_policy_str c) v}" and f: "?P t"
    using sandbox_run_fails [of ?P "?lift ?body" "?lift ?cl" "sandbox.extend sb ?w2" ?pr "wc_policy_str c" p ?ctx, OF body cl] by auto
  let ?w3 = "(sandbox.more t)\<lparr>we_sandbox := Some (sandbox.truncate t)\<rparr>"
  have "guarded_run c flow s ?ps None (Some p) iid None ?w2 = (Inl x, ?w3)"
    using assms(9,10) sr by (simp add: guarded_run_def in_sandbox_def)
  moreover have x: "catches ''SandboxError'' x" "\<not> catches ''PermissionDeniedError'' x \<and> \<not> catches ''ResourceLimitExceededError'' x"
    using v by auto
  ultimately have "step_pass c flow None (Some p) iid w = (Finished (Inl x), ?w3)"
    using step_pass_runs [OF cur, of c None "Some p"] assms(2,3,6,9) x by (simp add: step_try_def Let_def)
  then have "execute_step c flow None (Some p) iid w = (Inl x, ?w3)"
    using reg by (subst execute_step.simps) simp
  moreover have "inst_of ?w3 iid = inst_of ?w2 iid" using f by (simp add: inst_of_def)
  ultimately show ?thesis using x(1) f reg by (intro exI [of _ x] exI [of _ ?w3]) simp
qed

theorem sandbox_defeats_retry_witness:
  "let c = idle_env (\<lambda>_ _ e. (Inl (ValueError ''v''), e)); flow = flow_of [plain_wf_step ''s''];
       w = (started_engine c flow)\<lparr>we_sandbox := Some \<lparr>sb_sink = wired\<rparr>\<rparr>
   in \<exists>x w'. execute_step c flow None (Some default_exec_policy) ''i'' w = (Inl x, w') \<and> catches ''SandboxError'' x"
proof -
  let ?c = "idle_env (\<lambda>_ _ e. (Inl (ValueError ''v''), e))" and ?flow = "flow_of [plain_wf_step ''s'']"
  have "\<forall>p e. \<exists>x. fst (wc_caps ?c (wstep_capability (plain_wf_step ''s'')) p e) = Inl x \<and> ordinary x"
    by (simp add: demo_simps ordinary_def exn_simps)
  then show ?thesis
    using sandbox_defeats_retry [where c = ?c and flow = ?flow and s = "plain_wf_step ''s''" and iid = "''i''" and
        w = "(started_engine ?c ?flow)\<lparr>we_sandbox := Some \<lparr>sb_sink = wired\<rparr>\<rparr>" and sb = "\<lparr>sb_sink = wired\<rparr>" and p = default_exec_policy]
    by (auto simp: demo_simps started_engine_simps Let_def)
qed

text \<open>
  Outputs never reach later steps. Every engine call keeps the invariant that the results recorded
  in instances are plain strings, which a new instance satisfies; and in such an instance every input
  reference of the documented form \<open>step.output.field\<close> resolves to \<open>None\<close>, whatever the steps produced.
\<close>

theorem outputs_never_resolve:
  assumes "\<forall>i \<in> set (dvals (we_insts w)). \<forall>v \<in> set (dvals (wi_results i)). \<exists>x. v = PStr x"
  shows "(\<forall>i \<in> set (dvals (we_insts (snd (execute_step c flow agent policy iid w)))). \<forall>v \<in> set (dvals (wi_results i)). \<exists>x. v = PStr x) \<and>
     (\<forall>i \<in> set (dvals (we_insts w)). \<forall>ref. length (split_on (CHR ''.'') ref) \<ge> 3 \<and> split_on (CHR ''.'') ref ! 1 = ''output'' \<longrightarrow>
        resolve_ref i ref = PNone)"
proof (intro conjI ballI allI impI)
  have w: "all_id_results w" using assms by (simp add: all_id_results_def id_results_def)
  show "\<exists>x. v = PStr x" if "i \<in> set (dvals (we_insts (snd (execute_step c flow agent policy iid w))))" "v \<in> set (dvals (wi_results i))" for i v
    using id_execute_step [OF w, of c flow agent policy iid] that by (auto simp: all_id_results_def id_results_def)
  fix i ref assume i: "i \<in> set (dvals (we_insts w))" and ref: "length (split_on (CHR ''.'') ref) \<ge> 3 \<and> split_on (CHR ''.'') ref ! 1 = ''output''"
  have "\<exists>x. v = PStr x" if "dget (wi_results i) k = Some v" for k v
    using assms i that by (force dest: dget_Some_in)
  with ref show "resolve_ref i ref = PNone"
    by (auto simp: resolve_ref_def Let_def split: option.splits pyval.splits)
qed

theorem outputs_never_resolve_witness:
  "let c = idle_env (\<lambda>_ _ e. (Inr ok_artifact, e)); flow = flow_of [plain_wf_step ''s'']
   in \<forall>i \<in> set (dvals (we_insts (started_engine c flow))). resolve_ref i ''s.output.x'' = PNone"
proof -
  have "\<forall>i \<in> set (dvals (we_insts (started_engine (idle_env (\<lambda>_ _ e. (Inr ok_artifact, e))) (flow_of [plain_wf_step ''s''])))). wi_results i = []"
    by (simp add: started_engine_def wf_start_def Let_def demo_simps fresh_engine_def)
  then show ?thesis
    using outputs_never_resolve [where w = "started_engine (idle_env (\<lambda>_ _ e. (Inr ok_artifact, e))) (flow_of [plain_wf_step ''s''])"] by simp
qed

text \<open>
  Duplicate ids loop forever. A workflow whose steps are named \<open>a\<close>, \<open>b\<close>, \<open>a\<close> never finishes on the
  linear path although all its capabilities succeed: after the second step the engine is back at the
  first, since positions are looked up by id. However much fuel, the run does not return.
\<close>

theorem duplicate_ids_diverge:
  "execute_linear (idle_env (\<lambda>_ _ e. (Inr ok_artifact, e))) (flow_of (map plain_wf_step [''a'', ''b'', ''a''])) fuel ''i''
     (started_engine (idle_env (\<lambda>_ _ e. (Inr ok_artifact, e))) (flow_of (map plain_wf_step [''a'', ''b'', ''a'']))) = None"
proof -
  let ?c = "idle_env (\<lambda>_ _ e. (Inr ok_artifact, e))" and ?flow = "flow_of (map plain_wf_step [''a'', ''b'', ''a''])"
  have nxt: "next_step ?flow (Some ''a'') = Some ''b''" "next_step ?flow (Some ''b'') = Some ''a''"
    by (simp_all add: next_step_def step_index_def demo_simps Let_def)
  have loop: "run_linear ?c ?flow fuel ''i'' as w = None"
    if "registered ''i'' w" "plain_engine w" "wi_status (inst_of w ''i'') = RUNNING" "wi_current (inst_of w ''i'') \<in> {Some ''a'', Some ''b''}" for fuel as w
    using that
  proof (induction fuel arbitrary: as w)
    case 0
    then show ?case by auto
  next
    case (Suc fuel)
    then obtain j where j: "wi_current (inst_of w ''i'') = Some j" "j \<in> {''a'', ''b''}" by auto
    have "\<exists>a. fst (wc_caps ?c cap p e) = Inr a" for cap p e by (simp add: demo_simps)
    moreover have "step_by_id (wf_steps ?flow) (wstep_id (plain_wf_step j)) = Some (plain_wf_step j)" using j by (auto simp: demo_simps)
    moreover have "plain_step (plain_wf_step j)" by (simp add: plain_step_def demo_simps)
    ultimately obtain a w' where w': "execute_step ?c ?flow None None ''i'' w = (Inr a, w')" "registered ''i'' w'" "plain_engine w'"
      "wi_current (inst_of w' ''i'') = next_step ?flow (Some j)"
      "wi_status (inst_of w' ''i'') = (if next_step ?flow (Some j) = None then COMPLETED else wi_status (inst_of w ''i''))"
      using succeeding_step [of ?c "plain_wf_step j" w "''i''" ?flow] Suc.prems j by (auto simp: demo_simps)
    with nxt j Suc.prems(3) have "wi_status (inst_of w' ''i'') = RUNNING" "wi_current (inst_of w' ''i'') \<in> {Some ''a'', Some ''b''}" by auto
    from Suc.IH [OF w'(2,3) this] w'(1) Suc.prems(3) j(1) show ?case by simp
  qed
  have reg: "registered ''i'' (started_engine ?c ?flow)" using started_engine_simps(1) by (simp add: registered_def)
  have st: "plain_engine (started_engine ?c ?flow)" "wi_status (inst_of (started_engine ?c ?flow) ''i'') = RUNNING"
    "wi_current (inst_of (started_engine ?c ?flow) ''i'') = Some ''a''"
    by (simp_all add: plain_engine_def started_engine_def wf_start_def Let_def demo_simps inst_of_def)
  show ?thesis using loop [OF reg st(1,2), of fuel "[]"] st(3) reg by (simp add: execute_linear_def)
qed

end
