(* ===== verification/Planner.thy ===== *)
theory Planner
  imports Events
begin

text \<open>
  The dynamic planner and its store: \<open>kernel/dynamic_planner.py\<close>, \<open>kernel/plan_store.py\<close> and the plan
  models of \<open>kernel/domain.py\<close>.

  \<^item> \<open>PlanStep\<close> objects are shared between a plan and the plans adapted from it, and rules change them
    in place: they live in the heap \<open>dp_heap\<close>, and a plan lists positions in it. \<open>Plan\<close> objects are named
    by their id; the planner and the store refer to the same objects, the database holds copies.
  \<^item> The step executor, the LLM, the swarm, the random choice, the clock and \<open>sleep\<close> are functions on
    \<open>dp_env\<close>, the state outside the planner. Fresh ids are handed in as a function of that state.
  \<^item> \<open>visit_all\<close> is the recursive \<open>visit\<close> of \<open>_toposort\<close> applied to a list of ids in turn; the set of
    ids on the recursion stack is a list.
\<close>

section \<open>Data\<close>

datatype risk_level = LOW | MEDIUM | HIGH | CRITICAL

fun risk_value :: "risk_level \<Rightarrow> string" where
  "risk_value LOW = ''low''" | "risk_value MEDIUM = ''medium''" | "risk_value HIGH = ''high''" | "risk_value CRITICAL = ''critical''"

fun risk_index :: "risk_level \<Rightarrow> nat" where
  "risk_index LOW = 0" | "risk_index MEDIUM = 1" | "risk_index HIGH = 2" | "risk_index CRITICAL = 3"

definition risk_order :: "risk_level list" where
  "risk_order = [LOW, MEDIUM, HIGH, CRITICAL]"

definition bump_risk :: "risk_level \<Rightarrow> nat \<Rightarrow> risk_level" where
  "bump_risk r levels = risk_order ! min (risk_index r + levels) (length risk_order - 1)"

text \<open>Risk levels are ordered by severity.\<close>

instantiation risk_level :: linorder
begin

definition less_eq_risk_level :: "risk_level \<Rightarrow> risk_level \<Rightarrow> bool" where
  "less_eq_risk_level r s \<longleftrightarrow> risk_index r \<le> risk_index s"

definition less_risk_level :: "risk_level \<Rightarrow> risk_level \<Rightarrow> bool" where
  "less_risk_level r s \<longleftrightarrow> risk_index r < risk_index s"

instance
proof
  fix x y :: risk_level
  show "x = y" if "x \<le> y" "y \<le> x"
    using that by (cases x; cases y) (simp_all add: less_eq_risk_level_def)
qed (auto simp: less_eq_risk_level_def less_risk_level_def)

end

datatype plan_status = PDraft | PActive | PFailed | PCompleted | PAdapted

record plan_step =
  ps_step_id :: string
  ps_cap :: string
  ps_agent_id :: "string option"
  ps_dependencies :: "string list"
  ps_duration_ms :: int
  ps_risk :: risk_level
  ps_retry_budget :: int

record plan =
  pn_id :: string
  pn_workflow_id :: string
  pn_status :: plan_status
  pn_steps :: "nat list"
  pn_updated_at :: datetime
  pn_version :: int

record outcome =
  oc_id :: string
  oc_plan_id :: string
  oc_step_id :: string
  oc_status :: string
  oc_duration_ms :: int
  oc_error_type :: "string option"
  oc_retry_count :: int

record trigger =
  tr_id :: string
  tr_plan_id :: string
  tr_reason :: string
  tr_context :: "(string, string) dict"

text \<open>The tables hold serialized plans, with their steps.\<close>

record plan_db =
  pdb_plans :: "(string, plan \<times> plan_step list) dict"
  pdb_outcomes :: "(string, outcome) dict"

text \<open>\<open>pst_mem\<close> lists the ids of the plans in the store's memory; the objects are the planner's.\<close>

record plan_store =
  pst_mem :: "string list"
  pst_outcomes :: "(string, outcome) dict"
  pst_db :: "plan_db option"

record 'e planner =
  dp_sink :: sink
  dp_heap :: "plan_step list"
  dp_objs :: "(string, plan) dict"
  dp_plans :: "string list"
  dp_store :: "plan_store option"
  dp_outcomes :: "(string, outcome) dict"
  dp_replans :: "(string, trigger) dict"
  dp_env :: 'e

record 'e planner_env =
  pe_executor :: "plan_step \<Rightarrow> 'e \<Rightarrow> (outcome, 'e) res"
  pe_llm :: "(plan \<Rightarrow> trigger \<Rightarrow> 'e \<Rightarrow> (plan_step list, 'e) res) option"
  pe_members :: "(string \<Rightarrow> 'e \<Rightarrow> (string \<times> string) list option) option"
  pe_choice :: "string list \<Rightarrow> 'e \<Rightarrow> string \<times> 'e"
  pe_sleep :: "rat \<Rightarrow> 'e \<Rightarrow> (unit, 'e) res"
  pe_now :: "'e \<Rightarrow> datetime"
  pe_uid :: "'e \<Rightarrow> string \<times> 'e"

section \<open>Topological order\<close>

type_synonym topo = "string list \<times> plan_step list"

function visit_all :: "(string, plan_step) dict \<Rightarrow> string list \<Rightarrow> string list \<Rightarrow> topo \<Rightarrow> exn + topo" where
  "visit_all by_id [] stack st = Inr st"
| "visit_all by_id (sid # sids) stack (visited, order) =
     (if sid \<in> set visited then visit_all by_id sids stack (visited, order)
      else if sid \<in> set stack then Inl (ValueError (''dependency cycle detected at step '' @ quoted sid))
      else
        (case dget by_id sid of
           None \<Rightarrow> visit_all by_id sids stack (visited, order)
         | Some step \<Rightarrow>
             (case visit_all by_id (ps_dependencies step) (sid # stack) (visited, order) of
                Inl x \<Rightarrow> Inl x
              | Inr (visited', order') \<Rightarrow> visit_all by_id sids stack (sid # visited', order' @ [step]))))"
  by pat_completeness auto

termination
proof (relation "measures [\<lambda>(d, xs, stack, st). card (fst ` set d - set stack), \<lambda>(d, xs, stack, st). length xs]", goal_cases)
  case (4 by_id sid sids stack visited order step)
  then have "sid \<in> fst ` set by_id - set stack" by (force dest: dget_Some_in)
  then have "fst ` set by_id - set (sid # stack) \<subset> fst ` set by_id - set stack" by auto
  then show ?case by (simp add: psubset_card_mono)
qed auto

definition steps_by_id :: "plan_step list \<Rightarrow> (string, plan_step) dict" where
  "steps_by_id ss = fold (\<lambda>s. dset (ps_step_id s) s) ss []"

definition toposort :: "plan_step list \<Rightarrow> exn + plan_step list" where
  "toposort ss = map_sum id snd (visit_all (steps_by_id ss) (map ps_step_id ss) [] ([], []))"

section \<open>Plans and outcomes\<close>

definition steps_of :: "'e planner \<Rightarrow> plan \<Rightarrow> plan_step list" where
  "steps_of p pl = map (\<lambda>i. dp_heap p ! i) (pn_steps pl)"

definition dp_emit :: "planner_event \<Rightarrow> 'e planner \<Rightarrow> 'e planner" where
  "dp_emit e p = p\<lparr>dp_sink := emit (PlannerEv e) (dp_sink p)\<rparr>"

definition dp_call :: "('e \<Rightarrow> ('v, 'e) res) \<Rightarrow> 'e planner \<Rightarrow> ('v, 'e planner) res" where
  "dp_call f p = (case f (dp_env p) of (r, e) \<Rightarrow> (r, p\<lparr>dp_env := e\<rparr>))"

definition fresh_id :: "'e planner_env \<Rightarrow> 'e planner \<Rightarrow> string \<times> 'e planner" where
  "fresh_id c p = (case pe_uid c (dp_env p) of (i, e) \<Rightarrow> (i, p\<lparr>dp_env := e\<rparr>))"

definition pst_put :: "plan \<Rightarrow> plan_step list \<Rightarrow> plan_store \<Rightarrow> plan_store" where
  "pst_put pl ss st =
     st\<lparr>pst_mem := (if pn_id pl \<in> set (pst_mem st) then pst_mem st else pst_mem st @ [pn_id pl]),
        pst_db := map_option (\<lambda>d. d\<lparr>pdb_plans := ddel (pn_id pl) (pdb_plans d) @ [(pn_id pl, (pl, ss))]\<rparr>) (pst_db st)\<rparr>"

definition pst_delete :: "string \<Rightarrow> plan_store \<Rightarrow> bool \<times> plan_store" where
  "pst_delete pid st =
     (pid \<in> set (pst_mem st) \<or> (case pst_db st of None \<Rightarrow> False | Some d \<Rightarrow> dget (pdb_plans d) pid \<noteq> None),
      st\<lparr>pst_mem := filter ((\<noteq>) pid) (pst_mem st), pst_db := map_option (\<lambda>d. d\<lparr>pdb_plans := ddel pid (pdb_plans d)\<rparr>) (pst_db st)\<rparr>)"

definition pst_put_outcome :: "outcome \<Rightarrow> plan_store \<Rightarrow> plan_store" where
  "pst_put_outcome oc st =
     st\<lparr>pst_outcomes := dset (oc_id oc) oc (pst_outcomes st),
        pst_db := map_option (\<lambda>d. d\<lparr>pdb_outcomes := ddel (oc_id oc) (pdb_outcomes d) @ [(oc_id oc, oc)]\<rparr>) (pst_db st)\<rparr>"

definition pst_get_outcome :: "string \<Rightarrow> plan_store \<Rightarrow> outcome option" where
  "pst_get_outcome i st = dget (pst_outcomes st) i"

definition outcomes_for :: "string \<Rightarrow> plan_store \<Rightarrow> outcome list" where
  "outcomes_for pid st = filter (\<lambda>oc. oc_plan_id oc = pid) (dvals (pst_outcomes st))"

text \<open>Opening a store on a database loads its plans as new objects.\<close>

definition load_plan :: "plan \<times> plan_step list \<Rightarrow> 'e planner \<Rightarrow> plan \<times> 'e planner" where
  "load_plan row p =
     (let n = length (dp_heap p)
      in ((fst row)\<lparr>pn_steps := [n ..< n + length (snd row)]\<rparr>, p\<lparr>dp_heap := dp_heap p @ snd row\<rparr>))"

definition pst_open :: "plan_db option \<Rightarrow> 'e planner \<Rightarrow> 'e planner" where
  "pst_open db p =
     (case db of
        None \<Rightarrow> p\<lparr>dp_store := Some \<lparr>pst_mem = [], pst_outcomes = [], pst_db = None\<rparr>\<rparr>
      | Some d \<Rightarrow>
          (let p1 = fold (\<lambda>(pid, row) p. let (pl, p') = load_plan row p in p'\<lparr>dp_objs := dset pid pl (dp_objs p')\<rparr>) (pdb_plans d) p
           in p1\<lparr>dp_store := Some \<lparr>pst_mem = dkeys (pdb_plans d), pst_outcomes = pdb_outcomes d, pst_db = Some d\<rparr>\<rparr>))"

definition persist_plan :: "plan \<Rightarrow> 'e planner \<Rightarrow> 'e planner" where
  "persist_plan pl p = p\<lparr>dp_store := map_option (pst_put pl (steps_of p pl)) (dp_store p)\<rparr>"

text \<open>Writing a field of a plan object, named by its id.\<close>

definition write_plan :: "plan \<Rightarrow> 'e planner \<Rightarrow> 'e planner" where
  "write_plan pl p = p\<lparr>dp_objs := dset (pn_id pl) pl (dp_objs p)\<rparr>"

definition record_outcome :: "outcome \<Rightarrow> 'e planner \<Rightarrow> 'e planner" where
  "record_outcome oc p =
     p\<lparr>dp_outcomes := dset (oc_id oc) oc (dp_outcomes p), dp_store := map_option (pst_put_outcome oc) (dp_store p)\<rparr>"

definition create_plan :: "'e planner_env \<Rightarrow> string \<Rightarrow> plan_step list \<Rightarrow> 'e planner \<Rightarrow> plan \<times> 'e planner" where
  "create_plan c workflow_id ss p0 =
     (let (pid, p) = fresh_id c p0; n = length (dp_heap p);
          pl = \<lparr>pn_id = pid, pn_workflow_id = workflow_id, pn_status = PDraft, pn_steps = [n ..< n + length ss],
                pn_updated_at = pe_now c (dp_env p), pn_version = 1\<rparr>;
          p1 = p\<lparr>dp_heap := dp_heap p @ ss, dp_objs := dset pid pl (dp_objs p),
                 dp_plans := (if pid \<in> set (dp_plans p) then dp_plans p else dp_plans p @ [pid])\<rparr>;
          p2 = dp_emit (PlanCreated pid workflow_id (int (length ss)) 1) (persist_plan pl p1)
      in (pl, fold (\<lambda>s. dp_emit (StepPlanned pid (ps_step_id s) (ps_cap s) (ps_agent_id s) (risk_value (ps_risk s)))) ss p2))"

definition get_plan :: "string \<Rightarrow> 'e planner \<Rightarrow> plan option \<times> 'e planner" where
  "get_plan pid p =
     (if pid \<in> set (dp_plans p) then (dget (dp_objs p) pid, p)
      else
        (case dp_store p of
           None \<Rightarrow> (None, p)
         | Some st \<Rightarrow>
             if pid \<in> set (pst_mem st) then (dget (dp_objs p) pid, p)
             else
               (case Option.bind (pst_db st) (\<lambda>d. dget (pdb_plans d) pid) of
                  None \<Rightarrow> (None, p)
                | Some row \<Rightarrow> apfst Some (load_plan row p))))"

definition list_plans :: "string \<Rightarrow> 'e planner \<Rightarrow> plan list" where
  "list_plans workflow_id p =
     (let plans = filter (\<lambda>pl. pn_workflow_id pl = workflow_id) (List.map_filter (dget (dp_objs p)) (dp_plans p)) @
                  (case dp_store p of
                     None \<Rightarrow> []
                   | Some st \<Rightarrow> filter (\<lambda>pl. pn_workflow_id pl = workflow_id) (List.map_filter (dget (dp_objs p)) (pst_mem st)))
      in dvals (fold (\<lambda>pl. dset (pn_id pl) pl) plans []))"

definition already_succeeded :: "'e planner \<Rightarrow> string \<Rightarrow> string \<Rightarrow> bool" where
  "already_succeeded p pid sid \<longleftrightarrow>
     (\<exists>oc \<in> set (dvals (dp_outcomes p)). oc_plan_id oc = pid \<and> oc_step_id oc = sid \<and> oc_status oc = ''success'')"

text \<open>The outcome with the highest retry count, the later one among equals, of all recorded for the step id.\<close>

definition last_outcome :: "'e planner \<Rightarrow> string \<Rightarrow> outcome option" where
  "last_outcome p sid =
     fold (\<lambda>oc last. if oc_step_id oc = sid
                     then (case last of None \<Rightarrow> Some oc | Some l \<Rightarrow> if oc_retry_count oc \<ge> oc_retry_count l then Some oc else last)
                     else last) (dvals (dp_outcomes p)) None"

fun plan_step_by_id :: "plan_step list \<Rightarrow> string \<Rightarrow> plan_step option" where
  "plan_step_by_id [] i = None"
| "plan_step_by_id (s # ss) i = (if ps_step_id s = i then Some s else plan_step_by_id ss i)"

section \<open>Replanning\<close>

definition next_eligible_agent :: "'e planner_env \<Rightarrow> plan \<Rightarrow> string option \<Rightarrow> 'e planner \<Rightarrow> string option \<times> 'e planner" where
  "next_eligible_agent c pl exclude p =
     (let healthy = (case pe_members c of
                       None \<Rightarrow> []
                     | Some members \<Rightarrow>
                         (case members (pn_id pl) (dp_env p) of
                            None \<Rightarrow> []
                          | Some ms \<Rightarrow> map fst (filter (\<lambda>(a, h). (h = ''healthy'' \<or> h = ''suspected'') \<and> Some a \<noteq> exclude) ms)));
          agents = remdups (List.map_filter (\<lambda>s. case ps_agent_id s of None \<Rightarrow> None
                              | Some a \<Rightarrow> if a \<noteq> [] \<and> Some a \<noteq> exclude then Some a else None) (steps_of p pl));
          cands = (if healthy \<noteq> [] then healthy else agents)
      in if cands = [] then (None, p)
         else (case pe_choice c cands (dp_env p) of (a, e) \<Rightarrow> (Some a, p\<lparr>dp_env := e\<rparr>)))"

definition heap_mod :: "nat \<Rightarrow> (plan_step \<Rightarrow> plan_step) \<Rightarrow> 'e planner \<Rightarrow> 'e planner" where
  "heap_mod i f p = p\<lparr>dp_heap := (dp_heap p)[i := f (dp_heap p ! i)]\<rparr>"

definition opt_str :: "string option \<Rightarrow> string" where
  "opt_str so = (case so of None \<Rightarrow> ''None'' | Some s \<Rightarrow> s)"

definition split_step :: "plan_step \<Rightarrow> plan_step list" where
  "split_step s =
     (let half = s\<lparr>ps_duration_ms := max 1 (ps_duration_ms s div 2)\<rparr>; a = ps_step_id s @ ''-a''
      in [half\<lparr>ps_step_id := a\<rparr>, half\<lparr>ps_step_id := ps_step_id s @ ''-b'', ps_dependencies := ps_dependencies s @ [a]\<rparr>])"

fun split_failed :: "string option \<Rightarrow> nat list \<Rightarrow> 'e planner \<Rightarrow> nat list \<times> string list \<times> 'e planner" where
  "split_failed failed [] p = ([], [], p)"
| "split_failed failed (i # is) p =
     (let s = dp_heap p ! i
      in if Some (ps_step_id s) = failed
         then (let n = length (dp_heap p);
                   (refs, changes, p1) = split_failed failed is (p\<lparr>dp_heap := dp_heap p @ split_step s\<rparr>)
               in (n # (n + 1) # refs, (''step_failed:split->'' @ ps_step_id s @ ''-a/-b'') # changes, p1))
         else (let (refs, changes, p1) = split_failed failed is p in (i # refs, changes, p1)))"

definition replan_rule_based :: "'e planner_env \<Rightarrow> plan \<Rightarrow> trigger \<Rightarrow> 'e planner \<Rightarrow> nat list \<times> string list \<times> 'e planner" where
  "replan_rule_based c pl tr p =
     (let refs = pn_steps pl; failed = dget (tr_context tr) ''step_id''
      in if tr_reason tr = ''capability_missing'' then
           (refs,
            map (\<lambda>i. ps_step_id (dp_heap p ! i) @ '':mark_high'') (filter (\<lambda>i. ps_risk (dp_heap p ! i) \<noteq> HIGH) refs) @ [''capability_missing:unassign''],
            fold (\<lambda>i. heap_mod i (\<lambda>s. s\<lparr>ps_agent_id := None, ps_risk := HIGH\<rparr>)) refs p)
         else if tr_reason tr = ''agent_unhealthy'' then
           (let failed_agent = Option.bind (Option.bind failed (plan_step_by_id (steps_of p pl))) ps_agent_id;
                (cand, p1) = next_eligible_agent c pl failed_agent p
            in (refs, [''agent_unhealthy:reassign->'' @ opt_str cand],
                fold (\<lambda>i. heap_mod i (\<lambda>s. if Some (ps_step_id s) = failed \<or> ps_agent_id s = None then s\<lparr>ps_agent_id := cand\<rparr> else s)) refs p1))
         else if tr_reason tr = ''step_failed'' then split_failed failed refs p
         else if tr_reason tr = ''risk_escalation'' then
           (refs,
            map (\<lambda>i. ''risk_escalation:'' @ opt_str failed @ ''->'' @ risk_value (bump_risk (ps_risk (dp_heap p ! i)) 1))
              (filter (\<lambda>i. Some (ps_step_id (dp_heap p ! i)) = failed) refs),
            fold (\<lambda>i. heap_mod i (\<lambda>s. if Some (ps_step_id s) = failed
                                      then s\<lparr>ps_risk := bump_risk (ps_risk s) 1, ps_retry_budget := ps_retry_budget s + 1\<rparr> else s)) refs p)
         else if tr_reason tr = ''swarm_rebalance'' then
           (case (dget (tr_context tr) ''from_agent'', dget (tr_context tr) ''to_agent'') of
              (Some f, Some t) \<Rightarrow>
                (refs, [''swarm_rebalance:'' @ f @ ''->'' @ t],
                 fold (\<lambda>i. heap_mod i (\<lambda>s. if ps_agent_id s = Some f then s\<lparr>ps_agent_id := Some t\<rparr> else s)) refs p)
            | _ \<Rightarrow> (refs, [], p))
         else (refs, [], p))"

text \<open>The LLM's steps are new objects; an empty list is a \<open>ValueError\<close>, and errors fall back to the rules.\<close>

definition replan :: "'e planner_env \<Rightarrow> plan \<Rightarrow> trigger \<Rightarrow> 'e planner \<Rightarrow> (plan, 'e planner) res" where
  "replan c pl tr p =
     (let by_rules = (\<lambda>p. case replan_rule_based c pl tr p of (refs, changes, p1) \<Rightarrow> (Inr (refs, changes), p1));
          chosen = (case pe_llm c of
                      None \<Rightarrow> by_rules p
                    | Some llm \<Rightarrow>
                        (case dp_call (llm pl tr) p of
                           (Inr ss, p1) \<Rightarrow>
                             if ss = [] then by_rules p1
                             else (Inr ([length (dp_heap p1) ..< length (dp_heap p1) + length ss], [''llm_replan'']), p1\<lparr>dp_heap := dp_heap p1 @ ss\<rparr>)
                         | (Inl x, p1) \<Rightarrow> if catches ''Exception'' x then by_rules p1 else (Inl x, p1)))
      in case chosen of
           (Inl x, p1) \<Rightarrow> (Inl x, p1)
         | (Inr (refs, changes), p1) \<Rightarrow>
             (let (pid, p2) = fresh_id c p1;
                  new = \<lparr>pn_id = pid, pn_workflow_id = pn_workflow_id pl, pn_status = PAdapted, pn_steps = refs,
                         pn_updated_at = pe_now c (dp_env p2), pn_version = pn_version pl + 1\<rparr>;
                  p3 = p2\<lparr>dp_objs := dset pid new (dp_objs p2),
                          dp_plans := (if pid \<in> set (dp_plans p2) then dp_plans p2 else dp_plans p2 @ [pid])\<rparr>
              in (Inr new, dp_emit (PlanAdapted pid (pn_version pl) (pn_version new) (join ''; '' changes)) (persist_plan new p3))))"

section \<open>Execution\<close>

definition set_plan_status :: "string \<Rightarrow> plan_status \<Rightarrow> 'e planner \<Rightarrow> 'e planner" where
  "set_plan_status pid st p =
     (case dget (dp_objs p) pid of None \<Rightarrow> p | Some pl \<Rightarrow> write_plan (pl\<lparr>pn_status := st\<rparr>) p)"

text \<open>The plan object as it is now.\<close>

definition plan_obj :: "'e planner \<Rightarrow> plan \<Rightarrow> plan" where
  "plan_obj p pl = (case dget (dp_objs p) (pn_id pl) of None \<Rightarrow> pl | Some q \<Rightarrow> q)"

text \<open>The pass over the adapted plan: steps that succeeded under its id are skipped, failures are recorded.\<close>

fun rerun :: "'e planner_env \<Rightarrow> string \<Rightarrow> plan_step list \<Rightarrow> 'e planner \<Rightarrow> (unit, 'e planner) res" where
  "rerun c apid [] p = (Inr (), p)"
| "rerun c apid (s # ss) p =
     (if already_succeeded p apid (ps_step_id s) then rerun c apid ss p
      else
        (case dp_call (pe_executor c s) p of
           (Inl x, p1) \<Rightarrow> (Inl x, p1)
         | (Inr oc, p1) \<Rightarrow>
             rerun c apid ss
               (dp_emit (StepExecuted apid (ps_step_id s) (oc_status oc) (oc_duration_ms oc) 0) (record_outcome (oc\<lparr>oc_retry_count := 0\<rparr>) p1))))"

text \<open>The budget is spent: the plan is adapted and the adapted plan is run once.\<close>

definition adapt_and_rerun :: "'e planner_env \<Rightarrow> plan \<Rightarrow> plan_step \<Rightarrow> outcome \<Rightarrow> 'e planner \<Rightarrow> (outcome, 'e planner) res" where
  "adapt_and_rerun c pl s oc p =
     (let pid = pn_id pl; (tid, p1) = fresh_id c p;
          tr = \<lparr>tr_id = tid, tr_plan_id = pid, tr_reason = ''step_failed'',
                tr_context = [(''step_id'', ps_step_id s), (''status'', oc_status oc)]\<rparr>;
          p2 = dp_emit (ReplanTriggered tid pid ''step_failed'' (Some (ps_step_id s))) (p1\<lparr>dp_replans := dset tid tr (dp_replans p1)\<rparr>)
      in case replan c (plan_obj p2 pl) tr p2 of
           (Inl x, p3) \<Rightarrow> (Inl x, p3)
         | (Inr new, p3) \<Rightarrow>
             (let p4 = set_plan_status pid PAdapted p3
              in case toposort (steps_of p4 new) of
                   Inl x \<Rightarrow> (Inl x, p4)
                 | Inr order \<Rightarrow>
                     (case rerun c (pn_id new) order p4 of
                        (Inl x, p5) \<Rightarrow> (Inl x, p5)
                      | (Inr _, p5) \<Rightarrow>
                          (Inr (case last_outcome p5 (ps_step_id s) of None \<Rightarrow> oc | Some l \<Rightarrow> l), p5))))"

text \<open>
  The retry loop of one step: \<open>n\<close> is the budget that is left, \<open>retry\<close> the number of retries made.
\<close>

fun retry_step :: "'e planner_env \<Rightarrow> plan \<Rightarrow> plan_step \<Rightarrow> nat \<Rightarrow> nat \<Rightarrow> 'e planner \<Rightarrow> (outcome, 'e planner) res" where
  "retry_step c pl s n retry p =
     (case dp_call (pe_executor c s) p of
        (Inl x, p1) \<Rightarrow> (Inl x, p1)
      | (Inr oc0, p1) \<Rightarrow>
          (let oc = oc0\<lparr>oc_retry_count := int retry\<rparr>;
               p2 = record_outcome oc p1
           in if oc_status oc = ''success'' then
                (Inr oc, dp_emit (StepExecuted (pn_id pl) (ps_step_id s) ''success'' (oc_duration_ms oc) (int retry)) p2)
              else
                (case n of
                   0 \<Rightarrow> adapt_and_rerun c pl s oc p2
                 | Suc m \<Rightarrow>
                     (let p3 = dp_emit (StepExecuted (pn_id pl) (ps_step_id s) (oc_status oc) (oc_duration_ms oc) (int retry + 1)) p2
                      in case dp_call (pe_sleep c (2 ^ retry)) p3 of
                           (Inl x, p4) \<Rightarrow> (Inl x, p4)
                         | (Inr _, p4) \<Rightarrow> retry_step c pl s m (retry + 1) p4))))"

definition execute_step_with_retry :: "'e planner_env \<Rightarrow> plan \<Rightarrow> plan_step \<Rightarrow> 'e planner \<Rightarrow> (outcome, 'e planner) res" where
  "execute_step_with_retry c pl s = retry_step c pl s (nat (ps_retry_budget s)) 0"

fun execute_steps :: "'e planner_env \<Rightarrow> plan \<Rightarrow> plan_step list \<Rightarrow> 'e planner \<Rightarrow> (unit, 'e planner) res" where
  "execute_steps c pl [] p = (Inr (), p)"
| "execute_steps c pl (s # ss) p =
     (case execute_step_with_retry c pl s p of
        (Inl x, p1) \<Rightarrow> (Inl x, p1)
      | (Inr _, p1) \<Rightarrow> execute_steps c pl ss p1)"

text \<open>\<open>all(...)\<close> stops at the first step that did not succeed; a step without an outcome raises.\<close>

fun all_succeeded :: "'e planner \<Rightarrow> plan_step list \<Rightarrow> exn + bool" where
  "all_succeeded p [] = Inr True"
| "all_succeeded p (s # ss) =
     (case last_outcome p (ps_step_id s) of
        None \<Rightarrow> Inl (AttributeError (quoted ''NoneType'' @ '' object has no attribute '' @ quoted ''status''))
      | Some oc \<Rightarrow> if oc_status oc = ''success'' then all_succeeded p ss else Inr False)"

definition execute_plan :: "'e planner_env \<Rightarrow> string \<Rightarrow> 'e planner \<Rightarrow> (plan, 'e planner) res" where
  "execute_plan c pid p =
     (case get_plan pid p of
        (None, p0) \<Rightarrow> (Inl (KeyError (''plan '' @ quoted pid @ '' not found'')), p0)
      | (Some pl0, p0) \<Rightarrow>
          (let pl = pl0\<lparr>pn_status := PActive\<rparr>;
               p1 = persist_plan pl (write_plan pl p0)
           in case toposort (steps_of p1 pl) of
                Inl x \<Rightarrow> (Inl x, p1)
              | Inr order \<Rightarrow>
                  (case execute_steps c pl order p1 of
                     (Inl x, p2) \<Rightarrow> (Inl x, p2)
                   | (Inr _, p2) \<Rightarrow>
                       (case all_succeeded p2 (steps_of p2 pl) of
                          Inl x \<Rightarrow> (Inl x, p2)
                        | Inr ok \<Rightarrow>
                            (let final = pl\<lparr>pn_status := (if ok then PCompleted else PAdapted), pn_updated_at := pe_now c (dp_env p2)\<rparr>
                             in (Inr final, persist_plan final (write_plan final p2)))))))"

section \<open>Risk assessment\<close>

definition count_failures :: "plan_step list \<Rightarrow> outcome list \<Rightarrow> (string, int) dict" where
  "count_failures ss history =
     fold (\<lambda>oc d. if oc_status oc = ''failure'' \<or> oc_status oc = ''timeout''
                  then (case plan_step_by_id ss (oc_step_id oc) of
                          None \<Rightarrow> d
                        | Some s \<Rightarrow> dset (ps_cap s) (dget_or d (ps_cap s) 0 + 1) d)
                  else d) history []"

definition unhealthy_steps :: "outcome list \<Rightarrow> string set" where
  "unhealthy_steps history = oc_step_id ` {oc \<in> set history. oc_error_type oc = Some ''agent_unhealthy''}"

definition assessed_risk :: "(string, int) dict \<Rightarrow> string set \<Rightarrow> plan_step \<Rightarrow> risk_level" where
  "assessed_risk failures unhealthy s =
     (if ps_step_id s \<in> unhealthy then CRITICAL
      else if dget_or failures (ps_cap s) 0 > 2 then HIGH
      else ps_risk s)"

fun assess_steps :: "(string, int) dict \<Rightarrow> string set \<Rightarrow> string \<Rightarrow> nat list \<Rightarrow> 'e planner \<Rightarrow> bool \<times> 'e planner" where
  "assess_steps failures unhealthy pid [] p = (False, p)"
| "assess_steps failures unhealthy pid (i # is) p =
     (let s = dp_heap p ! i; new = assessed_risk failures unhealthy s
      in if new = ps_risk s then assess_steps failures unhealthy pid is p
         else
           (let p1 = heap_mod i (\<lambda>s. s\<lparr>ps_risk := new\<rparr>) p;
                p2 = dp_emit (RiskEscalated pid (ps_step_id s) (risk_value (ps_risk s)) (risk_value new) ''risk_assessment'') p1
            in (True, snd (assess_steps failures unhealthy pid is p2))))"

definition risk_assess :: "'e planner_env \<Rightarrow> plan \<Rightarrow> outcome list \<Rightarrow> 'e planner \<Rightarrow> plan \<times> 'e planner" where
  "risk_assess c pl history p =
     (let (changed, p1) = assess_steps (count_failures (steps_of p pl) history) (unhealthy_steps history) (pn_id pl) (pn_steps pl) p
      in if changed
         then (let pl' = pl\<lparr>pn_updated_at := pe_now c (dp_env p1)\<rparr> in (pl', persist_plan pl' (write_plan pl' p1)))
         else (pl, p1))"

section \<open>Dependency order\<close>

text \<open>
  \<open>dep_rel d\<close> relates a step id to the ids of the steps that depend on it, as far as both exist;
  \<open>ordered_by d order\<close> says that every step comes after its existing dependencies.
\<close>

definition dep_rel :: "(string, plan_step) dict \<Rightarrow> (string \<times> string) set" where
  "dep_rel d = {(a, b). dget d a \<noteq> None \<and> (\<exists>s. dget d b = Some s \<and> a \<in> set (ps_dependencies s))}"

definition ordered_by :: "(string, plan_step) dict \<Rightarrow> plan_step list \<Rightarrow> bool" where
  "ordered_by d order \<longleftrightarrow>
     (\<forall>pre s post. order = pre @ s # post \<longrightarrow>
        (\<forall>a \<in> set (ps_dependencies s). dget d a \<noteq> None \<longrightarrow> a \<in> ps_step_id ` set pre))"

definition topo_inv :: "(string, plan_step) dict \<Rightarrow> topo \<Rightarrow> bool" where
  "topo_inv d st \<longleftrightarrow>
     distinct (map ps_step_id (snd st)) \<and> set (fst st) = ps_step_id ` set (snd st) \<and>
     (\<forall>s \<in> set (snd st). dget d (ps_step_id s) = Some s) \<and> ordered_by d (snd st)"

definition on_stack :: "(string, plan_step) dict \<Rightarrow> string list \<Rightarrow> string list \<Rightarrow> bool" where
  "on_stack d stack sids \<longleftrightarrow>
     (\<forall>a \<in> set stack. dget d a \<noteq> None \<and> (\<forall>b \<in> set sids. dget d b \<noteq> None \<longrightarrow> (b, a) \<in> (dep_rel d)\<^sup>+))"

definition topo_post :: "(string, plan_step) dict \<Rightarrow> string list \<Rightarrow> string list \<Rightarrow> topo \<Rightarrow> exn + topo \<Rightarrow> bool" where
  "topo_post d sids stack st r =
     (case r of
        Inl x \<Rightarrow> (\<exists>i. (i, i) \<in> (dep_rel d)\<^sup>+ \<and> x = ValueError (''dependency cycle detected at step '' @ quoted i))
      | Inr st' \<Rightarrow>
          topo_inv d st' \<and> set (fst st) \<subseteq> set (fst st') \<and> set (fst st') \<inter> set stack = {} \<and>
          (\<forall>b \<in> set sids. dget d b \<noteq> None \<longrightarrow> b \<in> set (fst st')))"

declare visit_all.simps [simp del] retry_step.simps [simp del]

lemma ordered_by_Nil [simp]: "ordered_by d []"
  by (simp add: ordered_by_def)

lemma ordered_by_snoc:
  "ordered_by d (order @ [s]) \<longleftrightarrow>
     ordered_by d order \<and> (\<forall>a \<in> set (ps_dependencies s). dget d a \<noteq> None \<longrightarrow> a \<in> ps_step_id ` set order)"
proof
  assume *: "ordered_by d (order @ [s])"
  show "ordered_by d order \<and> (\<forall>a \<in> set (ps_dependencies s). dget d a \<noteq> None \<longrightarrow> a \<in> ps_step_id ` set order)"
  proof
    show "ordered_by d order"
      unfolding ordered_by_def
    proof (intro allI impI)
      fix pre t post
      assume "order = pre @ t # post"
      then have "order @ [s] = pre @ t # (post @ [s])" by simp
      with * show "\<forall>a \<in> set (ps_dependencies t). dget d a \<noteq> None \<longrightarrow> a \<in> ps_step_id ` set pre"
        unfolding ordered_by_def by blast
    qed
    show "\<forall>a \<in> set (ps_dependencies s). dget d a \<noteq> None \<longrightarrow> a \<in> ps_step_id ` set order"
      using * unfolding ordered_by_def by blast
  qed
next
  assume *: "ordered_by d order \<and> (\<forall>a \<in> set (ps_dependencies s). dget d a \<noteq> None \<longrightarrow> a \<in> ps_step_id ` set order)"
  show "ordered_by d (order @ [s])"
    unfolding ordered_by_def
  proof (intro allI impI)
    fix pre t post
    assume eq: "order @ [s] = pre @ t # post"
    show "\<forall>a \<in> set (ps_dependencies t). dget d a \<noteq> None \<longrightarrow> a \<in> ps_step_id ` set pre"
    proof (cases post rule: rev_cases)
      case Nil
      with eq have "pre = order" "t = s" by auto
      with * show ?thesis by simp
    next
      case (snoc post' u)
      with eq have "order = pre @ t # post'" by simp
      with * show ?thesis unfolding ordered_by_def by blast
    qed
  qed
qed

lemma topo_inv_visit:
  assumes "topo_inv d (visited, order)" and "dget d sid = Some s" and "ps_step_id s = sid" and "sid \<notin> set visited"
    and "\<forall>b \<in> set (ps_dependencies s). dget d b \<noteq> None \<longrightarrow> b \<in> set visited"
  shows "topo_inv d (sid # visited, order @ [s])"
  using assms by (auto simp: topo_inv_def ordered_by_snoc)

lemma visit_all_post:
  assumes ids: "\<And>k s. dget d k = Some s \<Longrightarrow> ps_step_id s = k"
    and "topo_inv d st" and "on_stack d stack sids" and "set (fst st) \<inter> set stack = {}"
  shows "topo_post d sids stack st (visit_all d sids stack st)"
  using assms
proof (induction d sids stack st rule: visit_all.induct)
  case (1 d stack st)
  then show ?case by (simp add: topo_post_def visit_all.simps)
next
  case (2 d sid sids stack visited order)
  note IH = "2.IH" and ids = "2.prems"(1) and inv = "2.prems"(2) and stk = "2.prems"(3) and disj = "2.prems"(4)
  have rest: "on_stack d stack sids" using stk by (auto simp: on_stack_def)
  consider (seen) "sid \<in> set visited" | (cycle) "sid \<notin> set visited" "sid \<in> set stack"
    | (none) "sid \<notin> set visited" "sid \<notin> set stack" "dget d sid = None"
    | (step) s where "sid \<notin> set visited" "sid \<notin> set stack" "dget d sid = Some s"
    by blast
  then show ?case
  proof cases
    case seen
    have "topo_post d sids stack (visited, order) (visit_all d sids stack (visited, order))"
      using IH(1) seen ids inv rest disj by blast
    with seen show ?thesis by (auto simp: topo_post_def visit_all.simps split: sum.splits)
  next
    case cycle
    with stk have "(sid, sid) \<in> (dep_rel d)\<^sup>+" by (auto simp: on_stack_def)
    with cycle show ?thesis by (auto simp: topo_post_def visit_all.simps)
  next
    case none
    have "topo_post d sids stack (visited, order) (visit_all d sids stack (visited, order))"
      using IH(2) none ids inv rest disj by blast
    with none show ?thesis by (auto simp: topo_post_def visit_all.simps split: sum.splits)
  next
    case (step s)
    have sid: "ps_step_id s = sid" using ids step(3) .
    have edge: "(b, sid) \<in> dep_rel d" if "b \<in> set (ps_dependencies s)" "dget d b \<noteq> None" for b
      using that step(3) by (auto simp: dep_rel_def)
    have stk': "on_stack d (sid # stack) (ps_dependencies s)"
      unfolding on_stack_def
    proof (intro ballI conjI impI)
      fix a b
      assume a: "a \<in> set (sid # stack)"
      show "dget d a \<noteq> None" using a step(3) stk by (auto simp: on_stack_def)
      assume b: "b \<in> set (ps_dependencies s)" "dget d b \<noteq> None"
      show "(b, a) \<in> (dep_rel d)\<^sup>+"
      proof (cases "a = sid")
        case True
        with edge [OF b] show ?thesis by blast
      next
        case False
        with a stk step(3) have "(sid, a) \<in> (dep_rel d)\<^sup>+" by (auto simp: on_stack_def)
        with edge [OF b] show ?thesis by (rule trancl_into_trancl2)
      qed
    qed
    have disj': "set (fst (visited, order)) \<inter> set (sid # stack) = {}" using disj step(1) by auto
    have sub: "topo_post d (ps_dependencies s) (sid # stack) (visited, order) (visit_all d (ps_dependencies s) (sid # stack) (visited, order))"
      using IH(3) [OF step(1,2,3) ids inv stk' disj'] .
    show ?thesis
    proof (cases "visit_all d (ps_dependencies s) (sid # stack) (visited, order)")
      case (Inl x)
      with sub step show ?thesis by (simp add: topo_post_def visit_all.simps)
    next
      case (Inr st')
      obtain visited' order' where st': "st' = (visited', order')" by (cases st')
      with sub Inr have post: "topo_inv d (visited', order')" "set visited \<subseteq> set visited'"
          "set visited' \<inter> set (sid # stack) = {}" "\<forall>b \<in> set (ps_dependencies s). dget d b \<noteq> None \<longrightarrow> b \<in> set visited'"
        by (auto simp: topo_post_def)
      have inv': "topo_inv d (sid # visited', order' @ [s])"
        by (rule topo_inv_visit) (use post step sid in auto)
      have disj'': "set (fst (sid # visited', order' @ [s])) \<inter> set stack = {}" using post(3) step(2) by auto
      have "topo_post d sids stack (sid # visited', order' @ [s]) (visit_all d sids stack (sid # visited', order' @ [s]))"
        using IH(4) [OF step(1,2,3) Inr [unfolded st'] refl ids inv' rest disj''] .
      with Inr st' step post(2) show ?thesis
        by (auto simp: topo_post_def visit_all.simps split: sum.splits)
    qed
  qed
qed

lemma steps_by_id_get:
  "dget (steps_by_id ss) k = map_of (rev (map (\<lambda>s. (ps_step_id s, s)) ss)) k"
proof -
  have "steps_by_id ss = fold (\<lambda>(k, v). dset k v) (map (\<lambda>s. (ps_step_id s, s)) ss) []"
    by (simp add: steps_by_id_def fold_map o_def)
  then show ?thesis by (simp add: dget_fold_dset split: option.splits)
qed

lemma steps_by_id_Some: "dget (steps_by_id ss) k = Some s \<Longrightarrow> ps_step_id s = k \<and> s \<in> set ss"
  by (auto simp: steps_by_id_get dest!: map_of_SomeD)

lemma steps_by_id_None: "dget (steps_by_id ss) k = None \<longleftrightarrow> k \<notin> ps_step_id ` set ss"
  by (simp add: steps_by_id_get map_of_eq_None_iff image_image)

lemma ordered_acyclic:
  assumes ord: "ordered_by d order" and dist: "distinct (map ps_step_id order)"
    and all: "\<forall>k s. dget d k = Some s \<longrightarrow> s \<in> set order \<and> ps_step_id s = k"
  shows "acyclic (dep_rel d)"
proof -
  define pos where "pos k = (LEAST i. i < length order \<and> ps_step_id (order ! i) = k)" for k
  have pos: "pos (ps_step_id (order ! i)) = i" if "i < length order" for i
    unfolding pos_def
  proof (rule Least_equality)
    show "i < length order \<and> ps_step_id (order ! i) = ps_step_id (order ! i)" using that by simp
    show "i \<le> j" if "j < length order \<and> ps_step_id (order ! j) = ps_step_id (order ! i)" for j
    proof -
      have "map ps_step_id order ! j = map ps_step_id order ! i" using that \<open>i < length order\<close> by simp
      then have "j = i" using that \<open>i < length order\<close> nth_eq_iff_index_eq [OF dist, of j i] by simp
      then show ?thesis by simp
    qed
  qed
  have "pos a < pos b" if "(a, b) \<in> dep_rel d" for a b
  proof -
    from that obtain s where a: "dget d a \<noteq> None" and s: "dget d b = Some s" "a \<in> set (ps_dependencies s)"
      by (auto simp: dep_rel_def)
    with all have "s \<in> set order" "ps_step_id s = b" by auto
    then obtain j where j: "j < length order" "order ! j = s" "ps_step_id s = b" by (auto simp: in_set_conv_nth)
    have "order = take j order @ s # drop (Suc j) order" using j id_take_nth_drop by metis
    with ord s a have "a \<in> ps_step_id ` set (take j order)" unfolding ordered_by_def by blast
    then obtain i where "i < j" "ps_step_id (order ! i) = a" using j by (auto simp: in_set_conv_nth)
    with j pos [of i] pos [of j] show ?thesis by auto
  qed
  then have "dep_rel d \<subseteq> measure pos" by auto
  then show ?thesis by (meson acyclic_subset wf_acyclic wf_measure)
qed

lemma toposort_post:
  "topo_post (steps_by_id ss) (map ps_step_id ss) [] ([], []) (visit_all (steps_by_id ss) (map ps_step_id ss) [] ([], []))"
  by (rule visit_all_post) (auto dest: steps_by_id_Some simp: topo_inv_def on_stack_def)

lemma toposort_total:
  assumes "acyclic (dep_rel (steps_by_id ss))"
  obtains order where "toposort ss = Inr order" and "ps_step_id ` set ss \<subseteq> ps_step_id ` set order"
proof (cases "visit_all (steps_by_id ss) (map ps_step_id ss) [] ([], [])")
  case (Inl x)
  with toposort_post [of ss] assms show ?thesis by (simp add: topo_post_def acyclic_def)
next
  case (Inr st)
  with toposort_post [of ss] have "\<forall>b \<in> set ss. ps_step_id b \<in> ps_step_id ` set (snd st)"
    by (auto simp: topo_post_def topo_inv_def steps_by_id_None)
  then have "ps_step_id ` set ss \<subseteq> ps_step_id ` set (snd st)" by blast
  with Inr that [of "snd st"] show ?thesis by (simp add: toposort_def)
qed

section \<open>Runs in which every step succeeds\<close>

text \<open>
  An executor that succeeds on every step and stamps its outcomes with ids not used before; \<open>used\<close>
  reads the ids given out so far off the outside state.
\<close>

definition honest_executor :: "'e planner_env \<Rightarrow> ('e \<Rightarrow> string set) \<Rightarrow> bool" where
  "honest_executor c used \<longleftrightarrow>
     (\<forall>s e. \<exists>oc e'. pe_executor c s e = (Inr oc, e') \<and> oc_status oc = ''success'' \<and> oc_step_id oc = ps_step_id s \<and>
        oc_id oc \<notin> used e \<and> used e' = insert (oc_id oc) (used e))"

definition newer :: "string \<Rightarrow> outcome \<Rightarrow> outcome option \<Rightarrow> outcome option" where
  "newer sid oc prev =
     (if oc_step_id oc = sid
      then (case prev of None \<Rightarrow> Some oc | Some l \<Rightarrow> if oc_retry_count oc \<ge> oc_retry_count l then Some oc else prev)
      else prev)"

lemma last_outcome_newer: "last_outcome p sid = fold (newer sid) (dvals (dp_outcomes p)) None"
  unfolding last_outcome_def newer_def ..

lemma newer_low:
  assumes "\<forall>oc \<in> set ocs. oc_step_id oc = sid \<longrightarrow> oc_retry_count oc \<le> n" and "\<forall>l. prev = Some l \<longrightarrow> oc_retry_count l \<le> n"
  shows "\<forall>l. fold (newer sid) ocs prev = Some l \<longrightarrow> oc_retry_count l \<le> n"
  using assms
proof (induction ocs arbitrary: prev)
  case (Cons oc ocs)
  have "\<forall>l. newer sid oc prev = Some l \<longrightarrow> oc_retry_count l \<le> n"
    using Cons.prems by (auto simp: newer_def split: option.splits if_splits)
  with Cons show ?case by simp
qed simp

lemma newer_kept:
  assumes "\<forall>oc \<in> set ocs. P oc" and "P l"
  shows "\<exists>l'. fold (newer sid) ocs (Some l) = Some l' \<and> P l'"
  using assms by (induction ocs arbitrary: l) (auto simp: newer_def)

lemma newer_found:
  assumes "\<forall>oc \<in> set ocs. P oc \<and> oc_retry_count oc = n" and "sid \<in> oc_step_id ` set ocs"
    and "\<forall>l. prev = Some l \<longrightarrow> oc_retry_count l \<le> n"
  shows "\<exists>l. fold (newer sid) ocs prev = Some l \<and> P l"
  using assms
proof (induction ocs arbitrary: prev)
  case (Cons oc ocs)
  show ?case
  proof (cases "oc_step_id oc = sid")
    case True
    with Cons.prems have "newer sid oc prev = Some oc" by (auto simp: newer_def split: option.splits)
    with newer_kept [of ocs P oc sid] Cons.prems show ?thesis by simp
  next
    case False
    with Cons show ?thesis by (simp add: newer_def)
  qed
qed simp

lemma dp_emit_fields [simp]:
  "dp_outcomes (dp_emit e p) = dp_outcomes p" "dp_heap (dp_emit e p) = dp_heap p" "dp_env (dp_emit e p) = dp_env p"
  "dp_objs (dp_emit e p) = dp_objs p" "dp_plans (dp_emit e p) = dp_plans p" "dp_store (dp_emit e p) = dp_store p"
  by (simp_all add: dp_emit_def)

lemma record_outcome_fields [simp]:
  "dp_outcomes (record_outcome oc p) = dset (oc_id oc) oc (dp_outcomes p)" "dp_heap (record_outcome oc p) = dp_heap p"
  "dp_env (record_outcome oc p) = dp_env p" "dp_objs (record_outcome oc p) = dp_objs p" "dp_plans (record_outcome oc p) = dp_plans p"
  by (simp_all add: record_outcome_def)

lemma store_fields [simp]:
  "dp_outcomes (persist_plan pl p) = dp_outcomes p" "dp_heap (persist_plan pl p) = dp_heap p"
  "dp_env (persist_plan pl p) = dp_env p" "dp_objs (persist_plan pl p) = dp_objs p" "dp_plans (persist_plan pl p) = dp_plans p"
  "dp_outcomes (write_plan pl p) = dp_outcomes p" "dp_heap (write_plan pl p) = dp_heap p"
  "dp_env (write_plan pl p) = dp_env p" "dp_plans (write_plan pl p) = dp_plans p" "dp_store (write_plan pl p) = dp_store p"
  "dp_objs (write_plan pl p) = dset (pn_id pl) pl (dp_objs p)"
  by (simp_all add: persist_plan_def write_plan_def)

lemma steps_of_cong: "dp_heap p = dp_heap q \<Longrightarrow> pn_steps pl = pn_steps pl' \<Longrightarrow> steps_of p pl = steps_of q pl'"
  by (simp add: steps_of_def)

lemma step_succeeds:
  assumes "honest_executor c used" and "fst ` set (dp_outcomes p) \<subseteq> used (dp_env p)"
  obtains oc p' where "execute_step_with_retry c pl s p = (Inr oc, p')"
    and "dp_outcomes p' = dp_outcomes p @ [(oc_id oc, oc)]" and "oc_step_id oc = ps_step_id s"
    and "oc_status oc = ''success''" and "oc_retry_count oc = 0" and "dp_heap p' = dp_heap p" and "dp_objs p' = dp_objs p"
    and "fst ` set (dp_outcomes p') \<subseteq> used (dp_env p')"
proof -
  from assms(1) obtain oc e' where oc: "pe_executor c s (dp_env p) = (Inr oc, e')" "oc_status oc = ''success''"
      "oc_step_id oc = ps_step_id s" "oc_id oc \<notin> used (dp_env p)" "used e' = insert (oc_id oc) (used (dp_env p))"
    unfolding honest_executor_def by blast
  from oc(4) assms(2) have new: "oc_id oc \<notin> fst ` set (dp_outcomes p)" by blast
  show thesis
    by (rule that [of "oc\<lparr>oc_retry_count := 0\<rparr>"
            "dp_emit (StepExecuted (pn_id pl) (ps_step_id s) ''success'' (oc_duration_ms oc) 0) (record_outcome (oc\<lparr>oc_retry_count := 0\<rparr>) (p\<lparr>dp_env := e'\<rparr>))"])
       (use oc assms(2) in \<open>auto simp: execute_step_with_retry_def retry_step.simps dp_call_def Let_def dset_new [OF new]\<close>)
qed

lemma steps_succeed:
  assumes "honest_executor c used" and "fst ` set (dp_outcomes p) \<subseteq> used (dp_env p)"
  shows "\<exists>p' ocs. execute_steps c pl ss p = (Inr (), p') \<and> dvals (dp_outcomes p') = dvals (dp_outcomes p) @ ocs \<and>
           map oc_step_id ocs = map ps_step_id ss \<and> (\<forall>oc \<in> set ocs. oc_status oc = ''success'' \<and> oc_retry_count oc = 0) \<and>
           dp_heap p' = dp_heap p \<and> dp_objs p' = dp_objs p"
  using assms(2)
proof (induction ss arbitrary: p)
  case (Cons s ss)
  obtain oc p1 where p1: "execute_step_with_retry c pl s p = (Inr oc, p1)"
      "dp_outcomes p1 = dp_outcomes p @ [(oc_id oc, oc)]" "oc_step_id oc = ps_step_id s" "oc_status oc = ''success''"
      "oc_retry_count oc = 0" "dp_heap p1 = dp_heap p" "dp_objs p1 = dp_objs p" "fst ` set (dp_outcomes p1) \<subseteq> used (dp_env p1)"
    by (rule step_succeeds [OF assms(1) Cons.prems])
  from Cons.IH [OF p1(8)] obtain p' ocs where "execute_steps c pl ss p1 = (Inr (), p')"
      "dvals (dp_outcomes p') = dvals (dp_outcomes p1) @ ocs" "map oc_step_id ocs = map ps_step_id ss"
      "\<forall>oc \<in> set ocs. oc_status oc = ''success'' \<and> oc_retry_count oc = 0" "dp_heap p' = dp_heap p1" "dp_objs p' = dp_objs p1"
    by blast
  with p1 show ?case by (intro exI [of _ p'] exI [of _ "oc # ocs"]) auto
qed auto

lemma all_succeeded_True:
  "(\<forall>s \<in> set ss. \<exists>oc. last_outcome p (ps_step_id s) = Some oc \<and> oc_status oc = ''success'') \<Longrightarrow> all_succeeded p ss = Inr True"
  by (induction ss) auto

lemma honest_run:
  fixes c :: "'e planner_env"
  assumes "get_plan pid p = (Some pl, p0)" and "acyclic (dep_rel (steps_by_id (steps_of p0 pl)))"
    and "honest_executor c used" and "fst ` set (dp_outcomes p0) \<subseteq> used (dp_env p0)"
  obtains order ocs and p2 :: "'e planner" where "toposort (steps_of p0 pl) = Inr order" and "dvals (dp_outcomes p2) = dvals (dp_outcomes p0) @ ocs"
    and "map oc_step_id ocs = map ps_step_id order" and "\<forall>oc \<in> set ocs. oc_status oc = ''success'' \<and> oc_retry_count oc = 0"
    and "ps_step_id ` set (steps_of p0 pl) \<subseteq> oc_step_id ` set ocs"
    and "\<forall>ok. all_succeeded p2 (steps_of p0 pl) = Inr ok \<longrightarrow>
           (\<exists>final p'. execute_plan c pid p = (Inr final, p') \<and> pn_status final = (if ok then PCompleted else PAdapted) \<and>
             dget (dp_objs p') (pn_id pl) = Some final \<and> dp_outcomes p' = dp_outcomes p2)"
proof -
  let ?pl = "pl\<lparr>pn_status := PActive\<rparr>"
  let ?p1 = "persist_plan ?pl (write_plan ?pl p0)"
  obtain order where order: "toposort (steps_of p0 pl) = Inr order" "ps_step_id ` set (steps_of p0 pl) \<subseteq> ps_step_id ` set order"
    by (rule toposort_total [OF assms(2)])
  have keys: "fst ` set (dp_outcomes ?p1) \<subseteq> used (dp_env ?p1)" using assms(4) by simp
  from steps_succeed [OF assms(3) keys, of ?pl order] obtain p2 ocs
    where run: "execute_steps c ?pl order ?p1 = (Inr (), p2)" "dvals (dp_outcomes p2) = dvals (dp_outcomes p0) @ ocs"
      "map oc_step_id ocs = map ps_step_id order" "\<forall>oc \<in> set ocs. oc_status oc = ''success'' \<and> oc_retry_count oc = 0"
      "dp_heap p2 = dp_heap p0"
    by auto
  have "oc_step_id ` set ocs = ps_step_id ` set order" using run(3) by (metis set_map)
  moreover have "steps_of p2 ?pl = steps_of p0 pl" "steps_of ?p1 ?pl = steps_of p0 pl"
    using run(5) by (auto intro: steps_of_cong)
  ultimately show thesis
    by (intro that [OF order(1) run(2,3,4)]) (use assms(1) order run in \<open>simp_all add: execute_plan_def Let_def\<close>)
qed

section \<open>Replanning and risk\<close>

lemma newer_high:
  assumes "oc \<in> set ocs" and "oc_step_id oc = sid" and "oc_retry_count oc > n"
  shows "\<exists>l. fold (newer sid) ocs prev = Some l \<and> oc_retry_count l > n"
proof -
  have keep: "\<exists>l'. fold (newer sid) xs (Some l) = Some l' \<and> oc_retry_count l' > n" if "oc_retry_count l > n" for l xs
    using that by (induction xs arbitrary: l) (auto simp: newer_def)
  show ?thesis
    using assms
  proof (induction ocs arbitrary: prev)
    case (Cons o1 ocs)
    show ?case
    proof (cases "o1 = oc")
      case True
      with Cons.prems have "\<exists>l. newer sid o1 prev = Some l \<and> oc_retry_count l > n"
        by (auto simp: newer_def split: option.splits)
      with keep show ?thesis by auto
    next
      case False
      with Cons show ?thesis by simp
    qed
  qed simp
qed

lemma newer_member:
  "fold (newer sid) ocs prev = Some l \<Longrightarrow> prev = Some l \<or> (l \<in> set ocs \<and> oc_step_id l = sid)"
  by (induction ocs arbitrary: prev) (auto simp: newer_def split: if_splits option.splits)

lemma newer_stays:
  "\<forall>oc \<in> set ocs. oc_retry_count oc < oc_retry_count l \<Longrightarrow> fold (newer sid) ocs (Some l) = Some l"
  by (induction ocs) (auto simp: newer_def)

lemma newer_some:
  "prev \<noteq> None \<or> sid \<in> oc_step_id ` set ocs \<Longrightarrow> fold (newer sid) ocs prev \<noteq> None"
proof (induction ocs arbitrary: prev)
  case (Cons oc ocs)
  have "newer sid oc prev \<noteq> None \<or> sid \<in> oc_step_id ` set ocs"
    using Cons.prems by (auto simp: newer_def split: option.splits)
  with Cons.IH show ?case by simp
qed auto

lemma all_succeeded_False:
  assumes "\<forall>s \<in> set ss. last_outcome p (ps_step_id s) \<noteq> None"
    and "s \<in> set ss" and "last_outcome p (ps_step_id s) = Some oc" and "oc_status oc \<noteq> ''success''"
  shows "all_succeeded p ss = Inr False"
  using assms by (induction ss) (auto split: option.splits)

lemma split_failed_spec:
  assumes "\<forall>i \<in> set js. i < length (dp_heap p)" and "split_failed failed js p = (refs, changes, p')"
  shows "map (\<lambda>i. dp_heap p' ! i) refs =
           concat (map (\<lambda>s. if Some (ps_step_id s) = failed then split_step s else [s]) (map (\<lambda>i. dp_heap p ! i) js)) \<and>
         (\<exists>ext. p' = p\<lparr>dp_heap := dp_heap p @ ext\<rparr>)"
  using assms
proof (induction js arbitrary: p refs changes p')
  case (Cons i js)
  let ?s = "dp_heap p ! i" and ?n = "length (dp_heap p)"
  let ?p1 = "p\<lparr>dp_heap := dp_heap p @ split_step ?s\<rparr>"
  have len: "length (split_step ?s) = 2" by (simp add: split_step_def Let_def)
  show ?case
  proof (cases "Some (ps_step_id ?s) = failed")
    case True
    obtain refs1 ch1 p1 where rec: "split_failed failed js ?p1 = (refs1, ch1, p1)" by (metis prod_cases3)
    with True Cons.prems(2) have eq: "refs = ?n # (?n + 1) # refs1" "p' = p1" by (auto simp: Let_def)
    have "\<forall>j \<in> set js. j < length (dp_heap ?p1)" using Cons.prems(1) by auto
    from Cons.IH [OF this rec] obtain ext where
        IH: "map (\<lambda>i. dp_heap p1 ! i) refs1 = concat (map (\<lambda>s. if Some (ps_step_id s) = failed then split_step s else [s]) (map (\<lambda>i. dp_heap ?p1 ! i) js))"
        "p1 = ?p1\<lparr>dp_heap := dp_heap ?p1 @ ext\<rparr>" by blast
    have same: "map (\<lambda>i. dp_heap ?p1 ! i) js = map (\<lambda>i. dp_heap p ! i) js" using Cons.prems(1) by (auto simp: nth_append)
    have "[dp_heap p1 ! ?n, dp_heap p1 ! (?n + 1)] = split_step ?s"
      unfolding IH(2) by (simp add: nth_append split_step_def Let_def)
    moreover have "map (\<lambda>i. dp_heap p' ! i) refs = [dp_heap p1 ! ?n, dp_heap p1 ! (?n + 1)] @ map (\<lambda>i. dp_heap p1 ! i) refs1"
      using eq by simp
    ultimately have "map (\<lambda>i. dp_heap p' ! i) refs = split_step ?s @
        concat (map (\<lambda>s. if Some (ps_step_id s) = failed then split_step s else [s]) (map (\<lambda>i. dp_heap p ! i) js))"
      by (simp only: IH(1) same)
    moreover have "p' = p\<lparr>dp_heap := dp_heap p @ split_step ?s @ ext\<rparr>" using eq IH(2) by simp
    ultimately show ?thesis using True by auto
  next
    case False
    obtain refs1 ch1 p1 where rec: "split_failed failed js p = (refs1, ch1, p1)" by (metis prod_cases3)
    with False Cons.prems(2) have eq: "refs = i # refs1" "p' = p1" by (auto simp: Let_def)
    from Cons.prems(1) have "\<forall>j \<in> set js. j < length (dp_heap p)" by auto
    from Cons.IH [OF this rec] obtain ext where
        IH: "map (\<lambda>i. dp_heap p1 ! i) refs1 = concat (map (\<lambda>s. if Some (ps_step_id s) = failed then split_step s else [s]) (map (\<lambda>i. dp_heap p ! i) js))"
        "p1 = p\<lparr>dp_heap := dp_heap p @ ext\<rparr>" by blast
    from IH(2) Cons.prems(1) have "dp_heap p1 ! i = ?s" by (simp add: nth_append)
    with False eq IH show ?thesis by auto
  qed
qed (auto intro: exI [of _ "[]"])

lemma split_step_ids: "ps_step_id ` set (split_step s) = {ps_step_id s @ ''-a'', ps_step_id s @ ''-b''}"
  by (simp add: split_step_def Let_def)

lemma count_failures_get:
  "dget_or (count_failures ss history) cap 0 =
     int (length (filter (\<lambda>oc. (oc_status oc = ''failure'' \<or> oc_status oc = ''timeout'') \<and>
        (\<exists>s. plan_step_by_id ss (oc_step_id oc) = Some s \<and> ps_cap s = cap)) history))"
proof (induction history rule: rev_induct)
  case (snoc oc history)
  then show ?case
    by (auto simp: count_failures_def dget_or_def dget_dset split: option.splits)
qed (simp add: count_failures_def dget_or_def)

definition risk_events :: "(string, int) dict \<Rightarrow> string set \<Rightarrow> string \<Rightarrow> plan_step list \<Rightarrow> domain_event list" where
  "risk_events failures unhealthy pid ss =
     map (\<lambda>s. PlannerEv (RiskEscalated pid (ps_step_id s) (risk_value (ps_risk s)) (risk_value (assessed_risk failures unhealthy s)) ''risk_assessment''))
       (filter (\<lambda>s. assessed_risk failures unhealthy s \<noteq> ps_risk s) ss)"

lemma assess_steps_spec:
  assumes "distinct js" and "\<forall>i \<in> set js. i < length (dp_heap p)"
  shows "length (dp_heap (snd (assess_steps f u pid js p))) = length (dp_heap p) \<and>
     (\<forall>j < length (dp_heap p). dp_heap (snd (assess_steps f u pid js p)) ! j =
        (let s = dp_heap p ! j in if j \<in> set js then s\<lparr>ps_risk := assessed_risk f u s\<rparr> else s)) \<and>
     dp_sink (snd (assess_steps f u pid js p)) = emits (risk_events f u pid (map (\<lambda>i. dp_heap p ! i) js)) (dp_sink p)"
  using assms
proof (induction js arbitrary: p)
  case (Cons i js)
  let ?s = "dp_heap p ! i"
  show ?case
  proof (cases "assessed_risk f u ?s = ps_risk ?s")
    case True
    with Cons show ?thesis by (auto simp: risk_events_def Let_def)
  next
    case False
    let ?p1 = "dp_emit (RiskEscalated pid (ps_step_id ?s) (risk_value (ps_risk ?s)) (risk_value (assessed_risk f u ?s)) ''risk_assessment'')
                 (heap_mod i (\<lambda>s. s\<lparr>ps_risk := assessed_risk f u ?s\<rparr>) p)"
    have heap: "dp_heap ?p1 = (dp_heap p)[i := ?s\<lparr>ps_risk := assessed_risk f u ?s\<rparr>]" by (simp add: heap_mod_def)
    have m: "map (\<lambda>j. dp_heap ?p1 ! j) js = map (\<lambda>j. dp_heap p ! j) js"
      using Cons.prems unfolding heap by (auto simp: nth_list_update)
    have rng: "\<forall>j \<in> set js. j < length (dp_heap ?p1)" using Cons.prems heap by simp
    have rec: "snd (assess_steps f u pid (i # js) p) = snd (assess_steps f u pid js ?p1)" using False by (simp add: Let_def)
    have ev: "emits (risk_events f u pid (map (\<lambda>i. dp_heap p ! i) (i # js))) (dp_sink p) =
        emits (risk_events f u pid (map (\<lambda>i. dp_heap p ! i) js)) (dp_sink ?p1)"
      using False by (simp add: risk_events_def dp_emit_def heap_mod_def)
    have at_j: "dp_heap (heap_mod i (\<lambda>s. s\<lparr>ps_risk := assessed_risk f u ?s\<rparr>) p) ! j = (if j = i then ?s\<lparr>ps_risk := assessed_risk f u ?s\<rparr> else dp_heap p ! j)" if "j < length (dp_heap p)" for j
      using that by (simp add: nth_list_update heap_mod_def)
    have dist: "distinct js" "i \<notin> set js" using Cons.prems by auto
    have len: "length (dp_heap ?p1) = length (dp_heap p)" using heap by simp
    show ?thesis
      unfolding rec ev using Cons.IH [OF dist(1) rng, unfolded m len] dist(2) by (auto simp: at_j Let_def)
  qed
qed (simp add: risk_events_def)

section \<open>A small planner for the witnesses\<close>

text \<open>
  Step \<open>b\<close> is listed before the step \<open>a\<close> it depends on. The outside state counts the executor's calls, which number
  the outcomes; every step succeeds.
\<close>

definition demo_step :: "string \<Rightarrow> string list \<Rightarrow> risk_level \<Rightarrow> plan_step" where
  "demo_step i deps r =
     \<lparr>ps_step_id = i, ps_cap = ''cap'', ps_agent_id = None, ps_dependencies = deps, ps_duration_ms = 1000, ps_risk = r, ps_retry_budget = 3\<rparr>"

definition demo_steps :: "plan_step list" where
  "demo_steps = [demo_step ''b'' [''a''] CRITICAL, demo_step ''a'' [''gone''] LOW]"

definition demo_outcome :: "string \<Rightarrow> string \<Rightarrow> string \<Rightarrow> int \<Rightarrow> outcome" where
  "demo_outcome i sid status n =
     \<lparr>oc_id = i, oc_plan_id = ''Q'', oc_step_id = sid, oc_status = status, oc_duration_ms = 1, oc_error_type = None, oc_retry_count = n\<rparr>"

definition demo_env :: "nat planner_env" where
  "demo_env =
     \<lparr>pe_executor = (\<lambda>s n. (Inr (demo_outcome (replicate n CHR ''o'') (ps_step_id s) ''success'' 0), n + 1)), pe_llm = None, pe_members = None,
      pe_choice = (\<lambda>xs n. (hd xs, n)), pe_sleep = (\<lambda>_ n. (Inr (), n)), pe_now = int, pe_uid = (\<lambda>n. (replicate n CHR ''p'', n + 1))\<rparr>"

definition demo_used :: "nat \<Rightarrow> string set" where
  "demo_used n = insert ''x'' ((\<lambda>m. replicate m CHR ''o'') ` {..<n})"

definition demo_plan :: plan where
  "demo_plan = \<lparr>pn_id = ''P'', pn_workflow_id = ''W'', pn_status = PDraft, pn_steps = [0, 1], pn_updated_at = 0, pn_version = 1\<rparr>"

definition demo_planner :: "(string, outcome) dict \<Rightarrow> nat planner" where
  "demo_planner ocs =
     \<lparr>dp_sink = wired, dp_heap = demo_steps, dp_objs = [(''P'', demo_plan)], dp_plans = [''P''], dp_store = None,
      dp_outcomes = ocs, dp_replans = [], dp_env = 0\<rparr>"

lemmas demo_plan_simps = demo_step_def demo_steps_def demo_outcome_def demo_env_def demo_plan_def demo_planner_def

lemma demo_honest: "honest_executor demo_env demo_used"
proof -
  have "replicate n CHR ''o'' \<notin> (\<lambda>m. replicate m CHR ''o'') ` {..<n}" for n
    by (auto dest: arg_cong [where f = length])
  moreover have "replicate n CHR ''o'' \<noteq> ''x''" for n by (cases n) auto
  ultimately show ?thesis
    unfolding honest_executor_def by (simp add: demo_plan_simps demo_used_def lessThan_Suc insert_commute)
qed

lemma demo_fields: "dp_outcomes (demo_planner ocs) = ocs" "dp_env (demo_planner ocs) = 0"
  by (simp_all add: demo_planner_def)

lemma demo_get: "get_plan ''P'' (demo_planner ocs) = (Some demo_plan, demo_planner ocs)"
  by (simp add: get_plan_def demo_planner_def)

lemma demo_steps_of: "steps_of (demo_planner ocs) demo_plan = demo_steps"
  by (simp add: steps_of_def demo_plan_simps)

lemma demo_acyclic: "acyclic (dep_rel (steps_by_id demo_steps))"
proof -
  have "dep_rel (steps_by_id demo_steps) = {(''a'', ''b'')}"
    by (auto simp: dep_rel_def steps_by_id_def demo_plan_simps split: if_splits)
  then show ?thesis by (simp add: acyclic_insert wf_acyclic)
qed

lemma demo_toposort: "toposort demo_steps = Inr (rev demo_steps)"
  by (simp add: toposort_def visit_all.simps steps_by_id_def demo_plan_simps)

section \<open>Properties\<close>

text \<open>
  C10: the order in which a plan is executed. \<open>toposort\<close> succeeds exactly when the dependencies between
  existing steps have no cycle; the order then has every step id once and every step after all its
  existing dependencies (dependencies on unknown steps are ignored). Otherwise it is a \<open>ValueError\<close>
  that names a step on a cycle.
\<close>

theorem toposort_correct:
  "case toposort ss of
     Inr order \<Rightarrow>
       acyclic (dep_rel (steps_by_id ss)) \<and>
       distinct (map ps_step_id order) \<and> set order \<subseteq> set ss \<and> ps_step_id ` set order = ps_step_id ` set ss \<and>
       (\<forall>pre s post. order = pre @ s # post \<longrightarrow>
          set (ps_dependencies s) \<inter> ps_step_id ` set ss \<subseteq> ps_step_id ` set pre)
   | Inl x \<Rightarrow>
       (\<exists>i. (i, i) \<in> (dep_rel (steps_by_id ss))\<^sup>+ \<and> x = ValueError (''dependency cycle detected at step '' @ quoted i))"
proof -
  let ?d = "steps_by_id ss" and ?r = "visit_all (steps_by_id ss) (map ps_step_id ss) [] ([], [])"
  note post = toposort_post [of ss]
  show ?thesis
  proof (cases ?r)
    case (Inl x)
    with post show ?thesis by (simp add: toposort_def topo_post_def)
  next
    case (Inr st)
    then obtain visited order where st: "?r = Inr (visited, order)" by (cases st) auto
    with post have inv: "topo_inv ?d (visited, order)" and ids: "\<forall>b \<in> ps_step_id ` set ss. b \<in> set visited"
      by (auto simp: topo_post_def steps_by_id_None)
    have got: "\<forall>s \<in> set order. dget ?d (ps_step_id s) = Some s" using inv by (simp add: topo_inv_def)
    then have sub: "set order \<subseteq> set ss" by (auto dest: steps_by_id_Some)
    have eq: "ps_step_id ` set order = ps_step_id ` set ss"
      using inv ids sub by (auto simp: topo_inv_def)
    have "\<forall>k s. dget ?d k = Some s \<longrightarrow> s \<in> set order \<and> ps_step_id s = k"
    proof (intro allI impI)
      fix k s
      assume s: "dget ?d k = Some s"
      then have k: "ps_step_id s = k" "s \<in> set ss" using steps_by_id_Some by auto
      with eq obtain t where t: "t \<in> set order" "ps_step_id t = k" by (metis imageE imageI)
      with got s have "t = s" by force
      with t k show "s \<in> set order \<and> ps_step_id s = k" by simp
    qed
    then have "acyclic (dep_rel ?d)" using inv by (auto simp: topo_inv_def intro: ordered_acyclic)
    moreover have "\<forall>pre s post. order = pre @ s # post \<longrightarrow> set (ps_dependencies s) \<inter> ps_step_id ` set ss \<subseteq> ps_step_id ` set pre"
      using inv unfolding topo_inv_def ordered_by_def steps_by_id_None by auto
    ultimately show ?thesis using st eq sub inv by (simp add: toposort_def topo_inv_def)
  qed
qed

theorem toposort_correct_witness:
  "toposort demo_steps = Inr [demo_step ''a'' [''gone''] LOW, demo_step ''b'' [''a''] CRITICAL] \<and> acyclic (dep_rel (steps_by_id demo_steps))"
  using toposort_correct [of demo_steps] demo_toposort by (simp add: demo_steps_def)

text \<open>
  C11: a plan whose dependencies have no cycle, run by an executor that never fails, completes: every step
  id is executed exactly once, in dependency order, every outcome is recorded, and the plan ends
  \<open>COMPLETED\<close>. The outcomes already known for its steps must be first attempts (see \<open>stale_failure_blocks\<close>).
\<close>

theorem plan_completes:
  fixes c :: "'e planner_env"
  assumes "get_plan pid p = (Some pl, p0)" and "acyclic (dep_rel (steps_by_id (steps_of p0 pl)))"
    and "honest_executor c used" and "fst ` set (dp_outcomes p0) \<subseteq> used (dp_env p0)"
    and "\<forall>oc \<in> set (dvals (dp_outcomes p0)). oc_step_id oc \<in> ps_step_id ` set (steps_of p0 pl) \<longrightarrow> oc_retry_count oc \<le> 0"
  shows "\<exists>final p' order ocs. execute_plan c pid p = (Inr final, p') \<and> pn_status final = PCompleted \<and>
           dget (dp_objs p') (pn_id pl) = Some final \<and> toposort (steps_of p0 pl) = Inr order \<and>
           dvals (dp_outcomes p') = dvals (dp_outcomes p0) @ ocs \<and> map oc_step_id ocs = map ps_step_id order \<and>
           (\<forall>oc \<in> set ocs. oc_status oc = ''success'')"
proof -
  obtain order ocs and p2 :: "'e planner" where run: "toposort (steps_of p0 pl) = Inr order" "dvals (dp_outcomes p2) = dvals (dp_outcomes p0) @ ocs"
      "map oc_step_id ocs = map ps_step_id order" "\<forall>oc \<in> set ocs. oc_status oc = ''success'' \<and> oc_retry_count oc = 0"
      "ps_step_id ` set (steps_of p0 pl) \<subseteq> oc_step_id ` set ocs"
    and fin: "\<forall>ok. all_succeeded p2 (steps_of p0 pl) = Inr ok \<longrightarrow>
       (\<exists>final p'. execute_plan c pid p = (Inr final, p') \<and> pn_status final = (if ok then PCompleted else PAdapted) \<and>
         dget (dp_objs p') (pn_id pl) = Some final \<and> dp_outcomes p' = dp_outcomes p2)"
    by (rule honest_run [OF assms(1-4)])
  have "\<exists>oc. last_outcome p2 (ps_step_id s) = Some oc \<and> oc_status oc = ''success''" if s: "s \<in> set (steps_of p0 pl)" for s
    unfolding last_outcome_newer run(2) fold_append o_def
  proof (rule newer_found [OF run(4)])
    show "ps_step_id s \<in> oc_step_id ` set ocs" using s run(5) by auto
    show "\<forall>l. fold (newer (ps_step_id s)) (dvals (dp_outcomes p0)) None = Some l \<longrightarrow> oc_retry_count l \<le> 0"
      by (rule newer_low) (use assms(5) s in auto)
  qed
  then have "all_succeeded p2 (steps_of p0 pl) = Inr True" by (blast intro: all_succeeded_True)
  with fin obtain final p' where "execute_plan c pid p = (Inr final, p')" "pn_status final = PCompleted"
      "dget (dp_objs p') (pn_id pl) = Some final" "dp_outcomes p' = dp_outcomes p2"
    by force
  with run show ?thesis by (intro exI [of _ final] exI [of _ p'] exI [of _ order] exI [of _ ocs]) simp
qed

theorem plan_completes_witness:
  "\<exists>final p' ocs. execute_plan demo_env ''P'' (demo_planner []) = (Inr final, p') \<and> pn_status final = PCompleted \<and>
     dvals (dp_outcomes p') = ocs \<and> map oc_step_id ocs = [''a'', ''b'']"
  using plan_completes [OF demo_get, of "[]" demo_env demo_used] demo_honest demo_acyclic demo_toposort
  by (auto simp: demo_steps_of demo_fields demo_steps_def demo_step_def)

text \<open>
  C36: \<open>_last_outcome\<close> looks at the step id only, not at the plan, and prefers the higher retry count. So once
  a step id has failed after a retry, in whatever plan, and was not seen to succeed at such a retry, a plan with
  that step can be run with every step succeeding and still does not end \<open>COMPLETED\<close>.
\<close>

theorem stale_failure_blocks:
  fixes c :: "'e planner_env"
  assumes "get_plan pid p = (Some pl, p0)" and "acyclic (dep_rel (steps_by_id (steps_of p0 pl)))"
    and "honest_executor c used" and "fst ` set (dp_outcomes p0) \<subseteq> used (dp_env p0)"
    and "s \<in> set (steps_of p0 pl)"
    and "\<exists>oc \<in> set (dvals (dp_outcomes p0)). oc_step_id oc = ps_step_id s \<and> oc_retry_count oc > 0"
    and "\<forall>oc \<in> set (dvals (dp_outcomes p0)). oc_step_id oc = ps_step_id s \<and> oc_retry_count oc > 0 \<longrightarrow> oc_status oc \<noteq> ''success''"
  shows "\<exists>final p' ocs. execute_plan c pid p = (Inr final, p') \<and> pn_status final = PAdapted \<and>
           dvals (dp_outcomes p') = dvals (dp_outcomes p0) @ ocs \<and>
           ps_step_id ` set (steps_of p0 pl) \<subseteq> oc_step_id ` set ocs \<and> (\<forall>oc \<in> set ocs. oc_status oc = ''success'')"
proof -
  let ?old = "dvals (dp_outcomes p0)"
  obtain order ocs and p2 :: "'e planner" where run: "toposort (steps_of p0 pl) = Inr order" "dvals (dp_outcomes p2) = ?old @ ocs"
      "map oc_step_id ocs = map ps_step_id order" "\<forall>oc \<in> set ocs. oc_status oc = ''success'' \<and> oc_retry_count oc = 0"
      "ps_step_id ` set (steps_of p0 pl) \<subseteq> oc_step_id ` set ocs"
    and fin: "\<forall>ok. all_succeeded p2 (steps_of p0 pl) = Inr ok \<longrightarrow>
       (\<exists>final p'. execute_plan c pid p = (Inr final, p') \<and> pn_status final = (if ok then PCompleted else PAdapted) \<and>
         dget (dp_objs p') (pn_id pl) = Some final \<and> dp_outcomes p' = dp_outcomes p2)"
    by (rule honest_run [OF assms(1-4)])
  from assms(6) obtain l where l: "fold (newer (ps_step_id s)) ?old None = Some l" "oc_retry_count l > 0"
    using newer_high by blast
  with newer_member [OF l(1)] assms(7) have bad: "oc_status l \<noteq> ''success''" by auto
  have "last_outcome p2 (ps_step_id s) = Some l"
    using l run(2,4) by (auto simp: last_outcome_newer intro: newer_stays)
  moreover have "\<forall>t \<in> set (steps_of p0 pl). last_outcome p2 (ps_step_id t) \<noteq> None"
    unfolding last_outcome_newer run(2) fold_append o_def using run(5) by (intro ballI newer_some) auto
  ultimately have "all_succeeded p2 (steps_of p0 pl) = Inr False"
    using all_succeeded_False assms(5) bad by blast
  with fin obtain final p' where "execute_plan c pid p = (Inr final, p')" "pn_status final = PAdapted" "dp_outcomes p' = dp_outcomes p2"
    by force
  with run show ?thesis by (intro exI [of _ final] exI [of _ p'] exI [of _ ocs]) simp
qed

theorem stale_failure_blocks_witness:
  "\<exists>final p' ocs. execute_plan demo_env ''P'' (demo_planner [(''x'', demo_outcome ''x'' ''a'' ''failure'' 3)]) = (Inr final, p') \<and>
     pn_status final = PAdapted \<and> dvals (dp_outcomes p') = demo_outcome ''x'' ''a'' ''failure'' 3 # ocs \<and>
     {''b'', ''a''} \<subseteq> oc_step_id ` set ocs \<and> (\<forall>oc \<in> set ocs. oc_status oc = ''success'')"
proof -
  have "fst ` set (dp_outcomes (demo_planner [(''x'', demo_outcome ''x'' ''a'' ''failure'' 3)]))
      \<subseteq> demo_used (dp_env (demo_planner [(''x'', demo_outcome ''x'' ''a'' ''failure'' 3)]))"
    by (simp add: demo_planner_def demo_used_def)
  then show ?thesis
    using stale_failure_blocks [OF demo_get _ demo_honest, of "[(''x'', demo_outcome ''x'' ''a'' ''failure'' 3)]" "demo_step ''a'' [''gone''] LOW"]
      demo_acyclic
    by (simp add: demo_steps_of demo_fields demo_steps_def demo_step_def demo_outcome_def)
qed

text \<open>
  Adapting a plan by the rules after a step has failed. The new plan is stored under the next version
  with the failed step replaced by its two halves, the second after the first, and every other step as it was; the
  old plan's steps are not touched. No step of the new plan has the failed step's id, so a step that depended on
  it is no longer ordered after the halves: unknown dependencies are ignored.
\<close>

theorem failed_step_split:
  assumes "pe_llm c = None" and "tr_reason tr = ''step_failed''" and "dget (tr_context tr) ''step_id'' = Some sid"
    and "\<forall>i \<in> set (pn_steps pl). i < length (dp_heap p)"
  shows "\<exists>new p'. replan c pl tr p = (Inr new, p') \<and> pn_workflow_id new = pn_workflow_id pl \<and> pn_version new = pn_version pl + 1 \<and>
           pn_status new = PAdapted \<and> get_plan (pn_id new) p' = (Some new, p') \<and>
           steps_of p' new = concat (map (\<lambda>s. if ps_step_id s = sid then split_step s else [s]) (steps_of p pl)) \<and>
           (\<forall>s. split_step s = [s\<lparr>ps_step_id := ps_step_id s @ ''-a'', ps_duration_ms := max 1 (ps_duration_ms s div 2)\<rparr>,
              s\<lparr>ps_step_id := ps_step_id s @ ''-b'', ps_duration_ms := max 1 (ps_duration_ms s div 2),
                ps_dependencies := ps_dependencies s @ [ps_step_id s @ ''-a'']\<rparr>]) \<and>
           sid \<notin> ps_step_id ` set (steps_of p' new) \<and> steps_of p' pl = steps_of p pl"
proof -
  obtain refs changes p1 where sp: "split_failed (Some sid) (pn_steps pl) p = (refs, changes, p1)" by (metis prod_cases3)
  from split_failed_spec [OF assms(4) sp] obtain ext where
      spec: "map (\<lambda>i. dp_heap p1 ! i) refs = concat (map (\<lambda>s. if ps_step_id s = sid then split_step s else [s]) (steps_of p pl))"
      "p1 = p\<lparr>dp_heap := dp_heap p @ ext\<rparr>"
    by (auto simp: steps_of_def)
  obtain i e where uid: "pe_uid c (dp_env p1) = (i, e)" by (cases "pe_uid c (dp_env p1)")
  have gone: "sid \<notin> ps_step_id ` set (concat (map (\<lambda>s. if ps_step_id s = sid then split_step s else [s]) (steps_of p pl)))"
    using split_step_ids by (auto split: if_splits)
  have old: "map (\<lambda>i. (dp_heap p @ ext) ! i) (pn_steps pl) = map (\<lambda>i. dp_heap p ! i) (pn_steps pl)"
    using assms(4) by (simp add: nth_append)
  obtain new p' where new: "replan c pl tr p = (Inr new, p')" "pn_workflow_id new = pn_workflow_id pl" "pn_version new = pn_version pl + 1"
      "pn_status new = PAdapted" "pn_steps new = refs" "get_plan (pn_id new) p' = (Some new, p')" "dp_heap p' = dp_heap p1"
    using assms(1-3) uid sp by (auto simp: replan_def replan_rule_based_def fresh_id_def get_plan_def Let_def)
  then have "steps_of p' new = map (\<lambda>i. dp_heap p1 ! i) refs" "steps_of p' pl = steps_of p pl"
    using spec(2) old by (simp_all add: steps_of_def)
  moreover have "\<forall>s. split_step s = [s\<lparr>ps_step_id := ps_step_id s @ ''-a'', ps_duration_ms := max 1 (ps_duration_ms s div 2)\<rparr>,
      s\<lparr>ps_step_id := ps_step_id s @ ''-b'', ps_duration_ms := max 1 (ps_duration_ms s div 2),
        ps_dependencies := ps_dependencies s @ [ps_step_id s @ ''-a'']\<rparr>]"
    by (simp add: split_step_def Let_def)
  ultimately show ?thesis using new gone spec(1) by (intro exI [of _ new] exI [of _ p']) (simp only: simp_thms)
qed

theorem failed_step_split_witness:
  "\<exists>new p'. replan demo_env demo_plan \<lparr>tr_id = ''t'', tr_plan_id = ''P'', tr_reason = ''step_failed'', tr_context = [(''step_id'', ''a'')]\<rparr>
       (demo_planner []) = (Inr new, p') \<and> pn_version new = 2 \<and> map ps_step_id (steps_of p' new) = [''b'', ''a-a'', ''a-b'']"
proof -
  let ?tr = "\<lparr>tr_id = ''t'', tr_plan_id = ''P'', tr_reason = ''step_failed'', tr_context = [(''step_id'', ''a'')]\<rparr>"
  obtain new p' where "replan demo_env demo_plan ?tr (demo_planner []) = (Inr new, p')" "pn_version new = pn_version demo_plan + 1"
      "steps_of p' new = concat (map (\<lambda>s. if ps_step_id s = ''a'' then split_step s else [s]) (steps_of (demo_planner []) demo_plan))"
    using failed_step_split [of demo_env ?tr "''a''" demo_plan "demo_planner []"] by (auto simp: demo_plan_simps)
  moreover have "pn_version demo_plan = 1" by (simp add: demo_plan_def)
  ultimately show ?thesis by (simp add: demo_steps_of demo_steps_def demo_step_def split_step_def Let_def)
qed

text \<open>
  Risk assessment. A step with an outcome of the kind \<open>agent_unhealthy\<close> becomes \<open>CRITICAL\<close>; otherwise a step
  whose capability has more than two failures or timeouts in the history becomes \<open>HIGH\<close>, whatever it was before,
  so that a \<open>CRITICAL\<close> step is lowered; all else stays. One \<open>RiskEscalated\<close> event is emitted for each step whose risk changed,
  in plan order.
\<close>

theorem risk_assessment:
  assumes "distinct (pn_steps pl)" and "\<forall>i \<in> set (pn_steps pl). i < length (dp_heap p)"
    and "risk_assess c pl history p = (pl', p')"
  shows "let unhealthy = (\<lambda>s. \<exists>oc \<in> set history. oc_error_type oc = Some ''agent_unhealthy'' \<and> oc_step_id oc = ps_step_id s);
             failures = (\<lambda>s. length (filter (\<lambda>oc. oc_status oc \<in> {''failure'', ''timeout''} \<and>
                          (\<exists>t. plan_step_by_id (steps_of p pl) (oc_step_id oc) = Some t \<and> ps_cap t = ps_cap s)) history));
             risk = (\<lambda>s. if unhealthy s then CRITICAL else if failures s > 2 then HIGH else ps_risk s)
         in steps_of p' pl' = map (\<lambda>s. s\<lparr>ps_risk := risk s\<rparr>) (steps_of p pl) \<and>
            dp_sink p' = emits (map (\<lambda>s. PlannerEv (RiskEscalated (pn_id pl) (ps_step_id s) (risk_value (ps_risk s)) (risk_value (risk s)) ''risk_assessment''))
                                 (filter (\<lambda>s. risk s \<noteq> ps_risk s) (steps_of p pl))) (dp_sink p)"
proof -
  let ?f = "count_failures (steps_of p pl) history" and ?u = "unhealthy_steps history"
  let ?p1 = "snd (assess_steps ?f ?u (pn_id pl) (pn_steps pl) p)"
  have keep: "dp_heap p' = dp_heap ?p1" "dp_sink p' = dp_sink ?p1" "pn_steps pl' = pn_steps pl"
    using assms(3) by (auto simp: risk_assess_def persist_plan_def write_plan_def Let_def split: prod.splits if_splits)
  have risk: "assessed_risk ?f ?u s =
      (if \<exists>oc \<in> set history. oc_error_type oc = Some ''agent_unhealthy'' \<and> oc_step_id oc = ps_step_id s then CRITICAL
       else if length (filter (\<lambda>oc. oc_status oc \<in> {''failure'', ''timeout''} \<and>
                 (\<exists>t. plan_step_by_id (steps_of p pl) (oc_step_id oc) = Some t \<and> ps_cap t = ps_cap s)) history) > 2 then HIGH
       else ps_risk s)" for s
  proof -
    have u: "ps_step_id s \<in> ?u \<longleftrightarrow> (\<exists>oc \<in> set history. oc_error_type oc = Some ''agent_unhealthy'' \<and> oc_step_id oc = ps_step_id s)"
      by (force simp: unhealthy_steps_def)
    show ?thesis unfolding assessed_risk_def by (rule if_cong [OF u refl]) (simp add: count_failures_get)
  qed
  have "steps_of p' pl' = map (\<lambda>s. s\<lparr>ps_risk := assessed_risk ?f ?u s\<rparr>) (steps_of p pl)"
    using assess_steps_spec [OF assms(1,2), of ?f ?u "pn_id pl"] assms(2) keep by (auto simp: steps_of_def Let_def)
  moreover have "dp_sink p' = emits (risk_events ?f ?u (pn_id pl) (steps_of p pl)) (dp_sink p)"
    using assess_steps_spec [OF assms(1,2), of ?f ?u "pn_id pl"] keep by (simp add: steps_of_def)
  ultimately show ?thesis unfolding Let_def risk risk_events_def by blast
qed

theorem risk_assessment_witness:
  "map ps_risk (steps_of (snd (risk_assess demo_env demo_plan (replicate 3 (demo_outcome ''o'' ''a'' ''failure'' 0)) (demo_planner []))) demo_plan) = [HIGH, HIGH] \<and>
   map ps_risk (steps_of (demo_planner []) demo_plan) = [CRITICAL, LOW] \<and> HIGH < CRITICAL"
proof -
  let ?h = "replicate 3 (demo_outcome ''o'' ''a'' ''failure'' 0)"
  obtain pl' p' where r: "risk_assess demo_env demo_plan ?h (demo_planner []) = (pl', p')" by fastforce
  then have pl': "pn_steps pl' = pn_steps demo_plan"
    by (auto simp: risk_assess_def Let_def split: prod.splits if_splits)
  have "map ps_risk (steps_of p' pl') = [HIGH, HIGH]"
    using risk_assessment [OF _ _ r] by (simp add: Let_def demo_steps_of) (simp add: demo_plan_simps numeral_3_eq_3)
  moreover have "steps_of p' pl' = steps_of p' demo_plan" using pl' by (simp add: steps_of_def)
  ultimately show ?thesis using r by (simp add: demo_steps_of demo_steps_def demo_step_def less_risk_level_def)
qed

end
