(* ===== verification/Swarm.thy ===== *)
theory Swarm
  imports Dispatch "HOL-Library.Product_Lexorder"
begin

text \<open>
  Swarms of agents: \<open>kernel/swarm.py\<close>, \<open>kernel/swarm_store.py\<close>, \<open>kernel/team_manager.py\<close>,
  \<open>kernel/distributed_health.py\<close> and the swarm models of \<open>kernel/domain.py\<close>.

  \<^item> A \<open>Swarm\<close> object is the one the store's memory holds under its id; writing a field of it is an update of
    \<open>sst_mem\<close>, and the database row follows at the next \<open>put\<close>.
  \<^item> An operation reads the clocks once: \<open>wall\<close> is \<open>_now()\<close>, \<open>mono_s\<close> the monotonic clock in seconds. Fresh ids are arguments.
  \<^item> The background loops call \<open>check_partitions\<close> and \<open>send_heartbeat\<close> at intervals; a run is a sequence of operations.
\<close>

section \<open>Data\<close>

datatype topology = LEADER_WORKER | MESH

record member =
  mb_agent_id :: string
  mb_node_id :: string
  mb_role :: string
  mb_health :: string
  mb_last_heartbeat :: datetime
  mb_capabilities :: "string list"

record swarm =
  sw_id :: string
  sw_topology :: topology
  sw_members :: "(string, member) dict"
  sw_leader_id :: "string option"
  sw_updated_at :: datetime

record delegation =
  dg_id :: string
  dg_task_id :: string
  dg_from_agent :: string
  dg_to_agent :: string
  dg_swarm_id :: string
  dg_status :: string

text \<open>Tasks allow extra attributes; \<open>swarm_id\<close> is one that need not be there.\<close>

record swarm_task = task +
  tk_assigned_to :: "string option"
  tk_workflow_id :: "string option"
  tk_swarm_id :: "string option option"

record swarm_db =
  sdb_swarms :: "(string, swarm) dict"
  sdb_delegations :: "(string, delegation) dict"

record swarm_store =
  sst_mem :: "(string, swarm) dict"
  sst_delegations :: "(string, delegation) dict"
  sst_db :: "swarm_db option"

record node_rec =
  nr_capabilities :: "string list"
  nr_load_score :: rat
  nr_last_seen :: rat
  nr_agent_ids :: "string list"

record coordinator =
  sc_sink :: sink
  sc_store :: swarm_store
  sc_suspicion_ms :: int
  sc_failure_ms :: int
  sc_rr :: "(string, string) dict"
  sc_delegations :: "(string, delegation) dict"
  sc_nodes :: "(string, node_rec) dict"
  sc_load :: "(string, rat) dict"
  sc_last_beat :: "(string, rat) dict"

section \<open>The store\<close>

definition sst_put :: "swarm \<Rightarrow> swarm_store \<Rightarrow> swarm_store" where
  "sst_put sw st =
     st\<lparr>sst_mem := dset (sw_id sw) sw (sst_mem st),
        sst_db := map_option (\<lambda>d. d\<lparr>sdb_swarms := row_replace (sw_id sw) sw (sdb_swarms d)\<rparr>) (sst_db st)\<rparr>"

definition sst_get :: "string \<Rightarrow> swarm_store \<Rightarrow> swarm option" where
  "sst_get sid st = dget (sst_mem st) sid"

definition sst_list :: "swarm_store \<Rightarrow> swarm list" where
  "sst_list st = dvals (sst_mem st)"

definition sst_delete :: "string \<Rightarrow> swarm_store \<Rightarrow> bool \<times> swarm_store" where
  "sst_delete sid st =
     (case dget (sst_mem st) sid of
        None \<Rightarrow> (False, st)
      | Some _ \<Rightarrow>
          (True, st\<lparr>sst_mem := ddel sid (sst_mem st),
                    sst_db := map_option (\<lambda>d. d\<lparr>sdb_swarms := ddel sid (sdb_swarms d),
                                               sdb_delegations := filter (\<lambda>(i, dg). dg_swarm_id dg \<noteq> sid) (sdb_delegations d)\<rparr>) (sst_db st)\<rparr>))"

definition sst_put_delegation :: "delegation \<Rightarrow> swarm_store \<Rightarrow> swarm_store" where
  "sst_put_delegation dg st =
     st\<lparr>sst_delegations := dset (dg_id dg) dg (sst_delegations st),
        sst_db := map_option (\<lambda>d. d\<lparr>sdb_delegations := row_replace (dg_id dg) dg (sdb_delegations d)\<rparr>) (sst_db st)\<rparr>"

definition sst_delegations_for :: "string \<Rightarrow> swarm_store \<Rightarrow> delegation list" where
  "sst_delegations_for sid st = filter (\<lambda>dg. dg_swarm_id dg = sid) (dvals (sst_delegations st))"

definition sst_open :: "swarm_db option \<Rightarrow> swarm_store" where
  "sst_open db =
     (case db of
        None \<Rightarrow> \<lparr>sst_mem = [], sst_delegations = [], sst_db = None\<rparr>
      | Some d \<Rightarrow>
          \<lparr>sst_mem = fold (\<lambda>(i, sw). dset i sw) (sdb_swarms d) [],
           sst_delegations = fold (\<lambda>(_, dg). dset (dg_id dg) dg) (sdb_delegations d) [], sst_db = Some d\<rparr>)"

section \<open>Membership and leadership\<close>

definition sc_publish :: "swarm_event \<Rightarrow> coordinator \<Rightarrow> coordinator" where
  "sc_publish e c = c\<lparr>sc_sink := emit (SwarmEv e) (sc_sink c)\<rparr>"

definition sc_publish_sync :: "swarm_event \<Rightarrow> coordinator \<Rightarrow> coordinator" where
  "sc_publish_sync e c = c\<lparr>sc_sink := emit_bus (SwarmEv e) (sc_sink c)\<rparr>"

definition persist_swarm :: "swarm \<Rightarrow> coordinator \<Rightarrow> coordinator" where
  "persist_swarm sw c = c\<lparr>sc_store := sst_put sw (sc_store c)\<rparr>"

definition get_swarm :: "string \<Rightarrow> coordinator \<Rightarrow> swarm option" where
  "get_swarm sid c = sst_get sid (sc_store c)"

text \<open>A write to a field of the object, before it is persisted.\<close>

definition write_swarm :: "swarm \<Rightarrow> coordinator \<Rightarrow> coordinator" where
  "write_swarm sw c = c\<lparr>sc_store := (sc_store c)\<lparr>sst_mem := dset (sw_id sw) sw (sst_mem (sc_store c))\<rparr>\<rparr>"

text \<open>
  \<open>swarm_id in self._store.list()\<close> compares a string with \<open>Swarm\<close> objects, which are never equal to it: the early
  return is never taken, and a swarm of that name is replaced by an empty one.
\<close>

definition create_swarm :: "datetime \<Rightarrow> string \<Rightarrow> topology \<Rightarrow> coordinator \<Rightarrow> swarm \<times> coordinator" where
  "create_swarm wall sid topo c =
     (let sw = \<lparr>sw_id = sid, sw_topology = topo, sw_members = [], sw_leader_id = None, sw_updated_at = wall\<rparr>
      in (sw, persist_swarm sw c))"

definition elect :: "swarm \<Rightarrow> string option" where
  "elect sw =
     (let candidates = filter (\<lambda>m. mb_health m = ''healthy'') (dvals (sw_members sw))
      in if candidates = [] then None else Some (mb_agent_id (last (sort_key mb_agent_id candidates))))"

definition run_election :: "datetime \<Rightarrow> string \<Rightarrow> coordinator \<Rightarrow> string option \<times> coordinator" where
  "run_election wall sid c =
     (case get_swarm sid c of
        None \<Rightarrow> (None, c)
      | Some sw \<Rightarrow>
          (let new_leader = elect sw
           in if new_leader \<noteq> sw_leader_id sw
              then (new_leader, sc_publish (LeaderElected sid new_leader (sw_leader_id sw) ''bully'')
                                  (persist_swarm (sw\<lparr>sw_leader_id := new_leader, sw_updated_at := wall\<rparr>) c))
              else (new_leader, persist_swarm sw c)))"

definition join_swarm ::
  "datetime \<Rightarrow> rat \<Rightarrow> string \<Rightarrow> string \<Rightarrow> string \<Rightarrow> string \<Rightarrow> string list \<Rightarrow> coordinator \<Rightarrow> member \<times> coordinator" where
  "join_swarm wall mono_s sid agent_id node_id role capabilities c =
     (let (sw0, c0) = (case get_swarm sid c of None \<Rightarrow> create_swarm wall sid LEADER_WORKER c | Some sw \<Rightarrow> (sw, c));
          m = \<lparr>mb_agent_id = agent_id, mb_node_id = node_id, mb_role = role, mb_health = ''healthy'',
               mb_last_heartbeat = wall, mb_capabilities = capabilities\<rparr>;
          sw = sw0\<lparr>sw_members := dset agent_id m (sw_members sw0), sw_updated_at := wall\<rparr>;
          c1 = sc_publish (AgentJoinedSwarm sid agent_id node_id role capabilities)
                 (persist_swarm sw (c0\<lparr>sc_last_beat := dset agent_id mono_s (sc_last_beat c0)\<rparr>))
      in if sw_topology sw = LEADER_WORKER \<and> sw_leader_id sw = None then (m, snd (run_election wall sid c1)) else (m, c1))"

definition leave_swarm :: "datetime \<Rightarrow> string \<Rightarrow> string \<Rightarrow> string \<Rightarrow> coordinator \<Rightarrow> coordinator" where
  "leave_swarm wall sid agent_id reason c =
     (case get_swarm sid c of
        None \<Rightarrow> c
      | Some sw0 \<Rightarrow>
          if dget (sw_members sw0) agent_id = None then c
          else
            (let sw = sw0\<lparr>sw_members := ddel agent_id (sw_members sw0), sw_updated_at := wall\<rparr>;
                 c1 = sc_publish (AgentLeftSwarm sid agent_id reason) (write_swarm sw c)
             in if sw_leader_id sw0 = Some agent_id
                then snd (run_election wall sid (write_swarm (sw\<lparr>sw_leader_id := None\<rparr>) c1))
                else persist_swarm sw c1))"

definition get_leader :: "string \<Rightarrow> coordinator \<Rightarrow> string option" where
  "get_leader sid c = (case get_swarm sid c of None \<Rightarrow> None | Some sw \<Rightarrow> sw_leader_id sw)"

section \<open>Heartbeats and partitions\<close>

definition sc_track_node :: "rat \<Rightarrow> string \<Rightarrow> string list \<Rightarrow> coordinator \<Rightarrow> coordinator" where
  "sc_track_node mono_s node_id capabilities c =
     c\<lparr>sc_nodes := dset node_id \<lparr>nr_capabilities = capabilities, nr_load_score = 0, nr_last_seen = mono_s, nr_agent_ids = []\<rparr> (sc_nodes c)\<rparr>"

definition beat_swarm :: "datetime \<Rightarrow> string \<Rightarrow> string \<Rightarrow> string \<Rightarrow> coordinator \<Rightarrow> coordinator" where
  "beat_swarm wall node_id agent_id sid c =
     (case get_swarm sid c of
        None \<Rightarrow> c
      | Some sw \<Rightarrow>
          (case dget (sw_members sw) agent_id of
             None \<Rightarrow> c
           | Some m \<Rightarrow>
               if mb_node_id m = node_id
               then persist_swarm (sw\<lparr>sw_members := dset agent_id (m\<lparr>mb_last_heartbeat := wall, mb_health := ''healthy''\<rparr>) (sw_members sw),
                                       sw_updated_at := wall\<rparr>) c
               else c))"

definition handle_heartbeat :: "datetime \<Rightarrow> rat \<Rightarrow> string \<Rightarrow> string \<Rightarrow> rat \<Rightarrow> coordinator \<Rightarrow> coordinator" where
  "handle_heartbeat wall mono_s node_id agent_id load_score c =
     (let c1 = fold (beat_swarm wall node_id agent_id) (dkeys (sst_mem (sc_store c))) c;
          nodes = (case dget (sc_nodes c1) node_id of
                     None \<Rightarrow> sc_nodes c1
                   | Some n \<Rightarrow>
                       dset node_id (n\<lparr>nr_last_seen := mono_s, nr_load_score := load_score,
                                       nr_agent_ids := (if agent_id \<in> set (nr_agent_ids n) then nr_agent_ids n else nr_agent_ids n @ [agent_id])\<rparr>) (sc_nodes c1))
      in sc_publish (HeartbeatReceived node_id agent_id mono_s load_score)
           (c1\<lparr>sc_nodes := nodes, sc_load := dset agent_id load_score (sc_load c1), sc_last_beat := dset agent_id mono_s (sc_last_beat c1)\<rparr>))"

definition ZeroDivisionError :: "string \<Rightarrow> exn" where
  "ZeroDivisionError m = std_exn [''ZeroDivisionError'', ''ArithmeticError''] m"

definition set_health :: "string \<Rightarrow> string \<Rightarrow> swarm \<Rightarrow> swarm" where
  "set_health agent_id h sw =
     (case dget (sw_members sw) agent_id of
        None \<Rightarrow> sw
      | Some m \<Rightarrow> sw\<lparr>sw_members := dset agent_id (m\<lparr>mb_health := h\<rparr>) (sw_members sw)\<rparr>)"

text \<open>One turn of the inner loop; the result says whether the agent was declared partitioned.\<close>

definition check_member :: "datetime \<Rightarrow> rat \<Rightarrow> string \<Rightarrow> string \<Rightarrow> coordinator \<Rightarrow> (bool, coordinator) res" where
  "check_member wall mono_s sid agent_id c =
     (case get_swarm sid c of
        None \<Rightarrow> (Inr False, c)
      | Some sw0 \<Rightarrow>
          (case dget (sw_members sw0) agent_id of
             None \<Rightarrow> (Inr False, c)
           | Some m \<Rightarrow>
               (let age = mono_s * 1000 - dget_or (sc_last_beat c) agent_id 0 * 1000
                in if age \<ge> of_int (sc_failure_ms c) \<and> mb_health m \<noteq> ''unhealthy'' then
                     (let sw = set_health agent_id ''unhealthy'' sw0;
                          affected = map fst (filter (\<lambda>(a, mm). mb_node_id mm = mb_node_id m) (sw_members sw));
                          c1 = sc_publish (NodePartitioned (mb_node_id m) ''failure_timeout'' affected) (write_swarm sw c)
                      in if sw_leader_id sw = Some agent_id
                         then (Inr True, snd (run_election wall sid (write_swarm (sw\<lparr>sw_leader_id := None\<rparr>) c1)))
                         else (Inr True, persist_swarm sw c1))
                   else if age \<ge> of_int (sc_suspicion_ms c) \<and> mb_health m = ''healthy'' then
                     (let sw = set_health agent_id ''suspected'' sw0; c1 = write_swarm sw c
                      in if sc_suspicion_ms c = 0 then (Inl (ZeroDivisionError ''float floor division by zero''), c1)
                         else (Inr False, persist_swarm sw
                                 (sc_publish (HeartbeatMissed (mb_node_id m) agent_id \<lfloor>age / of_int (sc_suspicion_ms c)\<rfloor> ''suspected'') c1)))
                   else (Inr False, c))))"

fun check_members :: "datetime \<Rightarrow> rat \<Rightarrow> string \<Rightarrow> string list \<Rightarrow> coordinator \<Rightarrow> (string list, coordinator) res" where
  "check_members wall mono_s sid [] c = (Inr [], c)"
| "check_members wall mono_s sid (a # as) c =
     (case check_member wall mono_s sid a c of
        (Inl x, c1) \<Rightarrow> (Inl x, c1)
      | (Inr p, c1) \<Rightarrow>
          (case check_members wall mono_s sid as c1 of
             (Inl x, c2) \<Rightarrow> (Inl x, c2)
           | (Inr ps, c2) \<Rightarrow> (Inr (if p then a # ps else ps), c2)))"

fun check_swarms :: "datetime \<Rightarrow> rat \<Rightarrow> string list \<Rightarrow> coordinator \<Rightarrow> (string list, coordinator) res" where
  "check_swarms wall mono_s [] c = (Inr [], c)"
| "check_swarms wall mono_s (sid # sids) c =
     (case check_members wall mono_s sid (case get_swarm sid c of None \<Rightarrow> [] | Some sw \<Rightarrow> dkeys (sw_members sw)) c of
        (Inl x, c1) \<Rightarrow> (Inl x, c1)
      | (Inr ps, c1) \<Rightarrow>
          (case check_swarms wall mono_s sids c1 of
             (Inl x, c2) \<Rightarrow> (Inl x, c2)
           | (Inr qs, c2) \<Rightarrow> (Inr (ps @ qs), c2)))"

definition check_partitions :: "datetime \<Rightarrow> rat \<Rightarrow> coordinator \<Rightarrow> (string list, coordinator) res" where
  "check_partitions wall mono_s c = check_swarms wall mono_s (dkeys (sst_mem (sc_store c))) c"

section \<open>Load and delegation\<close>

definition usable :: "member \<Rightarrow> bool" where
  "usable m \<longleftrightarrow> mb_health m = ''healthy'' \<or> mb_health m = ''suspected''"

definition load_of :: "coordinator \<Rightarrow> member \<Rightarrow> rat" where
  "load_of c m = dget_or (sc_load c) (mb_agent_id m) 0"

text \<open>\<open>max\<close> and \<open>min\<close> with a key return the first element that attains it.\<close>

fun first_max :: "('a \<Rightarrow> rat) \<Rightarrow> 'a \<Rightarrow> 'a list \<Rightarrow> 'a" where
  "first_max f x [] = x"
| "first_max f x (y # ys) = first_max f (if f y > f x then y else x) ys"

definition first_min :: "('a \<Rightarrow> rat) \<Rightarrow> 'a \<Rightarrow> 'a list \<Rightarrow> 'a" where
  "first_min f = first_max (\<lambda>x. - f x)"

definition mean :: "rat list \<Rightarrow> rat" where
  "mean xs = sum_list xs / of_nat (length xs)"

definition variance :: "rat list \<Rightarrow> rat" where
  "variance xs = sum_list (map (\<lambda>x. (x - mean xs) ^ 2) xs) / of_nat (length xs)"

record rebalance =
  rb_trigger_id :: string
  rb_plan_id :: string
  rb_from_agent :: string
  rb_to_agent :: string

definition rebalance_load :: "string \<Rightarrow> string \<Rightarrow> coordinator \<Rightarrow> exn + rebalance option" where
  "rebalance_load tid sid c =
     (case get_swarm sid c of
        None \<Rightarrow> Inl (KeyError (''swarm '' @ quoted sid @ '' not found''))
      | Some sw \<Rightarrow>
          Inr (case filter usable (dvals (sw_members sw)) of
                 m # ms \<Rightarrow>
                   if ms = [] \<or> variance (map (load_of c) (m # ms)) \<le> 1/2 then None
                   else
                     (let hi = first_max (load_of c) m ms; lo = first_min (load_of c) m ms
                      in if mb_agent_id hi = mb_agent_id lo then None
                         else Some \<lparr>rb_trigger_id = tid, rb_plan_id = sid, rb_from_agent = mb_agent_id hi, rb_to_agent = mb_agent_id lo\<rparr>)
               | [] \<Rightarrow> None))"

definition eligible :: "string \<Rightarrow> string option \<Rightarrow> swarm \<Rightarrow> member list" where
  "eligible from_agent cap sw =
     filter (\<lambda>m. mb_agent_id m \<noteq> from_agent \<and> usable m \<and> (case cap of None \<Rightarrow> True | Some k \<Rightarrow> k \<in> set (mb_capabilities m))) (dvals (sw_members sw))"

definition delegate_key :: "coordinator \<Rightarrow> string \<Rightarrow> member \<Rightarrow> rat \<times> bool \<times> string" where
  "delegate_key c sid m = (load_of c m, dget (sc_rr c) sid = Some (mb_agent_id m), mb_agent_id m)"

definition delegate_task :: "string \<Rightarrow> string \<Rightarrow> swarm_task \<Rightarrow> string \<Rightarrow> coordinator \<Rightarrow> (delegation \<times> swarm_task, coordinator) res" where
  "delegate_task did sid t from_agent c =
     (case get_swarm sid c of
        None \<Rightarrow> (Inl (KeyError (''swarm '' @ quoted sid @ '' not found'')), c)
      | Some sw \<Rightarrow>
          (case sort_key (delegate_key c sid) (eligible from_agent (tk_capability t) sw) of
             [] \<Rightarrow> (Inl (ValueError (''no eligible member for capability '' @ (case tk_capability t of None \<Rightarrow> ''None'' | Some k \<Rightarrow> quoted k) @ '' in swarm '' @ sid)), c)
           | chosen # _ \<Rightarrow>
               (let d = \<lparr>dg_id = did, dg_task_id = tk_id t, dg_from_agent = from_agent, dg_to_agent = mb_agent_id chosen,
                         dg_swarm_id = sid, dg_status = ''pending''\<rparr>;
                    c1 = c\<lparr>sc_rr := dset sid (mb_agent_id chosen) (sc_rr c), sc_delegations := dset did d (sc_delegations c),
                           sc_store := sst_put_delegation d (sc_store c)\<rparr>
                in (Inr (d, t\<lparr>tk_assigned_to := Some (mb_agent_id chosen)\<rparr>),
                    sc_publish_sync (TaskDelegated did (tk_id t) from_agent (mb_agent_id chosen) sid) c1))))"

definition complete_delegation :: "string \<Rightarrow> string \<Rightarrow> coordinator \<Rightarrow> (delegation, coordinator) res" where
  "complete_delegation did result_summary c =
     (case dget (sc_delegations c) did of
        None \<Rightarrow> (Inl (KeyError (''delegation '' @ quoted did @ '' not found'')), c)
      | Some d0 \<Rightarrow>
          (let d = d0\<lparr>dg_status := ''completed''\<rparr>
           in (Inr d, sc_publish_sync (TaskCompleted did (dg_task_id d) result_summary)
                        (c\<lparr>sc_delegations := dset did d (sc_delegations c), sc_store := sst_put_delegation d (sc_store c)\<rparr>))))"

definition get_delegation :: "string \<Rightarrow> coordinator \<Rightarrow> delegation option" where
  "get_delegation did c = dget (sc_delegations c) did"

definition delegations_for :: "string \<Rightarrow> coordinator \<Rightarrow> delegation list" where
  "delegations_for sid c = sst_delegations_for sid (sc_store c)"

text \<open>A coordinator on a store that is opened on a database.\<close>

definition open_coordinator :: "sink \<Rightarrow> int \<Rightarrow> int \<Rightarrow> swarm_db option \<Rightarrow> coordinator" where
  "open_coordinator snk suspicion failure db =
     \<lparr>sc_sink = snk, sc_store = sst_open db, sc_suspicion_ms = suspicion, sc_failure_ms = failure, sc_rr = [], sc_delegations = [],
      sc_nodes = [], sc_load = [], sc_last_beat = []\<rparr>"

section \<open>Teams\<close>

text \<open>
  \<open>TeamManager\<close> keeps a coordinator, an optional store of its own (usually the coordinator's, which is the case modelled)
  and the names of its teams. The executor is a function on the outside state.
\<close>

record 'e team_manager =
  tm_coord :: coordinator
  tm_own_store :: bool
  tm_teams :: "string list"
  tm_env :: 'e

definition create_team :: "datetime \<Rightarrow> rat \<Rightarrow> string \<Rightarrow> topology \<Rightarrow> string list \<Rightarrow> string list \<Rightarrow> 'e team_manager \<Rightarrow> swarm \<times> 'e team_manager" where
  "create_team wall mono_s name topo agent_ids node_ids tm =
     (let (sw0, c0) = create_swarm wall name topo (tm_coord tm);
          nodes = (if node_ids = [] then map (\<lambda>a. ''node-'' @ a) agent_ids else node_ids);
          c1 = fold (\<lambda>(a, n) c. snd (join_swarm wall mono_s name a n ''worker'' [] c)) (zip agent_ids nodes) c0;
          sw = (case get_swarm name c1 of None \<Rightarrow> sw0 | Some sw \<Rightarrow> sw);
          c2 = (if tm_own_store tm then persist_swarm sw c1 else c1)
      in (sw, tm\<lparr>tm_coord := c2, tm_teams := (if name \<in> set (tm_teams tm) then tm_teams tm else tm_teams tm @ [name])\<rparr>))"

definition tm_assign_role :: "string \<Rightarrow> string \<Rightarrow> string \<Rightarrow> 'e team_manager \<Rightarrow> (unit, 'e team_manager) res" where
  "tm_assign_role sid agent_id role tm =
     (let c = tm_coord tm; missing = (Inl (KeyError (''agent '' @ quoted agent_id @ '' not in team '' @ quoted sid)), tm)
      in case get_swarm sid c of
           None \<Rightarrow> missing
         | Some sw0 \<Rightarrow>
             (case dget (sw_members sw0) agent_id of
                None \<Rightarrow> missing
              | Some m \<Rightarrow>
                  if role \<notin> {''leader'', ''worker'', ''observer''} then (Inl (ValueError (''invalid role '' @ quoted role)), tm)
                  else
                    (let sw1 = (if role = ''leader'' then sw0\<lparr>sw_leader_id := Some agent_id\<rparr> else sw0);
                         sw = sw1\<lparr>sw_members := dset agent_id (m\<lparr>mb_role := role\<rparr>) (sw_members sw1)\<rparr>
                     in (Inr (), tm\<lparr>tm_coord := persist_swarm sw c\<rparr>))))"

definition disband_team :: "datetime \<Rightarrow> string \<Rightarrow> 'e team_manager \<Rightarrow> 'e team_manager" where
  "disband_team wall sid tm =
     (case get_swarm sid (tm_coord tm) of
        None \<Rightarrow> tm
      | Some sw \<Rightarrow>
          (let c1 = fold (\<lambda>a. leave_swarm wall sid a ''disband'') (dkeys (sw_members sw)) (tm_coord tm);
               c2 = (if tm_own_store tm then c1\<lparr>sc_store := snd (sst_delete sid (sc_store c1))\<rparr> else c1)
           in tm\<lparr>tm_coord := c2, tm_teams := filter ((\<noteq>) sid) (tm_teams tm)\<rparr>))"

definition task_artifact :: "string \<Rightarrow> (string \<times> pyval) list \<Rightarrow> artifact" where
  "task_artifact uid content =
     \<lparr>af_id = uid, af_type = ''task'', af_content = PDict content, af_format = ''json'', af_source = None, af_provenance = []\<rparr>"

text \<open>One turn of the loop. \<open>ids\<close> are the ids of the delegation and of the artifact.\<close>

definition run_distributed ::
  "(string \<Rightarrow> swarm_task \<Rightarrow> 'e \<Rightarrow> (artifact, 'e) res) option \<Rightarrow> string \<Rightarrow> string \<times> string \<Rightarrow> swarm_task \<Rightarrow> 'e team_manager \<Rightarrow> (artifact, 'e team_manager) res" where
  "run_distributed executor workflow_id ids t0 tm =
     (let t = t0\<lparr>tk_workflow_id := Some workflow_id\<rparr>; from_agent = or_str (tk_assigned_to t) ''team-manager''
      in case tk_swarm_id t of
           None \<Rightarrow> (Inl (AttributeError (quoted ''Task'' @ '' object has no attribute '' @ quoted ''swarm_id'')), tm)
         | Some sid \<Rightarrow>
             (case delegate_task (fst ids) (or_str sid workflow_id) t from_agent (tm_coord tm) of
                (Inl x, c1) \<Rightarrow>
                  if catches ''KeyError'' x \<or> catches ''ValueError'' x
                  then (Inr (task_artifact (snd ids) [(''error'', PStr ''no eligible member''), (''task_id'', PStr (tk_id t))]), tm\<lparr>tm_coord := c1\<rparr>)
                  else (Inl x, tm\<lparr>tm_coord := c1\<rparr>)
              | (Inr (d, t1), c1) \<Rightarrow>
                  (case (case executor of
                           None \<Rightarrow> (Inr (task_artifact (snd ids) [(''delegated_to'', PStr (dg_to_agent d)), (''task_id'', PStr (tk_id t))]), tm_env tm)
                         | Some run \<Rightarrow> run (dg_to_agent d) t1 (tm_env tm)) of
                     (Inl x, e) \<Rightarrow> (Inl x, tm\<lparr>tm_coord := c1, tm_env := e\<rparr>)
                   | (Inr a, e) \<Rightarrow>
                       (case complete_delegation (dg_id d) (''ran on '' @ dg_to_agent d) c1 of
                          (Inl x, c2) \<Rightarrow> (Inl x, tm\<lparr>tm_coord := c2, tm_env := e\<rparr>)
                        | (Inr _, c2) \<Rightarrow> (Inr a, tm\<lparr>tm_coord := c2, tm_env := e\<rparr>)))))"

fun execute_distributed ::
  "(string \<Rightarrow> swarm_task \<Rightarrow> 'e \<Rightarrow> (artifact, 'e) res) option \<Rightarrow> string \<Rightarrow> ((string \<times> string) \<times> swarm_task) list \<Rightarrow> 'e team_manager \<Rightarrow> (artifact list, 'e team_manager) res" where
  "execute_distributed executor workflow_id [] tm = (Inr [], tm)"
| "execute_distributed executor workflow_id ((ids, t) # ts) tm =
     (case run_distributed executor workflow_id ids t tm of
        (Inl x, tm1) \<Rightarrow> (Inl x, tm1)
      | (Inr a, tm1) \<Rightarrow>
          (case execute_distributed executor workflow_id ts tm1 of
             (Inl x, tm2) \<Rightarrow> (Inl x, tm2)
           | (Inr as, tm2) \<Rightarrow> (Inr (a # as), tm2)))"

section \<open>Node health\<close>

record node_info =
  ni_capabilities :: "string list"
  ni_load_score :: rat
  ni_last_seen :: datetime

record node_monitor =
  nm_sink :: sink
  nm_node_id :: string
  nm_nodes :: "(string, node_info) dict"
  nm_last_seen_ts :: "(string, rat) dict"
  nm_beat_count :: nat

definition nm_track_node :: "datetime \<Rightarrow> rat \<Rightarrow> string \<Rightarrow> string list \<Rightarrow> node_monitor \<Rightarrow> node_monitor" where
  "nm_track_node wall mono_s node_id capabilities m =
     m\<lparr>nm_nodes := dset node_id \<lparr>ni_capabilities = capabilities, ni_load_score = 0, ni_last_seen = wall\<rparr> (nm_nodes m),
       nm_last_seen_ts := dset node_id mono_s (nm_last_seen_ts m)\<rparr>"

definition get_node_health :: "rat \<Rightarrow> string \<Rightarrow> node_monitor \<Rightarrow> string" where
  "get_node_health mono_s node_id m =
     (if dget (nm_nodes m) node_id = None then ''unknown''
      else
        (let age = (mono_s - dget_or (nm_last_seen_ts m) node_id 0) * 1000
         in if age > 10000 then ''unhealthy'' else if age > 3000 then ''suspected'' else ''healthy''))"

definition record_heartbeat :: "datetime \<Rightarrow> rat \<Rightarrow> string \<Rightarrow> rat \<Rightarrow> node_monitor \<Rightarrow> node_monitor" where
  "record_heartbeat wall mono_s node_id load_score m =
     (let m1 = (if dget (nm_nodes m) node_id = None then nm_track_node wall mono_s node_id [] m else m)
      in m1\<lparr>nm_nodes := (case dget (nm_nodes m1) node_id of None \<Rightarrow> nm_nodes m1
                          | Some i \<Rightarrow> dset node_id (i\<lparr>ni_last_seen := wall, ni_load_score := load_score\<rparr>) (nm_nodes m1)),
            nm_last_seen_ts := dset node_id mono_s (nm_last_seen_ts m1)\<rparr>)"

definition send_heartbeat :: "datetime \<Rightarrow> rat \<Rightarrow> rat \<Rightarrow> node_monitor \<Rightarrow> node_monitor" where
  "send_heartbeat wall mono_s load_score m =
     (let m1 = record_heartbeat wall mono_s (nm_node_id m) load_score (m\<lparr>nm_beat_count := nm_beat_count m + 1\<rparr>)
      in m1\<lparr>nm_sink := emit (SwarmEv (HeartbeatReceived (nm_node_id m) (nm_node_id m) mono_s load_score)) (nm_sink m1)\<rparr>)"

section \<open>What the operations do to the swarms\<close>

definition member_keys :: "swarm \<Rightarrow> bool" where
  "member_keys sw \<longleftrightarrow> (\<forall>a m. dget (sw_members sw) a = Some m \<longrightarrow> mb_agent_id m = a) \<and> dict_ok (sw_members sw)"

definition leader_live :: "swarm \<Rightarrow> bool" where
  "leader_live sw \<longleftrightarrow>
     (\<forall>a. sw_leader_id sw = Some a \<longrightarrow> (\<exists>m. dget (sw_members sw) a = Some m \<and> mb_health m \<noteq> ''unhealthy''))"

definition coord_inv :: "coordinator \<Rightarrow> bool" where
  "coord_inv c \<longleftrightarrow>
     (\<forall>i sw. get_swarm i c = Some sw \<longrightarrow> sw_id sw = i \<and> member_keys sw \<and> leader_live sw)"

definition elected :: "datetime \<Rightarrow> swarm \<Rightarrow> swarm" where
  "elected wall sw = (if elect sw \<noteq> sw_leader_id sw then sw\<lparr>sw_leader_id := elect sw, sw_updated_at := wall\<rparr> else sw)"

lemma get_swarm_publish [simp]:
  "get_swarm i (sc_publish e c) = get_swarm i c" "get_swarm i (sc_publish_sync e c) = get_swarm i c"
  by (simp_all add: get_swarm_def sc_publish_def sc_publish_sync_def)

lemma get_swarm_put [simp]:
  "get_swarm i (persist_swarm sw c) = (if i = sw_id sw then Some sw else get_swarm i c)"
  "get_swarm i (write_swarm sw c) = (if i = sw_id sw then Some sw else get_swarm i c)"
  by (auto simp: get_swarm_def persist_swarm_def write_swarm_def sst_put_def sst_get_def dget_dset)

lemma get_swarm_fields [simp]:
  "get_swarm i (c\<lparr>sc_last_beat := x\<rparr>) = get_swarm i c"
  "get_swarm i (c\<lparr>sc_nodes := n, sc_load := l, sc_last_beat := x\<rparr>) = get_swarm i c"
  by (simp_all add: get_swarm_def)

lemma elected_fields [simp]:
  "sw_id (elected wall sw) = sw_id sw" "sw_members (elected wall sw) = sw_members sw" "sw_leader_id (elected wall sw) = elect sw"
  "sw_topology (elected wall sw) = sw_topology sw"
  by (auto simp: elected_def)

lemma run_election_get:
  assumes "get_swarm sid c = Some sw" and "sw_id sw = sid"
  shows "get_swarm i (snd (run_election wall sid c)) = (if i = sid then Some (elected wall sw) else get_swarm i c)"
  using assms by (simp add: run_election_def elected_def Let_def)

lemma last_sort_key:
  assumes "xs \<noteq> []"
  shows "last (sort_key f xs) \<in> set xs \<and> (\<forall>x \<in> set xs. f x \<le> f (last (sort_key f xs)))"
proof -
  have len: "length (sort_key f xs) = length xs" by simp
  with assms have "sort_key f xs \<noteq> []" by (metis length_0_conv)
  then obtain zs z where z: "sort_key f xs = zs @ [z]" by (metis rev_exhaust)
  have "set (zs @ [z]) = set xs" by (metis z set_sort)
  moreover have "sorted (map f (zs @ [z]))" by (metis z sorted_sort_key)
  ultimately show ?thesis unfolding z by (auto simp: sorted_append)
qed

lemma hd_sort_key:
  assumes "sort_key f xs = z # zs"
  shows "z \<in> set xs \<and> (\<forall>x \<in> set xs. f z \<le> f x)"
proof -
  have "set (z # zs) = set xs" by (metis assms set_sort)
  moreover have "sorted (map f (z # zs))" by (metis assms sorted_sort_key)
  ultimately show ?thesis by auto
qed

lemma elect_cases:
  assumes "elect sw = Some a"
  obtains m where "m \<in> set (dvals (sw_members sw))" and "mb_agent_id m = a" and "mb_health m = ''healthy''"
    and "\<forall>m' \<in> set (dvals (sw_members sw)). mb_health m' = ''healthy'' \<longrightarrow> mb_agent_id m' \<le> a"
proof -
  define cs where "cs = filter (\<lambda>m. mb_health m = ''healthy'') (dvals (sw_members sw))"
  have "cs \<noteq> []" and a: "mb_agent_id (last (sort_key mb_agent_id cs)) = a"
    using assms unfolding elect_def cs_def [symmetric] Let_def by (simp_all split: if_splits)
  then have top: "last (sort_key mb_agent_id cs) \<in> set cs" "\<forall>m \<in> set cs. mb_agent_id m \<le> a"
    using last_sort_key [of cs mb_agent_id] by simp_all
  have cs: "m \<in> set cs \<longleftrightarrow> m \<in> set (dvals (sw_members sw)) \<and> mb_health m = ''healthy''" for m
    by (simp only: cs_def set_filter mem_Collect_eq)
  show thesis
  proof (rule that)
    show "last (sort_key mb_agent_id cs) \<in> set (dvals (sw_members sw))" using top(1) cs by blast
    show "mb_agent_id (last (sort_key mb_agent_id cs)) = a" by (fact a)
    show "mb_health (last (sort_key mb_agent_id cs)) = ''healthy''" using top(1) cs by blast
    show "\<forall>m' \<in> set (dvals (sw_members sw)). mb_health m' = ''healthy'' \<longrightarrow> mb_agent_id m' \<le> a" using top(2) cs by blast
  qed
qed

lemma leader_live_elected:
  assumes "member_keys sw"
  shows "leader_live (elected wall sw)"
  unfolding leader_live_def
proof (intro allI impI)
  fix a
  assume "sw_leader_id (elected wall sw) = Some a"
  then obtain m where m: "m \<in> set (dvals (sw_members sw))" "mb_agent_id m = a" "mb_health m = ''healthy''"
    by (auto elim: elect_cases)
  then obtain b where "(b, m) \<in> set (sw_members sw)" by auto
  with assms m have "dget (sw_members sw) a = Some m" by (auto simp: member_keys_def dget_iff_in [symmetric])
  with m show "\<exists>m. dget (sw_members (elected wall sw)) a = Some m \<and> mb_health m \<noteq> ''unhealthy''" by simp
qed

lemma member_keys_elected [simp]: "member_keys (elected wall sw) \<longleftrightarrow> member_keys sw"
  by (simp add: member_keys_def)

text \<open>An operation that changes one swarm, to one that is well formed again, keeps the invariant.\<close>

lemma coord_inv_update:
  assumes "coord_inv c" and "\<And>i. get_swarm i c' = (if i = sid then Some sw else get_swarm i c)"
    and "sw_id sw = sid" and "member_keys sw" and "leader_live sw"
  shows "coord_inv c'"
  using assms by (simp add: coord_inv_def)

lemma coord_invD:
  assumes "coord_inv c" and "get_swarm i c = Some sw"
  shows "sw_id sw = i" and "member_keys sw" and "leader_live sw"
  using assms by (auto simp: coord_inv_def)

lemma member_keys_dset: "member_keys sw \<Longrightarrow> mb_agent_id m = a \<Longrightarrow> member_keys (sw\<lparr>sw_members := dset a m (sw_members sw)\<rparr>)"
  by (auto simp: member_keys_def dget_dset)

lemma member_keys_ddel: "member_keys sw \<Longrightarrow> member_keys (sw\<lparr>sw_members := ddel a (sw_members sw)\<rparr>)"
  by (auto simp: member_keys_def dget_ddel)

lemma member_keys_cong: "sw_members sw = sw_members sw' \<Longrightarrow> member_keys sw = member_keys sw'"
  by (simp add: member_keys_def)

lemma leader_live_cong: "sw_members sw = sw_members sw' \<Longrightarrow> sw_leader_id sw = sw_leader_id sw' \<Longrightarrow> leader_live sw = leader_live sw'"
  by (simp add: leader_live_def)

section \<open>Runs of the coordinator\<close>

text \<open>
  What the coordinator and the team manager on top of it do to the swarms. A role can be assigned to
  any member; the role of the leader is only assigned to a member that is not unhealthy here, which
  the code does not ask for (\<open>dead_leader_assigned\<close>).
\<close>

inductive coord_step :: "coordinator \<Rightarrow> coordinator \<Rightarrow> bool" where
  create: "coord_step c (snd (create_swarm wall sid topo c))"
| joins: "coord_step c (snd (join_swarm wall mono_s sid agent_id node_id role capabilities c))"
| leaves: "coord_step c (leave_swarm wall sid agent_id reason c)"
| beat: "coord_step c (handle_heartbeat wall mono_s node_id agent_id load_score c)"
| check: "coord_step c (snd (check_partitions wall mono_s c))"
| track: "coord_step c (sc_track_node mono_s node_id capabilities c)"
| delegate: "coord_step c (snd (delegate_task did sid t from_agent c))"
| finish: "coord_step c (snd (complete_delegation did summary c))"
| team: "coord_step (tm_coord tm) (tm_coord (snd (create_team wall mono_s name topo agent_ids node_ids (tm :: unit team_manager))))"
| disband: "coord_step (tm_coord tm) (tm_coord (disband_team wall sid (tm :: unit team_manager)))"
| assign: "role \<noteq> ''leader'' \<or>
      (\<forall>sw m. get_swarm sid (tm_coord tm) = Some sw \<longrightarrow> dget (sw_members sw) agent_id = Some m \<longrightarrow> mb_health m \<noteq> ''unhealthy'') \<Longrightarrow>
    coord_step (tm_coord tm) (tm_coord (snd (tm_assign_role sid agent_id role (tm :: unit team_manager))))"

lemma run_election_inv: "coord_inv c \<Longrightarrow> coord_inv (snd (run_election wall sid c))"
proof (cases "get_swarm sid c")
  case (Some sw)
  assume inv: "coord_inv c"
  note sw = coord_invD [OF inv Some]
  show ?thesis
    by (rule coord_inv_update [OF inv run_election_get [OF Some sw(1)]])
       (use sw in \<open>simp_all add: leader_live_elected\<close>)
qed (simp add: run_election_def)

lemma create_swarm_inv:
  assumes "coord_inv c"
  shows "coord_inv (snd (create_swarm wall sid topo c))"
  by (rule coord_inv_update [OF assms, where sid = sid and sw = "fst (create_swarm wall sid topo c)"])
     (simp_all add: create_swarm_def Let_def member_keys_def leader_live_def)

lemma leader_live_join:
  "leader_live sw \<Longrightarrow> mb_health m \<noteq> ''unhealthy'' \<Longrightarrow> leader_live (sw\<lparr>sw_members := dset a m (sw_members sw)\<rparr>)"
  by (auto simp: leader_live_def dget_dset)

lemma join_swarm_inv:
  assumes inv: "coord_inv c"
  shows "coord_inv (snd (join_swarm wall mono_s sid agent_id node_id role capabilities c))"
proof -
  obtain sw0 c0 where start: "(case get_swarm sid c of None \<Rightarrow> create_swarm wall sid LEADER_WORKER c | Some sw \<Rightarrow> (sw, c)) = (sw0, c0)"
    by fastforce
  have c0: "coord_inv c0" "get_swarm sid c0 = Some sw0"
    using start create_swarm_inv [OF inv, of wall sid LEADER_WORKER] inv
    by (auto simp: create_swarm_def Let_def split: option.splits)
  note sw0 = coord_invD [OF c0]
  let ?m = "\<lparr>mb_agent_id = agent_id, mb_node_id = node_id, mb_role = role, mb_health = ''healthy'',
               mb_last_heartbeat = wall, mb_capabilities = capabilities\<rparr>"
  let ?sw = "sw0\<lparr>sw_members := dset agent_id ?m (sw_members sw0), sw_updated_at := wall\<rparr>"
  let ?c1 = "sc_publish (AgentJoinedSwarm sid agent_id node_id role capabilities)
               (persist_swarm ?sw (c0\<lparr>sc_last_beat := dset agent_id mono_s (sc_last_beat c0)\<rparr>))"
  have "member_keys ?sw" "leader_live ?sw"
    using member_keys_dset [OF sw0(2), of ?m] leader_live_join [OF sw0(3), of ?m agent_id]
    by (auto simp: member_keys_def leader_live_def)
  then have c1: "coord_inv ?c1"
    by (intro coord_inv_update [OF c0(1), of _ sid ?sw]) (use sw0(1) in simp_all)
  then show ?thesis
    using start run_election_inv [OF c1] by (simp add: join_swarm_def Let_def)
qed

lemma leave_swarm_inv:
  assumes inv: "coord_inv c"
  shows "coord_inv (leave_swarm wall sid agent_id reason c)"
proof (cases "get_swarm sid c")
  case None
  with inv show ?thesis by (simp add: leave_swarm_def)
next
  case (Some sw0)
  note sw0 = coord_invD [OF inv Some]
  let ?sw = "sw0\<lparr>sw_members := ddel agent_id (sw_members sw0), sw_updated_at := wall\<rparr>"
  let ?c1 = "sc_publish (AgentLeftSwarm sid agent_id reason) (write_swarm ?sw c)"
  have keys: "member_keys ?sw" using member_keys_ddel [OF sw0(2), of agent_id] by (simp add: member_keys_def)
  show ?thesis
  proof (cases "sw_leader_id sw0 = Some agent_id")
    case True
    let ?sw' = "?sw\<lparr>sw_leader_id := None\<rparr>"
    have "coord_inv (write_swarm ?sw' ?c1)"
      by (rule coord_inv_update [OF inv, of _ sid ?sw'])
         (use sw0(1) keys in \<open>simp_all add: leader_live_def member_keys_def\<close>)
    from run_election_inv [OF this] show ?thesis using Some True inv by (simp add: leave_swarm_def Let_def)
  next
    case False
    have "leader_live ?sw" using sw0(3) False by (auto simp: leader_live_def)
    then have "coord_inv (persist_swarm ?sw ?c1)"
      by (intro coord_inv_update [OF inv, of _ sid ?sw]) (use sw0(1) keys in simp_all)
    then show ?thesis using Some False inv by (simp add: leave_swarm_def Let_def)
  qed
qed

lemma beat_swarm_inv:
  assumes inv: "coord_inv c"
  shows "coord_inv (beat_swarm wall node_id agent_id sid c)"
proof (cases "get_swarm sid c")
  case (Some sw)
  note sw = coord_invD [OF inv Some]
  show ?thesis
  proof (cases "dget (sw_members sw) agent_id")
    case (Some m)
    have id: "mb_agent_id m = agent_id" using sw(2) Some by (simp add: member_keys_def)
    let ?m = "m\<lparr>mb_last_heartbeat := wall, mb_health := ''healthy''\<rparr>"
    let ?sw = "sw\<lparr>sw_members := dset agent_id ?m (sw_members sw), sw_updated_at := wall\<rparr>"
    have "member_keys ?sw" "leader_live ?sw"
      using member_keys_dset [OF sw(2), of ?m agent_id] leader_live_join [OF sw(3), of ?m agent_id] id
      by (auto simp: member_keys_def leader_live_def)
    then have "coord_inv (persist_swarm ?sw c)"
      by (intro coord_inv_update [OF inv, of _ sid ?sw]) (use sw(1) in simp_all)
    with inv Some \<open>get_swarm sid c = Some sw\<close> show ?thesis by (simp add: beat_swarm_def)
  qed (use inv Some in \<open>simp add: beat_swarm_def\<close>)
qed (use inv in \<open>simp add: beat_swarm_def\<close>)

lemma beat_swarms_inv: "coord_inv c \<Longrightarrow> coord_inv (fold (beat_swarm wall node_id agent_id) sids c)"
  by (induction sids arbitrary: c) (auto intro: beat_swarm_inv)

lemma coord_inv_cong: "(\<And>i. get_swarm i c' = get_swarm i c) \<Longrightarrow> coord_inv c \<Longrightarrow> coord_inv c'"
  by (simp add: coord_inv_def)

lemma get_swarm_heartbeat:
  "get_swarm i (handle_heartbeat wall mono_s node_id agent_id load_score c) =
     get_swarm i (fold (beat_swarm wall node_id agent_id) (dkeys (sst_mem (sc_store c))) c)"
  by (simp add: handle_heartbeat_def Let_def get_swarm_def sc_publish_def)

lemma handle_heartbeat_inv: "coord_inv c \<Longrightarrow> coord_inv (handle_heartbeat wall mono_s node_id agent_id load_score c)"
  by (rule coord_inv_cong [OF get_swarm_heartbeat beat_swarms_inv])

lemma leader_live_set_health:
  assumes "leader_live sw" and "h \<noteq> ''unhealthy'' \<or> sw_leader_id sw \<noteq> Some a"
  shows "leader_live (set_health a h sw)"
  using assms by (auto simp: leader_live_def set_health_def dget_dset split: option.splits)

lemma member_keys_set_health: "member_keys sw \<Longrightarrow> member_keys (set_health a h sw)"
  by (auto simp: member_keys_def set_health_def dget_dset split: option.splits)

lemma set_health_fields [simp]:
  "sw_id (set_health a h sw) = sw_id sw" "sw_leader_id (set_health a h sw) = sw_leader_id sw"
  "sw_topology (set_health a h sw) = sw_topology sw" "dkeys (sw_members (set_health a h sw)) = dkeys (sw_members sw)"
  by (auto simp: set_health_def update_keys split: option.splits) (metis dget_None_iff option.distinct(1))

text \<open>The effect of one turn of \<open>check_partitions\<close> on the swarms.\<close>

lemma check_member_cases:
  assumes inv: "coord_inv c" and get: "get_swarm sid c = Some sw" and m: "dget (sw_members sw) agent_id = Some m"
  obtains (lost) "sw_leader_id sw = Some agent_id"
      "\<And>i. get_swarm i (snd (check_member wall mono_s sid agent_id c)) =
         (if i = sid then Some (elected wall ((set_health agent_id ''unhealthy'' sw)\<lparr>sw_leader_id := None\<rparr>)) else get_swarm i c)"
  | (down) "sw_leader_id sw \<noteq> Some agent_id"
      "\<And>i. get_swarm i (snd (check_member wall mono_s sid agent_id c)) = (if i = sid then Some (set_health agent_id ''unhealthy'' sw) else get_swarm i c)"
  | (suspect) "\<And>i. get_swarm i (snd (check_member wall mono_s sid agent_id c)) = (if i = sid then Some (set_health agent_id ''suspected'' sw) else get_swarm i c)"
  | (same) "snd (check_member wall mono_s sid agent_id c) = c"
proof -
  let ?age = "mono_s * 1000 - dget_or (sc_last_beat c) agent_id 0 * 1000"
  let ?sw = "set_health agent_id ''unhealthy'' sw"
  note ok = coord_invD [OF inv get]
  consider (fail) "?age \<ge> of_int (sc_failure_ms c) \<and> mb_health m \<noteq> ''unhealthy''"
    | (susp) "\<not> (?age \<ge> of_int (sc_failure_ms c) \<and> mb_health m \<noteq> ''unhealthy'')" "?age \<ge> of_int (sc_suspicion_ms c) \<and> mb_health m = ''healthy''"
    | (none) "\<not> (?age \<ge> of_int (sc_failure_ms c) \<and> mb_health m \<noteq> ''unhealthy'')" "\<not> (?age \<ge> of_int (sc_suspicion_ms c) \<and> mb_health m = ''healthy'')"
    by blast
  then show thesis
  proof cases
    case fail
    show thesis
    proof (cases "sw_leader_id sw = Some agent_id")
      case True
      let ?c1 = "write_swarm (?sw\<lparr>sw_leader_id := None\<rparr>) (sc_publish (NodePartitioned (mb_node_id m) ''failure_timeout''
           (map fst (filter (\<lambda>(a, mm). mb_node_id mm = mb_node_id m) (sw_members ?sw)))) (write_swarm ?sw c))"
      have "snd (check_member wall mono_s sid agent_id c) = snd (run_election wall sid ?c1)"
        using get m fail True unfolding check_member_def by (simp add: Let_def)
      moreover have "get_swarm i (snd (run_election wall sid ?c1)) =
          (if i = sid then Some (elected wall (?sw\<lparr>sw_leader_id := None\<rparr>)) else get_swarm i ?c1)" for i
        by (rule run_election_get) (simp_all add: ok(1))
      ultimately show thesis using lost True ok(1) by simp
    next
      case False
      have "snd (check_member wall mono_s sid agent_id c) = persist_swarm ?sw (sc_publish (NodePartitioned (mb_node_id m) ''failure_timeout''
           (map fst (filter (\<lambda>(a, mm). mb_node_id mm = mb_node_id m) (sw_members ?sw)))) (write_swarm ?sw c))"
        using get m fail False unfolding check_member_def by (simp add: Let_def)
      then show thesis using down False ok(1) by simp
    qed
  next
    case susp
    then have "get_swarm i (snd (check_member wall mono_s sid agent_id c)) = (if i = sid then Some (set_health agent_id ''suspected'' sw) else get_swarm i c)" for i
      using get m ok(1) unfolding check_member_def by (simp add: Let_def)
    then show thesis by (rule suspect)
  next
    case none
    then have "snd (check_member wall mono_s sid agent_id c) = c"
      unfolding check_member_def get option.case m Let_def if_not_P [OF none(1)] if_not_P [OF none(2)] by simp
    then show thesis by (rule same)
  qed
qed

lemma check_member_inv:
  assumes inv: "coord_inv c"
  shows "coord_inv (snd (check_member wall mono_s sid agent_id c))"
proof (cases "get_swarm sid c")
  case (Some sw)
  note get = this and ok = coord_invD [OF inv Some]
  show ?thesis
  proof (cases "dget (sw_members sw) agent_id")
    case (Some m)
    show ?thesis
    proof (cases rule: check_member_cases [OF inv get Some, where wall = wall and mono_s = mono_s, case_names lost down suspect same])
      case lost
      let ?sw = "(set_health agent_id ''unhealthy'' sw)\<lparr>sw_leader_id := None\<rparr>"
      have "member_keys ?sw" using member_keys_set_health [OF ok(2), of agent_id] by (simp add: member_keys_def)
      then show ?thesis by (intro coord_inv_update [OF inv lost(2)]) (simp_all add: ok(1) leader_live_elected)
    next
      case down
      show ?thesis
        by (rule coord_inv_update [OF inv down(2)])
           (use ok down(1) in \<open>simp_all add: member_keys_set_health leader_live_set_health\<close>)
    next
      case suspect
      show ?thesis
        by (rule coord_inv_update [OF inv suspect])
           (use ok in \<open>simp_all add: member_keys_set_health leader_live_set_health\<close>)
    next
      case same
      with inv show ?thesis by simp
    qed
  qed (use inv get in \<open>simp add: check_member_def\<close>)
qed (use inv in \<open>simp add: check_member_def\<close>)

lemma check_members_inv: "coord_inv c \<Longrightarrow> coord_inv (snd (check_members wall mono_s sid as c))"
proof (induction "as" arbitrary: c)
  case (Cons a "as")
  obtain r c1 where c1: "check_member wall mono_s sid a c = (r, c1)" by fastforce
  with check_member_inv [OF Cons.prems, of wall mono_s sid a] have "coord_inv c1" by simp
  from Cons.IH [OF this] c1 \<open>coord_inv c1\<close> show ?case by (auto split: sum.splits prod.splits)
qed simp

lemma check_swarms_inv: "coord_inv c \<Longrightarrow> coord_inv (snd (check_swarms wall mono_s sids c))"
proof (induction sids arbitrary: c)
  case (Cons sid sids)
  let ?as = "case get_swarm sid c of None \<Rightarrow> [] | Some sw \<Rightarrow> dkeys (sw_members sw)"
  obtain r c1 where c1: "check_members wall mono_s sid ?as c = (r, c1)" by fastforce
  with check_members_inv [OF Cons.prems, of wall mono_s sid ?as] have "coord_inv c1" by simp
  from Cons.IH [OF this] c1 \<open>coord_inv c1\<close> show ?case by (auto split: sum.splits prod.splits)
qed simp

lemma get_swarm_delegate: "get_swarm i (snd (delegate_task did sid t from_agent c)) = get_swarm i c"
  by (simp add: delegate_task_def Let_def get_swarm_def sc_publish_sync_def sst_put_delegation_def sst_get_def split: option.splits list.splits)

lemma get_swarm_complete: "get_swarm i (snd (complete_delegation did summary c)) = get_swarm i c"
  by (simp add: complete_delegation_def Let_def get_swarm_def sc_publish_sync_def sst_put_delegation_def sst_get_def split: option.splits)

subsection \<open>Teams\<close>

lemma joins_inv: "coord_inv c \<Longrightarrow> coord_inv (fold (\<lambda>(a, n) c. snd (join_swarm wall mono_s sid a n role caps c)) ans c)"
  by (induction ans arbitrary: c) (auto intro: join_swarm_inv)

lemma leaves_inv: "coord_inv c \<Longrightarrow> coord_inv (fold (\<lambda>a. leave_swarm wall sid a reason) as c)"
  by (induction "as" arbitrary: c) (auto intro: leave_swarm_inv)

lemma create_team_inv:
  assumes "coord_inv (tm_coord tm)"
  shows "coord_inv (tm_coord (snd (create_team wall mono_s name topo agent_ids node_ids tm)))"
proof -
  let ?nodes = "if node_ids = [] then map (\<lambda>a. ''node-'' @ a) agent_ids else node_ids"
  let ?new = "create_swarm wall name topo (tm_coord tm)"
  let ?c1 = "fold (\<lambda>(a, n) c. snd (join_swarm wall mono_s name a n ''worker'' [] c)) (zip agent_ids ?nodes) (snd ?new)"
  let ?sw = "case get_swarm name ?c1 of None \<Rightarrow> fst ?new | Some sw \<Rightarrow> sw"
  have c1: "coord_inv ?c1" by (intro joins_inv create_swarm_inv assms)
  have "sw_id ?sw = name \<and> member_keys ?sw \<and> leader_live ?sw"
  proof (cases "get_swarm name ?c1")
    case None
    then show ?thesis by (simp add: create_swarm_def Let_def member_keys_def leader_live_def)
  next
    case (Some sw)
    then show ?thesis using coord_invD [OF c1 Some] by simp
  qed
  then have "coord_inv (persist_swarm ?sw ?c1)" by (intro coord_inv_update [OF c1, of _ name ?sw]) auto
  then show ?thesis using c1 by (simp add: create_team_def Let_def case_prod_beta)
qed

lemma disband_team_inv:
  assumes "coord_inv (tm_coord tm)"
  shows "coord_inv (tm_coord (disband_team wall sid tm))"
proof (cases "get_swarm sid (tm_coord tm)")
  case (Some sw)
  let ?c1 = "fold (\<lambda>a. leave_swarm wall sid a ''disband'') (dkeys (sw_members sw)) (tm_coord tm)"
  have c1: "coord_inv ?c1" by (rule leaves_inv [OF assms])
  have "get_swarm i (?c1\<lparr>sc_store := snd (sst_delete sid (sc_store ?c1))\<rparr>) = (if i = sid then None else get_swarm i ?c1)" for i
    by (simp add: get_swarm_def sst_get_def sst_delete_def dget_ddel split: option.split)
  with c1 have "coord_inv (?c1\<lparr>sc_store := snd (sst_delete sid (sc_store ?c1))\<rparr>)" by (simp add: coord_inv_def)
  then show ?thesis using c1 Some by (simp add: disband_team_def Let_def)
qed (use assms in \<open>simp add: disband_team_def\<close>)

lemma assign_role_inv:
  assumes inv: "coord_inv (tm_coord tm)"
    and role: "role \<noteq> ''leader'' \<or>
      (\<forall>sw m. get_swarm sid (tm_coord tm) = Some sw \<longrightarrow> dget (sw_members sw) a = Some m \<longrightarrow> mb_health m \<noteq> ''unhealthy'')"
  shows "coord_inv (tm_coord (snd (tm_assign_role sid a role tm)))"
proof (cases "get_swarm sid (tm_coord tm)")
  case (Some sw)
  note get = this and ok = coord_invD [OF inv Some]
  show ?thesis
  proof (cases "dget (sw_members sw) a")
    case (Some m)
    let ?m = "m\<lparr>mb_role := role\<rparr>"
    let ?sw1 = "if role = ''leader'' then sw\<lparr>sw_leader_id := Some a\<rparr> else sw"
    let ?sw = "?sw1\<lparr>sw_members := dset a ?m (sw_members ?sw1)\<rparr>"
    have "mb_agent_id ?m = a" using ok(2) Some by (simp add: member_keys_def)
    then have "member_keys (sw\<lparr>sw_members := dset a ?m (sw_members sw)\<rparr>)" by (rule member_keys_dset [OF ok(2)])
    moreover have "sw_members ?sw = sw_members (sw\<lparr>sw_members := dset a ?m (sw_members sw)\<rparr>)" by simp
    ultimately have keys: "member_keys ?sw" using member_keys_cong by blast
    have live: "leader_live ?sw" using ok(3) Some role get by (auto simp: leader_live_def dget_dset)
    have "coord_inv (persist_swarm ?sw (tm_coord tm))"
      by (rule coord_inv_update [OF inv, of _ sid ?sw]) (use ok(1) keys live in simp_all)
    then show ?thesis using get Some inv by (simp add: tm_assign_role_def Let_def)
  qed (use inv get in \<open>simp add: tm_assign_role_def\<close>)
qed (use inv in \<open>simp add: tm_assign_role_def\<close>)

text \<open>The team manager makes any member the leader, in whatever health it is.\<close>

lemma dead_leader_assigned:
  assumes "get_swarm sid (tm_coord tm) = Some sw" and "dget (sw_members sw) a = Some m" and "sw_id sw = sid"
  shows "let c = tm_coord (snd (tm_assign_role sid a ''leader'' tm))
         in get_leader sid c = Some a \<and>
            (\<exists>sw' m'. get_swarm sid c = Some sw' \<and> dget (sw_members sw') a = Some m' \<and> mb_health m' = mb_health m)"
  using assms by (simp add: tm_assign_role_def Let_def get_leader_def dget_dset)

lemma coord_step_inv:
  assumes "coord_inv c" and "coord_step c c'"
  shows "coord_inv c'"
  using assms(2,1)
proof cases
  case delegate
  with assms(1) show ?thesis by (auto intro: coord_inv_cong [OF get_swarm_delegate])
next
  case finish
  with assms(1) show ?thesis by (auto intro: coord_inv_cong [OF get_swarm_complete])
next
  case track
  with assms(1) show ?thesis by (auto simp: sc_track_node_def get_swarm_def intro: coord_inv_cong)
next
  case (assign role sid tm agent_id)
  with assms(1) show ?thesis by (auto intro: assign_role_inv)
qed (simp_all add: create_swarm_inv join_swarm_inv leave_swarm_inv handle_heartbeat_inv check_swarms_inv check_partitions_def create_team_inv disband_team_inv)

lemma coord_inv_open: "coord_inv (open_coordinator snk s f None)"
  by (simp add: open_coordinator_def sst_open_def coord_inv_def get_swarm_def sst_get_def)

text \<open>A coordinator that starts without a database satisfies the invariant, and every operation keeps it.\<close>

interpretation swarms: guarded_system "\<lambda>c. \<exists>snk s f. c = open_coordinator snk s f None" coord_step coord_inv
  by unfold_locales (auto intro: coord_inv_open coord_step_inv)

text \<open>Heartbeats, partition checks and delegations: the steps between which nobody joins or leaves.\<close>

inductive quiet_step :: "coordinator \<Rightarrow> coordinator \<Rightarrow> bool" where
  quiet_beat: "quiet_step c (handle_heartbeat wall mono_s node_id agent_id load_score c)"
| quiet_check: "quiet_step c (snd (check_partitions wall mono_s c))"
| quiet_delegate: "quiet_step c (snd (delegate_task did sid t from_agent c))"

lemma quiet_coord: "quiet_step c c' \<Longrightarrow> coord_step c c'"
  by (induction rule: quiet_step.induct) (auto intro: coord_step.intros)

definition leaderless :: "string \<Rightarrow> coordinator \<Rightarrow> bool" where
  "leaderless sid c \<longleftrightarrow> coord_inv c \<and> (\<exists>sw. get_swarm sid c = Some sw \<and> sw_leader_id sw = None)"

lemma leaderless_update:
  assumes "leaderless sid c" and "coord_inv c'" and "get_swarm i c = Some sw"
    and "\<And>j. get_swarm j c' = (if j = i then Some sw' else get_swarm j c)" and "sw_leader_id sw = None \<Longrightarrow> sw_leader_id sw' = None"
  shows "leaderless sid c'"
  using assms by (auto simp: leaderless_def)

lemma leaderless_beat: "leaderless sid c \<Longrightarrow> leaderless sid (beat_swarm wall node_id agent_id i c)"
proof (cases "get_swarm i c")
  case (Some sw)
  assume l: "leaderless sid c"
  then have inv: "coord_inv c" by (simp add: leaderless_def)
  show ?thesis
  proof (cases "dget (sw_members sw) agent_id")
    case (Some m)
    show ?thesis
    proof (cases "mb_node_id m = node_id")
      case True
      show ?thesis
        by (rule leaderless_update [OF l beat_swarm_inv [OF inv] \<open>get_swarm i c = Some sw\<close>, where sw' =
              "sw\<lparr>sw_members := dset agent_id (m\<lparr>mb_last_heartbeat := wall, mb_health := ''healthy''\<rparr>) (sw_members sw), sw_updated_at := wall\<rparr>"])
           (use True Some \<open>get_swarm i c = Some sw\<close> coord_invD(1) [OF inv \<open>get_swarm i c = Some sw\<close>] in \<open>simp_all add: beat_swarm_def\<close>)
    qed (use l Some \<open>get_swarm i c = Some sw\<close> in \<open>simp add: beat_swarm_def\<close>)
  qed (use l Some in \<open>simp add: beat_swarm_def\<close>)
qed (simp add: beat_swarm_def)

lemma leaderless_check_member:
  assumes l: "leaderless sid c"
  shows "leaderless sid (snd (check_member wall mono_s i agent_id c))"
proof (cases "get_swarm i c")
  case (Some sw)
  note get = this
  have inv: "coord_inv c" using l by (simp add: leaderless_def)
  show ?thesis
  proof (cases "dget (sw_members sw) agent_id")
    case (Some m)
    show ?thesis
    proof (cases rule: check_member_cases [OF inv get Some, where wall = wall and mono_s = mono_s, case_names lost down suspect same])
      case lost
      show ?thesis by (rule leaderless_update [OF l check_member_inv [OF inv] get lost(2)]) (use lost(1) in simp)
    next
      case down
      show ?thesis by (rule leaderless_update [OF l check_member_inv [OF inv] get down(2)]) simp
    next
      case suspect
      show ?thesis by (rule leaderless_update [OF l check_member_inv [OF inv] get suspect]) simp
    next
      case same
      with l show ?thesis by simp
    qed
  qed (use l get in \<open>simp add: check_member_def\<close>)
qed (use l in \<open>simp add: check_member_def\<close>)

lemma leaderless_check_members: "leaderless sid c \<Longrightarrow> leaderless sid (snd (check_members wall mono_s i as c))"
proof (induction "as" arbitrary: c)
  case (Cons a "as")
  obtain r c1 where c1: "check_member wall mono_s i a c = (r, c1)" by fastforce
  with leaderless_check_member [OF Cons.prems, of wall mono_s i a] have "leaderless sid c1" by simp
  from Cons.IH [OF this] c1 this show ?case by (auto split: sum.splits prod.splits)
qed simp

lemma leaderless_check_swarms: "leaderless sid c \<Longrightarrow> leaderless sid (snd (check_swarms wall mono_s sids c))"
proof (induction sids arbitrary: c)
  case (Cons i sids)
  let ?as = "case get_swarm i c of None \<Rightarrow> [] | Some sw \<Rightarrow> dkeys (sw_members sw)"
  obtain r c1 where c1: "check_members wall mono_s i ?as c = (r, c1)" by fastforce
  with leaderless_check_members [OF Cons.prems, of wall mono_s i ?as] have "leaderless sid c1" by simp
  from Cons.IH [OF this] c1 this show ?case by (auto split: sum.splits prod.splits)
qed simp

lemma leaderless_cong: "(\<And>i. get_swarm i c' = get_swarm i c) \<Longrightarrow> leaderless sid c \<Longrightarrow> leaderless sid c'"
  by (simp add: leaderless_def coord_inv_def)

lemma leaderless_step: "quiet_step c c' \<Longrightarrow> leaderless sid c \<Longrightarrow> leaderless sid c'"
proof (induction rule: quiet_step.induct)
  case (quiet_beat c wall mono_s node_id agent_id load_score)
  have "leaderless sid (fold (beat_swarm wall node_id agent_id) sids d)" if "leaderless sid d" for sids d
    using that by (induction sids arbitrary: d) (auto intro: leaderless_beat)
  with quiet_beat show ?case by (blast intro: leaderless_cong [OF get_swarm_heartbeat])
next
  case (quiet_check c wall mono_s)
  then show ?case by (simp add: check_partitions_def leaderless_check_swarms)
next
  case (quiet_delegate c did i t from_agent)
  then show ?case by (blast intro: leaderless_cong [OF get_swarm_delegate])
qed

interpretation quiet: guarded_system "leaderless sid" quiet_step "leaderless sid" for sid
  by unfold_locales (auto intro: leaderless_step)

section \<open>Delegation\<close>

text \<open>A client that hands over a list of tasks; requests that fail are dropped.\<close>

fun delegate_all :: "string \<Rightarrow> (string \<times> swarm_task \<times> string) list \<Rightarrow> coordinator \<Rightarrow> delegation list" where
  "delegate_all sid [] c = []"
| "delegate_all sid ((did, t, from_agent) # rs) c =
     (case delegate_task did sid t from_agent c of
        (Inl x, c1) \<Rightarrow> delegate_all sid rs c1
      | (Inr (d, t'), c1) \<Rightarrow> d # delegate_all sid rs c1)"

lemma delegate_task_load: "sc_load (snd (delegate_task did sid t from_agent c)) = sc_load c"
  by (simp add: delegate_task_def Let_def sc_publish_sync_def split: option.splits list.splits)

lemma delegate_task_least:
  assumes "get_swarm sid c = Some sw" and "delegate_task did sid t from_agent c = (Inr (d, t'), c')"
  obtains m where "m \<in> set (eligible from_agent (tk_capability t) sw)"
    and "\<forall>m' \<in> set (eligible from_agent (tk_capability t) sw). delegate_key c sid m \<le> delegate_key c sid m'"
    and "d = \<lparr>dg_id = did, dg_task_id = tk_id t, dg_from_agent = from_agent, dg_to_agent = mb_agent_id m, dg_swarm_id = sid, dg_status = ''pending''\<rparr>"
    and "t' = t\<lparr>tk_assigned_to := Some (mb_agent_id m)\<rparr>" and "dget (sc_delegations c') did = Some d"
    and "dget (sst_delegations (sc_store c')) did = Some d" and "dget (sc_rr c') sid = Some (mb_agent_id m)"
proof (cases "sort_key (delegate_key c sid) (eligible from_agent (tk_capability t) sw)")
  case Nil
  with assms show thesis by (simp add: delegate_task_def)
next
  case (Cons m ms)
  show thesis
    by (rule that [of m])
       (use hd_sort_key [OF Cons] assms Cons in \<open>auto simp: delegate_task_def Let_def sc_publish_sync_def sst_put_delegation_def\<close>)
qed

lemma key_le_other:
  assumes "delegate_key c sid x \<le> delegate_key c sid a" and "load_of c a \<le> load_of c x" and "mb_agent_id a < mb_agent_id x"
  shows "dget (sc_rr c) sid = Some (mb_agent_id a)"
  using assms by (auto simp: delegate_key_def less_eq_prod_def less_prod_def)

lemma starve:
  assumes "get_swarm sid c = Some sw" and "mb_agent_id a < mb_agent_id x" and "mb_agent_id b < mb_agent_id x" and "mb_agent_id a \<noteq> mb_agent_id b"
    and "load_of c a \<le> load_of c x" and "load_of c b \<le> load_of c x"
    and "\<forall>(did, t, from_agent) \<in> set reqs. {a, b} \<subseteq> set (eligible from_agent (tk_capability t) sw)"
  shows "\<forall>d \<in> set (delegate_all sid reqs c). dg_to_agent d \<noteq> mb_agent_id x"
  using assms(1,5,6,7)
proof (induction reqs arbitrary: c)
  case (Cons r rs)
  obtain did t from_agent where r: "r = (did, t, from_agent)" by (metis prod_cases3)
  obtain res c1 where del: "delegate_task did sid t from_agent c = (res, c1)" by fastforce
  have keep: "get_swarm sid c1 = Some sw" "sc_load c1 = sc_load c"
    using get_swarm_delegate [of sid did sid t from_agent c] delegate_task_load [of did sid t from_agent c] del Cons.prems(1) by simp_all
  then have load: "load_of c1 = load_of c" by (simp add: load_of_def fun_eq_iff)
  have rest: "\<forall>d \<in> set (delegate_all sid rs c1). dg_to_agent d \<noteq> mb_agent_id x"
    by (rule Cons.IH [OF keep(1)]) (use Cons.prems load in auto)
  show ?case
  proof (cases res)
    case (Inl e)
    with r del rest show ?thesis by simp
  next
    case (Inr dt)
    then obtain d t' where dt: "delegate_task did sid t from_agent c = (Inr (d, t'), c1)" using del by (cases dt) auto
    obtain m where m: "m \<in> set (eligible from_agent (tk_capability t) sw)"
        "\<forall>m' \<in> set (eligible from_agent (tk_capability t) sw). delegate_key c sid m \<le> delegate_key c sid m'" "dg_to_agent d = mb_agent_id m"
      by (rule delegate_task_least [OF Cons.prems(1) dt]) auto
    have "mb_agent_id m \<noteq> mb_agent_id x"
    proof
      assume "mb_agent_id m = mb_agent_id x"
      then have "delegate_key c sid m = delegate_key c sid x" by (simp add: delegate_key_def load_of_def)
      with m Cons.prems(4) r have "delegate_key c sid x \<le> delegate_key c sid a" "delegate_key c sid x \<le> delegate_key c sid b" by auto
      then have "dget (sc_rr c) sid = Some (mb_agent_id a)" "dget (sc_rr c) sid = Some (mb_agent_id b)"
        using key_le_other Cons.prems(2,3) assms(2,3) by blast+
      with assms(4) show False by simp
    qed
    with m(3) r dt rest show ?thesis by simp
  qed
qed simp

subsection \<open>Load\<close>

lemma first_max_spec:
  "first_max f x ys \<in> set (x # ys) \<and> (\<forall>y \<in> set (x # ys). f y \<le> f (first_max f x ys))"
proof (induction ys arbitrary: x)
  case (Cons y ys)
  from Cons.IH [of "if f y > f x then y else x"] show ?case by (auto split: if_splits)
qed simp

lemma first_min_spec:
  "first_min f x ys \<in> set (x # ys) \<and> (\<forall>y \<in> set (x # ys). f (first_min f x ys) \<le> f y)"
  using first_max_spec [of "\<lambda>x. - f x" x ys] by (simp add: first_min_def)

lemma variance_const:
  assumes "\<forall>x \<in> set xs. x = k"
  shows "variance xs = 0"
proof (cases "xs = []")
  case False
  have xs: "xs = replicate (length xs) k" using assms by (simp add: replicate_length_same)
  have "sum_list xs = of_nat (length xs) * k" by (subst xs) (simp add: sum_list_replicate)
  with False have "mean xs = k" by (simp add: mean_def)
  with assms show ?thesis by (simp add: variance_def map_idI sum_list_0 cong: map_cong)
qed (simp add: variance_def)

section \<open>A small swarm for the witnesses\<close>

definition demo_member :: "string \<Rightarrow> member" where
  "demo_member a = \<lparr>mb_agent_id = a, mb_node_id = ''n'', mb_role = ''worker'', mb_health = ''healthy'', mb_last_heartbeat = 0, mb_capabilities = [''k'']\<rparr>"

definition demo_swarm :: swarm where
  "demo_swarm = \<lparr>sw_id = ''S'', sw_topology = LEADER_WORKER, sw_members = map (\<lambda>a. (a, demo_member a)) [''a'', ''b'', ''c''], sw_leader_id = None, sw_updated_at = 0\<rparr>"

definition demo_coordinator :: coordinator where
  "demo_coordinator = (open_coordinator wired 3000 10000 None)\<lparr>sc_store := \<lparr>sst_mem = [(''S'', demo_swarm)], sst_delegations = [], sst_db = None\<rparr>\<rparr>"

definition demo_task :: swarm_task where
  "demo_task = \<lparr>tk_id = ''t'', tk_name = ''work'', tk_capability = Some ''k'', tk_assigned_to = None, tk_workflow_id = None, tk_swarm_id = None\<rparr>"

lemmas demo_swarm_simps = demo_member_def demo_swarm_def demo_coordinator_def demo_task_def open_coordinator_def

lemma demo_get_swarm: "get_swarm ''S'' demo_coordinator = Some demo_swarm"
  by (simp add: get_swarm_def sst_get_def demo_coordinator_def)

lemma demo_eligible: "eligible ''z'' (Some ''k'') demo_swarm = map demo_member [''a'', ''b'', ''c'']"
  by (simp add: eligible_def usable_def demo_swarm_simps)

section \<open>Properties\<close>

text \<open>
  C12: in every state the coordinator reaches from an empty start by operations that run one after the
  other (creating swarms and teams, disbanding them, members joining and leaving, heartbeats, partition
  checks, delegations, and assigning roles), the leader of a swarm is one of its members and is not
  unhealthy. The role of the leader must not be assigned to an unhealthy member: the team manager does
  not prevent that, and such a leader is kept (\<open>dead_leader_assigned\<close>).
\<close>

theorem leader_is_live:
  assumes "coord_step\<^sup>*\<^sup>* (open_coordinator snk s f None) c" and "get_leader sid c = Some a"
  shows "\<exists>sw m. get_swarm sid c = Some sw \<and> dget (sw_members sw) a = Some m \<and> mb_health m \<noteq> ''unhealthy''"
proof -
  have "coord_inv c" using swarms.reachable_inv [OF _ assms(1)] by blast
  moreover obtain sw where sw: "get_swarm sid c = Some sw" "sw_leader_id sw = Some a"
    using assms(2) by (auto simp: get_leader_def split: option.splits)
  ultimately have "leader_live sw" using coord_invD(3) by blast
  with sw show ?thesis by (auto simp: leader_live_def)
qed

theorem leader_is_live_witness:
  "get_leader ''S'' (snd (join_swarm 0 0 ''S'' ''a'' ''n'' ''worker'' [] (open_coordinator wired 3000 10000 None))) = Some ''a'' \<and>
   (\<exists>sw m. get_swarm ''S'' (snd (join_swarm 0 0 ''S'' ''a'' ''n'' ''worker'' [] (open_coordinator wired 3000 10000 None))) = Some sw \<and>
      dget (sw_members sw) ''a'' = Some m \<and> mb_health m \<noteq> ''unhealthy'')"
proof -
  let ?c = "snd (join_swarm 0 0 ''S'' ''a'' ''n'' ''worker'' [] (open_coordinator wired 3000 10000 None))"
  have "coord_step\<^sup>*\<^sup>* (open_coordinator wired 3000 10000 None) ?c" by (blast intro: coord_step.joins)
  moreover have none: "get_swarm ''S'' (open_coordinator wired 3000 10000 None) = None"
    by (simp add: open_coordinator_def sst_open_def get_swarm_def sst_get_def)
  have "get_leader ''S'' ?c = Some ''a''"
    by (simp add: join_swarm_def none get_leader_def run_election_def elect_def create_swarm_def Let_def)
  ultimately show ?thesis using leader_is_live by blast
qed

text \<open>
  A swarm that has lost its leader does not get one back by itself. As long as nobody joins or leaves, whatever
  heartbeats arrive and however often the partitions are checked, it stays without a leader, even when members are healthy again.
\<close>

theorem leaderless_stays:
  assumes "coord_inv c" and "get_swarm sid c = Some sw" and "sw_leader_id sw = None" and "quiet_step\<^sup>*\<^sup>* c c'"
  shows "get_leader sid c' = None"
proof -
  have "leaderless sid c" using assms(1-3) by (simp add: leaderless_def)
  from quiet.reachable_inv [OF this assms(4)] show ?thesis by (auto simp: leaderless_def get_leader_def)
qed

theorem leaderless_stays_witness:
  "get_leader ''S'' (handle_heartbeat 0 1 ''n'' ''a'' 0 demo_coordinator) = None \<and> mb_health (demo_member ''a'') = ''healthy''"
proof -
  have "coord_inv demo_coordinator"
    by (auto simp: coord_inv_def get_swarm_def sst_get_def demo_swarm_simps member_keys_def leader_live_def dict_ok_def split: if_splits)
  moreover have "sw_leader_id demo_swarm = None" by (simp add: demo_swarm_def)
  ultimately show ?thesis
    using leaderless_stays [OF _ demo_get_swarm _ r_into_rtranclp [of quiet_step], OF _ _ quiet_step.quiet_beat]
    by (simp add: demo_member_def)
qed

text \<open>
  Choosing a member for a task. An unknown swarm is a \<open>KeyError\<close>; when nobody is eligible (another agent, not unhealthy, with the
  capability) it is a \<open>ValueError\<close>, and nothing changes. Otherwise the task goes to the eligible member with the least load,
  among those to one that was not chosen last, among those to the least id; the delegation is recorded as pending.
\<close>

theorem delegation_choice:
  "case get_swarm sid c of
     None \<Rightarrow> delegate_task did sid t from_agent c = (Inl (KeyError (''swarm '' @ quoted sid @ '' not found'')), c)
   | Some sw \<Rightarrow>
       if eligible from_agent (tk_capability t) sw = [] then \<exists>msg. delegate_task did sid t from_agent c = (Inl (ValueError msg), c)
       else \<exists>m d c'. delegate_task did sid t from_agent c = (Inr (d, t\<lparr>tk_assigned_to := Some (mb_agent_id m)\<rparr>), c') \<and>
              m \<in> set (eligible from_agent (tk_capability t) sw) \<and>
              (\<forall>m' \<in> set (eligible from_agent (tk_capability t) sw).
                 load_of c m < load_of c m' \<or> load_of c m = load_of c m' \<and>
                   (dget (sc_rr c) sid \<noteq> Some (mb_agent_id m) \<and> dget (sc_rr c) sid = Some (mb_agent_id m') \<or>
                    (dget (sc_rr c) sid = Some (mb_agent_id m)) = (dget (sc_rr c) sid = Some (mb_agent_id m')) \<and> mb_agent_id m \<le> mb_agent_id m')) \<and>
              d = \<lparr>dg_id = did, dg_task_id = tk_id t, dg_from_agent = from_agent, dg_to_agent = mb_agent_id m, dg_swarm_id = sid, dg_status = ''pending''\<rparr> \<and>
              get_delegation did c' = Some d \<and> d \<in> set (delegations_for sid c') \<and> dget (sc_rr c') sid = Some (mb_agent_id m)"
proof (cases "get_swarm sid c")
  case None
  then show ?thesis by (simp add: delegate_task_def)
next
  case (Some sw)
  let ?es = "eligible from_agent (tk_capability t) sw"
  show ?thesis
  proof (cases "?es = []")
    case True
    with Some show ?thesis by (auto simp: delegate_task_def)
  next
    case False
    then obtain m0 ms where "sort_key (delegate_key c sid) ?es = m0 # ms" by (metis length_0_conv length_sort list.exhaust)
    with Some obtain d t' c' where dt: "delegate_task did sid t from_agent c = (Inr (d, t'), c')"
      by (simp add: delegate_task_def Let_def)
    obtain m where m: "m \<in> set ?es" "\<forall>m' \<in> set ?es. delegate_key c sid m \<le> delegate_key c sid m'"
        "d = \<lparr>dg_id = did, dg_task_id = tk_id t, dg_from_agent = from_agent, dg_to_agent = mb_agent_id m, dg_swarm_id = sid, dg_status = ''pending''\<rparr>"
        "t' = t\<lparr>tk_assigned_to := Some (mb_agent_id m)\<rparr>" "dget (sc_delegations c') did = Some d"
        "dget (sst_delegations (sc_store c')) did = Some d" "dget (sc_rr c') sid = Some (mb_agent_id m)"
      by (rule delegate_task_least [OF Some dt])
    have "(did, d) \<in> set (sst_delegations (sc_store c'))" using m(6) by (rule dget_Some_in)
    then have "d \<in> set (delegations_for sid c')" using m(3) by (force simp: delegations_for_def sst_delegations_for_def)
    moreover have "\<forall>m' \<in> set ?es. load_of c m < load_of c m' \<or> load_of c m = load_of c m' \<and>
          (dget (sc_rr c) sid \<noteq> Some (mb_agent_id m) \<and> dget (sc_rr c) sid = Some (mb_agent_id m') \<or>
           (dget (sc_rr c) sid = Some (mb_agent_id m)) = (dget (sc_rr c) sid = Some (mb_agent_id m')) \<and> mb_agent_id m \<le> mb_agent_id m')"
      using m(2) by (auto simp: delegate_key_def less_eq_prod_def less_prod_def)
    ultimately show ?thesis
      using Some False dt m by (simp add: get_delegation_def) blast
  qed
qed

theorem delegation_choice_witness:
  "\<exists>d t' c'. delegate_task ''d1'' ''S'' demo_task ''z'' demo_coordinator = (Inr (d, t'), c') \<and> d \<in> set (delegations_for ''S'' c')"
  using delegation_choice [where sid = "''S''" and c = demo_coordinator and did = "''d1''" and t = demo_task and from_agent = "''z''"]
  by (simp add: demo_get_swarm demo_task_def demo_eligible) blast

text \<open>
  Ties are not broken in a round: with two members that are eligible, not more loaded and of smaller id, a third
  member gets no task, however many are delegated, because only the last choice is remembered.
\<close>

theorem third_member_starves:
  assumes "get_swarm sid c = Some sw" and "mb_agent_id a < mb_agent_id x" and "mb_agent_id b < mb_agent_id x" and "mb_agent_id a \<noteq> mb_agent_id b"
    and "load_of c a \<le> load_of c x" and "load_of c b \<le> load_of c x"
    and "\<forall>(did, t, from_agent) \<in> set reqs. {a, b} \<subseteq> set (eligible from_agent (tk_capability t) sw)"
  shows "\<forall>d \<in> set (delegate_all sid reqs c). dg_to_agent d \<noteq> mb_agent_id x"
  using assms by (rule starve)

theorem third_member_starves_witness:
  "\<forall>d \<in> set (delegate_all ''S'' (replicate 1000 (''d'', demo_task, ''z'')) demo_coordinator). dg_to_agent d \<noteq> ''c''"
proof -
  have "mb_agent_id (demo_member i) = i" "load_of demo_coordinator (demo_member i) = 0" for i
    by (simp_all add: demo_member_def load_of_def demo_coordinator_def open_coordinator_def dget_or_def)
  then show ?thesis
    using third_member_starves [OF demo_get_swarm, of "demo_member ''a''" "demo_member ''c''" "demo_member ''b''"
        "replicate 1000 (''d'', demo_task, ''z'')"]
    by (simp add: demo_eligible demo_task_def)
qed

text \<open>
  Rebalancing: it proposes a move exactly when there are at least two usable members and the variance of their loads exceeds one half; the
  move goes from a member with the highest load to one with the lowest.
\<close>

theorem rebalance_moves:
  assumes "get_swarm sid c = Some sw" and "filter usable (dvals (sw_members sw)) = ms"
  shows "(case rebalance_load tid sid c of
            Inr (Some r) \<Rightarrow> variance (map (load_of c) ms) > 1/2 \<and>
              (\<exists>hi \<in> set ms. \<exists>lo \<in> set ms. rb_from_agent r = mb_agent_id hi \<and> rb_to_agent r = mb_agent_id lo \<and>
                 (\<forall>m \<in> set ms. load_of c lo \<le> load_of c m \<and> load_of c m \<le> load_of c hi))
          | Inr None \<Rightarrow> length ms < 2 \<or> variance (map (load_of c) ms) \<le> 1/2
          | Inl _ \<Rightarrow> False)"
proof (cases ms)
  case (Cons m ms')
  let ?hi = "first_max (load_of c) m ms'" and ?lo = "first_min (load_of c) m ms'"
  have hi: "?hi \<in> set ms" "\<forall>x \<in> set ms. load_of c x \<le> load_of c ?hi" using first_max_spec [of "load_of c" m ms'] Cons by auto
  have lo: "?lo \<in> set ms" "\<forall>x \<in> set ms. load_of c ?lo \<le> load_of c x" using first_min_spec [of "load_of c" m ms'] Cons by auto
  show ?thesis
  proof (cases "ms' = [] \<or> variance (map (load_of c) ms) \<le> 1/2")
    case True
    with assms(1,2) Cons show ?thesis by (auto simp: rebalance_load_def)
  next
    case False
    have "mb_agent_id ?hi \<noteq> mb_agent_id ?lo"
    proof
      assume "mb_agent_id ?hi = mb_agent_id ?lo"
      then have "load_of c ?hi = load_of c ?lo" by (simp add: load_of_def)
      then have "\<forall>x \<in> set (map (load_of c) ms). x = load_of c ?hi" using hi(2) lo(2) by (auto intro: antisym)
      then have "variance (map (load_of c) ms) = 0" by (rule variance_const)
      with False show False by simp
    qed
    then have r: "rebalance_load tid sid c =
        Inr (Some \<lparr>rb_trigger_id = tid, rb_plan_id = sid, rb_from_agent = mb_agent_id ?hi, rb_to_agent = mb_agent_id ?lo\<rparr>)"
      using assms(1,2) Cons False by (simp add: rebalance_load_def Let_def)
    have "\<exists>hi \<in> set ms. \<exists>lo \<in> set ms. mb_agent_id ?hi = mb_agent_id hi \<and> mb_agent_id ?lo = mb_agent_id lo \<and>
        (\<forall>m \<in> set ms. load_of c lo \<le> load_of c m \<and> load_of c m \<le> load_of c hi)"
      using hi lo by blast
    with r False show ?thesis by simp
  qed
qed (use assms in \<open>simp add: rebalance_load_def\<close>)

end
