(* ===== verification/Codecs.thy ===== *)
theory Codecs
  imports Access
begin

text \<open>
  The codecs of the standard library that the stores and the vault use: UTF-8 on the characters a HOL string has (code points
  below 256) and base64 on the texts the encoder produces.
\<close>

section \<open>UTF-8\<close>

definition utf8_char :: "char \<Rightarrow> bytes" where
  "utf8_char c = (let n = (of_char c :: nat) in if n < 128 then [n] else [192 + n div 64, 128 + n mod 64])"

definition utf8_encode :: "string \<Rightarrow> bytes" where
  "utf8_encode s = concat (map utf8_char s)"

definition UnicodeDecodeError :: exn where
  "UnicodeDecodeError = std_exn [''UnicodeDecodeError'', ''UnicodeError'', ''ValueError''] ''invalid data''"

fun utf8_decode :: "bytes \<Rightarrow> exn + string" where
  "utf8_decode [] = Inr []"
| "utf8_decode (b # bs) =
     (if b < 128 then map_sum id (\<lambda>s. char_of b # s) (utf8_decode bs)
      else
        (case bs of
           [] \<Rightarrow> Inl UnicodeDecodeError
         | c # cs \<Rightarrow>
             if 194 \<le> b \<and> b < 196 \<and> 128 \<le> c \<and> c < 192
             then map_sum id (\<lambda>s. char_of ((b - 192) * 64 + (c - 128)) # s) (utf8_decode cs)
             else Inl UnicodeDecodeError))"

section \<open>Base64\<close>

definition b64_digit :: "nat \<Rightarrow> char" where
  "b64_digit i =
     char_of (if i < 26 then i + 65 else if i < 52 then i + 71 else if i < 62 then i - 4 else if i = 62 then 43 else (47 :: nat))"

definition b64_value :: "char \<Rightarrow> nat option" where
  "b64_value c =
     (let n = (of_char c :: nat)
      in if 65 \<le> n \<and> n < 91 then Some (n - 65) else if 97 \<le> n \<and> n < 123 then Some (n - 71)
         else if 48 \<le> n \<and> n < 58 then Some (n + 4) else if n = 43 then Some 62 else if n = 47 then Some 63 else None)"

fun b64encode :: "bytes \<Rightarrow> string" where
  "b64encode [] = []"
| "b64encode [a] = [b64_digit (a div 4), b64_digit (a mod 4 * 16), CHR ''='', CHR ''='']"
| "b64encode [a, b] = [b64_digit (a div 4), b64_digit (a mod 4 * 16 + b div 16), b64_digit (b mod 16 * 4), CHR ''='']"
| "b64encode (a # b # c # bs) =
     b64_digit (a div 4) # b64_digit (a mod 4 * 16 + b div 16) # b64_digit (b mod 16 * 4 + c div 64) # b64_digit (c mod 64) # b64encode bs"

definition b64_error :: exn where
  "b64_error = std_exn [''Error'', ''ValueError''] ''Incorrect padding''"

fun b64decode :: "string \<Rightarrow> exn + bytes" where
  "b64decode [] = Inr []"
| "b64decode [w, x, y, z] =
     (case (b64_value w, b64_value x, b64_value y, b64_value z) of
        (Some a, Some b, Some c, Some d) \<Rightarrow> Inr [a * 4 + b div 16, b mod 16 * 16 + c div 4, c mod 4 * 64 + d]
      | (Some a, Some b, Some c, None) \<Rightarrow> if z = CHR ''='' then Inr [a * 4 + b div 16, b mod 16 * 16 + c div 4] else Inl b64_error
      | (Some a, Some b, None, None) \<Rightarrow> if y = CHR ''='' \<and> z = CHR ''='' then Inr [a * 4 + b div 16] else Inl b64_error
      | _ \<Rightarrow> Inl b64_error)"
| "b64decode (w # x # y # z # ws) =
     (case (b64_value w, b64_value x, b64_value y, b64_value z) of
        (Some a, Some b, Some c, Some d) \<Rightarrow>
          map_sum id (\<lambda>bs. (a * 4 + b div 16) # (b mod 16 * 16 + c div 4) # (c mod 4 * 64 + d) # bs) (b64decode ws)
      | _ \<Rightarrow> Inl b64_error)"
| "b64decode ws = Inl b64_error"

section \<open>Round trips\<close>

lemma of_char_small: "(of_char c :: nat) < 256"
  using of_char_mod_256 [of c, where 'a = nat] mod_less_divisor [of 256 "of_char c"] by simp

lemma b64_value_digit [simp]: "i < 64 \<Longrightarrow> b64_value (b64_digit i) = Some i"
  by (auto simp: b64_value_def b64_digit_def Let_def)

lemma b64_value_pad [simp]: "b64_value (CHR ''='') = None"
  by (simp add: b64_value_def)

lemma split_digit: "(y :: nat) < k \<Longrightarrow> (x * k + y) div k = x" "(y :: nat) < k \<Longrightarrow> (x * k + y) mod k = y"
  by simp_all

lemma b64_bits:
  assumes "(a :: nat) < 256" and "b < 256" and "c < 256"
  shows "a div 4 < 64" and "a mod 4 * 16 + b div 16 < 64" and "b mod 16 * 4 + c div 64 < 64" and "c mod 64 < 64"
    and "a div 4 * 4 + (a mod 4 * 16 + b div 16) div 16 = a"
    and "(a mod 4 * 16 + b div 16) mod 16 * 16 + (b mod 16 * 4 + c div 64) div 4 = b"
    and "(b mod 16 * 4 + c div 64) mod 4 * 64 + c mod 64 = c"
proof -
  have small: "b div 16 < 16" "c div 64 < 4" "a mod 4 < 4" "b mod 16 < 16" using assms by simp_all
  show "a div 4 < 64" "c mod 64 < 64" using assms by simp_all
  show "a mod 4 * 16 + b div 16 < 64" "b mod 16 * 4 + c div 64 < 64" using small by linarith+
  show "a div 4 * 4 + (a mod 4 * 16 + b div 16) div 16 = a"
    "(a mod 4 * 16 + b div 16) mod 16 * 16 + (b mod 16 * 4 + c div 64) div 4 = b"
    "(b mod 16 * 4 + c div 64) mod 4 * 64 + c mod 64 = c"
    using small by (simp_all only: split_digit div_mult_mod_eq)
qed

lemma b64_decode_cons:
  assumes "a < 256" and "b < 256" and "c < 256"
  shows "b64decode (b64encode (a # b # c # bs)) = map_sum id (\<lambda>ds. a # b # c # ds) (b64decode (b64encode bs))"
proof -
  note bits = b64_bits [OF assms]
  show ?thesis by (cases "b64encode bs") (simp_all only: b64encode.simps b64decode.simps b64_value_digit [OF bits(1)] b64_value_digit [OF bits(2)]
        b64_value_digit [OF bits(3)] b64_value_digit [OF bits(4)] bits(5-7) option.case prod.case map_sum.simps)
qed

lemma b64_roundtrip: "\<forall>b \<in> set bs. b < 256 \<Longrightarrow> b64decode (b64encode bs) = Inr bs"
proof (induction bs rule: b64encode.induct)
  case (2 a)
  then show ?case using b64_bits [of a 0 0] by simp
next
  case (3 a b)
  then show ?case using b64_bits [of a b 0] by simp
next
  case (4 a b c bs)
  then show ?case using b64_decode_cons [of a b c bs] by simp
qed simp

lemma utf8_bytes: "\<forall>b \<in> set (utf8_encode s). b < 256"
proof -
  have "\<forall>b \<in> set (utf8_char c). b < 256" for c
    by (auto simp: utf8_char_def Let_def) (use of_char_small [of c] in linarith)+
  then show ?thesis by (auto simp: utf8_encode_def)
qed

lemma utf8_roundtrip: "utf8_decode (utf8_encode s) = Inr s"
proof (induction s)
  case (Cons c s)
  let ?n = "of_char c :: nat"
  show ?case
  proof (cases "?n < 128")
    case True
    with Cons show ?thesis by (simp add: utf8_encode_def utf8_char_def Let_def)
  next
    case False
    have "?n < 256" by (rule of_char_small)
    with False have "194 \<le> 192 + ?n div 64" "192 + ?n div 64 < 196" "128 + ?n mod 64 < 192" by linarith+
    with False Cons show ?thesis by (simp add: utf8_encode_def utf8_char_def Let_def)
  qed
qed (simp add: utf8_encode_def)

end
