(* ===== verification/Config.thy ===== *)
theory Config
  imports Codecs Guard
begin

text \<open>
  Configuration and secrets: \<open>kernel/config_vault.py\<close>, \<open>kernel/config_store.py\<close> and \<open>kernel/config_domain.py\<close>.

  \<^item> \<open>ConfigEntry\<close> objects are changed in place by \<open>delete\<close>, and the vault's cache and an in-memory store share them:
    they live in the heap \<open>cv_heap\<close>, the dictionaries hold positions in it. Reading a row of the database makes a new object.
    Secrets are never changed, so they are values.
  \<^item> \<open>cst_files\<close> are the databases on disk, by path; a store without a path keeps its data in memory.
  \<^item> The cipher is a parameter on the outside state \<open>cv_env\<close>; \<open>base64_cipher\<close> is the one the module defines. An operation
    reads the clock once (\<open>now\<close>), \<open>wall\<close> is the store's own \<open>datetime.now\<close>. Time stamps written with \<open>isoformat\<close> are read back unchanged.
\<close>

section \<open>Data\<close>

datatype config_scope = GLOBAL | AGENT | WORKFLOW | PLUGIN | MCP_SERVER

fun scope_value :: "config_scope \<Rightarrow> string" where
  "scope_value GLOBAL = ''global''" | "scope_value AGENT = ''agent''" | "scope_value WORKFLOW = ''workflow''"
| "scope_value PLUGIN = ''plugin''" | "scope_value MCP_SERVER = ''mcp_server''"

record config_entry =
  cf_key :: string
  cf_value :: string
  cf_scope :: config_scope
  cf_scope_id :: "string option"
  cf_version :: int
  cf_updated_at :: datetime
  cf_encrypted :: bool
  cf_deleted :: bool

record secret_value =
  sv_key :: string
  sv_scope :: config_scope
  sv_scope_id :: "string option"
  sv_ciphertext :: bytes
  sv_nonce :: bytes
  sv_tag :: bytes
  sv_version :: int
  sv_rotated_at :: datetime

type_synonym row_key = "config_scope \<times> string \<times> string"

record config_db =
  cdb_config :: "(row_key, config_entry) dict"
  cdb_secrets :: "(row_key, secret_value) dict"
  cdb_audit :: "(string, audit_entry) dict"

record config_store =
  cst_path :: "string option"
  cst_files :: "(string, config_db) dict"
  cst_config :: "(string, nat) dict"
  cst_secrets :: "(string, secret_value) dict"
  cst_audit :: "audit_entry list"

record 'e cipher =
  ci_encrypt :: "string \<Rightarrow> 'e \<Rightarrow> (bytes, 'e) res"
  ci_decrypt :: "bytes \<Rightarrow> 'e \<Rightarrow> (string, 'e) res"
  ci_nonce :: "'e \<Rightarrow> bytes"
  ci_tag :: "'e \<Rightarrow> bytes"

record 'e vault =
  cv_sink :: sink
  cv_heap :: "config_entry list"
  cv_config :: "(string, nat) dict"
  cv_secrets :: "(string, secret_value) dict"
  cv_audit :: "audit_entry list"
  cv_store :: "config_store option"
  cv_cipher :: "'e cipher option"
  cv_env :: 'e

definition base64_cipher :: "'e cipher" where
  "base64_cipher =
     \<lparr>ci_encrypt = (\<lambda>plaintext e. (Inr (utf8_encode (b64encode (utf8_encode plaintext))), e)),
      ci_decrypt = (\<lambda>ciphertext e. (case utf8_decode ciphertext of
                       Inl x \<Rightarrow> Inl x
                     | Inr s \<Rightarrow> (case b64decode s of Inl x \<Rightarrow> Inl x | Inr bs \<Rightarrow> utf8_decode bs), e)),
      ci_nonce = (\<lambda>_. []), ci_tag = (\<lambda>_. [])\<rparr>"

section \<open>The store\<close>

definition sid_text :: "string option \<Rightarrow> string" where
  "sid_text scope_id = or_str scope_id ''__global__''"

definition unsid :: "string \<Rightarrow> string option" where
  "unsid s = (if s = ''__global__'' then None else Some s)"

definition store_key :: "string \<Rightarrow> config_scope \<Rightarrow> string option \<Rightarrow> string" where
  "store_key key scope scope_id = scope_value scope @ '':'' @ sid_text scope_id @ '':'' @ key"

definition row_key_of :: "string \<Rightarrow> config_scope \<Rightarrow> string option \<Rightarrow> row_key" where
  "row_key_of key scope scope_id = (scope, sid_text scope_id, key)"

definition empty_config_db :: config_db where
  "empty_config_db = \<lparr>cdb_config = [], cdb_secrets = [], cdb_audit = []\<rparr>"

definition cst_conn :: "config_store \<Rightarrow> config_db option" where
  "cst_conn st = map_option (\<lambda>p. dget_or (cst_files st) p empty_config_db) (cst_path st)"

definition cst_write :: "(config_db \<Rightarrow> config_db) \<Rightarrow> config_store \<Rightarrow> config_store" where
  "cst_write f st =
     (case cst_path st of None \<Rightarrow> st | Some p \<Rightarrow> st\<lparr>cst_files := dset p (f (dget_or (cst_files st) p empty_config_db)) (cst_files st)\<rparr>)"

definition cst_open :: "(string, config_db) dict \<Rightarrow> string option \<Rightarrow> config_store" where
  "cst_open files path = \<lparr>cst_path = path, cst_files = files, cst_config = [], cst_secrets = [], cst_audit = []\<rparr>"

definition cst_reload :: "string option \<Rightarrow> config_store \<Rightarrow> config_store" where
  "cst_reload path st = (case path of None \<Rightarrow> st | Some p \<Rightarrow> if p = [] then st else st\<lparr>cst_path := Some p\<rparr>)"

definition row_config :: "config_entry \<Rightarrow> config_entry" where
  "row_config e = e\<lparr>cf_scope_id := unsid (sid_text (cf_scope_id e))\<rparr>"

definition row_secret :: "secret_value \<Rightarrow> secret_value" where
  "row_secret s = s\<lparr>sv_scope_id := unsid (sid_text (sv_scope_id s))\<rparr>"

definition cst_put_config :: "config_entry list \<Rightarrow> nat \<Rightarrow> config_store \<Rightarrow> config_store" where
  "cst_put_config heap i st =
     (let e = heap ! i
      in if cst_path st = None then st\<lparr>cst_config := dset (store_key (cf_key e) (cf_scope e) (cf_scope_id e)) i (cst_config st)\<rparr>
         else cst_write (\<lambda>d. d\<lparr>cdb_config := row_replace (row_key_of (cf_key e) (cf_scope e) (cf_scope_id e)) (row_config e) (cdb_config d)\<rparr>) st)"

definition cst_get_config :: "string \<Rightarrow> config_scope \<Rightarrow> string option \<Rightarrow> config_store \<Rightarrow> config_entry list \<Rightarrow> nat option \<times> config_entry list" where
  "cst_get_config key scope scope_id st heap =
     (case cst_conn st of
        None \<Rightarrow> (dget (cst_config st) (store_key key scope scope_id), heap)
      | Some d \<Rightarrow>
          (case dget (cdb_config d) (row_key_of key scope scope_id) of
             None \<Rightarrow> (None, heap)
           | Some e \<Rightarrow> (Some (length heap), heap @ [e])))"

definition mark_deleted :: "datetime \<Rightarrow> config_entry \<Rightarrow> config_entry" where
  "mark_deleted t e = e\<lparr>cf_deleted := True, cf_version := cf_version e + 1, cf_updated_at := t\<rparr>"

definition cst_delete_config ::
  "datetime \<Rightarrow> string \<Rightarrow> config_scope \<Rightarrow> string option \<Rightarrow> config_store \<Rightarrow> config_entry list \<Rightarrow> bool \<times> config_store \<times> config_entry list" where
  "cst_delete_config wall key scope scope_id st heap =
     (case cst_get_config key scope scope_id st heap of
        (None, heap1) \<Rightarrow> (False, st, heap1)
      | (Some i, heap1) \<Rightarrow>
          (let heap2 = heap1[i := mark_deleted wall (heap1 ! i)] in (True, cst_put_config heap2 i st, heap2)))"

definition none_if_empty :: "string option \<Rightarrow> string option" where
  "none_if_empty so = (case so of None \<Rightarrow> None | Some s \<Rightarrow> if s = [] then None else Some s)"

definition in_scope :: "config_scope option \<Rightarrow> string option \<Rightarrow> config_scope \<Rightarrow> string option \<Rightarrow> bool" where
  "in_scope scope scope_id e_scope e_scope_id \<longleftrightarrow>
     (case scope of None \<Rightarrow> True | Some s \<Rightarrow> e_scope = s \<and> none_if_empty scope_id = none_if_empty e_scope_id)"

definition cst_list_config ::
  "config_scope option \<Rightarrow> string option \<Rightarrow> bool \<Rightarrow> config_store \<Rightarrow> config_entry list \<Rightarrow> nat list \<times> config_entry list" where
  "cst_list_config scope scope_id include_deleted st heap =
     (let (refs, heap1) = (case cst_conn st of
                             None \<Rightarrow> (dvals (cst_config st), heap)
                           | Some d \<Rightarrow> ([length heap ..< length heap + length (cdb_config d)], heap @ dvals (cdb_config d)))
      in (filter (\<lambda>i. let e = heap1 ! i in in_scope scope scope_id (cf_scope e) (cf_scope_id e) \<and> (cf_deleted e \<longrightarrow> include_deleted)) refs, heap1))"

definition cst_put_secret :: "secret_value \<Rightarrow> config_store \<Rightarrow> config_store" where
  "cst_put_secret s st =
     (if cst_path st = None then st\<lparr>cst_secrets := dset (store_key (sv_key s) (sv_scope s) (sv_scope_id s)) s (cst_secrets st)\<rparr>
      else cst_write (\<lambda>d. d\<lparr>cdb_secrets := row_replace (row_key_of (sv_key s) (sv_scope s) (sv_scope_id s)) (row_secret s) (cdb_secrets d)\<rparr>) st)"

definition cst_get_secret :: "string \<Rightarrow> config_scope \<Rightarrow> string option \<Rightarrow> config_store \<Rightarrow> secret_value option" where
  "cst_get_secret key scope scope_id st =
     (case cst_conn st of
        None \<Rightarrow> dget (cst_secrets st) (store_key key scope scope_id)
      | Some d \<Rightarrow> dget (cdb_secrets d) (row_key_of key scope scope_id))"

definition cst_list_secrets :: "config_scope option \<Rightarrow> string option \<Rightarrow> config_store \<Rightarrow> secret_value list" where
  "cst_list_secrets scope scope_id st =
     filter (\<lambda>s. in_scope scope scope_id (sv_scope s) (sv_scope_id s))
       (case cst_conn st of None \<Rightarrow> dvals (cst_secrets st) | Some d \<Rightarrow> dvals (cdb_secrets d))"

definition cst_put_audit :: "audit_entry \<Rightarrow> config_store \<Rightarrow> config_store" where
  "cst_put_audit a st =
     (if cst_path st = None then st\<lparr>cst_audit := cst_audit st @ [a]\<rparr>
      else cst_write (\<lambda>d. d\<lparr>cdb_audit := row_replace (ae_entry_id a) a (cdb_audit d)\<rparr>) st)"

definition audit_matches :: "string option \<Rightarrow> string option \<Rightarrow> datetime option \<Rightarrow> datetime option \<Rightarrow> audit_entry \<Rightarrow> bool" where
  "audit_matches key accessor since until a \<longleftrightarrow>
     (case key of None \<Rightarrow> True | Some k \<Rightarrow> ae_resource a = ''secret:'' @ k) \<and> (case accessor of None \<Rightarrow> True | Some w \<Rightarrow> ae_who a = w) \<and>
     (case since of None \<Rightarrow> True | Some t \<Rightarrow> t \<le> ae_timestamp a) \<and> (case until of None \<Rightarrow> True | Some t \<Rightarrow> ae_timestamp a \<le> t)"

definition cst_list_audit :: "string option \<Rightarrow> string option \<Rightarrow> datetime option \<Rightarrow> datetime option \<Rightarrow> config_store \<Rightarrow> audit_entry list" where
  "cst_list_audit key accessor since until st =
     filter (audit_matches key accessor since until)
       (case cst_conn st of None \<Rightarrow> cst_audit st | Some d \<Rightarrow> sort_key ae_timestamp (dvals (cdb_audit d)))"

section \<open>The vault\<close>

definition ckey :: "string \<Rightarrow> config_scope \<Rightarrow> string option \<Rightarrow> string" where
  "ckey key scope scope_id = scope_value scope @ '':'' @ or_str scope_id ''global'' @ '':'' @ key"

definition cv_emit :: "cfg_event \<Rightarrow> 'e vault \<Rightarrow> 'e vault" where
  "cv_emit e v = v\<lparr>cv_sink := emit (CfgEv e) (cv_sink v)\<rparr>"

text \<open>The cache, then the store; the object found in the store is not cached here.\<close>

definition cv_find :: "string \<Rightarrow> config_scope \<Rightarrow> string option \<Rightarrow> 'e vault \<Rightarrow> nat option \<times> 'e vault" where
  "cv_find key scope scope_id v =
     (case dget (cv_config v) (ckey key scope scope_id) of
        Some i \<Rightarrow> (Some i, v)
      | None \<Rightarrow>
          (case cv_store v of
             None \<Rightarrow> (None, v)
           | Some st \<Rightarrow> (case cst_get_config key scope scope_id st (cv_heap v) of (r, heap) \<Rightarrow> (r, v\<lparr>cv_heap := heap\<rparr>))))"

text \<open>A new entry object, cached and put in the store.\<close>

definition cv_put :: "config_entry \<Rightarrow> 'e vault \<Rightarrow> 'e vault" where
  "cv_put e v =
     (let i = length (cv_heap v); heap = cv_heap v @ [e]
      in v\<lparr>cv_heap := heap, cv_config := dset (ckey (cf_key e) (cf_scope e) (cf_scope_id e)) i (cv_config v),
           cv_store := map_option (cst_put_config heap i) (cv_store v)\<rparr>)"

definition cv_set :: "datetime \<Rightarrow> string \<Rightarrow> string \<Rightarrow> config_scope \<Rightarrow> string option \<Rightarrow> string \<Rightarrow> 'e vault \<Rightarrow> config_entry \<times> 'e vault" where
  "cv_set now key val scope scope_id changed_by v0 =
     (let (existing, v) = cv_find key scope scope_id v0;
          version = (case existing of None \<Rightarrow> 1 | Some i \<Rightarrow> cf_version (cv_heap v ! i) + 1);
          e = \<lparr>cf_key = key, cf_value = val, cf_scope = scope, cf_scope_id = scope_id, cf_version = version,
               cf_updated_at = now, cf_encrypted = False, cf_deleted = False\<rparr>
      in (e, cv_emit (ConfigChanged (scope_value scope) scope_id key version changed_by) (cv_put e v)))"

definition cv_get :: "string \<Rightarrow> config_scope \<Rightarrow> string option \<Rightarrow> string option \<Rightarrow> 'e vault \<Rightarrow> string option \<times> 'e vault" where
  "cv_get key scope scope_id deflt v0 =
     (case cv_find key scope scope_id v0 of
        (None, v) \<Rightarrow> (deflt, v)
      | (Some i, v) \<Rightarrow>
          (let v1 = v\<lparr>cv_config := dset (ckey key scope scope_id) i (cv_config v)\<rparr>; e = cv_heap v ! i
           in (if cf_deleted e then deflt else Some (cf_value e), v1)))"

definition cv_delete :: "datetime \<Rightarrow> datetime \<Rightarrow> string \<Rightarrow> config_scope \<Rightarrow> string option \<Rightarrow> string \<Rightarrow> 'e vault \<Rightarrow> bool \<times> 'e vault" where
  "cv_delete now wall key scope scope_id changed_by v0 =
     (case cv_find key scope scope_id v0 of
        (None, v) \<Rightarrow> (False, v)
      | (Some i, v) \<Rightarrow>
          (let heap = (cv_heap v)[i := mark_deleted now (cv_heap v ! i)];
               v1 = v\<lparr>cv_heap := heap, cv_config := dset (ckey key scope scope_id) i (cv_config v)\<rparr>;
               v2 = (case cv_store v1 of
                       None \<Rightarrow> v1
                     | Some st \<Rightarrow> (case cst_delete_config wall key scope scope_id st (cv_heap v1) of
                                     (_, st', heap') \<Rightarrow> v1\<lparr>cv_store := Some st', cv_heap := heap'\<rparr>))
           in (True, cv_emit (ConfigChanged (scope_value scope) scope_id key (cf_version (cv_heap v2 ! i)) changed_by) v2)))"

definition cv_list_keys :: "config_scope option \<Rightarrow> string option \<Rightarrow> bool \<Rightarrow> 'e vault \<Rightarrow> string list" where
  "cv_list_keys scope scope_id include_deleted v =
     (let (refs, heap) = (case cv_store v of None \<Rightarrow> ([], cv_heap v) | Some st \<Rightarrow> cst_list_config scope scope_id True st (cv_heap v));
          entries = fold (\<lambda>i. let e = heap ! i in dset (ckey (cf_key e) (cf_scope e) (cf_scope_id e)) i) refs (cv_config v);
          shown = filter (\<lambda>e. in_scope scope scope_id (cf_scope e) (cf_scope_id e) \<and> (cf_deleted e \<longrightarrow> include_deleted)) (map (\<lambda>i. heap ! i) (dvals entries))
      in sort (remdups (map cf_key shown)))"

section \<open>Secrets and audit\<close>

definition cv_find_secret :: "string \<Rightarrow> config_scope \<Rightarrow> string option \<Rightarrow> 'e vault \<Rightarrow> secret_value option" where
  "cv_find_secret key scope scope_id v =
     (case dget (cv_secrets v) (ckey key scope scope_id) of
        Some s \<Rightarrow> Some s
      | None \<Rightarrow> Option.bind (cv_store v) (cst_get_secret key scope scope_id))"

definition cv_put_audit :: "audit_entry \<Rightarrow> 'e vault \<Rightarrow> 'e vault" where
  "cv_put_audit a v = v\<lparr>cv_audit := cv_audit v @ [a], cv_store := map_option (cst_put_audit a) (cv_store v)\<rparr>"

definition audit_access :: "(datetime \<Rightarrow> string) \<Rightarrow> datetime \<Rightarrow> string \<Rightarrow> string \<Rightarrow> string \<Rightarrow> string \<Rightarrow> 'e vault \<Rightarrow> 'e vault" where
  "audit_access isofmt now uid key accessor action v =
     cv_emit (SecretAccessed key accessor action (isofmt now))
       (cv_put_audit \<lparr>ae_entry_id = uid, ae_who = accessor, ae_action = action, ae_resource = ''secret:'' @ key,
                      ae_result = ''allowed'', ae_timestamp = now, ae_detail = []\<rparr> v)"

definition record_denied :: "datetime \<Rightarrow> string \<Rightarrow> string \<Rightarrow> string \<Rightarrow> config_scope \<Rightarrow> string \<Rightarrow> 'e vault \<Rightarrow> 'e vault" where
  "record_denied now uid who key scope reason v =
     cv_emit (ConfigAccessDenied who key (scope_value scope) reason)
       (cv_put_audit \<lparr>ae_entry_id = uid, ae_who = who, ae_action = ''resolve'', ae_resource = ''secret:'' @ key,
                      ae_result = ''denied'', ae_timestamp = now, ae_detail = reason\<rparr> v)"

text \<open>Encrypting a value and storing it with its marker entry; shared by \<open>set_secret\<close> and \<open>rotate_secret\<close>.\<close>

definition store_secret ::
  "datetime \<Rightarrow> string \<Rightarrow> string \<Rightarrow> config_scope \<Rightarrow> string option \<Rightarrow> 'e cipher \<Rightarrow> 'e vault \<Rightarrow> (secret_value, 'e vault) res" where
  "store_secret now key val scope scope_id ci v =
     (let version = (case cv_find_secret key scope scope_id v of None \<Rightarrow> 1 | Some s \<Rightarrow> sv_version s + 1)
      in case ci_encrypt ci val (cv_env v) of
           (Inl x, e) \<Rightarrow> (Inl x, v\<lparr>cv_env := e\<rparr>)
         | (Inr ciphertext, e) \<Rightarrow>
             (let s = \<lparr>sv_key = key, sv_scope = scope, sv_scope_id = scope_id, sv_ciphertext = ciphertext, sv_nonce = ci_nonce ci e,
                       sv_tag = ci_tag ci e, sv_version = version, sv_rotated_at = now\<rparr>;
                  marker = \<lparr>cf_key = key, cf_value = b64encode ciphertext, cf_scope = scope, cf_scope_id = scope_id, cf_version = version,
                            cf_updated_at = now, cf_encrypted = True, cf_deleted = False\<rparr>;
                  v1 = v\<lparr>cv_env := e, cv_secrets := dset (ckey key scope scope_id) s (cv_secrets v),
                         cv_store := map_option (cst_put_secret s) (cv_store v)\<rparr>
              in (Inr s, cv_put marker v1)))"

definition no_cipher :: "string \<Rightarrow> exn" where
  "no_cipher what = RuntimeError (''ConfigVault has no cipher wired; cannot '' @ what @ '' secrets'')"

definition set_secret ::
  "datetime \<Rightarrow> string \<Rightarrow> string \<Rightarrow> config_scope \<Rightarrow> string option \<Rightarrow> string \<Rightarrow> 'e vault \<Rightarrow> (unit, 'e vault) res" where
  "set_secret now key val scope scope_id changed_by v =
     (case cv_cipher v of
        None \<Rightarrow> (Inl (no_cipher ''store''), v)
      | Some ci \<Rightarrow>
          (case store_secret now key val scope scope_id ci v of
             (Inl x, v1) \<Rightarrow> (Inl x, v1)
           | (Inr s, v1) \<Rightarrow> (Inr (), cv_emit (ConfigChanged (scope_value scope) scope_id key (sv_version s) changed_by) v1)))"

definition resolve_secret ::
  "(datetime \<Rightarrow> string) \<Rightarrow> datetime \<Rightarrow> string \<Rightarrow> string \<Rightarrow> config_scope \<Rightarrow> string option \<Rightarrow> string \<Rightarrow> 'e vault \<Rightarrow> (string, 'e vault) res" where
  "resolve_secret isofmt now uid key scope scope_id accessor v =
     (case cv_cipher v of
        None \<Rightarrow> (Inl (no_cipher ''resolve''), v)
      | Some ci \<Rightarrow>
          (case cv_find_secret key scope scope_id v of
             None \<Rightarrow>
               (Inl (KeyError (''secret '' @ quoted key @ '' not found in scope '' @ scope_value scope @ '':'' @ or_str scope_id ''global'')),
                record_denied now uid accessor key scope ''secret_not_found'' v)
           | Some s \<Rightarrow>
               (let v1 = v\<lparr>cv_secrets := dset (ckey key scope scope_id) s (cv_secrets v)\<rparr>
                in case ci_decrypt ci (sv_ciphertext s) (cv_env v1) of
                     (Inl x, e) \<Rightarrow> (Inl x, v1\<lparr>cv_env := e\<rparr>)
                   | (Inr plaintext, e) \<Rightarrow> (Inr plaintext, audit_access isofmt now uid key accessor ''resolve'' (v1\<lparr>cv_env := e\<rparr>)))))"

definition rotate_secret ::
  "(datetime \<Rightarrow> string) \<Rightarrow> datetime \<Rightarrow> string \<Rightarrow> string \<Rightarrow> config_scope \<Rightarrow> string option \<Rightarrow> string \<Rightarrow> string \<Rightarrow> 'e vault \<Rightarrow> (secret_value, 'e vault) res" where
  "rotate_secret isofmt now uid key scope scope_id new_value rotated_by v =
     (case cv_cipher v of
        None \<Rightarrow> (Inl (no_cipher ''rotate''), v)
      | Some ci \<Rightarrow>
          (case store_secret now key new_value scope scope_id ci v of
             (Inl x, v1) \<Rightarrow> (Inl x, v1)
           | (Inr s, v1) \<Rightarrow>
               (Inr s, audit_access isofmt now uid key rotated_by ''read''
                  (cv_emit (SecretRotated key (scope_value scope) scope_id (isofmt now) (sv_version s)) v1))))"

definition cv_reload :: "string \<Rightarrow> 'e vault \<Rightarrow> int \<times> 'e vault" where
  "cv_reload source v =
     (case cv_store v of
        None \<Rightarrow> (let n = int (length (cv_config v)) in (n, cv_emit (ConfigReloaded n source) v))
      | Some st \<Rightarrow>
          (let (refs, heap) = cst_list_config None None True st (cv_heap v);
               n = int (length refs);
               v1 = v\<lparr>cv_heap := heap,
                      cv_config := fold (\<lambda>i. let e = heap ! i in dset (ckey (cf_key e) (cf_scope e) (cf_scope_id e)) i) refs [],
                      cv_secrets := fold (\<lambda>s. dset (ckey (sv_key s) (sv_scope s) (sv_scope_id s)) s) (cst_list_secrets None None st) []\<rparr>
           in (n, cv_emit (ConfigReloaded n source) v1)))"

definition cv_audit_log :: "string option \<Rightarrow> string option \<Rightarrow> datetime option \<Rightarrow> 'e vault \<Rightarrow> audit_entry list" where
  "cv_audit_log key accessor since v =
     (case cv_store v of
        Some st \<Rightarrow> cst_list_audit key accessor since None st
      | None \<Rightarrow> filter (audit_matches key accessor since None) (cv_audit v))"

section \<open>Keys\<close>

text \<open>
  Scope ids for which the textual keys name one place: not empty, without a colon, and not one of the two words that stand for a missing id.
\<close>

definition plain_sid :: "string option \<Rightarrow> bool" where
  "plain_sid so \<longleftrightarrow> (case so of None \<Rightarrow> True | Some s \<Rightarrow> s \<noteq> [] \<and> CHR '':'' \<notin> set s \<and> s \<noteq> ''global'' \<and> s \<noteq> ''__global__'')"

lemma scope_value_inj: "scope_value s = scope_value t \<Longrightarrow> s = t"
  by (cases s; cases t) simp_all

lemma scope_value_colon: "CHR '':'' \<notin> set (scope_value s)"
  by (cases s) simp_all

lemma joined_key_inj:
  assumes "scope_value s @ '':'' @ a @ '':'' @ k = scope_value s' @ '':'' @ a' @ '':'' @ k'" and "CHR '':'' \<notin> set a" and "CHR '':'' \<notin> set a'"
  shows "s = s' \<and> a = a' \<and> k = k'"
proof -
  have "scope_value s = scope_value s' \<and> a @ '':'' @ k = a' @ '':'' @ k'"
    using separator_unique [of "scope_value s" "CHR '':''" "a @ '':'' @ k"] assms(1) scope_value_colon by simp
  moreover from this have "a = a' \<and> k = k'"
    using separator_unique [of a "CHR '':''" k a' k'] assms(2,3) by simp
  ultimately show ?thesis using scope_value_inj by blast
qed

lemma or_str_plain:
  assumes "plain_sid i" and "plain_sid j" and "w \<in> {''global'', ''__global__''}"
  shows "CHR '':'' \<notin> set (or_str i w)" and "or_str i w = or_str j w \<Longrightarrow> i = j"
  using assms by (auto simp: plain_sid_def or_str_def split: option.splits if_splits)

lemma key_inj:
  assumes "plain_sid i" and "plain_sid j"
  shows "ckey k s i = ckey k' s' j \<longleftrightarrow> (k, s, i) = (k', s', j)"
    and "store_key k s i = store_key k' s' j \<longleftrightarrow> (k, s, i) = (k', s', j)"
    and "row_key_of k s i = row_key_of k' s' j \<longleftrightarrow> (k, s, i) = (k', s', j)"
proof -
  have joined: "scope_value s @ '':'' @ or_str i w @ '':'' @ k = scope_value s' @ '':'' @ or_str j w @ '':'' @ k' \<longleftrightarrow> (k, s, i) = (k', s', j)"
    if w: "w \<in> {''global'', ''__global__''}" for w
  proof
    assume "scope_value s @ '':'' @ or_str i w @ '':'' @ k = scope_value s' @ '':'' @ or_str j w @ '':'' @ k'"
    from joined_key_inj [OF this or_str_plain(1) [OF assms w] or_str_plain(1) [OF assms(2,1) w]]
    have "s = s'" "or_str i w = or_str j w" "k = k'" by blast+
    with or_str_plain(2) [OF assms w] show "(k, s, i) = (k', s', j)" by blast
  qed blast
  show "ckey k s i = ckey k' s' j \<longleftrightarrow> (k, s, i) = (k', s', j)"
    unfolding ckey_def by (rule joined) simp
  show "store_key k s i = store_key k' s' j \<longleftrightarrow> (k, s, i) = (k', s', j)"
    unfolding store_key_def sid_text_def by (rule joined) simp
  show "row_key_of k s i = row_key_of k' s' j \<longleftrightarrow> (k, s, i) = (k', s', j)"
    using or_str_plain(2) [OF assms, of "''__global__''"] by (auto simp: row_key_of_def sid_text_def)
qed

section \<open>Reading and writing\<close>

definition vault_wf :: "'e vault \<Rightarrow> bool" where
  "vault_wf v \<longleftrightarrow>
     (\<forall>i \<in> set (dvals (cv_config v)). i < length (cv_heap v)) \<and>
     (\<forall>st. cv_store v = Some st \<longrightarrow> (\<forall>i \<in> set (dvals (cst_config st)). i < length (cv_heap v)))"

text \<open>What \<open>get\<close> would find, without the changes it makes to the cache.\<close>

definition entry_at :: "string \<Rightarrow> config_scope \<Rightarrow> string option \<Rightarrow> 'e vault \<Rightarrow> config_entry option" where
  "entry_at key scope scope_id v =
     (case dget (cv_config v) (ckey key scope scope_id) of
        Some i \<Rightarrow> Some (cv_heap v ! i)
      | None \<Rightarrow>
          (case cv_store v of
             None \<Rightarrow> None
           | Some st \<Rightarrow>
               (case cst_conn st of
                  None \<Rightarrow> map_option (\<lambda>i. cv_heap v ! i) (dget (cst_config st) (store_key key scope scope_id))
                | Some d \<Rightarrow> dget (cdb_config d) (row_key_of key scope scope_id))))"

lemma cv_find_entry:
  "case cv_find key scope scope_id v of
     (None, v') \<Rightarrow> entry_at key scope scope_id v = None \<and> v' = v
   | (Some i, v') \<Rightarrow> entry_at key scope scope_id v = Some (cv_heap v' ! i) \<and> (\<exists>ext. v' = v\<lparr>cv_heap := cv_heap v @ ext\<rparr>)"
  by (auto simp: cv_find_def entry_at_def cst_get_config_def split: option.splits intro: exI [of _ "[]"])

lemma cv_get_entry:
  "fst (cv_get key scope scope_id deflt v) =
     (case entry_at key scope scope_id v of None \<Rightarrow> deflt | Some e \<Rightarrow> if cf_deleted e then deflt else Some (cf_value e))"
  using cv_find_entry [of key scope scope_id v] by (auto simp: cv_get_def Let_def split: prod.splits option.splits)

lemma cst_conn_write:
  "cst_conn (cst_write f st) = map_option f (cst_conn st)" "cst_config (cst_write f st) = cst_config st" "cst_path (cst_write f st) = cst_path st"
  by (auto simp: cst_conn_def cst_write_def split: option.splits)

lemma entry_at_put_same: "entry_at (cf_key e) (cf_scope e) (cf_scope_id e) (cv_put e v) = Some e"
  by (simp add: entry_at_def cv_put_def Let_def)

lemma entry_at_put_other:
  assumes "vault_wf v" and "ckey k s i \<noteq> ckey (cf_key e) (cf_scope e) (cf_scope_id e)"
    and "store_key k s i \<noteq> store_key (cf_key e) (cf_scope e) (cf_scope_id e)" and "row_key_of k s i \<noteq> row_key_of (cf_key e) (cf_scope e) (cf_scope_id e)"
  shows "entry_at k s i (cv_put e v) = entry_at k s i v"
proof -
  have heap: "(cv_heap v @ [e]) ! j = cv_heap v ! j" if "j < length (cv_heap v)" for j using that by (simp add: nth_append)
  show ?thesis
  proof (cases "dget (cv_config v) (ckey k s i)")
    case (Some j)
    then have "j < length (cv_heap v)" using assms(1) by (force simp: vault_wf_def dest: dget_Some_in)
    with Some assms(2) heap show ?thesis by (simp add: entry_at_def cv_put_def Let_def)
  next
    case None
    show ?thesis
    proof (cases "cv_store v")
      case (Some st)
      show ?thesis
      proof (cases "cst_path st")
        case None
        have "j < length (cv_heap v)" if "dget (cst_config st) (store_key k s i) = Some j" for j
          using that Some assms(1) by (force simp: vault_wf_def dest: dget_Some_in)
        with None Some \<open>dget (cv_config v) (ckey k s i) = None\<close> assms(2,3) heap show ?thesis
          by (auto simp: entry_at_def cv_put_def Let_def cst_put_config_def cst_conn_def option.map_comp intro: option.map_cong)
      next
        case (Some p)
        with \<open>cv_store v = Some st\<close> \<open>dget (cv_config v) (ckey k s i) = None\<close> assms(2,4) show ?thesis
          by (simp add: entry_at_def cv_put_def Let_def cst_put_config_def cst_conn_write cst_conn_def cst_write_def dget_row_replace)
      qed
    qed (use None assms(2) in \<open>simp add: entry_at_def cv_put_def Let_def\<close>)
  qed
qed

lemma entry_at_ext:
  assumes "vault_wf v"
  shows "entry_at k s i (v\<lparr>cv_heap := cv_heap v @ ext\<rparr>) = entry_at k s i v" and "vault_wf (v\<lparr>cv_heap := cv_heap v @ ext\<rparr>)"
proof -
  have heap: "(cv_heap v @ ext) ! j = cv_heap v ! j" if "j < length (cv_heap v)" for j using that by (simp add: nth_append)
  have *: "j < length (cv_heap v)" if "dget (cv_config v) x = Some j" for j x
    using that assms by (force simp: vault_wf_def dest: dget_Some_in)
  have **: "j < length (cv_heap v)" if "cv_store v = Some st" "dget (cst_config st) x = Some j" for j x st
    using that assms by (force simp: vault_wf_def dest: dget_Some_in)
  show "entry_at k s i (v\<lparr>cv_heap := cv_heap v @ ext\<rparr>) = entry_at k s i v"
    using * ** heap by (auto simp: entry_at_def map_option_case split: option.splits)
  show "vault_wf (v\<lparr>cv_heap := cv_heap v @ ext\<rparr>)"
    using assms by (auto simp: vault_wf_def intro: trans_less_add1)
qed

lemma entry_at_emit [simp]: "entry_at k s i (cv_emit e v) = entry_at k s i v" "vault_wf (cv_emit e v) = vault_wf v"
  by (simp_all add: entry_at_def cv_emit_def vault_wf_def cong: option.case_cong)

lemma dset_vals_less: "\<forall>i \<in> set (dvals d). i < n \<Longrightarrow> \<forall>i \<in> set (dvals (dset k n d)). i < Suc n"
  by (force dest: in_dsetD)

lemma vault_wf_put:
  assumes "vault_wf v"
  shows "vault_wf (cv_put e v)"
proof -
  have "\<forall>i \<in> set (dvals (cst_config (cst_put_config h (length (cv_heap v)) st))). i < Suc (length (cv_heap v))" if st: "cv_store v = Some st" for st h
  proof -
    have "\<forall>i \<in> set (dvals (cst_config st)). i < length (cv_heap v)" using assms st by (simp add: vault_wf_def)
    then show ?thesis
      using dset_vals_less [of "cst_config st"] less_SucI
      by (cases "cst_path st") (auto simp: cst_put_config_def Let_def cst_conn_write)
  qed
  then show ?thesis
    using assms dset_vals_less [of "cv_config v"] unfolding vault_wf_def cv_put_def Let_def by fastforce
qed

lemma cv_set_put:
  assumes "vault_wf v"
  obtains e v1 where "cv_set now k val s i by v = (e, cv_emit (ConfigChanged (scope_value s) i k (cf_version e) by) (cv_put e v1))"
    and "cf_key e = k" and "cf_value e = val" and "cf_scope e = s" and "cf_scope_id e = i" and "\<not> cf_deleted e"
    and "vault_wf v1" and "\<And>k' s' j. entry_at k' s' j v1 = entry_at k' s' j v" and "cv_store v1 = cv_store v"
proof -
  obtain r v1 where f: "cv_find k s i v = (r, v1)" by fastforce
  then have "\<exists>ext. v1 = v\<lparr>cv_heap := cv_heap v @ ext\<rparr>"
    using cv_find_entry [of k s i v] by (auto split: option.splits intro: exI [of _ "[]"])
  then obtain ext where v1: "v1 = v\<lparr>cv_heap := cv_heap v @ ext\<rparr>" by blast
  let ?e = "\<lparr>cf_key = k, cf_value = val, cf_scope = s, cf_scope_id = i,
       cf_version = (case r of None \<Rightarrow> 1 | Some n \<Rightarrow> cf_version (cv_heap v1 ! n) + 1), cf_updated_at = now, cf_encrypted = False, cf_deleted = False\<rparr>"
  show thesis
  proof (rule that [of ?e v1])
    show "cv_set now k val s i by v = (?e, cv_emit (ConfigChanged (scope_value s) i k (cf_version ?e) by) (cv_put ?e v1))"
      using f by (simp add: cv_set_def Let_def)
    show "vault_wf v1" "entry_at k' s' j v1 = entry_at k' s' j v" "cv_store v1 = cv_store v" for k' s' j
      unfolding v1 using entry_at_ext [OF assms] by simp_all
  qed simp_all
qed

section \<open>Secrets\<close>

text \<open>What a cipher promises: every text can be encrypted, and decrypting gives it back, whenever that happens.\<close>

definition cipher_ok :: "'e cipher \<Rightarrow> bool" where
  "cipher_ok ci \<longleftrightarrow>
     (\<forall>p e. \<exists>ct e'. ci_encrypt ci p e = (Inr ct, e') \<and> (\<forall>e1. \<exists>e2. ci_decrypt ci ct e1 = (Inr p, e2)))"

lemma base64_cipher_ok: "cipher_ok base64_cipher"
  by (simp add: cipher_ok_def base64_cipher_def utf8_roundtrip b64_roundtrip utf8_bytes)

text \<open>A vault that starts on a store, with empty caches.\<close>

definition new_vault :: "sink \<Rightarrow> config_store option \<Rightarrow> 'e cipher option \<Rightarrow> 'e \<Rightarrow> 'e vault" where
  "new_vault snk st ci e =
     \<lparr>cv_sink = snk, cv_heap = [], cv_config = [], cv_secrets = [], cv_audit = [], cv_store = st, cv_cipher = ci, cv_env = e\<rparr>"

lemma cst_get_secret_put_config: "cst_get_secret k s i (cst_put_config h n st) = cst_get_secret k s i st"
  by (cases "cst_path st") (simp_all add: cst_get_secret_def cst_put_config_def Let_def cst_conn_write cst_conn_def cst_write_def)

lemma cst_get_secret_put:
  "\<exists>sv'. cst_get_secret (sv_key sv) (sv_scope sv) (sv_scope_id sv) (cst_put_secret sv st) = Some sv' \<and> sv_ciphertext sv' = sv_ciphertext sv"
  by (cases "cst_path st")
     (simp_all add: cst_get_secret_def cst_put_secret_def cst_conn_write cst_conn_def cst_write_def dget_row_replace row_secret_def)

lemma set_secret_effect:
  assumes "cv_cipher v = Some ci" and "cipher_ok ci"
  obtains ct v1 sv where "set_secret now k p s i by v = (Inr (), v1)" and "fst (ci_encrypt ci p (cv_env v)) = Inr ct"
    and "\<forall>e1. \<exists>e2. ci_decrypt ci ct e1 = (Inr p, e2)"
    and "dget (cv_secrets v1) (ckey k s i) = Some sv" and "sv_ciphertext sv = ct" and "cv_cipher v1 = Some ci"
    and "entry_at k s i v1 \<noteq> None" and "cf_value (the (entry_at k s i v1)) = b64encode ct" and "\<not> cf_deleted (the (entry_at k s i v1))"
    and "dget (cv_config v1) (ckey k s i) \<noteq> None"
    and "\<forall>st. cv_store v1 = Some st \<longrightarrow> (\<exists>sv'. cst_get_secret k s i st = Some sv' \<and> sv_ciphertext sv' = ct)"
proof -
  from assms(2) obtain ct e' where ct: "ci_encrypt ci p (cv_env v) = (Inr ct, e')" "\<forall>e1. \<exists>e2. ci_decrypt ci ct e1 = (Inr p, e2)"
    unfolding cipher_ok_def by blast
  define ver where "ver = (case cv_find_secret k s i v of None \<Rightarrow> 1 | Some x \<Rightarrow> sv_version x + 1)"
  let ?sv = "\<lparr>sv_key = k, sv_scope = s, sv_scope_id = i, sv_ciphertext = ct, sv_nonce = ci_nonce ci e', sv_tag = ci_tag ci e', sv_version = ver, sv_rotated_at = now\<rparr>"
  let ?m = "\<lparr>cf_key = k, cf_value = b64encode ct, cf_scope = s, cf_scope_id = i, cf_version = ver, cf_updated_at = now, cf_encrypted = True, cf_deleted = False\<rparr>"
  let ?v0 = "v\<lparr>cv_env := e', cv_secrets := dset (ckey k s i) ?sv (cv_secrets v), cv_store := map_option (cst_put_secret ?sv) (cv_store v)\<rparr>"
  let ?v1 = "cv_emit (ConfigChanged (scope_value s) i k ver by) (cv_put ?m ?v0)"
  have run: "set_secret now k p s i by v = (Inr (), ?v1)"
    using assms(1) ct(1) by (simp add: set_secret_def store_secret_def ver_def Let_def)
  have ent: "entry_at k s i ?v1 = Some ?m" using entry_at_put_same [of ?m ?v0] by simp
  show thesis
  proof (rule that [OF run _ ct(2)])
    show "fst (ci_encrypt ci p (cv_env v)) = Inr ct" using ct by simp
    show "dget (cv_secrets ?v1) (ckey k s i) = Some ?sv" by (simp add: cv_emit_def cv_put_def Let_def)
    show "sv_ciphertext ?sv = ct" by simp
    show "cv_cipher ?v1 = Some ci" using assms(1) by (simp add: cv_emit_def cv_put_def Let_def)
    show "entry_at k s i ?v1 \<noteq> None" "cf_value (the (entry_at k s i ?v1)) = b64encode ct" "\<not> cf_deleted (the (entry_at k s i ?v1))"
      using ent by simp_all
    show "dget (cv_config ?v1) (ckey k s i) \<noteq> None" by (simp add: cv_emit_def cv_put_def Let_def)
    show "\<forall>st. cv_store ?v1 = Some st \<longrightarrow> (\<exists>sv'. cst_get_secret k s i st = Some sv' \<and> sv_ciphertext sv' = ct)"
      using cst_get_secret_put [of ?sv] by (auto simp: cv_emit_def cv_put_def Let_def cst_get_secret_put_config)
  qed
qed

lemma resolve_found:
  assumes "cv_cipher v = Some ci" and "cv_find_secret k s i v = Some sv" and "\<forall>e1. \<exists>e2. ci_decrypt ci (sv_ciphertext sv) e1 = (Inr p, e2)"
  shows "\<exists>v'. resolve_secret isofmt now uid k s i who v = (Inr p, v') \<and>
           cv_audit v' = cv_audit v @ [\<lparr>ae_entry_id = uid, ae_who = who, ae_action = ''resolve'', ae_resource = ''secret:'' @ k,
                                        ae_result = ''allowed'', ae_timestamp = now, ae_detail = []\<rparr>]"
proof -
  obtain e2 where "ci_decrypt ci (sv_ciphertext sv) (cv_env v) = (Inr p, e2)" using assms(3) by blast
  with assms(1,2) show ?thesis
    by (simp add: resolve_secret_def audit_access_def cv_emit_def cv_put_audit_def Let_def)
qed

lemma cv_delete_cached:
  assumes "dget (cv_config v) (ckey k s i) = Some n" and "n < length (cv_heap v)"
  obtains v' where "cv_delete now wall k s i by v = (True, v')" and "cv_secrets v' = cv_secrets v" and "cv_cipher v' = cv_cipher v"
    and "\<exists>e. entry_at k s i v' = Some e \<and> cf_deleted e"
proof -
  let ?heap = "(cv_heap v)[n := mark_deleted now (cv_heap v ! n)]"
  have f: "cv_find k s i v = (Some n, v)" using assms(1) by (simp add: cv_find_def)
  have gone: "cf_deleted (?heap ! n)" using assms(2) by (simp add: mark_deleted_def)
  have keep: "cf_deleted (heap' ! n)" if "cst_delete_config wall k s i st ?heap = (b, st', heap')" for st b st' heap'
  proof -
    obtain r heap1 where g: "cst_get_config k s i st ?heap = (r, heap1)" by fastforce
    then have h1: "cf_deleted (heap1 ! n)" "n < length heap1"
      using gone assms(2) by (auto simp: cst_get_config_def nth_append split: option.splits)
    show ?thesis
    proof (cases r)
      case None
      with g h1 that show ?thesis by (simp add: cst_delete_config_def)
    next
      case (Some m)
      with g that have "heap' = heap1[m := mark_deleted wall (heap1 ! m)]" by (simp add: cst_delete_config_def Let_def)
      with h1 show ?thesis by (cases "m = n") (simp_all add: mark_deleted_def)
    qed
  qed
  show thesis
  proof (cases "cv_store v")
    case None
    show thesis
      by (rule that [of "snd (cv_delete now wall k s i by v)"])
         (use None f gone in \<open>simp_all add: cv_delete_def Let_def cv_emit_def entry_at_def\<close>)
  next
    case (Some st)
    obtain b st' heap' where d: "cst_delete_config wall k s i st ?heap = (b, st', heap')" by (metis prod_cases3)
    show thesis
      by (rule that [of "snd (cv_delete now wall k s i by v)"])
         (use Some f keep [OF d] d in \<open>simp_all add: cv_delete_def Let_def cv_emit_def entry_at_def\<close>)
  qed
qed

section \<open>Properties\<close>

text \<open>
  Configuration is kept apart by scope, scope id and key. After a \<open>set\<close> the value is read back at the same place, and what is read at every
  other place is what was read before, with or without a store, in memory or on disk, provided the scope ids are plain (no colon, not one of
  the reserved words).
\<close>

theorem scope_isolation:
  assumes "vault_wf v" and "plain_sid i" and "plain_sid j" and "(k, s, i) \<noteq> (k', s', j)"
  shows "fst (cv_get k s i deflt (snd (cv_set now k val s i by v))) = Some val \<and>
         fst (cv_get k' s' j deflt (snd (cv_set now k val s i by v))) = fst (cv_get k' s' j deflt v) \<and>
         vault_wf (snd (cv_set now k val s i by v))"
proof -
  obtain e v1 where set: "cv_set now k val s i by v = (e, cv_emit (ConfigChanged (scope_value s) i k (cf_version e) by) (cv_put e v1))"
    and e: "cf_key e = k" "cf_value e = val" "cf_scope e = s" "cf_scope_id e = i" "\<not> cf_deleted e"
    and v1: "vault_wf v1" "\<And>k' s' j. entry_at k' s' j v1 = entry_at k' s' j v"
    by (rule cv_set_put [OF assms(1)]) blast
  have "entry_at k s i (snd (cv_set now k val s i by v)) = Some e"
    using entry_at_put_same [of e v1] e set by simp
  moreover have "entry_at k' s' j (cv_put e v1) = entry_at k' s' j v1"
    by (rule entry_at_put_other [OF v1(1)]) (use assms(4) e key_inj [OF assms(3,2)] in auto)
  ultimately show ?thesis
    using set e v1 vault_wf_put [OF v1(1)] by (simp add: cv_get_entry)
qed

theorem scope_isolation_witness:
  "fst (cv_get ''k'' AGENT (Some ''b'') None (snd (cv_set 0 ''k'' ''secret plan'' AGENT (Some ''a'') ''me'' (new_vault wired None None ())))) = None"
proof -
  have "vault_wf (new_vault wired None None ())" by (simp add: vault_wf_def new_vault_def)
  from scope_isolation [OF this, of "Some ''a''" "Some ''b''" "''k''" AGENT "''k''" AGENT None]
  show ?thesis by (simp add: plain_sid_def cv_get_entry entry_at_def new_vault_def)
qed

text \<open>
  C13: secrets. With a cipher that decrypts what it encrypted, a stored secret is given back by \<open>resolve_secret\<close>, by the same vault and
  by a new one on the same store, and each access adds one entry to the audit trail; \<open>get\<close> shows the encoded ciphertext only.
  A secret that is not there is a \<open>KeyError\<close>, recorded as denied.
\<close>

theorem secret_roundtrip:
  fixes v :: "'e vault"
  assumes "cv_cipher v = Some ci" and "cipher_ok ci"
  shows "(\<exists>v1 ct. set_secret now k p s i by v = (Inr (), v1) \<and> fst (ci_encrypt ci p (cv_env v)) = Inr ct \<and>
            fst (cv_get k s i None v1) = Some (b64encode ct) \<and>
            (\<exists>v2. resolve_secret isofmt now' uid k s i who v1 = (Inr p, v2) \<and>
               cv_audit v2 = cv_audit v1 @ [\<lparr>ae_entry_id = uid, ae_who = who, ae_action = ''resolve'', ae_resource = ''secret:'' @ k,
                                             ae_result = ''allowed'', ae_timestamp = now', ae_detail = []\<rparr>]) \<and>
            (\<forall>st e. cv_store v1 = Some st \<longrightarrow> fst (resolve_secret isofmt now' uid k s i who (new_vault snk (Some st) (Some ci) e)) = Inr p)) \<and>
         (cv_find_secret k s i v = None \<longrightarrow>
            (\<exists>m v2. resolve_secret isofmt now' uid k s i who v = (Inl (KeyError m), v2) \<and>
               map ae_result (cv_audit v2) = map ae_result (cv_audit v) @ [''denied'']))"
proof
  obtain ct v1 sv where set: "set_secret now k p s i by v = (Inr (), v1)" "fst (ci_encrypt ci p (cv_env v)) = Inr ct"
      "\<forall>e1. \<exists>e2. ci_decrypt ci ct e1 = (Inr p, e2)" "dget (cv_secrets v1) (ckey k s i) = Some sv" "sv_ciphertext sv = ct" "cv_cipher v1 = Some ci"
      "entry_at k s i v1 \<noteq> None" "cf_value (the (entry_at k s i v1)) = b64encode ct" "\<not> cf_deleted (the (entry_at k s i v1))"
      "dget (cv_config v1) (ckey k s i) \<noteq> None"
      "\<forall>st. cv_store v1 = Some st \<longrightarrow> (\<exists>sv'. cst_get_secret k s i st = Some sv' \<and> sv_ciphertext sv' = ct)"
    by (rule set_secret_effect [OF assms])
  have "fst (resolve_secret isofmt now' uid k s i who (new_vault snk (Some st) (Some ci) e)) = Inr p" if st: "cv_store v1 = Some st" for st e
  proof -
    obtain sv' where "cst_get_secret k s i st = Some sv'" "sv_ciphertext sv' = ct" using set(11) st by blast
    then have "cv_find_secret k s i (new_vault snk (Some st) (Some ci) e) = Some sv'" "sv_ciphertext sv' = ct"
      by (simp_all add: cv_find_secret_def new_vault_def)
    moreover have "cv_cipher (new_vault snk (Some st) (Some ci) e) = Some ci" by (simp add: new_vault_def)
    ultimately obtain v2 where "resolve_secret isofmt now' uid k s i who (new_vault snk (Some st) (Some ci) e) = (Inr p, v2)"
      using resolve_found set(3) by blast
    then show ?thesis by simp
  qed
  moreover have "cv_find_secret k s i v1 = Some sv" using set(4) by (simp add: cv_find_secret_def)
  note resolve_found [OF set(6) this set(3) [folded set(5)], of isofmt now' uid who]
  moreover have "fst (cv_get k s i None v1) = Some (b64encode ct)" using set(7-9) by (auto simp: cv_get_entry)
  ultimately show "\<exists>v1 ct. set_secret now k p s i by v = (Inr (), v1) \<and> fst (ci_encrypt ci p (cv_env v)) = Inr ct \<and>
            fst (cv_get k s i None v1) = Some (b64encode ct) \<and>
            (\<exists>v2. resolve_secret isofmt now' uid k s i who v1 = (Inr p, v2) \<and>
               cv_audit v2 = cv_audit v1 @ [\<lparr>ae_entry_id = uid, ae_who = who, ae_action = ''resolve'', ae_resource = ''secret:'' @ k,
                                             ae_result = ''allowed'', ae_timestamp = now', ae_detail = []\<rparr>]) \<and>
            (\<forall>st e. cv_store v1 = Some st \<longrightarrow> fst (resolve_secret isofmt now' uid k s i who (new_vault snk (Some st) (Some ci) e)) = Inr p)"
    using set(1,2) by (rule_tac exI [of _ v1], rule_tac exI [of _ ct], intro conjI) blast+
  show "cv_find_secret k s i v = None \<longrightarrow>
            (\<exists>m v2. resolve_secret isofmt now' uid k s i who v = (Inl (KeyError m), v2) \<and>
               map ae_result (cv_audit v2) = map ae_result (cv_audit v) @ [''denied''])"
    using assms(1) by (simp add: resolve_secret_def record_denied_def cv_emit_def cv_put_audit_def) blast
qed

theorem secret_roundtrip_witness:
  "\<exists>v1. set_secret 0 ''token'' ''s3cret'' PLUGIN (Some ''p'') ''me'' (new_vault wired (Some (cst_open [] None)) (Some base64_cipher) ()) = (Inr (), v1) \<and>
     fst (resolve_secret (\<lambda>_. []) 1 ''u'' ''token'' PLUGIN (Some ''p'') ''who'' v1) = Inr ''s3cret''"
proof -
  let ?v = "new_vault wired (Some (cst_open [] None)) (Some base64_cipher) ()"
  have "cv_cipher ?v = Some base64_cipher" by (simp add: new_vault_def)
  from secret_roundtrip [OF this base64_cipher_ok, of 0 "''token''" "''s3cret''" PLUGIN "Some ''p''" "''me''" "\<lambda>_. []" 1 "''u''" "''who''"]
  show ?thesis by force
qed

text \<open>
  Deleting a secret's key does not delete the secret. After \<open>delete\<close> reports success, \<open>get\<close> no longer shows the key, but
  \<open>resolve_secret\<close> still returns the plaintext.
\<close>

theorem deleted_secret_resolves:
  fixes v :: "'e vault"
  assumes "cv_cipher v = Some ci" and "cipher_ok ci" and "set_secret now k p s i by v = (Inr (), v1)" and "vault_wf v1"
  shows "\<exists>v2. cv_delete now' wall k s i by v1 = (True, v2) \<and> fst (cv_get k s i None v2) = None \<and>
           (\<exists>v3. resolve_secret isofmt now'' uid k s i who v2 = (Inr p, v3))"
proof -
  obtain ct v1' sv where set: "set_secret now k p s i by v = (Inr (), v1')" "fst (ci_encrypt ci p (cv_env v)) = Inr ct"
      "\<forall>e1. \<exists>e2. ci_decrypt ci ct e1 = (Inr p, e2)" "dget (cv_secrets v1') (ckey k s i) = Some sv" "sv_ciphertext sv = ct" "cv_cipher v1' = Some ci"
      "entry_at k s i v1' \<noteq> None" "cf_value (the (entry_at k s i v1')) = b64encode ct" "\<not> cf_deleted (the (entry_at k s i v1'))"
      "dget (cv_config v1') (ckey k s i) \<noteq> None"
      "\<forall>st. cv_store v1' = Some st \<longrightarrow> (\<exists>sv'. cst_get_secret k s i st = Some sv' \<and> sv_ciphertext sv' = ct)"
    by (rule set_secret_effect [OF assms(1,2)])
  have v1': "v1' = v1" using set(1) assms(3) by simp
  obtain n where n: "dget (cv_config v1) (ckey k s i) = Some n" using set(10) v1' by blast
  with assms(4) have "n < length (cv_heap v1)" by (force simp: vault_wf_def dest: dget_Some_in)
  with n obtain v2 where v2: "cv_delete now' wall k s i by v1 = (True, v2)" "cv_secrets v2 = cv_secrets v1" "cv_cipher v2 = cv_cipher v1"
      "\<exists>e. entry_at k s i v2 = Some e \<and> cf_deleted e"
    by (rule cv_delete_cached)
  have "cv_find_secret k s i v2 = Some sv" using v2(2) set(4) v1' by (simp add: cv_find_secret_def)
  moreover have "cv_cipher v2 = Some ci" using v2(3) set(6) v1' by simp
  ultimately have "\<exists>v3. resolve_secret isofmt now'' uid k s i who v2 = (Inr p, v3)"
    using resolve_found [of v2 ci k s i sv p] set(3,5) by blast
  with v2 show ?thesis by (auto simp: cv_get_entry)
qed

lemma set_secret_wf:
  assumes "vault_wf v" and "set_secret now k p s i by v = (Inr (), v1)"
  shows "vault_wf v1"
proof -
  have "vault_wf (v\<lparr>cv_env := e, cv_secrets := x, cv_store := map_option (cst_put_secret sv) (cv_store v)\<rparr>)" for e x sv
    using assms(1) by (fastforce simp: vault_wf_def cst_put_secret_def cst_conn_write)
  then show ?thesis
    using assms(2) by (auto simp: set_secret_def store_secret_def Let_def vault_wf_put split: option.splits prod.splits sum.splits)
qed

theorem deleted_secret_resolves_witness:
  "\<exists>v1 v2. set_secret 0 ''token'' ''s3cret'' PLUGIN None ''me'' (new_vault wired None (Some base64_cipher) ()) = (Inr (), v1) \<and>
     cv_delete 1 1 ''token'' PLUGIN None ''me'' v1 = (True, v2) \<and> fst (resolve_secret (\<lambda>_. []) 2 ''u'' ''token'' PLUGIN None ''who'' v2) = Inr ''s3cret''"
proof -
  let ?v = "new_vault wired None (Some base64_cipher) ()"
  have ci: "cv_cipher ?v = Some base64_cipher" and wf: "vault_wf ?v" by (simp_all add: new_vault_def vault_wf_def)
  obtain ct v1 sv where set: "set_secret 0 ''token'' ''s3cret'' PLUGIN None ''me'' ?v = (Inr (), v1)"
    by (rule set_secret_effect [OF ci base64_cipher_ok])
  from deleted_secret_resolves [OF ci base64_cipher_ok set set_secret_wf [OF wf set], of 1 1 "\<lambda>_. []" 2 "''u''" "''who''"]
  show ?thesis using set by force
qed

text \<open>
  The textual keys run scope ids and keys together: with a colon in a scope id, one agent reads what another has stored.
\<close>

theorem colon_leaks:
  "fst (cv_get ''b:k'' AGENT (Some ''a'') None (snd (cv_set now ''k'' val AGENT (Some ''a:b'') by v))) = Some val"
proof -
  have "ckey ''b:k'' AGENT (Some ''a'') = ckey ''k'' AGENT (Some ''a:b'')" by (simp add: ckey_def or_str_def)
  then show ?thesis by (simp add: cv_get_def cv_find_def cv_set_def cv_emit_def cv_put_def Let_def split: prod.splits)
qed

end
