(* ===== verification/Knowledge.thy ===== *)
theory Knowledge
  imports Events Interfaces
begin

text \<open>
  The semantic graph: \<open>kernel/knowledge_graph.py\<close>, \<open>kernel/graph_store.py\<close> and \<open>kernel/semantic_graph.py\<close>.

  \<^item> Graph objects are shared between the engine and its store; \<open>ke_graphs\<close> holds them, \<open>gst_mem\<close> lists the ids in the store's memory.
  \<^item> Entities and relations are values, each in the graph it was added to. The kernel constructs every entity and
    relation for one graph (\<open>AgentRuntime.remember\<close>, \<open>run_inference\<close>, \<open>_load_all\<close>). An outside caller that adds one
    \<open>Relation\<close> object to two graphs would see \<open>merge_entities\<close> in one of them redirect it in the other too;
    such calls are not modelled.
  \<^item> The clock is read once per operation (\<open>now\<close>); fresh ids come from the supply \<open>uid\<close>, counted by \<open>ke_next\<close>.
  \<^item> The loop of \<open>find_path\<close> is \<open>bfs\<close>, a total function; the walk back along the predecessors is a partial function, and it is proved to end.
  \<^item> The embedding function is a parameter; scores are real numbers.
\<close>

section \<open>Data\<close>

datatype entity_type = PERSON | ORG | CONCEPT | EVENT | DOCUMENT | CUSTOM

fun entity_type_value :: "entity_type \<Rightarrow> string" where
  "entity_type_value PERSON = ''person''" | "entity_type_value ORG = ''org''" | "entity_type_value CONCEPT = ''concept''"
| "entity_type_value EVENT = ''event''" | "entity_type_value DOCUMENT = ''document''" | "entity_type_value CUSTOM = ''custom''"

datatype relation_type = KNOWS | PART_OF | CAUSES | DEPENDS_ON | SIMILAR_TO | DERIVED_FROM

fun relation_type_value :: "relation_type \<Rightarrow> string" where
  "relation_type_value KNOWS = ''knows''" | "relation_type_value PART_OF = ''part_of''" | "relation_type_value CAUSES = ''causes''"
| "relation_type_value DEPENDS_ON = ''depends_on''" | "relation_type_value SIMILAR_TO = ''similar_to''" | "relation_type_value DERIVED_FROM = ''derived_from''"

definition relation_types :: "relation_type list" where
  "relation_types = [KNOWS, PART_OF, CAUSES, DEPENDS_ON, SIMILAR_TO, DERIVED_FROM]"

record entity =
  en_id :: string
  en_name :: string
  en_type :: entity_type
  en_properties :: pydict
  en_source :: string
  en_confidence :: rat

record relation =
  re_id :: string
  re_source :: string
  re_target :: string
  re_type :: relation_type
  re_weight :: rat
  re_bidirectional :: bool

record kgraph =
  kg_id :: string
  kg_name :: string
  kg_entities :: "(string, entity) dict"
  kg_relations :: "(string, relation) dict"
  kg_version :: int
  kg_updated_at :: datetime

record rule =
  ru_id :: string
  ru_source_type :: "string option"
  ru_relation :: "string option"
  ru_target_type :: "string option"
  ru_action :: string
  ru_priority :: int
  ru_enabled :: bool

record query_result =
  qr_query_id :: string
  qr_entities :: "string list"
  qr_relations :: "string list"
  qr_inferred :: "string list"

record graph_db =
  gdb_graphs :: "(string, kgraph) dict"
  gdb_entities :: "(string, string \<times> entity) dict"
  gdb_relations :: "(string, string \<times> relation) dict"

record graph_store =
  gst_mem :: "string list"
  gst_db :: "graph_db option"

record kengine =
  ke_sink :: sink
  ke_graphs :: "(string, kgraph) dict"
  ke_store :: "graph_store option"
  ke_next :: nat

section \<open>The store\<close>

definition gst_put :: "kgraph \<Rightarrow> graph_store \<Rightarrow> graph_store" where
  "gst_put g st =
     st\<lparr>gst_mem := (if kg_id g \<in> set (gst_mem st) then gst_mem st else gst_mem st @ [kg_id g]),
        gst_db := map_option (\<lambda>d.
          d\<lparr>gdb_graphs := row_replace (kg_id g) g (gdb_graphs d),
            gdb_entities := fold (\<lambda>e. row_replace (en_id e) (kg_id g, e)) (dvals (kg_entities g)) (gdb_entities d),
            gdb_relations := fold (\<lambda>r. row_replace (re_id r) (kg_id g, r)) (dvals (kg_relations g)) (gdb_relations d)\<rparr>) (gst_db st)\<rparr>"

definition gst_delete :: "string \<Rightarrow> graph_store \<Rightarrow> bool \<times> graph_store" where
  "gst_delete gid st =
     (if gid \<notin> set (gst_mem st) then (False, st)
      else (True, st\<lparr>gst_mem := filter ((\<noteq>) gid) (gst_mem st),
                     gst_db := map_option (\<lambda>d. d\<lparr>gdb_graphs := ddel gid (gdb_graphs d),
                                                gdb_entities := filter (\<lambda>(_, (g, _)). g \<noteq> gid) (gdb_entities d),
                                                gdb_relations := filter (\<lambda>(_, (g, _)). g \<noteq> gid) (gdb_relations d)\<rparr>) (gst_db st)\<rparr>))"

text \<open>\<open>_load_all\<close>: the graphs of the database, then the rows of the two other tables put into them.\<close>

definition load_entity :: "string \<times> entity \<Rightarrow> (string, kgraph) dict \<Rightarrow> (string, kgraph) dict" where
  "load_entity row gs =
     (case dget gs (fst row) of None \<Rightarrow> gs | Some g \<Rightarrow> dset (fst row) (g\<lparr>kg_entities := dset (en_id (snd row)) (snd row) (kg_entities g)\<rparr>) gs)"

definition load_relation :: "string \<times> relation \<Rightarrow> (string, kgraph) dict \<Rightarrow> (string, kgraph) dict" where
  "load_relation row gs =
     (case dget gs (fst row) of None \<Rightarrow> gs | Some g \<Rightarrow> dset (fst row) (g\<lparr>kg_relations := dset (re_id (snd row)) (snd row) (kg_relations g)\<rparr>) gs)"

definition load_graphs :: "graph_db \<Rightarrow> (string, kgraph) dict" where
  "load_graphs d =
     fold load_relation (dvals (gdb_relations d)) (fold load_entity (dvals (gdb_entities d)) (fold (\<lambda>g. dset (kg_id g) g) (dvals (gdb_graphs d)) []))"

definition open_engine :: "sink \<Rightarrow> graph_db option option \<Rightarrow> nat \<Rightarrow> kengine" where
  "open_engine snk store n =
     (case store of
        None \<Rightarrow> \<lparr>ke_sink = snk, ke_graphs = [], ke_store = None, ke_next = n\<rparr>
      | Some None \<Rightarrow> \<lparr>ke_sink = snk, ke_graphs = [], ke_store = Some \<lparr>gst_mem = [], gst_db = None\<rparr>, ke_next = n\<rparr>
      | Some (Some d) \<Rightarrow>
          \<lparr>ke_sink = snk, ke_graphs = load_graphs d, ke_store = Some \<lparr>gst_mem = dkeys (load_graphs d), gst_db = Some d\<rparr>, ke_next = n\<rparr>)"

section \<open>Graphs, entities and relations\<close>

definition ke_emit :: "kg_event \<Rightarrow> kengine \<Rightarrow> kengine" where
  "ke_emit e k = k\<lparr>ke_sink := emit (KgEv e) (ke_sink k)\<rparr>"

definition ke_write :: "kgraph \<Rightarrow> kengine \<Rightarrow> kengine" where
  "ke_write g k = k\<lparr>ke_graphs := dset (kg_id g) g (ke_graphs k)\<rparr>"

definition ke_persist :: "kgraph \<Rightarrow> kengine \<Rightarrow> kengine" where
  "ke_persist g k = k\<lparr>ke_store := map_option (gst_put g) (ke_store k)\<rparr>"

definition ke_fresh :: "(nat \<Rightarrow> string) \<Rightarrow> kengine \<Rightarrow> string \<times> kengine" where
  "ke_fresh uid k = (uid (ke_next k), k\<lparr>ke_next := ke_next k + 1\<rparr>)"

definition create_graph :: "(nat \<Rightarrow> string) \<Rightarrow> datetime \<Rightarrow> string \<Rightarrow> kengine \<Rightarrow> kgraph \<times> kengine" where
  "create_graph uid now name k =
     (let (gid, k1) = ke_fresh uid k;
          g = \<lparr>kg_id = gid, kg_name = name, kg_entities = [], kg_relations = [], kg_version = 1, kg_updated_at = now\<rparr>
      in (g, ke_persist g (ke_write g k1)))"

definition delete_graph :: "string \<Rightarrow> kengine \<Rightarrow> bool \<times> kengine" where
  "delete_graph gid k =
     (case dget (ke_graphs k) gid of
        None \<Rightarrow> (False, k)
      | Some _ \<Rightarrow> (True, k\<lparr>ke_store := map_option (\<lambda>st. snd (gst_delete gid st)) (ke_store k), ke_graphs := ddel gid (ke_graphs k)\<rparr>))"

definition touch :: "datetime \<Rightarrow> kgraph \<Rightarrow> kgraph" where
  "touch now g = g\<lparr>kg_updated_at := now, kg_version := kg_version g + 1\<rparr>"

fun same_name :: "string \<Rightarrow> entity list \<Rightarrow> entity option" where
  "same_name n [] = None"
| "same_name n (e # es) = (if lower (en_name e) = lower n then Some e else same_name n es)"

definition absorb :: "entity \<Rightarrow> entity \<Rightarrow> entity" where
  "absorb e d = e\<lparr>en_properties := dupdate (en_properties e) (en_properties d), en_confidence := max (en_confidence e) (en_confidence d)\<rparr>"

text \<open>\<open>existing\<close> is the object under its key in \<open>entities\<close>; entities are kept under their ids.\<close>

definition add_entity :: "datetime \<Rightarrow> string \<Rightarrow> entity \<Rightarrow> kengine \<Rightarrow> (entity, kengine) res" where
  "add_entity now gid e k =
     (case dget (ke_graphs k) gid of
        None \<Rightarrow> (Inl (KeyError gid), k)
      | Some g \<Rightarrow>
          (case same_name (en_name e) (dvals (kg_entities g)) of
             Some x \<Rightarrow>
               (let x' = (absorb x e)\<lparr>en_source := (if en_source e = [] then en_source x else en_source e)\<rparr>;
                    g' = touch now (g\<lparr>kg_entities := dset (en_id x) x' (kg_entities g)\<rparr>)
                in (Inr x', ke_emit (GraphUpdated gid (kg_version g') (''merge:'' @ en_id x)) (ke_persist g' (ke_write g' k))))
           | None \<Rightarrow>
               (let g' = touch now (g\<lparr>kg_entities := dset (en_id e) e (kg_entities g)\<rparr>)
                in (Inr e, ke_emit (GraphUpdated gid (kg_version g') (''add_entity:'' @ en_id e))
                     (ke_emit (EntityDiscovered gid (en_id e) (en_name e) (entity_type_value (en_type e)) (en_source e) (en_confidence e))
                       (ke_persist g' (ke_write g' k)))))))"

definition get_entity :: "string \<Rightarrow> string \<Rightarrow> kengine \<Rightarrow> entity option" where
  "get_entity gid eid k = (case dget (ke_graphs k) gid of None \<Rightarrow> None | Some g \<Rightarrow> dget (kg_entities g) eid)"

definition add_relation :: "datetime \<Rightarrow> string \<Rightarrow> relation \<Rightarrow> kengine \<Rightarrow> (relation, kengine) res" where
  "add_relation now gid r k =
     (case dget (ke_graphs k) gid of
        None \<Rightarrow> (Inl (KeyError gid), k)
      | Some g \<Rightarrow>
          if dget (kg_entities g) (re_source r) = None \<or> dget (kg_entities g) (re_target r) = None
          then (Inl (ValueError (''relation endpoints missing in graph '' @ gid)), k)
          else
            (let g' = touch now (g\<lparr>kg_relations := dset (re_id r) r (kg_relations g)\<rparr>)
             in (Inr r, ke_emit (GraphUpdated gid (kg_version g') (''add_relation:'' @ re_id r))
                  (ke_emit (RelationCreated gid (re_id r) (re_source r) (re_target r) (relation_type_value (re_type r)) (re_weight r))
                    (ke_persist g' (ke_write g' k))))))"

section \<open>Traversal\<close>

definition other_end :: "relation \<Rightarrow> string \<Rightarrow> string" where
  "other_end r cur = (if re_source r = cur then re_target r else re_source r)"

definition get_neighbors :: "string \<Rightarrow> string \<Rightarrow> relation_type option \<Rightarrow> kengine \<Rightarrow> (entity \<times> relation) list" where
  "get_neighbors gid eid rt k =
     (case dget (ke_graphs k) gid of
        None \<Rightarrow> []
      | Some g \<Rightarrow>
          if dget (kg_entities g) eid = None then []
          else
            List.map_filter
              (\<lambda>r. if (re_source r = eid \<or> re_bidirectional r \<and> re_target r = eid) \<and> (case rt of None \<Rightarrow> True | Some t \<Rightarrow> re_type r = t)
                   then map_option (\<lambda>e. (e, r)) (dget (kg_entities g) (other_end r eid)) else None)
              (dvals (kg_relations g)))"

text \<open>The relations filed under a node by the loop that builds \<open>adj\<close>, in its order.\<close>

definition adj :: "kgraph \<Rightarrow> string \<Rightarrow> relation list" where
  "adj g cur =
     concat (map (\<lambda>r. (if re_source r = cur then [r] else []) @ (if re_bidirectional r \<and> re_target r = cur then [r] else []))
       (dvals (kg_relations g)))"

type_synonym preds = "(string, string \<times> relation) dict"

fun expand :: "string \<Rightarrow> relation list \<Rightarrow> string list \<times> string list \<times> preds \<Rightarrow> string list \<times> string list \<times> preds" where
  "expand cur [] st = st"
| "expand cur (r # rs) (queue, seen, prev) =
     (let nxt = other_end r cur
      in if nxt \<in> set seen then expand cur rs (queue, seen, prev)
         else expand cur rs (queue @ [nxt], nxt # seen, dset nxt (cur, r) prev))"

definition graph_nodes :: "kgraph \<Rightarrow> string set" where
  "graph_nodes g = re_source ` set (dvals (kg_relations g)) \<union> re_target ` set (dvals (kg_relations g))"

lemma expand_measure:
  assumes "finite N" and "\<forall>r \<in> set rs. other_end r cur \<in> N" and "expand cur rs (queue, seen, prev) = (queue', seen', prev')"
  shows "card (N - set seen') + length queue' = card (N - set seen) + length queue"
  using assms(2,3)
proof (induction rs arbitrary: queue seen prev)
  case (Cons r rs)
  let ?n = "other_end r cur"
  show ?case
  proof (cases "?n \<in> set seen")
    case True
    with Cons show ?thesis by (simp add: Let_def)
  next
    case False
    have "card (N - set (?n # seen)) + length (queue @ [?n]) = card (N - set seen) + length queue"
    proof -
      have "N - set (?n # seen) = (N - set seen) - {?n}" by auto
      moreover have "?n \<in> N - set seen" using Cons.prems False by simp
      ultimately show ?thesis using card_Suc_Diff1 [of "N - set seen" ?n] assms(1) by simp
    qed
    with Cons.IH [of "queue @ [?n]" "?n # seen" "dset ?n (cur, r) prev"] Cons.prems False show ?thesis by (simp add: Let_def)
  qed
qed simp

lemma adj_nodes: "r \<in> set (adj g cur) \<Longrightarrow> r \<in> set (dvals (kg_relations g)) \<and> other_end r cur \<in> graph_nodes g"
  by (auto simp: adj_def graph_nodes_def other_end_def split: if_splits)

function bfs :: "kgraph \<Rightarrow> string \<Rightarrow> string list \<times> string list \<times> preds \<Rightarrow> preds" where
  "bfs g to ([], seen, prev) = prev"
| "bfs g to (cur # queue, seen, prev) = (if cur = to then prev else bfs g to (expand cur (adj g cur) (queue, seen, prev)))"
  by pat_completeness auto

termination
proof (relation "measure (\<lambda>(g, to, queue, seen, prev). card (graph_nodes g - set seen) + length queue)", goal_cases)
  case (2 g to cur queue seen prev)
  obtain queue' seen' prev' where e: "expand cur (adj g cur) (queue, seen, prev) = (queue', seen', prev')" by (metis prod_cases3)
  have "card (graph_nodes g - set seen') + length queue' = card (graph_nodes g - set seen) + length queue"
    by (rule expand_measure [OF _ _ e]) (auto simp: graph_nodes_def dest: adj_nodes)
  with e show ?case by simp
qed simp

text \<open>Following the predecessors back; \<open>acc\<close> is the path so far, already in order.\<close>

partial_function (option) trace_back :: "preds \<Rightarrow> string \<Rightarrow> string \<Rightarrow> relation list \<Rightarrow> (exn + relation list) option" where
  "trace_back prev from_id node acc =
     (if node = from_id then Some (Inr acc)
      else (case dget prev node of None \<Rightarrow> Some (Inl (KeyError node)) | Some (p, r) \<Rightarrow> trace_back prev from_id p (r # acc)))"

text \<open>\<open>max_depth\<close> is a parameter the code does not use.\<close>

definition find_path :: "string \<Rightarrow> string \<Rightarrow> string \<Rightarrow> int \<Rightarrow> kengine \<Rightarrow> (exn + relation list option) option" where
  "find_path gid from_id to_id max_depth k =
     (case dget (ke_graphs k) gid of
        None \<Rightarrow> Some (Inr None)
      | Some g \<Rightarrow>
          if dget (kg_entities g) from_id = None \<or> dget (kg_entities g) to_id = None then Some (Inr None)
          else
            (let prev = bfs g to_id ([from_id], [from_id], [])
             in if dget prev to_id = None \<and> from_id \<noteq> to_id then Some (Inr None)
                else map_option (map_sum id Some) (trace_back prev from_id to_id [])))"

section \<open>Merging\<close>

definition redirect :: "string \<Rightarrow> string \<Rightarrow> relation \<Rightarrow> relation" where
  "redirect cid dup r =
     r\<lparr>re_source := (if re_source r = dup then cid else re_source r), re_target := (if re_target r = dup then cid else re_target r)\<rparr>"

definition merge_one :: "string \<Rightarrow> string \<Rightarrow> kgraph \<times> string list \<Rightarrow> kgraph \<times> string list" where
  "merge_one cid dup gm =
     (case (dget (kg_entities (fst gm)) cid, dget (kg_entities (fst gm)) dup) of
        (Some c, Some d) \<Rightarrow>
          if dup = cid then gm
          else ((fst gm)\<lparr>kg_entities := ddel dup (dset cid (absorb c d) (kg_entities (fst gm))),
                         kg_relations := map (\<lambda>(i, r). (i, redirect cid dup r)) (kg_relations (fst gm))\<rparr>, snd gm @ [dup])
      | _ \<Rightarrow> gm)"

definition merge_entities :: "datetime \<Rightarrow> string \<Rightarrow> string \<Rightarrow> string list \<Rightarrow> kengine \<Rightarrow> (entity, kengine) res" where
  "merge_entities now gid cid dups k =
     (case dget (ke_graphs k) gid of
        None \<Rightarrow> (Inl (KeyError gid), k)
      | Some g \<Rightarrow>
          (case dget (kg_entities g) cid of
             None \<Rightarrow> (Inl (KeyError cid), k)
           | Some c \<Rightarrow>
               (let (g1, merged) = fold (merge_one cid) dups (g, []);
                    g2 = touch now g1;
                    c' = (case dget (kg_entities g1) cid of None \<Rightarrow> c | Some x \<Rightarrow> x)
                in if merged = [] then (Inr c', k)
                   else (Inr c', ke_emit (GraphUpdated gid (kg_version g2) (''merge:'' @ cid))
                          (ke_emit (EntityMerged gid cid merged ''duplicate'') (ke_persist g2 (ke_write g2 k)))))))"

section \<open>Inference\<close>

definition wants :: "string option \<Rightarrow> string \<Rightarrow> bool" where
  "wants p v \<longleftrightarrow> (case p of None \<Rightarrow> True | Some s \<Rightarrow> s = [] \<or> v = s)"

definition match_pair :: "kgraph \<Rightarrow> rule \<Rightarrow> entity \<Rightarrow> relation \<Rightarrow> (string \<times> string) option" where
  "match_pair g ru src rel =
     (if re_source rel \<noteq> en_id src \<or> \<not> wants (ru_relation ru) (relation_type_value (re_type rel)) then None
      else (case dget (kg_entities g) (re_target rel) of
              None \<Rightarrow> None
            | Some tgt \<Rightarrow> if wants (ru_target_type ru) (entity_type_value (en_type tgt)) then Some (en_id src, en_id tgt) else None))"

definition match_rule :: "kgraph \<Rightarrow> rule \<Rightarrow> (string \<times> string) list" where
  "match_rule g ru =
     concat (map (\<lambda>src. if \<not> wants (ru_source_type ru) (entity_type_value (en_type src)) then []
                        else List.map_filter (match_pair g ru src) (dvals (kg_relations g))) (dvals (kg_entities g)))"

definition linked :: "kgraph \<Rightarrow> string \<Rightarrow> string \<Rightarrow> bool" where
  "linked g a b \<longleftrightarrow> (\<exists>r \<in> set (dvals (kg_relations g)). re_type r = SIMILAR_TO \<and> {re_source r, re_target r} = {a, b})"

fun link_pairs :: "(nat \<Rightarrow> string) \<Rightarrow> string \<Rightarrow> (string \<times> string) list \<Rightarrow> kengine \<Rightarrow> string list \<times> kengine" where
  "link_pairs uid gid [] k = ([], k)"
| "link_pairs uid gid ((a, b) # ps) k =
     (case dget (ke_graphs k) gid of
        None \<Rightarrow> ([], k)
      | Some g \<Rightarrow>
          if linked g a b then link_pairs uid gid ps k
          else
            (let (rid, k1) = ke_fresh uid k;
                 rel = \<lparr>re_id = rid, re_source = a, re_target = b, re_type = SIMILAR_TO, re_weight = 1, re_bidirectional = False\<rparr>;
                 (ids, k2) = link_pairs uid gid ps
                   (ke_emit (RelationCreated gid rid a b (relation_type_value SIMILAR_TO) 1)
                     (ke_write (g\<lparr>kg_relations := dset rid rel (kg_relations g)\<rparr>) k1))
             in (rid # ids, k2)))"

fun merge_pairs :: "datetime \<Rightarrow> string \<Rightarrow> (string \<times> string) list \<Rightarrow> kengine \<Rightarrow> (string list, kengine) res" where
  "merge_pairs now gid [] k = (Inr [], k)"
| "merge_pairs now gid ((a, b) # ps) k =
     (case merge_entities now gid a [b] k of
        (Inl x, k1) \<Rightarrow> (Inl x, k1)
      | (Inr c, k1) \<Rightarrow>
          (case merge_pairs now gid ps k1 of
             (Inl x, k2) \<Rightarrow> (Inl x, k2)
           | (Inr ids, k2) \<Rightarrow> (Inr (en_id c # ids), k2)))"

text \<open>The end of a rule's turn: the graph is stamped and saved, and the result gets two fresh ids.\<close>

definition rule_done :: "(nat \<Rightarrow> string) \<Rightarrow> datetime \<Rightarrow> string \<Rightarrow> rule \<Rightarrow> (string \<times> string) list \<Rightarrow> string list \<Rightarrow> kengine \<Rightarrow> query_result option \<times> kengine" where
  "rule_done uid now gid ru matched ids k =
     (case dget (ke_graphs k) gid of
        None \<Rightarrow> (None, k)
      | Some g \<Rightarrow>
          (let g' = g\<lparr>kg_updated_at := now\<rparr>;
               k1 = ke_emit (InferenceFired gid (ru_id ru) (concat (map (\<lambda>(a, b). [a, b]) matched)) (ru_action ru)) (ke_persist g' (ke_write g' k));
               (rid, k2) = ke_fresh uid k1;
               (qid, k3) = ke_fresh uid k2
           in (Some \<lparr>qr_query_id = qid, qr_entities = [], qr_relations = [], qr_inferred = ids\<rparr>, k3)))"

definition fire_rule :: "(nat \<Rightarrow> string) \<Rightarrow> datetime \<Rightarrow> string \<Rightarrow> rule \<Rightarrow> kengine \<Rightarrow> (query_result option, kengine) res" where
  "fire_rule uid now gid ru k =
     (case dget (ke_graphs k) gid of
        None \<Rightarrow> (Inr None, k)
      | Some g \<Rightarrow>
          (let matched = match_rule g ru
           in if matched = [] then (Inr None, k)
              else if ru_action ru = ''create_relation'' then
                (let (ids, k1) = link_pairs uid gid matched k in apfst Inr (rule_done uid now gid ru matched ids k1))
              else if ru_action ru = ''merge_entities'' then
                (case merge_pairs now gid matched k of
                   (Inl x, k1) \<Rightarrow> (Inl x, k1)
                 | (Inr ids, k1) \<Rightarrow> apfst Inr (rule_done uid now gid ru matched ids k1))
              else apfst Inr (rule_done uid now gid ru matched [] k)))"

fun fire_rules :: "(nat \<Rightarrow> string) \<Rightarrow> datetime \<Rightarrow> string \<Rightarrow> rule list \<Rightarrow> kengine \<Rightarrow> (query_result list, kengine) res" where
  "fire_rules uid now gid [] k = (Inr [], k)"
| "fire_rules uid now gid (ru # rus) k =
     (case fire_rule uid now gid ru k of
        (Inl x, k1) \<Rightarrow> (Inl x, k1)
      | (Inr qo, k1) \<Rightarrow>
          (case fire_rules uid now gid rus k1 of
             (Inl x, k2) \<Rightarrow> (Inl x, k2)
           | (Inr qs, k2) \<Rightarrow> (Inr ((case qo of None \<Rightarrow> [] | Some q \<Rightarrow> [q]) @ qs), k2)))"

definition relation_count :: "string \<Rightarrow> kengine \<Rightarrow> nat" where
  "relation_count gid k = (case dget (ke_graphs k) gid of None \<Rightarrow> 0 | Some g \<Rightarrow> length (kg_relations g))"

fun infer_loop :: "(nat \<Rightarrow> string) \<Rightarrow> datetime \<Rightarrow> string \<Rightarrow> rule list \<Rightarrow> nat \<Rightarrow> kengine \<Rightarrow> (query_result list, kengine) res" where
  "infer_loop uid now gid active 0 k = (Inr [], k)"
| "infer_loop uid now gid active (Suc n) k =
     (case fire_rules uid now gid active k of
        (Inl x, k1) \<Rightarrow> (Inl x, k1)
      | (Inr qs, k1) \<Rightarrow>
          if relation_count gid k1 = relation_count gid k then (Inr qs, k1)
          else (case infer_loop uid now gid active n k1 of
                  (Inl x, k2) \<Rightarrow> (Inl x, k2)
                | (Inr qs', k2) \<Rightarrow> (Inr (qs @ qs'), k2)))"

definition run_inference :: "(nat \<Rightarrow> string) \<Rightarrow> datetime \<Rightarrow> string \<Rightarrow> rule list \<Rightarrow> int \<Rightarrow> kengine \<Rightarrow> (query_result list, kengine) res" where
  "run_inference uid now gid rules max_iterations k =
     (case dget (ke_graphs k) gid of
        None \<Rightarrow> (Inr [], k)
      | Some _ \<Rightarrow> infer_loop uid now gid (sort_key (\<lambda>r. - ru_priority r) (filter ru_enabled rules)) (nat (max max_iterations 1)) k)"

section \<open>Queries\<close>

definition cosine :: "real list \<Rightarrow> real list \<Rightarrow> real" where
  "cosine a b =
     (if a = [] \<or> b = [] then 0
      else
        (let dot = sum_list (map (\<lambda>(x, y). x * y) (zip a b));
             na = sqrt (sum_list (map (\<lambda>x. x * x) a));
             nb = sqrt (sum_list (map (\<lambda>y. y * y) b))
         in if na = 0 \<or> nb = 0 then 0 else dot / (na * nb)))"

definition jaccard :: "string \<Rightarrow> string \<Rightarrow> real" where
  "jaccard a b =
     (let ta = set (split_ws (lower a)); tb = set (split_ws (lower b))
      in if ta = {} \<or> tb = {} then 0 else real (card (ta \<inter> tb)) / real (card (ta \<union> tb)))"

definition similar :: "(string \<Rightarrow> real list) option \<Rightarrow> string \<Rightarrow> string \<Rightarrow> int \<Rightarrow> kengine \<Rightarrow> (string \<times> real) list" where
  "similar emb gid target limit k =
     (case dget (ke_graphs k) gid of
        None \<Rightarrow> []
      | Some g \<Rightarrow>
          head_slice limit
            (sort_key (\<lambda>x. - snd x)
              (map (\<lambda>e. (en_id e, case emb of Some f \<Rightarrow> cosine (f target) (f (en_name e)) | None \<Rightarrow> jaccard target (en_name e)))
                (dvals (kg_entities g)))))"

text \<open>
  The parameters each query type reads from its dictionary; \<open>None\<close> is a missing key. The last case
  is any other type, which finds nothing.
\<close>

datatype query_kind =
    EntityByName "string option"
  | Neighbors "string option" "string option"
  | PathBetween "string option" "string option" int
  | Similar "string option" "string option"
  | Inference "rule list"
  | OtherQuery string

fun query_type :: "query_kind \<Rightarrow> string" where
  "query_type (EntityByName n) = ''entity_by_name''"
| "query_type (Neighbors e r) = ''neighbors''"
| "query_type (PathBetween f t d) = ''path''"
| "query_type (Similar n e) = ''similar''"
| "query_type (Inference rs) = ''inference''"
| "query_type (OtherQuery s) = s"

record graph_query =
  gq_id :: string
  gq_kind :: query_kind
  gq_limit :: int

definition relation_type_of :: "string \<Rightarrow> exn + relation_type" where
  "relation_type_of s =
     (case find (\<lambda>t. relation_type_value t = s) relation_types of
        Some t \<Rightarrow> Inr t | None \<Rightarrow> Inl (ValueError (quoted s @ '' is not a valid RelationType'')))"

fun answer :: "(nat \<Rightarrow> string) \<Rightarrow> (string \<Rightarrow> real list) option \<Rightarrow> datetime \<Rightarrow> string \<Rightarrow> graph_query \<Rightarrow> query_kind \<Rightarrow> kengine \<Rightarrow>
    (string list \<times> string list \<times> string list, kengine) res option" where
  "answer uid emb now gid q (EntityByName n) k =
     Some (Inr (case dget (ke_graphs k) gid of
                  None \<Rightarrow> []
                | Some g \<Rightarrow> map en_id (filter (\<lambda>e. contains (lower (or_str n [])) (lower (en_name e))) (dvals (kg_entities g))), [], []), k)"
| "answer uid emb now gid q (Neighbors e r) k =
     Some (case (case r of None \<Rightarrow> Inr None | Some s \<Rightarrow> if s = [] then Inr None else map_sum id Some (relation_type_of s)) of
             Inl x \<Rightarrow> (Inl x, k)
           | Inr rt \<Rightarrow> (Inr (case e of None \<Rightarrow> [] | Some eid \<Rightarrow> map (en_id \<circ> fst) (get_neighbors gid eid rt k), [], []), k))"
| "answer uid emb now gid q (PathBetween f t d) k =
     (case (f, t) of
        (Some a, Some b) \<Rightarrow>
          (case find_path gid a b d k of
             None \<Rightarrow> None
           | Some (Inl x) \<Rightarrow> Some (Inl x, k)
           | Some (Inr po) \<Rightarrow> Some (Inr ([], case po of None \<Rightarrow> [] | Some p \<Rightarrow> map re_id p, []), k))
      | _ \<Rightarrow> Some (Inr ([], [], []), k))"
| "answer uid emb now gid q (Similar n e) k =
     Some (Inr (map fst (similar emb gid (or_str n (or_str e [])) (gq_limit q) k), [], []), k)"
| "answer uid emb now gid q (Inference rules) k =
     Some (case run_inference uid now gid rules 3 k of
             (Inl x, k1) \<Rightarrow> (Inl x, k1)
           | (Inr res, k1) \<Rightarrow> (Inr (concat (map qr_entities res), concat (map qr_relations res), concat (map qr_inferred res)), k1))"
| "answer uid emb now gid q (OtherQuery s) k = Some (Inr ([], [], []), k)"

definition query :: "(nat \<Rightarrow> string) \<Rightarrow> (string \<Rightarrow> real list) option \<Rightarrow> datetime \<Rightarrow> datetime \<Rightarrow> string \<Rightarrow> graph_query \<Rightarrow> kengine \<Rightarrow>
    (query_result, kengine) res option" where
  "query uid emb start fin gid q k =
     (case answer uid emb start gid q (gq_kind q) k of
        None \<Rightarrow> None
      | Some (Inl x, k1) \<Rightarrow> Some (Inl x, k1)
      | Some (Inr (es, rs, ids), k1) \<Rightarrow>
          (let (rid, k2) = ke_fresh uid k1
           in Some (Inr \<lparr>qr_query_id = gq_id q, qr_entities = head_slice (gq_limit q) es, qr_relations = rs, qr_inferred = ids\<rparr>,
                    ke_emit (QueryExecuted (gq_id q) gid (query_type (gq_kind q)) (int (length es) + int (length rs)) (millis start fin)) k2)))"

section \<open>Shortest paths\<close>

text \<open>A walk along relations, each taken forwards, or backwards when it is bidirectional.\<close>

fun walk :: "kgraph \<Rightarrow> string \<Rightarrow> relation list \<Rightarrow> string \<Rightarrow> bool" where
  "walk g u [] v \<longleftrightarrow> u = v"
| "walk g u (r # rs) v \<longleftrightarrow>
     r \<in> set (dvals (kg_relations g)) \<and> (re_source r = u \<or> re_bidirectional r \<and> re_target r = u) \<and> walk g (other_end r u) rs v"

lemma adj_iff: "r \<in> set (adj g u) \<longleftrightarrow> r \<in> set (dvals (kg_relations g)) \<and> (re_source r = u \<or> re_bidirectional r \<and> re_target r = u)"
  by (auto simp: adj_def split: if_splits)

lemma walk_snoc: "walk g u (p @ [r]) v \<longleftrightarrow> (\<exists>w. walk g u p w \<and> r \<in> set (adj g w) \<and> other_end r w = v)"
  by (induction p arbitrary: u) (auto simp: adj_iff)

text \<open>
  The labels \<open>d\<close> of the nodes seen so far: every node but the start hangs off its predecessor, one
  level below it.
\<close>

definition labelled :: "kgraph \<Rightarrow> string \<Rightarrow> (string \<Rightarrow> nat) \<Rightarrow> string list \<Rightarrow> preds \<Rightarrow> bool" where
  "labelled g a d seen prev \<longleftrightarrow>
     a \<in> set seen \<and> d a = 0 \<and>
     (\<forall>v. dget prev v \<noteq> None \<longrightarrow> v \<in> set seen) \<and>
     (\<forall>v \<in> set seen. v \<noteq> a \<longrightarrow>
        (\<exists>u r. dget prev v = Some (u, r) \<and> u \<in> set seen \<and> r \<in> set (adj g u) \<and> other_end r u = v \<and> d v = d u + 1))"

text \<open>The queue is sorted by level; of the nodes seen, those neither queued nor in \<open>X\<close> have all their neighbours seen.\<close>

definition frontier :: "kgraph \<Rightarrow> (string \<Rightarrow> nat) \<Rightarrow> string set \<Rightarrow> string list \<Rightarrow> string list \<Rightarrow> bool" where
  "frontier g d X queue seen \<longleftrightarrow>
     distinct queue \<and> set queue \<subseteq> set seen \<and> sorted (map d queue) \<and>
     (\<forall>u \<in> set seen - set queue - X. \<forall>r \<in> set (adj g u). other_end r u \<in> set seen \<and> d (other_end r u) \<le> d u + 1)"

lemma labelled_add:
  assumes "labelled g a d seen prev" and "cur \<in> set seen" and "r \<in> set (adj g cur)" and "other_end r cur \<notin> set seen"
  shows "labelled g a (d(other_end r cur := d cur + 1)) (other_end r cur # seen) (dset (other_end r cur) (cur, r) prev)"
proof -
  let ?n = "other_end r cur" and ?d = "d(other_end r cur := d cur + 1)"
  have "\<exists>u s. dget (dset ?n (cur, r) prev) v = Some (u, s) \<and> u \<in> set (?n # seen) \<and> s \<in> set (adj g u) \<and> other_end s u = v \<and> ?d v = ?d u + 1"
    if v: "v \<in> set (?n # seen)" "v \<noteq> a" for v
  proof (cases "v = ?n")
    case True
    then show ?thesis using assms by (auto simp: update_conv')
  next
    case False
    with v have "v \<in> set seen" by simp
    with v assms(1) obtain u s where "dget prev v = Some (u, s)" "u \<in> set seen" "s \<in> set (adj g u)" "other_end s u = v" "d v = d u + 1"
      unfolding labelled_def by blast
    moreover have "u \<noteq> ?n" using \<open>u \<in> set seen\<close> assms(4) by auto
    ultimately show ?thesis using False by (auto simp: update_conv')
  qed
  moreover have "a \<noteq> ?n" using assms(1,4) by (auto simp: labelled_def)
  ultimately show ?thesis using assms(1) by (auto simp: labelled_def update_conv')
qed

lemma expand_labels:
  assumes "labelled g a d seen prev" and "frontier g d {cur} queue seen" and "cur \<in> set seen" and "cur \<notin> set queue"
    and "\<forall>x \<in> set queue. d cur \<le> d x" and "\<forall>x \<in> set seen. d x \<le> d cur + 1" and "set rs \<subseteq> set (adj g cur)"
    and "expand cur rs (queue, seen, prev) = (queue', seen', prev')"
  shows "\<exists>e. labelled g a e seen' prev' \<and> frontier g e {cur} queue' seen' \<and> cur \<in> set seen' \<and> cur \<notin> set queue' \<and> e cur = d cur \<and>
    (\<forall>x \<in> set queue'. e cur \<le> e x) \<and> (\<forall>x \<in> set seen'. e x \<le> e cur + 1) \<and> set seen \<subseteq> set seen' \<and>
    (\<forall>r \<in> set rs. other_end r cur \<in> set seen')"
  using assms
proof (induction rs arbitrary: d queue seen prev)
  case Nil
  then show ?case by auto
next
  case (Cons r rs)
  let ?n = "other_end r cur" and ?d = "d(other_end r cur := d cur + 1)"
  show ?case
  proof (cases "?n \<in> set seen")
    case True
    have "expand cur rs (queue, seen, prev) = (queue', seen', prev')" using Cons.prems(8) True by (simp add: Let_def)
    moreover have "set rs \<subseteq> set (adj g cur)" using Cons.prems(7) by simp
    ultimately obtain e where e: "labelled g a e seen' prev'" "frontier g e {cur} queue' seen'" "cur \<in> set seen'" "cur \<notin> set queue'" "e cur = d cur"
      "\<forall>x \<in> set queue'. e cur \<le> e x" "\<forall>x \<in> set seen'. e x \<le> e cur + 1" "set seen \<subseteq> set seen'" "\<forall>r \<in> set rs. other_end r cur \<in> set seen'"
      using Cons.IH [OF Cons.prems(1-6)] by blast
    moreover have "?n \<in> set seen'" using True e(8) by blast
    ultimately show ?thesis by auto
  next
    case False
    have step: "expand cur rs (queue @ [?n], ?n # seen, dset ?n (cur, r) prev) = (queue', seen', prev')"
      using Cons.prems(8) False by (simp add: Let_def)
    have same: "?d x = d x" if "x \<in> set seen" for x using that False by auto
    have q: "set queue \<subseteq> set seen" using Cons.prems(2) by (simp add: frontier_def)
    then have mq: "map ?d queue = map d queue" using False by auto
    have lab: "labelled g a ?d (?n # seen) (dset ?n (cur, r) prev)"
      using Cons.prems False by (intro labelled_add) auto
    have "sorted (map ?d (queue @ [?n]))"
      unfolding map_append mq using Cons.prems(2,6) q by (auto simp: frontier_def sorted_append)
    then have fro: "frontier g ?d {cur} (queue @ [?n]) (?n # seen)"
      using Cons.prems(2) q False same by (auto simp: frontier_def)
    have "\<exists>e. labelled g a e seen' prev' \<and> frontier g e {cur} queue' seen' \<and> cur \<in> set seen' \<and> cur \<notin> set queue' \<and> e cur = ?d cur \<and>
      (\<forall>x \<in> set queue'. e cur \<le> e x) \<and> (\<forall>x \<in> set seen'. e x \<le> e cur + 1) \<and> set (?n # seen) \<subseteq> set seen' \<and>
      (\<forall>r \<in> set rs. other_end r cur \<in> set seen')"
      using Cons.prems False same q by (intro Cons.IH [OF lab fro _ _ _ _ _ step]) auto
    moreover have "?d cur = d cur" using Cons.prems(3) by (rule same)
    ultimately show ?thesis by auto
  qed
qed

text \<open>A walk from the start has been overtaken by the labels, or some queued node will still do so.\<close>

lemma walk_labels:
  assumes "labelled g a d seen prev" and "frontier g d {} queue seen" and "walk g a p v"
  shows "v \<in> set seen \<and> d v \<le> length p \<or> (\<exists>x \<in> set queue. d x \<le> length p)"
  using assms(3)
proof (induction p arbitrary: v rule: rev_induct)
  case Nil
  then show ?case using assms(1) by (simp add: labelled_def)
next
  case (snoc r p)
  then obtain w where w: "walk g a p w" "r \<in> set (adj g w)" "other_end r w = v" by (auto simp: walk_snoc)
  show ?case
  proof (cases "w \<in> set seen \<and> d w \<le> length p \<and> w \<notin> set queue")
    case True
    then have "v \<in> set seen \<and> d v \<le> d w + 1" using assms(2) w by (auto simp: frontier_def)
    with True show ?thesis by auto
  next
    case False
    with snoc.IH [OF w(1)] show ?thesis by fastforce
  qed
qed

lemma bfs_labels:
  assumes "labelled g a d seen prev" and "frontier g d {} queue seen" and "queue \<noteq> [] \<longrightarrow> (\<forall>x \<in> set seen. d x \<le> d (hd queue) + 1)"
  shows "\<exists>e seen'. labelled g a e seen' (bfs g t (queue, seen, prev)) \<and> (\<forall>p. walk g a p t \<longrightarrow> t \<in> set seen' \<and> e t \<le> length p)"
  using assms
proof (induction g t "(queue, seen, prev)" arbitrary: queue seen prev d rule: bfs.induct)
  case (1 g t seen prev)
  with walk_labels [OF 1(1,2), of _ t] show ?case by (auto intro!: exI [of _ d] exI [of _ seen])
next
  case (2 g t cur queue seen prev)
  have fr: "cur \<in> set seen" "cur \<notin> set queue" "\<forall>x \<in> set queue. d cur \<le> d x" "sorted (map d queue)"
    using 2(3) by (auto simp: frontier_def)
  show ?case
  proof (cases "cur = t")
    case True
    have "t \<in> set seen \<and> d t \<le> length p" if "walk g a p t" for p
      using walk_labels [OF 2(2,3) that] fr True by auto
    with 2(2) True show ?thesis by auto
  next
    case False
    obtain queue' seen' prev' where e: "expand cur (adj g cur) (queue, seen, prev) = (queue', seen', prev')" by (metis prod_cases3)
    have "frontier g d {cur} queue seen" using 2(3) fr by (auto simp: frontier_def)
    from expand_labels [OF 2(2) this fr(1,2,3) _ subset_refl e] 2(4) obtain d' where
      d': "labelled g a d' seen' prev'" "frontier g d' {cur} queue' seen'" "cur \<in> set seen'" "cur \<notin> set queue'"
        "\<forall>x \<in> set queue'. d' cur \<le> d' x" "\<forall>x \<in> set seen'. d' x \<le> d' cur + 1" "\<forall>r \<in> set (adj g cur). other_end r cur \<in> set seen'"
      by auto
    have "frontier g d' {} queue' seen'" using d' by (auto simp: frontier_def)
    moreover have "queue' \<noteq> [] \<longrightarrow> (\<forall>x \<in> set seen'. d' x \<le> d' (hd queue') + 1)"
      using d'(5,6) by (fastforce dest: hd_in_set)
    ultimately show ?thesis using 2(1) [OF False e d'(1)] False e by simp
  qed
qed

lemma trace_back_walk:
  assumes "labelled g a d seen prev" and "v \<in> set seen"
  shows "\<exists>p. trace_back prev a v acc = Some (Inr (p @ acc)) \<and> walk g a p v \<and> length p = d v"
  using assms(2)
proof (induction "d v" arbitrary: v acc)
  case 0
  then have "v = a" using assms(1) by (force simp: labelled_def)
  then show ?case using 0 by (simp add: trace_back.simps)
next
  case (Suc n)
  then have "v \<noteq> a" using assms(1) by (auto simp: labelled_def)
  then obtain u r where u: "dget prev v = Some (u, r)" "u \<in> set seen" "r \<in> set (adj g u)" "other_end r u = v" "d v = d u + 1"
    using assms(1) Suc.prems unfolding labelled_def by blast
  with Suc.hyps obtain p where "trace_back prev a u (r # acc) = Some (Inr (p @ r # acc))" "walk g a p u" "length p = d u" by auto
  with u \<open>v \<noteq> a\<close> show ?case
    by (intro exI [of _ "p @ [r]"]) (auto simp: trace_back.simps [of prev a v] walk_snoc)
qed

end
