(* ===== verification/Knowledge_Laws.thy ===== *)
theory Knowledge_Laws
  imports Knowledge
begin

text \<open>
  The invariants of the semantic graph. \<open>graph_wf\<close> is what every operation keeps: ids as keys, at
  most one entity of each name, no relation with a missing end. \<open>mirrored\<close> says that the database
  would give back the graphs in memory; the operations that only add to graphs, and the deletion of
  graphs, keep it, a merge does not.
\<close>

section \<open>Well-formed graphs\<close>

definition graph_wf :: "kgraph \<Rightarrow> bool" where
  "graph_wf g \<longleftrightarrow>
     dict_ok (kg_entities g) \<and> dict_ok (kg_relations g) \<and>
     (\<forall>i e. dget (kg_entities g) i = Some e \<longrightarrow> en_id e = i) \<and>
     (\<forall>i e j f. dget (kg_entities g) i = Some e \<longrightarrow> dget (kg_entities g) j = Some f \<longrightarrow> lower (en_name e) = lower (en_name f) \<longrightarrow> i = j) \<and>
     (\<forall>i r. dget (kg_relations g) i = Some r \<longrightarrow>
        re_id r = i \<and> dget (kg_entities g) (re_source r) \<noteq> None \<and> dget (kg_entities g) (re_target r) \<noteq> None)"

definition engine_wf :: "kengine \<Rightarrow> bool" where
  "engine_wf k \<longleftrightarrow> dict_ok (ke_graphs k) \<and> (\<forall>gid g. dget (ke_graphs k) gid = Some g \<longrightarrow> kg_id g = gid \<and> graph_wf g)"

lemma graph_wfD:
  assumes "graph_wf g"
  shows "dict_ok (kg_entities g)" and "dict_ok (kg_relations g)"
    and "dget (kg_entities g) i = Some e \<Longrightarrow> en_id e = i"
    and "dget (kg_relations g) j = Some r \<Longrightarrow> re_id r = j \<and> dget (kg_entities g) (re_source r) \<noteq> None \<and> dget (kg_entities g) (re_target r) \<noteq> None"
  using assms unfolding graph_wf_def by blast+

lemma graph_wfI:
  assumes "dict_ok (kg_entities g)" and "dict_ok (kg_relations g)"
    and "\<And>i e. dget (kg_entities g) i = Some e \<Longrightarrow> en_id e = i"
    and "\<And>i e j f. dget (kg_entities g) i = Some e \<Longrightarrow> dget (kg_entities g) j = Some f \<Longrightarrow> lower (en_name e) = lower (en_name f) \<Longrightarrow> i = j"
    and "\<And>i r. dget (kg_relations g) i = Some r \<Longrightarrow>
      re_id r = i \<and> dget (kg_entities g) (re_source r) \<noteq> None \<and> dget (kg_entities g) (re_target r) \<noteq> None"
  shows "graph_wf g"
  unfolding graph_wf_def using assms by blast

lemma graph_wf_names: "graph_wf g \<Longrightarrow> dget (kg_entities g) i = Some e \<Longrightarrow> dget (kg_entities g) j = Some f \<Longrightarrow> lower (en_name e) = lower (en_name f) \<Longrightarrow> i = j"
  unfolding graph_wf_def by blast

lemma engine_wfD: "engine_wf k \<Longrightarrow> dget (ke_graphs k) gid = Some g \<Longrightarrow> kg_id g = gid \<and> graph_wf g"
  by (simp add: engine_wf_def)

lemma ke_frames [simp]:
  "ke_graphs (ke_emit e k) = ke_graphs k" "ke_store (ke_emit e k) = ke_store k"
  "ke_graphs (ke_persist g k) = ke_graphs k" "ke_store (ke_write g k) = ke_store k"
  "ke_graphs (ke_write g k) = dset (kg_id g) g (ke_graphs k)"
  "ke_store (ke_persist g k) = map_option (gst_put g) (ke_store k)"
  "ke_fresh uid k = (uid (ke_next k), k\<lparr>ke_next := ke_next k + 1\<rparr>)"
  by (simp_all add: ke_emit_def ke_persist_def ke_write_def ke_fresh_def)

lemma touch_frames [simp]:
  "kg_id (touch now g) = kg_id g" "kg_entities (touch now g) = kg_entities g" "kg_relations (touch now g) = kg_relations g"
  by (simp_all add: touch_def)

lemma graph_wf_cong: "kg_entities h = kg_entities g \<Longrightarrow> kg_relations h = kg_relations g \<Longrightarrow> graph_wf h = graph_wf g"
  by (simp add: graph_wf_def)

lemma graph_wf_touch [simp]: "graph_wf (touch now g) = graph_wf g"
  by (rule graph_wf_cong) simp_all

lemma engine_wf_set: "engine_wf k \<Longrightarrow> graph_wf g \<Longrightarrow> ke_graphs k' = dset (kg_id g) g (ke_graphs k) \<Longrightarrow> engine_wf k'"
  by (auto simp: engine_wf_def dget_dset)

lemma engine_wf_same: "ke_graphs k' = ke_graphs k \<Longrightarrow> engine_wf k' = engine_wf k"
  by (simp add: engine_wf_def)

lemma same_name_cases:
  "case same_name n es of Some e \<Rightarrow> e \<in> set es \<and> lower (en_name e) = lower n | None \<Rightarrow> \<forall>e \<in> set es. lower (en_name e) \<noteq> lower n"
  by (induction es) (auto split: option.splits)

lemma same_name_Some:
  assumes "graph_wf g" and "same_name n (dvals (kg_entities g)) = Some e"
  shows "dget (kg_entities g) (en_id e) = Some e" and "lower (en_name e) = lower n"
  using same_name_cases [where n = n and es = "dvals (kg_entities g)"] assms graph_wfD(1,3) [OF assms(1)]
  by (auto simp: in_dvals simp del: set_map)

lemma same_name_None:
  assumes "graph_wf g" and "same_name n (dvals (kg_entities g)) = None" and "dget (kg_entities g) i = Some e"
  shows "lower (en_name e) \<noteq> lower n"
proof -
  have "e \<in> set (dvals (kg_entities g))" using assms(1,3) by (subst in_dvals) (auto dest: graph_wfD)
  with same_name_cases [where n = n and es = "dvals (kg_entities g)"] assms(2) show ?thesis by (simp del: set_map)
qed

subsection \<open>What each change of a graph keeps\<close>

lemma graph_wf_entity:
  assumes "graph_wf g" and "en_id e = i"
    and "\<forall>j f. dget (kg_entities g) j = Some f \<longrightarrow> lower (en_name f) = lower (en_name e) \<longrightarrow> j = i"
  shows "graph_wf (g\<lparr>kg_entities := dset i e (kg_entities g)\<rparr>)"
proof (rule graph_wfI, goal_cases)
  case (3 j f)
  then show ?case using assms(2) graph_wfD(3) [OF assms(1)] by (simp add: dget_dset split: if_splits)
next
  case (4 j x l y)
  then consider "j = i" "l = i" | "j \<noteq> i" "l = i" "y = e" "dget (kg_entities g) j = Some x"
    | "j = i" "x = e" "l \<noteq> i" "dget (kg_entities g) l = Some y" | "dget (kg_entities g) j = Some x" "dget (kg_entities g) l = Some y"
    by (cases "j = i"; cases "l = i") (simp_all add: dget_dset)
  then show ?case
    by cases (use 4(3) assms(3) graph_wf_names [OF assms(1) _ _ 4(3)] in \<open>blast, metis+\<close>)
next
  case (5 j r)
  then show ?case using graph_wfD(4) [OF assms(1), of j r] by (simp add: dget_dset)
qed (use graph_wfD(1,2) [OF assms(1)] in simp_all)

lemma graph_wf_relation:
  assumes "graph_wf g" and "dget (kg_entities g) (re_source r) \<noteq> None" and "dget (kg_entities g) (re_target r) \<noteq> None"
  shows "graph_wf (g\<lparr>kg_relations := dset (re_id r) r (kg_relations g)\<rparr>)"
proof (rule graph_wfI, goal_cases)
  case (5 j x)
  then show ?case using assms(2,3) graph_wfD(4) [OF assms(1), of j x] by (simp add: dget_dset split: if_splits)
qed (use graph_wfD [OF assms(1)] graph_wf_names [OF assms(1)] in simp_all)

lemma graph_wf_merge_one:
  assumes "graph_wf (fst gm)"
  shows "graph_wf (fst (merge_one cid dup gm)) \<and> kg_id (fst (merge_one cid dup gm)) = kg_id (fst gm)"
proof (cases "\<exists>c d. dget (kg_entities (fst gm)) cid = Some c \<and> dget (kg_entities (fst gm)) dup = Some d \<and> dup \<noteq> cid")
  case True
  then obtain c d where cd: "dget (kg_entities (fst gm)) cid = Some c" "dget (kg_entities (fst gm)) dup = Some d" "dup \<noteq> cid" by blast
  let ?E = "kg_entities (fst gm)" and ?g = "fst (merge_one cid dup gm)"
  have E: "kg_entities ?g = ddel dup (dset cid (absorb c d) ?E)"
    and R: "kg_relations ?g = map (\<lambda>(i, r). (i, redirect cid dup r)) (kg_relations (fst gm))" and I: "kg_id ?g = kg_id (fst gm)"
    using cd by (simp_all add: merge_one_def)
  have a: "en_id (absorb c d) = cid" "en_name (absorb c d) = en_name c" using graph_wfD(3) [OF assms cd(1)] by (simp_all add: absorb_def)
  have "graph_wf ((fst gm)\<lparr>kg_entities := dset cid (absorb c d) ?E\<rparr>)"
    using graph_wf_names [OF assms _ cd(1)] a by (intro graph_wf_entity [OF assms]) auto
  note wf' = graph_wfD [OF this] graph_wf_names [OF this]
  have "graph_wf ?g"
  proof (rule graph_wfI, goal_cases)
    case 1
    show ?case unfolding E using wf'(1) by simp
  next
    case 2
    have "dkeys (kg_relations ?g) = dkeys (kg_relations (fst gm))" by (simp add: R case_prod_beta)
    then show ?case using graph_wfD(2) [OF assms] by (simp add: dict_ok_def)
  next
    case (3 i e)
    then show ?case unfolding E using wf'(3) [of i e] by (simp add: dget_ddel split: if_splits)
  next
    case (4 i e j f)
    then show ?case unfolding E using wf'(5) [of i e j f] by (simp add: dget_ddel split: if_splits)
  next
    case (5 i s)
    then obtain r where r: "dget (kg_relations (fst gm)) i = Some r" "s = redirect cid dup r" by (auto simp: R map_of_map)
    with graph_wfD(4) [OF assms r(1)] cd show ?case by (auto simp: E redirect_def dget_ddel dget_dset)
  qed
  with I show ?thesis by simp
next
  case False
  then have "merge_one cid dup gm = gm" by (auto simp: merge_one_def split: option.splits)
  with assms show ?thesis by simp
qed

lemma graph_wf_merges:
  "graph_wf (fst gm) \<Longrightarrow> graph_wf (fst (fold (merge_one cid) dups gm)) \<and> kg_id (fst (fold (merge_one cid) dups gm)) = kg_id (fst gm)"
  by (induction dups arbitrary: gm) (simp_all add: graph_wf_merge_one)

subsection \<open>The operations of the engine\<close>

lemma create_graph_wf: "engine_wf k \<Longrightarrow> engine_wf (snd (create_graph uid now name k))"
  by (rule engine_wf_set [where g = "fst (create_graph uid now name k)"]) (auto simp: create_graph_def Let_def graph_wf_def)

lemma delete_graph_wf: "engine_wf k \<Longrightarrow> engine_wf (snd (delete_graph gid k))"
  by (auto simp: delete_graph_def engine_wf_def dget_ddel split: option.splits)

lemma add_entity_wf:
  assumes "engine_wf k"
  shows "engine_wf (snd (add_entity now gid e k))"
proof (cases "dget (ke_graphs k) gid")
  case None
  with assms show ?thesis by (simp add: add_entity_def)
next
  case (Some g)
  from engine_wfD [OF assms Some] have g: "kg_id g = gid" "graph_wf g" by auto
  show ?thesis
  proof (cases "same_name (en_name e) (dvals (kg_entities g))")
    case None
    have "graph_wf (g\<lparr>kg_entities := dset (en_id e) e (kg_entities g)\<rparr>)"
      using same_name_None [OF g(2) None] by (intro graph_wf_entity [OF g(2)]) auto
    then show ?thesis using Some g None
      by (intro engine_wf_set [OF assms, where g = "touch now (g\<lparr>kg_entities := dset (en_id e) e (kg_entities g)\<rparr>)"])
        (simp_all add: add_entity_def Let_def)
  next
    case (Some x)
    note x = same_name_Some [OF g(2) Some]
    let ?x = "(absorb x e)\<lparr>en_source := (if en_source e = [] then en_source x else en_source e)\<rparr>"
    have "graph_wf (g\<lparr>kg_entities := dset (en_id x) ?x (kg_entities g)\<rparr>)"
      using graph_wf_names [OF g(2) _ x(1)] by (intro graph_wf_entity [OF g(2)]) (auto simp: absorb_def)
    then show ?thesis using \<open>dget (ke_graphs k) gid = Some g\<close> g Some
      by (intro engine_wf_set [OF assms, where g = "touch now (g\<lparr>kg_entities := dset (en_id x) ?x (kg_entities g)\<rparr>)"])
        (simp_all add: add_entity_def Let_def)
  qed
qed

lemma add_relation_wf:
  assumes "engine_wf k"
  shows "engine_wf (snd (add_relation now gid r k))"
proof (cases "\<exists>g. dget (ke_graphs k) gid = Some g \<and> dget (kg_entities g) (re_source r) \<noteq> None \<and> dget (kg_entities g) (re_target r) \<noteq> None")
  case True
  then obtain g where g: "dget (ke_graphs k) gid = Some g" "dget (kg_entities g) (re_source r) \<noteq> None" "dget (kg_entities g) (re_target r) \<noteq> None" by blast
  have "graph_wf (touch now (g\<lparr>kg_relations := dset (re_id r) r (kg_relations g)\<rparr>))"
    using g(2,3) engine_wfD [OF assms g(1)] by (simp add: graph_wf_relation)
  then show ?thesis using g engine_wfD [OF assms g(1)]
    by (intro engine_wf_set [OF assms, where g = "touch now (g\<lparr>kg_relations := dset (re_id r) r (kg_relations g)\<rparr>)"])
      (auto simp: add_relation_def Let_def)
next
  case False
  then show ?thesis using assms by (auto simp: add_relation_def split: option.splits)
qed

lemma merge_entities_wf:
  assumes "engine_wf k"
  shows "engine_wf (snd (merge_entities now gid cid dups k))"
proof (cases "dget (ke_graphs k) gid")
  case None
  with assms show ?thesis by (simp add: merge_entities_def)
next
  case (Some g)
  obtain h merged where m: "fold (merge_one cid) dups (g, []) = (h, merged)" by (cases "fold (merge_one cid) dups (g, [])")
  with graph_wf_merges [of "(g, [])" cid dups] engine_wfD [OF assms Some] have "graph_wf h" "kg_id h = gid" by auto
  then have "engine_wf (ke_write (touch now h) k)" by (intro engine_wf_set [OF assms, where g = "touch now h"]) simp_all
  then have "engine_wf (ke_emit x (ke_emit y (ke_persist (touch now h) (ke_write (touch now h) k))))" for x y
    by (subst engine_wf_same [where k = "ke_write (touch now h) k"]) simp_all
  with Some m assms show ?thesis by (auto simp: merge_entities_def Let_def split: option.splits)
qed

subsection \<open>Inference\<close>

lemma match_rule_ends:
  assumes "graph_wf g" and "(a, b) \<in> set (match_rule g ru)"
  shows "dget (kg_entities g) a \<noteq> None" and "dget (kg_entities g) b \<noteq> None"
proof -
  from assms(2) obtain src rel where s: "src \<in> set (dvals (kg_entities g))" and f: "match_pair g ru src rel = Some (a, b)"
    by (auto simp: match_rule_def in_map_filter split: if_splits)
  from f obtain tgt where "a = en_id src" "dget (kg_entities g) (re_target rel) = Some tgt" "b = en_id tgt"
    by (cases "dget (kg_entities g) (re_target rel)") (simp_all add: match_pair_def split: if_splits)
  with s graph_wfD(1,3) [OF assms(1)] show "dget (kg_entities g) a \<noteq> None" "dget (kg_entities g) b \<noteq> None"
    by (auto simp: in_dvals simp del: set_map)
qed

text \<open>Linking pairs of entities adds relations to one graph, in memory only.\<close>

definition linked_up :: "string \<Rightarrow> kgraph \<Rightarrow> kengine \<Rightarrow> kengine \<Rightarrow> bool" where
  "linked_up gid g k k' \<longleftrightarrow>
     engine_wf k' \<and> ke_store k' = ke_store k \<and> (\<forall>j. j \<noteq> gid \<longrightarrow> dget (ke_graphs k') j = dget (ke_graphs k) j) \<and>
     (\<exists>h. dget (ke_graphs k') gid = Some h \<and> kg_entities h = kg_entities g \<and> (\<forall>i. dget (kg_relations g) i \<noteq> None \<longrightarrow> dget (kg_relations h) i \<noteq> None))"

lemma link_pairs_linked:
  assumes "engine_wf k" and "dget (ke_graphs k) gid = Some g"
    and "\<forall>p \<in> set ps. dget (kg_entities g) (fst p) \<noteq> None \<and> dget (kg_entities g) (snd p) \<noteq> None"
  shows "linked_up gid g k (snd (link_pairs uid gid ps k))"
  using assms
proof (induction ps arbitrary: k g)
  case Nil
  then show ?case by (simp add: linked_up_def)
next
  case (Cons p ps)
  obtain a b where p: "p = (a, b)" by (cases p)
  show ?case
  proof (cases "linked g a b")
    case True
    with Cons.IH [OF Cons.prems(1,2)] Cons.prems(2,3) p show ?thesis by simp
  next
    case False
    let ?rel = "\<lparr>re_id = uid (ke_next k), re_source = a, re_target = b, re_type = SIMILAR_TO, re_weight = 1, re_bidirectional = False\<rparr>"
    let ?h = "g\<lparr>kg_relations := dset (uid (ke_next k)) ?rel (kg_relations g)\<rparr>"
    let ?k = "ke_emit (RelationCreated gid (uid (ke_next k)) a b (relation_type_value SIMILAR_TO) 1) (ke_write ?h (k\<lparr>ke_next := ke_next k + 1\<rparr>))"
    have g: "kg_id g = gid" "graph_wf g" using engine_wfD [OF Cons.prems(1,2)] by auto
    have "graph_wf ?h" using graph_wf_relation [OF g(2), of ?rel] Cons.prems(3) p by simp
    then have "engine_wf ?k" by (intro engine_wf_set [OF Cons.prems(1), where g = ?h]) simp_all
    moreover have h: "dget (ke_graphs ?k) gid = Some ?h" using g by simp
    ultimately have "linked_up gid ?h ?k (snd (link_pairs uid gid ps ?k))" using Cons.prems(3) by (intro Cons.IH) auto
    then have "linked_up gid g k (snd (link_pairs uid gid ps ?k))"
      using g(1) by (fastforce simp: linked_up_def dget_dset)
    then show ?thesis using Cons.prems(2) False p by (simp add: case_prod_beta Let_def)
  qed
qed

lemma linked_up_wf: "linked_up gid g k k' \<Longrightarrow> engine_wf k'"
  by (simp add: linked_up_def)

lemma rule_done_wf:
  assumes "engine_wf k"
  shows "engine_wf (snd (rule_done uid now gid ru matched ids k))"
proof (cases "dget (ke_graphs k) gid")
  case None
  with assms show ?thesis by (simp add: rule_done_def)
next
  case (Some g)
  from engine_wfD [OF assms Some] have "graph_wf (g\<lparr>kg_updated_at := now\<rparr>)" by (subst graph_wf_cong [of _ g]) auto
  then show ?thesis using Some
    by (intro engine_wf_set [OF assms, where g = "g\<lparr>kg_updated_at := now\<rparr>"]) (simp_all add: rule_done_def Let_def)
qed

lemma merge_pairs_wf: "engine_wf k \<Longrightarrow> engine_wf (snd (merge_pairs now gid ps k))"
proof (induction ps arbitrary: k)
  case (Cons p ps)
  obtain a b where p: "p = (a, b)" by (cases p)
  obtain r k1 where m: "merge_entities now gid a [b] k = (r, k1)" by (cases "merge_entities now gid a [b] k")
  with merge_entities_wf [OF Cons.prems, of now gid a "[b]"] have "engine_wf k1" by simp
  with Cons.IH [of k1] m p show ?case by (auto split: sum.splits prod.splits)
qed simp

lemma fire_rule_wf:
  assumes "engine_wf k"
  shows "engine_wf (snd (fire_rule uid now gid ru k))"
proof (cases "dget (ke_graphs k) gid")
  case None
  with assms show ?thesis by (simp add: fire_rule_def)
next
  case (Some g)
  have "engine_wf (snd (link_pairs uid gid (match_rule g ru) k))"
    using match_rule_ends engine_wfD [OF assms Some] by (intro linked_up_wf [OF link_pairs_linked [OF assms Some]]) fastforce
  then have "engine_wf (snd (rule_done uid now gid ru m ids (snd (link_pairs uid gid (match_rule g ru) k))))" for m ids
    by (rule rule_done_wf)
  moreover have "engine_wf (snd (rule_done uid now gid ru m ids (snd (merge_pairs now gid (match_rule g ru) k))))" for m ids
    using merge_pairs_wf [OF assms] by (rule rule_done_wf)
  ultimately show ?thesis
    using Some assms rule_done_wf [OF assms] merge_pairs_wf [OF assms, of now gid "match_rule g ru"]
    by (auto simp: fire_rule_def Let_def case_prod_beta split: sum.splits prod.splits)
qed

lemma fire_rules_wf: "engine_wf k \<Longrightarrow> engine_wf (snd (fire_rules uid now gid rus k))"
proof (induction rus arbitrary: k)
  case (Cons ru rus)
  obtain r k1 where f: "fire_rule uid now gid ru k = (r, k1)" by (cases "fire_rule uid now gid ru k")
  with fire_rule_wf [OF Cons.prems, of uid now gid ru] have "engine_wf k1" by simp
  with Cons.IH [of k1] f show ?case by (auto split: sum.splits prod.splits)
qed simp

lemma infer_loop_wf: "engine_wf k \<Longrightarrow> engine_wf (snd (infer_loop uid now gid active n k))"
proof (induction n arbitrary: k)
  case (Suc n)
  obtain r k1 where f: "fire_rules uid now gid active k = (r, k1)" by (cases "fire_rules uid now gid active k")
  with fire_rules_wf [OF Suc.prems, of uid now gid active] have "engine_wf k1" by simp
  with Suc.IH [of k1] f show ?case by (auto split: sum.splits prod.splits)
qed simp

lemma run_inference_wf: "engine_wf k \<Longrightarrow> engine_wf (snd (run_inference uid now gid rules n k))"
  by (simp add: run_inference_def infer_loop_wf split: option.splits)

lemma answer_wf:
  assumes "engine_wf k" and "answer uid emb now gid q kind k = Some rk"
  shows "engine_wf (snd rk)"
proof (cases kind)
  case (Inference rules)
  with assms run_inference_wf [OF assms(1), of uid now gid rules 3] show ?thesis by (auto split: sum.splits prod.splits)
next
  case (Neighbors e r)
  with assms show ?thesis by (auto split: sum.splits)
next
  case (PathBetween f t d)
  with assms show ?thesis by (auto split: option.splits sum.splits)
qed (use assms in auto)

lemma query_keeps:
  assumes "answer uid emb start gid q (gq_kind q) k = Some (r, k1)" and "query uid emb start fin gid q k = Some (r', k2)"
  shows "ke_graphs k2 = ke_graphs k1" and "ke_store k2 = ke_store k1"
  using assms(2) unfolding query_def assms(1) option.case prod.case
  by (cases r; simp add: case_prod_beta Let_def; force)+

lemma query_wf:
  assumes "engine_wf k" and "query uid emb start fin gid q k = Some (r', k2)"
  shows "engine_wf k2"
proof (cases "answer uid emb start gid q (gq_kind q) k")
  case None
  with assms(2) show ?thesis by (simp add: query_def)
next
  case (Some x)
  obtain r k1 where "x = (r, k1)" by (cases x)
  with Some answer_wf [OF assms(1) Some] query_keeps(1) [OF _ assms(2)] show ?thesis
    by (simp add: engine_wf_def)
qed

section \<open>Memory and database\<close>

definition table_agrees :: "('v \<Rightarrow> string) \<Rightarrow> (kgraph \<Rightarrow> (string, 'v) dict) \<Rightarrow> (string, kgraph) dict \<Rightarrow> (string, string \<times> 'v) dict \<Rightarrow> bool" where
  "table_agrees ident part gs t \<longleftrightarrow>
     (\<forall>i gid v. dget t i = Some (gid, v) \<longrightarrow> ident v = i \<and> (\<exists>g. dget gs gid = Some g \<and> dget (part g) i = Some v))"

definition rows_agree :: "(string, kgraph) dict \<Rightarrow> graph_db \<Rightarrow> bool" where
  "rows_agree gs d \<longleftrightarrow>
     dict_ok (gdb_graphs d) \<and> dict_ok (gdb_entities d) \<and> dict_ok (gdb_relations d) \<and>
     (\<forall>gid. dget (gdb_graphs d) gid = dget gs gid) \<and>
     table_agrees en_id kg_entities gs (gdb_entities d) \<and> table_agrees re_id kg_relations gs (gdb_relations d)"

text \<open>What has to hold for the graph \<open>g\<close> to be saved: all agrees but its own rows, which must be of entities and relations it has.\<close>

definition table_awaits :: "('v \<Rightarrow> string) \<Rightarrow> (kgraph \<Rightarrow> (string, 'v) dict) \<Rightarrow> kgraph \<Rightarrow> (string, kgraph) dict \<Rightarrow> (string, string \<times> 'v) dict \<Rightarrow> bool" where
  "table_awaits ident part g gs t \<longleftrightarrow>
     (\<forall>i gid v. dget t i = Some (gid, v) \<longrightarrow>
        (if gid = kg_id g then dget (part g) i \<noteq> None
         else ident v = i \<and> (\<exists>h. dget gs gid = Some h \<and> dget (part h) i = Some v)))"

definition rows_await :: "kgraph \<Rightarrow> (string, kgraph) dict \<Rightarrow> graph_db \<Rightarrow> bool" where
  "rows_await g gs d \<longleftrightarrow>
     dict_ok (gdb_graphs d) \<and> dict_ok (gdb_entities d) \<and> dict_ok (gdb_relations d) \<and>
     (\<forall>gid. gid \<noteq> kg_id g \<longrightarrow> dget (gdb_graphs d) gid = dget gs gid) \<and>
     table_awaits en_id kg_entities g gs (gdb_entities d) \<and> table_awaits re_id kg_relations g gs (gdb_relations d)"

lemma table_saved:
  assumes "table_awaits ident part g gs t" and "\<forall>i v. dget (part g) i = Some v \<longrightarrow> ident v = i"
    and "\<forall>i. dget t' i = (case dget (part g) i of Some v \<Rightarrow> Some (kg_id g, v) | None \<Rightarrow> dget t i)"
  shows "table_agrees ident part (dset (kg_id g) g gs) t'"
  unfolding table_agrees_def
proof (intro allI impI)
  fix i gid v
  assume t': "dget t' i = Some (gid, v)"
  show "ident v = i \<and> (\<exists>h. dget (dset (kg_id g) g gs) gid = Some h \<and> dget (part h) i = Some v)"
  proof (cases "dget (part g) i")
    case None
    with t' assms(3) have t: "dget t i = Some (gid, v)" by simp
    then have "gid \<noteq> kg_id g" using None assms(1) by (auto simp: table_awaits_def)
    with t assms(1) show ?thesis by (auto simp: table_awaits_def dget_dset)
  next
    case (Some x)
    with t' assms(2,3) show ?thesis by simp
  qed
qed

lemma table_grown:
  assumes "table_agrees ident part gs t" and "\<forall>h i. dget gs (kg_id g) = Some h \<longrightarrow> dget (part h) i \<noteq> None \<longrightarrow> dget (part g) i \<noteq> None"
    and "\<forall>j. j \<noteq> kg_id g \<longrightarrow> dget gs' j = dget gs j"
  shows "table_awaits ident part g gs' t"
  unfolding table_awaits_def
proof (intro allI impI)
  fix i gid v
  assume "dget t i = Some (gid, v)"
  with assms(1) obtain h where h: "ident v = i" "dget gs gid = Some h" "dget (part h) i = Some v" unfolding table_agrees_def by blast
  show "if gid = kg_id g then dget (part g) i \<noteq> None else ident v = i \<and> (\<exists>h. dget gs' gid = Some h \<and> dget (part h) i = Some v)"
  proof (cases "gid = kg_id g")
    case True
    with h assms(2) show ?thesis by auto
  next
    case False
    with h assms(3) show ?thesis by auto
  qed
qed

definition store_like :: "(graph_db \<Rightarrow> bool) \<Rightarrow> (string set \<Rightarrow> bool) \<Rightarrow> kengine \<Rightarrow> bool" where
  "store_like P Q k \<longleftrightarrow> (\<forall>st. ke_store k = Some st \<longrightarrow> Q (set (gst_mem st)) \<and> (\<forall>d. gst_db st = Some d \<longrightarrow> P d))"

definition mirrored :: "kengine \<Rightarrow> bool" where
  "mirrored k \<longleftrightarrow> store_like (rows_agree (ke_graphs k)) (\<lambda>m. m = fst ` set (ke_graphs k)) k"

definition saveable :: "kgraph \<Rightarrow> kengine \<Rightarrow> bool" where
  "saveable g k \<longleftrightarrow> store_like (rows_await g (ke_graphs k)) (\<lambda>m. insert (kg_id g) m = insert (kg_id g) (fst ` set (ke_graphs k))) k"

lemma dget_save_rows:
  assumes "dict_ok kvs"
  shows "dget (fold (\<lambda>(i, v). row_replace i (f v)) kvs t) i = (case dget kvs i of Some v \<Rightarrow> Some (f v) | None \<Rightarrow> dget t i)"
  using assms
proof (induction kvs arbitrary: t)
  case (Cons kv kvs)
  obtain j v where [simp]: "kv = (j, v)" by (cases kv)
  from Cons.prems have "dget kvs j = None" "dict_ok kvs" by (simp_all add: dict_ok_def dget_None_iff)
  with Cons.IH [of "row_replace j (f v) t"] show ?case by (simp add: dget_row_replace split: option.splits)
qed simp

lemma dict_ok_save_rows: "dict_ok t \<Longrightarrow> dict_ok (fold (\<lambda>(i, v). row_replace i (f v)) kvs t)"
  by (induction kvs arbitrary: t) auto

text \<open>Rows are filed under ids, which are the keys.\<close>

lemma fold_ids: "(\<forall>(i, v) \<in> set kvs. ident v = i) \<Longrightarrow> fold (\<lambda>v. row_replace (ident v) (f v)) (dvals kvs) t = fold (\<lambda>(i, v). row_replace i (f v)) kvs t"
  by (induction kvs arbitrary: t) auto

lemma put_tables:
  assumes "graph_wf g" and "gst_db st = Some d"
  obtains d' where "gst_db (gst_put g st) = Some d'"
    and "\<forall>gid. dget (gdb_graphs d') gid = (if gid = kg_id g then Some g else dget (gdb_graphs d) gid)"
    and "\<forall>i. dget (gdb_entities d') i = (case dget (kg_entities g) i of Some e \<Rightarrow> Some (kg_id g, e) | None \<Rightarrow> dget (gdb_entities d) i)"
    and "\<forall>i. dget (gdb_relations d') i = (case dget (kg_relations g) i of Some r \<Rightarrow> Some (kg_id g, r) | None \<Rightarrow> dget (gdb_relations d) i)"
    and "dict_ok (gdb_graphs d) \<longrightarrow> dict_ok (gdb_graphs d')" and "dict_ok (gdb_entities d) \<longrightarrow> dict_ok (gdb_entities d')"
    and "dict_ok (gdb_relations d) \<longrightarrow> dict_ok (gdb_relations d')"
proof -
  have "\<forall>(i, e) \<in> set (kg_entities g). en_id e = i" "\<forall>(i, r) \<in> set (kg_relations g). re_id r = i"
    using graph_wfD [OF assms(1)] by (auto simp: dget_iff_in [symmetric])
  note ids = fold_ids [OF this(1)] fold_ids [OF this(2)]
  show thesis
    by (rule that [of "the (gst_db (gst_put g st))"]) (use assms graph_wfD(1,2) [OF assms(1)] in \<open>simp_all add: gst_put_def ids dget_save_rows dict_ok_save_rows dget_row_replace\<close>)
qed

lemma saved_rows_agree:
  assumes "graph_wf g" and "gst_db st = Some d" and "rows_await g gs d"
  shows "\<exists>d'. gst_db (gst_put g st) = Some d' \<and> rows_agree (dset (kg_id g) g gs) d'"
proof -
  from put_tables [OF assms(1,2)] obtain d' where d': "gst_db (gst_put g st) = Some d'"
    and G: "\<forall>gid. dget (gdb_graphs d') gid = (if gid = kg_id g then Some g else dget (gdb_graphs d) gid)"
    and E: "\<forall>i. dget (gdb_entities d') i = (case dget (kg_entities g) i of Some e \<Rightarrow> Some (kg_id g, e) | None \<Rightarrow> dget (gdb_entities d) i)"
    and R: "\<forall>i. dget (gdb_relations d') i = (case dget (kg_relations g) i of Some r \<Rightarrow> Some (kg_id g, r) | None \<Rightarrow> dget (gdb_relations d) i)"
    and ok: "dict_ok (gdb_graphs d) \<longrightarrow> dict_ok (gdb_graphs d')" "dict_ok (gdb_entities d) \<longrightarrow> dict_ok (gdb_entities d')"
      "dict_ok (gdb_relations d) \<longrightarrow> dict_ok (gdb_relations d')" .
  note aw = assms(3) [unfolded rows_await_def]
  have "table_agrees en_id kg_entities (dset (kg_id g) g gs) (gdb_entities d')"
    by (rule table_saved [where t = "gdb_entities d"]) (use aw E graph_wfD(3) [OF assms(1)] in auto)
  moreover have "table_agrees re_id kg_relations (dset (kg_id g) g gs) (gdb_relations d')"
    by (rule table_saved [where t = "gdb_relations d"]) (use aw R graph_wfD(4) [OF assms(1)] in auto)
  moreover have "\<forall>gid. dget (gdb_graphs d') gid = dget (dset (kg_id g) g gs) gid" using G aw by (simp add: dget_dset)
  ultimately have "rows_agree (dset (kg_id g) g gs) d'" unfolding rows_agree_def using ok aw by blast
  with d' show ?thesis by blast
qed

lemma saved_mirrored:
  assumes "graph_wf g" and "saveable g k"
  shows "mirrored (ke_persist g (ke_write g k))"
proof (cases "ke_store k")
  case None
  then show ?thesis by (simp add: mirrored_def store_like_def)
next
  case (Some st)
  have "set (gst_mem (gst_put g st)) = insert (kg_id g) (set (gst_mem st))" by (auto simp: gst_put_def)
  moreover have "gst_db (gst_put g st) = None" if "gst_db st = None" using that by (simp add: gst_put_def)
  moreover have "\<exists>d'. gst_db (gst_put g st) = Some d' \<and> rows_agree (dset (kg_id g) g (ke_graphs k)) d'" if "gst_db st = Some d" for d
    using saved_rows_agree [OF assms(1) that] assms(2) Some that by (simp add: saveable_def store_like_def)
  ultimately show ?thesis using Some assms(2)
    by (cases "gst_db st") (auto simp: mirrored_def saveable_def store_like_def)
qed

lemma mirrored_same: "mirrored k \<Longrightarrow> ke_graphs k' = ke_graphs k \<Longrightarrow> ke_store k' = ke_store k \<Longrightarrow> mirrored k'"
  by (simp add: mirrored_def store_like_def)

text \<open>A graph that has grown can be saved, and so can a new one.\<close>

lemma grown_saveable:
  assumes "mirrored k"
    and "\<forall>h i. dget (ke_graphs k) (kg_id g) = Some h \<longrightarrow> dget (kg_entities h) i \<noteq> None \<longrightarrow> dget (kg_entities g) i \<noteq> None"
    and "\<forall>h i. dget (ke_graphs k) (kg_id g) = Some h \<longrightarrow> dget (kg_relations h) i \<noteq> None \<longrightarrow> dget (kg_relations g) i \<noteq> None"
    and "ke_store k' = ke_store k" and "\<forall>j. j \<noteq> kg_id g \<longrightarrow> dget (ke_graphs k') j = dget (ke_graphs k) j"
  shows "saveable g k'"
proof -
  have "rows_await g (ke_graphs k') d" if "rows_agree (ke_graphs k) d" for d
    using that assms(5) table_grown [OF _ assms(2,5)] table_grown [OF _ assms(3,5)] by (simp add: rows_agree_def rows_await_def)
  moreover have "insert (kg_id g) (fst ` set (ke_graphs k')) = insert (kg_id g) (fst ` set (ke_graphs k))"
    unfolding set_eq_iff insert_iff using assms(5) by (metis dget_None_iff)
  ultimately show ?thesis using assms(1,4) by (auto simp: mirrored_def saveable_def store_like_def)
qed

text \<open>What agrees is what is loaded.\<close>

lemma load_entity_idle: "rows_agree gs d \<Longrightarrow> dget base = dget gs \<Longrightarrow> row \<in> set (dvals (gdb_entities d)) \<Longrightarrow> load_entity row base = base"
proof -
  assume a: "rows_agree gs d" "dget base = dget gs" "row \<in> set (dvals (gdb_entities d))"
  then obtain i where i: "dget (gdb_entities d) i = Some row" by (auto simp: rows_agree_def in_dvals simp del: set_map)
  with a(1) obtain g where "dget gs (fst row) = Some g" "dget (kg_entities g) (en_id (snd row)) = Some (snd row)"
    unfolding rows_agree_def table_agrees_def by (metis prod.collapse)
  with a(2) show ?thesis by (simp add: load_entity_def update_triv)
qed

lemma load_relation_idle: "rows_agree gs d \<Longrightarrow> dget base = dget gs \<Longrightarrow> row \<in> set (dvals (gdb_relations d)) \<Longrightarrow> load_relation row base = base"
proof -
  assume a: "rows_agree gs d" "dget base = dget gs" "row \<in> set (dvals (gdb_relations d))"
  then obtain i where i: "dget (gdb_relations d) i = Some row" by (auto simp: rows_agree_def in_dvals simp del: set_map)
  with a(1) obtain g where "dget gs (fst row) = Some g" "dget (kg_relations g) (re_id (snd row)) = Some (snd row)"
    unfolding rows_agree_def table_agrees_def by (metis prod.collapse)
  with a(2) show ?thesis by (simp add: load_relation_def update_triv)
qed

lemma fold_idle: "\<forall>x \<in> set xs. f x s = s \<Longrightarrow> fold f xs s = s"
  by (induction xs) auto

lemma dget_fold_graphs:
  "dict_ok rows \<Longrightarrow> (\<forall>(i, g) \<in> set rows. kg_id g = i) \<Longrightarrow>
     dget (fold (\<lambda>g. dset (kg_id g) g) (dvals rows) base) i = (case dget rows i of Some g \<Rightarrow> Some g | None \<Rightarrow> dget base i)"
proof (induction rows arbitrary: base)
  case (Cons kv rows)
  obtain j g where [simp]: "kv = (j, g)" by (cases kv)
  from Cons.prems have "dget rows j = None" "dict_ok rows" "kg_id g = j" "\<forall>(i, g) \<in> set rows. kg_id g = i"
    by (auto simp: dict_ok_def dget_None_iff)
  with Cons.IH [of "dset j g base"] show ?case by (simp add: dget_dset split: option.splits)
qed simp

lemma load_agreeing:
  assumes "rows_agree gs d" and "\<forall>i g. dget gs i = Some g \<longrightarrow> kg_id g = i"
  shows "dget (load_graphs d) = dget gs"
proof -
  let ?base = "fold (\<lambda>g. dset (kg_id g) g) (dvals (gdb_graphs d)) []"
  have base: "dget ?base = dget gs"
  proof
    fix i
    have "\<forall>(i, g) \<in> set (gdb_graphs d). kg_id g = i"
      using assms by (auto simp: rows_agree_def dget_iff_in [symmetric])
    with assms(1) show "dget ?base i = dget gs i"
      by (subst dget_fold_graphs) (simp_all add: rows_agree_def split: option.splits)
  qed
  then have "fold load_entity (dvals (gdb_entities d)) ?base = ?base"
    using load_entity_idle [OF assms(1)] by (intro fold_idle) blast
  moreover have "fold load_relation (dvals (gdb_relations d)) ?base = ?base"
    using load_relation_idle [OF assms(1) base] by (intro fold_idle) blast
  ultimately show ?thesis using base by (simp add: load_graphs_def)
qed

section \<open>The engine as a system\<close>

text \<open>Every call a client can make, in any order.\<close>

inductive kg_step :: "(nat \<Rightarrow> string) \<Rightarrow> kengine \<Rightarrow> kengine \<Rightarrow> bool" for uid where
  kg_create: "kg_step uid k (snd (create_graph uid now name k))"
| kg_delete: "kg_step uid k (snd (delete_graph gid k))"
| kg_entity: "kg_step uid k (snd (add_entity now gid e k))"
| kg_relation: "kg_step uid k (snd (add_relation now gid r k))"
| kg_merge: "kg_step uid k (snd (merge_entities now gid cid dups k))"
| kg_infer: "kg_step uid k (snd (run_inference uid now gid rules n k))"
| kg_query: "query uid emb start fin gid q k = Some (r, k') \<Longrightarrow> kg_step uid k k'"

definition kg_init :: "kengine \<Rightarrow> bool" where
  "kg_init k \<longleftrightarrow> ke_graphs k = []"

interpretation semantic: guarded_system kg_init "kg_step uid" engine_wf for uid
proof
  fix k
  assume "kg_init k"
  then show "engine_wf k" by (simp add: kg_init_def engine_wf_def)
next
  fix k k'
  assume "engine_wf k" and "kg_step uid k k'"
  from this(2,1) show "engine_wf k'"
    by cases (auto intro: create_graph_wf delete_graph_wf add_entity_wf add_relation_wf merge_entities_wf run_inference_wf query_wf)
qed

text \<open>The calls that merge nothing, on an engine whose fresh graph ids are really fresh.\<close>

definition merges_nothing :: "rule list \<Rightarrow> bool" where
  "merges_nothing rules \<longleftrightarrow> (\<forall>ru \<in> set rules. ru_enabled ru \<longrightarrow> ru_action ru \<noteq> ''merge_entities'')"

inductive kg_growth :: "(nat \<Rightarrow> string) \<Rightarrow> kengine \<Rightarrow> kengine \<Rightarrow> bool" for uid where
  grow_create: "dget (ke_graphs k) (uid (ke_next k)) = None \<Longrightarrow> kg_growth uid k (snd (create_graph uid now name k))"
| grow_delete: "kg_growth uid k (snd (delete_graph gid k))"
| grow_entity: "kg_growth uid k (snd (add_entity now gid e k))"
| grow_relation: "kg_growth uid k (snd (add_relation now gid r k))"
| grow_infer: "merges_nothing rules \<Longrightarrow> kg_growth uid k (snd (run_inference uid now gid rules n k))"

lemma create_graph_mirrored:
  assumes "mirrored k" and "dget (ke_graphs k) (uid (ke_next k)) = None"
  shows "mirrored (snd (create_graph uid now name k))"
proof -
  let ?g = "fst (create_graph uid now name k)" and ?k = "k\<lparr>ke_next := ke_next k + 1\<rparr>"
  have "saveable ?g ?k" using assms by (intro grown_saveable [where k = k]) (simp_all add: create_graph_def Let_def)
  moreover have "graph_wf ?g" by (simp add: create_graph_def Let_def graph_wf_def)
  ultimately have "mirrored (ke_persist ?g (ke_write ?g ?k))" by (rule saved_mirrored [rotated])
  then show ?thesis by (simp add: create_graph_def Let_def)
qed

lemma table_deleted:
  assumes "table_agrees ident part gs t" and "dict_ok t"
  shows "table_agrees ident part (ddel gid gs) (filter (\<lambda>(_, (g, _)). g \<noteq> gid) t)"
  unfolding table_agrees_def
proof (intro allI impI)
  fix i g v
  assume "dget (filter (\<lambda>(_, (g, _)). g \<noteq> gid) t) i = Some (g, v)"
  then have "dget t i = Some (g, v)" "g \<noteq> gid" using assms(2) by (auto simp: dget_iff_in dest: dget_Some_in)
  with assms(1) show "ident v = i \<and> (\<exists>h. dget (ddel gid gs) g = Some h \<and> dget (part h) i = Some v)"
    unfolding table_agrees_def by simp
qed

lemma delete_graph_mirrored:
  assumes "mirrored k"
  shows "mirrored (snd (delete_graph gid k))"
proof (cases "dget (ke_graphs k) gid")
  case None
  with assms show ?thesis by (simp add: delete_graph_def)
next
  case (Some g)
  have "rows_agree (ddel gid gs) (d\<lparr>gdb_graphs := ddel gid (gdb_graphs d),
      gdb_entities := filter (\<lambda>(_, (g, _)). g \<noteq> gid) (gdb_entities d), gdb_relations := filter (\<lambda>(_, (g, _)). g \<noteq> gid) (gdb_relations d)\<rparr>)"
    if "rows_agree gs d" for gs d
    using that by (simp add: rows_agree_def table_deleted dict_ok_filter dget_ddel)
  moreover have "gid \<in> fst ` set (ke_graphs k)" using Some dget_None_iff [of "ke_graphs k" gid] by simp
  moreover have "ke_store k = None \<or> (\<exists>m d. ke_store k = Some \<lparr>gst_mem = m, gst_db = d\<rparr>)"
    by (cases "ke_store k") (auto, metis graph_store.cases)
  moreover have "{x \<in> fst ` set (ke_graphs k). gid \<noteq> x} = fst ` set (ke_graphs k) - {gid}" by blast
  ultimately show ?thesis using Some assms
    by (elim disjE exE) (simp_all add: mirrored_def store_like_def delete_graph_def gst_delete_def, blast)
qed

lemma add_entity_mirrored:
  assumes "engine_wf k" and "mirrored k"
  shows "mirrored (snd (add_entity now gid e k))"
proof (cases "dget (ke_graphs k) gid")
  case None
  with assms show ?thesis by (simp add: add_entity_def)
next
  case (Some g)
  from engine_wfD [OF assms(1) Some] have g: "kg_id g = gid" "graph_wf g" by auto
  obtain h where h: "ke_graphs (snd (add_entity now gid e k)) = dset gid h (ke_graphs k)" "kg_id h = gid"
      "kg_relations h = kg_relations g" "\<forall>i. dget (kg_entities g) i \<noteq> None \<longrightarrow> dget (kg_entities h) i \<noteq> None"
      "ke_store (snd (add_entity now gid e k)) = ke_store (ke_persist h (ke_write h k))"
  proof (cases "same_name (en_name e) (dvals (kg_entities g))")
    case None
    then show ?thesis using Some g
      by (intro that [of "touch now (g\<lparr>kg_entities := dset (en_id e) e (kg_entities g)\<rparr>)"]) (auto simp: add_entity_def Let_def dget_dset)
  next
    case (Some x)
    let ?x = "(absorb x e)\<lparr>en_source := (if en_source e = [] then en_source x else en_source e)\<rparr>"
    show ?thesis using \<open>dget (ke_graphs k) gid = Some g\<close> g Some
      by (intro that [of "touch now (g\<lparr>kg_entities := dset (en_id x) ?x (kg_entities g)\<rparr>)"]) (auto simp: add_entity_def Let_def dget_dset)
  qed
  have "graph_wf h" using engine_wfD [OF add_entity_wf [OF assms(1)], of now gid e gid h] h(1) by simp
  moreover have "saveable h k" using assms(2) Some h g(1) by (intro grown_saveable [where k = k]) auto
  ultimately have "mirrored (ke_persist h (ke_write h k))" by (rule saved_mirrored)
  then show ?thesis by (rule mirrored_same) (use h in simp_all)
qed

lemma add_relation_mirrored:
  assumes "engine_wf k" and "mirrored k"
  shows "mirrored (snd (add_relation now gid r k))"
proof (cases "\<exists>g. dget (ke_graphs k) gid = Some g \<and> dget (kg_entities g) (re_source r) \<noteq> None \<and> dget (kg_entities g) (re_target r) \<noteq> None")
  case True
  then obtain g where g: "dget (ke_graphs k) gid = Some g" "dget (kg_entities g) (re_source r) \<noteq> None" "dget (kg_entities g) (re_target r) \<noteq> None" by blast
  let ?h = "touch now (g\<lparr>kg_relations := dset (re_id r) r (kg_relations g)\<rparr>)"
  have "graph_wf ?h" using g(2,3) engine_wfD [OF assms(1) g(1)] by (simp add: graph_wf_relation)
  moreover have "saveable ?h k"
    using assms(2) g(1) engine_wfD [OF assms(1) g(1)] by (intro grown_saveable [where k = k]) (auto simp: dget_dset)
  ultimately have "mirrored (ke_persist ?h (ke_write ?h k))" by (rule saved_mirrored)
  then show ?thesis by (rule mirrored_same) (use g in \<open>auto simp: add_relation_def Let_def\<close>)
next
  case False
  then show ?thesis using assms by (auto simp: add_relation_def split: option.splits)
qed

lemma rule_done_mirrored:
  assumes "dget (ke_graphs k) gid = Some g" and "mirrored k" and "linked_up gid g k k1"
  shows "mirrored (snd (rule_done uid now gid ru matched ids k1))"
proof -
  from assms(3) obtain h where h: "dget (ke_graphs k1) gid = Some h" "kg_entities h = kg_entities g"
      "\<forall>i. dget (kg_relations g) i \<noteq> None \<longrightarrow> dget (kg_relations h) i \<noteq> None" "engine_wf k1"
      "ke_store k1 = ke_store k" "\<forall>j. j \<noteq> gid \<longrightarrow> dget (ke_graphs k1) j = dget (ke_graphs k) j"
    unfolding linked_up_def by blast
  let ?h = "h\<lparr>kg_updated_at := now\<rparr>"
  have "graph_wf ?h" using engine_wfD [OF h(4,1)] by (subst graph_wf_cong [of _ h]) auto
  moreover have "saveable ?h k1"
    using assms(1) h engine_wfD [OF h(4,1)] by (intro grown_saveable [OF assms(2)]) auto
  ultimately have "mirrored (ke_persist ?h (ke_write ?h k1))" by (rule saved_mirrored)
  then show ?thesis by (rule mirrored_same) (use h(1) in \<open>simp_all add: rule_done_def Let_def\<close>)
qed

lemma fire_rule_mirrored:
  assumes "engine_wf k" and "mirrored k" and "ru_action ru \<noteq> ''merge_entities''"
  shows "mirrored (snd (fire_rule uid now gid ru k))"
proof (cases "dget (ke_graphs k) gid")
  case None
  with assms show ?thesis by (simp add: fire_rule_def)
next
  case (Some g)
  have "linked_up gid g k (snd (link_pairs uid gid (match_rule g ru) k))"
    using match_rule_ends engine_wfD [OF assms(1) Some] by (intro link_pairs_linked [OF assms(1) Some]) fastforce
  moreover have "linked_up gid g k k" using Some assms(1) by (simp add: linked_up_def)
  ultimately show ?thesis
    using Some assms(2,3) rule_done_mirrored [OF Some assms(2)] by (auto simp: fire_rule_def Let_def case_prod_beta)
qed

lemma fire_rules_mirrored:
  assumes "engine_wf k" and "mirrored k" and "\<forall>ru \<in> set rus. ru_action ru \<noteq> ''merge_entities''"
  shows "mirrored (snd (fire_rules uid now gid rus k))"
  using assms
proof (induction rus arbitrary: k)
  case (Cons ru rus)
  obtain r k1 where f: "fire_rule uid now gid ru k = (r, k1)" by (cases "fire_rule uid now gid ru k")
  with fire_rule_wf [OF Cons.prems(1), of uid now gid ru] fire_rule_mirrored [OF Cons.prems(1,2), of ru uid now gid] Cons.prems(3)
  have "engine_wf k1" "mirrored k1" by auto
  with Cons.IH [of k1] Cons.prems(3) f show ?case by (auto split: sum.splits prod.splits)
qed simp

lemma infer_loop_mirrored:
  assumes "engine_wf k" and "mirrored k" and "\<forall>ru \<in> set active. ru_action ru \<noteq> ''merge_entities''"
  shows "mirrored (snd (infer_loop uid now gid active n k))"
  using assms(1,2)
proof (induction n arbitrary: k)
  case (Suc n)
  obtain r k1 where f: "fire_rules uid now gid active k = (r, k1)" by (cases "fire_rules uid now gid active k")
  with fire_rules_wf [OF Suc.prems(1), of uid now gid active] fire_rules_mirrored [OF Suc.prems assms(3), of uid now gid]
  have "engine_wf k1" "mirrored k1" by auto
  with Suc.IH [of k1] f show ?case by (auto split: sum.splits prod.splits)
qed simp

lemma run_inference_mirrored:
  assumes "engine_wf k" and "mirrored k" and "merges_nothing rules"
  shows "mirrored (snd (run_inference uid now gid rules n k))"
  using assms infer_loop_mirrored [OF assms(1,2)]
  by (auto simp: run_inference_def merges_nothing_def split: option.splits)

definition kg_init_empty :: "kengine \<Rightarrow> bool" where
  "kg_init_empty k \<longleftrightarrow>
     ke_graphs k = [] \<and> ke_store k = Some \<lparr>gst_mem = [], gst_db = Some \<lparr>gdb_graphs = [], gdb_entities = [], gdb_relations = []\<rparr>\<rparr>"

interpretation growing: guarded_system kg_init_empty "kg_growth uid" "\<lambda>k. engine_wf k \<and> mirrored k" for uid
proof
  fix k
  assume "kg_init_empty k"
  then show "engine_wf k \<and> mirrored k"
    by (simp add: kg_init_empty_def engine_wf_def mirrored_def store_like_def rows_agree_def table_agrees_def)
next
  fix k k'
  assume "engine_wf k \<and> mirrored k" and "kg_growth uid k k'"
  from this(2,1) show "engine_wf k' \<and> mirrored k'"
    by cases (auto intro: create_graph_wf delete_graph_wf add_entity_wf add_relation_wf run_inference_wf
        create_graph_mirrored delete_graph_mirrored add_entity_mirrored add_relation_mirrored run_inference_mirrored)
qed

section \<open>A small engine\<close>

definition demo_uid :: "nat \<Rightarrow> string" where
  "demo_uid n = (if n = 0 then ''g'' else ''u'')"

definition demo_db :: graph_db where
  "demo_db = \<lparr>gdb_graphs = [], gdb_entities = [], gdb_relations = []\<rparr>"

definition demo_entity :: "string \<Rightarrow> entity" where
  "demo_entity i = \<lparr>en_id = i, en_name = i, en_type = CONCEPT, en_properties = [], en_source = ''s'', en_confidence = 1\<rparr>"

definition demo_relation :: relation where
  "demo_relation = \<lparr>re_id = ''r'', re_source = ''a'', re_target = ''b'', re_type = KNOWS, re_weight = 1, re_bidirectional = False\<rparr>"

definition demo_k0 :: kengine where
  "demo_k0 = open_engine wired (Some (Some demo_db)) 0"

definition demo_k2 :: kengine where
  "demo_k2 = snd (add_entity 2 ''g'' (demo_entity ''b'') (snd (add_entity 1 ''g'' (demo_entity ''a'') (snd (create_graph demo_uid 0 ''G'' demo_k0)))))"

definition demo_k :: kengine where
  "demo_k = snd (add_relation 3 ''g'' demo_relation demo_k2)"

definition demo_graph :: kgraph where
  "demo_graph = \<lparr>kg_id = ''g'', kg_name = ''G'', kg_entities = [(''a'', demo_entity ''a''), (''b'', demo_entity ''b'')],
     kg_relations = [(''r'', demo_relation)], kg_version = 4, kg_updated_at = 3\<rparr>"

definition chain_graph :: kgraph where
  "chain_graph = \<lparr>kg_id = ''g'', kg_name = ''G'', kg_entities = map (\<lambda>i. (i, demo_entity i)) [''a'', ''b'', ''c''],
     kg_relations = [(''r'', demo_relation), (''s'', demo_relation\<lparr>re_id := ''s'', re_source := ''b'', re_target := ''c''\<rparr>)],
     kg_version = 1, kg_updated_at = 0\<rparr>"

definition chain_rule :: rule where
  "chain_rule = \<lparr>ru_id = ''m'', ru_source_type = None, ru_relation = Some ''knows'', ru_target_type = None, ru_action = ''merge_entities'', ru_priority = 0, ru_enabled = True\<rparr>"

lemmas demo_defs = demo_uid_def demo_db_def demo_entity_def demo_relation_def demo_k0_def demo_k2_def demo_k_def demo_graph_def
  open_engine_def load_graphs_def create_graph_def add_entity_def add_relation_def ke_emit_def ke_write_def ke_persist_def ke_fresh_def
  touch_def gst_put_def emit_def wired_def row_replace_def lower_def lower_char_def

lemma demo_k2_value: "dget (ke_graphs demo_k2) ''g'' = Some (demo_graph\<lparr>kg_relations := [], kg_version := 3, kg_updated_at := 2\<rparr>)"
  by (simp add: demo_defs Let_def)

lemma demo_k_value: "dget (ke_graphs demo_k) ''g'' = Some demo_graph"
  by (simp add: demo_k_def add_relation_def demo_k2_value) (simp add: demo_defs Let_def)

lemma demo_init: "kg_init demo_k0" "kg_init_empty demo_k0"
  by (simp_all add: demo_k0_def kg_init_def kg_init_empty_def open_engine_def load_graphs_def demo_db_def)

lemma demo_k2_growth: "(kg_growth demo_uid)\<^sup>*\<^sup>* demo_k0 demo_k2"
proof -
  let ?k = "snd (create_graph demo_uid 0 ''G'' demo_k0)"
  have "kg_growth demo_uid demo_k0 ?k"
    by (rule grow_create) (simp add: demo_k0_def open_engine_def load_graphs_def demo_db_def)
  moreover have "kg_growth demo_uid ?k (snd (add_entity 1 ''g'' (demo_entity ''a'') ?k))" by (rule grow_entity)
  moreover have "kg_growth demo_uid (snd (add_entity 1 ''g'' (demo_entity ''a'') ?k)) demo_k2" unfolding demo_k2_def by (rule grow_entity)
  ultimately show ?thesis by (rule converse_rtranclp_into_rtranclp [OF _ converse_rtranclp_into_rtranclp [OF _ r_into_rtranclp]])
qed

lemma demo_growth: "(kg_growth demo_uid)\<^sup>*\<^sup>* demo_k0 demo_k"
  by (rule rtranclp.rtrancl_into_rtrancl [OF demo_k2_growth]) (simp add: demo_k_def grow_relation)

lemma growth_steps: "kg_growth uid k k' \<Longrightarrow> kg_step uid k k'"
  by (induction rule: kg_growth.induct) (auto intro: kg_step.intros)

lemma demo_reachable: "(kg_step demo_uid)\<^sup>*\<^sup>* demo_k0 demo_k"
  using demo_growth by (rule rtranclp_mono [THEN predicate2D, rotated]) (auto intro: growth_steps)

section \<open>Properties\<close>

text \<open>
  C16: Whatever clients call, in whatever order and with whatever arguments (creating and deleting
  graphs, adding entities and relations, merging, running inference, querying, failing calls
  included), every graph of the engine stays well formed: entities and relations are filed under
  their ids, no two entities have the same name up to case, and no relation has an end that is not
  an entity of the graph. (Clients give each entity and relation object to one graph only.)\<close>

theorem semantic_graph_invariant:
  assumes "kg_init k0" and "(kg_step uid)\<^sup>*\<^sup>* k0 k" and "dget (ke_graphs k) gid = Some g"
  shows "kg_id g = gid \<and> graph_wf g"
  using engine_wfD [OF semantic.reachable_inv [OF assms(1,2)] assms(3)] .

theorem semantic_graph_invariant_witness:
  "dget (ke_graphs demo_k) ''g'' = Some demo_graph \<and> dget (kg_relations demo_graph) ''r'' \<noteq> None \<and> graph_wf demo_graph"
  using semantic_graph_invariant [OF demo_init(1) demo_reachable demo_k_value] demo_k_value by (simp add: demo_graph_def)

text \<open>
  C17: As long as nothing is merged, closing the kernel and opening it again on the same database
  loses nothing: whatever graphs were created and deleted, and whatever entities, relations and
  inferred links were added to them, the new engine has exactly the graphs of the old one, with the
  same entities, relations and version numbers. Fresh graph ids are assumed not to repeat.\<close>

theorem semantic_graph_reload:
  assumes "kg_init_empty k0" and "(kg_growth uid)\<^sup>*\<^sup>* k0 k" and "ke_store k = Some st" and "gst_db st = Some d"
  shows "dget (ke_graphs (open_engine snk (Some (Some d)) n)) = dget (ke_graphs k)"
proof -
  from growing.reachable_inv [OF assms(1,2)] have "engine_wf k" "mirrored k" by auto
  then have "dget (load_graphs d) = dget (ke_graphs k)"
    using assms(3,4) by (intro load_agreeing) (auto simp: mirrored_def store_like_def dest: engine_wfD)
  then show ?thesis by (simp add: open_engine_def)
qed

theorem semantic_graph_reload_witness:
  "\<exists>st d. ke_store demo_k = Some st \<and> gst_db st = Some d \<and> dget (ke_graphs (open_engine wired (Some (Some d)) 7)) ''g'' = Some demo_graph"
proof -
  obtain st d where "ke_store demo_k = Some st" "gst_db st = Some d"
    by (simp add: demo_defs Let_def)
  with semantic_graph_reload [OF demo_init(2) demo_growth this, of wired 7] demo_k_value show ?thesis by auto
qed

text \<open>
  C15: \<open>find_path\<close> always returns, for every graph, however large, and every value of the unused
  depth limit: a walk from the first entity to the second with the fewest relations possible, each
  relation followed forwards or, when it is bidirectional, backwards; and \<open>None\<close> exactly when
  there is no such walk at all. No predecessor is ever missing when the path is rebuilt.\<close>

theorem find_path_shortest:
  assumes "dget (ke_graphs k) gid = Some g" and "dget (kg_entities g) a \<noteq> None" and "dget (kg_entities g) t \<noteq> None"
  shows "if \<exists>q. walk g a q t
     then \<exists>p. find_path gid a t max_depth k = Some (Inr (Some p)) \<and> walk g a p t \<and> (\<forall>q. walk g a q t \<longrightarrow> length p \<le> length q)
     else find_path gid a t max_depth k = Some (Inr None)"
proof -
  let ?prev = "bfs g t ([a], [a], [])"
  have "labelled g a (\<lambda>_. 0) [a] []" "frontier g (\<lambda>_. 0) {} [a] [a]" by (auto simp: labelled_def frontier_def)
  from bfs_labels [OF this, of t] obtain d seen where
    d: "labelled g a d seen ?prev" "\<forall>p. walk g a p t \<longrightarrow> t \<in> set seen \<and> d t \<le> length p" by (auto simp del: bfs.simps)
  have path: "find_path gid a t max_depth k =
      (if dget ?prev t = None \<and> a \<noteq> t then Some (Inr None) else map_option (map_sum id Some) (trace_back ?prev a t []))"
    using assms by (auto simp: find_path_def Let_def simp del: bfs.simps)
  show ?thesis
  proof (cases "t \<in> set seen")
    case True
    then have "\<not> (dget ?prev t = None \<and> a \<noteq> t)" using d(1) unfolding labelled_def by fastforce
    moreover obtain p where "trace_back ?prev a t [] = Some (Inr p)" "walk g a p t" "length p = d t"
      using trace_back_walk [OF d(1) True, of "[]"] by auto
    ultimately show ?thesis using d(2) path by auto
  next
    case False
    then have "dget ?prev t = None \<and> a \<noteq> t" using d(1) unfolding labelled_def by blast
    with path False d(2) show ?thesis by auto
  qed
qed

theorem find_path_shortest_witness:
  "(\<exists>p. find_path ''g'' ''a'' ''b'' 0 demo_k = Some (Inr (Some p)) \<and> walk demo_graph ''a'' p ''b'' \<and> length p \<le> 1) \<and>
   find_path ''g'' ''b'' ''a'' 5 demo_k = Some (Inr None)"
proof
  have e: "dget (kg_entities demo_graph) ''a'' \<noteq> None" "dget (kg_entities demo_graph) ''b'' \<noteq> None"
    by (simp_all add: demo_graph_def)
  have w: "walk demo_graph ''a'' [demo_relation] ''b''" by (simp add: demo_graph_def demo_relation_def other_end_def)
  then have ex: "\<exists>q. walk demo_graph ''a'' q ''b''" by blast
  have "\<exists>p. find_path ''g'' ''a'' ''b'' 0 demo_k = Some (Inr (Some p)) \<and> walk demo_graph ''a'' p ''b'' \<and> (\<forall>q. walk demo_graph ''a'' q ''b'' \<longrightarrow> length p \<le> length q)"
    using find_path_shortest [OF demo_k_value e, of 0] unfolding if_P [OF ex] .
  with w show "\<exists>p. find_path ''g'' ''a'' ''b'' 0 demo_k = Some (Inr (Some p)) \<and> walk demo_graph ''a'' p ''b'' \<and> length p \<le> 1"
    by fastforce
  have "\<not> walk demo_graph ''b'' q ''a''" for q
    by (cases q) (auto simp: demo_graph_def demo_relation_def)
  with find_path_shortest [OF demo_k_value e(2,1), of 5] show "find_path ''g'' ''b'' ''a'' 5 demo_k = Some (Inr None)" by simp
qed

subsection \<open>What a merge leaves in the database\<close>

lemma load_entity_keeps: "dget gs gid = Some g \<Longrightarrow> \<exists>h. dget (load_entity row gs) gid = Some h \<and> (\<forall>i. dget (kg_entities g) i \<noteq> None \<longrightarrow> dget (kg_entities h) i \<noteq> None)"
  by (auto simp: load_entity_def dget_dset split: option.splits)

lemma load_relation_keeps: "dget gs gid = Some g \<Longrightarrow> \<exists>h. dget (load_relation row gs) gid = Some h \<and> (\<forall>i. dget (kg_entities g) i \<noteq> None \<longrightarrow> dget (kg_entities h) i \<noteq> None)"
  by (auto simp: load_relation_def dget_dset split: option.splits)

lemma fold_keeps:
  assumes "\<forall>row gs g. dget gs gid = Some g \<longrightarrow> (\<exists>h. dget (f row gs) gid = Some h \<and> (\<forall>i. dget (kg_entities g) i \<noteq> None \<longrightarrow> dget (kg_entities h) i \<noteq> None))"
    and "dget gs gid = Some g"
  shows "\<exists>h. dget (fold f rows gs) gid = Some h \<and> (\<forall>i. dget (kg_entities g) i \<noteq> None \<longrightarrow> dget (kg_entities h) i \<noteq> None)"
  using assms(2)
proof (induction rows arbitrary: gs g)
  case (Cons row rows)
  with assms(1) obtain h where "dget (f row gs) gid = Some h" "\<forall>i. dget (kg_entities g) i \<noteq> None \<longrightarrow> dget (kg_entities h) i \<noteq> None" by blast
  with Cons.IH [of "f row gs" h] show ?case by (metis fold_simps(2))
qed simp

lemma load_entities_keep: "dget gs gid = Some g \<Longrightarrow> \<exists>h. dget (fold load_entity rows gs) gid = Some h \<and> (\<forall>i. dget (kg_entities g) i \<noteq> None \<longrightarrow> dget (kg_entities h) i \<noteq> None)"
  by (rule fold_keeps) (blast intro: load_entity_keeps)+

lemma load_relations_keep: "dget gs gid = Some g \<Longrightarrow> \<exists>h. dget (fold load_relation rows gs) gid = Some h \<and> (\<forall>i. dget (kg_entities g) i \<noteq> None \<longrightarrow> dget (kg_entities h) i \<noteq> None)"
  by (rule fold_keeps) (blast intro: load_relation_keeps)+

text \<open>A row of the table of entities is an entity of its graph after loading.\<close>

lemma loaded_row:
  assumes "dict_ok (gdb_graphs d)" and "\<forall>(i, g) \<in> set (gdb_graphs d). kg_id g = i" and "dget (gdb_graphs d) gid \<noteq> None"
    and "(gid, e) \<in> set (dvals (gdb_entities d))"
  shows "\<exists>h. dget (load_graphs d) gid = Some h \<and> dget (kg_entities h) (en_id e) \<noteq> None"
proof -
  let ?base = "fold (\<lambda>g. dset (kg_id g) g) (dvals (gdb_graphs d)) []"
  from split_list [OF assms(4)] obtain xs ys where rows: "dvals (gdb_entities d) = xs @ (gid, e) # ys" by blast
  obtain g0 where "dget ?base gid = Some g0" using assms(3) dget_fold_graphs [OF assms(1,2), of "[]" gid] by auto
  from load_entities_keep [OF this, of xs] obtain g where g: "dget (fold load_entity xs ?base) gid = Some g" by blast
  let ?g = "g\<lparr>kg_entities := dset (en_id e) e (kg_entities g)\<rparr>"
  have "dget (load_entity (gid, e) (fold load_entity xs ?base)) gid = Some ?g" using g by (simp add: load_entity_def)
  from load_entities_keep [OF this, of ys] obtain h where
    h: "dget (fold load_entity (dvals (gdb_entities d)) ?base) gid = Some h" "dget (kg_entities h) (en_id e) \<noteq> None" unfolding rows by auto
  from load_relations_keep [OF h(1), of "dvals (gdb_relations d)"] h(2) show ?thesis unfolding load_graphs_def by blast
qed

lemma merge_entities_pair:
  assumes "dget (ke_graphs k) gid = Some g" and "dget (kg_entities g) cid = Some c" and "dget (kg_entities g) dup = Some e" and "dup \<noteq> cid"
  shows "\<exists>h x y. merge_entities now gid cid [dup] k = (Inr (absorb c e), ke_emit x (ke_emit y (ke_persist h (ke_write h k)))) \<and>
    kg_id h = kg_id g \<and> kg_entities h = ddel dup (dset cid (absorb c e) (kg_entities g))"
proof -
  let ?h = "touch now (fst (merge_one cid dup (g, [])))"
  have "merge_one cid dup (g, []) = (fst (merge_one cid dup (g, [])), [dup])" using assms by (simp add: merge_one_def)
  then have "merge_entities now gid cid [dup] k =
      (Inr (absorb c e), ke_emit (GraphUpdated gid (kg_version ?h) (''merge:'' @ cid)) (ke_emit (EntityMerged gid cid [dup] ''duplicate'') (ke_persist ?h (ke_write ?h k))))"
    using assms by (simp add: merge_entities_def Let_def) (simp add: merge_one_def)
  moreover have "kg_id ?h = kg_id g" "kg_entities ?h = ddel dup (dset cid (absorb c e) (kg_entities g))" using assms by (simp_all add: merge_one_def)
  ultimately show ?thesis by blast
qed

text \<open>
  Merging an entity into another removes it from the graph in memory, but not from the
  database: saving a graph only inserts or replaces rows, so the row of the merged entity stays and
  the next kernel that opens the database has the entity back in the graph. This holds for every
  engine whose database agreed with its memory before the merge.\<close>

theorem merged_entity_returns:
  assumes "engine_wf k" and "mirrored k" and "ke_store k = Some st" and "gst_db st = Some d"
    and "dget (ke_graphs k) gid = Some g" and "dget (kg_entities g) cid = Some c"
    and "dget (gdb_entities d) dup = Some (gid, e)" and "dup \<noteq> cid"
  shows "case merge_entities now gid cid [dup] k of (res, k') \<Rightarrow>
     res = Inr (absorb c e) \<and> get_entity gid dup k' = None \<and>
     (\<exists>st' d'. ke_store k' = Some st' \<and> gst_db st' = Some d' \<and> get_entity gid dup (open_engine snk (Some (Some d')) n) \<noteq> None)"
proof -
  have agree: "rows_agree (ke_graphs k) d" using assms(2-4) by (simp add: mirrored_def store_like_def)
  then have "table_agrees en_id kg_entities (ke_graphs k) (gdb_entities d)" by (simp add: rows_agree_def)
  with assms(5,7) have dup: "en_id e = dup" "dget (kg_entities g) dup = Some e" unfolding table_agrees_def by fastforce+
  obtain h x y where m: "merge_entities now gid cid [dup] k = (Inr (absorb c e), ke_emit x (ke_emit y (ke_persist h (ke_write h k))))"
      "kg_id h = kg_id g" "kg_entities h = ddel dup (dset cid (absorb c e) (kg_entities g))"
    using merge_entities_pair [OF assms(5,6) dup(2) assms(8)] by blast
  have "kg_id g = gid" using engine_wfD [OF assms(1,5)] by simp
  with m have id: "kg_id h = gid" by simp
  have wf: "graph_wf h" using engine_wfD [OF merge_entities_wf [OF assms(1), of now gid cid "[dup]"], of gid h] m id by simp
  obtain d' where d': "gst_db (gst_put h st) = Some d'"
      "\<forall>j. dget (gdb_graphs d') j = (if j = kg_id h then Some h else dget (gdb_graphs d) j)"
      "\<forall>i. dget (gdb_entities d') i = (case dget (kg_entities h) i of Some e \<Rightarrow> Some (kg_id h, e) | None \<Rightarrow> dget (gdb_entities d) i)"
      "dict_ok (gdb_graphs d) \<longrightarrow> dict_ok (gdb_graphs d')" by (rule put_tables [OF wf assms(4)]) (rule that, assumption+)
  have ok: "dict_ok (gdb_graphs d')" using d'(4) agree by (simp add: rows_agree_def)
  have "kg_id j = i" if "(i, j) \<in> set (gdb_graphs d')" for i j
  proof (cases "i = gid")
    case True
    with that d'(2) ok id show ?thesis by (simp add: dget_iff_in [OF ok, symmetric])
  next
    case False
    with that d'(2) ok id agree have "dget (ke_graphs k) i = Some j" by (simp add: dget_iff_in [OF ok, symmetric] rows_agree_def)
    with engine_wfD [OF assms(1)] show ?thesis by simp
  qed
  then have "\<forall>(i, j) \<in> set (gdb_graphs d'). kg_id j = i" by blast
  moreover have "dget (gdb_entities d') dup = Some (gid, e)" using d'(3) m(3) assms(7) by simp
  then have "(gid, e) \<in> set (dvals (gdb_entities d'))" by (metis dget_Some_in image_eqI set_map snd_conv)
  ultimately have "\<exists>j. dget (load_graphs d') gid = Some j \<and> dget (kg_entities j) dup \<noteq> None"
    using loaded_row [OF ok] d'(2) id dup(1) by fastforce
  then have "get_entity gid dup (open_engine snk (Some (Some d')) n) \<noteq> None" by (auto simp: get_entity_def open_engine_def)
  moreover have "get_entity gid dup (ke_emit x (ke_emit y (ke_persist h (ke_write h k)))) = None" using id m(3) by (simp add: get_entity_def)
  ultimately show ?thesis using m(1) d'(1) assms(3) by simp
qed

theorem merged_entity_returns_witness:
  "case merge_entities 9 ''g'' ''a'' [''b''] demo_k2 of (res, k') \<Rightarrow>
     res = Inr (absorb (demo_entity ''a'') (demo_entity ''b'')) \<and> get_entity ''g'' ''b'' k' = None \<and>
     (\<exists>st d. ke_store k' = Some st \<and> gst_db st = Some d \<and> get_entity ''g'' ''b'' (open_engine wired (Some (Some d)) 0) \<noteq> None)"
proof -
  obtain st d where s: "ke_store demo_k2 = Some st" "gst_db st = Some d" "dget (gdb_entities d) ''b'' = Some (''g'', demo_entity ''b'')"
    by (simp add: demo_defs Let_def)
  have "engine_wf demo_k2 \<and> mirrored demo_k2" using growing.reachable_inv [OF demo_init(2) demo_k2_growth] .
  then show ?thesis
    by (intro merged_entity_returns [OF _ _ s(1,2) demo_k2_value _ s(3)]) (simp_all add: demo_graph_def)
qed

text \<open>
  An inference rule that merges entities fails on any chain: when the pattern matches a to b and
  then b to c, the rule first merges b into a and then raises a \<open>KeyError\<close> for b, which is gone; the
  first merge stays, the rule is not reported as fired and no later rule runs.\<close>

theorem merge_rule_fails_on_chain:
  assumes "engine_wf k" and "dget (ke_graphs k) gid = Some g" and "ru_action ru = ''merge_entities''"
    and "match_rule g ru = (a, b) # (b, c) # ps" and "a \<noteq> b"
  shows "case fire_rules uid now gid (ru # rus) k of (res, k') \<Rightarrow>
     res = Inl (KeyError b) \<and> get_entity gid b k' = None \<and> get_entity gid a k' \<noteq> None \<and> k' = snd (merge_entities now gid a [b] k)"
proof -
  have g: "kg_id g = gid" "graph_wf g" using engine_wfD [OF assms(1,2)] by auto
  have "dget (kg_entities g) a \<noteq> None" "dget (kg_entities g) b \<noteq> None" using match_rule_ends [OF g(2), of a b ru] assms(4) by auto
  then obtain x y where xy: "dget (kg_entities g) a = Some x" "dget (kg_entities g) b = Some y" by auto
  obtain h p q where m: "merge_entities now gid a [b] k = (Inr (absorb x y), ke_emit p (ke_emit q (ke_persist h (ke_write h k))))"
      "kg_id h = kg_id g" "kg_entities h = ddel b (dset a (absorb x y) (kg_entities g))"
    using merge_entities_pair [OF assms(2) xy] assms(5) by blast
  let ?k = "ke_emit p (ke_emit q (ke_persist h (ke_write h k)))"
  have h: "dget (ke_graphs ?k) gid = Some h" using m(2) g(1) by simp
  then have "merge_entities now gid b [c] ?k = (Inl (KeyError b), ?k)" using m(3) by (simp add: merge_entities_def)
  then have "fire_rule uid now gid ru k = (Inl (KeyError b), ?k)" using assms(2-4) m(1) by (simp add: fire_rule_def Let_def)
  with h m assms(5) show ?thesis by (simp add: get_entity_def)
qed

theorem merge_rule_fails_on_chain_witness:
  "fst (fire_rules demo_uid 0 ''g'' [chain_rule] \<lparr>ke_sink = wired, ke_graphs = [(''g'', chain_graph)], ke_store = None, ke_next = 0\<rparr>) = Inl (KeyError ''b'')"
proof -
  let ?k = "\<lparr>ke_sink = wired, ke_graphs = [(''g'', chain_graph)], ke_store = None, ke_next = 0\<rparr>"
  have m: "match_rule chain_graph chain_rule = (''a'', ''b'') # (''b'', ''c'') # []"
    by (simp add: match_rule_def match_pair_def chain_graph_def chain_rule_def demo_entity_def demo_relation_def wants_def List.map_filter_simps)
  have "graph_wf chain_graph"
    by (rule graph_wfI) (auto simp: chain_graph_def demo_entity_def demo_relation_def dict_ok_def lower_def lower_char_def split: if_splits)
  then have "engine_wf ?k" by (auto simp: engine_wf_def dict_ok_def chain_graph_def split: if_splits)
  from merge_rule_fails_on_chain [OF this, where gid = "''g''" and g = chain_graph and ru = chain_rule and uid = demo_uid and now = 0 and rus = "[]"] m
  show ?thesis by (simp add: chain_rule_def case_prod_beta)
qed

end
