(* ===== verification/Observability.thy ===== *)
theory Observability
  imports Events Interfaces
begin

text \<open>
  Metrics, traces and logs: \<open>kernel/observability.py\<close>, \<open>kernel/observability_store.py\<close> and
  \<open>kernel/observability_domain.py\<close>.

  \<^item> The clock reading and the fresh id of a call are arguments.
  \<^item> A span object is shared by the engine and the store, which writes it again after every change,
    so both hold equal values between calls and copies are kept here.
  \<^item> How a float is printed is a parameter of \<open>export_metrics\<close>.
  \<^item> Metrics and logs are two interpretations of the ring buffer.
\<close>

section \<open>Data\<close>

datatype metric_type = COUNTER | HISTOGRAM | GAUGE

fun metric_type_value :: "metric_type \<Rightarrow> string" where
  "metric_type_value COUNTER = ''counter''" | "metric_type_value HISTOGRAM = ''histogram''" | "metric_type_value GAUGE = ''gauge''"

record metric_record =
  mr_id :: string
  mr_name :: string
  mr_value :: rat
  mr_type :: metric_type
  mr_labels :: "(string, string) dict"
  mr_time :: datetime

record trace_span =
  sp_id :: string
  sp_trace :: string
  sp_name :: string
  sp_parent :: "string option"
  sp_start :: datetime
  sp_end :: "datetime option"
  sp_status :: string
  sp_correlation :: "string option"

record log_entry =
  le_id :: string
  le_level :: string
  le_message :: string
  le_correlation :: "string option"
  le_context :: pydict
  le_time :: datetime

record obs_db =
  odb_metrics :: "(string, metric_record) dict"
  odb_spans :: "(string, trace_span) dict"
  odb_logs :: "(string, log_entry) dict"

record obs_store =
  os_metrics :: "metric_record list"
  os_spans :: "(string, trace_span) dict"
  os_logs :: "log_entry list"
  os_db :: "obs_db option"

record obs_engine =
  oe_sink :: sink
  oe_store :: "obs_store option"
  oe_metrics_limit :: int
  oe_logs_limit :: int
  oe_spans_limit :: int
  oe_metrics :: "metric_record list"
  oe_logs :: "log_entry list"
  oe_spans :: "(string, trace_span) dict"
  oe_started_at :: datetime
  oe_counters :: "(string, rat) dict"
  oe_last_error :: "string option"
  oe_error_count :: nat

record health_snapshot =
  hs_uptime :: rat
  hs_counters :: "(string, rat) dict"
  hs_last_error :: "string option"
  hs_error_count :: nat
  hs_metrics_buffered :: nat
  hs_logs_buffered :: nat
  hs_spans_active :: nat

section \<open>The store\<close>

definition open_obs_store :: "obs_db option \<Rightarrow> obs_store" where
  "open_obs_store db =
     (case db of
        None \<Rightarrow> \<lparr>os_metrics = [], os_spans = [], os_logs = [], os_db = None\<rparr>
      | Some d \<Rightarrow> \<lparr>os_metrics = dvals (odb_metrics d), os_spans = fold (\<lambda>(i, s). dset i s) (odb_spans d) [], os_logs = dvals (odb_logs d), os_db = Some d\<rparr>)"

definition put_metric :: "metric_record \<Rightarrow> obs_store \<Rightarrow> obs_store" where
  "put_metric m st =
     st\<lparr>os_metrics := os_metrics st @ [m], os_db := map_option (\<lambda>d. d\<lparr>odb_metrics := row_replace (mr_id m) m (odb_metrics d)\<rparr>) (os_db st)\<rparr>"

definition put_span :: "trace_span \<Rightarrow> obs_store \<Rightarrow> obs_store" where
  "put_span s st =
     st\<lparr>os_spans := dset (sp_id s) s (os_spans st), os_db := map_option (\<lambda>d. d\<lparr>odb_spans := row_replace (sp_id s) s (odb_spans d)\<rparr>) (os_db st)\<rparr>"

definition put_log :: "log_entry \<Rightarrow> obs_store \<Rightarrow> obs_store" where
  "put_log e st =
     st\<lparr>os_logs := os_logs st @ [e], os_db := map_option (\<lambda>d. d\<lparr>odb_logs := row_replace (le_id e) e (odb_logs d)\<rparr>) (os_db st)\<rparr>"

definition query_metrics :: "string option \<Rightarrow> datetime option \<Rightarrow> datetime option \<Rightarrow> obs_store \<Rightarrow> metric_record list" where
  "query_metrics name since until st =
     filter (\<lambda>m. (case name of None \<Rightarrow> True | Some n \<Rightarrow> mr_name m = n) \<and>
                 (case since of None \<Rightarrow> True | Some t \<Rightarrow> mr_time m \<ge> t) \<and>
                 (case until of None \<Rightarrow> True | Some t \<Rightarrow> mr_time m \<le> t)) (os_metrics st)"

definition stored_trace :: "string \<Rightarrow> obs_store \<Rightarrow> trace_span list" where
  "stored_trace tid st = filter (\<lambda>s. sp_trace s = tid) (dvals (os_spans st))"

definition level_rank :: "string \<Rightarrow> nat" where
  "level_rank l = (if l = ''info'' then 1 else if l = ''warn'' then 2 else if l = ''error'' then 3 else 0)"

definition log_matches :: "string option \<Rightarrow> string \<Rightarrow> log_entry \<Rightarrow> bool" where
  "log_matches corr level_min e \<longleftrightarrow> (corr = None \<or> le_correlation e = corr) \<and> level_rank (le_level e) \<ge> level_rank level_min"

definition query_logs :: "string option \<Rightarrow> string \<Rightarrow> obs_store \<Rightarrow> log_entry list" where
  "query_logs corr level_min st = filter (log_matches corr level_min) (os_logs st)"

section \<open>The engine\<close>

definition new_obs :: "sink \<Rightarrow> obs_store option \<Rightarrow> datetime \<Rightarrow> int \<Rightarrow> int \<Rightarrow> int \<Rightarrow> obs_engine" where
  "new_obs snk st now ml ll sl =
     \<lparr>oe_sink = snk, oe_store = st, oe_metrics_limit = ml, oe_logs_limit = ll, oe_spans_limit = sl, oe_metrics = [], oe_logs = [], oe_spans = [],
      oe_started_at = now, oe_counters = [], oe_last_error = None, oe_error_count = 0\<rparr>"

definition oe_emit :: "obs_event \<Rightarrow> obs_engine \<Rightarrow> obs_engine" where
  "oe_emit e o1 = o1\<lparr>oe_sink := emit (ObsEv e) (oe_sink o1)\<rparr>"

definition oe_put :: "(obs_store \<Rightarrow> obs_store) \<Rightarrow> obs_engine \<Rightarrow> obs_engine" where
  "oe_put f o1 = o1\<lparr>oe_store := map_option f (oe_store o1)\<rparr>"

definition push_metric :: "metric_record \<Rightarrow> obs_engine \<Rightarrow> obs_engine" where
  "push_metric m o1 = o1\<lparr>oe_metrics := ring_push (oe_metrics_limit o1) m (oe_metrics o1)\<rparr>"

definition push_log :: "log_entry \<Rightarrow> obs_engine \<Rightarrow> obs_engine" where
  "push_log e o1 = o1\<lparr>oe_logs := ring_push (oe_logs_limit o1) e (oe_logs o1)\<rparr>"

definition record_metric :: "string \<Rightarrow> datetime \<Rightarrow> string \<Rightarrow> rat \<Rightarrow> (string, string) dict option \<Rightarrow> metric_type \<Rightarrow> obs_engine \<Rightarrow> metric_record \<times> obs_engine" where
  "record_metric i now name v labels ty o1 =
     (let ls = (case labels of None \<Rightarrow> [] | Some d \<Rightarrow> d);
          m = \<lparr>mr_id = i, mr_name = name, mr_value = v, mr_type = ty, mr_labels = ls, mr_time = now\<rparr>;
          o2 = push_metric m o1;
          o3 = (if ty = COUNTER then o2\<lparr>oe_counters := dset name (dget_or (oe_counters o2) name 0 + v) (oe_counters o2)\<rparr> else o2)
      in (m, oe_emit (MetricRecorded name v (metric_type_value ty) (map (\<lambda>(k, x). (k, PStr x)) ls) (dget_or ls ''workflow_id'' []))
               (oe_put (put_metric m) o3)))"

definition evict_oldest :: "obs_engine \<Rightarrow> obs_engine" where
  "evict_oldest o1 =
     (if int (length (oe_spans o1)) > oe_spans_limit o1
      then (case dvals (oe_spans o1) of
              [] \<Rightarrow> o1
            | s # ss \<Rightarrow> o1\<lparr>oe_spans := ddel (sp_id (first_least sp_start s ss)) (oe_spans o1)\<rparr>)
      else o1)"

definition start_span :: "string \<Rightarrow> datetime \<Rightarrow> string \<Rightarrow> string \<Rightarrow> string option \<Rightarrow> string option \<Rightarrow> obs_engine \<Rightarrow> string \<times> obs_engine" where
  "start_span i now tid name par corr o1 =
     (let s = \<lparr>sp_id = i, sp_trace = tid, sp_name = name, sp_parent = par, sp_start = now, sp_end = None, sp_status = ''ok'', sp_correlation = corr\<rparr>
      in (i, oe_emit (TraceSpanStarted i tid name par corr)
               (oe_put (put_span s) (evict_oldest (o1\<lparr>oe_spans := dset i s (oe_spans o1)\<rparr>)))))"

definition count_error :: "string \<Rightarrow> obs_engine \<Rightarrow> obs_engine" where
  "count_error m o1 = o1\<lparr>oe_last_error := Some m, oe_error_count := oe_error_count o1 + 1\<rparr>"

definition finish_span :: "datetime \<Rightarrow> string \<Rightarrow> string \<Rightarrow> obs_engine \<Rightarrow> trace_span option \<times> obs_engine" where
  "finish_span now i status o1 =
     (case dget (oe_spans o1) i of
        None \<Rightarrow> (None, o1)
      | Some s \<Rightarrow>
          (let s' = s\<lparr>sp_end := Some now, sp_status := status\<rparr>;
               o2 = o1\<lparr>oe_spans := dset i s' (oe_spans o1)\<rparr>;
               o3 = (if status = ''error'' then count_error (sp_trace s @ ''/'' @ sp_name s) o2 else o2)
           in (Some s', oe_emit (TraceSpanFinished i (sp_trace s) status (sp_correlation s)) (oe_put (put_span s') o3))))"

definition get_trace :: "string \<Rightarrow> obs_engine \<Rightarrow> trace_span list" where
  "get_trace tid o1 = sort_key sp_start (filter (\<lambda>s. sp_trace s = tid) (dvals (oe_spans o1)))"

definition log_at :: "string \<Rightarrow> datetime \<Rightarrow> string \<Rightarrow> string \<Rightarrow> string option \<Rightarrow> pydict option \<Rightarrow> obs_engine \<Rightarrow> log_entry \<times> obs_engine" where
  "log_at i now level message corr ctx o1 =
     (let c = (case ctx of None \<Rightarrow> [] | Some d \<Rightarrow> d);
          e = \<lparr>le_id = i, le_level = level, le_message = message, le_correlation = corr, le_context = c, le_time = now\<rparr>;
          o2 = push_log e o1;
          o3 = (if level = ''error'' then count_error message o2 else o2)
      in (e, oe_emit (LogEntryEmitted level message corr (Some c)) (oe_put (put_log e) o3)))"

definition get_logs :: "string option \<Rightarrow> string \<Rightarrow> obs_engine \<Rightarrow> log_entry list" where
  "get_logs corr level_min o1 = filter (log_matches corr level_min) (oe_logs o1)"

definition get_health_snapshot :: "datetime \<Rightarrow> obs_engine \<Rightarrow> health_snapshot" where
  "get_health_snapshot now o1 =
     \<lparr>hs_uptime = of_int (now - oe_started_at o1) / 1000000, hs_counters = oe_counters o1, hs_last_error = oe_last_error o1,
      hs_error_count = oe_error_count o1, hs_metrics_buffered = length (oe_metrics o1), hs_logs_buffered = length (oe_logs o1),
      hs_spans_active = length (filter (\<lambda>s. sp_end s = None) (dvals (oe_spans o1)))\<rparr>"

definition label_str :: "(string, string) dict \<Rightarrow> string" where
  "label_str ls = (if ls = [] then [] else ''{'' @ join '','' (map (\<lambda>(k, v). k @ ''='' @ [CHR 0x22] @ v @ [CHR 0x22]) ls) @ ''}'')"

text \<open>The samples from newest to oldest, each name once.\<close>

fun sample_lines :: "(rat \<Rightarrow> string) \<Rightarrow> string list \<Rightarrow> metric_record list \<Rightarrow> string list" where
  "sample_lines fstr seen [] = []"
| "sample_lines fstr seen (m # ms) =
     (if mr_name m \<in> set seen then sample_lines fstr seen ms
      else
        (if mr_type m = COUNTER then []
         else [''# TYPE '' @ mr_name m @ '' '' @ metric_type_value (mr_type m),
               mr_name m @ (if mr_type m = HISTOGRAM then ''_bucket'' else []) @ label_str (mr_labels m) @ '' '' @ fstr (mr_value m)])
        @ sample_lines fstr (mr_name m # seen) ms)"

definition export_metrics :: "(rat \<Rightarrow> string) \<Rightarrow> obs_engine \<Rightarrow> string" where
  "export_metrics fstr o1 =
     join [CHR 0x0A]
       (concat (map (\<lambda>(n, t). [''# TYPE '' @ n @ '' counter'', n @ '' '' @ fstr t]) (oe_counters o1)) @
        sample_lines fstr [] (rev (oe_metrics o1))) @ [CHR 0x0A]"

section \<open>Calls in sequence\<close>

datatype obs_op =
    RecordMetric string datetime string rat "(string, string) dict option" metric_type
  | StartSpan string datetime string string "string option" "string option"
  | FinishSpan datetime string string
  | Log string datetime string string "string option" "pydict option"

fun obs_do :: "obs_op \<Rightarrow> obs_engine \<Rightarrow> obs_engine" where
  "obs_do (RecordMetric i now n v ls ty) o1 = snd (record_metric i now n v ls ty o1)"
| "obs_do (StartSpan i now tid n par corr) o1 = snd (start_span i now tid n par corr o1)"
| "obs_do (FinishSpan now i status) o1 = snd (finish_span now i status o1)"
| "obs_do (Log i now level msg corr ctx) o1 = snd (log_at i now level msg corr ctx o1)"

text \<open>What the calls ask to be recorded.\<close>

fun metric_of :: "obs_op \<Rightarrow> metric_record list" where
  "metric_of (RecordMetric i now n v ls ty) =
     [\<lparr>mr_id = i, mr_name = n, mr_value = v, mr_type = ty, mr_labels = (case ls of None \<Rightarrow> [] | Some d \<Rightarrow> d), mr_time = now\<rparr>]"
| "metric_of _ = []"

fun log_of :: "obs_op \<Rightarrow> log_entry list" where
  "log_of (Log i now level msg corr ctx) =
     [\<lparr>le_id = i, le_level = level, le_message = msg, le_correlation = corr, le_context = (case ctx of None \<Rightarrow> [] | Some d \<Rightarrow> d), le_time = now\<rparr>]"
| "log_of _ = []"

definition counter_total :: "string \<Rightarrow> metric_record list \<Rightarrow> rat" where
  "counter_total n ms = sum_list (map mr_value (filter (\<lambda>m. mr_name m = n \<and> mr_type m = COUNTER) ms))"

fun is_error_event :: "domain_event \<Rightarrow> bool" where
  "is_error_event (ObsEv (LogEntryEmitted level m c x)) = (level = ''error'')"
| "is_error_event (ObsEv (TraceSpanFinished i t status c)) = (status = ''error'')"
| "is_error_event _ = False"

section \<open>Buffers\<close>

interpretation metrics_ring: ring_buffer oe_metrics_limit oe_metrics push_metric
  by unfold_locales (simp_all add: push_metric_def)

interpretation logs_ring: ring_buffer oe_logs_limit oe_logs push_log
  by unfold_locales (simp_all add: push_log_def)

lemma obs_frames [simp]:
  "oe_metrics (oe_emit e o1) = oe_metrics o1" "oe_logs (oe_emit e o1) = oe_logs o1" "oe_spans (oe_emit e o1) = oe_spans o1"
  "oe_counters (oe_emit e o1) = oe_counters o1" "oe_error_count (oe_emit e o1) = oe_error_count o1" "oe_sink (oe_emit e o1) = emit (ObsEv e) (oe_sink o1)"
  "oe_metrics_limit (oe_emit e o1) = oe_metrics_limit o1" "oe_logs_limit (oe_emit e o1) = oe_logs_limit o1" "oe_spans_limit (oe_emit e o1) = oe_spans_limit o1"
  "oe_metrics (oe_put f o1) = oe_metrics o1" "oe_logs (oe_put f o1) = oe_logs o1" "oe_spans (oe_put f o1) = oe_spans o1"
  "oe_counters (oe_put f o1) = oe_counters o1" "oe_error_count (oe_put f o1) = oe_error_count o1" "oe_sink (oe_put f o1) = oe_sink o1"
  "oe_metrics_limit (oe_put f o1) = oe_metrics_limit o1" "oe_logs_limit (oe_put f o1) = oe_logs_limit o1" "oe_spans_limit (oe_put f o1) = oe_spans_limit o1"
  "oe_store (oe_emit e o1) = oe_store o1" "oe_store (oe_put f o1) = map_option f (oe_store o1)"
  by (simp_all add: oe_emit_def oe_put_def)

lemma evict_frames [simp]:
  "oe_metrics (evict_oldest o1) = oe_metrics o1" "oe_logs (evict_oldest o1) = oe_logs o1" "oe_counters (evict_oldest o1) = oe_counters o1"
  "oe_error_count (evict_oldest o1) = oe_error_count o1" "oe_sink (evict_oldest o1) = oe_sink o1" "oe_store (evict_oldest o1) = oe_store o1"
  "oe_metrics_limit (evict_oldest o1) = oe_metrics_limit o1" "oe_logs_limit (evict_oldest o1) = oe_logs_limit o1" "oe_spans_limit (evict_oldest o1) = oe_spans_limit o1"
  by (simp_all add: evict_oldest_def split: list.splits)

text \<open>The buffers after an operation are the buffers after pushing what it records.\<close>

lemma obs_do_buffers:
  "oe_metrics (obs_do op o1) = oe_metrics (fold push_metric (metric_of op) o1)"
  "oe_logs (obs_do op o1) = oe_logs (fold push_log (log_of op) o1)"
  "oe_metrics_limit (obs_do op o1) = oe_metrics_limit o1" "oe_logs_limit (obs_do op o1) = oe_logs_limit o1" "oe_spans_limit (obs_do op o1) = oe_spans_limit o1"
  by (cases op; simp add: record_metric_def start_span_def finish_span_def log_at_def push_metric_def push_log_def count_error_def Let_def split: option.splits)+

lemma drop_window: "drop (length (drop (length xs - n) xs) + length es - n) (drop (length xs - n) xs @ es) = drop (length xs + length es - n) (xs @ es)"
proof (cases "length xs \<le> n")
  case False
  then have "drop (length xs + length es - n) (xs @ es) = drop (length es) (drop (length xs - n) (xs @ es))" by (simp add: add.commute)
  with False show ?thesis by (simp del: drop_drop)
qed simp

definition asked_metrics :: "obs_op list \<Rightarrow> metric_record list" where
  "asked_metrics ops = concat (map metric_of ops)"

definition asked_logs :: "obs_op list \<Rightarrow> log_entry list" where
  "asked_logs ops = concat (map log_of ops)"

lemma obs_run_limits:
  "oe_metrics_limit (fold obs_do ops o1) = oe_metrics_limit o1" "oe_logs_limit (fold obs_do ops o1) = oe_logs_limit o1" "oe_spans_limit (fold obs_do ops o1) = oe_spans_limit o1"
  by (induction ops arbitrary: o1) (simp_all add: obs_do_buffers)

lemma obs_run_metrics:
  assumes "oe_metrics_limit o1 > 0" and "oe_metrics o1 = []"
  shows "oe_metrics (fold obs_do ops o1) = drop (length (asked_metrics ops) - nat (oe_metrics_limit o1)) (asked_metrics ops)"
proof (induction ops rule: rev_induct)
  case Nil
  then show ?case using assms(2) by (simp add: asked_metrics_def)
next
  case (snoc op ops)
  let ?o = "fold obs_do ops o1" and ?n = "nat (oe_metrics_limit o1)"
  have lim: "oe_metrics_limit ?o = oe_metrics_limit o1" by (simp add: obs_run_limits)
  have "oe_metrics (obs_do op ?o) = drop (length (oe_metrics ?o) + length (metric_of op) - ?n) (oe_metrics ?o @ metric_of op)"
    unfolding obs_do_buffers using assms(1) snoc metrics_ring.pushes_items [of ?o "metric_of op"] lim by simp
  then show ?case unfolding snoc drop_window by (simp add: asked_metrics_def)
qed

lemma obs_run_logs:
  assumes "oe_logs_limit o1 > 0" and "oe_logs o1 = []"
  shows "oe_logs (fold obs_do ops o1) = drop (length (asked_logs ops) - nat (oe_logs_limit o1)) (asked_logs ops)"
proof (induction ops rule: rev_induct)
  case Nil
  then show ?case using assms(2) by (simp add: asked_logs_def)
next
  case (snoc op ops)
  let ?o = "fold obs_do ops o1" and ?n = "nat (oe_logs_limit o1)"
  have lim: "oe_logs_limit ?o = oe_logs_limit o1" by (simp add: obs_run_limits)
  have "oe_logs (obs_do op ?o) = drop (length (oe_logs ?o) + length (log_of op) - ?n) (oe_logs ?o @ log_of op)"
    unfolding obs_do_buffers using assms(1) snoc logs_ring.pushes_items [of ?o "log_of op"] lim by simp
  then show ?case unfolding snoc drop_window by (simp add: asked_logs_def)
qed

section \<open>Totals\<close>

lemma obs_do_counters: "dget_or (oe_counters (obs_do op o1)) n 0 = dget_or (oe_counters o1) n 0 + counter_total n (metric_of op)"
  by (cases op)
     (auto simp: record_metric_def start_span_def finish_span_def log_at_def push_metric_def push_log_def count_error_def counter_total_def Let_def
        dget_or_def dget_dset split: option.splits)

lemma counter_total_append: "counter_total n (ms @ ms') = counter_total n ms + counter_total n ms'"
  by (simp add: counter_total_def)

lemma obs_run_counters:
  "dget_or (oe_counters (fold obs_do ops o1)) n 0 = dget_or (oe_counters o1) n 0 + counter_total n (asked_metrics ops)"
  by (induction ops rule: rev_induct)
     (simp_all add: asked_metrics_def obs_do_counters counter_total_append, simp add: counter_total_def)

definition errors_counted :: "obs_engine \<Rightarrow> bool" where
  "errors_counted o1 \<longleftrightarrow> snk_bus (oe_sink o1) \<noteq> None \<and> oe_error_count o1 = length (filter is_error_event (published (oe_sink o1)))"

lemma obs_do_errors: "errors_counted o1 \<Longrightarrow> errors_counted (obs_do op o1)"
  by (cases op)
     (auto simp: errors_counted_def record_metric_def start_span_def finish_span_def log_at_def push_metric_def push_log_def count_error_def Let_def
        published_def emit_def split: option.splits)

lemma obs_run_errors: "errors_counted o1 \<Longrightarrow> errors_counted (fold obs_do ops o1)"
  by (induction ops arbitrary: o1) (simp_all add: obs_do_errors)

section \<open>Spans\<close>

definition spans_ok :: "obs_engine \<Rightarrow> bool" where
  "spans_ok o1 \<longleftrightarrow> dict_ok (oe_spans o1) \<and> (\<forall>i s. dget (oe_spans o1) i = Some s \<longrightarrow> sp_id s = i) \<and> int (length (oe_spans o1)) \<le> max 0 (oe_spans_limit o1)"

lemma length_ddel: "dict_ok d \<Longrightarrow> dget d k \<noteq> None \<Longrightarrow> length (ddel k d) + 1 = length d"
proof (induction d)
  case (Cons kv d)
  obtain j v where kv: "kv = (j, v)" by (cases kv)
  show ?case
  proof (cases "j = k")
    case True
    with Cons.prems(1) kv have "k \<notin> fst ` set d" by (simp add: dict_ok_def)
    with True kv show ?thesis by simp
  next
    case False
    with Cons kv show ?thesis by (simp add: dict_ok_def)
  qed
qed simp

lemma evict_spans:
  assumes "dict_ok (oe_spans o1)" and "\<forall>i s. dget (oe_spans o1) i = Some s \<longrightarrow> sp_id s = i"
    and "int (length (oe_spans o1)) \<le> max 0 (oe_spans_limit o1) + 1"
  shows "spans_ok (evict_oldest o1)"
proof (cases "int (length (oe_spans o1)) > oe_spans_limit o1 \<and> oe_spans o1 \<noteq> []")
  case True
  then obtain s ss where s: "dvals (oe_spans o1) = s # ss" by (cases "dvals (oe_spans o1)") auto
  let ?x = "first_least sp_start s ss"
  have "?x \<in> set (dvals (oe_spans o1))" using first_least_spec [of sp_start s ss] s by simp
  with assms(1,2) have "dget (oe_spans o1) (sp_id ?x) \<noteq> None" by (auto simp: in_dvals simp del: set_map)
  from length_ddel [OF assms(1) this] True s assms show ?thesis by (simp add: evict_oldest_def spans_ok_def dget_ddel)
next
  case False
  then show ?thesis using assms by (cases "oe_spans o1") (auto simp: evict_oldest_def spans_ok_def)
qed

lemma length_dset: "length (dset k v d) \<le> length d + 1"
  by (induction d) auto

lemma length_dset_same: "dget d k \<noteq> None \<Longrightarrow> length (dset k v d) = length d"
  by (induction d) auto

lemma spans_ok_cong: "oe_spans o2 = oe_spans o1 \<Longrightarrow> oe_spans_limit o2 = oe_spans_limit o1 \<Longrightarrow> spans_ok o2 = spans_ok o1"
  by (simp add: spans_ok_def)

lemma obs_do_spans:
  assumes "spans_ok o1"
  shows "spans_ok (obs_do op o1)"
proof (cases op)
  case (StartSpan i now tid n par corr)
  let ?s = "\<lparr>sp_id = i, sp_trace = tid, sp_name = n, sp_parent = par, sp_start = now, sp_end = None, sp_status = ''ok'', sp_correlation = corr\<rparr>"
  have "spans_ok (evict_oldest (o1\<lparr>oe_spans := dset i ?s (oe_spans o1)\<rparr>))"
    using assms length_dset [of i ?s "oe_spans o1"] by (intro evict_spans) (auto simp: spans_ok_def dget_dset)
  then show ?thesis using StartSpan by (simp add: start_span_def Let_def spans_ok_def)
next
  case (FinishSpan now i status)
  show ?thesis
  proof (cases "dget (oe_spans o1) i")
    case None
    with FinishSpan assms show ?thesis by (simp add: finish_span_def)
  next
    case (Some s)
    with assms length_dset_same [of "oe_spans o1" i] FinishSpan show ?thesis
      by (auto simp: finish_span_def spans_ok_def count_error_def Let_def dget_dset)
  qed
next
  case (RecordMetric i now n v ls ty)
  then show ?thesis using assms by (subst spans_ok_cong [of _ o1]) (simp_all add: record_metric_def push_metric_def Let_def)
next
  case (Log i now level msg corr ctx)
  then show ?thesis using assms by (subst spans_ok_cong [of _ o1]) (simp_all add: log_at_def push_log_def count_error_def Let_def)
qed

lemma obs_run_spans: "spans_ok o1 \<Longrightarrow> spans_ok (fold obs_do ops o1)"
  by (induction ops arbitrary: o1) (simp_all add: obs_do_spans)

section \<open>Properties\<close>

text \<open>
  C29: Whatever sequence of metrics, logs and spans is reported to an engine with positive limits,
  the buffers hold exactly the newest entries up to their limit, in order; every counter shown is
  the exact total of all increments ever reported under its name, also of those that have left the
  buffer; the error count is the number of error logs and failed spans announced on the bus; and
  there are never more spans than the limit allows.\<close>

theorem observability_accounts:
  assumes "ml > 0" and "ll > 0" and "sl \<ge> 0" and "o1 = fold obs_do ops (new_obs wired st now ml ll sl)"
  shows "oe_metrics o1 = drop (length (asked_metrics ops) - nat ml) (asked_metrics ops) \<and>
     oe_logs o1 = drop (length (asked_logs ops) - nat ll) (asked_logs ops) \<and>
     (\<forall>n. dget_or (hs_counters (get_health_snapshot t o1)) n 0 = counter_total n (asked_metrics ops)) \<and>
     hs_error_count (get_health_snapshot t o1) = length (filter is_error_event (published (oe_sink o1))) \<and>
     int (length (oe_spans o1)) \<le> sl"
proof -
  let ?o = "new_obs wired st now ml ll sl"
  have "oe_metrics o1 = drop (length (asked_metrics ops) - nat ml) (asked_metrics ops)"
    using assms obs_run_metrics [of ?o ops] by (simp add: new_obs_def)
  moreover have "oe_logs o1 = drop (length (asked_logs ops) - nat ll) (asked_logs ops)"
    using assms obs_run_logs [of ?o ops] by (simp add: new_obs_def)
  moreover have "dget_or (oe_counters o1) n 0 = counter_total n (asked_metrics ops)" for n
    using assms(4) obs_run_counters [of ops ?o n] by (simp add: new_obs_def dget_or_def)
  moreover have "errors_counted o1"
    using assms(4) obs_run_errors [of ?o ops] by (simp add: errors_counted_def new_obs_def wired_def published_def)
  moreover have "spans_ok o1" using assms(3,4) obs_run_spans [of ?o ops] by (simp add: spans_ok_def new_obs_def)
  moreover have "oe_spans_limit o1 = sl" using assms(4) obs_run_limits(3) [of ops ?o] by (simp add: new_obs_def)
  ultimately show ?thesis using assms(3) by (simp add: get_health_snapshot_def errors_counted_def spans_ok_def)
qed

theorem observability_accounts_witness:
  "\<exists>o1. o1 = fold obs_do [RecordMetric ''a'' 1 ''n'' 2 None COUNTER, RecordMetric ''b'' 2 ''n'' 3 None COUNTER, Log ''c'' 3 ''error'' ''boom'' None None]
            (new_obs wired None 0 1 1 1) \<and>
     map mr_id (oe_metrics o1) = [''b''] \<and> dget_or (hs_counters (get_health_snapshot 9 o1)) ''n'' 0 = 5 \<and>
     hs_error_count (get_health_snapshot 9 o1) = length (filter is_error_event (published (oe_sink o1)))"
proof -
  let ?ops = "[RecordMetric ''a'' 1 ''n'' 2 None COUNTER, RecordMetric ''b'' 2 ''n'' 3 None COUNTER, Log ''c'' 3 ''error'' ''boom'' None None]"
  define o1 where "o1 = fold obs_do ?ops (new_obs wired None 0 1 1 1)"
  have "(1 :: int) > 0" "(1 :: int) \<ge> 0" by simp_all
  from observability_accounts [OF this(1) this(1) this(2) o1_def, of 9] show ?thesis
    by (intro exI [of _ o1] conjI) (rule o1_def, simp_all add: asked_metrics_def counter_total_def)
qed

text \<open>
  When the buffer of spans is full, starting another span evicts the one that started first,
  also when it is still open: finishing it later does nothing and returns \<open>None\<close>, a failure it
  would have reported is not counted, and its record in the store stays open.\<close>

theorem open_span_evicted:
  assumes "spans_ok o1" and "int (length (oe_spans o1)) = oe_spans_limit o1" and "dget (oe_spans o1) i = Some s"
    and "\<forall>x \<in> set (dvals (oe_spans o1)). sp_id x \<noteq> i \<longrightarrow> sp_start s < sp_start x" and "sp_start s < now" and "dget (oe_spans o1) j = None"
    and "oe_store o1 = Some st" and "dget (os_spans st) i = Some s"
  shows "case start_span j now tid name par corr o1 of (_, o2) \<Rightarrow>
     finish_span later i ''error'' o2 = (None, o2) \<and> oe_error_count o2 = oe_error_count o1 \<and>
     (\<exists>st'. oe_store o2 = Some st' \<and> dget (os_spans st') i = Some s)"
proof -
  let ?n = "\<lparr>sp_id = j, sp_trace = tid, sp_name = name, sp_parent = par, sp_start = now, sp_end = None, sp_status = ''ok'', sp_correlation = corr\<rparr>"
  let ?o = "o1\<lparr>oe_spans := dset j ?n (oe_spans o1)\<rparr>"
  have new: "dset j ?n (oe_spans o1) = oe_spans o1 @ [(j, ?n)]" using assms(6) by (intro dset_new) (simp add: dget_None_iff)
  obtain x xs where x: "dvals (oe_spans ?o) = x # xs" by (cases "dvals (oe_spans ?o)") (auto simp: new)
  let ?m = "first_least sp_start x xs"
  have ids: "sp_id s = i" "dict_ok (oe_spans o1)" using assms(1,3) by (auto simp: spans_ok_def)
  have "?m \<in> set (dvals (oe_spans ?o))" "\<forall>y \<in> set (dvals (oe_spans ?o)). sp_start ?m \<le> sp_start y"
    using first_least_spec [of sp_start x xs] x by simp_all
  moreover have "s \<in> set (dvals (oe_spans ?o))" using assms(3) ids(2) by (auto simp: new in_dvals simp del: set_map)
  ultimately have "sp_id ?m = i" using assms(4,5) by (force simp: new)
  moreover have "evict_oldest ?o = ?o\<lparr>oe_spans := ddel (sp_id ?m) (oe_spans ?o)\<rparr>"
    using assms(2) x by (simp add: evict_oldest_def new)
  ultimately have "dget (oe_spans (evict_oldest ?o)) i = None" by simp
  moreover have "i \<noteq> j" using assms(3,6) by auto
  ultimately show ?thesis using assms(7,8) by (auto simp: start_span_def finish_span_def Let_def put_span_def)
qed

theorem open_span_evicted_witness:
  "case start_span ''b'' 2 ''t'' ''n'' None None (snd (start_span ''a'' 1 ''t'' ''m'' None None (new_obs wired (Some (open_obs_store None)) 0 5 5 1))) of
     (_, o2) \<Rightarrow> finish_span 3 ''a'' ''error'' o2 = (None, o2) \<and> oe_error_count o2 = 0"
proof -
  let ?o = "snd (start_span ''a'' 1 ''t'' ''m'' None None (new_obs wired (Some (open_obs_store None)) 0 5 5 1))"
  obtain st s where s: "oe_store ?o = Some st" "dget (os_spans st) ''a'' = Some s" "oe_spans ?o = [(''a'', s)]" "sp_start s = 1" "sp_id s = ''a''" "oe_spans_limit ?o = 1" "oe_error_count ?o = 0"
    by (auto simp: start_span_def new_obs_def open_obs_store_def put_span_def evict_oldest_def Let_def)
  from s have "spans_ok ?o" by (simp add: spans_ok_def dict_ok_def)
  from open_span_evicted [OF this _ _ _ _ _ s(1,2), where now = 2 and j = "''b''" and tid = "''t''" and name = "''n''" and par = None and corr = None and later = 3] s(3-7) show ?thesis
    by (simp add: case_prod_beta)
qed

end
