(* ===== verification/Cluster.thy ===== *)
theory Cluster
  imports Events Interfaces
begin

text \<open>
  Multi-node coordination: \<open>kernel/cluster.py\<close> with \<open>NodeInfo\<close> and \<open>ClusterTopology\<close> of
  \<open>kernel/marketplace_domain.py\<close>.

  \<^item> The clock reading of a call is an argument; the timeout is in seconds, times in microseconds.
  \<^item> The transport is a parameter: for each node it delivers or raises.
  \<^item> \<open>cl_leader\<close> is the attribute \<open>_leader\<close>, absent (\<open>None\<close>) until the first election.
\<close>

section \<open>Membership and election\<close>

record cnode =
  cn_id :: string
  cn_address :: string
  cn_capabilities :: "string list"
  cn_heartbeat :: datetime
  cn_load :: rat

record cluster_topology =
  tp_cluster :: string
  tp_nodes :: "(string, cnode) dict"
  tp_leader :: "string option"

record cluster =
  cl_id :: string
  cl_sink :: sink
  cl_timeout :: rat
  cl_nodes :: "(string, cnode) dict"
  cl_leader :: "string option"

definition new_cluster :: "string \<Rightarrow> sink \<Rightarrow> rat \<Rightarrow> cluster" where
  "new_cluster cid snk timeout = \<lparr>cl_id = cid, cl_sink = snk, cl_timeout = timeout, cl_nodes = [], cl_leader = None\<rparr>"

definition cl_emit :: "mp_event \<Rightarrow> cluster \<Rightarrow> cluster" where
  "cl_emit e c = c\<lparr>cl_sink := emit (MpEv e) (cl_sink c)\<rparr>"

definition get_topology :: "cluster \<Rightarrow> cluster_topology" where
  "get_topology c = \<lparr>tp_cluster = cl_id c, tp_nodes = cl_nodes c, tp_leader = cl_leader c\<rparr>"

definition elect_leader :: "cluster \<Rightarrow> string option \<times> cluster" where
  "elect_leader c =
     (case dvals (cl_nodes c) of
        [] \<Rightarrow> (None, c\<lparr>cl_leader := None\<rparr>)
      | n # ns \<Rightarrow> (let l = cn_id (first_least cn_heartbeat n ns) in (Some l, c\<lparr>cl_leader := Some l\<rparr>)))"

definition join_cluster :: "datetime \<Rightarrow> string \<Rightarrow> string \<Rightarrow> string list \<Rightarrow> cluster \<Rightarrow> cnode \<times> cluster" where
  "join_cluster now nid address caps c =
     (let n = \<lparr>cn_id = nid, cn_address = address, cn_capabilities = caps, cn_heartbeat = now, cn_load = 0\<rparr>;
          c1 = c\<lparr>cl_nodes := dset nid n (cl_nodes c)\<rparr>;
          c2 = (if tp_leader (get_topology c1) = None then snd (elect_leader c1) else c1)
      in (n, cl_emit (NodeJoined nid address (cl_id c) caps) c2))"

definition leave_cluster :: "string \<Rightarrow> string \<Rightarrow> cluster \<Rightarrow> bool \<times> cluster" where
  "leave_cluster nid reason c =
     (case dget (cl_nodes c) nid of
        None \<Rightarrow> (False, c)
      | Some _ \<Rightarrow>
          (let c1 = c\<lparr>cl_nodes := ddel nid (cl_nodes c)\<rparr>;
               c2 = (if tp_leader (get_topology c1) = Some nid then snd (elect_leader c1) else c1)
           in (True, cl_emit (NodeLeft nid (cl_id c) reason) c2)))"

definition cl_heartbeat :: "datetime \<Rightarrow> string \<Rightarrow> cluster \<Rightarrow> cluster" where
  "cl_heartbeat now nid c =
     (case dget (cl_nodes c) nid of None \<Rightarrow> c | Some n \<Rightarrow> c\<lparr>cl_nodes := dset nid (n\<lparr>cn_heartbeat := now\<rparr>) (cl_nodes c)\<rparr>)"

definition timed_out :: "datetime \<Rightarrow> cluster \<Rightarrow> cnode \<Rightarrow> bool" where
  "timed_out now c n \<longleftrightarrow> of_int (now - cn_heartbeat n) / 1000000 > cl_timeout c"

definition prune_timed_out :: "datetime \<Rightarrow> cluster \<Rightarrow> string list \<times> cluster" where
  "prune_timed_out now c =
     (let dropped = map fst (filter (\<lambda>(_, n). timed_out now c n) (cl_nodes c));
          c1 = c\<lparr>cl_nodes := filter (\<lambda>(_, n). \<not> timed_out now c n) (cl_nodes c)\<rparr>
      in (dropped, if (\<exists>l. cl_leader c = Some l \<and> l \<in> set dropped) then snd (elect_leader c1) else c1))"

fun deliver_all :: "(string \<Rightarrow> exn option) \<Rightarrow> string list \<Rightarrow> exn + string list" where
  "deliver_all send [] = Inr []"
| "deliver_all send (n # ns) =
     (case send n of
        Some x \<Rightarrow> Inl x
      | None \<Rightarrow> (case deliver_all send ns of Inl x \<Rightarrow> Inl x | Inr ds \<Rightarrow> Inr (n # ds)))"

definition broadcast :: "(string \<Rightarrow> exn option) option \<Rightarrow> cluster \<Rightarrow> exn + string list" where
  "broadcast transport c = deliver_all (case transport of None \<Rightarrow> (\<lambda>_. None) | Some send \<Rightarrow> send) (dkeys (cl_nodes c))"

section \<open>The leader\<close>

definition nodes_ok :: "(string, cnode) dict \<Rightarrow> bool" where
  "nodes_ok ns \<longleftrightarrow> dict_ok ns \<and> (\<forall>i n. dget ns i = Some n \<longrightarrow> cn_id n = i)"

fun leader_ok :: "string option \<Rightarrow> (string, cnode) dict \<Rightarrow> bool" where
  "leader_ok None ns \<longleftrightarrow> ns = []"
| "leader_ok (Some l) ns \<longleftrightarrow> dget ns l \<noteq> None"

definition cluster_inv :: "cluster \<Rightarrow> bool" where
  "cluster_inv c \<longleftrightarrow> nodes_ok (cl_nodes c) \<and> leader_ok (cl_leader c) (cl_nodes c)"

inductive cluster_step :: "cluster \<Rightarrow> cluster \<Rightarrow> bool" where
  cs_join: "cluster_step c (snd (join_cluster now nid address caps c))"
| cs_leave: "cluster_step c (snd (leave_cluster nid reason c))"
| cs_heartbeat: "cluster_step c (cl_heartbeat now nid c)"
| cs_prune: "cluster_step c (snd (prune_timed_out now c))"
| cs_elect: "cluster_step c (snd (elect_leader c))"

lemma elect_leader_spec:
  assumes "nodes_ok (cl_nodes c)"
  shows "cl_nodes (snd (elect_leader c)) = cl_nodes c" and "fst (elect_leader c) = cl_leader (snd (elect_leader c))"
    and "leader_ok (cl_leader (snd (elect_leader c))) (cl_nodes c)"
    and "cl_leader (snd (elect_leader c)) = Some l \<Longrightarrow> \<exists>n. dget (cl_nodes c) l = Some n \<and> (\<forall>m \<in> set (dvals (cl_nodes c)). cn_heartbeat n \<le> cn_heartbeat m)"
proof -
  have "leader_ok (cl_leader (snd (elect_leader c))) (cl_nodes c) \<and>
    (cl_leader (snd (elect_leader c)) = Some l \<longrightarrow> (\<exists>n. dget (cl_nodes c) l = Some n \<and> (\<forall>m \<in> set (dvals (cl_nodes c)). cn_heartbeat n \<le> cn_heartbeat m)))"
  proof (cases "dvals (cl_nodes c)")
    case Nil
    then show ?thesis by (simp add: elect_leader_def)
  next
    case (Cons n ns)
    let ?l = "first_least cn_heartbeat n ns"
    have l: "?l \<in> set (dvals (cl_nodes c))" "\<forall>m \<in> set (dvals (cl_nodes c)). cn_heartbeat ?l \<le> cn_heartbeat m"
      unfolding Cons using first_least_spec [of cn_heartbeat n ns] by blast+
    then obtain i where i: "dget (cl_nodes c) i = Some ?l" using assms by (auto simp: nodes_ok_def in_dvals simp del: set_map)
    with assms have "cn_id ?l = i" by (simp add: nodes_ok_def)
    moreover have "cl_leader (snd (elect_leader c)) = Some (cn_id ?l)" using Cons by (simp add: elect_leader_def Let_def)
    ultimately show ?thesis using i l(2) by auto
  qed
  then show "leader_ok (cl_leader (snd (elect_leader c))) (cl_nodes c)"
    and "cl_leader (snd (elect_leader c)) = Some l \<Longrightarrow> \<exists>n. dget (cl_nodes c) l = Some n \<and> (\<forall>m \<in> set (dvals (cl_nodes c)). cn_heartbeat n \<le> cn_heartbeat m)"
    by blast+
  show "cl_nodes (snd (elect_leader c)) = cl_nodes c" "fst (elect_leader c) = cl_leader (snd (elect_leader c))"
    by (simp_all add: elect_leader_def Let_def split: list.splits)
qed

lemma elected_inv: "nodes_ok (cl_nodes c) \<Longrightarrow> cluster_inv (snd (elect_leader c))"
  by (simp add: cluster_inv_def elect_leader_spec)

lemma nodes_ok_changes:
  assumes "nodes_ok ns"
  shows "cn_id n = i \<Longrightarrow> nodes_ok (dset i n ns)" and "nodes_ok (ddel i ns)" and "nodes_ok (filter P ns)"
proof -
  show "cn_id n = i \<Longrightarrow> nodes_ok (dset i n ns)" and "nodes_ok (ddel i ns)"
    using assms by (simp_all add: nodes_ok_def dget_dset dget_ddel)
  have "dict_ok ns" "dict_ok (filter P ns)" using assms by (simp_all add: nodes_ok_def dict_ok_filter)
  with assms show "nodes_ok (filter P ns)" by (simp add: nodes_ok_def dget_iff_in)
qed

lemma cluster_inv_emit [simp]: "cluster_inv (cl_emit e c) = cluster_inv c"
  by (simp add: cl_emit_def cluster_inv_def)

lemma prune_inv:
  assumes "cluster_inv c"
  shows "cluster_inv (snd (prune_timed_out now c))"
proof -
  let ?ns = "filter (\<lambda>(_, n). \<not> timed_out now c n) (cl_nodes c)" and ?d = "map fst (filter (\<lambda>(_, n). timed_out now c n) (cl_nodes c))"
  have ns: "nodes_ok ?ns" by (rule nodes_ok_changes(3)) (use assms in \<open>simp add: cluster_inv_def\<close>)
  then have ok: "dict_ok ?ns" by (simp add: nodes_ok_def)
  have "leader_ok (cl_leader c) ?ns" if d: "\<not> (\<exists>l. cl_leader c = Some l \<and> l \<in> set ?d)"
  proof (cases "cl_leader c")
    case (Some l)
    then obtain n where n: "(l, n) \<in> set (cl_nodes c)" using assms by (auto simp: cluster_inv_def dest: dget_Some_in)
    with d Some have "\<not> timed_out now c n" by force
    with n have "(l, n) \<in> set ?ns" by simp
    then have "dget ?ns l = Some n" using dget_iff_in [OF ok] by blast
    with Some show ?thesis by simp
  qed (use assms in \<open>simp add: cluster_inv_def\<close>)
  then have keep: "cluster_inv (c\<lparr>cl_nodes := ?ns\<rparr>)" if "\<not> (\<exists>l. cl_leader c = Some l \<and> l \<in> set ?d)"
    using that ns unfolding cluster_inv_def by simp
  have elect: "cluster_inv (snd (elect_leader (c\<lparr>cl_nodes := ?ns\<rparr>)))" by (rule elected_inv) (simp add: ns)
  show ?thesis
  proof (cases "\<exists>l. cl_leader c = Some l \<and> l \<in> set ?d")
    case True
    then show ?thesis unfolding prune_timed_out_def Let_def snd_conv if_P [OF True] using elect by blast
  next
    case False
    then show ?thesis unfolding prune_timed_out_def Let_def snd_conv if_not_P [OF False] by (rule keep)
  qed
qed

lemma cluster_step_inv:
  assumes "cluster_inv c" and "cluster_step c c'"
  shows "cluster_inv c'"
proof -
  have ok: "nodes_ok (cl_nodes c)" and lead: "leader_ok (cl_leader c) (cl_nodes c)" using assms(1) by (simp_all add: cluster_inv_def)
  from assms(2) show ?thesis
  proof cases
    case (cs_join now nid address caps)
    let ?n = "\<lparr>cn_id = nid, cn_address = address, cn_capabilities = caps, cn_heartbeat = now, cn_load = 0\<rparr>"
    have "nodes_ok (dset nid ?n (cl_nodes c))" using ok by (rule nodes_ok_changes) simp
    moreover from this have "cluster_inv (c\<lparr>cl_nodes := dset nid ?n (cl_nodes c)\<rparr>)" if "cl_leader c \<noteq> None"
      using lead that by (auto simp: cluster_inv_def dget_dset)
    ultimately show ?thesis using elected_inv [of "c\<lparr>cl_nodes := dset nid ?n (cl_nodes c)\<rparr>"]
      by (simp add: cs_join join_cluster_def get_topology_def Let_def)
  next
    case (cs_leave nid reason)
    have "nodes_ok (ddel nid (cl_nodes c))" using ok by (rule nodes_ok_changes)
    moreover from this have "cluster_inv (c\<lparr>cl_nodes := ddel nid (cl_nodes c)\<rparr>)" if "cl_leader c \<noteq> Some nid"
      using lead that by (cases "cl_leader c") (auto simp: cluster_inv_def dget_ddel)
    ultimately show ?thesis using elected_inv [of "c\<lparr>cl_nodes := ddel nid (cl_nodes c)\<rparr>"] assms(1)
      by (simp add: cs_leave leave_cluster_def get_topology_def Let_def split: option.splits)
  next
    case (cs_heartbeat now nid)
    show ?thesis
    proof (cases "dget (cl_nodes c) nid")
      case (Some n)
      then have "nodes_ok (dset nid (n\<lparr>cn_heartbeat := now\<rparr>) (cl_nodes c))" using ok by (intro nodes_ok_changes) (auto simp: nodes_ok_def)
      moreover have "leader_ok (cl_leader c) (dset nid (n\<lparr>cn_heartbeat := now\<rparr>) (cl_nodes c))"
        using lead Some by (cases "cl_leader c") (auto simp: dget_dset)
      ultimately show ?thesis using Some by (simp add: cs_heartbeat cl_heartbeat_def cluster_inv_def)
    qed (use assms(1) cs_heartbeat in \<open>simp add: cl_heartbeat_def\<close>)
  next
    case (cs_prune now)
    then show ?thesis using assms(1) by (simp add: prune_inv)
  next
    case cs_elect
    then show ?thesis using ok by (simp add: elected_inv)
  qed
qed

interpretation clusters: guarded_system "\<lambda>c. \<exists>cid snk timeout. c = new_cluster cid snk timeout" cluster_step cluster_inv
proof
  show "cluster_inv c" if "\<exists>cid snk timeout. c = new_cluster cid snk timeout" for c
    using that by (auto simp: new_cluster_def cluster_inv_def nodes_ok_def)
qed (rule cluster_step_inv)

section \<open>Properties\<close>

text \<open>
  After any sequence of nodes joining, leaving, sending heartbeats and being pruned, a cluster
  with nodes has a leader, and the leader is one of its nodes; an empty cluster has none.\<close>

theorem cluster_has_leader:
  assumes "cluster_step\<^sup>*\<^sup>* (new_cluster cid snk timeout) c"
  shows "if cl_nodes c = [] then tp_leader (get_topology c) = None
     else \<exists>l n. tp_leader (get_topology c) = Some l \<and> dget (tp_nodes (get_topology c)) l = Some n \<and> cn_id n = l"
proof -
  have "cluster_inv c" using clusters.reachable_inv [OF _ assms] by blast
  then show ?thesis by (cases "cl_leader c") (auto simp: cluster_inv_def nodes_ok_def get_topology_def)
qed

theorem cluster_has_leader_witness:
  "tp_leader (get_topology (snd (leave_cluster ''a'' [] (snd (join_cluster 2 ''b'' [] [] (snd (join_cluster 1 ''a'' [] [] (new_cluster ''c'' wired 30)))))))) = Some ''b''"
proof -
  let ?c1 = "snd (join_cluster 1 ''a'' [] [] (new_cluster ''c'' wired 30))"
  let ?c2 = "snd (join_cluster 2 ''b'' [] [] ?c1)"
  let ?c3 = "snd (leave_cluster ''a'' [] ?c2)"
  have "cluster_step\<^sup>*\<^sup>* (new_cluster ''c'' wired 30) ?c3"
    by (rule rtranclp.rtrancl_into_rtrancl [OF rtranclp.rtrancl_into_rtrancl [OF r_into_rtranclp]]) (rule cs_join cs_leave)+
  from cluster_has_leader [OF this] show ?thesis
    by (simp add: join_cluster_def leave_cluster_def elect_leader_def get_topology_def new_cluster_def cl_emit_def first_least_def Let_def split: if_splits)
qed

text \<open>
  The election prefers the node whose last heartbeat is the longest ago. So when any node of the
  cluster has timed out at the time of an election, the new leader has timed out as well, and the
  next pruning drops it.\<close>

theorem elected_leader_is_stalest:
  assumes "cluster_inv c" and "m \<in> set (dvals (cl_nodes c))" and "timed_out now c m"
  shows "case elect_leader c of (l, c') \<Rightarrow>
     cl_leader c' = l \<and> (\<exists>i n. l = Some i \<and> dget (cl_nodes c') i = Some n \<and> timed_out now c' n \<and> i \<in> set (fst (prune_timed_out now c')))"
proof -
  have ok: "nodes_ok (cl_nodes c)" using assms(1) by (simp add: cluster_inv_def)
  note e = elect_leader_spec [OF ok]
  have t: "cl_timeout (snd (elect_leader c)) = cl_timeout c" by (simp add: elect_leader_def Let_def split: list.splits)
  from assms(2) have "cl_nodes c \<noteq> []" by auto
  with e(3) obtain l where l: "cl_leader (snd (elect_leader c)) = Some l" by (cases "cl_leader (snd (elect_leader c))") auto
  from e(4) [OF this] obtain n where n: "dget (cl_nodes c) l = Some n" "\<forall>m \<in> set (dvals (cl_nodes c)). cn_heartbeat n \<le> cn_heartbeat m" by blast
  have "cn_heartbeat n \<le> cn_heartbeat m" using n(2) assms(2) by blast
  then have "(of_int (now - cn_heartbeat m) :: rat) \<le> of_int (now - cn_heartbeat n)" by simp
  with assms(3) have to: "timed_out now (snd (elect_leader c)) n" unfolding timed_out_def t by (simp add: divide_right_mono order.strict_trans2)
  have "l \<in> set (fst (prune_timed_out now (snd (elect_leader c))))"
    using dget_Some_in [OF n(1)] to e(1) by (force simp: prune_timed_out_def Let_def)
  with l n(1) to e(1,2) show ?thesis by (auto simp: case_prod_beta)
qed

theorem elected_leader_is_stalest_witness:
  "case elect_leader (snd (join_cluster 40000000 ''b'' [] [] (snd (join_cluster 0 ''a'' [] [] (new_cluster ''c'' wired 30))))) of
     (l, c') \<Rightarrow> l = Some ''a'' \<and> ''a'' \<in> set (fst (prune_timed_out 40000000 c'))"
proof -
  let ?c = "snd (join_cluster 40000000 ''b'' [] [] (snd (join_cluster 0 ''a'' [] [] (new_cluster ''c'' wired 30))))"
  let ?m = "\<lparr>cn_id = ''a'', cn_address = [], cn_capabilities = [], cn_heartbeat = 0, cn_load = 0\<rparr>"
  note ev = join_cluster_def elect_leader_def get_topology_def new_cluster_def cl_emit_def first_least_def Let_def
  have "cluster_step\<^sup>*\<^sup>* (new_cluster ''c'' wired 30) ?c"
    by (rule rtranclp.rtrancl_into_rtrancl [OF r_into_rtranclp]) (rule cs_join)+
  then have "cluster_inv ?c" using clusters.reachable_inv by blast
  moreover have "?m \<in> set (dvals (cl_nodes ?c))" "timed_out 40000000 ?c ?m" by (simp_all add: ev timed_out_def)
  ultimately have "case elect_leader ?c of (l, c') \<Rightarrow>
     cl_leader c' = l \<and> (\<exists>i n. l = Some i \<and> dget (cl_nodes c') i = Some n \<and> timed_out 40000000 c' n \<and> i \<in> set (fst (prune_timed_out 40000000 c')))"
    by (rule elected_leader_is_stalest)
  then show ?thesis by (simp add: ev timed_out_def prune_timed_out_def)
qed

end
