(* ===== verification/Interpolation.thy ===== *)
theory Interpolation
  imports Config
begin

text \<open>
  Secrets and settings in task parameters: \<open>_INTERP_RE\<close> and \<open>_interpolate_value\<close> of
  \<open>kernel/agent.py\<close>.

  \<^item> \<open>find_tokens\<close> is \<open>finditer\<close> with the regular expression of a token, \<open>replace_all\<close> is
    \<open>str.replace\<close>.
  \<^item> How a token is resolved is an argument of the scan; \<open>vault_token\<close> resolves it with a vault. The
    state of a resolution is the vault and a counter of fresh ids.
  \<^item> The interface of a resolver, with the laws under which the substitution fills in a template, is
    the locale \<open>resolver\<close>; the vault is its instance.
\<close>

section \<open>Tokens\<close>

datatype token = Secret string | Setting string

fun token_text :: "token \<Rightarrow> string" where
  "token_text (Secret n) = ''${secrets.'' @ n @ ''}''"
| "token_text (Setting n) = ''${config.'' @ n @ ''}''"

fun token_name :: "token \<Rightarrow> string" where
  "token_name (Secret n) = n" | "token_name (Setting n) = n"

text \<open>The rest of a token after its kind: a non-empty name up to the next closing brace.\<close>

definition token_from :: "(string \<Rightarrow> token) \<Rightarrow> string \<Rightarrow> (token \<times> string) option" where
  "token_from mk s =
     (let name = takeWhile (\<lambda>c. c \<noteq> CHR ''}'') s; rest = dropWhile (\<lambda>c. c \<noteq> CHR ''}'') s
      in if name = [] \<or> rest = [] then None else Some (mk name, tl rest))"

definition match_token :: "string \<Rightarrow> (token \<times> string) option" where
  "match_token s =
     (if startswith ''${secrets.'' s then token_from Secret (drop 10 s)
      else if startswith ''${config.'' s then token_from Setting (drop 9 s)
      else None)"

lemma match_token_shorter: "match_token s = Some (t, rest) \<Longrightarrow> length rest < length s"
proof -
  have "length rest < length u" if "token_from mk u = Some (t, rest)" for mk u
    using that length_dropWhile_le [of "\<lambda>c. c \<noteq> CHR ''}''" u] by (cases "dropWhile (\<lambda>c. c \<noteq> CHR ''}'') u") (auto simp: token_from_def Let_def split: if_splits)
  then have "length rest < length (drop n s)" if "token_from mk (drop n s) = Some (t, rest)" for mk n using that by blast
  then show "match_token s = Some (t, rest) \<Longrightarrow> length rest < length s"
    by (force simp: match_token_def split: if_splits)
qed

function find_tokens :: "string \<Rightarrow> token list" where
  "find_tokens [] = []"
| "find_tokens (c # cs) = (case match_token (c # cs) of Some (t, rest) \<Rightarrow> t # find_tokens rest | None \<Rightarrow> find_tokens cs)"
  by pat_completeness auto
termination by (relation "measure length") (auto dest: match_token_shorter)

function replace_all :: "string \<Rightarrow> string \<Rightarrow> string \<Rightarrow> string" where
  "replace_all old new [] = []"
| "replace_all old new (c # cs) =
     (if old \<noteq> [] \<and> startswith old (c # cs) then new @ replace_all old new (drop (length old) (c # cs)) else c # replace_all old new cs)"
  by pat_completeness auto
termination by (relation "measure (\<lambda>(old, new, s). length s)") auto

section \<open>Interpolation\<close>

type_synonym 's resolution = "token \<Rightarrow> 's \<Rightarrow> (string, 's) res"

fun substitute :: "'s resolution \<Rightarrow> token list \<Rightarrow> string \<Rightarrow> 's \<Rightarrow> (string, 's) res" where
  "substitute r [] out s = (Inr out, s)"
| "substitute r (t # ts) out s =
     (case r t s of (Inl x, s1) \<Rightarrow> (Inl x, s1) | (Inr v, s1) \<Rightarrow> substitute r ts (replace_all (token_text t) v out) s1)"

definition interp_string :: "'s resolution \<Rightarrow> string \<Rightarrow> 's \<Rightarrow> (string, 's) res" where
  "interp_string r str s =
     (case find_tokens str of
        [] \<Rightarrow> (Inr str, s)
      | ts \<Rightarrow> if length ts = 1 \<and> token_text (hd ts) = str then r (hd ts) s else substitute r ts str s)"

fun interp_value :: "'s resolution \<Rightarrow> pyval \<Rightarrow> 's \<Rightarrow> (pyval, 's) res"
  and interp_items :: "'s resolution \<Rightarrow> pyval list \<Rightarrow> 's \<Rightarrow> (pyval list, 's) res"
  and interp_entries :: "'s resolution \<Rightarrow> (string \<times> pyval) list \<Rightarrow> 's \<Rightarrow> ((string \<times> pyval) list, 's) res" where
  "interp_value r (PDict d) s = (case interp_entries r d s of (Inl x, s1) \<Rightarrow> (Inl x, s1) | (Inr d1, s1) \<Rightarrow> (Inr (PDict d1), s1))"
| "interp_value r (PList vs) s = (case interp_items r vs s of (Inl x, s1) \<Rightarrow> (Inl x, s1) | (Inr ws, s1) \<Rightarrow> (Inr (PList ws), s1))"
| "interp_value r (PStr str) s = (case interp_string r str s of (Inl x, s1) \<Rightarrow> (Inl x, s1) | (Inr t, s1) \<Rightarrow> (Inr (PStr t), s1))"
| "interp_value r v s = (Inr v, s)"
| "interp_items r [] s = (Inr [], s)"
| "interp_items r (v # vs) s =
     (case interp_value r v s of
        (Inl x, s1) \<Rightarrow> (Inl x, s1)
      | (Inr w, s1) \<Rightarrow> (case interp_items r vs s1 of (Inl x, s2) \<Rightarrow> (Inl x, s2) | (Inr ws, s2) \<Rightarrow> (Inr (w # ws), s2)))"
| "interp_entries r [] s = (Inr [], s)"
| "interp_entries r ((k, v) # kvs) s =
     (case interp_value r v s of
        (Inl x, s1) \<Rightarrow> (Inl x, s1)
      | (Inr w, s1) \<Rightarrow> (case interp_entries r kvs s1 of (Inl x, s2) \<Rightarrow> (Inl x, s2) | (Inr kws, s2) \<Rightarrow> (Inr ((k, w) # kws), s2)))"

text \<open>\<open>_resolve\<close>: a missing setting is the empty string, a missing secret an error.\<close>

fun vault_token ::
  "(datetime \<Rightarrow> string) \<Rightarrow> datetime \<Rightarrow> (nat \<Rightarrow> string) \<Rightarrow> config_scope \<Rightarrow> string option \<Rightarrow> string \<Rightarrow> (nat \<times> 'e vault) resolution" where
  "vault_token isofmt now uid scope scope_id accessor (Secret n) (i, v) =
     (case resolve_secret isofmt now (uid i) n scope scope_id accessor v of (r, v1) \<Rightarrow> (r, (i + 1, v1)))"
| "vault_token isofmt now uid scope scope_id accessor (Setting n) (i, v) =
     (case cv_get n scope scope_id None v of (r, v1) \<Rightarrow> (Inr (case r of None \<Rightarrow> [] | Some t \<Rightarrow> t), (i, v1)))"

section \<open>Templates\<close>

text \<open>
  A template is literal text without dollar signs and tokens whose names have neither braces that
  close nor dollar signs; \<open>render f\<close> writes it with \<open>f\<close> in place of the tokens.
\<close>

datatype segment = Lit string | Tok token

fun segment_ok :: "segment \<Rightarrow> bool" where
  "segment_ok (Lit str) \<longleftrightarrow> CHR ''$'' \<notin> set str"
| "segment_ok (Tok t) \<longleftrightarrow> token_name t \<noteq> [] \<and> CHR ''$'' \<notin> set (token_name t) \<and> CHR ''}'' \<notin> set (token_name t)"

fun render :: "(token \<Rightarrow> string) \<Rightarrow> segment list \<Rightarrow> string" where
  "render f [] = []"
| "render f (Lit str # segs) = str @ render f segs"
| "render f (Tok t # segs) = f t @ render f segs"

fun tokens_in :: "segment list \<Rightarrow> token list" where
  "tokens_in [] = []"
| "tokens_in (Lit str # segs) = tokens_in segs"
| "tokens_in (Tok t # segs) = t # tokens_in segs"

lemma startswith_split: "startswith p s \<longleftrightarrow> (\<exists>rest. s = p @ rest)"
  unfolding startswith_def by (metis append_eq_conv_conj append_take_drop_id)

lemma up_to_brace:
  "CHR ''}'' \<notin> set n \<Longrightarrow> takeWhile (\<lambda>c. c \<noteq> CHR ''}'') (n @ CHR ''}'' # rest) = n"
  "CHR ''}'' \<notin> set n \<Longrightarrow> dropWhile (\<lambda>c. c \<noteq> CHR ''}'') (n @ CHR ''}'' # rest) = CHR ''}'' # rest"
  by (induction n) auto

lemma match_token_text: "segment_ok (Tok t) \<Longrightarrow> match_token (token_text t @ rest) = Some (t, rest)"
  by (cases t) (simp_all add: match_token_def startswith_def token_from_def up_to_brace)

lemma match_token_plain: "c \<noteq> CHR ''$'' \<Longrightarrow> match_token (c # cs) = None"
  by (simp add: match_token_def startswith_def)

lemma find_tokens_text: "segment_ok (Tok t) \<Longrightarrow> find_tokens (token_text t @ rest) = t # find_tokens rest"
  using match_token_text [of t rest] by (cases t) simp_all

lemma find_tokens_plain: "CHR ''$'' \<notin> set str \<Longrightarrow> find_tokens (str @ rest) = find_tokens rest"
  by (induction str) (auto simp: match_token_plain)

lemma find_tokens_render: "list_all segment_ok segs \<Longrightarrow> find_tokens (render token_text segs) = tokens_in segs"
proof (induction segs)
  case (Cons seg segs)
  then show ?case by (cases seg) (simp_all add: find_tokens_plain find_tokens_text del: segment_ok.simps(2))
qed simp

lemma text_prefix:
  assumes "segment_ok (Tok t)" and "segment_ok (Tok u)" and "startswith (token_text t) (token_text u @ rest)"
  shows "t = u"
proof -
  from assms(3) obtain more where eq: "token_text u @ rest = token_text t @ more" by (auto simp: startswith_split)
  have "n = m" if "n @ CHR ''}'' # more = m @ CHR ''}'' # rest" "CHR ''}'' \<notin> set n" "CHR ''}'' \<notin> set m" for n m
    using that up_to_brace(1) [of n more] up_to_brace(1) [of m rest] by simp
  with eq assms(1,2) show ?thesis by (cases t; cases u) auto
qed

lemma replace_plain:
  assumes "CHR ''$'' \<notin> set str"
  shows "replace_all (token_text t) new (str @ rest) = str @ replace_all (token_text t) new rest"
  using assms by (induction str) (cases t; auto simp: startswith_def)+

lemma replace_text: "replace_all (token_text t) new (token_text t @ rest) = new @ replace_all (token_text t) new rest"
proof -
  obtain c cs where c: "token_text t = c # cs" by (cases t) auto
  have "startswith (c # cs) (c # cs @ rest)" by (simp add: startswith_def)
  then show ?thesis unfolding c by simp
qed

lemma replace_other_text:
  assumes "segment_ok (Tok t)" and "segment_ok (Tok u)" and "t \<noteq> u"
  shows "replace_all (token_text t) new (token_text u @ rest) = token_text u @ replace_all (token_text t) new rest"
proof -
  obtain body where b: "token_text u = CHR ''$'' # body" "CHR ''$'' \<notin> set body" using assms(2) by (cases u) auto
  have "\<not> startswith (token_text t) (token_text u @ rest)" using text_prefix [OF assms(1,2)] assms(3) by blast
  then show ?thesis unfolding b(1) using replace_plain [OF b(2)] by simp
qed

text \<open>Replacing a token turns a template in which the tokens of \<open>D\<close> are filled in into one with that token, too.\<close>

definition filled :: "(token \<Rightarrow> string) \<Rightarrow> token set \<Rightarrow> token \<Rightarrow> string" where
  "filled val D t = (if t \<in> D then val t else token_text t)"

lemma replace_render:
  assumes "list_all segment_ok segs" and "segment_ok (Tok t)" and "\<forall>u \<in> D. CHR ''$'' \<notin> set (val u)"
  shows "replace_all (token_text t) (val t) (render (filled val D) segs) = render (filled val (insert t D)) segs"
  using assms(1)
proof (induction segs)
  case (Cons seg segs)
  show ?case
  proof (cases seg)
    case (Lit str)
    with Cons show ?thesis by (simp add: replace_plain)
  next
    case (Tok u)
    consider "u \<in> D" | "u \<notin> D" "u = t" | "u \<notin> D" "u \<noteq> t" by blast
    then show ?thesis
    proof cases
      case 1
      with Cons Tok assms(3) show ?thesis by (simp add: filled_def replace_plain)
    next
      case 2
      with Cons Tok show ?thesis by (simp add: filled_def replace_text)
    next
      case 3
      have "segment_ok (Tok u)" using Cons.prems Tok by simp
      with 3 Cons Tok assms(2) show ?thesis by (simp add: filled_def replace_other_text del: segment_ok.simps(2))
    qed
  qed
qed simp

lemma render_cong: "\<forall>t \<in> set (tokens_in segs). f t = g t \<Longrightarrow> render f segs = render g segs"
  by (induction f segs rule: render.induct) auto

section \<open>Filling in a template\<close>

locale resolver =
  fixes resolve :: "'s resolution" and sound :: "'s \<Rightarrow> bool" and val :: "token \<Rightarrow> string" and known :: "token set"
  assumes resolves: "sound s \<Longrightarrow> t \<in> known \<Longrightarrow> \<exists>s'. resolve t s = (Inr (val t), s') \<and> sound s'"
begin

lemma substitute_fills:
  assumes "list_all segment_ok segs" and "\<forall>t \<in> known. CHR ''$'' \<notin> set (val t)" and "sound s" and "set ts \<subseteq> known" and "D \<subseteq> known"
    and "\<forall>t \<in> set ts. segment_ok (Tok t)"
  shows "\<exists>s'. substitute resolve ts (render (filled val D) segs) s = (Inr (render (filled val (D \<union> set ts)) segs), s') \<and> sound s'"
  using assms(3-6)
proof (induction ts arbitrary: s D)
  case (Cons t ts)
  then obtain s1 where r: "resolve t s = (Inr (val t), s1)" "sound s1" using resolves by force
  have "replace_all (token_text t) (val t) (render (filled val D) segs) = render (filled val (insert t D)) segs"
    by (rule replace_render) (use assms(1,2) Cons.prems in auto)
  with r Cons.IH [of s1 "insert t D"] Cons.prems show ?case by (simp add: Un_commute insert_commute Un_insert_right)
qed auto

lemma interp_fills:
  assumes "list_all segment_ok segs" and "sound s" and "set (tokens_in segs) \<subseteq> known" and "\<forall>t \<in> known. CHR ''$'' \<notin> set (val t)"
  shows "\<exists>s'. interp_string resolve (render token_text segs) s = (Inr (render val segs), s') \<and> sound s'"
proof -
  let ?str = "render token_text segs" and ?ts = "tokens_in segs"
  have f: "find_tokens ?str = ?ts" using assms(1) by (rule find_tokens_render)
  have ok: "\<forall>t \<in> set ?ts. segment_ok (Tok t)" using assms(1) by (induction segs rule: tokens_in.induct) auto
  have start: "render (filled val {}) segs = ?str" by (rule render_cong) (simp add: filled_def)
  have fin: "render (filled val (set ?ts)) segs = render val segs" by (rule render_cong) (simp add: filled_def)
  have sub: "\<exists>s'. substitute resolve ?ts ?str s = (Inr (render val segs), s') \<and> sound s'"
    using substitute_fills [OF assms(1,4,2,3) _ ok, of "{}"] start fin by simp
  show ?thesis
  proof (cases ?ts)
    case Nil
    with f assms(2) render_cong [of segs val token_text] show ?thesis by (simp add: interp_string_def)
  next
    case (Cons t ts)
    show ?thesis
    proof (cases "ts = [] \<and> token_text t = ?str")
      case True
      then obtain s1 where r: "resolve t s = (Inr (val t), s1)" "sound s1" using resolves [OF assms(2)] assms(3) Cons by force
      have "replace_all (token_text t) (val t) ?str = val t" using replace_text [of t "val t" "[]"] True by simp
      then have "substitute resolve ?ts ?str s = (Inr (val t), s1)" using Cons True r by simp
      with sub have "render val segs = val t" by auto
      with f r Cons True show ?thesis by (simp add: interp_string_def)
    next
      case False
      with f Cons sub show ?thesis by (auto simp: interp_string_def)
    qed
  qed
qed

end

section \<open>The vault as a resolver\<close>

text \<open>What a vault answers for a token, whenever it is asked.\<close>

fun serves :: "config_scope \<Rightarrow> string option \<Rightarrow> 'e vault \<Rightarrow> token \<Rightarrow> string \<Rightarrow> bool" where
  "serves scope scope_id v (Secret n) p \<longleftrightarrow>
     (\<exists>ci sv. cv_cipher v = Some ci \<and> cv_find_secret n scope scope_id v = Some sv \<and> (\<forall>e. \<exists>e'. ci_decrypt ci (sv_ciphertext sv) e = (Inr p, e')))"
| "serves scope scope_id v (Setting n) p \<longleftrightarrow>
     p = (case entry_at n scope scope_id v of None \<Rightarrow> [] | Some e \<Rightarrow> if cf_deleted e then [] else cf_value e)"

definition answers_alike :: "config_scope \<Rightarrow> string option \<Rightarrow> 'e vault \<Rightarrow> 'e vault \<Rightarrow> bool" where
  "answers_alike scope scope_id v v' \<longleftrightarrow>
     vault_wf v' \<and> cv_cipher v' = cv_cipher v \<and> (\<forall>k. entry_at k scope scope_id v' = entry_at k scope scope_id v) \<and>
     (\<forall>k. cv_find_secret k scope scope_id v' = cv_find_secret k scope scope_id v)"

lemma serves_alike: "answers_alike scope scope_id v v' \<Longrightarrow> serves scope scope_id v' t p = serves scope scope_id v t p"
  by (cases t) (simp_all add: answers_alike_def)

lemma ckey_inj [simp]: "ckey k s i = ckey k' s i \<longleftrightarrow> k = k'"
  by (simp add: ckey_def)

lemma cst_put_audit_same:
  "cst_get_secret k s i (cst_put_audit a st) = cst_get_secret k s i st" "cst_config (cst_put_audit a st) = cst_config st"
  "(case cst_conn (cst_put_audit a st) of None \<Rightarrow> y | Some d \<Rightarrow> dget (cdb_config d) z) = (case cst_conn st of None \<Rightarrow> y | Some d \<Rightarrow> dget (cdb_config d) z)"
  by (cases "cst_path st"; simp add: cst_get_secret_def cst_put_audit_def cst_conn_write cst_conn_def cst_write_def)+

lemma audit_alike: "vault_wf v \<Longrightarrow> answers_alike s i v (cv_emit e (cv_put_audit a v))"
  by (cases "cv_store v")
     (simp_all add: answers_alike_def entry_at_def cv_put_audit_def cv_emit_def cv_find_secret_def vault_wf_def cst_put_audit_same cong: option.case_cong)

lemma answers_alike_trans: "answers_alike s i v v1 \<Longrightarrow> answers_alike s i v1 v2 \<Longrightarrow> answers_alike s i v v2"
  by (simp add: answers_alike_def)

lemma resolve_alike:
  assumes "vault_wf v" and "resolve_secret isofmt now uid n s i who v = (Inr p, v')"
  shows "answers_alike s i v v'"
proof -
  obtain ci sv e where ci: "cv_cipher v = Some ci" "cv_find_secret n s i v = Some sv" "ci_decrypt ci (sv_ciphertext sv) (cv_env v) = (Inr p, e)"
    using assms(2) by (auto simp: resolve_secret_def Let_def split: option.splits prod.splits sum.splits)
  let ?v = "v\<lparr>cv_secrets := dset (ckey n s i) sv (cv_secrets v), cv_env := e\<rparr>"
  have cached: "answers_alike s i v ?v"
    using assms(1) ci(2) by (simp add: answers_alike_def entry_at_def cv_find_secret_def vault_wf_def update_conv' cong: option.case_cong)
  then have "vault_wf ?v" by (simp add: answers_alike_def)
  then have "answers_alike s i v (audit_access isofmt now uid n who ''resolve'' ?v)"
    unfolding audit_access_def by (intro answers_alike_trans [OF cached] audit_alike)
  with ci assms(2) show ?thesis by (simp add: resolve_secret_def Let_def)
qed

lemma cv_get_alike:
  assumes "vault_wf v"
  shows "answers_alike s i v (snd (cv_get n s i deflt v))"
proof -
  obtain r v1 where f: "cv_find n s i v = (r, v1)" by (cases "cv_find n s i v")
  show ?thesis
  proof (cases r)
    case None
    with f cv_find_entry [of n s i v] assms show ?thesis by (simp add: cv_get_def answers_alike_def)
  next
    case (Some j)
    with f cv_find_entry [of n s i v] obtain ext where e: "entry_at n s i v = Some (cv_heap v1 ! j)" "v1 = v\<lparr>cv_heap := cv_heap v @ ext\<rparr>" by auto
    have ext: "entry_at k s i v1 = entry_at k s i v" "vault_wf v1" for k using entry_at_ext [OF assms] e(2) by simp_all
    have j: "j < length (cv_heap v1)"
      using f Some assms by (force simp: cv_find_def cst_get_config_def vault_wf_def split: option.splits prod.splits dest: dget_Some_in)
    let ?v = "v1\<lparr>cv_config := dset (ckey n s i) j (cv_config v1)\<rparr>"
    have same: "entry_at k s i ?v = entry_at k s i v1" for k
    proof (cases "k = n")
      case True
      with e(1) ext(1) show ?thesis by (simp add: entry_at_def)
    qed (simp add: entry_at_def cong: option.case_cong)
    have "vault_wf ?v" using ext(2) j by (auto simp: vault_wf_def dest: in_dsetD)
    with same ext e(2) have "answers_alike s i v ?v" by (simp add: answers_alike_def cv_find_secret_def cong: option.case_cong)
    with f Some show ?thesis by (simp add: cv_get_def Let_def)
  qed
qed

lemma vault_token_alike:
  assumes "vault_wf v" and "vault_token isofmt now uid s i who t (n, v) = (Inr p, (n', v'))"
  shows "answers_alike s i v v'"
proof (cases t)
  case (Secret k)
  with assms show ?thesis by (auto split: prod.splits intro: resolve_alike)
next
  case (Setting k)
  with assms(2) have "v' = snd (cv_get k s i None v)" by (auto split: prod.splits)
  with cv_get_alike [OF assms(1)] show ?thesis by simp
qed

lemma vault_token_serves:
  assumes "serves s i v t p"
  shows "\<exists>st. vault_token isofmt now uid s i who t (n, v) = (Inr p, st)"
proof (cases t)
  case (Secret k)
  with assms obtain ci sv where ci: "cv_cipher v = Some ci" "cv_find_secret k s i v = Some sv" "\<forall>e. \<exists>e'. ci_decrypt ci (sv_ciphertext sv) e = (Inr p, e')" by auto
  from resolve_found [OF this] obtain v' where "resolve_secret isofmt now (uid n) k s i who v = (Inr p, v')" by blast
  with Secret show ?thesis by simp
next
  case (Setting k)
  with assms cv_get_entry [of k s i None v] show ?thesis by (auto split: prod.splits option.splits if_splits)
qed

definition vault_sound :: "config_scope \<Rightarrow> string option \<Rightarrow> (token \<Rightarrow> string) \<Rightarrow> token set \<Rightarrow> nat \<times> 'e vault \<Rightarrow> bool" where
  "vault_sound scope scope_id val known s \<longleftrightarrow> vault_wf (snd s) \<and> (\<forall>t \<in> known. serves scope scope_id (snd s) t (val t))"

interpretation vault_tokens: resolver "vault_token isofmt now uid scope scope_id who" "vault_sound scope scope_id val known" val known
  for isofmt now uid scope scope_id who val known
proof unfold_locales
  fix s :: "nat \<times> 'e vault" and t
  assume a: "vault_sound scope scope_id val known s" "t \<in> known"
  obtain i v where s: "s = (i, v)" by (cases s)
  have wf: "vault_wf v" and sv: "serves scope scope_id v t (val t)" using a s by (simp_all add: vault_sound_def)
  obtain i' v' where r: "vault_token isofmt now uid scope scope_id who t (i, v) = (Inr (val t), (i', v'))"
    using vault_token_serves [OF sv] by (metis surj_pair)
  have alike: "answers_alike scope scope_id v v'" by (rule vault_token_alike [OF wf r])
  then have "vault_sound scope scope_id val known (i', v')"
    using a(1) s serves_alike [OF alike] by (simp add: vault_sound_def answers_alike_def)
  with r s show "\<exists>s'. vault_token isofmt now uid scope scope_id who t s = (Inr (val t), s') \<and> vault_sound scope scope_id val known s'" by blast
qed

lemma missing_secret_stops:
  assumes "vault_wf v" and "Secret k \<in> set ts" and "cv_find_secret k s i v = None"
  shows "\<exists>x st. substitute (vault_token isofmt now uid s i who) ts out (n, v) = (Inl x, st)"
  using assms
proof (induction ts arbitrary: out n v)
  case (Cons t ts)
  obtain r n1 v1 where r: "vault_token isofmt now uid s i who t (n, v) = (r, (n1, v1))" by (metis surj_pair)
  show ?case
  proof (cases r)
    case (Inr p)
    have alike: "answers_alike s i v v1" using vault_token_alike [OF Cons.prems(1)] r Inr by simp
    have "t \<noteq> Secret k" using r Inr Cons.prems(3) by (auto simp: resolve_secret_def split: option.splits)
    with Cons.IH [of v1] Cons.prems alike r Inr show ?thesis by (simp add: answers_alike_def)
  qed (use r in simp)
qed simp

section \<open>Properties\<close>


definition demo_vault :: "string \<Rightarrow> string \<Rightarrow> unit vault" where
  "demo_vault setting secret =
     \<lparr>cv_sink = unwired,
      cv_heap = [\<lparr>cf_key = ''a'', cf_value = setting, cf_scope = AGENT, cf_scope_id = Some ''bot'', cf_version = 1, cf_updated_at = 0, cf_encrypted = False, cf_deleted = False\<rparr>],
      cv_config = [(ckey ''a'' AGENT (Some ''bot''), 0)],
      cv_secrets = [(ckey ''k'' AGENT (Some ''bot''),
        \<lparr>sv_key = ''k'', sv_scope = AGENT, sv_scope_id = Some ''bot'', sv_ciphertext = utf8_encode (b64encode (utf8_encode secret)), sv_nonce = [], sv_tag = [],
         sv_version = 1, sv_rotated_at = 0\<rparr>)],
      cv_audit = [], cv_store = None, cv_cipher = Some base64_cipher, cv_env = ()\<rparr>"

lemma demo_vault_serves:
  "vault_wf (demo_vault x p)" "serves AGENT (Some ''bot'') (demo_vault x p) (Setting ''a'') x" "serves AGENT (Some ''bot'') (demo_vault x p) (Secret ''k'') p"
  by (simp_all add: demo_vault_def vault_wf_def entry_at_def cv_find_secret_def base64_cipher_def utf8_roundtrip b64_roundtrip utf8_bytes)


text \<open>
  A secret the vault does not have is never blanked: interpolating a parameter in which it occurs
  raises an exception, whatever the other tokens are.\<close>

theorem missing_secret_raises:
  assumes "vault_wf v" and "Secret k \<in> set (find_tokens str)" and "cv_find_secret k s i v = None"
  shows "\<exists>x st. interp_value (vault_token isofmt now uid s i who) (PStr str) (n, v) = (Inl x, st)"
proof -
  obtain t ts where ts: "find_tokens str = t # ts" using assms(2) by (cases "find_tokens str") auto
  let ?r = "vault_token isofmt now uid s i who"
  obtain x st where sub: "substitute ?r (t # ts) str (n, v) = (Inl x, st)" using missing_secret_stops [OF assms(1) _ assms(3)] assms(2) ts by metis
  have "\<exists>x st. interp_string ?r str (n, v) = (Inl x, st)"
  proof (cases "ts = [] \<and> token_text t = str")
    case True
    then show ?thesis using sub ts by (cases "?r t (n, v)"; cases "fst (?r t (n, v))") (auto simp: interp_string_def)
  qed (use sub ts in \<open>auto simp: interp_string_def\<close>)
  then show ?thesis by fastforce
qed

theorem missing_secret_raises_witness:
  "\<exists>x st. interp_value (vault_token (\<lambda>_. []) 0 (\<lambda>_. []) AGENT (Some ''bot'') ''bot'') (PStr ''${config.a}:${secrets.z}'') (0, demo_vault ''me'' ''pw'') = (Inl x, st)"
proof -
  have "Secret ''z'' \<in> set (find_tokens ''${config.a}:${secrets.z}'')" by (simp add: match_token_def startswith_def token_from_def)
  moreover have "cv_find_secret ''z'' AGENT (Some ''bot'') (demo_vault ''me'' ''pw'') = None" by (simp add: cv_find_secret_def demo_vault_def)
  ultimately show ?thesis using missing_secret_raises demo_vault_serves(1) by blast
qed

text \<open>
  The tokens are replaced one after the other in the whole text, so the value of a setting is read
  as a template again: a setting whose value spells a secret's token that occurs later in the
  parameter is replaced by the secret.\<close>

theorem setting_injects_secret:
  assumes "segment_ok (Tok (Setting a))" and "segment_ok (Tok (Secret k))" and "vault_wf v"
    and "serves s i v (Setting a) (token_text (Secret k))" and "serves s i v (Secret k) p"
  shows "\<exists>st. interp_value (vault_token isofmt now uid s i who) (PStr (token_text (Setting a) @ '' '' @ token_text (Secret k))) (n, v) = (Inr (PStr (p @ '' '' @ p)), st)"
proof -
  let ?r = "vault_token isofmt now uid s i who" and ?t = "Setting a" and ?u = "Secret k"
  have f: "find_tokens (token_text ?t @ '' '' @ token_text ?u) = [?t, ?u]"
    using find_tokens_render [of "[Tok ?t, Lit '' '', Tok ?u]"] assms(1,2) by simp
  obtain n1 v1 where r1: "?r ?t (n, v) = (Inr (token_text ?u), (n1, v1))" using vault_token_serves [OF assms(4)] by (metis surj_pair)
  have "serves s i v1 ?u p" using serves_alike [OF vault_token_alike [OF assms(3) r1]] assms(5) by blast
  then obtain st where r2: "?r ?u (n1, v1) = (Inr p, st)" using vault_token_serves by blast
  have "replace_all (token_text ?t) (token_text ?u) (token_text ?t @ '' '' @ token_text ?u) = token_text ?u @ '' '' @ token_text ?u"
    using replace_plain [of "'' ''" ?t] replace_other_text [OF assms(1,2), of _ "[]"] by (simp add: replace_text del: token_text.simps)
  moreover have "replace_all (token_text ?u) p (token_text ?u @ '' '' @ token_text ?u) = p @ '' '' @ p"
    using replace_plain [of "'' ''" ?u] replace_text [of ?u _ "[]"] by (simp add: replace_text del: token_text.simps)
  ultimately have "interp_string ?r (token_text ?t @ '' '' @ token_text ?u) (n, v) = (Inr (p @ '' '' @ p), st)"
    using f r1 r2 unfolding interp_string_def by (simp del: token_text.simps vault_token.simps)
  then show ?thesis by simp
qed

theorem setting_injects_secret_witness:
  "\<exists>st. interp_value (vault_token (\<lambda>_. []) 0 (\<lambda>_. []) AGENT (Some ''bot'') ''bot'') (PStr ''${config.a} ${secrets.k}'') (0, demo_vault ''${secrets.k}'' ''pw'') =
     (Inr (PStr ''pw pw''), st)"
proof -
  have "serves AGENT (Some ''bot'') (demo_vault ''${secrets.k}'' ''pw'') (Setting ''a'') (token_text (Secret ''k''))"
    using demo_vault_serves(2) [of "''${secrets.k}''"] by simp
  from setting_injects_secret [OF _ _ demo_vault_serves(1) this demo_vault_serves(3), of "\<lambda>_. []" 0 "\<lambda>_. []" "''bot''" 0] show ?thesis by simp
qed

end
