(* ===== verification/Mcp.thy ===== *)
theory Mcp
  imports Resilience Dispatch Config
begin

text \<open>
  The MCP client gateway: \<open>kernel/mcp_gateway.py\<close>, \<open>kernel/mcp_store.py\<close> and \<open>kernel/mcp_domain.py\<close>.

  \<^item> The gateway extends the state of the resilience engine it may be wired to (\<open>gw_resilient\<close>), so
    that the guarded calls of \<open>call_tool\<close> are the calls of \<open>Resilience\<close>; \<open>gw_env\<close> is the world the
    transport acts on.
  \<^item> \<open>wire\<close> collects what is outside: the HTTP client (with \<open>asyncio.wait_for\<close> around it), sleeping,
    the clocks, the supply of ids, the digest of the arguments and the printing of values.
  \<^item> JSON-RPC responses are Python values of any shape; a failed subscript or method is an exception.
  \<^item> Session objects are shared with an in-memory store, so they live in \<open>gw_heap\<close>.
\<close>

section \<open>Domain and store\<close>

record mcp_server =
  msv_url :: string
  msv_name :: string
  msv_version :: string
  msv_auth_token :: "string option"
  msv_capabilities :: "string list"

record mcp_tool =
  mt_name :: string
  mt_description :: string
  mt_input_schema :: pydict
  mt_server_url :: string

record mcp_session =
  mss_id :: string
  mss_server_url :: string
  mss_status :: string
  mss_created_at :: datetime
  mss_last_used :: datetime

record mcp_call =
  mc_id :: string
  mc_session :: string
  mc_tool :: string
  mc_hash :: string
  mc_latency :: rat
  mc_error :: "string option"
  mc_time :: datetime

text \<open>The dictionaries of an in-memory store, and the tables of a database.\<close>

record mcp_mem =
  mm_servers :: "(string, mcp_server) dict"
  mm_tools :: "(string \<times> string, mcp_tool) dict"
  mm_sessions :: "(string, nat) dict"
  mm_calls :: "mcp_call list"

record mcp_db =
  md_servers :: "(string, mcp_server) dict"
  md_tools :: "(string \<times> string, mcp_tool) dict"
  md_sessions :: "(string, mcp_session) dict"
  md_calls :: "(string, mcp_call) dict"

record mcp_store =
  mst_mem :: mcp_mem
  mst_conn :: "mcp_db option"

definition open_mcp_store :: "mcp_db option \<Rightarrow> mcp_store" where
  "open_mcp_store db = \<lparr>mst_mem = \<lparr>mm_servers = [], mm_tools = [], mm_sessions = [], mm_calls = []\<rparr>, mst_conn = db\<rparr>"

definition put_server :: "mcp_server \<Rightarrow> mcp_store \<Rightarrow> mcp_store" where
  "put_server s st =
     (case mst_conn st of
        Some d \<Rightarrow> st\<lparr>mst_conn := Some (d\<lparr>md_servers := row_replace (msv_url s) s (md_servers d)\<rparr>)\<rparr>
      | None \<Rightarrow> st\<lparr>mst_mem := (mst_mem st)\<lparr>mm_servers := dset (msv_url s) s (mm_servers (mst_mem st))\<rparr>\<rparr>)"

definition get_server :: "string \<Rightarrow> mcp_store \<Rightarrow> mcp_server option" where
  "get_server url st = (case mst_conn st of Some d \<Rightarrow> dget (md_servers d) url | None \<Rightarrow> dget (mm_servers (mst_mem st)) url)"

definition put_tool :: "mcp_tool \<Rightarrow> mcp_store \<Rightarrow> mcp_store" where
  "put_tool t st =
     (case mst_conn st of
        Some d \<Rightarrow> st\<lparr>mst_conn := Some (d\<lparr>md_tools := row_replace (mt_server_url t, mt_name t) t (md_tools d)\<rparr>)\<rparr>
      | None \<Rightarrow> st\<lparr>mst_mem := (mst_mem st)\<lparr>mm_tools := dset (mt_server_url t, mt_name t) t (mm_tools (mst_mem st))\<rparr>\<rparr>)"

definition get_stored_tool :: "string \<Rightarrow> string \<Rightarrow> mcp_store \<Rightarrow> mcp_tool option" where
  "get_stored_tool name url st =
     (case mst_conn st of Some d \<Rightarrow> dget (md_tools d) (url, name) | None \<Rightarrow> dget (mm_tools (mst_mem st)) (url, name))"

definition list_stored_tools :: "string option \<Rightarrow> mcp_store \<Rightarrow> mcp_tool list" where
  "list_stored_tools url st =
     filter (\<lambda>t. case url of None \<Rightarrow> True | Some u \<Rightarrow> mt_server_url t = u)
       (case mst_conn st of Some d \<Rightarrow> dvals (md_tools d) | None \<Rightarrow> dvals (mm_tools (mst_mem st)))"

text \<open>An in-memory store keeps the session object itself, a database a row with its fields.\<close>

definition put_session :: "mcp_session list \<Rightarrow> nat \<Rightarrow> mcp_store \<Rightarrow> mcp_store" where
  "put_session heap r st =
     (case mst_conn st of
        Some d \<Rightarrow> st\<lparr>mst_conn := Some (d\<lparr>md_sessions := row_replace (mss_id (heap ! r)) (heap ! r) (md_sessions d)\<rparr>)\<rparr>
      | None \<Rightarrow> st\<lparr>mst_mem := (mst_mem st)\<lparr>mm_sessions := dset (mss_id (heap ! r)) r (mm_sessions (mst_mem st))\<rparr>\<rparr>)"

definition get_stored_session :: "mcp_session list \<Rightarrow> string \<Rightarrow> mcp_store \<Rightarrow> mcp_session option" where
  "get_stored_session heap i st =
     (case mst_conn st of Some d \<Rightarrow> dget (md_sessions d) i | None \<Rightarrow> map_option (\<lambda>r. heap ! r) (dget (mm_sessions (mst_mem st)) i))"

definition put_call :: "mcp_call \<Rightarrow> mcp_store \<Rightarrow> mcp_store" where
  "put_call c st =
     (case mst_conn st of
        Some d \<Rightarrow> st\<lparr>mst_conn := Some (d\<lparr>md_calls := row_replace (mc_id c) c (md_calls d)\<rparr>)\<rparr>
      | None \<Rightarrow> st\<lparr>mst_mem := (mst_mem st)\<lparr>mm_calls := mm_calls (mst_mem st) @ [c]\<rparr>\<rparr>)"

definition list_calls :: "string option \<Rightarrow> datetime option \<Rightarrow> datetime option \<Rightarrow> mcp_store \<Rightarrow> mcp_call list" where
  "list_calls session since until st =
     filter (\<lambda>c. (case session of None \<Rightarrow> True | Some s \<Rightarrow> mc_session c = s) \<and>
                 (case since of None \<Rightarrow> True | Some t \<Rightarrow> mc_time c \<ge> t) \<and>
                 (case until of None \<Rightarrow> True | Some t \<Rightarrow> mc_time c \<le> t))
       (case mst_conn st of Some d \<Rightarrow> sort_key mc_time (dvals (md_calls d)) | None \<Rightarrow> mm_calls (mst_mem st))"

definition close_mcp_store :: "mcp_store \<Rightarrow> mcp_store" where
  "close_mcp_store st = st\<lparr>mst_conn := None\<rparr>"

section \<open>The gateway\<close>

record 'w wire =
  wi_post :: "string \<Rightarrow> pyval \<Rightarrow> 'w \<Rightarrow> (exn + pyval) \<times> 'w"
  wi_sleep :: "rat \<Rightarrow> 'w \<Rightarrow> 'w"
  wi_clock :: "'w \<Rightarrow> rat"
  wi_utc :: "'w \<Rightarrow> datetime"
  wi_uid :: "nat \<Rightarrow> string"
  wi_hash :: "pydict \<Rightarrow> string"
  wi_str :: "pyval \<Rightarrow> string"
  wi_fstr :: "rat \<Rightarrow> string"
  wi_iso :: "datetime \<Rightarrow> string"

record ('w, 'e) gateway = resilience +
  gw_sink :: sink
  gw_store :: "mcp_store option"
  gw_http :: bool
  gw_metrics :: "metric list option"
  gw_max_retries :: int
  gw_retry_backoff :: rat
  gw_timeout :: rat
  gw_vault :: "'e vault option"
  gw_resilient :: bool
  gw_heap :: "mcp_session list"
  gw_sessions :: "(string, nat) dict"
  gw_by_server :: "(string, string) dict"
  gw_tools :: "(string, mcp_tool list) dict"
  gw_auth :: "(string, string) dict"
  gw_auth_source :: "(string, string) dict"
  gw_next :: nat
  gw_env :: 'w

definition McpGatewayError :: "string \<Rightarrow> exn" where
  "McpGatewayError m = std_exn [''McpGatewayError'', ''RuntimeError''] m"

definition gw_emit :: "mcp_event \<Rightarrow> ('w, 'e) gateway \<Rightarrow> ('w, 'e) gateway" where
  "gw_emit e g = g\<lparr>gw_sink := emit (McpEv e) (gw_sink g)\<rparr>"

definition gw_metric :: "string \<Rightarrow> rat \<Rightarrow> (string \<times> string) list \<Rightarrow> ('w, 'e) gateway \<Rightarrow> ('w, 'e) gateway" where
  "gw_metric name v labels g = g\<lparr>gw_metrics := map_option (\<lambda>ms. ms @ [(name, v, labels)]) (gw_metrics g)\<rparr>"

definition gw_fresh :: "'w wire \<Rightarrow> ('w, 'e) gateway \<Rightarrow> string \<times> ('w, 'e) gateway" where
  "gw_fresh wi g = (wi_uid wi (gw_next g), g\<lparr>gw_next := gw_next g + 1\<rparr>)"

definition gw_put :: "(mcp_store \<Rightarrow> mcp_store) \<Rightarrow> ('w, 'e) gateway \<Rightarrow> ('w, 'e) gateway" where
  "gw_put f g = g\<lparr>gw_store := map_option f (gw_store g)\<rparr>"

subsection \<open>JSON-RPC\<close>

definition py_get :: "pyval \<Rightarrow> string \<Rightarrow> pyval \<Rightarrow> exn + pyval" where
  "py_get v k dflt = (case v of PDict d \<Rightarrow> Inr (dget_or d k dflt) | _ \<Rightarrow> Inl (AttributeError ''get''))"

text \<open>The loop over the attempts; the second number counts those left after this one.\<close>

fun rpc_loop :: "'w wire \<Rightarrow> string \<Rightarrow> string \<Rightarrow> pyval \<Rightarrow> nat \<Rightarrow> nat \<Rightarrow> ('w, 'e) gateway \<Rightarrow> (pyval, ('w, 'e) gateway) res" where
  "rpc_loop wi url meth request attempt left g =
     (case wi_post wi url request (gw_env g) of
        (Inr response, w) \<Rightarrow> (Inr response, g\<lparr>gw_env := w\<rparr>)
      | (Inl x, w) \<Rightarrow>
          (let g1 = g\<lparr>gw_env := w\<rparr>
           in if catches ''TimeoutError'' x then
                (Inl (McpGatewayError (''MCP request '' @ quoted meth @ '' to '' @ url @ '' timed out'')),
                 gw_emit (McpError url ''timeout'' (meth @ '' timed out after '' @ wi_fstr wi (gw_timeout g) @ ''s'')) g1)
              else if \<not> catches ''Exception'' x then (Inl x, g1)
              else (case left of
                      Suc n \<Rightarrow> rpc_loop wi url meth request (attempt + 1) n
                                 (g1\<lparr>gw_env := wi_sleep wi (gw_retry_backoff g * of_nat (attempt + 1)) w\<rparr>)
                    | 0 \<Rightarrow> (Inl (McpGatewayError (''MCP request '' @ quoted meth @ '' to '' @ url @ '' failed: '' @ exn_msg x)),
                            gw_emit (McpError url ''transport'' (exn_msg x)) g1))))"

definition unwrap :: "'w wire \<Rightarrow> string \<Rightarrow> string \<Rightarrow> pyval \<Rightarrow> ('w, 'e) gateway \<Rightarrow> (pyval, ('w, 'e) gateway) res" where
  "unwrap wi url meth response g =
     (case (case response of PDict d \<Rightarrow> dget d ''result'' | _ \<Rightarrow> None) of
        Some r \<Rightarrow> (Inr r, g)
      | None \<Rightarrow>
          (let error = (case response of PDict d \<Rightarrow> dget_or d ''error'' (PDict []) | _ \<Rightarrow> PDict [])
           in case py_get error ''message'' (PStr ''invalid JSON-RPC response (no result)'') of
                Inl x \<Rightarrow> (Inl x, g)
              | Inr m \<Rightarrow>
                  (Inl (McpGatewayError (''MCP '' @ quoted meth @ '' error from '' @ url @ '': '' @ wi_str wi m)),
                   gw_emit (McpError url ''protocol'' (wi_str wi m)) g)))"

definition exchange :: "'w wire \<Rightarrow> string \<Rightarrow> string \<Rightarrow> pyval \<Rightarrow> ('w, 'e) gateway \<Rightarrow> (pyval, ('w, 'e) gateway) res" where
  "exchange wi url meth request g =
     (case rpc_loop wi url meth request 0 (nat (gw_max_retries g)) g of
        (Inl x, g1) \<Rightarrow> (Inl x, g1)
      | (Inr response, g1) \<Rightarrow> unwrap wi url meth response g1)"

definition rpc_request :: "string \<Rightarrow> string \<Rightarrow> pydict \<Rightarrow> string option \<Rightarrow> pyval" where
  "rpc_request i meth params token =
     PDict [(''jsonrpc'', PStr ''2.0''), (''id'', PStr i), (''method'', PStr meth),
            (''params'', PDict (case token of None \<Rightarrow> params | Some t \<Rightarrow> dset ''_meta'' (PDict [(''authorization'', PStr (''Bearer '' @ t))]) params))]"

definition rpc :: "'w wire \<Rightarrow> string \<Rightarrow> string \<Rightarrow> pydict \<Rightarrow> ('w, 'e) gateway \<Rightarrow> (pyval, ('w, 'e) gateway) res" where
  "rpc wi url meth params g =
     (if \<not> gw_http g then (Inl (McpGatewayError ''MCP gateway has no http_client wired''), g)
      else
        (let (i, g1) = gw_fresh wi g
         in if gw_max_retries g < 0 then (Inl (McpGatewayError ''None''), g1)
            else exchange wi url meth (rpc_request i meth params (dget (gw_auth g) url)) g1))"

subsection \<open>Sessions\<close>

definition MCP_PROTOCOL_VERSION :: string where
  "MCP_PROTOCOL_VERSION = ''2024-11-05''"

text \<open>The token of a connection and where it comes from.\<close>

definition resolve_auth :: "'w wire \<Rightarrow> string \<Rightarrow> string option \<Rightarrow> ('w, 'e) gateway \<Rightarrow> (string option, ('w, 'e) gateway) res" where
  "resolve_auth wi url token g =
     (case token of
        Some t \<Rightarrow> (Inr (Some t), g\<lparr>gw_auth := dset url t (gw_auth g), gw_auth_source := dset url ''explicit'' (gw_auth_source g)\<rparr>)
      | None \<Rightarrow>
          (case gw_vault g of
             None \<Rightarrow> (Inr None, g\<lparr>gw_auth_source := dset url ''none'' (gw_auth_source g)\<rparr>)
           | Some v \<Rightarrow>
               (let (u, g1) = gw_fresh wi g
                in case resolve_secret (wi_iso wi) (wi_utc wi (gw_env g)) u (''mcp:'' @ url @ '':auth_token'') MCP_SERVER (Some url) (''mcp_gateway:'' @ url) v of
                     (Inr t, v') \<Rightarrow>
                       (Inr (Some t), g1\<lparr>gw_vault := Some v', gw_auth := dset url t (gw_auth g1), gw_auth_source := dset url ''vault'' (gw_auth_source g1)\<rparr>)
                   | (Inl x, v') \<Rightarrow>
                       if catches ''KeyError'' x \<or> catches ''RuntimeError'' x
                       then (Inr None, g1\<lparr>gw_vault := Some v', gw_auth_source := dset url ''none'' (gw_auth_source g1)\<rparr>)
                       else (Inl x, g1\<lparr>gw_vault := Some v'\<rparr>))))"

definition server_of :: "string \<Rightarrow> string option \<Rightarrow> pyval \<Rightarrow> exn + mcp_server" where
  "server_of url token result =
     (case py_get result ''serverInfo'' (PDict []) of
        Inl x \<Rightarrow> Inl x
      | Inr info \<Rightarrow>
          (case (py_get info ''name'' (PStr []), py_get info ''version'' (PStr []), py_get result ''capabilities'' (PDict [])) of
             (Inr n, Inr ver, Inr caps) \<Rightarrow>
               (case caps of
                  PDict d \<Rightarrow>
                    (case (as_str ''name'' n, as_str ''version'' ver) of
                       (Inr sn, Inr sver) \<Rightarrow> Inr \<lparr>msv_url = url, msv_name = sn, msv_version = sver, msv_auth_token = token, msv_capabilities = sort (dkeys d)\<rparr>
                     | _ \<Rightarrow> Inl (ValidationError ''McpServer''))
                | _ \<Rightarrow> Inl (AttributeError ''keys''))
           | _ \<Rightarrow> Inl (AttributeError ''get'')))"

definition init_params :: pydict where
  "init_params =
     [(''protocolVersion'', PStr MCP_PROTOCOL_VERSION), (''clientInfo'', PDict [(''name'', PStr ''hermes-kernel''), (''version'', PStr ''2.15.0'')]),
      (''capabilities'', PDict [(''tools'', PDict []), (''resources'', PDict [])])]"

definition mcp_connect :: "'w wire \<Rightarrow> string \<Rightarrow> string option \<Rightarrow> ('w, 'e) gateway \<Rightarrow> (mcp_session, ('w, 'e) gateway) res" where
  "mcp_connect wi url token g =
     (case resolve_auth wi url token g of
        (Inl x, g1) \<Rightarrow> (Inl x, g1)
      | (Inr tok, g1) \<Rightarrow>
          (case rpc wi url ''initialize'' init_params g1 of
             (Inl x, g2) \<Rightarrow> (Inl x, g2)
           | (Inr result, g2) \<Rightarrow>
               (case server_of url tok result of
                  Inl x \<Rightarrow> (Inl x, g2)
                | Inr server \<Rightarrow>
                    (let (sid, g3) = gw_fresh wi g2;
                         t = wi_utc wi (gw_env g3);
                         s = \<lparr>mss_id = sid, mss_server_url = url, mss_status = ''active'', mss_created_at = t, mss_last_used = t\<rparr>;
                         r = length (gw_heap g3);
                         g4 = g3\<lparr>gw_heap := gw_heap g3 @ [s], gw_sessions := dset sid r (gw_sessions g3), gw_by_server := dset url sid (gw_by_server g3)\<rparr>;
                         g5 = gw_put (put_session (gw_heap g4) r \<circ> put_server server) g4
                     in (Inr s, gw_emit (McpConnected sid url (msv_name server) (msv_version server)) g5)))))"

definition close_session :: "string \<Rightarrow> string \<Rightarrow> ('w, 'e) gateway \<Rightarrow> ('w, 'e) gateway" where
  "close_session sid reason g =
     gw_emit (McpSessionClosed sid reason)
       (case dget (gw_sessions g) sid of
          None \<Rightarrow> g
        | Some r \<Rightarrow>
            (let g1 = g\<lparr>gw_heap := (gw_heap g)[r := (gw_heap g ! r)\<lparr>mss_status := ''closed''\<rparr>],
                        gw_by_server := ddel (mss_server_url (gw_heap g ! r)) (gw_by_server g)\<rparr>
             in gw_put (put_session (gw_heap g1) r) g1))"

definition gw_touch :: "'w wire \<Rightarrow> string \<Rightarrow> ('w, 'e) gateway \<Rightarrow> ('w, 'e) gateway" where
  "gw_touch wi sid g =
     (case dget (gw_sessions g) sid of
        None \<Rightarrow> g
      | Some r \<Rightarrow> g\<lparr>gw_heap := (gw_heap g)[r := (gw_heap g ! r)\<lparr>mss_last_used := wi_utc wi (gw_env g)\<rparr>]\<rparr>)"

definition get_session :: "string \<Rightarrow> ('w, 'e) gateway \<Rightarrow> mcp_session option" where
  "get_session sid g = map_option (\<lambda>r. gw_heap g ! r) (dget (gw_sessions g) sid)"

definition auth_source :: "string \<Rightarrow> ('w, 'e) gateway \<Rightarrow> string" where
  "auth_source url g = dget_or (gw_auth_source g) url ''none''"

definition session_for :: "string \<Rightarrow> ('w, 'e) gateway \<Rightarrow> string" where
  "session_for url g = dget_or (gw_by_server g) url (''adhoc:'' @ url)"

subsection \<open>Tools\<close>

definition tool_of :: "string \<Rightarrow> pyval \<Rightarrow> exn + mcp_tool" where
  "tool_of url t =
     (case t of
        PDict d \<Rightarrow>
          (case dget d ''name'' of
             None \<Rightarrow> Inl (KeyError ''name'')
           | Some n \<Rightarrow>
               (case (n, dget_or d ''description'' (PStr []), dget_or d ''inputSchema'' (PDict [])) of
                  (PStr sn, PStr desc, PDict schema) \<Rightarrow>
                    Inr \<lparr>mt_name = sn, mt_description = desc, mt_input_schema = schema, mt_server_url = url\<rparr>
                | _ \<Rightarrow> Inl (ValidationError ''McpTool'')))
      | _ \<Rightarrow> Inl (TypeError ''string indices must be integers''))"

fun tools_of :: "string \<Rightarrow> pyval list \<Rightarrow> exn + mcp_tool list" where
  "tools_of url [] = Inr []"
| "tools_of url (t # ts) =
     (case tool_of url t of Inl x \<Rightarrow> Inl x | Inr m \<Rightarrow> (case tools_of url ts of Inl x \<Rightarrow> Inl x | Inr ms \<Rightarrow> Inr (m # ms)))"

definition gw_list_tools :: "'w wire \<Rightarrow> string \<Rightarrow> ('w, 'e) gateway \<Rightarrow> (mcp_tool list, ('w, 'e) gateway) res" where
  "gw_list_tools wi url g =
     (case rpc wi url ''tools/list'' [] g of
        (Inl x, g1) \<Rightarrow> (Inl x, g1)
      | (Inr result, g1) \<Rightarrow>
          (case py_get result ''tools'' (PList []) of
             Inl x \<Rightarrow> (Inl x, g1)
           | Inr v \<Rightarrow>
               (case py_list v of
                  Inl x \<Rightarrow> (Inl x, g1)
                | Inr ts \<Rightarrow>
                    (case tools_of url ts of
                       Inl x \<Rightarrow> (Inl x, g1)
                     | Inr tools \<Rightarrow> (Inr tools, gw_put (fold put_tool tools) (g1\<lparr>gw_tools := dset url tools (gw_tools g1)\<rparr>))))))"

definition tool_call :: "'w wire \<Rightarrow> string \<Rightarrow> string \<Rightarrow> pydict \<Rightarrow> ('w, 'e) gateway \<Rightarrow> (pyval, ('w, 'e) gateway) res" where
  "tool_call wi url tool args g = rpc wi url ''tools/call'' [(''name'', PStr tool), (''arguments'', PDict args)] g"

text \<open>The call itself, guarded by the server's circuit and retried when a resilience engine is wired.\<close>

definition guarded_call :: "'w wire \<Rightarrow> string \<Rightarrow> string \<Rightarrow> pydict \<Rightarrow> ('w, 'e) gateway \<Rightarrow> (pyval, ('w, 'e) gateway) res" where
  "guarded_call wi url tool args g =
     (if gw_resilient g
      then retry (\<lambda>s. wi_utc wi (gw_env s)) (\<lambda>d s. (Inr (), s\<lparr>gw_env := wi_sleep wi d (gw_env s)\<rparr>)) []
             (call_with_circuit (\<lambda>s. wi_utc wi (gw_env s)) (''mcp:'' @ url) (tool_call wi url tool args))
             None (Some (''mcp:'' @ url @ '':'' @ tool)) g
      else tool_call wi url tool args g)"

definition is_gateway_failure :: "exn \<Rightarrow> bool" where
  "is_gateway_failure x \<longleftrightarrow> catches ''McpGatewayError'' x \<or> catches ''CircuitBreakerOpenError'' x \<or> catches ''RetryExhaustedError'' x"

definition log_call :: "'w wire \<Rightarrow> string \<Rightarrow> string \<Rightarrow> string \<Rightarrow> rat \<Rightarrow> string option \<Rightarrow> ('w, 'e) gateway \<Rightarrow> ('w, 'e) gateway" where
  "log_call wi sid tool hash latency err g =
     (case gw_store g of
        None \<Rightarrow> g
      | Some _ \<Rightarrow>
          (let (i, g1) = gw_fresh wi g
           in gw_put (put_call \<lparr>mc_id = i, mc_session = sid, mc_tool = tool, mc_hash = hash, mc_latency = latency, mc_error = err, mc_time = wi_utc wi (gw_env g1)\<rparr>) g1))"

definition call_tool :: "'w wire \<Rightarrow> string \<Rightarrow> string \<Rightarrow> pydict \<Rightarrow> ('w, 'e) gateway \<Rightarrow> (artifact, ('w, 'e) gateway) res" where
  "call_tool wi url tool args g =
     (let sid = session_for url g;
          hash = wi_hash wi args;
          started = wi_clock wi (gw_env g)
      in case guarded_call wi url tool args g of
           (Inl x, g1) \<Rightarrow>
             if is_gateway_failure x then
               (let latency = (wi_clock wi (gw_env g1) - started) * 1000;
                    g2 = gw_metric ''mcp.tool_errors'' 1 [(''server_url'', url), (''tool'', tool)] (log_call wi sid tool hash latency (Some (exn_msg x)) g1);
                    (i, g3) = gw_fresh wi g2
                in (Inr \<lparr>af_id = i, af_type = ''error'',
                         af_content = PDict [(''error'', PStr (exn_msg x)), (''tool'', PStr tool), (''server_url'', PStr url)],
                         af_format = ''json'', af_source = Some (''mcp:'' @ url), af_provenance = []\<rparr>, g3))
             else (Inl x, g1)
         | (Inr result, g1) \<Rightarrow>
             (let latency = (wi_clock wi (gw_env g1) - started) * 1000;
                  g2 = gw_emit (McpToolCalled sid tool hash latency) (gw_touch wi sid g1);
                  g3 = gw_metric ''mcp.tool_latency_ms'' latency
                         [(''server_url'', url), (''tool'', tool), (''mcp_auth_source'', auth_source url g2)] (log_call wi sid tool hash latency None g2);
                  (i, g4) = gw_fresh wi g3
              in (Inr \<lparr>af_id = i, af_type = ''mcp_tool_result'', af_content = result, af_format = ''json'',
                       af_source = Some (''mcp:'' @ url @ ''::'' @ tool), af_provenance = []\<rparr>, g4)))"

fun join_texts :: "pyval list \<Rightarrow> exn + string" where
  "join_texts [] = Inr []"
| "join_texts (c # cs) =
     (case py_get c ''text'' (PStr []) of
        Inl x \<Rightarrow> Inl x
      | Inr (PStr t) \<Rightarrow> (case join_texts cs of Inl x \<Rightarrow> Inl x | Inr s \<Rightarrow> Inr (t @ s))
      | Inr _ \<Rightarrow> Inl (TypeError ''sequence item: expected str instance''))"

definition read_resource :: "'w wire \<Rightarrow> string \<Rightarrow> string \<Rightarrow> ('w, 'e) gateway \<Rightarrow> (string, ('w, 'e) gateway) res" where
  "read_resource wi url uri g =
     (case rpc wi url ''resources/read'' [(''uri'', PStr uri)] g of
        (Inl x, g1) \<Rightarrow> (Inl x, g1)
      | (Inr result, g1) \<Rightarrow>
          (case py_get result ''contents'' (PList []) of
             Inl x \<Rightarrow> (Inl x, g1)
           | Inr v \<Rightarrow>
               (case py_list v of
                  Inl x \<Rightarrow> (Inl x, g1)
                | Inr cs \<Rightarrow>
                    (case join_texts cs of
                       Inl x \<Rightarrow> (Inl x, g1)
                     | Inr text \<Rightarrow>
                         (let sid = session_for url g1
                          in (Inr text, gw_emit (McpResourceRead sid uri (int (length (utf8_encode text)))) (gw_touch wi sid g1)))))))"

subsection \<open>Capabilities\<close>

definition discover_local_tools :: "('w, 'e) gateway \<Rightarrow> mcp_tool list" where
  "discover_local_tools g =
     (let cached = concat (dvals (gw_tools g))
      in if cached \<noteq> [] then cached else (case gw_store g of None \<Rightarrow> [] | Some st \<Rightarrow> list_stored_tools None st))"

definition rstrip_char :: "char \<Rightarrow> string \<Rightarrow> string" where
  "rstrip_char c s = rev (dropWhile (\<lambda>x. x = c) (rev s))"

definition gw_resolve_capability :: "string \<Rightarrow> ('w, 'e) gateway \<Rightarrow> mcp_tool option" where
  "gw_resolve_capability cap g =
     (let name = (if startswith ''mcp:'' cap then drop 4 cap else cap)
      in case split_once ''::'' name of
           Some (url, tool) \<Rightarrow>
             (case find (\<lambda>t. mt_name t = tool) (dget_or (gw_tools g) url []) of
                Some t \<Rightarrow> Some t
              | None \<Rightarrow> (case gw_store g of None \<Rightarrow> None | Some st \<Rightarrow> get_stored_tool tool url st))
         | None \<Rightarrow>
             (let tools = discover_local_tools g
              in case find (\<lambda>t. mt_name t = name) tools of
                   Some t \<Rightarrow> Some t
                 | None \<Rightarrow>
                     if name \<noteq> [] \<and> last name = CHR ''*''
                     then find (\<lambda>t. startswith (rstrip_char CHR ''.'' (rstrip_char CHR ''*'' name)) (mt_name t)) tools
                     else None))"

section \<open>What a call changes\<close>

declare rpc_loop.simps [simp del]

text \<open>What a request leaves alone: all but the world, the events and the supply of ids.\<close>

definition same_gateway :: "('w, 'e) gateway \<Rightarrow> ('w, 'e) gateway \<Rightarrow> bool" where
  "same_gateway g h \<longleftrightarrow>
     gw_auth h = gw_auth g \<and> gw_auth_source h = gw_auth_source g \<and> gw_sessions h = gw_sessions g \<and> gw_heap h = gw_heap g \<and>
     gw_by_server h = gw_by_server g \<and> gw_vault h = gw_vault g \<and> gw_max_retries h = gw_max_retries g \<and> gw_http h = gw_http g \<and>
     gw_store h = gw_store g \<and> gw_resilient h = gw_resilient g \<and> gw_tools h = gw_tools g"

lemma same_gateway_trans: "same_gateway g h \<Longrightarrow> same_gateway h i \<Longrightarrow> same_gateway g i"
  by (simp add: same_gateway_def)

lemma rpc_loop_same: "same_gateway g (snd (rpc_loop wi url meth req attempt left g))"
proof (induction wi url meth req attempt left g rule: rpc_loop.induct)
  case (1 wi url meth req attempt left g)
  obtain r w where p: "wi_post wi url req (gw_env g) = (r, w)" by (cases "wi_post wi url req (gw_env g)")
  show ?case
  proof (cases r)
    case (Inr v)
    with p show ?thesis by (simp add: rpc_loop.simps [of wi url meth req attempt left g] same_gateway_def)
  next
    case (Inl x)
    show ?thesis
    proof (cases "\<not> catches ''TimeoutError'' x \<and> catches ''Exception'' x \<and> left \<noteq> 0")
      case True
      then obtain n where "left = Suc n" by (cases left) auto
      with 1 [OF p [symmetric] Inl refl] True p Inl show ?thesis
        by (subst rpc_loop.simps) (simp add: same_gateway_def)
    next
      case False
      with p Inl show ?thesis
        by (subst rpc_loop.simps) (auto simp: same_gateway_def gw_emit_def Let_def split: nat.splits)
    qed
  qed
qed

lemma unwrap_same: "same_gateway g (snd (unwrap wi url meth response g))"
  by (auto simp: unwrap_def same_gateway_def gw_emit_def Let_def split: option.splits sum.splits)

lemma exchange_same: "same_gateway g (snd (exchange wi url meth req g))"
proof -
  obtain r h where l: "rpc_loop wi url meth req 0 (nat (gw_max_retries g)) g = (r, h)" by (cases "rpc_loop wi url meth req 0 (nat (gw_max_retries g)) g")
  with rpc_loop_same [of g wi url meth req 0 "nat (gw_max_retries g)"] have "same_gateway g h" by simp
  with l unwrap_same [of h wi url meth] show ?thesis
    by (cases r) (auto simp: exchange_def intro: same_gateway_trans)
qed

lemma rpc_same: "same_gateway g (snd (rpc wi url meth params g))"
proof -
  have "same_gateway g (g\<lparr>gw_next := gw_next g + 1\<rparr>)" "same_gateway g g" by (simp_all add: same_gateway_def)
  then show ?thesis using exchange_same [of "g\<lparr>gw_next := gw_next g + 1\<rparr>"]
    by (auto simp: rpc_def gw_fresh_def Let_def intro: same_gateway_trans)
qed

section \<open>Which failures escape\<close>

definition ordinary_wire :: "'w wire \<Rightarrow> bool" where
  "ordinary_wire wi \<longleftrightarrow> (\<forall>url req w x w'. wi_post wi url req w = (Inl x, w') \<longrightarrow> catches ''Exception'' x)"

text \<open>A response without a result has a dictionary under \<open>error\<close>, or nothing there, as JSON-RPC prescribes.\<close>

definition polite_wire :: "'w wire \<Rightarrow> bool" where
  "polite_wire wi \<longleftrightarrow>
     (\<forall>url req w d w'. wi_post wi url req w = (Inr (PDict d), w') \<longrightarrow> dget d ''result'' = None \<longrightarrow> (\<exists>e. dget_or d ''error'' (PDict []) = PDict e))"

lemma rpc_loop_raises:
  assumes "ordinary_wire wi"
  shows "fst (rpc_loop wi url meth req attempt left g) = Inl x \<Longrightarrow> \<exists>m. x = McpGatewayError m"
  using assms
proof (induction wi url meth req attempt left g rule: rpc_loop.induct)
  case (1 wi url meth req attempt left g)
  obtain r w where p: "wi_post wi url req (gw_env g) = (r, w)" by (cases "wi_post wi url req (gw_env g)")
  show ?case
  proof (cases r)
    case (Inr v)
    with p 1(2) show ?thesis by (simp add: rpc_loop.simps [of wi url meth req attempt left g])
  next
    case (Inl y)
    with 1(3) p have "catches ''Exception'' y" unfolding ordinary_wire_def by blast
    then show ?thesis
      using 1(1) [OF p [symmetric] Inl refl] 1(2,3) p Inl
      by (subst (asm) (2) rpc_loop.simps) (auto simp: Let_def split: if_splits nat.splits)
  qed
qed

lemma rpc_loop_returns:
  "rpc_loop wi url meth req attempt left g = (Inr v, h) \<Longrightarrow> \<exists>w w'. wi_post wi url req w = (Inr v, w')"
proof (induction wi url meth req attempt left g rule: rpc_loop.induct)
  case (1 wi url meth req attempt left g)
  obtain r w where p: "wi_post wi url req (gw_env g) = (r, w)" by (cases "wi_post wi url req (gw_env g)")
  show ?case
  proof (cases r)
    case (Inr u)
    with p 1(2) show ?thesis by (subst (asm) rpc_loop.simps) auto
  next
    case (Inl y)
    then show ?thesis
      using 1(1) [OF p [symmetric] Inl refl] 1(2) p Inl
      by (subst (asm) (2) rpc_loop.simps) (auto simp: Let_def split: if_splits nat.splits)
  qed
qed

lemma exn_kinds [simp]:
  "is_gateway_failure (McpGatewayError m)" "is_gateway_failure (RetryExhaustedError t n e)" "is_gateway_failure (CircuitBreakerOpenError c)"
  "catches ''Exception'' (McpGatewayError m)" "catches ''Exception'' (AttributeError m)" "catches ''Exception'' (CircuitBreakerOpenError c)"
  by (simp_all add: is_gateway_failure_def McpGatewayError_def RetryExhaustedError_def CircuitBreakerOpenError_def AttributeError_def std_exn_def)

lemma unwrap_raises:
  "unwrap wi url meth response g = (Inl x, h) \<Longrightarrow> (\<exists>m. x = McpGatewayError m) \<or>
     x = AttributeError ''get'' \<and> (\<exists>d. response = PDict d \<and> dget d ''result'' = None \<and> (\<forall>e. dget_or d ''error'' (PDict []) \<noteq> PDict e))"
  by (auto simp: unwrap_def py_get_def Let_def split: option.splits sum.splits pyval.splits)

lemma exchange_raises:
  assumes "ordinary_wire wi" and "exchange wi url meth req g = (Inl x, h)"
  shows "(\<exists>m. x = McpGatewayError m) \<or> x = AttributeError ''get'' \<and> \<not> polite_wire wi"
proof -
  obtain r k where l: "rpc_loop wi url meth req 0 (nat (gw_max_retries g)) g = (r, k)" by (cases "rpc_loop wi url meth req 0 (nat (gw_max_retries g)) g")
  show ?thesis
  proof (cases r)
    case (Inl y)
    with l assms rpc_loop_raises [OF assms(1), of url meth req 0 "nat (gw_max_retries g)" g] show ?thesis by (auto simp: exchange_def)
  next
    case (Inr response)
    with l assms(2) have u: "unwrap wi url meth response k = (Inl x, h)" by (simp add: exchange_def)
    from l Inr obtain w w' where "wi_post wi url req w = (Inr response, w')" using rpc_loop_returns by blast
    with unwrap_raises [OF u] show ?thesis unfolding polite_wire_def by blast
  qed
qed

lemma rpc_raises:
  assumes "ordinary_wire wi" and "rpc wi url meth params g = (Inl x, h)"
  shows "(\<exists>m. x = McpGatewayError m) \<or> x = AttributeError ''get'' \<and> \<not> polite_wire wi"
proof (cases "gw_http g \<and> \<not> gw_max_retries g < 0")
  case True
  with assms(2) show ?thesis by (intro exchange_raises [OF assms(1)]) (simp add: rpc_def gw_fresh_def)
next
  case False
  with assms(2) show ?thesis by (auto simp: rpc_def gw_fresh_def split: if_splits)
qed

text \<open>A retried call fails with the exhaustion of the retries and with nothing else.\<close>

lemma retry_loop_raises:
  assumes "\<forall>s x s'. factory s = (Inl x, s') \<longrightarrow> catches ''Exception'' x" and "\<forall>d s. \<exists>s'. sleep d s = (Inr (), s')"
  shows "fst (retry_loop clock sleep factory pol task_id tid n attempt err s) = Inl x \<Longrightarrow> \<exists>t a e. x = RetryExhaustedError t a e"
proof (induction n arbitrary: attempt err s)
  case 0
  then show ?case by auto
next
  case (Suc n)
  obtain r s1 where f: "factory s = (r, s1)" by (cases "factory s")
  show ?case
  proof (cases r)
    case (Inr v)
    with f Suc.prems show ?thesis by simp
  next
    case (Inl y)
    with f assms(1) have "catches ''Exception'' y" by blast
    show ?thesis
    proof (cases "\<not> is_retryable pol y \<or> attempt \<ge> rp_max_attempts pol")
      case True
      with f Inl \<open>catches ''Exception'' y\<close> Suc.prems show ?thesis by (auto simp: Let_def)
    next
      case False
      let ?b = "backoff_for pol attempt"
      let ?s2 = "rs_metric ''res.retry_attempted'' [(''task'', tid)] (rs_emit (RetryAttempted tid attempt ?b (exc_text y)) s1)"
      let ?s3 = "?s2\<lparr>rs_store := map_option (put_retry tid attempt ?b (exc_text y) (clock ?s2)) (rs_store ?s2)\<rparr>"
      obtain s4 where "sleep (of_int ?b / 1000) ?s3 = (Inr (), s4)" using assms(2) by blast
      with f Inl False \<open>catches ''Exception'' y\<close> Suc.prems Suc.IH [of "attempt + 1" "exc_text y" s4] show ?thesis by (simp add: Let_def)
    qed
  qed
qed

lemma call_with_circuit_raises:
  assumes "call_with_circuit clock name body s = (Inl x, s')" and "\<forall>s x s'. body s = (Inl x, s') \<longrightarrow> catches ''Exception'' x"
  shows "catches ''Exception'' x"
proof -
  obtain r s1 where e: "circuit_enter clock name s = (r, s1)" by (cases "circuit_enter clock name s")
  show ?thesis
  proof (cases r)
    case (Inl y)
    then have "y = CircuitBreakerOpenError name" using e by (auto simp: circuit_enter_def Let_def split: prod.splits if_splits)
    with e Inl assms(1) show ?thesis by (auto simp: call_with_circuit_def)
  next
    case (Inr i)
    with e assms show ?thesis by (auto simp: call_with_circuit_def split: prod.splits sum.splits)
  qed
qed

lemma guarded_call_raises:
  fixes g :: "('w, 'e) gateway"
  assumes "ordinary_wire wi" and "gw_resilient g \<or> polite_wire wi" and "guarded_call wi url tool args g = (Inl x, h)"
  shows "is_gateway_failure x"
proof (cases "gw_resilient g")
  case True
  have call: "\<forall>(s :: ('w, 'e) gateway) x s'. tool_call wi url tool args s = (Inl x, s') \<longrightarrow> catches ''Exception'' x"
  proof (intro allI impI)
    fix s :: "('w, 'e) gateway" and x s'
    assume "tool_call wi url tool args s = (Inl x, s')"
    from rpc_raises [OF assms(1) this [unfolded tool_call_def]] show "catches ''Exception'' x" by auto
  qed
  let ?clock = "\<lambda>s :: ('w, 'e) gateway. wi_utc wi (gw_env s)" and ?sleep = "\<lambda>d (s :: ('w, 'e) gateway). (Inr (), s\<lparr>gw_env := wi_sleep wi d (gw_env s)\<rparr>)"
  let ?factory = "call_with_circuit ?clock (''mcp:'' @ url) (tool_call wi url tool args)"
  have "\<forall>s x s'. ?factory s = (Inl x, s') \<longrightarrow> catches ''Exception'' x" using call_with_circuit_raises [OF _ call] by blast
  then have "fst (retry_loop ?clock ?sleep ?factory pol task_id tid n attempt err s) = Inl x \<Longrightarrow> \<exists>t a e. x = RetryExhaustedError t a e" for pol task_id tid n attempt err s
    by (rule retry_loop_raises [where sleep = ?sleep]) auto
  moreover have "fst (retry ?clock ?sleep [] ?factory None (Some (''mcp:'' @ url @ '':'' @ tool)) g) = Inl x"
    using assms(3) True by (simp add: guarded_call_def)
  ultimately have "\<exists>t a e. x = RetryExhaustedError t a e" unfolding retry_def Let_def by blast
  then show ?thesis by auto
next
  case False
  with assms(2,3) have "polite_wire wi" "rpc wi url ''tools/call'' [(''name'', PStr tool), (''arguments'', PDict args)] g = (Inl x, h)"
    by (simp_all add: guarded_call_def tool_call_def)
  with rpc_raises [OF assms(1) this(2)] show ?thesis by auto
qed

section \<open>Properties\<close>

text \<open>
  C25: Calling a tool never raises: whatever the server answers and however the transport fails
  (short of cancellation), \<open>call_tool\<close> returns an artifact, the result of the tool or an error
  artifact. This holds when a resilience engine is wired, and without one for servers that answer
  as JSON-RPC prescribes.\<close>

theorem call_tool_contained:
  assumes "ordinary_wire wi" and "gw_resilient g \<or> polite_wire wi"
  shows "\<exists>a h. call_tool wi url tool args g = (Inr a, h) \<and>
     (af_type a = ''mcp_tool_result'' \<and> af_source a = Some (''mcp:'' @ url @ ''::'' @ tool) \<or> af_type a = ''error'' \<and> af_source a = Some (''mcp:'' @ url))"
proof -
  obtain r g1 where c: "guarded_call wi url tool args g = (r, g1)" by (cases "guarded_call wi url tool args g")
  show ?thesis
  proof (cases r)
    case (Inl x)
    with c guarded_call_raises [OF assms, of url tool args x g1] show ?thesis by (simp add: call_tool_def Let_def case_prod_beta)
  next
    case (Inr v)
    with c show ?thesis by (simp add: call_tool_def Let_def case_prod_beta)
  qed
qed

definition demo_wire :: "(nat \<Rightarrow> exn + pyval) \<Rightarrow> nat wire" where
  "demo_wire script = \<lparr>wi_post = (\<lambda>url req w. (script w, w + 1)), wi_sleep = (\<lambda>d w. w), wi_clock = of_nat, wi_utc = int, wi_uid = (\<lambda>n. if n = 1 then ''x'' else ''y''),
     wi_hash = (\<lambda>a. ''h''), wi_str = (\<lambda>v. case v of PStr s \<Rightarrow> s | _ \<Rightarrow> []), wi_fstr = (\<lambda>q. []), wi_iso = (\<lambda>t. [])\<rparr>"

definition demo_gateway :: "bool \<Rightarrow> (nat, unit) gateway" where
  "demo_gateway resilient = resilience.extend (resilience_init None wired None)
     \<lparr>gw_sink = wired, gw_store = None, gw_http = True, gw_metrics = None, gw_max_retries = 1, gw_retry_backoff = 1, gw_timeout = 30, gw_vault = None,
      gw_resilient = resilient, gw_heap = [], gw_sessions = [], gw_by_server = [], gw_tools = [], gw_auth = [], gw_auth_source = [], gw_next = 0, gw_env = 0\<rparr>"

lemma demo_wire_ordinary: "(\<forall>n x. script n = Inl x \<longrightarrow> catches ''Exception'' x) \<Longrightarrow> ordinary_wire (demo_wire script)"
  by (simp add: ordinary_wire_def demo_wire_def)

theorem call_tool_contained_witness:
  "\<exists>a h. call_tool (demo_wire (\<lambda>n. Inl (ValueError ''down''))) ''s'' ''t'' [] (demo_gateway True) = (Inr a, h) \<and> af_source a \<noteq> None"
proof -
  have "ordinary_wire (demo_wire (\<lambda>n. Inl (ValueError ''down'')))"
    by (rule demo_wire_ordinary) (simp add: ValueError_def)
  from call_tool_contained [OF this, of "demo_gateway True" "''s''" "''t''" "[]"] show ?thesis
    by (auto simp: demo_gateway_def resilience.defs)
qed

text \<open>
  Without a resilience engine a server that answers with an \<open>error\<close> that is not an object, such
  as \<open>null\<close>, makes \<open>call_tool\<close> raise an \<open>AttributeError\<close>: no error artifact, no event, no record
  of the call. The documentation promises an error artifact on a protocol failure.\<close>

theorem null_error_escapes:
  assumes "wi_post wi url (rpc_request (wi_uid wi (gw_next g)) ''tools/call'' [(''name'', PStr tool), (''arguments'', PDict args)] (dget (gw_auth g) url)) (gw_env g)
      = (Inr (PDict [(''error'', PNone)]), w)"
    and "\<not> gw_resilient g" and "gw_http g" and "gw_max_retries g \<ge> 0"
  shows "case call_tool wi url tool args g of (res, h) \<Rightarrow> res = Inl (AttributeError ''get'') \<and> gw_sink h = gw_sink g \<and> gw_store h = gw_store g"
proof -
  have "rpc wi url ''tools/call'' [(''name'', PStr tool), (''arguments'', PDict args)] g = (Inl (AttributeError ''get''), g\<lparr>gw_next := gw_next g + 1, gw_env := w\<rparr>)"
    using assms(1,3,4) by (simp add: rpc_def gw_fresh_def exchange_def Let_def)
      (subst rpc_loop.simps, simp add: unwrap_def py_get_def dget_or_def)
  moreover have "\<not> is_gateway_failure (AttributeError ''get'')"
    by (simp add: is_gateway_failure_def AttributeError_def std_exn_def)
  ultimately show ?thesis using assms(2) by (simp add: call_tool_def guarded_call_def tool_call_def Let_def)
qed

theorem null_error_escapes_witness:
  "fst (call_tool (demo_wire (\<lambda>n. Inr (PDict [(''error'', PNone)]))) ''s'' ''t'' [] (demo_gateway False)) = Inl (AttributeError ''get'')"
  using null_error_escapes [of "demo_wire (\<lambda>n. Inr (PDict [(''error'', PNone)]))" "''s''" "demo_gateway False" "''t''" "[]" 1]
  by (simp add: demo_wire_def demo_gateway_def resilience.defs case_prod_beta)

section \<open>Retries of a request\<close>

definition transient :: "exn \<Rightarrow> bool" where
  "transient x \<longleftrightarrow> catches ''Exception'' x \<and> \<not> catches ''TimeoutError'' x"

text \<open>A run of \<open>k\<close> transient failures, with the waits after them, takes the world from \<open>w\<close> to \<open>w'\<close>.\<close>

fun outage :: "'w wire \<Rightarrow> string \<Rightarrow> pyval \<Rightarrow> rat \<Rightarrow> nat \<Rightarrow> nat \<Rightarrow> 'w \<Rightarrow> 'w \<Rightarrow> bool" where
  "outage wi url req backoff attempt 0 w w' \<longleftrightarrow> w' = w"
| "outage wi url req backoff attempt (Suc k) w w' \<longleftrightarrow>
     (case wi_post wi url req w of
        (Inl x, w1) \<Rightarrow> transient x \<and> outage wi url req backoff (attempt + 1) k (wi_sleep wi (backoff * of_nat (attempt + 1)) w1) w'
      | (Inr _, _) \<Rightarrow> False)"

lemma rpc_loop_outage:
  "outage wi url req (gw_retry_backoff g) attempt k (gw_env g) w' \<Longrightarrow> k \<le> left \<Longrightarrow>
     rpc_loop wi url meth req attempt left g = rpc_loop wi url meth req (attempt + k) (left - k) (g\<lparr>gw_env := w'\<rparr>)"
proof (induction k arbitrary: attempt left g)
  case 0
  then show ?case by simp
next
  case (Suc k)
  then obtain n where left: "left = Suc n" by (cases left) auto
  from Suc.prems(1) obtain x w1 where x: "wi_post wi url req (gw_env g) = (Inl x, w1)" "transient x"
      "outage wi url req (gw_retry_backoff g) (attempt + 1) k (wi_sleep wi (gw_retry_backoff g * of_nat (attempt + 1)) w1) w'"
    by (auto split: prod.splits sum.splits)
  let ?g = "g\<lparr>gw_env := wi_sleep wi (gw_retry_backoff g * of_nat (attempt + 1)) w1\<rparr>"
  have "rpc_loop wi url meth req attempt left g = rpc_loop wi url meth req (attempt + 1) n ?g"
    using x(1,2) left by (subst rpc_loop.simps) (simp add: transient_def)
  also have "\<dots> = rpc_loop wi url meth req (attempt + 1 + k) (n - k) (?g\<lparr>gw_env := w'\<rparr>)"
    using x(3) Suc.prems(2) left by (intro Suc.IH) simp_all
  finally show ?case using left by simp
qed

text \<open>
  C26: A request survives any outage of at most \<open>max_retries\<close> transient failures: it returns the
  result of the first answer, waits a linearly growing time after every failure and reports nothing.
  One failure more, and it raises a gateway error and reports the last failure, once.\<close>

theorem request_survives_outage:
  assumes "gw_http g" and "outage wi url req (gw_retry_backoff g) 0 k (gw_env g) w" and "int k \<le> gw_max_retries g"
    and "req = rpc_request (wi_uid wi (gw_next g)) meth params (dget (gw_auth g) url)"
  shows "(\<forall>d v w1. wi_post wi url req w = (Inr (PDict d), w1) \<longrightarrow> dget d ''result'' = Some v \<longrightarrow>
            rpc wi url meth params g = (Inr v, g\<lparr>gw_next := gw_next g + 1, gw_env := w1\<rparr>)) \<and>
         (\<forall>x w1. wi_post wi url req w = (Inl x, w1) \<longrightarrow> transient x \<longrightarrow> int k = gw_max_retries g \<longrightarrow>
            (\<exists>m. rpc wi url meth params g = (Inl (McpGatewayError m), gw_emit (McpError url ''transport'' (exn_msg x)) (g\<lparr>gw_next := gw_next g + 1, gw_env := w1\<rparr>))))"
proof -
  let ?g = "g\<lparr>gw_next := gw_next g + 1\<rparr>"
  have "rpc wi url meth params g = exchange wi url meth req ?g"
    using assms(1,3,4) by (simp add: rpc_def gw_fresh_def)
  moreover have "rpc_loop wi url meth req 0 (nat (gw_max_retries g)) ?g = rpc_loop wi url meth req k (nat (gw_max_retries g) - k) (?g\<lparr>gw_env := w\<rparr>)"
    using assms(2,3) rpc_loop_outage [of wi url req ?g 0 k w "nat (gw_max_retries g)" meth] by simp
  ultimately have e: "rpc wi url meth params g =
      (case rpc_loop wi url meth req k (nat (gw_max_retries g) - k) (?g\<lparr>gw_env := w\<rparr>) of
         (Inl x, h) \<Rightarrow> (Inl x, h) | (Inr response, h) \<Rightarrow> unwrap wi url meth response h)" by (simp add: exchange_def)
  show ?thesis
    unfolding e by (intro conjI allI impI; subst rpc_loop.simps) (auto simp: unwrap_def transient_def)
qed

theorem request_survives_outage_witness:
  "fst (rpc (demo_wire (\<lambda>n. if n = 0 then Inl (ValueError ''down'') else Inr (PDict [(''result'', PInt 7)]))) ''s'' ''m'' [] (demo_gateway False)) = Inr (PInt 7)"
proof -
  let ?wi = "demo_wire (\<lambda>n. if n = 0 then Inl (ValueError ''down'') else Inr (PDict [(''result'', PInt 7)]))" and ?g = "demo_gateway False"
  let ?req = "rpc_request (wi_uid ?wi (gw_next ?g)) ''m'' [] (dget (gw_auth ?g) ''s'')"
  have "gw_http ?g" "int 1 \<le> gw_max_retries ?g" by (simp_all add: demo_gateway_def resilience.defs)
  moreover have "outage ?wi ''s'' ?req (gw_retry_backoff ?g) 0 1 (gw_env ?g) 1"
    by (simp add: demo_wire_def demo_gateway_def resilience.defs transient_def ValueError_def std_exn_def)
  moreover have "wi_post ?wi ''s'' ?req 1 = (Inr (PDict [(''result'', PInt 7)]), 2)" by (simp add: demo_wire_def)
  ultimately show ?thesis
    using request_survives_outage [of ?g ?wi "''s''" ?req 1 1 "''m''" "[]"] by simp
qed

section \<open>Sessions and tokens\<close>

text \<open>What a successful connection leaves behind.\<close>

lemma connect_effect:
  assumes "mcp_connect wi url token g = (Inr s, h)" and "gw_vault g = None"
  shows "dget (gw_sessions h) (mss_id s) = Some (length (gw_heap g))" and "gw_heap h = gw_heap g @ [s]" and "mss_status s = ''active''" and "mss_server_url s = url"
    and "gw_sessions h = dset (mss_id s) (length (gw_heap g)) (gw_sessions g)" and "gw_by_server h = dset url (mss_id s) (gw_by_server g)" and "gw_vault h = None"
    and "gw_auth h = (case token of None \<Rightarrow> gw_auth g | Some t \<Rightarrow> dset url t (gw_auth g))"
    and "auth_source url h = (case token of None \<Rightarrow> ''none'' | Some _ \<Rightarrow> ''explicit'')"
proof -
  obtain tok g1 where r: "resolve_auth wi url token g = (Inr tok, g1)"
      "gw_sessions g1 = gw_sessions g" "gw_heap g1 = gw_heap g" "gw_by_server g1 = gw_by_server g" "gw_vault g1 = None"
      "gw_auth g1 = (case token of None \<Rightarrow> gw_auth g | Some t \<Rightarrow> dset url t (gw_auth g))"
      "gw_auth_source g1 = dset url (case token of None \<Rightarrow> ''none'' | Some _ \<Rightarrow> ''explicit'') (gw_auth_source g)"
    using assms(2) by (cases token) (auto simp: resolve_auth_def)
  obtain x g2 where c: "rpc wi url ''initialize'' init_params g1 = (x, g2)" by (cases "rpc wi url ''initialize'' init_params g1")
  with rpc_same [of g1 wi url "''initialize''" init_params] have same: "same_gateway g1 g2" by simp
  from c r(1) assms(1) obtain result server where x: "x = Inr result" "server_of url tok result = Inr server"
    by (auto simp: mcp_connect_def split: sum.splits)
  define t where "t = wi_utc wi (gw_env g2)"
  have s: "s = \<lparr>mss_id = wi_uid wi (gw_next g2), mss_server_url = url, mss_status = ''active'', mss_created_at = t, mss_last_used = t\<rparr>"
    and h: "gw_heap h = gw_heap g2 @ [s]" "gw_sessions h = dset (mss_id s) (length (gw_heap g2)) (gw_sessions g2)" "gw_by_server h = dset url (mss_id s) (gw_by_server g2)"
      "gw_vault h = gw_vault g2" "gw_auth h = gw_auth g2" "gw_auth_source h = gw_auth_source g2"
    using assms(1) r(1) c x by (auto simp: mcp_connect_def gw_fresh_def gw_put_def gw_emit_def Let_def t_def)
  with same r show "dget (gw_sessions h) (mss_id s) = Some (length (gw_heap g))" "gw_heap h = gw_heap g @ [s]" "mss_status s = ''active''" "mss_server_url s = url"
    "gw_sessions h = dset (mss_id s) (length (gw_heap g)) (gw_sessions g)" "gw_by_server h = dset url (mss_id s) (gw_by_server g)" "gw_vault h = None"
    "gw_auth h = (case token of None \<Rightarrow> gw_auth g | Some t \<Rightarrow> dset url t (gw_auth g))"
    "auth_source url h = (case token of None \<Rightarrow> ''none'' | Some _ \<Rightarrow> ''explicit'')"
    by (simp_all add: same_gateway_def auth_source_def dget_or_def)
qed

text \<open>
  Closing a session that has been replaced by a newer connection to the same server disconnects
  the newer one: it stays active, but the gateway forgets it and accounts further calls to an
  ad-hoc session.\<close>

theorem closing_old_session_drops_new:
  assumes "gw_vault g = None" and "mcp_connect wi url t1 g = (Inr s1, g1)" and "mcp_connect wi url t2 g1 = (Inr s2, g2)" and "mss_id s1 \<noteq> mss_id s2"
  shows "case close_session (mss_id s1) reason g2 of h \<Rightarrow>
     (\<exists>s. get_session (mss_id s2) h = Some s \<and> mss_status s = ''active'') \<and> session_for url g2 = mss_id s2 \<and> session_for url h = ''adhoc:'' @ url"
proof -
  note c1 = connect_effect [OF assms(2,1)]
  note c2 = connect_effect [OF assms(3) c1(7)]
  have h: "gw_heap g2 = gw_heap g @ [s1, s2]" using c1(2) c2(2) by simp
  have s1: "dget (gw_sessions g2) (mss_id s1) = Some (length (gw_heap g))" using c1(1) c2(5) assms(4) by simp
  have s2: "dget (gw_sessions g2) (mss_id s2) = Some (length (gw_heap g) + 1)" using c2(1) c1(2) by simp
  show ?thesis using c1(4) c2(3,6) h s1 s2
    by (simp add: close_session_def get_session_def session_for_def gw_emit_def gw_put_def Let_def dget_or_def nth_append)
qed

theorem closing_old_session_drops_new_witness:
  "\<exists>s1 g1 s2 g2. mcp_connect (demo_wire (\<lambda>n. Inr (PDict [(''result'', PDict [])]))) ''s'' None (demo_gateway False) = (Inr s1, g1) \<and>
     mcp_connect (demo_wire (\<lambda>n. Inr (PDict [(''result'', PDict [])]))) ''s'' None g1 = (Inr s2, g2) \<and>
     session_for ''s'' (close_session (mss_id s1) [] g2) = ''adhoc:s''"
proof -
  let ?wi = "demo_wire (\<lambda>n. Inr (PDict [(''result'', PDict [])]))" and ?g = "demo_gateway False"
  note ev = mcp_connect_def resolve_auth_def rpc_def exchange_def unwrap_def server_of_def gw_fresh_def demo_wire_def demo_gateway_def resilience.defs
    rpc_loop.simps py_get_def as_str_def dget_or_def gw_put_def gw_emit_def Let_def
  obtain s1 g1 where c1: "mcp_connect ?wi ''s'' None ?g = (Inr s1, g1)" "mss_id s1 = ''x''" "gw_next g1 = 2" "gw_http g1" "gw_max_retries g1 = 1" "gw_vault g1 = None"
    by (simp add: ev)
  obtain s2 g2 where c2: "mcp_connect ?wi ''s'' None g1 = (Inr s2, g2)" "mss_id s2 = ''y''"
    using c1(3-6) by (simp add: ev)
  have "gw_vault ?g = None" by (simp add: demo_gateway_def resilience.defs)
  from closing_old_session_drops_new [OF this c1(1) c2(1), of "[]"] c1 c2 show ?thesis by auto
qed

text \<open>
  A connection without a token keeps using the token of an earlier one: after connecting with a
  token and then again without, the gateway reports that no authentication is in use while every
  request to the server still carries the old token.\<close>

theorem old_token_is_kept:
  assumes "gw_vault g = None" and "mcp_connect wi url (Some t) g = (Inr s1, g1)" and "mcp_connect wi url None g1 = (Inr s2, g2)"
  shows "auth_source url g2 = ''none'' \<and> dget (gw_auth g2) url = Some t \<and>
     (\<forall>meth params. gw_http g2 \<longrightarrow> gw_max_retries g2 \<ge> 0 \<longrightarrow>
        rpc wi url meth params g2 = exchange wi url meth (rpc_request (wi_uid wi (gw_next g2)) meth params (Some t)) (g2\<lparr>gw_next := gw_next g2 + 1\<rparr>))"
proof -
  note c1 = connect_effect [OF assms(2,1)]
  note c2 = connect_effect [OF assms(3) c1(7)]
  have "dget (gw_auth g2) url = Some t" using c1(8) c2(8) by simp
  then show ?thesis using c2(9) by (simp add: rpc_def gw_fresh_def)
qed

theorem old_token_is_kept_witness:
  "\<exists>s1 g1 s2 g2. mcp_connect (demo_wire (\<lambda>n. Inr (PDict [(''result'', PDict [])]))) ''s'' (Some ''k'') (demo_gateway False) = (Inr s1, g1) \<and>
     mcp_connect (demo_wire (\<lambda>n. Inr (PDict [(''result'', PDict [])]))) ''s'' None g1 = (Inr s2, g2) \<and>
     auth_source ''s'' g2 = ''none'' \<and> dget (gw_auth g2) ''s'' = Some ''k''"
proof -
  let ?wi = "demo_wire (\<lambda>n. Inr (PDict [(''result'', PDict [])]))" and ?g = "demo_gateway False"
  note ev = mcp_connect_def resolve_auth_def rpc_def exchange_def unwrap_def server_of_def gw_fresh_def demo_wire_def demo_gateway_def resilience.defs
    rpc_loop.simps py_get_def as_str_def dget_or_def gw_put_def gw_emit_def Let_def
  obtain s1 g1 where c1: "mcp_connect ?wi ''s'' (Some ''k'') ?g = (Inr s1, g1)" "gw_http g1" "gw_max_retries g1 = 1" "gw_vault g1 = None"
    by (simp add: ev)
  obtain s2 g2 where c2: "mcp_connect ?wi ''s'' None g1 = (Inr s2, g2)"
    using c1(2-4) by (simp add: ev)
  have "gw_vault ?g = None" by (simp add: demo_gateway_def resilience.defs)
  from old_token_is_kept [OF this c1(1) c2] c1(1) c2 show ?thesis by blast
qed

end
