(* ===== verification/Marketplace.thy ===== *)
theory Marketplace
  imports Guard Mcp Cluster
begin

text \<open>
  The plugin marketplace: \<open>kernel/marketplace.py\<close>, \<open>kernel/marketplace_store.py\<close> and
  \<open>kernel/marketplace_domain.py\<close>.

  \<^item> Package objects are shared between the dictionaries of the marketplace and of its store and are
    changed in place by \<open>install\<close>; they live in \<open>mk_heap\<close>, and the dictionaries hold references.
  \<^item> Guard, vault and MCP gateway are the optional collaborators, with their own state.
  \<^item> \<open>surroundings\<close> collects what is outside: fetching a catalog and parsing its JSON, the digest,
    the conversions \<open>float\<close> and \<open>int\<close>, printing, and the supply of ids.
\<close>

section \<open>Domain and store\<close>

datatype plugin_source = LOCAL | REMOTE | MARKETPLACE | BUILTIN | FROM_MCP

fun source_value :: "plugin_source \<Rightarrow> string" where
  "source_value LOCAL = ''local''" | "source_value REMOTE = ''remote''" | "source_value MARKETPLACE = ''marketplace''"
| "source_value BUILTIN = ''builtin''" | "source_value FROM_MCP = ''mcp_server''"

datatype plugin_status = AVAILABLE | INSTALLING | INSTALLED | FAILED | DISABLED

record plugin_package =
  pk_id :: string
  pk_name :: string
  pk_version :: string
  pk_source :: plugin_source
  pk_entrypoint :: string
  pk_capabilities :: "string list"
  pk_dependencies :: "string list"
  pk_checksum :: "string option"
  pk_signature :: "string option"
  pk_metadata :: pydict
  pk_status :: plugin_status
  pk_installed_at :: "datetime option"
  pk_created_at :: datetime
  pk_policy :: "sandbox_policy option"
  pk_required_secrets :: "string list"

record catalog_entry =
  ct_id :: string
  ct_package :: string
  ct_url :: string
  ct_synced :: datetime
  ct_rating :: rat
  ct_downloads :: int

record market_db =
  mdb_packages :: "(string, plugin_package) dict"
  mdb_catalog :: "(string, catalog_entry) dict"
  mdb_nodes :: "(string, cnode) dict"

record market_store =
  mks_packages :: "(string, nat) dict"
  mks_catalog :: "(string, catalog_entry) dict"
  mks_nodes :: "(string, cnode) dict"
  mks_db :: "market_db option"

definition put_package :: "plugin_package list \<Rightarrow> nat \<Rightarrow> market_store \<Rightarrow> market_store" where
  "put_package heap r st =
     st\<lparr>mks_packages := dset (pk_id (heap ! r)) r (mks_packages st),
        mks_db := map_option (\<lambda>d. d\<lparr>mdb_packages := row_replace (pk_id (heap ! r)) (heap ! r) (mdb_packages d)\<rparr>) (mks_db st)\<rparr>"

definition delete_package :: "string \<Rightarrow> market_store \<Rightarrow> bool \<times> market_store" where
  "delete_package i st =
     (dget (mks_packages st) i \<noteq> None,
      st\<lparr>mks_packages := ddel i (mks_packages st), mks_db := map_option (\<lambda>d. d\<lparr>mdb_packages := ddel i (mdb_packages d)\<rparr>) (mks_db st)\<rparr>)"

definition list_packages :: "plugin_package list \<Rightarrow> plugin_status option \<Rightarrow> market_store \<Rightarrow> plugin_package list" where
  "list_packages heap status st =
     filter (\<lambda>p. case status of None \<Rightarrow> True | Some s \<Rightarrow> pk_status p = s) (map (\<lambda>r. heap ! r) (dvals (mks_packages st)))"

definition put_catalog_entry :: "catalog_entry \<Rightarrow> market_store \<Rightarrow> market_store" where
  "put_catalog_entry e st =
     st\<lparr>mks_catalog := dset (ct_id e) e (mks_catalog st), mks_db := map_option (\<lambda>d. d\<lparr>mdb_catalog := row_replace (ct_id e) e (mdb_catalog d)\<rparr>) (mks_db st)\<rparr>"

text \<open>The package made up for a catalog entry whose package the store does not have; \<open>now\<close> is its creation time.\<close>

definition stub_package :: "datetime \<Rightarrow> string \<Rightarrow> plugin_package" where
  "stub_package now i =
     \<lparr>pk_id = i, pk_name = i, pk_version = ''0.0.0'', pk_source = MARKETPLACE, pk_entrypoint = [], pk_capabilities = [], pk_dependencies = [],
      pk_checksum = None, pk_signature = None, pk_metadata = [], pk_status = AVAILABLE, pk_installed_at = None, pk_created_at = now, pk_policy = None,
      pk_required_secrets = []\<rparr>"

definition list_catalog_packages :: "datetime \<Rightarrow> plugin_package list \<Rightarrow> market_store \<Rightarrow> plugin_package list" where
  "list_catalog_packages now heap st =
     map (\<lambda>e. case dget (mks_packages st) (ct_package e) of Some r \<Rightarrow> heap ! r | None \<Rightarrow> stub_package now (ct_package e)) (dvals (mks_catalog st))"

definition put_node :: "cnode \<Rightarrow> market_store \<Rightarrow> market_store" where
  "put_node n st =
     st\<lparr>mks_nodes := dset (cn_id n) n (mks_nodes st), mks_db := map_option (\<lambda>d. d\<lparr>mdb_nodes := row_replace (cn_id n) n (mdb_nodes d)\<rparr>) (mks_db st)\<rparr>"

definition delete_node :: "string \<Rightarrow> market_store \<Rightarrow> bool \<times> market_store" where
  "delete_node i st =
     (dget (mks_nodes st) i \<noteq> None,
      st\<lparr>mks_nodes := ddel i (mks_nodes st), mks_db := map_option (\<lambda>d. d\<lparr>mdb_nodes := ddel i (mdb_nodes d)\<rparr>) (mks_db st)\<rparr>)"

definition stored_topology :: "string \<Rightarrow> market_store \<Rightarrow> cluster_topology" where
  "stored_topology cid st = \<lparr>tp_cluster = cid, tp_nodes = mks_nodes st, tp_leader = None\<rparr>"

section \<open>The marketplace\<close>

record 'w surroundings =
  su_fetch :: "string \<Rightarrow> exn + pyval"
  su_sha256 :: "string \<Rightarrow> string"
  su_float :: "pyval \<Rightarrow> exn + rat"
  su_int :: "pyval \<Rightarrow> exn + int"
  su_fstr :: "rat \<Rightarrow> string"
  su_iso :: "datetime \<Rightarrow> string"
  su_uid :: "nat \<Rightarrow> string"
  su_wire :: "'w wire"

record ('w, 'e) market =
  mk_sink :: sink
  mk_heap :: "plugin_package list"
  mk_store :: "market_store option"
  mk_http :: bool
  mk_guard :: "guard option"
  mk_vault :: "'e vault option"
  mk_mcp :: "('w, 'e) gateway option"
  mk_installed :: "(string, nat) dict"
  mk_catalog :: "(string, catalog_entry) dict"
  mk_available :: "(string, nat) dict"
  mk_mcp_packages :: "(string, nat) dict"
  mk_next :: nat

text \<open>Opening the store loads the packages of the database as new objects.\<close>

definition load_packages :: "market_db \<Rightarrow> plugin_package list \<Rightarrow> (string, nat) dict \<times> plugin_package list" where
  "load_packages d heap = fold (\<lambda>(i, p) (m, h). (dset i (length h) m, h @ [p])) (mdb_packages d) ([], heap)"

definition open_market_store :: "market_db option \<Rightarrow> plugin_package list \<Rightarrow> market_store \<times> plugin_package list" where
  "open_market_store db heap =
     (case db of
        None \<Rightarrow> (\<lparr>mks_packages = [], mks_catalog = [], mks_nodes = [], mks_db = None\<rparr>, heap)
      | Some d \<Rightarrow>
          (let (m, h) = load_packages d heap
           in (\<lparr>mks_packages = m, mks_catalog = fold (\<lambda>(i, e). dset i e) (mdb_catalog d) [], mks_nodes = fold (\<lambda>(i, n). dset i n) (mdb_nodes d) [], mks_db = Some d\<rparr>, h)))"

definition mk_emit :: "mp_event \<Rightarrow> ('w, 'e) market \<Rightarrow> ('w, 'e) market" where
  "mk_emit e m = m\<lparr>mk_sink := emit (MpEv e) (mk_sink m)\<rparr>"

definition mk_fresh :: "'w surroundings \<Rightarrow> ('w, 'e) market \<Rightarrow> string \<times> ('w, 'e) market" where
  "mk_fresh su m = (su_uid su (mk_next m), m\<lparr>mk_next := mk_next m + 1\<rparr>)"

definition mk_alloc :: "plugin_package \<Rightarrow> ('w, 'e) market \<Rightarrow> nat \<times> ('w, 'e) market" where
  "mk_alloc p m = (length (mk_heap m), m\<lparr>mk_heap := mk_heap m @ [p]\<rparr>)"

definition mk_save :: "nat \<Rightarrow> ('w, 'e) market \<Rightarrow> ('w, 'e) market" where
  "mk_save r m = m\<lparr>mk_store := map_option (put_package (mk_heap m) r) (mk_store m)\<rparr>"

definition set_pk_status :: "plugin_status \<Rightarrow> nat \<Rightarrow> ('w, 'e) market \<Rightarrow> ('w, 'e) market" where
  "set_pk_status s r m = m\<lparr>mk_heap := (mk_heap m)[r := (mk_heap m ! r)\<lparr>pk_status := s\<rparr>]\<rparr>"

subsection \<open>Discovery\<close>

definition source_of :: "pyval \<Rightarrow> exn + plugin_source" where
  "source_of v =
     (case v of
        PStr s \<Rightarrow> (case find (\<lambda>x. source_value x = s) [LOCAL, REMOTE, MARKETPLACE, BUILTIN, FROM_MCP] of
                     Some x \<Rightarrow> Inr x | None \<Rightarrow> Inl (ValueError (quoted s @ '' is not a valid PluginSource'')))
      | _ \<Rightarrow> Inl (ValueError ''not a valid PluginSource''))"

text \<open>\<open>dict(v)\<close>: a copy of a dictionary, or the pairs of an iterable of pairs.\<close>

fun pairs_of :: "pyval list \<Rightarrow> exn + pydict" where
  "pairs_of [] = Inr []"
| "pairs_of (v # vs) =
     (case py_list v of
        Inl x \<Rightarrow> Inl x
      | Inr [PStr k, y] \<Rightarrow> (case pairs_of vs of Inl x \<Rightarrow> Inl x | Inr d \<Rightarrow> Inr ((k, y) # d))
      | Inr [_, _] \<Rightarrow> Inl (ValidationError ''metadata'')
      | Inr _ \<Rightarrow> Inl (ValueError ''dictionary update sequence element''))"

definition py_dict :: "pyval \<Rightarrow> exn + pydict" where
  "py_dict v =
     (case v of
        PDict d \<Rightarrow> Inr d
      | _ \<Rightarrow> (case py_list v of Inl x \<Rightarrow> Inl x | Inr vs \<Rightarrow> (case pairs_of vs of Inl x \<Rightarrow> Inl x | Inr ps \<Rightarrow> Inr (dupdate [] ps))))"

text \<open>
  A package from one item of a catalog: the arguments of the constructor are evaluated in order, then
  their types are validated. The name is required, so the default \<open>pkg-i\<close> for the id is never
  used; a policy and required secrets are not read from catalogs.
\<close>

definition checked_package :: "datetime \<Rightarrow> pydict \<Rightarrow> pyval \<Rightarrow> plugin_source \<Rightarrow> pyval list \<Rightarrow> pyval list \<Rightarrow> pydict \<Rightarrow> exn + plugin_package" where
  "checked_package now d n src caps deps md =
     (case (as_str ''package_id'' (dget_or d ''package_id'' n), as_str ''name'' n, as_str ''version'' (dget_or d ''version'' (PStr ''0.0.0'')),
            as_str ''entrypoint'' (dget_or d ''entrypoint'' (PStr [])), as_strs ''capabilities'' caps, as_strs ''dependencies'' deps,
            as_opt_str ''checksum'' (dget_or d ''checksum'' PNone), as_opt_str ''signature'' (dget_or d ''signature'' PNone)) of
        (Inr pid, Inr nm, Inr ver, Inr ep, Inr cs, Inr ds, Inr ck, Inr sg) \<Rightarrow>
          Inr \<lparr>pk_id = pid, pk_name = nm, pk_version = ver, pk_source = src, pk_entrypoint = ep, pk_capabilities = cs, pk_dependencies = ds,
               pk_checksum = ck, pk_signature = sg, pk_metadata = md, pk_status = AVAILABLE, pk_installed_at = None, pk_created_at = now,
               pk_policy = None, pk_required_secrets = []\<rparr>
      | _ \<Rightarrow> Inl (ValidationError ''PluginPackage''))"

definition package_of :: "datetime \<Rightarrow> pydict \<Rightarrow> exn + plugin_package" where
  "package_of now d =
     (case dget d ''name'' of
        None \<Rightarrow> Inl (KeyError ''name'')
      | Some n \<Rightarrow>
          (case source_of (dget_or d ''source'' (PStr ''marketplace'')) of
             Inl x \<Rightarrow> Inl x
           | Inr src \<Rightarrow>
               (case py_list (dget_or d ''capabilities'' (PList [])) of
                  Inl x \<Rightarrow> Inl x
                | Inr caps \<Rightarrow>
                    (case py_list (dget_or d ''dependencies'' (PList [])) of
                       Inl x \<Rightarrow> Inl x
                     | Inr deps \<Rightarrow>
                         (case py_dict (dget_or d ''metadata'' (PDict [])) of
                            Inl x \<Rightarrow> Inl x
                          | Inr md \<Rightarrow> checked_package now d n src caps deps md)))))"

definition discover_item :: "'w surroundings \<Rightarrow> datetime \<Rightarrow> string \<Rightarrow> pyval \<Rightarrow> ('w, 'e) market \<Rightarrow> (catalog_entry, ('w, 'e) market) res" where
  "discover_item su now url item m =
     (case item of
        PDict d \<Rightarrow>
          (case package_of now d of
             Inl x \<Rightarrow> (Inl x, m)
           | Inr p \<Rightarrow>
               (case (su_float su (dget_or d ''rating'' (PFloat 0)), su_int su (dget_or d ''download_count'' (PInt 0))) of
                  (Inr rating, Inr count) \<Rightarrow>
                    (let (eid, m1) = mk_fresh su m;
                         e = \<lparr>ct_id = eid, ct_package = pk_id p, ct_url = url, ct_synced = now, ct_rating = rating, ct_downloads = count\<rparr>;
                         (r, m2) = mk_alloc p m1;
                         m3 = m2\<lparr>mk_catalog := dset eid e (mk_catalog m2), mk_available := dset (pk_id p) r (mk_available m2),
                                 mk_store := map_option (put_package (mk_heap m2) r \<circ> put_catalog_entry e) (mk_store m2)\<rparr>
                     in (Inr e, mk_emit (PluginDiscovered (pk_id p) (pk_name p) (source_value (pk_source p)) (pk_version p) url) m3))
                | (Inl x, _) \<Rightarrow> (Inl x, m)
                | (_, Inl x) \<Rightarrow> (Inl x, m)))
      | _ \<Rightarrow> (Inl (AttributeError ''get''), m))"

fun discover_items :: "'w surroundings \<Rightarrow> datetime \<Rightarrow> string \<Rightarrow> pyval list \<Rightarrow> ('w, 'e) market \<Rightarrow> (catalog_entry list, ('w, 'e) market) res" where
  "discover_items su now url [] m = (Inr [], m)"
| "discover_items su now url (v # vs) m =
     (case discover_item su now url v m of
        (Inl x, m1) \<Rightarrow> (Inl x, m1)
      | (Inr e, m1) \<Rightarrow> (case discover_items su now url vs m1 of (Inl x, m2) \<Rightarrow> (Inl x, m2) | (Inr es, m2) \<Rightarrow> (Inr (e # es), m2)))"

definition discover :: "'w surroundings \<Rightarrow> datetime \<Rightarrow> string \<Rightarrow> ('w, 'e) market \<Rightarrow> (catalog_entry list, ('w, 'e) market) res" where
  "discover su now url m =
     (if \<not> mk_http m then (Inl (RuntimeError ''discover requires an injected http_client''), m)
      else (case su_fetch su url of
              Inl x \<Rightarrow> (Inl x, m)
            | Inr v \<Rightarrow> (case py_list v of Inl x \<Rightarrow> (Inl x, m) | Inr vs \<Rightarrow> discover_items su now url vs m)))"

subsection \<open>Validation and installation\<close>

definition ALLOWED_ACTIONS :: "string list" where
  "ALLOWED_ACTIONS = [''execute'', ''discover'', ''network'', ''file.read'', ''file.write'', ''subprocess'', ''memory'', ''cpu'']"

definition repr_list :: "string list \<Rightarrow> string" where
  "repr_list ss = ''['' @ join '', '' (map quoted ss) @ '']''"

definition bad_actions :: "plugin_package \<Rightarrow> string list" where
  "bad_actions p = (case pk_policy p of None \<Rightarrow> [] | Some sp \<Rightarrow> filter (\<lambda>a. a \<notin> set ALLOWED_ACTIONS) (map perm_action (sp_permissions sp)))"

definition known_packages :: "('w, 'e) market \<Rightarrow> string list" where
  "known_packages m =
     (case mk_store m of
        Some st \<Rightarrow> map pk_id (list_packages (mk_heap m) None st) @ map ct_package (dvals (mks_catalog st))
      | None \<Rightarrow> dkeys (mk_installed m) @ map ct_package (dvals (mk_catalog m)))"

definition validate_package :: "'w surroundings \<Rightarrow> plugin_package \<Rightarrow> ('w, 'e) market \<Rightarrow> bool \<times> string" where
  "validate_package su p m =
     (if bad_actions p \<noteq> [] then (False, ''disallowed policy actions: '' @ repr_list (sort (remdups (bad_actions p))))
      else if (case pk_checksum p of None \<Rightarrow> False | Some c \<Rightarrow> c \<noteq> [] \<and> su_sha256 su (pk_entrypoint p) \<noteq> c) then (False, ''checksum mismatch'')
      else
        (let missing = filter (\<lambda>d. d \<notin> set (known_packages m)) (pk_dependencies p)
         in if missing \<noteq> [] then (False, ''missing dependencies: '' @ repr_list missing) else (True, [])))"

text \<open>Resolving the required secrets one after the other; a missing one does not stop the loop.\<close>

fun missing_secrets :: "'w surroundings \<Rightarrow> datetime \<Rightarrow> string \<Rightarrow> string list \<Rightarrow> 'e vault \<Rightarrow> ('w, 'e) market \<Rightarrow> (string list, ('w, 'e) market) res" where
  "missing_secrets su now pid [] v m = (Inr [], m\<lparr>mk_vault := Some v\<rparr>)"
| "missing_secrets su now pid (k # ks) v m =
     (let (u, m1) = mk_fresh su m
      in case resolve_secret (su_iso su) now u k PLUGIN (Some pid) (''marketplace:'' @ pid) v of
           (Inr _, v1) \<Rightarrow> missing_secrets su now pid ks v1 m1
         | (Inl x, v1) \<Rightarrow>
             if catches ''KeyError'' x \<or> catches ''RuntimeError'' x
             then (case missing_secrets su now pid ks v1 m1 of (Inl y, m2) \<Rightarrow> (Inl y, m2) | (Inr miss, m2) \<Rightarrow> (Inr (k # miss), m2))
             else (Inl x, m1\<lparr>mk_vault := Some v1\<rparr>))"

definition install_failed :: "nat \<Rightarrow> string \<Rightarrow> ('w, 'e) market \<Rightarrow> ('w, 'e) market" where
  "install_failed r reason m =
     (let m1 = set_pk_status FAILED r m; p = mk_heap m1 ! r
      in mk_save r (mk_emit (PluginInstallFailed (pk_id p) (pk_name p) reason) m1))"

definition install_done :: "'w surroundings \<Rightarrow> datetime \<Rightarrow> nat \<Rightarrow> bool \<Rightarrow> ('w, 'e) market \<Rightarrow> ('w, 'e) market" where
  "install_done su now r resolved m =
     (let p = mk_heap m ! r;
          m1 = (case pk_policy p of None \<Rightarrow> m | Some sp \<Rightarrow> m\<lparr>mk_guard := map_option (register_policy (su_fstr su) (pk_id p) sp) (mk_guard m)\<rparr>);
          m2 = m1\<lparr>mk_heap := (mk_heap m1)[r := p\<lparr>pk_status := INSTALLED, pk_installed_at := Some now\<rparr>],
                  mk_installed := dset (pk_id p) r (mk_installed m1)\<rparr>
      in mk_emit (PluginInstalled (pk_id p) (pk_name p) (pk_version p) (source_value (pk_source p)) resolved) (mk_save r m2))"

definition install :: "'w surroundings \<Rightarrow> datetime \<Rightarrow> nat \<Rightarrow> ('w, 'e) market \<Rightarrow> (nat, ('w, 'e) market) res" where
  "install su now r m =
     (let p = mk_heap m ! r; (ok, reason) = validate_package su p m
      in if \<not> ok then (Inr r, install_failed r reason m)
         else if pk_required_secrets p = [] then (Inr r, install_done su now r False m)
         else (case mk_vault m of
                 None \<Rightarrow> (Inr r, install_done su now r False m)
               | Some v \<Rightarrow>
                   (case missing_secrets su now (pk_id p) (pk_required_secrets p) v m of
                      (Inl x, m1) \<Rightarrow> (Inl x, m1)
                    | (Inr miss, m1) \<Rightarrow>
                        if miss \<noteq> [] then (Inr r, install_failed r (''missing_required_secrets: '' @ repr_list miss) m1)
                        else (Inr r, install_done su now r True m1))))"

definition uninstall :: "string \<Rightarrow> ('w, 'e) market \<Rightarrow> bool \<times> ('w, 'e) market" where
  "uninstall i m =
     (let m1 = m\<lparr>mk_installed := ddel i (mk_installed m)\<rparr>
      in if dget (mk_installed m) i = None \<and> (case mk_store m of None \<Rightarrow> True | Some st \<Rightarrow> dget (mks_packages st) i = None) then (False, m1)
         else (True, m1\<lparr>mk_store := map_option (\<lambda>st. snd (delete_package i st)) (mk_store m1)\<rparr>))"

subsection \<open>Queries\<close>

definition list_installed :: "('w, 'e) market \<Rightarrow> plugin_package list" where
  "list_installed m =
     (case mk_store m of
        Some st \<Rightarrow> list_packages (mk_heap m) (Some INSTALLED) st
      | None \<Rightarrow> filter (\<lambda>p. pk_status p = INSTALLED) (map (\<lambda>r. mk_heap m ! r) (dvals (mk_installed m))))"

definition get_package :: "string \<Rightarrow> ('w, 'e) market \<Rightarrow> nat option" where
  "get_package i m =
     (case mk_store m of
        Some st \<Rightarrow> dget (mks_packages st) i
      | None \<Rightarrow> (case dget (mk_installed m) i of Some r \<Rightarrow> Some r | None \<Rightarrow> dget (mk_available m) i))"

definition list_available :: "datetime \<Rightarrow> ('w, 'e) market \<Rightarrow> plugin_package list" where
  "list_available now m =
     (case mk_store m of Some st \<Rightarrow> list_catalog_packages now (mk_heap m) st | None \<Rightarrow> map (\<lambda>r. mk_heap m ! r) (dvals (mk_available m))) @
     (if mk_mcp m = None then [] else map (\<lambda>r. mk_heap m ! r) (dvals (mk_mcp_packages m)))"

subsection \<open>MCP tools and local plugins\<close>

definition mcp_package :: "datetime \<Rightarrow> string \<Rightarrow> mcp_tool \<Rightarrow> plugin_package" where
  "mcp_package now url t =
     (stub_package now (''mcp:'' @ url @ ''::'' @ mt_name t))\<lparr>pk_name := mt_name t, pk_source := FROM_MCP, pk_entrypoint := ''mcp:'' @ url @ ''::'' @ mt_name t,
        pk_capabilities := [''mcp:'' @ url @ ''::'' @ mt_name t],
        pk_metadata := [(''description'', PStr (mt_description t)), (''input_schema'', PDict (mt_input_schema t))]\<rparr>"

definition add_mcp_tool :: "'w surroundings \<Rightarrow> datetime \<Rightarrow> string \<Rightarrow> mcp_tool \<Rightarrow> ('w, 'e) market \<Rightarrow> ('w, 'e) market" where
  "add_mcp_tool su now url t m =
     (let p = mcp_package now url t;
          (r, m1) = mk_alloc p m;
          (eid, m2) = mk_fresh su m1;
          e = \<lparr>ct_id = eid, ct_package = pk_id p, ct_url = url, ct_synced = now, ct_rating = 0, ct_downloads = 0\<rparr>
      in mk_emit (PluginDiscovered (pk_id p) (mt_name t) (source_value FROM_MCP) ''0.0.0'' url)
           (m2\<lparr>mk_mcp_packages := dset (pk_id p) r (mk_mcp_packages m2), mk_catalog := dset eid e (mk_catalog m2),
               mk_store := map_option (put_catalog_entry e) (mk_store m2)\<rparr>))"

definition discover_mcp_tools :: "'w surroundings \<Rightarrow> datetime \<Rightarrow> string \<Rightarrow> ('w, 'e) market \<Rightarrow> (mcp_tool list, ('w, 'e) market) res" where
  "discover_mcp_tools su now url m =
     (case mk_mcp m of
        None \<Rightarrow> (Inl (RuntimeError ''MCP gateway not wired''), m)
      | Some g \<Rightarrow>
          (case mcp_connect (su_wire su) url None g of
             (Inl x, g1) \<Rightarrow> (Inl x, m\<lparr>mk_mcp := Some g1\<rparr>)
           | (Inr _, g1) \<Rightarrow>
               (case gw_list_tools (su_wire su) url g1 of
                  (Inl x, g2) \<Rightarrow> (Inl x, m\<lparr>mk_mcp := Some g2\<rparr>)
                | (Inr tools, g2) \<Rightarrow> (Inr tools, fold (add_mcp_tool su now url) tools (m\<lparr>mk_mcp := Some g2\<rparr>)))))"

definition register_local :: "datetime \<Rightarrow> string \<Rightarrow> string list \<Rightarrow> string option \<Rightarrow> ('w, 'e) market \<Rightarrow> nat \<times> ('w, 'e) market" where
  "register_local now ep caps name m =
     (let p = (stub_package now ep)\<lparr>pk_name := or_str name (last (split_on CHR ''.'' ep)), pk_source := LOCAL, pk_entrypoint := ep, pk_capabilities := caps,
                 pk_status := INSTALLED, pk_installed_at := Some now\<rparr>;
          (r, m1) = mk_alloc p m
      in (r, mk_emit (PluginInstalled (pk_id p) (pk_name p) (pk_version p) (source_value LOCAL) False)
               (mk_save r (m1\<lparr>mk_installed := dset ep r (mk_installed m1)\<rparr>))))"

section \<open>Installing\<close>

lemma market_frames [simp]:
  "mk_heap (mk_emit e m) = mk_heap m" "mk_installed (mk_emit e m) = mk_installed m" "mk_guard (mk_emit e m) = mk_guard m" "mk_store (mk_emit e m) = mk_store m"
  "mk_available (mk_emit e m) = mk_available m" "mk_sink (mk_emit e m) = emit (MpEv e) (mk_sink m)" "mk_catalog (mk_emit e m) = mk_catalog m"
  "mk_heap (mk_save r m) = mk_heap m" "mk_installed (mk_save r m) = mk_installed m" "mk_guard (mk_save r m) = mk_guard m" "mk_available (mk_save r m) = mk_available m"
  "mk_sink (mk_save r m) = mk_sink m" "mk_store (mk_save r m) = map_option (put_package (mk_heap m) r) (mk_store m)"
  "mk_installed (set_pk_status s r m) = mk_installed m" "mk_guard (set_pk_status s r m) = mk_guard m" "mk_store (set_pk_status s r m) = mk_store m"
  "mk_sink (set_pk_status s r m) = mk_sink m" "mk_heap (set_pk_status s r m) = (mk_heap m)[r := (mk_heap m ! r)\<lparr>pk_status := s\<rparr>]"
  by (simp_all add: mk_emit_def mk_save_def set_pk_status_def)

lemma missing_secrets_frame:
  "snd (missing_secrets su now pid ks v m) = m\<lparr>mk_vault := mk_vault (snd (missing_secrets su now pid ks v m)), mk_next := mk_next (snd (missing_secrets su now pid ks v m))\<rparr>"
proof (induction ks arbitrary: v m)
  case Nil
  then show ?case by simp
next
  case (Cons k ks)
  let ?m = "m\<lparr>mk_next := mk_next m + 1\<rparr>"
  obtain x v1 where r: "resolve_secret (su_iso su) now (su_uid su (mk_next m)) k PLUGIN (Some pid) (''marketplace:'' @ pid) v = (x, v1)"
    by (cases "resolve_secret (su_iso su) now (su_uid su (mk_next m)) k PLUGIN (Some pid) (''marketplace:'' @ pid) v")
  obtain y m2 where c: "missing_secrets su now pid ks v1 ?m = (y, m2)" by (cases "missing_secrets su now pid ks v1 ?m")
  with Cons.IH [of v1 ?m] have "m2 = ?m\<lparr>mk_vault := mk_vault m2, mk_next := mk_next m2\<rparr>" by simp
  then obtain a b where m2: "m2 = ?m\<lparr>mk_vault := a, mk_next := b\<rparr>" by blast
  show ?case
  proof (cases x)
    case (Inr z)
    with r c m2 show ?thesis by (simp add: mk_fresh_def)
  next
    case (Inl z)
    with r c m2 show ?thesis by (cases y) (simp_all add: mk_fresh_def)
  qed
qed

lemma missing_secrets_same:
  assumes "missing_secrets su now pid ks v m = (x, m')"
  shows "mk_heap m' = mk_heap m" "mk_installed m' = mk_installed m" "mk_guard m' = mk_guard m" "mk_sink m' = mk_sink m"
    "mk_store m' = mk_store m" "mk_available m' = mk_available m"
proof -
  have "m' = m\<lparr>mk_vault := mk_vault m', mk_next := mk_next m'\<rparr>" using missing_secrets_frame [of su now pid ks v m] assms by simp
  then obtain a b where "m' = m\<lparr>mk_vault := a, mk_next := b\<rparr>" by blast
  then show "mk_heap m' = mk_heap m" "mk_installed m' = mk_installed m" "mk_guard m' = mk_guard m" "mk_sink m' = mk_sink m"
    "mk_store m' = mk_store m" "mk_available m' = mk_available m" by simp_all
qed

lemma validate_ok:
  "fst (validate_package su p m) \<longleftrightarrow>
     bad_actions p = [] \<and> (\<forall>c. pk_checksum p = Some c \<longrightarrow> c = [] \<or> su_sha256 su (pk_entrypoint p) = c) \<and> set (pk_dependencies p) \<subseteq> set (known_packages m)"
  by (auto simp: validate_package_def Let_def filter_empty_conv split: option.splits)

lemma install_done_effect:
  assumes "r < length (mk_heap m)"
  shows "mk_heap (install_done su now r b m) = (mk_heap m)[r := (mk_heap m ! r)\<lparr>pk_status := INSTALLED, pk_installed_at := Some now\<rparr>]"
    and "dget (mk_installed (install_done su now r b m)) (pk_id (mk_heap m ! r)) = Some r"
    and "mk_guard m = Some gd \<Longrightarrow> pk_policy (mk_heap m ! r) = Some sp \<Longrightarrow>
      \<exists>gd'. mk_guard (install_done su now r b m) = Some gd' \<and> dget (get_policies gd') (pk_id (mk_heap m ! r)) = Some sp"
  by (simp_all add: install_done_def Let_def register_policy_def get_policies_def g_emit_def split: option.splits)

lemma install_failed_effect:
  assumes "r < length (mk_heap m)"
  shows "mk_heap (install_failed r reason m) = (mk_heap m)[r := (mk_heap m ! r)\<lparr>pk_status := FAILED\<rparr>]"
    and "mk_installed (install_failed r reason m) = mk_installed m" and "mk_guard (install_failed r reason m) = mk_guard m"
    and "mk_sink (install_failed r reason m) = emit (MpEv (PluginInstallFailed (pk_id (mk_heap m ! r)) (pk_name (mk_heap m ! r)) reason)) (mk_sink m)"
  using assms by (simp_all add: install_failed_def Let_def)

lemma install_failed_frame:
  "install_failed r reason m = m\<lparr>mk_heap := (mk_heap m)[r := (mk_heap m ! r)\<lparr>pk_status := FAILED\<rparr>],
     mk_store := map_option (put_package ((mk_heap m)[r := (mk_heap m ! r)\<lparr>pk_status := FAILED\<rparr>]) r) (mk_store m),
     mk_sink := emit (MpEv (PluginInstallFailed (pk_id (mk_heap m ! r)) (pk_name (mk_heap m ! r)) reason)) (mk_sink m)\<rparr>"
  if "r < length (mk_heap m)"
  using that by (simp add: install_failed_def mk_save_def mk_emit_def set_pk_status_def Let_def)

section \<open>Properties\<close>

text \<open>
  C27: A package is installed only if every action its policy asks for is on the allow-list, its
  checksum, if it has one, is the digest of its entry point, its dependencies are known, and (with a
  vault) all the secrets it requires could be resolved; its policy is then registered with the
  guard. Otherwise it is marked as failed, the failure is announced, a store gets the failed package,
  and nothing else of the marketplace changes but for what resolving secrets does to the vault, which
  is not touched if it is the validation that fails.\<close>

theorem installed_only_when_valid:
  assumes "r < length (mk_heap m)" and "p = mk_heap m ! r" and "install su now r m = (Inr r', m')"
  shows "r' = r \<and>
    (pk_status (mk_heap m' ! r) = INSTALLED \<and> dget (mk_installed m') (pk_id p) = Some r \<and>
       bad_actions p = [] \<and> (\<forall>c. pk_checksum p = Some c \<longrightarrow> c = [] \<or> su_sha256 su (pk_entrypoint p) = c) \<and>
       set (pk_dependencies p) \<subseteq> set (known_packages m) \<and>
       (\<forall>v. pk_required_secrets p \<noteq> [] \<longrightarrow> mk_vault m = Some v \<longrightarrow> fst (missing_secrets su now (pk_id p) (pk_required_secrets p) v m) = Inr []) \<and>
       (\<forall>gd sp. mk_guard m = Some gd \<longrightarrow> pk_policy p = Some sp \<longrightarrow>
          (\<exists>gd'. mk_guard m' = Some gd' \<and> dget (get_policies gd') (pk_id p) = Some sp))
     \<or> pk_status (mk_heap m' ! r) = FAILED \<and> mk_installed m' = mk_installed m \<and> mk_guard m' = mk_guard m \<and>
       (\<exists>reason vault nxt. m' = m\<lparr>mk_heap := (mk_heap m)[r := p\<lparr>pk_status := FAILED\<rparr>],
            mk_store := map_option (put_package ((mk_heap m)[r := p\<lparr>pk_status := FAILED\<rparr>]) r) (mk_store m),
            mk_sink := emit (MpEv (PluginInstallFailed (pk_id p) (pk_name p) reason)) (mk_sink m), mk_vault := vault, mk_next := nxt\<rparr> \<and>
          (fst (validate_package su p m) \<or> vault = mk_vault m \<and> nxt = mk_next m)))"
proof -
  obtain ok reason where val: "validate_package su p m = (ok, reason)" by (cases "validate_package su p m")
  show ?thesis
  proof (cases ok)
    case False
    with assms val have "r' = r" "m' = install_failed r reason m" by (auto simp: install_def)
    moreover have "m' = m\<lparr>mk_heap := (mk_heap m)[r := p\<lparr>pk_status := FAILED\<rparr>],
        mk_store := map_option (put_package ((mk_heap m)[r := p\<lparr>pk_status := FAILED\<rparr>]) r) (mk_store m),
        mk_sink := emit (MpEv (PluginInstallFailed (pk_id p) (pk_name p) reason)) (mk_sink m), mk_vault := mk_vault m, mk_next := mk_next m\<rparr>"
      using install_failed_frame [OF assms(1), of reason] calculation(2) assms(2) by simp
    moreover have "pk_status (mk_heap m' ! r) = FAILED \<and> mk_installed m' = mk_installed m \<and> mk_guard m' = mk_guard m"
      using install_failed_effect [OF assms(1), of reason] assms(1) calculation(2) by simp
    ultimately show ?thesis by blast
  next
    case True
    with val have valid: "fst (validate_package su p m)" by simp
    note conds = valid [unfolded validate_ok]
    show ?thesis
    proof (cases "pk_required_secrets p = [] \<or> mk_vault m = None")
      case True
      with assms(2,3) val \<open>ok\<close> have "r' = r" "m' = install_done su now r False m" by (auto simp: install_def Let_def split: if_splits)
      with True install_done_effect [OF assms(1), where su = su and now = now and b = False] assms(1,2) conds show ?thesis by auto
    next
      case False
      then obtain v where v: "mk_vault m = Some v" "pk_required_secrets p \<noteq> []" by auto
      obtain y m1 where ms: "missing_secrets su now (pk_id p) (pk_required_secrets p) v m = (y, m1)"
        by (cases "missing_secrets su now (pk_id p) (pk_required_secrets p) v m")
      have i: "install su now r m = (case y of Inl x \<Rightarrow> (Inl x, m1)
          | Inr miss \<Rightarrow> if miss \<noteq> [] then (Inr r, install_failed r (''missing_required_secrets: '' @ repr_list miss) m1) else (Inr r, install_done su now r True m1))"
        using v val \<open>ok\<close> ms assms(2) by (simp add: install_def split: sum.split)
      then obtain x where y: "y = Inr x" using assms(3) by (cases y) auto
      note same = missing_secrets_same [OF ms]
      have r1: "r < length (mk_heap m1)" using assms(1) same by simp
      show ?thesis
      proof (cases "x = []")
        case True
        with i y assms(3) have "r' = r" "m' = install_done su now r True m1" by simp_all
        with True v ms y install_done_effect [OF r1, where su = su and now = now and b = True] same assms(1,2) conds show ?thesis by auto
      next
        case False
        with i y assms(3) have "r' = r" "m' = install_failed r (''missing_required_secrets: '' @ repr_list x) m1" by simp_all
        moreover obtain vault nxt where "m1 = m\<lparr>mk_vault := vault, mk_next := nxt\<rparr>"
          using missing_secrets_frame [of su now "pk_id p" "pk_required_secrets p" v m] ms by auto
        then have "m' = m\<lparr>mk_heap := (mk_heap m)[r := p\<lparr>pk_status := FAILED\<rparr>],
            mk_store := map_option (put_package ((mk_heap m)[r := p\<lparr>pk_status := FAILED\<rparr>]) r) (mk_store m),
            mk_sink := emit (MpEv (PluginInstallFailed (pk_id p) (pk_name p) (''missing_required_secrets: '' @ repr_list x))) (mk_sink m),
            mk_vault := vault, mk_next := nxt\<rparr>"
          using install_failed_frame [OF r1, of "''missing_required_secrets: '' @ repr_list x"] calculation(2) assms(2) by simp
        moreover have "pk_status (mk_heap m' ! r) = FAILED \<and> mk_installed m' = mk_installed m \<and> mk_guard m' = mk_guard m"
          using install_failed_effect [OF r1, of "''missing_required_secrets: '' @ repr_list x"] r1 same calculation(2) by simp
        ultimately show ?thesis using valid by blast
      qed
    qed
  qed
qed

definition demo_package :: "string \<Rightarrow> string list \<Rightarrow> plugin_package" where
  "demo_package i deps = (stub_package 0 i)\<lparr>pk_dependencies := deps\<rparr>"

definition demo_surroundings :: "nat surroundings" where
  "demo_surroundings = \<lparr>su_fetch = (\<lambda>u. Inr (PList [])), su_sha256 = id, su_float = (\<lambda>v. Inr 0), su_int = (\<lambda>v. Inr 0), su_fstr = (\<lambda>q. []), su_iso = (\<lambda>t. []),
     su_uid = (\<lambda>n. []), su_wire = demo_wire (\<lambda>n. Inr PNone)\<rparr>"

definition demo_market :: "plugin_package list \<Rightarrow> market_store option \<Rightarrow> (nat, unit) market" where
  "demo_market heap st = \<lparr>mk_sink = wired, mk_heap = heap, mk_store = st, mk_http = False, mk_guard = None, mk_vault = None, mk_mcp = None,
     mk_installed = [], mk_catalog = [], mk_available = map (\<lambda>(p, r). (pk_id p, r)) (zip heap [0..<length heap]), mk_mcp_packages = [], mk_next = 0\<rparr>"

theorem installed_only_when_valid_witness:
  "\<exists>m'. install demo_surroundings 1 0 (demo_market [demo_package ''p'' []] None) = (Inr 0, m') \<and>
     (pk_status (mk_heap m' ! 0) = INSTALLED \<or> pk_status (mk_heap m' ! 0) = FAILED)"
proof -
  let ?m = "demo_market [demo_package ''p'' []] None"
  have l: "0 < length (mk_heap ?m)" by (simp add: demo_market_def)
  obtain m' where i: "install demo_surroundings 1 0 ?m = (Inr 0, m')"
    by (simp add: install_def validate_package_def bad_actions_def demo_package_def stub_package_def demo_market_def Let_def)
  from installed_only_when_valid [OF l refl i] i show ?thesis by blast
qed

text \<open>
  In a marketplace without a store a package that was uninstalled still looks installed:
  \<open>uninstall\<close> reports success and drops it from the installed packages, but the object in the
  catalog is the one that was installed, and \<open>get_package\<close> and \<open>list_available\<close> return it with
  the status INSTALLED.\<close>

theorem uninstalled_looks_installed:
  assumes "mk_store m = None" and "dget (mk_available m) i = Some r" and "r < length (mk_heap m)" and "pk_id (mk_heap m ! r) = i"
    and "fst (validate_package su (mk_heap m ! r) m)" and "pk_required_secrets (mk_heap m ! r) = []"
  shows "case uninstall i (snd (install su now r m)) of (ok, m') \<Rightarrow>
     ok \<and> dget (mk_installed m') i = None \<and> get_package i m' = Some r \<and> pk_status (mk_heap m' ! r) = INSTALLED \<and> mk_heap m' ! r \<in> set (list_available now m')"
proof -
  obtain reason where v: "validate_package su (mk_heap m ! r) m = (True, reason)" using assms(5) by (cases "validate_package su (mk_heap m ! r) m") auto
  let ?m = "install_done su now r False m"
  have m1: "snd (install su now r m) = ?m" using v assms(6) by (simp add: install_def)
  have st: "mk_store ?m = None" "mk_available ?m = mk_available m" using assms(1) by (simp_all add: install_done_def Let_def split: option.splits)
  have in1: "dget (mk_installed ?m) i = Some r" and h: "pk_status (mk_heap ?m ! r) = INSTALLED"
    using install_done_effect [OF assms(3), where su = su and now = now and b = False] assms(3,4) by simp_all
  have "(i, r) \<in> set (mk_available m)" using assms(2) by (rule dget_Some_in)
  then have "mk_heap ?m ! r \<in> (\<lambda>x. mk_heap ?m ! snd x) ` set (mk_available m)" by (intro image_eqI [of _ _ "(i, r)"]) simp_all
  then show ?thesis using st in1 h assms(2) unfolding m1
    by (simp add: uninstall_def get_package_def list_available_def Let_def)
qed

theorem uninstalled_looks_installed_witness:
  "case uninstall ''p'' (snd (install demo_surroundings 1 0 (demo_market [demo_package ''p'' []] None))) of
     (ok, m') \<Rightarrow> ok \<and> get_package ''p'' m' = Some 0 \<and> pk_status (mk_heap m' ! 0) = INSTALLED"
proof -
  let ?m = "demo_market [demo_package ''p'' []] None"
  have "mk_store ?m = None" "dget (mk_available ?m) ''p'' = Some 0" "0 < length (mk_heap ?m)" "pk_id (mk_heap ?m ! 0) = ''p''"
    "fst (validate_package demo_surroundings (mk_heap ?m ! 0) ?m)" "pk_required_secrets (mk_heap ?m ! 0) = []"
    by (simp_all add: demo_market_def demo_package_def stub_package_def validate_package_def bad_actions_def Let_def)
  from uninstalled_looks_installed [OF this, of 1] show ?thesis by (auto simp: case_prod_beta)
qed

text \<open>
  With a store a dependency whose own installation failed counts as satisfied: validation looks
  at all packages the store knows, whatever their status.\<close>

theorem failed_dependency_satisfies:
  assumes "mk_store m = Some st" and "dget (mks_packages st) d = Some r" and "pk_id (mk_heap m ! r) = d" and "pk_status (mk_heap m ! r) = FAILED"
    and "pk_dependencies p = [d]" and "pk_policy p = None" and "pk_checksum p = None"
  shows "validate_package su p m = (True, []) \<and> get_package d m = Some r \<and> pk_status (mk_heap m ! r) \<noteq> INSTALLED"
proof -
  have "(d, r) \<in> set (mks_packages st)" using assms(2) by (rule dget_Some_in)
  then have "r \<in> set (dvals (mks_packages st))" by force
  then have "mk_heap m ! r \<in> set (list_packages (mk_heap m) None st)" by (auto simp: list_packages_def)
  then have "d \<in> set (known_packages m)" using assms(1,3) by (force simp: known_packages_def)
  with assms(4-7) assms(1,2) show ?thesis by (simp add: validate_package_def bad_actions_def get_package_def)
qed

theorem failed_dependency_satisfies_witness:
  "validate_package demo_surroundings (demo_package ''q'' [''p''])
     (demo_market [(demo_package ''p'' [])\<lparr>pk_status := FAILED\<rparr>] (Some \<lparr>mks_packages = [(''p'', 0)], mks_catalog = [], mks_nodes = [], mks_db = None\<rparr>)) = (True, [])"
  using failed_dependency_satisfies [of "demo_market [(demo_package ''p'' [])\<lparr>pk_status := FAILED\<rparr>] (Some \<lparr>mks_packages = [(''p'', 0)], mks_catalog = [], mks_nodes = [], mks_db = None\<rparr>)"
      "\<lparr>mks_packages = [(''p'', 0)], mks_catalog = [], mks_nodes = [], mks_db = None\<rparr>" "''p''" 0 "demo_package ''q'' [''p'']" demo_surroundings]
  by (simp add: demo_market_def demo_package_def stub_package_def)

end
