(* ===== verification/Agent.thy ===== *)
theory Agent
  imports Interpolation Wrappers Health Swarm Knowledge Observability Marketplace
begin

text \<open>
  The agent runtime: \<open>BaseAgent\<close> and \<open>AgentRuntime\<close> of \<open>kernel/agent.py\<close>.

  \<^item> An agent is an object of a type \<open>'a\<close> of its own; what its methods do, and the clocks, the printing
    and the ids, are a record \<open>agents\<close> of parameters. \<open>rt_env\<close> is the world the agents and the MCP
    servers act on.
  \<^item> The optional collaborators are the components of the other theories with their state. The guard
    and the vault of the marketplace are those of the runtime if \<open>rt_shared\<close>, and its own otherwise.
  \<^item> The caller's task is changed in place, so the operations return it.
  \<^item> The probe that \<open>start\<close> hands to the health monitor is given by the id of the agent.
\<close>

section \<open>Data\<close>

record agent_task =
  at_task :: swarm_task
  at_metadata :: pydict
  at_parameters :: "pyval option"

record ('a, 'w) agents =
  ag_start :: "'a \<Rightarrow> 'w \<Rightarrow> (string, 'w) res"
  ag_stop :: "'a \<Rightarrow> string \<Rightarrow> 'w \<Rightarrow> (bool, 'w) res"
  ag_execute :: "'a \<Rightarrow> string \<Rightarrow> agent_task \<Rightarrow> 'w \<Rightarrow> (artifact, 'w) res"
  ag_status :: "'a \<Rightarrow> string \<Rightarrow> 'w \<Rightarrow> (pydict, 'w) res"
  ag_name :: "'a \<Rightarrow> string"
  ag_class :: "'a \<Rightarrow> string"
  ag_capabilities :: "'a \<Rightarrow> string list"
  ag_now :: "'w \<Rightarrow> datetime"
  ag_mono :: "'w \<Rightarrow> seconds"
  ag_sleep :: "rat \<Rightarrow> 'w \<Rightarrow> (unit, 'w) res"
  ag_rss_mb :: "('w \<Rightarrow> rat) option"
  ag_open_max :: "int option"
  ag_policy_str :: "pydict \<Rightarrow> string"
  ag_uid :: "nat \<Rightarrow> string"
  ag_float :: "pyval \<Rightarrow> exn + rat"
  ag_str :: "pyval \<Rightarrow> string"
  ag_around :: "'w surroundings"

record ('a, 'w, 'e) runtime =
  rt_sink :: sink
  rt_agents :: "(string, 'a) dict"
  rt_sandbox :: "sandbox option"
  rt_health :: "string monitor option"
  rt_swarm :: "coordinator option"
  rt_kg :: "kengine option"
  rt_mp :: "('w, 'e) market option"
  rt_obs :: "obs_engine option"
  rt_guard :: "guard option"
  rt_mcp :: "('w, 'e) gateway option"
  rt_vault :: "'e vault option"
  rt_res :: "resilience option"
  rt_shared :: bool
  rt_swarm_ids :: "(string, string) dict"
  rt_graphs :: "(string, string) dict"
  rt_next :: nat
  rt_env :: 'w

definition isostr :: "('a, 'w) agents \<Rightarrow> datetime \<Rightarrow> string" where
  "isostr a = su_iso (ag_around a)"

definition rt_now :: "('a, 'w) agents \<Rightarrow> ('a, 'w, 'e) runtime \<Rightarrow> datetime" where
  "rt_now a w = ag_now a (rt_env w)"

definition rt_fresh :: "('a, 'w) agents \<Rightarrow> ('a, 'w, 'e) runtime \<Rightarrow> string \<times> ('a, 'w, 'e) runtime" where
  "rt_fresh a w = (ag_uid a (rt_next w), w\<lparr>rt_next := rt_next w + 1\<rparr>)"

definition rt_publish :: "string \<Rightarrow> string \<Rightarrow> pydict \<Rightarrow> ('a, 'w, 'e) runtime \<Rightarrow> ('a, 'w, 'e) runtime" where
  "rt_publish ty agent_id payload w = w\<lparr>rt_sink := emit (RawEv \<lparr>ev_type = ty, ev_aggregate = agent_id, ev_payload = payload\<rparr>) (rt_sink w)\<rparr>"

text \<open>A method of an agent, run on the world.\<close>

definition on_world :: "('w \<Rightarrow> ('v, 'w) res) \<Rightarrow> ('a, 'w, 'e) runtime \<Rightarrow> ('v, ('a, 'w, 'e) runtime) res" where
  "on_world f w = (case f (rt_env w) of (r, e) \<Rightarrow> (r, w\<lparr>rt_env := e\<rparr>))"

text \<open>Calls of the observability engine, which do nothing when it is not wired.\<close>

definition rt_log :: "('a, 'w) agents \<Rightarrow> string \<Rightarrow> string \<Rightarrow> string \<Rightarrow> pydict \<Rightarrow> ('a, 'w, 'e) runtime \<Rightarrow> ('a, 'w, 'e) runtime" where
  "rt_log a level message corr ctx w =
     (case rt_obs w of
        None \<Rightarrow> w
      | Some ob \<Rightarrow> (let (i, w1) = rt_fresh a w in w1\<lparr>rt_obs := Some (snd (log_at i (rt_now a w) level message (Some corr) (Some ctx) ob))\<rparr>))"

definition rt_metric :: "('a, 'w) agents \<Rightarrow> string \<Rightarrow> (string, string) dict \<Rightarrow> ('a, 'w, 'e) runtime \<Rightarrow> ('a, 'w, 'e) runtime" where
  "rt_metric a name labels w =
     (case rt_obs w of
        None \<Rightarrow> w
      | Some ob \<Rightarrow> (let (i, w1) = rt_fresh a w in w1\<lparr>rt_obs := Some (snd (record_metric i (rt_now a w) name 1 (Some labels) COUNTER ob))\<rparr>))"

definition rt_span :: "('a, 'w) agents \<Rightarrow> string \<Rightarrow> ('a, 'w, 'e) runtime \<Rightarrow> string option \<times> ('a, 'w, 'e) runtime" where
  "rt_span a corr w =
     (case rt_obs w of
        None \<Rightarrow> (None, w)
      | Some ob \<Rightarrow>
          (let (i, w1) = rt_fresh a w; (sid, ob1) = start_span i (rt_now a w) corr ''agent.execute'' None (Some corr) ob in (Some sid, w1\<lparr>rt_obs := Some ob1\<rparr>)))"

definition rt_finish :: "('a, 'w) agents \<Rightarrow> string option \<Rightarrow> ('a, 'w, 'e) runtime \<Rightarrow> ('a, 'w, 'e) runtime" where
  "rt_finish a sp w =
     (case sp of None \<Rightarrow> w | Some sid \<Rightarrow> w\<lparr>rt_obs := map_option (\<lambda>ob. snd (finish_span (rt_now a w) sid ''ok'' ob)) (rt_obs w)\<rparr>)"

section \<open>Starting and stopping\<close>

definition agent_check :: health_check where
  "agent_check = \<lparr>hc_interval_seconds = 10, hc_timeout_seconds = 5, hc_failure_threshold = 3, hc_success_threshold = 1, hc_enabled = True\<rparr>"

definition rt_start :: "('a, 'w) agents \<Rightarrow> 'a \<Rightarrow> ('a, 'w, 'e) runtime \<Rightarrow> (string, ('a, 'w, 'e) runtime) res" where
  "rt_start a x w =
     (case on_world (ag_start a x) w of
        (Inl e, w1) \<Rightarrow> (Inl e, w1)
      | (Inr aid, w1) \<Rightarrow>
          (let w2 = w1\<lparr>rt_agents := dset aid x (rt_agents w1), rt_health := map_option (hm_register aid ''agent'' aid agent_check) (rt_health w1)\<rparr>;
               w3 = rt_publish ''agent.started'' aid [(''agent_type'', PStr (ag_class a x))] w2
           in (Inr aid, rt_log a ''info'' (''agent started: '' @ ag_name a x) aid [(''agent_type'', PStr (ag_class a x))] w3)))"

definition rt_status :: "('a, 'w) agents \<Rightarrow> string \<Rightarrow> ('a, 'w, 'e) runtime \<Rightarrow> (pydict, ('a, 'w, 'e) runtime) res" where
  "rt_status a aid w =
     (case dget (rt_agents w) aid of
        None \<Rightarrow> (Inr [(''agent_id'', PStr aid), (''state'', PStr ''offline'')], w)
      | Some x \<Rightarrow> on_world (ag_status a x aid) w)"

definition probe_agent :: "('a, 'w) agents \<Rightarrow> string \<Rightarrow> ('a, 'w, 'e) runtime \<Rightarrow> (bool, ('a, 'w, 'e) runtime) res" where
  "probe_agent a aid w =
     (case rt_status a aid w of
        (Inr d, w1) \<Rightarrow> (Inr (dget d ''state'' = Some (PStr ''running'')), w1)
      | (Inl x, w1) \<Rightarrow> if catches ''Exception'' x then (Inr False, w1) else (Inl x, w1))"

definition rt_stop :: "('a, 'w) agents \<Rightarrow> string \<Rightarrow> ('a, 'w, 'e) runtime \<Rightarrow> (bool, ('a, 'w, 'e) runtime) res" where
  "rt_stop a aid w =
     (case dget (rt_agents w) aid of
        None \<Rightarrow> (Inr False, w)
      | Some x \<Rightarrow>
          (case on_world (ag_stop a x aid) w of
             (Inl e, w1) \<Rightarrow> (Inl e, w1)
           | (Inr ok, w1) \<Rightarrow>
               (Inr ok, rt_publish ''agent.stopped'' aid [(''reason'', PStr ''explicit_stop'')]
                          (w1\<lparr>rt_agents := ddel aid (rt_agents w1), rt_health := map_option (hm_unregister aid) (rt_health w1)\<rparr>))))"

definition rt_get :: "string \<Rightarrow> ('a, 'w, 'e) runtime \<Rightarrow> 'a option" where
  "rt_get aid w = dget (rt_agents w) aid"

definition rt_list :: "('a, 'w, 'e) runtime \<Rightarrow> string list" where
  "rt_list w = dkeys (rt_agents w)"

section \<open>Executing a task\<close>

subsection \<open>The parameters\<close>

definition in_vault :: "('a, 'w) agents \<Rightarrow> string \<Rightarrow> pyval \<Rightarrow> 'e vault \<Rightarrow> ('a, 'w, 'e) runtime \<Rightarrow> (pyval, ('a, 'w, 'e) runtime) res" where
  "in_vault a aid val v w =
     (case interp_value (vault_token (isostr a) (rt_now a w) (ag_uid a) AGENT (Some aid) aid) val (rt_next w, v) of
        (r, (n, v1)) \<Rightarrow> (r, w\<lparr>rt_next := n, rt_vault := Some v1\<rparr>))"

definition interp_parameters :: "('a, 'w) agents \<Rightarrow> string \<Rightarrow> agent_task \<Rightarrow> ('a, 'w, 'e) runtime \<Rightarrow> (unit, agent_task \<times> ('a, 'w, 'e) runtime) res" where
  "interp_parameters a aid t w =
     (case (at_parameters t, rt_vault w) of
        (Some p, Some v) \<Rightarrow>
          (case in_vault a aid p v w of (Inl x, w1) \<Rightarrow> (Inl x, (t, w1)) | (Inr q, w1) \<Rightarrow> (Inr (), (t\<lparr>at_parameters := Some q\<rparr>, w1)))
      | _ \<Rightarrow> (Inr (), (t, w)))"

definition interp_metadata :: "('a, 'w) agents \<Rightarrow> string \<Rightarrow> agent_task \<Rightarrow> ('a, 'w, 'e) runtime \<Rightarrow> (unit, agent_task \<times> ('a, 'w, 'e) runtime) res" where
  "interp_metadata a aid t w =
     (case rt_vault w of
        None \<Rightarrow> (Inr (), (t, w))
      | Some v \<Rightarrow>
          if at_metadata t = [] then (Inr (), (t, w))
          else (case in_vault a aid (PDict (at_metadata t)) v w of
                  (Inl x, w1) \<Rightarrow> (Inl x, (t, w1))
                | (Inr (PDict d), w1) \<Rightarrow> (Inr (), (t\<lparr>at_metadata := d\<rparr>, w1))
                | (Inr _, w1) \<Rightarrow> (Inr (), (t, w1))))"

definition interp_task :: "('a, 'w) agents \<Rightarrow> string \<Rightarrow> agent_task \<Rightarrow> ('a, 'w, 'e) runtime \<Rightarrow> (unit, agent_task \<times> ('a, 'w, 'e) runtime) res" where
  "interp_task a aid t w =
     (case interp_parameters a aid t w of (Inl x, s) \<Rightarrow> (Inl x, s) | (Inr _, (t1, w1)) \<Rightarrow> interp_metadata a aid t1 w1)"

subsection \<open>MCP tools and the swarm\<close>

definition capability_of :: "agent_task \<Rightarrow> string option" where
  "capability_of t = tk_capability (at_task t)"

definition is_mcp_task :: "agent_task \<Rightarrow> bool" where
  "is_mcp_task t \<longleftrightarrow> (case capability_of t of None \<Rightarrow> False | Some c \<Rightarrow> startswith ''mcp:'' c)"

text \<open>\<open>parameters or metadata or {}\<close>, copied with \<open>dict\<close>.\<close>

definition mcp_arguments :: "agent_task \<Rightarrow> exn + pydict" where
  "mcp_arguments t = (case at_parameters t of Some p \<Rightarrow> if truthy p then py_dict p else Inr (at_metadata t) | None \<Rightarrow> Inr (at_metadata t))"

definition execute_mcp :: "('a, 'w) agents \<Rightarrow> agent_task \<Rightarrow> ('w, 'e) gateway \<Rightarrow> ('a, 'w, 'e) runtime \<Rightarrow> (artifact, ('a, 'w, 'e) runtime) res" where
  "execute_mcp a t g w =
     (let cap = or_str (capability_of t) []; body = drop 4 cap;
          target = (case split_once ''::'' body of
                      Some (url, tool) \<Rightarrow> Inr (url, tool)
                    | None \<Rightarrow> (case gw_resolve_capability cap g of
                                 None \<Rightarrow> Inl (KeyError (''no MCP tool resolves capability '' @ quoted cap))
                               | Some x \<Rightarrow> Inr (mt_server_url x, mt_name x)))
      in case target of
           Inl x \<Rightarrow> (Inl x, w)
         | Inr (url, tool) \<Rightarrow>
             (case mcp_arguments t of
                Inl x \<Rightarrow> (Inl x, w)
              | Inr args \<Rightarrow>
                  (case call_tool (su_wire (ag_around a)) url tool args (g\<lparr>gw_env := rt_env w\<rparr>) of
                     (r, g1) \<Rightarrow> (r, w\<lparr>rt_mcp := Some g1, rt_env := gw_env g1\<rparr>))))"

text \<open>
  Delegation to a member of the swarm; \<open>None\<close> means that the task is run here. An id that is not among
  the members after the delegation was made leaves the delegation pending.
\<close>

definition delegate :: "('a, 'w) agents \<Rightarrow> string \<Rightarrow> agent_task \<Rightarrow> ('a, 'w, 'e) runtime \<Rightarrow> (artifact option, agent_task \<times> ('a, 'w, 'e) runtime) res" where
  "delegate a aid t w =
     (case (rt_swarm w, dget (rt_swarm_ids w) aid) of
        (Some c, Some sid) \<Rightarrow>
          (let (did, w0) = rt_fresh a w
           in case delegate_task did sid (at_task t) aid c of
                (Inl x, c1) \<Rightarrow>
                  (let w1 = w0\<lparr>rt_swarm := Some c1\<rparr>
                   in if catches ''KeyError'' x \<or> catches ''ValueError'' x then (Inr None, (t, w1)) else (Inl x, (t, w1)))
              | (Inr (d, tk), c1) \<Rightarrow>
                  (let t1 = t\<lparr>at_task := tk\<rparr>; w1 = w0\<lparr>rt_swarm := Some c1\<rparr>
                   in case Option.bind (get_swarm sid c1) (\<lambda>sw. dget (sw_members sw) (dg_to_agent d)) of
                        None \<Rightarrow> (Inr None, (t1, w1))
                      | Some _ \<Rightarrow>
                          (case complete_delegation (dg_id d) (''delegated from '' @ aid) c1 of
                             (Inl x, c2) \<Rightarrow>
                               (let w2 = w1\<lparr>rt_swarm := Some c2\<rparr>
                                in if catches ''KeyError'' x \<or> catches ''ValueError'' x then (Inr None, (t1, w2)) else (Inl x, (t1, w2)))
                           | (Inr _, c2) \<Rightarrow>
                               (let (i, w2) = rt_fresh a (w1\<lparr>rt_swarm := Some c2\<rparr>)
                                in (Inr (Some (task_artifact i [(''delegated_to'', PStr (dg_to_agent d)), (''task_id'', PStr (tk_id tk))])), (t1, w2))))))
      | _ \<Rightarrow> (Inr None, (t, w)))"

subsection \<open>Running an agent\<close>

text \<open>The guard, the retries and the sandbox around a body that runs on the runtime.\<close>

definition rt_in_guard ::
  "('a, 'w) agents \<Rightarrow> guard \<Rightarrow> string \<Rightarrow> string \<Rightarrow> (('a, 'w, 'e) runtime \<Rightarrow> ('v, ('a, 'w, 'e) runtime) res) \<Rightarrow>
   ('a, 'w, 'e) runtime \<Rightarrow> ('v, ('a, 'w, 'e) runtime) res" where
  "rt_in_guard a g pkg resource body w0 =
     (let (uid, w) = rt_fresh a w0
      in case guard_call (\<lambda>g. rt_now a (guard.more g)) (isostr a) uid
                (\<lambda>g. case body (guard.more g) of (v, w1) \<Rightarrow> (v, guard.extend (guard.truncate g) w1))
                pkg ''execute'' (Some resource) (guard.extend g w) of
           (v, g1) \<Rightarrow> (v, (guard.more g1)\<lparr>rt_guard := Some (guard.truncate g1)\<rparr>))"

definition execute_with_retry ::
  "('a, 'w) agents \<Rightarrow> 'a \<Rightarrow> string \<Rightarrow> agent_task \<Rightarrow> ('a, 'w, 'e) runtime \<Rightarrow> (artifact, ('a, 'w, 'e) runtime) res" where
  "execute_with_retry a x aid t w =
     (case rt_res w of
        None \<Rightarrow> on_world (ag_execute a x aid t) w
      | Some r \<Rightarrow>
          (case retry (\<lambda>s. rt_now a (resilience.more s))
                  (\<lambda>d s. case on_world (ag_sleep a d) (resilience.more s) of (v, w1) \<Rightarrow> (v, resilience.extend (resilience.truncate s) w1)) []
                  (\<lambda>s. case on_world (ag_execute a x aid t) (resilience.more s) of (v, w1) \<Rightarrow> (v, resilience.extend (resilience.truncate s) w1))
                  None (Some (aid @ '':'' @ tk_id (at_task t))) (resilience.extend r w) of
             (v, s) \<Rightarrow> (v, (resilience.more s)\<lparr>rt_res := Some (resilience.truncate s)\<rparr>)))"

definition rt_in_sandbox ::
  "('a, 'w) agents \<Rightarrow> sandbox \<Rightarrow> exec_policy \<Rightarrow> (('a, 'w, 'e) runtime \<Rightarrow> (unit, ('a, 'w, 'e) runtime) res) \<Rightarrow> (string, string) dict \<Rightarrow>
   (('a, 'w, 'e) runtime \<Rightarrow> ('v, ('a, 'w, 'e) runtime) res) \<Rightarrow> ('a, 'w, 'e) runtime \<Rightarrow> ('v, ('a, 'w, 'e) runtime) res" where
  "rt_in_sandbox a sb p cleanup ctx body w =
     (case sandbox_run
             \<lparr>pr_mono = (\<lambda>s. ag_mono a (rt_env (sandbox.more s))),
              pr_rss_mb = map_option (\<lambda>rss s. rss (rt_env (sandbox.more s))) (ag_rss_mb a), pr_open_max = ag_open_max a\<rparr>
             (ag_policy_str a)
             (\<lambda>s. case body (sandbox.more s) of (v, w1) \<Rightarrow> (v, sandbox.extend (sandbox.truncate s) w1)) p
             (Some (\<lambda>s. case cleanup (sandbox.more s) of (v, w1) \<Rightarrow> (v, sandbox.extend (sandbox.truncate s) w1))) ctx
             (sandbox.extend sb w) of
        (v, s) \<Rightarrow> (v, (sandbox.more s)\<lparr>rt_sandbox := Some (sandbox.truncate s)\<rparr>))"

definition stop_quietly :: "('a, 'w) agents \<Rightarrow> 'a \<Rightarrow> string \<Rightarrow> ('a, 'w, 'e) runtime \<Rightarrow> (unit, ('a, 'w, 'e) runtime) res" where
  "stop_quietly a x aid w = (case on_world (ag_stop a x aid) w of (Inl e, w1) \<Rightarrow> (Inl e, w1) | (Inr _, w1) \<Rightarrow> (Inr (), w1))"

definition provides :: "string \<Rightarrow> plugin_package \<Rightarrow> bool" where
  "provides cap p \<longleftrightarrow> (\<exists>c \<in> set (pk_capabilities p). c = cap \<or> startswith (c @ ''.'') cap)"

definition capability_package_id :: "string \<Rightarrow> ('a, 'w, 'e) runtime \<Rightarrow> string option" where
  "capability_package_id cap w =
     (case rt_mp w of None \<Rightarrow> None | Some m \<Rightarrow> map_option pk_id (find (provides cap) (list_installed m)))"

text \<open>The guard and the package of a guarded call.\<close>

definition guarded_by :: "agent_task \<Rightarrow> ('a, 'w, 'e) runtime \<Rightarrow> (guard \<times> string \<times> string) option" where
  "guarded_by t w =
     (case (rt_guard w, capability_of t) of
        (Some g, Some cap) \<Rightarrow> if cap = [] then None else map_option (\<lambda>pkg. (g, pkg, cap)) (capability_package_id cap w)
      | _ \<Rightarrow> None)"

definition run_agent ::
  "('a, 'w) agents \<Rightarrow> 'a \<Rightarrow> string \<Rightarrow> agent_task \<Rightarrow> exec_policy option \<Rightarrow> ('a, 'w, 'e) runtime \<Rightarrow> (artifact, ('a, 'w, 'e) runtime) res" where
  "run_agent a x aid t policy w =
     (case guarded_by t w of
        Some (g, pkg, cap) \<Rightarrow> rt_in_guard a g pkg (''capability:'' @ cap) (on_world (ag_execute a x aid t)) w
      | None \<Rightarrow>
          (case rt_sandbox w of
             None \<Rightarrow> execute_with_retry a x aid t w
           | Some sb \<Rightarrow>
               rt_in_sandbox a sb (case policy of None \<Rightarrow> default_exec_policy | Some p \<Rightarrow> p) (stop_quietly a x aid)
                 [(''agent_id'', aid), (''task_id'', tk_id (at_task t))] (execute_with_retry a x aid t) w))"

definition run_local ::
  "('a, 'w) agents \<Rightarrow> 'a \<Rightarrow> string \<Rightarrow> agent_task \<Rightarrow> string \<Rightarrow> exec_policy option \<Rightarrow> ('a, 'w, 'e) runtime \<Rightarrow> (artifact, ('a, 'w, 'e) runtime) res" where
  "run_local a x aid t corr policy w =
     (let (sp, w1) = rt_span a corr w;
          w2 = rt_log a ''debug'' (''agent execute: '' @ aid @ '' cap='' @ (case capability_of t of None \<Rightarrow> ''None'' | Some c \<Rightarrow> c)) corr
                 [(''capability'', POptStr (capability_of t))] w1
      in case run_agent a x aid t policy w2 of
           (Inr v, w3) \<Rightarrow>
             (Inr v, rt_finish a sp (rt_metric a ''agent.executions'' [(''agent_id'', aid), (''capability'', or_str (capability_of t) [])] w3))
         | (Inl e, w3) \<Rightarrow>
             (Inl e, rt_finish a sp
                       (if catches ''Exception'' e then rt_log a ''error'' (''agent execution failed: '' @ exn_msg e) corr [(''agent_id'', PStr aid)] w3 else w3)))"

definition wants_swarm :: "('a, 'w) agents \<Rightarrow> 'a \<Rightarrow> agent_task \<Rightarrow> ('a, 'w, 'e) runtime \<Rightarrow> bool" where
  "wants_swarm a x t w \<longleftrightarrow> rt_swarm w \<noteq> None \<and> (case capability_of t of None \<Rightarrow> False | Some c \<Rightarrow> c \<notin> set (ag_capabilities a x))"

definition rt_execute ::
  "('a, 'w) agents \<Rightarrow> string \<Rightarrow> agent_task \<Rightarrow> string option \<Rightarrow> exec_policy option \<Rightarrow> ('a, 'w, 'e) runtime \<Rightarrow> (artifact, agent_task \<times> ('a, 'w, 'e) runtime) res" where
  "rt_execute a aid t workflow_id policy w =
     (let t0 = (case workflow_id of None \<Rightarrow> t | Some f \<Rightarrow> t\<lparr>at_task := (at_task t)\<lparr>tk_workflow_id := Some f\<rparr>\<rparr>)
      in case dget (rt_agents w) aid of
           None \<Rightarrow> (Inl (KeyError (''agent '' @ quoted aid @ '' is not running'')), (t0, w))
         | Some x \<Rightarrow>
             (case interp_task a aid t0 w of
                (Inl e, s) \<Rightarrow> (Inl e, s)
              | (Inr _, (t1, w1)) \<Rightarrow>
                  if is_mcp_task t1 then
                    (case rt_mcp w1 of
                       None \<Rightarrow> (Inl (RuntimeError ''MCP gateway not wired''), (t1, w1))
                     | Some g \<Rightarrow> (case execute_mcp a t1 g w1 of (r, w2) \<Rightarrow> (r, (t1, w2))))
                  else
                    (case (if wants_swarm a x t1 w1 then delegate a aid t1 w1 else (Inr None, (t1, w1))) of
                       (Inl e, s) \<Rightarrow> (Inl e, s)
                     | (Inr (Some v), s) \<Rightarrow> (Inr v, s)
                     | (Inr None, (t2, w2)) \<Rightarrow> (case run_local a x aid t2 (or_str workflow_id aid) policy w2 of (r, w3) \<Rightarrow> (r, (t2, w3))))))"

section \<open>Collaborators\<close>

definition rt_circuit_status :: "('a, 'w) agents \<Rightarrow> string \<Rightarrow> ('a, 'w, 'e) runtime \<Rightarrow> (circuit_state, ('a, 'w, 'e) runtime) res" where
  "rt_circuit_status a name w =
     (case rt_res w of
        None \<Rightarrow> (Inl (RuntimeError ''AgentRuntime has no ResilienceEngine wired''), w)
      | Some r \<Rightarrow> (case get_circuit_status (\<lambda>s. rt_now a w) name r of (v, r1) \<Rightarrow> (v, w\<lparr>rt_res := Some r1\<rparr>)))"

definition list_mcp_tools :: "('a, 'w) agents \<Rightarrow> string option \<Rightarrow> ('a, 'w, 'e) runtime \<Rightarrow> (mcp_tool list, ('a, 'w, 'e) runtime) res" where
  "list_mcp_tools a url w =
     (case rt_mcp w of
        None \<Rightarrow> (Inr [], w)
      | Some g \<Rightarrow>
          (case url of
             None \<Rightarrow> (Inr (discover_local_tools g), w)
           | Some u \<Rightarrow> (case gw_list_tools (su_wire (ag_around a)) u (g\<lparr>gw_env := rt_env w\<rparr>) of (r, g1) \<Rightarrow> (r, w\<lparr>rt_mcp := Some g1, rt_env := gw_env g1\<rparr>))))"

definition rt_get_config :: "string \<Rightarrow> string \<Rightarrow> string option \<Rightarrow> ('a, 'w, 'e) runtime \<Rightarrow> string option \<times> ('a, 'w, 'e) runtime" where
  "rt_get_config aid key deflt w =
     (case rt_vault w of None \<Rightarrow> (deflt, w) | Some v \<Rightarrow> (case cv_get key AGENT (Some aid) deflt v of (r, v1) \<Rightarrow> (r, w\<lparr>rt_vault := Some v1\<rparr>)))"

definition rt_resolve_secret :: "('a, 'w) agents \<Rightarrow> string \<Rightarrow> string \<Rightarrow> ('a, 'w, 'e) runtime \<Rightarrow> (string, ('a, 'w, 'e) runtime) res" where
  "rt_resolve_secret a aid key w =
     (case rt_vault w of
        None \<Rightarrow> (Inl (RuntimeError ''AgentRuntime has no ConfigVault wired''), w)
      | Some v \<Rightarrow>
          (let (u, w1) = rt_fresh a w
           in case resolve_secret (isostr a) (rt_now a w) u key AGENT (Some aid) aid v of (r, v1) \<Rightarrow> (r, w1\<lparr>rt_vault := Some v1\<rparr>)))"

definition rt_join_swarm :: "('a, 'w) agents \<Rightarrow> string \<Rightarrow> string \<Rightarrow> string \<Rightarrow> ('a, 'w, 'e) runtime \<Rightarrow> (unit, ('a, 'w, 'e) runtime) res" where
  "rt_join_swarm a aid sid role w =
     (case rt_swarm w of
        None \<Rightarrow> (Inl (RuntimeError ''no swarm_coordinator configured''), w)
      | Some c \<Rightarrow>
          (case dget (rt_agents w) aid of
             None \<Rightarrow> (Inl (KeyError (''agent '' @ quoted aid @ '' is not running'')), w)
           | Some x \<Rightarrow>
               (Inr (), w\<lparr>rt_swarm := Some (snd (join_swarm (rt_now a w) (ag_mono a (rt_env w)) sid aid (''node-'' @ aid) role (ag_capabilities a x) c)),
                          rt_swarm_ids := dset aid sid (rt_swarm_ids w)\<rparr>)))"

definition rt_leave_swarm :: "('a, 'w) agents \<Rightarrow> string \<Rightarrow> string \<Rightarrow> ('a, 'w, 'e) runtime \<Rightarrow> (unit, ('a, 'w, 'e) runtime) res" where
  "rt_leave_swarm a aid reason w =
     (case rt_swarm w of
        None \<Rightarrow> (Inl (RuntimeError ''no swarm_coordinator configured''), w)
      | Some c \<Rightarrow>
          (case dget (rt_swarm_ids w) aid of
             None \<Rightarrow> (Inr (), w)
           | Some sid \<Rightarrow> (Inr (), w\<lparr>rt_swarm := Some (leave_swarm (rt_now a w) sid aid reason c), rt_swarm_ids := ddel aid (rt_swarm_ids w)\<rparr>)))"

definition rt_get_health :: "('a, 'w) agents \<Rightarrow> ('a, 'w, 'e) runtime \<Rightarrow> health_snapshot option" where
  "rt_get_health a w = map_option (get_health_snapshot (rt_now a w)) (rt_obs w)"

section \<open>Semantic memory\<close>

definition str_of :: "('a, 'w) agents \<Rightarrow> pyval \<Rightarrow> string" where
  "str_of a v = (case v of PStr s \<Rightarrow> s | _ \<Rightarrow> ag_str a v)"

definition entity_type_of :: "pyval \<Rightarrow> exn + entity_type" where
  "entity_type_of v =
     (case v of
        PStr s \<Rightarrow> (case find (\<lambda>t. entity_type_value t = s) [PERSON, ORG, CONCEPT, EVENT, DOCUMENT, CUSTOM] of
                     Some t \<Rightarrow> Inr t | None \<Rightarrow> Inl (ValueError (quoted s @ '' is not a valid EntityType'')))
      | _ \<Rightarrow> Inl (ValueError ''not a valid EntityType''))"

definition rel_type_of :: "pyval \<Rightarrow> exn + relation_type" where
  "rel_type_of v = (case v of PStr s \<Rightarrow> relation_type_of s | _ \<Rightarrow> Inl (ValueError ''not a valid RelationType''))"

definition fact_entity :: "('a, 'w) agents \<Rightarrow> string \<Rightarrow> pydict \<Rightarrow> exn + entity" where
  "fact_entity a eid fct =
     (case dget fct ''name'' of
        None \<Rightarrow> Inl (KeyError ''name'')
      | Some name \<Rightarrow>
          (case entity_type_of (dget_or fct ''type'' (PStr ''custom'')) of
             Inl x \<Rightarrow> Inl x
           | Inr ty \<Rightarrow>
               (case ag_float a (dget_or fct ''confidence'' (PFloat 1)) of
                  Inl x \<Rightarrow> Inl x
                | Inr conf \<Rightarrow>
                    (case (name, dget_or fct ''properties'' (PDict []), dget_or fct ''source'' (PStr ''agent'')) of
                       (PStr n, PDict props, PStr src) \<Rightarrow>
                         Inr \<lparr>en_id = eid, en_name = n, en_type = ty, en_properties = props, en_source = src, en_confidence = conf\<rparr>
                     | _ \<Rightarrow> Inl (ValidationError ''Entity'')))))"

definition agent_graph :: "('a, 'w) agents \<Rightarrow> string \<Rightarrow> kengine \<Rightarrow> ('a, 'w, 'e) runtime \<Rightarrow> string \<times> kengine \<times> ('a, 'w, 'e) runtime" where
  "agent_graph a aid k w =
     (case dget (rt_graphs w) aid of
        Some gid \<Rightarrow> (gid, k, w)
      | None \<Rightarrow> (let (g, k1) = create_graph (ag_uid a) (rt_now a w) (''agent:'' @ aid) k in (kg_id g, k1, w\<lparr>rt_graphs := dset aid (kg_id g) (rt_graphs w)\<rparr>)))"

text \<open>The target of a relation: the first entity of that name, or a new one of the type the fact gives.\<close>

definition target_entity :: "('a, 'w) agents \<Rightarrow> datetime \<Rightarrow> string \<Rightarrow> pydict \<Rightarrow> kengine \<Rightarrow> (entity, kengine) res" where
  "target_entity a now gid rel k =
     (let name = str_of a (dget_or rel ''target'' PNone); ty = dget_or rel ''type'' PNone
      in case Option.bind (dget (ke_graphs k) gid) (\<lambda>g. same_name name (dvals (kg_entities g))) of
           Some e \<Rightarrow> (Inr e, k)
         | None \<Rightarrow>
             (case entity_type_of (if truthy ty then ty else PStr ''custom'') of
                Inl x \<Rightarrow> (Inl x, k)
              | Inr et \<Rightarrow>
                  (let (eid, k1) = ke_fresh (ag_uid a) k
                   in add_entity now gid \<lparr>en_id = eid, en_name = name, en_type = et, en_properties = [], en_source = ''unknown'', en_confidence = 1\<rparr> k1)))"

definition relate :: "('a, 'w) agents \<Rightarrow> datetime \<Rightarrow> string \<Rightarrow> entity \<Rightarrow> pydict \<Rightarrow> kengine \<Rightarrow> (unit, kengine) res" where
  "relate a now gid stored rel k =
     (case target_entity a now gid rel k of
        (Inl x, k1) \<Rightarrow> (Inl x, k1)
      | (Inr target, k1) \<Rightarrow>
          (case rel_type_of (dget_or rel ''relation_type'' (PStr ''knows'')) of
             Inl x \<Rightarrow> (Inl x, k1)
           | Inr rt \<Rightarrow>
               (let (rid, k2) = ke_fresh (ag_uid a) k1
                in case add_relation now gid \<lparr>re_id = rid, re_source = en_id stored, re_target = en_id target, re_type = rt, re_weight = 1, re_bidirectional = False\<rparr> k2 of
                     (Inl x, k3) \<Rightarrow> (Inl x, k3)
                   | (Inr _, k3) \<Rightarrow> (Inr (), k3))))"

definition remember_in :: "('a, 'w) agents \<Rightarrow> datetime \<Rightarrow> string \<Rightarrow> pydict \<Rightarrow> kengine \<Rightarrow> (entity, kengine) res" where
  "remember_in a now gid fct k0 =
     (let (eid, k) = ke_fresh (ag_uid a) k0
      in case fact_entity a eid fct of
           Inl x \<Rightarrow> (Inl x, k)
         | Inr e \<Rightarrow>
             (case add_entity now gid e k of
                (Inl x, k1) \<Rightarrow> (Inl x, k1)
              | (Inr stored, k1) \<Rightarrow>
                  (case dget_or fct ''relation'' PNone of
                     PDict rel \<Rightarrow> if rel = [] then (Inr stored, k1)
                                  else (case relate a now gid stored rel k1 of (Inl x, k2) \<Rightarrow> (Inl x, k2) | (Inr _, k2) \<Rightarrow> (Inr stored, k2))
                   | v \<Rightarrow> if truthy v then (Inl (AttributeError ''get''), k1) else (Inr stored, k1))))"

definition remember :: "('a, 'w) agents \<Rightarrow> string \<Rightarrow> pydict \<Rightarrow> ('a, 'w, 'e) runtime \<Rightarrow> (entity, ('a, 'w, 'e) runtime) res" where
  "remember a aid fct w =
     (case rt_kg w of
        None \<Rightarrow> (Inl (RuntimeError ''AgentRuntime has no knowledge_graph wired''), w)
      | Some k \<Rightarrow>
          (let (gid, k1, w1) = agent_graph a aid k w
           in case remember_in a (rt_now a w) gid fct k1 of (r, k2) \<Rightarrow> (r, w1\<lparr>rt_kg := Some k2\<rparr>)))"

definition recall :: "('a, 'w) agents \<Rightarrow> string \<Rightarrow> string \<Rightarrow> ('a, 'w, 'e) runtime \<Rightarrow> (entity list, ('a, 'w, 'e) runtime) res option" where
  "recall a aid q w =
     (case (rt_kg w, dget (rt_graphs w) aid) of
        (Some k, Some gid) \<Rightarrow>
          (let (qid, k1) = ke_fresh (ag_uid a) k; now = rt_now a w
           in case query (ag_uid a) None now now gid \<lparr>gq_id = qid, gq_kind = EntityByName (Some q), gq_limit = 10\<rparr> k1 of
                None \<Rightarrow> None
              | Some (Inl x, k2) \<Rightarrow> Some (Inl x, w\<lparr>rt_kg := Some k2\<rparr>)
              | Some (Inr res, k2) \<Rightarrow>
                  Some (case dget (ke_graphs k2) gid of
                          None \<Rightarrow> if qr_entities res = [] then Inr [] else Inl (AttributeError ''entities'')
                        | Some g \<Rightarrow> Inr (List.map_filter (dget (kg_entities g)) (qr_entities res)), w\<lparr>rt_kg := Some k2\<rparr>))
      | _ \<Rightarrow> Some (Inr [], w))"

section \<open>Installing capabilities\<close>

text \<open>The marketplace as the runtime sees it, and the guard and the vault it may have changed.\<close>

definition market_view :: "('a, 'w, 'e) runtime \<Rightarrow> ('w, 'e) market \<Rightarrow> ('w, 'e) market" where
  "market_view w m = (if rt_shared w then m\<lparr>mk_guard := rt_guard w, mk_vault := rt_vault w\<rparr> else m)"

definition market_back :: "('w, 'e) market \<Rightarrow> ('a, 'w, 'e) runtime \<Rightarrow> ('a, 'w, 'e) runtime" where
  "market_back m w = (if rt_shared w then w\<lparr>rt_mp := Some m, rt_guard := mk_guard m, rt_vault := mk_vault m\<rparr> else w\<lparr>rt_mp := Some m\<rparr>)"

fun register_caps :: "('a, 'w) agents \<Rightarrow> plugin_package \<Rightarrow> string list \<Rightarrow> cap_registry \<Rightarrow> ('a, 'w, 'e) runtime \<Rightarrow> (unit, cap_registry \<times> ('a, 'w, 'e) runtime) res" where
  "register_caps a p [] reg w = (Inr (), (reg, w))"
| "register_caps a p (c # cs) reg w =
     (let (i, w1) = rt_fresh a w
      in case register_capability \<lparr>c_id = i, c_name = c, c_description = ''installed from '' @ pk_name p @ '' '' @ pk_version p, c_tools = []\<rparr> reg of
           (Inl x, reg1) \<Rightarrow> (Inl x, (reg1, w1))
         | (Inr _, reg1) \<Rightarrow> register_caps a p cs reg1 w1)"

definition install_finish :: "('a, 'w) agents \<Rightarrow> string \<Rightarrow> string \<Rightarrow> plugin_package \<Rightarrow> ('a, 'w, 'e) runtime \<Rightarrow> ('a, 'w, 'e) runtime" where
  "install_finish a aid pid p w =
     (let w1 = rt_log a ''info'' (''capability installed: '' @ pid) aid [(''capabilities'', PStrs (pk_capabilities p))] w;
          w2 = rt_metric a ''agent.capability_installs'' [(''agent_id'', aid)] w1
      in case pk_policy p of None \<Rightarrow> w2 | Some sp \<Rightarrow> w2\<lparr>rt_guard := map_option (register_policy (su_fstr (ag_around a)) (pk_id p) sp) (rt_guard w2)\<rparr>)"

definition install_capability ::
  "('a, 'w) agents \<Rightarrow> string \<Rightarrow> string \<Rightarrow> cap_registry option \<Rightarrow> ('a, 'w, 'e) runtime \<Rightarrow> (plugin_package, cap_registry option \<times> ('a, 'w, 'e) runtime) res" where
  "install_capability a aid pid reg w =
     (case rt_mp w of
        None \<Rightarrow> (Inl (RuntimeError ''AgentRuntime has no marketplace wired''), (reg, w))
      | Some m0 \<Rightarrow>
          (case get_package pid m0 of
             None \<Rightarrow> (Inl (ValueError (''package '' @ quoted pid @ '' not found in marketplace'')), (reg, w))
           | Some r \<Rightarrow>
               (case install (ag_around a) (rt_now a w) r (market_view w m0) of
                  (Inl x, m) \<Rightarrow> (Inl x, (reg, market_back m w))
                | (Inr r1, m) \<Rightarrow>
                    (let p = mk_heap m ! r1; w1 = market_back m w
                     in case reg of
                          None \<Rightarrow> (Inr p, (None, install_finish a aid pid p w1))
                        | Some rg \<Rightarrow>
                            (case register_caps a p (pk_capabilities p) rg w1 of
                               (Inl x, (rg1, w2)) \<Rightarrow> (Inl x, (Some rg1, w2))
                             | (Inr _, (rg1, w2)) \<Rightarrow> (Inr p, (Some rg1, install_finish a aid pid p w2)))))))"

end
