(* ===== verification/Agent_Laws.thy ===== *)
theory Agent_Laws
  imports Agent
begin

text \<open>What the agent runtime guarantees, and where it does not do what it says.\<close>

section \<open>What a run leaves alone\<close>

text \<open>A run changes the world and the state of the guard, the sandbox and the retries, and nothing else.\<close>

definition only_ran :: "('a, 'w, 'e) runtime \<Rightarrow> ('a, 'w, 'e) runtime \<Rightarrow> bool" where
  "only_ran w w' \<longleftrightarrow>
     rt_sink w' = rt_sink w \<and> rt_agents w' = rt_agents w \<and> rt_health w' = rt_health w \<and> rt_swarm w' = rt_swarm w \<and> rt_kg w' = rt_kg w \<and>
     rt_mp w' = rt_mp w \<and> rt_obs w' = rt_obs w \<and> rt_mcp w' = rt_mcp w \<and> rt_vault w' = rt_vault w \<and> rt_swarm_ids w' = rt_swarm_ids w \<and> rt_graphs w' = rt_graphs w"

lemma only_ran_refl [simp]: "only_ran w w"
  by (simp add: only_ran_def)

lemma only_ran_fields [simp]:
  "only_ran w (w'\<lparr>rt_env := e\<rparr>) = only_ran w w'" "only_ran w (w'\<lparr>rt_guard := g\<rparr>) = only_ran w w'" "only_ran w (w'\<lparr>rt_res := r\<rparr>) = only_ran w w'"
  "only_ran w (w'\<lparr>rt_sandbox := s\<rparr>) = only_ran w w'" "only_ran w (w'\<lparr>rt_next := n\<rparr>) = only_ran w w'"
  by (simp_all add: only_ran_def)

lemma on_world_ran: "only_ran w w' \<Longrightarrow> only_ran w (snd (on_world f w'))"
  by (simp add: on_world_def split: prod.split)

lemma retry_ran:
  assumes "only_ran w w'"
  shows "only_ran w (snd (execute_with_retry a x aid t w'))"
proof (cases "rt_res w'")
  case (Some r)
  let ?lift = "\<lambda>f s. case on_world f (resilience.more s) of (v, w1) \<Rightarrow> (v, resilience.extend (resilience.truncate s) w1)"
  have "only_ran w (resilience.more (snd (retry_loop (\<lambda>s. rt_now a (resilience.more s)) (\<lambda>d. ?lift (ag_sleep a d)) (?lift (ag_execute a x aid t))
      pol tid tn n k err (resilience.extend r w'))))" for pol tid tn n k err
    by (rule retry_loop_keeps [where P = "only_ran w"]) (simp_all add: case_prod_beta on_world_ran assms)
  with Some show ?thesis by (simp add: execute_with_retry_def retry_def Let_def case_prod_beta)
qed (simp add: execute_with_retry_def on_world_ran assms)

lemma sandbox_ran:
  assumes "\<And>w'. only_ran w w' \<Longrightarrow> only_ran w (snd (body w'))" and "\<And>w'. only_ran w w' \<Longrightarrow> only_ran w (snd (cleanup w'))" and "only_ran w w'"
  shows "only_ran w (snd (rt_in_sandbox a sb p cleanup ctx body w'))"
proof -
  let ?R = "\<lambda>s s'. only_ran w (sandbox.more s) \<longrightarrow> only_ran w (sandbox.more s')"
  let ?lift = "\<lambda>g s. case g (sandbox.more s) of (v, w1) \<Rightarrow> (v, sandbox.extend (sandbox.truncate s) w1)"
  have "?R s (snd (?lift g s))" if "\<And>w'. only_ran w w' \<Longrightarrow> only_ran w (snd (g w'))" for s and g :: "_ \<Rightarrow> (_, _) res"
    using that [of "sandbox.more s"] by (simp add: case_prod_beta)
  from sandbox_run_rel [of ?R, OF this this, OF assms(1,2)]
  have "?R s (snd (sandbox_run pr fmt (?lift body) p (Some (?lift cleanup)) ctx s))" for pr fmt ctx s by simp
  from this [of "sandbox.extend sb w'"] assms(3) show ?thesis by (simp add: rt_in_sandbox_def case_prod_beta)
qed

lemma run_agent_ran: "only_ran w (snd (run_agent a x aid t policy w))"
proof (cases "guarded_by t w")
  case None
  have "only_ran w (snd (stop_quietly a x aid w'))" if "only_ran w w'" for w'
    using on_world_ran [OF that, of "ag_stop a x aid"] by (auto simp: stop_quietly_def split: prod.split sum.split)
  with None show ?thesis by (auto simp: run_agent_def split: option.split intro!: sandbox_ran retry_ran)
next
  case (Some gpc)
  then obtain g pkg cap where g: "guarded_by t w = Some (g, pkg, cap)" by (cases gpc) auto
  let ?lift = "\<lambda>g. case on_world (ag_execute a x aid t) (guard.more g) of (v, w1) \<Rightarrow> (v, guard.extend (guard.truncate g) w1)"
  have "only_ran w (guard.more (snd (guard_call clock isofmt uid ?lift pkg act res (guard.extend g (w\<lparr>rt_next := n\<rparr>)))))" for clock isofmt uid act res n
    by (rule guard_call_keeps [where P = "only_ran w"]) (simp_all add: case_prod_beta on_world_ran)
  then show ?thesis by (simp add: run_agent_def g rt_in_guard_def rt_fresh_def case_prod_beta)
qed

section \<open>Observation\<close>

definition executions :: "obs_engine \<Rightarrow> rat" where
  "executions ob = dget_or (oe_counters ob) ''agent.executions'' 0"

text \<open>Whether a span, if it is still known, was finished with the status \<open>ok\<close>.\<close>

definition span_done :: "string \<Rightarrow> obs_engine \<Rightarrow> bool" where
  "span_done sid ob \<longleftrightarrow> (\<forall>s. dget (oe_spans ob) sid = Some s \<longrightarrow> sp_end s \<noteq> None \<and> sp_status s = ''ok'')"

lemma obs_effects [simp]:
  "executions (snd (start_span i now tid name par corr ob)) = executions ob"
  "oe_error_count (snd (start_span i now tid name par corr ob)) = oe_error_count ob"
  "executions (snd (log_at i now level message corr ctx ob)) = executions ob"
  "oe_error_count (snd (log_at i now level message corr ctx ob)) = oe_error_count ob + (if level = ''error'' then 1 else 0)"
  "executions (snd (finish_span now sid ''ok'' ob)) = executions ob"
  "oe_error_count (snd (finish_span now sid ''ok'' ob)) = oe_error_count ob"
  "executions (snd (record_metric i now ''agent.executions'' 1 labels COUNTER ob)) = executions ob + 1"
  "oe_error_count (snd (record_metric i now name v labels ty ob)) = oe_error_count ob"
  by (simp_all add: executions_def start_span_def evict_oldest_def log_at_def push_log_def count_error_def finish_span_def record_metric_def push_metric_def
        oe_emit_def oe_put_def dget_or_def Let_def split: option.split list.split)

lemma finish_span_done: "span_done sid (snd (finish_span now sid ''ok'' ob))"
  by (simp add: span_done_def finish_span_def oe_emit_def oe_put_def Let_def split: option.split)

lemma start_span_id [simp]: "fst (start_span i now tid name par corr ob) = i"
  by (simp add: start_span_def Let_def)

section \<open>Properties\<close>

text \<open>An agent that does nothing but let time pass, a runtime with that agent and nothing else, and a task.\<close>

definition idle_agents :: "(unit, nat) agents" where
  "idle_agents =
     \<lparr>ag_start = (\<lambda>x w. (Inr ''bot'', w)), ag_stop = (\<lambda>x i w. (Inr True, w)), ag_execute = (\<lambda>x i t w. (Inr (task_artifact ''r'' []), w + 1)),
      ag_status = (\<lambda>x i w. (Inr [(''state'', PStr ''running'')], w)), ag_name = (\<lambda>x. ''bot''), ag_class = (\<lambda>x. ''Idle''), ag_capabilities = (\<lambda>x. []),
      ag_now = int, ag_mono = of_nat, ag_sleep = (\<lambda>d w. (Inr (), w)), ag_rss_mb = None, ag_open_max = None, ag_policy_str = (\<lambda>d. []),
      ag_uid = (\<lambda>n. replicate n CHR ''i''), ag_float = (\<lambda>v. Inr 1), ag_str = (\<lambda>v. []), ag_around = demo_surroundings\<rparr>"

definition idle_runtime :: "(unit, nat, unit) runtime" where
  "idle_runtime =
     \<lparr>rt_sink = unwired, rt_agents = [(''bot'', ())], rt_sandbox = None, rt_health = None, rt_swarm = None, rt_kg = None, rt_mp = None, rt_obs = None,
      rt_guard = None, rt_mcp = None, rt_vault = None, rt_res = None, rt_shared = True, rt_swarm_ids = [], rt_graphs = [], rt_next = 0, rt_env = 0\<rparr>"

definition idle_task :: "string option \<Rightarrow> agent_task" where
  "idle_task cap =
     \<lparr>at_task = \<lparr>tk_id = ''t'', tk_name = ''t'', tk_capability = cap, tk_assigned_to = None, tk_workflow_id = None, tk_swarm_id = None\<rparr>, at_metadata = [], at_parameters = None\<rparr>"

text \<open>A runtime whose marketplace has one package with the capability \<open>c\<close>, and a guard with a policy for it.\<close>

definition guarded_runtime :: "permission list \<Rightarrow> (unit, nat, unit) runtime" where
  "guarded_runtime perms =
     idle_runtime\<lparr>rt_mp := Some ((demo_market [(demo_package ''p'' [])\<lparr>pk_status := INSTALLED, pk_capabilities := [''c'']\<rparr>] None)\<lparr>mk_installed := [(''p'', 0)]\<rparr>),
       rt_guard := Some ((guard_init unwired None 10)\<lparr>g_policies := [(''p'', \<lparr>sp_permissions = perms, sp_resource_limits = default_resource_limit\<rparr>)]\<rparr>)\<rparr>"

lemma guarded_runtime_guarded:
  "guarded_by (idle_task (Some ''c'')) (guarded_runtime perms) =
     Some ((guard_init unwired None 10)\<lparr>g_policies := [(''p'', \<lparr>sp_permissions = perms, sp_resource_limits = default_resource_limit\<rparr>)]\<rparr>, ''p'', ''c'')"
  by (simp add: guarded_by_def guarded_runtime_def idle_task_def capability_of_def capability_package_id_def idle_runtime_def demo_market_def list_installed_def
        provides_def demo_package_def stub_package_def)

text \<open>
  Every execution on this node is observed. Whatever the agent does, its span is closed; a
  result adds one to the counter of executions and no error, an exception is logged as one error and
  adds nothing to the counter. The span is closed with the status ok in both cases, so a trace does
  not show which executions failed.\<close>

theorem execution_observed:
  assumes "rt_obs w = Some ob"
  shows "case run_local a x aid t corr policy w of (r, w') \<Rightarrow>
     \<exists>ob'. rt_obs w' = Some ob' \<and> span_done (ag_uid a (rt_next w)) ob' \<and>
       executions ob' = executions ob + (case r of Inl _ \<Rightarrow> 0 | Inr _ \<Rightarrow> 1) \<and>
       oe_error_count ob' = oe_error_count ob + (case r of Inl e \<Rightarrow> if catches ''Exception'' e then 1 else 0 | Inr _ \<Rightarrow> 0)"
proof -
  obtain sp w1 where s: "rt_span a corr w = (sp, w1)" by (cases "rt_span a corr w")
  have w1: "sp = Some (ag_uid a (rt_next w))" "rt_obs w1 = Some (snd (start_span (ag_uid a (rt_next w)) (rt_now a w) corr ''agent.execute'' None (Some corr) ob))"
    using s assms by (auto simp: rt_span_def rt_fresh_def case_prod_beta)
  define msg where "msg = ''agent execute: '' @ aid @ '' cap='' @ (case capability_of t of None \<Rightarrow> ''None'' | Some c \<Rightarrow> c)"
  define w2 where "w2 = rt_log a ''debug'' msg corr [(''capability'', POptStr (capability_of t))] w1"
  obtain ob2 where w2: "rt_obs w2 = Some ob2" "executions ob2 = executions ob" "oe_error_count ob2 = oe_error_count ob"
    using w1(2) by (simp add: w2_def rt_log_def rt_fresh_def)
  obtain r w3 where r: "run_agent a x aid t policy w2 = (r, w3)" by (cases "run_agent a x aid t policy w2")
  have w3: "rt_obs w3 = Some ob2" using run_agent_ran [of w2 a x aid t policy] r w2(1) by (simp add: only_ran_def)
  have "run_local a x aid t corr policy w =
      (case r of
         Inr v \<Rightarrow> (Inr v, rt_finish a sp (rt_metric a ''agent.executions'' [(''agent_id'', aid), (''capability'', or_str (capability_of t) [])] w3))
       | Inl e \<Rightarrow> (Inl e, rt_finish a sp (if catches ''Exception'' e then rt_log a ''error'' (''agent execution failed: '' @ exn_msg e) corr [(''agent_id'', PStr aid)] w3 else w3)))"
    unfolding run_local_def s Let_def prod.case msg_def [symmetric] w2_def [symmetric] r by (simp only: prod.case)
  with w1 w2 w3 show ?thesis
    by (simp add: rt_finish_def rt_metric_def rt_log_def rt_fresh_def finish_span_done split: sum.split)
qed

theorem execution_observed_witness:
  "\<exists>r w' ob'. run_local idle_agents () ''bot'' (idle_task None) ''bot'' None (idle_runtime\<lparr>rt_obs := Some (new_obs unwired None 0 5 5 5)\<rparr>) = (r, w') \<and>
     rt_obs w' = Some ob' \<and> span_done [] ob'"
proof -
  let ?w = "idle_runtime\<lparr>rt_obs := Some (new_obs unwired None 0 5 5 5)\<rparr>"
  have "rt_obs ?w = Some (new_obs unwired None 0 5 5 5)" and u: "ag_uid idle_agents (rt_next ?w) = []" by (simp_all add: idle_runtime_def idle_agents_def)
  from execution_observed [OF this(1), of idle_agents "()" "''bot''" "idle_task None" "''bot''" None] show ?thesis
    unfolding u by (auto split: prod.splits)
qed

text \<open>
  A task with an MCP capability never runs on the local agent, whatever that agent would do, and
  without a gateway it ends in an exception.\<close>

theorem mcp_never_local:
  assumes "is_mcp_task t" and "dget (rt_agents w) aid = Some x"
  shows "rt_execute (a\<lparr>ag_execute := f\<rparr>) aid t workflow_id policy w = rt_execute a aid t workflow_id policy w \<and>
    (rt_mcp w = None \<longrightarrow> (\<exists>e s. rt_execute a aid t workflow_id policy w = (Inl e, s)))"
proof -
  let ?a = "a\<lparr>ag_execute := f\<rparr>"
  have vault: "in_vault ?a = in_vault a" by (intro ext) (simp add: in_vault_def isostr_def rt_now_def)
  have interp: "interp_task ?a aid t' w = interp_task a aid t' w" for t'
    unfolding interp_task_def interp_parameters_def interp_metadata_def vault by (rule refl)
  have around: "ag_around ?a = ag_around a" by simp
  have mcp: "execute_mcp ?a t' g w' = execute_mcp a t' g w'" for t' g w' unfolding execute_mcp_def around by (rule refl)
  have kept: "capability_of t1 = capability_of t'" "rt_mcp w1 = rt_mcp w" if "interp_task a aid t' w = (r, (t1, w1))" for t' r t1 w1
    using that by (auto simp: interp_task_def interp_parameters_def interp_metadata_def in_vault_def capability_of_def
      split: prod.splits sum.splits option.splits if_splits pyval.splits)
  define t0 where "t0 = (case workflow_id of None \<Rightarrow> t | Some f \<Rightarrow> t\<lparr>at_task := (at_task t)\<lparr>tk_workflow_id := Some f\<rparr>\<rparr>)"
  have t0: "is_mcp_task t0" using assms(1) by (cases workflow_id) (simp_all add: t0_def is_mcp_task_def capability_of_def)
  obtain r t1 w1 where i: "interp_task a aid t0 w = (r, (t1, w1))" by (metis surj_pair)
  have t1: "is_mcp_task t1" "rt_mcp w1 = rt_mcp w" using t0 kept [OF i] by (simp_all add: is_mcp_task_def)
  have run: "rt_execute b aid t workflow_id policy w =
      (case r of Inl e \<Rightarrow> (Inl e, (t1, w1))
       | Inr _ \<Rightarrow> (case rt_mcp w of None \<Rightarrow> (Inl (RuntimeError ''MCP gateway not wired''), (t1, w1))
                    | Some g \<Rightarrow> (case execute_mcp b t1 g w1 of (q, w2) \<Rightarrow> (q, (t1, w2)))))"
    if "interp_task b aid t0 w = (r, (t1, w1))" for b
    using that t1 assms(2) by (simp add: rt_execute_def flip: t0_def split: sum.split)
  have "interp_task ?a aid t0 w = (r, (t1, w1))" using i interp by simp
  from run [OF this] run [OF i] show ?thesis by (cases r; cases "rt_mcp w") (simp_all add: mcp)
qed

theorem mcp_never_local_witness:
  "\<exists>e s. rt_execute idle_agents ''bot'' (idle_task (Some ''mcp:search'')) None None idle_runtime = (Inl e, s)"
proof -
  have "is_mcp_task (idle_task (Some ''mcp:search''))" by (simp add: is_mcp_task_def capability_of_def idle_task_def startswith_def)
  moreover have "dget (rt_agents idle_runtime) ''bot'' = Some ()" and n: "rt_mcp idle_runtime = None" by (simp_all add: idle_runtime_def)
  ultimately show ?thesis using mcp_never_local [where a = idle_agents] n by blast
qed

lemma guard_extend [simp]:
  "check (guard.extend g w) p act res = check g p act res" "resource_ok (guard.extend g w) p = resource_ok g p"
  by (simp_all add: check_def resource_ok_def guard.defs cong: option.case_cong)

text \<open>
  C28: If an installed package provides the capability of a task and the guard does not allow that
  package to execute it, the agent is not run: the call raises a permission error, and neither the
  world nor anything but the guard's records and the supply of ids changes.\<close>

theorem denied_agent_not_run:
  assumes "guarded_by t w = Some (g, pkg, cap)" and "\<not> check g pkg ''execute'' (''capability:'' @ cap)"
  shows "\<exists>m g'. run_agent a x aid t policy w = (Inl (PermissionDeniedError m), w\<lparr>rt_next := rt_next w + 1, rt_guard := Some g'\<rparr>)"
proof -
  define res where "res = ''capability:'' @ cap"
  then have c: "\<not> check g pkg ''execute'' res" using assms(2) by simp
  define w1 where "w1 = w\<lparr>rt_next := rt_next w + 1\<rparr>"
  obtain g' m where pre: "guard_pre (\<lambda>g. rt_now a (guard.more g)) (isostr a) (ag_uid a (rt_next w)) pkg ''execute'' res (guard.extend g w1) = (Inl (PermissionDeniedError m), g')"
    using c by (simp add: guard_pre_def)
  then have "guard.more g' = w1" using more_guard_pre by fastforce
  moreover have "run_agent a x aid t policy w = (Inl (PermissionDeniedError m), (guard.more g')\<lparr>rt_guard := Some (guard.truncate g')\<rparr>)"
    unfolding run_agent_def assms(1) option.case prod.case rt_in_guard_def rt_fresh_def Let_def w1_def [symmetric] res_def [symmetric]
    by (simp add: guard_call_def pre)
  ultimately show ?thesis by (auto simp: w1_def)
qed

theorem denied_agent_not_run_witness:
  "\<exists>m w'. run_agent idle_agents () ''bot'' (idle_task (Some ''c'')) None (guarded_runtime []) = (Inl (PermissionDeniedError m), w') \<and> rt_env w' = 0"
proof -
  let ?g = "(guard_init unwired None 10)\<lparr>g_policies := [(''p'', \<lparr>sp_permissions = [], sp_resource_limits = default_resource_limit\<rparr>)]\<rparr>"
  have "\<not> check ?g ''p'' ''execute'' (''capability:'' @ ''c'')" by (simp add: check_def guard_init_def policy_allows_def dget_or_def)
  from denied_agent_not_run [OF guarded_runtime_guarded [of "[]"] this, of idle_agents "()" "''bot''" None]
  obtain m g' where "run_agent idle_agents () ''bot'' (idle_task (Some ''c'')) None (guarded_runtime []) =
      (Inl (PermissionDeniedError m), (guarded_runtime [])\<lparr>rt_next := rt_next (guarded_runtime []) + 1, rt_guard := Some g'\<rparr>)" by blast
  then show ?thesis by (intro exI conjI, assumption) (simp add: guarded_runtime_def idle_runtime_def)
qed

text \<open>
  A task whose capability belongs to an installed package is run under the guard only. It is
  neither sandboxed nor retried: once the guard lets it pass, the result of the agent is the result
  of the call, whatever sandbox, policy and resilience engine the runtime has and however long it took.\<close>

theorem guarded_not_sandboxed:
  assumes "guarded_by t w = Some (g, pkg, cap)" and "check g pkg ''execute'' (''capability:'' @ cap)" and "fst (resource_ok g pkg)"
    and "ag_execute a x aid t (rt_env w) = (r, e)"
  shows "\<exists>w'. run_agent a x aid t policy w = (r, w') \<and> rt_env w' = e \<and> rt_sandbox w' = rt_sandbox w \<and> rt_res w' = rt_res w"
proof -
  define res where "res = ''capability:'' @ cap"
  define w1 where "w1 = w\<lparr>rt_next := rt_next w + 1\<rparr>"
  obtain l where "resource_ok g pkg = (True, l)" using assms(3) by (cases "resource_ok g pkg") auto
  then have pre: "guard_pre clock isofmt uid pkg ''execute'' res (guard.extend g w1) = (Inr (), guard.extend g w1)" for clock isofmt uid
    using assms(2) unfolding res_def [symmetric] by (simp add: guard_pre_def)
  have body: "on_world (ag_execute a x aid t) w1 = (r, w1\<lparr>rt_env := e\<rparr>)" using assms(4) by (simp add: on_world_def w1_def)
  have "\<exists>g'. run_agent a x aid t policy w = (r, w1\<lparr>rt_env := e, rt_guard := g'\<rparr>)"
    unfolding run_agent_def assms(1) option.case prod.case rt_in_guard_def rt_fresh_def Let_def w1_def [symmetric] res_def [symmetric]
    by (cases r) (auto simp: guard_call_def pre body)
  then show ?thesis by (auto simp: w1_def)
qed

theorem guarded_not_sandboxed_witness:
  "\<exists>w'. run_agent idle_agents () ''bot'' (idle_task (Some ''c'')) None (guarded_runtime [\<lparr>perm_action = ''execute'', perm_resource = ''*''\<rparr>]) = (Inr (task_artifact ''r'' []), w')"
proof -
  let ?g = "(guard_init unwired None 10)\<lparr>g_policies := [(''p'', \<lparr>sp_permissions = [\<lparr>perm_action = ''execute'', perm_resource = ''*''\<rparr>], sp_resource_limits = default_resource_limit\<rparr>)]\<rparr>"
  have "check ?g ''p'' ''execute'' (''capability:'' @ ''c'')" by (simp add: check_def guard_init_def policy_allows_def perm_matches_star)
  moreover have "fst (resource_ok ?g ''p'')" by (simp add: resource_ok_def guard_init_def default_resource_limit_def no_usage_def dget_or_def)
  moreover have "ag_execute idle_agents () ''bot'' (idle_task (Some ''c'')) (rt_env (guarded_runtime p)) = (Inr (task_artifact ''r'' []), 1)" for p
    by (simp add: idle_agents_def guarded_runtime_def idle_runtime_def)
  ultimately show ?thesis using guarded_not_sandboxed [OF guarded_runtime_guarded] by blast
qed

section \<open>Memory\<close>

lemma add_entity_stored:
  assumes "add_entity now gid e k = (Inr s, k')" and "\<forall>g. dget (ke_graphs k) gid = Some g \<longrightarrow> kg_id g = gid"
  shows "\<exists>g. dget (ke_graphs k') gid = Some g \<and> dget (kg_entities g) (en_id s) = Some s"
  using assms by (auto simp: add_entity_def absorb_def touch_def ke_write_def ke_persist_def ke_emit_def Let_def split: option.splits)

lemma contains_self: "contains s s"
  by (cases s) (simp_all add: startswith_def)

lemma recall_finds:
  assumes "rt_kg w = Some k" and "dget (rt_graphs w) aid = Some gid" and "dget (ke_graphs k) gid = Some g" and "dget (kg_entities g) (en_id e) = Some e"
    and "length (filter (\<lambda>e'. contains (lower (en_name e)) (lower (en_name e'))) (dvals (kg_entities g))) \<le> 10"
  shows "\<exists>es w'. recall a aid (en_name e) w = Some (Inr es, w') \<and> e \<in> set es"
proof -
  let ?es = "filter (\<lambda>e'. contains (lower (en_name e)) (lower (en_name e'))) (dvals (kg_entities g))"
  have "e \<in> set (dvals (kg_entities g))" using dget_Some_in [OF assms(4)] by force
  then have "e \<in> set ?es" by (simp add: contains_self)
  then have "en_id e \<in> set (map en_id ?es)" by simp
  then have "e \<in> set (List.map_filter (dget (kg_entities g)) (map en_id ?es))" using assms(4) by (force simp: map_filter_def)
  moreover have "head_slice 10 (map en_id ?es) = map en_id ?es" using assms(5) by (simp add: head_slice_def)
  moreover have "or_str (Some (en_name e)) [] = en_name e" by (simp add: or_str_def)
  ultimately show ?thesis
    using assms(1-3) by (simp add: recall_def ke_fresh_def query_def ke_emit_def Let_def)
qed

text \<open>
  What an agent remembers it can recall: after a fact without a relation was stored, a query for
  the name of the stored entity returns the entity, provided that no more than ten entities of the
  agent's graph have names in which it occurs.\<close>

theorem remembered_is_recalled:
  assumes "remember a aid fct w = (Inr e, w')" and "dget fct ''relation'' = None"
    and "\<forall>k gid g. rt_kg w = Some k \<longrightarrow> dget (ke_graphs k) gid = Some g \<longrightarrow> kg_id g = gid"
    and "\<forall>k gid g. rt_kg w' = Some k \<longrightarrow> dget (rt_graphs w') aid = Some gid \<longrightarrow> dget (ke_graphs k) gid = Some g \<longrightarrow>
           length (filter (\<lambda>e'. contains (lower (en_name e)) (lower (en_name e'))) (dvals (kg_entities g))) \<le> 10"
  shows "\<exists>es w''. recall a aid (en_name e) w' = Some (Inr es, w'') \<and> e \<in> set es"
proof -
  obtain k where k: "rt_kg w = Some k" using assms(1) by (cases "rt_kg w") (auto simp: remember_def)
  obtain gid k1 w1 where ag: "agent_graph a aid k w = (gid, k1, w1)" by (metis surj_pair)
  have g1: "dget (rt_graphs w1) aid = Some gid" "\<forall>g. dget (ke_graphs k1) gid = Some g \<longrightarrow> kg_id g = gid"
    using ag k assms(3) by (auto simp: agent_graph_def create_graph_def ke_fresh_def ke_write_def ke_persist_def Let_def split: option.splits)
  obtain r k2 where r: "remember_in a (rt_now a w) gid fct k1 = (r, k2)" by (cases "remember_in a (rt_now a w) gid fct k1")
  have w': "r = Inr e" "w' = w1\<lparr>rt_kg := Some k2\<rparr>" using assms(1) k ag r by (simp_all add: remember_def)
  obtain e0 where "add_entity (rt_now a w) gid e0 (snd (ke_fresh (ag_uid a) k1)) = (Inr e, k2)"
    using r w'(1) assms(2) by (auto simp: remember_in_def ke_fresh_def dget_or_def Let_def split: sum.splits prod.splits)
  then obtain g where "dget (ke_graphs k2) gid = Some g" "dget (kg_entities g) (en_id e) = Some e"
    using add_entity_stored g1(2) by (force simp: ke_fresh_def)
  then show ?thesis using recall_finds [of w' k2 aid gid g e] w'(2) g1(1) assms(4) by simp
qed

theorem remembered_is_recalled_witness:
  "\<exists>e w' es w''. remember idle_agents ''bot'' [(''name'', PStr ''Ada'')] (idle_runtime\<lparr>rt_kg := Some (open_engine unwired None 0)\<rparr>) = (Inr e, w') \<and>
     recall idle_agents ''bot'' (en_name e) w' = Some (Inr es, w'') \<and> e \<in> set es"
proof -
  let ?w = "idle_runtime\<lparr>rt_kg := Some (open_engine unwired None 0)\<rparr>" and ?f = "[(''name'', PStr ''Ada'')]"
  note defs = remember_def remember_in_def agent_graph_def fact_entity_def entity_type_of_def add_entity_def create_graph_def ke_fresh_def ke_write_def ke_persist_def
    ke_emit_def touch_def open_engine_def idle_runtime_def idle_agents_def dget_or_def rt_now_def Let_def
  obtain e w' where r: "remember idle_agents ''bot'' ?f ?w = (Inr e, w')" "\<forall>k gid g. rt_kg w' = Some k \<longrightarrow> dget (rt_graphs w') ''bot'' = Some gid \<longrightarrow>
      dget (ke_graphs k) gid = Some g \<longrightarrow> length (dvals (kg_entities g)) \<le> 10"
    by (simp add: defs)
  have "length (filter P (dvals (kg_entities g))) \<le> 10" if "rt_kg w' = Some k" "dget (rt_graphs w') ''bot'' = Some gid" "dget (ke_graphs k) gid = Some g" for P k gid g
    using r(2) that length_filter_le [of P "dvals (kg_entities g)"] by (meson le_trans)
  then show ?thesis using remembered_is_recalled [OF r(1)] r(1) by (simp add: open_engine_def)
qed

text \<open>
  The relation of a fact is documented as a target and a type, but the type is read as the type
  of the target entity. A fact that gives a relation type there fails when the target is new, with
  the entity already stored; otherwise the relation is recorded as \<open>knows\<close>, whatever type was given.\<close>

theorem relation_type_misread:
  assumes "rel = [(''target'', PStr n), (''type'', PStr (relation_type_value rt))]" and "dget (ke_graphs k) gid = Some g" and "kg_id g = gid"
    and "dget (kg_entities g) (en_id stored) \<noteq> None"
  shows "(same_name n (dvals (kg_entities g)) = None \<longrightarrow> (\<exists>m. relate a now gid stored rel k = (Inl (ValueError m), k))) \<and>
    (\<forall>e. same_name n (dvals (kg_entities g)) = Some e \<longrightarrow> dget (kg_entities g) (en_id e) = Some e \<longrightarrow>
       (\<exists>k' g' r. relate a now gid stored rel k = (Inr (), k') \<and> dget (ke_graphs k') gid = Some g' \<and>
          dget (kg_relations g') (ag_uid a (ke_next k)) = Some r \<and> re_source r = en_id stored \<and> re_target r = en_id e \<and> re_type r = KNOWS))"
proof -
  have "entity_type_of (PStr (relation_type_value rt)) = Inl (ValueError (quoted (relation_type_value rt) @ '' is not a valid EntityType''))"
    by (cases rt) (simp_all add: entity_type_of_def)
  moreover have "relation_type_value rt \<noteq> []" by (cases rt) simp_all
  ultimately show ?thesis
    using assms by (auto simp: relate_def target_entity_def str_of_def dget_or_def rel_type_of_def relation_type_of_def relation_types_def ke_fresh_def add_relation_def
      touch_def ke_write_def ke_persist_def ke_emit_def Let_def)
qed

definition small_memory :: kengine where
  "small_memory =
     \<lparr>ke_sink = unwired,
      ke_graphs = [(''g'', \<lparr>kg_id = ''g'', kg_name = ''agent:bot'',
        kg_entities = [(''a'', \<lparr>en_id = ''a'', en_name = ''Ada'', en_type = PERSON, en_properties = [], en_source = ''agent'', en_confidence = 1\<rparr>)],
        kg_relations = [], kg_version = 1, kg_updated_at = 0\<rparr>)],
      ke_store = None, ke_next = 0\<rparr>"

theorem relation_type_misread_witness:
  "\<exists>m. relate idle_agents 0 ''g'' \<lparr>en_id = ''a'', en_name = ''Ada'', en_type = PERSON, en_properties = [], en_source = ''agent'', en_confidence = 1\<rparr>
       [(''target'', PStr ''Bob''), (''type'', PStr ''part_of'')] small_memory = (Inl (ValueError m), small_memory)"
proof -
  obtain g where g: "dget (ke_graphs small_memory) ''g'' = Some g" "kg_id g = ''g''" "dget (kg_entities g) ''a'' \<noteq> None" "same_name ''Bob'' (dvals (kg_entities g)) = None"
    by (simp add: small_memory_def lower_def lower_char_def)
  have "[(''target'', PStr ''Bob''), (''type'', PStr ''part_of'')] = [(''target'', PStr ''Bob''), (''type'', PStr (relation_type_value PART_OF))]" by simp
  from relation_type_misread [OF this g(1,2), of "\<lparr>en_id = ''a'', en_name = ''Ada'', en_type = PERSON, en_properties = [], en_source = ''agent'', en_confidence = 1\<rparr>" idle_agents 0] g(3,4)
  show ?thesis by simp
qed

section \<open>Installation\<close>

lemma registered_by_name: "dget (cp_caps r) i = Some d \<Longrightarrow> get_capability_by_name r (c_name d) \<noteq> None"
  unfolding get_capability_by_name_def by (metis (mono_tags, lifting) dget_Some_in find_None_iff image_eqI list.set_map snd_conv)

text \<open>
  A package that cannot be installed still gives its capabilities to the agent: if validation
  fails, \<open>install_capability\<close> returns the package with the status FAILED, but it has entered the
  capability in the registry, counted an installation, and registered the package's policy with the guard.\<close>

theorem failed_install_registers:
  assumes "rt_mp w = Some m" and "get_package pid m = Some r" and "r < length (mk_heap m)" and "p = mk_heap m ! r"
    and "\<not> fst (validate_package (ag_around a) p (market_view w m))" and "pk_capabilities p = [c]" and "\<forall>d \<in> set (dvals (cp_caps reg)). c_name d \<noteq> c"
  shows "\<exists>reg' w'. install_capability a aid pid (Some reg) w = (Inr (p\<lparr>pk_status := FAILED\<rparr>), (Some reg', w')) \<and>
    get_capability_by_name reg' c \<noteq> None \<and>
    (\<forall>gd sp. rt_guard w = Some gd \<longrightarrow> pk_policy p = Some sp \<longrightarrow> (\<exists>gd'. rt_guard w' = Some gd' \<and> dget (get_policies gd') (pk_id p) = Some sp))"
proof -
  let ?m = "market_view w m"
  have heap: "mk_heap ?m = mk_heap m" by (simp add: market_view_def)
  obtain reason where v: "validate_package (ag_around a) p ?m = (False, reason)" using assms(5) by (cases "validate_package (ag_around a) p ?m") auto
  let ?f = "install_failed r reason ?m"
  have i: "install (ag_around a) (rt_now a w) r ?m = (Inr r, ?f)" using v heap assms(4) by (simp add: install_def)
  have f: "mk_heap ?f ! r = p\<lparr>pk_status := FAILED\<rparr>" "mk_guard ?f = mk_guard ?m"
    using install_failed_effect [of r ?m reason] assms(3,4) heap by simp_all
  let ?w = "market_back ?f w"
  have gd: "rt_guard ?w = rt_guard w" using f(2) by (cases "rt_shared w") (simp_all add: market_back_def market_view_def)
  have rg: "register_caps a (p\<lparr>pk_status := FAILED\<rparr>) [c] reg ?w = (Inr (), (reg\<lparr>cp_caps := dset (ag_uid a (rt_next ?w))
      \<lparr>c_id = ag_uid a (rt_next ?w), c_name = c, c_description = ''installed from '' @ pk_name p @ '' '' @ pk_version p, c_tools = []\<rparr> (cp_caps reg)\<rparr>, ?w\<lparr>rt_next := rt_next ?w + 1\<rparr>))"
    (is "_ = (_, (?reg, ?w2))") using assms(7) by (simp add: rt_fresh_def register_capability_def)
  have "install_capability a aid pid (Some reg) w = (Inr (p\<lparr>pk_status := FAILED\<rparr>), (Some ?reg, install_finish a aid pid (p\<lparr>pk_status := FAILED\<rparr>) ?w2))"
    using assms(1,2,6) i f(1) rg by (simp add: install_capability_def Let_def)
  moreover have "get_capability_by_name ?reg c \<noteq> None"
    using registered_by_name [of ?reg "ag_uid a (rt_next ?w)"] by simp
  moreover have "\<exists>gd'. rt_guard (install_finish a aid pid (p\<lparr>pk_status := FAILED\<rparr>) ?w2) = Some gd' \<and> dget (get_policies gd') (pk_id p) = Some sp"
    if "rt_guard w = Some gd'" "pk_policy p = Some sp" for gd' sp
    using that gd by (simp add: install_finish_def rt_log_def rt_metric_def rt_fresh_def register_policy_def get_policies_def g_emit_def Let_def split: option.split)
  ultimately show ?thesis by blast
qed

theorem failed_install_registers_witness:
  "\<exists>p reg' w'. install_capability idle_agents ''bot'' ''p'' (Some \<lparr>cp_tools = [], cp_caps = []\<rparr>)
       (idle_runtime\<lparr>rt_mp := Some (demo_market [(demo_package ''p'' [''missing''])\<lparr>pk_capabilities := [''c'']\<rparr>] None)\<rparr>) = (Inr p, (Some reg', w')) \<and>
     pk_status p = FAILED \<and> get_capability_by_name reg' ''c'' \<noteq> None"
proof -
  let ?p = "(demo_package ''p'' [''missing''])\<lparr>pk_capabilities := [''c'']\<rparr>"
  let ?m = "demo_market [?p] None" let ?w = "idle_runtime\<lparr>rt_mp := Some ?m\<rparr>"
  have "rt_mp ?w = Some ?m" "get_package ''p'' ?m = Some 0" "0 < length (mk_heap ?m)" "?p = mk_heap ?m ! 0" "pk_capabilities ?p = [''c'']"
    by (simp_all add: demo_market_def get_package_def demo_package_def stub_package_def)
  moreover have "\<not> fst (validate_package (ag_around idle_agents) ?p (market_view ?w ?m))"
    by (simp add: validate_ok demo_market_def demo_package_def stub_package_def market_view_def idle_runtime_def known_packages_def)
  ultimately show ?thesis
    using failed_install_registers [of ?w ?m "''p''" 0 ?p idle_agents "''c''" "\<lparr>cp_tools = [], cp_caps = []\<rparr>" "''bot''"] by fastforce
qed

end
