(* ===== verification/Storage.thy ===== *)
theory Storage
  imports Bus
begin

text \<open>
  The domain entities that are stored (\<open>kernel/domain.py\<close>) and the universal entity store
  \<open>PersistenceRegistry\<close> of \<open>kernel/persistence.py\<close>.

  \<^item> An entity class is a record that extends \<open>base_entity\<close>; \<open>stored\<close> is the sum of the classes the
    store can rebuild, with one more constructor for the classes it cannot.
  \<^item> Free-form attributes are dictionaries of \<open>datum\<close>; unlike the values of event payloads they hold
    embeddings, whose numbers are reals (no rounding is modelled).
  \<^item> The JSON text of an entity is written and read by pydantic: \<open>codec\<close> is a parameter, the type of
    the texts too, and \<open>codec_ok\<close> states that reading gives back what was written.
  \<^item> A call on the single worker thread is one step (\<open>on_thread\<close>); once the executor is shut down it
    raises. A database without a file is private to its connection.
\<close>

section \<open>Entities\<close>

datatype datum =
    DNone
  | DBool bool
  | DInt int
  | DReal real
  | DStr string
  | DList "datum list"
  | DDict "(string \<times> datum) list"

type_synonym attrs = "(string \<times> datum) list"

fun datum_truthy :: "datum \<Rightarrow> bool" where
  "datum_truthy DNone = False"
| "datum_truthy (DBool b) = b"
| "datum_truthy (DInt i) = (i \<noteq> 0)"
| "datum_truthy (DReal x) = (x \<noteq> 0)"
| "datum_truthy (DStr s) = (s \<noteq> [])"
| "datum_truthy (DList xs) = (xs \<noteq> [])"
| "datum_truthy (DDict d) = (d \<noteq> [])"

abbreviation DVec :: "real list \<Rightarrow> datum" where
  "DVec v \<equiv> DList (map DReal v)"

record base_entity =
  be_id :: string
  be_version :: int
  be_created_at :: string
  be_updated_at :: string
  be_metadata :: attrs
  be_workspace_id :: string

definition with_version :: "string \<Rightarrow> int \<Rightarrow> 'a base_entity_scheme \<Rightarrow> 'a base_entity_scheme" where
  "with_version now version e = e\<lparr>be_version := version, be_updated_at := now\<rparr>"

record document = base_entity +
  do_source :: string
  do_format :: string
  do_content :: string

record chunk = base_entity +
  ck_document_id :: string
  ck_text :: string
  ck_embedding :: "real list option"
  ck_start :: int
  ck_end :: int

definition chunk_dim :: "chunk \<Rightarrow> nat" where
  "chunk_dim c = (case ck_embedding c of None \<Rightarrow> 0 | Some v \<Rightarrow> length v)"

record knowledge_node = base_entity +
  kn_label :: string
  kn_type :: string
  kn_domain :: string
  kn_properties :: attrs

record node_relation = base_entity +
  nr_source_id :: string
  nr_target_id :: string
  nr_type :: string
  nr_properties :: attrs

record mcp_session_event = base_entity +
  ms_session_id :: string
  ms_seq :: int
  ms_sse_data :: string

record workspace_entity = base_entity +
  wse_name :: string
  wse_owner_id :: string
  wse_settings :: attrs

record human_profile = base_entity +
  hp_name :: string
  hp_typing_speed_wpm :: int
  hp_typo_rate :: real
  hp_pause_between_actions :: "real \<times> real"
  hp_preferred_browser :: string
  hp_screen_resolution :: "int \<times> int"
  hp_user_agent :: string

record browser_session = base_entity +
  bs_profile_id :: string
  bs_url :: string
  bs_status :: string
  bs_screenshot_path :: "string option"
  bs_last_action :: "string option"

record action_log = base_entity +
  al_session_id :: string
  al_action_type :: string
  al_target :: "string option"
  al_payload :: attrs
  al_success :: bool
  al_error :: "string option"

datatype stored =
    Document document
  | Chunk chunk
  | KnowledgeNode knowledge_node
  | Relation node_relation
  | Workspace workspace_entity
  | McpSessionEvent mcp_session_event
  | HumanProfile human_profile
  | BrowserSession browser_session
  | ActionLog action_log
  | OtherEntity string base_entity attrs

fun class_name :: "stored \<Rightarrow> string" where
  "class_name (Document _) = ''Document''"
| "class_name (Chunk _) = ''Chunk''"
| "class_name (KnowledgeNode _) = ''KnowledgeNode''"
| "class_name (Relation _) = ''Relation''"
| "class_name (Workspace _) = ''Workspace''"
| "class_name (McpSessionEvent _) = ''McpSessionEvent''"
| "class_name (HumanProfile _) = ''HumanProfile''"
| "class_name (BrowserSession _) = ''BrowserSession''"
| "class_name (ActionLog _) = ''ActionLog''"
| "class_name (OtherEntity cls _ _) = cls"

fun base_of :: "stored \<Rightarrow> base_entity" where
  "base_of (Document e) = base_entity.truncate e"
| "base_of (Chunk e) = base_entity.truncate e"
| "base_of (KnowledgeNode e) = base_entity.truncate e"
| "base_of (Relation e) = base_entity.truncate e"
| "base_of (Workspace e) = base_entity.truncate e"
| "base_of (McpSessionEvent e) = base_entity.truncate e"
| "base_of (HumanProfile e) = base_entity.truncate e"
| "base_of (BrowserSession e) = base_entity.truncate e"
| "base_of (ActionLog e) = base_entity.truncate e"
| "base_of (OtherEntity _ e _) = e"

definition type_names :: "string list" where
  "type_names = [''Document'', ''Chunk'', ''KnowledgeNode'', ''Relation'', ''Workspace'', ''McpSessionEvent'', ''HumanProfile'', ''BrowserSession'', ''ActionLog'']"

record 'j codec =
  js_dump :: "stored \<Rightarrow> 'j"
  js_validate :: "string \<Rightarrow> 'j \<Rightarrow> exn + stored"

text \<open>
  Pydantic reads back what it wrote. A class the store does not know is read as a \<open>BaseEntity\<close>,
  which accepts extra fields: the attributes stay, the class is lost.
\<close>

fun stored_ok :: "stored \<Rightarrow> bool" where
  "stored_ok (OtherEntity cls _ _) \<longleftrightarrow> cls \<notin> set type_names"
| "stored_ok _ \<longleftrightarrow> True"

fun as_known :: "stored \<Rightarrow> stored" where
  "as_known (OtherEntity _ b x) = OtherEntity ''BaseEntity'' b x"
| "as_known e = e"

definition known_class :: "string \<Rightarrow> string" where
  "known_class cls = (if cls \<in> set type_names then cls else ''BaseEntity'')"

definition codec_ok :: "'j codec \<Rightarrow> bool" where
  "codec_ok c \<longleftrightarrow> (\<forall>e. stored_ok e \<longrightarrow> js_validate c (known_class (class_name e)) (js_dump c e) = Inr (as_known e))"

section \<open>The store\<close>

record 'j row =
  rw_type :: string
  rw_workspace_id :: string
  rw_data :: 'j

record 'j tables =
  tb_entities :: "(string, 'j row) dict"
  tb_markers :: "(string, string \<times> string) dict"

record 'j persistence =
  pe_path :: string
  pe_conn :: bool
  pe_shut :: bool
  pe_tables :: "'j tables"

definition new_persistence :: "string \<Rightarrow> 'j tables \<Rightarrow> 'j persistence" where
  "new_persistence db_path on_disk = \<lparr>pe_path = db_path, pe_conn = False, pe_shut = False, pe_tables = on_disk\<rparr>"

definition private_db :: "string \<Rightarrow> bool" where
  "private_db path \<longleftrightarrow> path = '':memory:'' \<or> path = []"

definition on_thread :: "('j tables \<Rightarrow> 'a \<times> 'j tables) \<Rightarrow> 'j persistence \<Rightarrow> ('a, 'j persistence) res" where
  "on_thread f p =
     (if pe_shut p then (Inl (RuntimeError ''cannot schedule new futures after shutdown''), p)
      else (case f (pe_tables p) of (a, t) \<Rightarrow> (Inr a, p\<lparr>pe_conn := True, pe_tables := t\<rparr>)))"

definition pe_close :: "'j persistence \<Rightarrow> (unit, 'j persistence) res" where
  "pe_close p =
     (if pe_shut p then (Inl (RuntimeError ''cannot schedule new futures after shutdown''), p)
      else (Inr (), p\<lparr>pe_conn := False, pe_shut := True,
                       pe_tables := if private_db (pe_path p) then \<lparr>tb_entities = [], tb_markers = []\<rparr> else pe_tables p\<rparr>))"

definition put_row :: "string \<Rightarrow> 'j row \<Rightarrow> 'j tables \<Rightarrow> 'j tables" where
  "put_row i r t = t\<lparr>tb_entities := dset i r (tb_entities t)\<rparr>"

definition row_of :: "'j codec \<Rightarrow> stored \<Rightarrow> 'j row" where
  "row_of c e = \<lparr>rw_type = class_name e, rw_workspace_id = be_workspace_id (base_of e), rw_data = js_dump c e\<rparr>"

definition pe_save :: "'j codec \<Rightarrow> stored \<Rightarrow> 'j persistence \<Rightarrow> (string, 'j persistence) res" where
  "pe_save c e p = on_thread (\<lambda>t. (be_id (base_of e), put_row (be_id (base_of e)) (row_of c e) t)) p"

definition rehydrate :: "'j codec \<Rightarrow> 'j row \<Rightarrow> exn + stored" where
  "rehydrate c r = js_validate c (known_class (rw_type r)) (rw_data r)"

fun rehydrate_all :: "'j codec \<Rightarrow> 'j row list \<Rightarrow> exn + stored list" where
  "rehydrate_all c [] = Inr []"
| "rehydrate_all c (r # rs) =
     (case rehydrate c r of
        Inl x \<Rightarrow> Inl x
      | Inr e \<Rightarrow> (case rehydrate_all c rs of Inl x \<Rightarrow> Inl x | Inr es \<Rightarrow> Inr (e # es)))"

definition pe_get :: "'j codec \<Rightarrow> string \<Rightarrow> 'j persistence \<Rightarrow> (stored option, 'j persistence) res" where
  "pe_get c i p =
     (case on_thread (\<lambda>t. (dget (tb_entities t) i, t)) p of
        (Inl x, p1) \<Rightarrow> (Inl x, p1)
      | (Inr None, p1) \<Rightarrow> (Inr None, p1)
      | (Inr (Some r), p1) \<Rightarrow> (map_sum id Some (rehydrate c r), p1))"

text \<open>The rows that a \<open>SELECT\<close> with \<open>ORDER BY id\<close> gives.\<close>

definition select_rows :: "('j row \<Rightarrow> bool) \<Rightarrow> 'j tables \<Rightarrow> 'j row list" where
  "select_rows P t = map snd (sort_key fst (filter (\<lambda>(_, r). P r) (tb_entities t)))"

definition type_clause :: "string option \<Rightarrow> 'j row \<Rightarrow> bool" where
  "type_clause entity_type r = (case entity_type of None \<Rightarrow> True | Some ty \<Rightarrow> ty = [] \<or> rw_type r = ty)"

definition pe_list :: "'j codec \<Rightarrow> string \<Rightarrow> string option \<Rightarrow> 'j persistence \<Rightarrow> (stored list, 'j persistence) res" where
  "pe_list c workspace_id entity_type p =
     (case on_thread (\<lambda>t. (select_rows (\<lambda>r. rw_workspace_id r = workspace_id \<and> type_clause entity_type r) t, t)) p of
        (Inl x, p1) \<Rightarrow> (Inl x, p1)
      | (Inr rs, p1) \<Rightarrow> (rehydrate_all c rs, p1))"

definition pe_list_all :: "'j codec \<Rightarrow> string option \<Rightarrow> 'j persistence \<Rightarrow> (stored list, 'j persistence) res" where
  "pe_list_all c entity_type p =
     (case on_thread (\<lambda>t. (select_rows (type_clause entity_type) t, t)) p of
        (Inl x, p1) \<Rightarrow> (Inl x, p1)
      | (Inr rs, p1) \<Rightarrow> (rehydrate_all c rs, p1))"

definition pe_delete :: "string \<Rightarrow> 'j persistence \<Rightarrow> (bool, 'j persistence) res" where
  "pe_delete i p =
     on_thread (\<lambda>t. (dget (tb_entities t) i \<noteq> None, t\<lparr>tb_entities := ddel i (tb_entities t)\<rparr>)) p"

definition pe_exists :: "string \<Rightarrow> 'j persistence \<Rightarrow> (bool, 'j persistence) res" where
  "pe_exists i p = on_thread (\<lambda>t. (dget (tb_entities t) i \<noteq> None, t)) p"

definition pe_count :: "string \<Rightarrow> 'j persistence \<Rightarrow> (int, 'j persistence) res" where
  "pe_count workspace_id p =
     on_thread (\<lambda>t. (int (length (filter (\<lambda>(_, r). rw_workspace_id r = workspace_id) (tb_entities t))), t)) p"

definition put_marker :: "string \<Rightarrow> string \<times> string \<Rightarrow> 'j tables \<Rightarrow> 'j tables" where
  "put_marker key v t = t\<lparr>tb_markers := row_replace key v (tb_markers t)\<rparr>"

definition pe_mark :: "string \<Rightarrow> string \<Rightarrow> string \<Rightarrow> 'j persistence \<Rightarrow> (unit, 'j persistence) res" where
  "pe_mark key workspace_id val p = on_thread (\<lambda>t. ((), put_marker key (workspace_id, val) t)) p"

text \<open>The marker check has a connection of its own, so it never sees a private database.\<close>

definition contains_marker :: "string \<Rightarrow> 'j persistence \<Rightarrow> bool" where
  "contains_marker key p \<longleftrightarrow> \<not> private_db (pe_path p) \<and> dget (tb_markers (pe_tables p)) key \<noteq> None"

section \<open>Lemmas\<close>

interpretation entity_rows: keyed_store "\<lambda>_. True" put_row "\<lambda>t. dget (tb_entities t)"
  by unfold_locales (simp_all add: put_row_def dict_simps)

interpretation marker_rows: keyed_store "\<lambda>_. True" put_marker "\<lambda>t. dget (tb_markers t)"
  by unfold_locales (simp_all add: put_marker_def dget_row_replace)

lemma put_row_table [simp]: "tb_entities (put_row i r t) = dset i r (tb_entities t)"
  by (simp add: put_row_def)

lemma rehydrate_row_of: "codec_ok c \<Longrightarrow> stored_ok e \<Longrightarrow> rehydrate c (row_of c e) = Inr (as_known e)"
  by (simp add: codec_ok_def rehydrate_def row_of_def)

lemma rehydrate_rows: "codec_ok c \<Longrightarrow> list_all stored_ok es \<Longrightarrow> rehydrate_all c (map (row_of c) es) = Inr (map as_known es)"
  by (induction es) (simp_all add: rehydrate_row_of)

lemma row_of_sel [simp]:
  "rw_type (row_of c e) = class_name e" "rw_workspace_id (row_of c e) = be_workspace_id (base_of e)"
  by (simp_all add: row_of_def)

text \<open>Saving a list of entities, one after the other.\<close>

definition save_all :: "'j codec \<Rightarrow> stored list \<Rightarrow> 'j persistence \<Rightarrow> 'j persistence" where
  "save_all c es p = fold (\<lambda>e p. snd (pe_save c e p)) es p"

lemma save_all_tables:
  "\<not> pe_shut p \<Longrightarrow> \<not> pe_shut (save_all c es p) \<and>
     pe_tables (save_all c es p) = fold (\<lambda>(i, r). put_row i r) (map (\<lambda>e. (be_id (base_of e), row_of c e)) es) (pe_tables p) \<and>
     pe_path (save_all c es p) = pe_path p"
  unfolding save_all_def by (induction es arbitrary: p) (simp_all add: pe_save_def on_thread_def)

text \<open>What the entity table means: the entities by id, the last saved one for each.\<close>

definition entity_id :: "stored \<Rightarrow> string" where
  "entity_id e = be_id (base_of e)"

definition contents :: "stored list \<Rightarrow> (string, stored) dict" where
  "contents es = fold (\<lambda>e. dset (entity_id e) e) es []"

definition last_saved :: "stored list \<Rightarrow> string \<Rightarrow> stored option" where
  "last_saved es = map_of (rev (map (\<lambda>e. (entity_id e, e)) es))"

lemma dset_map: "dset k (f v) (map (apsnd f) d) = map (apsnd f) (dset k v d)"
  by (induction d) auto

lemma map_of_map_row: "map_of (map (apsnd f) d) i = map_option f (map_of d i)"
  by (induction d) auto

lemma save_all_rows:
  assumes "\<not> pe_shut p" and "tb_entities (pe_tables p) = map (apsnd (row_of c)) d"
  shows "tb_entities (pe_tables (save_all c es p)) = map (apsnd (row_of c)) (fold (\<lambda>e. dset (entity_id e) e) es d)"
  using assms unfolding save_all_def
  by (induction es arbitrary: p d) (simp_all add: pe_save_def on_thread_def entity_id_def dset_map)

lemma contents_ok: "dict_ok (contents es)"
proof -
  have "dict_ok d \<Longrightarrow> dict_ok (fold (\<lambda>e. dset (entity_id e) e) es d)" for d
    by (induction es arbitrary: d) simp_all
  then show ?thesis by (simp add: contents_def)
qed

lemma contents_get: "dget (contents es) i = last_saved es i"
proof -
  have "dget (fold (\<lambda>e. dset (entity_id e) e) es d) i = (case last_saved es i of None \<Rightarrow> dget d i | Some e \<Rightarrow> Some e)" for d
    unfolding last_saved_def by (induction es arbitrary: d) (auto simp: map_add_def update_conv' split: option.splits)
  then show ?thesis by (simp add: contents_def split: option.split)
qed

lemma contents_mem: "(i, e) \<in> set (contents es) \<longleftrightarrow> last_saved es i = Some e"
  using contents_ok [of es] by (simp add: dict_ok_def map_of_eq_Some_iff flip: contents_get)

lemma last_saved_id: "last_saved es i = Some e \<Longrightarrow> i = entity_id e \<and> e \<in> set es"
  by (auto simp: last_saved_def dest: map_of_SomeD)

lemma select_rows_map:
  assumes "tb_entities t = map (apsnd (row_of c)) d"
  shows "select_rows P t = map (row_of c) (map snd (sort_key fst (filter (\<lambda>(_, e). P (row_of c e)) d)))"
proof -
  have sorted: "sort_key fst (map (apsnd f) xs) = map (apsnd f) (sort_key fst xs)" for f :: "stored \<Rightarrow> 'b row" and xs :: "(string \<times> stored) list"
  proof (induction xs)
    case (Cons x xs)
    have "insort_key fst (apsnd f x) (map (apsnd f) ys) = map (apsnd f) (insort_key fst x ys)" for ys
      by (induction ys) auto
    with Cons show ?case by simp
  qed simp
  have "filter (\<lambda>(_, r). P r) (tb_entities t) = map (apsnd (row_of c)) (filter (\<lambda>(_, e). P (row_of c e)) d)"
    unfolding assms by (induction d) auto
  then show ?thesis by (simp add: select_rows_def sorted comp_def)
qed

lemma sorted_ids:
  assumes "dict_ok d" and "\<forall>(i, e) \<in> set d. i = entity_id e"
  shows "sorted_wrt (<) (map entity_id (map snd (sort_key fst (filter P d))))"
proof -
  let ?l = "sort_key fst (filter P d)"
  have ids: "map entity_id (map snd ?l) = map fst ?l" using assms(2) by (auto simp: case_prod_beta)
  have "distinct (map fst ?l)" using assms(1) by (metis dict_ok_def dict_ok_filter distinct_map distinct_sort set_sort)
  moreover have "sorted (map fst ?l)" by simp
  ultimately show ?thesis unfolding ids by (simp add: strict_sorted_iff)
qed

lemma as_known_id [simp]: "entity_id (as_known e) = entity_id e"
  by (cases e) (simp_all add: entity_id_def)

definition empty_tables :: "'j tables" where
  "empty_tables = \<lparr>tb_entities = [], tb_markers = []\<rparr>"

lemma list_saved:
  assumes "codec_ok c" and "list_all stored_ok es"
    and "\<not> pe_shut p" and "tb_entities (pe_tables p) = map (apsnd (row_of c)) (contents es)"
  shows "pe_list c ws ty p =
      (Inr (map as_known (map snd (sort_key fst (filter (\<lambda>(_, e). be_workspace_id (base_of e) = ws \<and> type_clause ty (row_of c e)) (contents es))))),
       p\<lparr>pe_conn := True\<rparr>)"
proof -
  let ?P = "\<lambda>r. rw_workspace_id r = ws \<and> type_clause ty r"
  let ?l = "map snd (sort_key fst (filter (\<lambda>(_, e). ?P (row_of c e)) (contents es)))"
  have "list_all stored_ok ?l"
    using assms(2) by (auto simp: list_all_iff contents_mem dest: last_saved_id)
  from rehydrate_rows [OF assms(1) this] select_rows_map [OF assms(4), of ?P] assms(3)
  show ?thesis by (simp add: pe_list_def on_thread_def)
qed

section \<open>Properties\<close>


text \<open>The codec that keeps entities as they are.\<close>

definition plain_codec :: "stored codec" where
  "plain_codec = \<lparr>js_dump = (\<lambda>e. e), js_validate = (\<lambda>_ e. Inr (as_known e))\<rparr>"

lemma plain_codec_ok: "codec_ok plain_codec"
  by (simp add: codec_ok_def plain_codec_def)

definition demo_base :: "string \<Rightarrow> string \<Rightarrow> base_entity" where
  "demo_base i ws = \<lparr>be_id = i, be_version = 1, be_created_at = [], be_updated_at = [], be_metadata = [], be_workspace_id = ws\<rparr>"


end
