(* ===== verification/Ingest.thy ===== *)
theory Ingest
  imports Storage Codecs
begin

text \<open>
  The first stages of the knowledge pipeline: \<open>kernel/scanner.py\<close>, \<open>kernel/parser.py\<close>,
  \<open>kernel/chunker.py\<close> and \<open>kernel/embedder.py\<close>.

  \<^item> A stage takes an event and returns the events it publishes. Payloads are dictionaries of
    \<open>datum\<close>, read with the defaults of the code; an exception a stage contains is logged and gives
    no events.
  \<^item> The file system is a parameter: what a directory lists, what a file holds. So are the optional
    packages (\<open>None\<close> when not installed), the table of \<open>mimetypes\<close> and the hash function.
  \<^item> Starting and stopping a stage are its subscription on the bus.
\<close>

section \<open>Definitions\<close>

record stage_event =
  se_type :: string
  se_source :: string
  se_payload :: attrs

subsection \<open>Subscriptions of the stages\<close>

datatype stage = Parser | Chunker | Embedder | Graph | Retrieval

text \<open>\<open>start\<close> and \<open>stop\<close> are the same code in every stage but for the event type.\<close>

definition stage_start :: "string \<Rightarrow> stage \<Rightarrow> string \<Rightarrow> string option \<times> stage bus \<Rightarrow> string option \<times> stage bus" where
  "stage_start event_type h uid s =
     (case s of
        (Some i, b) \<Rightarrow> (Some i, b)
      | (None, b) \<Rightarrow> (case subscribe uid event_type h b of (i, b1) \<Rightarrow> (Some i, b1)))"

definition stage_stop :: "string option \<times> stage bus \<Rightarrow> string option \<times> stage bus" where
  "stage_stop s = (case s of (Some i, b) \<Rightarrow> (None, snd (unsubscribe i b)) | (None, b) \<Rightarrow> (None, b))"

definition parser_start :: "string \<Rightarrow> string option \<times> stage bus \<Rightarrow> string option \<times> stage bus" where
  "parser_start = stage_start ''document.scanned'' Parser"

definition chunker_start :: "string \<Rightarrow> string option \<times> stage bus \<Rightarrow> string option \<times> stage bus" where
  "chunker_start = stage_start ''document.parsed'' Chunker"

definition embedder_start :: "string \<Rightarrow> string option \<times> stage bus \<Rightarrow> string option \<times> stage bus" where
  "embedder_start = stage_start ''chunk.created'' Embedder"

definition graph_start :: "string \<Rightarrow> string option \<times> stage bus \<Rightarrow> string option \<times> stage bus" where
  "graph_start = stage_start ''chunk.embedded'' Graph"

definition retrieval_start :: "string \<Rightarrow> string option \<times> stage bus \<Rightarrow> string option \<times> stage bus" where
  "retrieval_start = stage_start ''graph.updated'' Retrieval"

subsection \<open>The scanner\<close>

text \<open>An entry of a directory listing: \<open>str(path.resolve())\<close>, \<open>path.name\<close> and \<open>path.is_file()\<close>.\<close>

record fs_entry =
  fe_resolved :: string
  fe_name :: string
  fe_is_file :: bool

text \<open>\<open>listing recursive base\<close> is what the glob yields, \<open>None\<close> if the path does not exist.\<close>

type_synonym fs_listing = "bool \<Rightarrow> string \<Rightarrow> fs_entry list option"

record scanner =
  sc_workspace_id :: string
  sc_paths :: "string list"
  sc_extensions :: "string list"
  sc_recursive :: bool
  sc_running :: bool
  sc_task :: bool
  sc_seen :: "string set"

definition normal_extension :: "string \<Rightarrow> string" where
  "normal_extension e = lower (if startswith ''.'' e then e else ''.'' @ e)"

definition new_scanner :: "string \<Rightarrow> string list \<Rightarrow> string list \<Rightarrow> bool \<Rightarrow> scanner" where
  "new_scanner workspace_id paths extensions recursive =
     \<lparr>sc_workspace_id = workspace_id, sc_paths = paths, sc_extensions = map normal_extension extensions, sc_recursive = recursive,
      sc_running = False, sc_task = False, sc_seen = {}\<rparr>"

text \<open>\<open>PurePath.suffix\<close>: the name from its last dot on, unless the dot is the first or the last character.\<close>

definition suffix_of :: "string \<Rightarrow> string" where
  "suffix_of name =
     (let ext = rev (takeWhile (\<lambda>c. c \<noteq> CHR ''.'') (rev name))
      in if ext = [] \<or> length ext + 1 \<ge> length name then [] else ''.'' @ ext)"

definition iter_files :: "fs_listing \<Rightarrow> scanner \<Rightarrow> fs_entry list" where
  "iter_files fs sc =
     concat (map (\<lambda>base. case fs (sc_recursive sc) base of
                            None \<Rightarrow> []
                          | Some es \<Rightarrow> filter (\<lambda>e. fe_is_file e \<and> lower (suffix_of (fe_name e)) \<in> set (sc_extensions sc)) es)
       (sc_paths sc))"

definition mime_map :: "(string, string) dict" where
  "mime_map = [(''.md'', ''text/markdown''), (''.markdown'', ''text/markdown''), (''.txt'', ''text/plain''), (''.pdf'', ''application/pdf''),
               (''.json'', ''application/json''), (''.csv'', ''text/csv''), (''.html'', ''text/html'')]"

definition DOpt :: "string option \<Rightarrow> datum" where
  "DOpt so = (case so of None \<Rightarrow> DNone | Some s \<Rightarrow> DStr s)"

definition scanned_event :: "(string \<Rightarrow> string option) \<Rightarrow> scanner \<Rightarrow> fs_entry \<Rightarrow> stage_event" where
  "scanned_event guess sc e =
     \<lparr>se_type = ''document.scanned'', se_source = ''scanner:'' @ sc_workspace_id sc,
      se_payload = [(''path'', DStr (fe_resolved e)),
                    (''mime_type'', DOpt (case dget mime_map (lower (suffix_of (fe_name e))) of Some m \<Rightarrow> Some m | None \<Rightarrow> guess (fe_resolved e))),
                    (''workspace_id'', DStr (sc_workspace_id sc))]\<rparr>"

fun sweep_once :: "(string \<Rightarrow> string option) \<Rightarrow> (string \<Rightarrow> bool) \<Rightarrow> fs_entry list \<Rightarrow> scanner \<Rightarrow> stage_event list \<times> scanner" where
  "sweep_once guess marked [] sc = ([], sc)"
| "sweep_once guess marked (e # es) sc =
     (let key = fe_resolved e; sc1 = sc\<lparr>sc_seen := insert key (sc_seen sc)\<rparr>; (out, sc2) = sweep_once guess marked es sc1
      in if marked (''scanned:'' @ key) then (out, sc2) else (scanned_event guess sc e # out, sc2))"

definition scan_once ::
  "(string \<Rightarrow> string option) \<Rightarrow> fs_listing \<Rightarrow> 'j persistence option \<Rightarrow> bool \<Rightarrow> scanner \<Rightarrow> stage_event list \<times> scanner" where
  "scan_once guess fs persistence skip_persisted sc =
     sweep_once guess (\<lambda>m. skip_persisted \<and> (case persistence of None \<Rightarrow> False | Some p \<Rightarrow> contains_marker m p)) (iter_files fs sc) sc"

fun sweep_new :: "(string \<Rightarrow> string option) \<Rightarrow> fs_entry list \<Rightarrow> scanner \<Rightarrow> stage_event list \<times> scanner" where
  "sweep_new guess [] sc = ([], sc)"
| "sweep_new guess (e # es) sc =
     (if fe_resolved e \<in> sc_seen sc then sweep_new guess es sc
      else (case sweep_new guess es (sc\<lparr>sc_seen := insert (fe_resolved e) (sc_seen sc)\<rparr>) of
              (out, sc1) \<Rightarrow> (scanned_event guess sc e # out, sc1)))"

definition scan_new :: "(string \<Rightarrow> string option) \<Rightarrow> fs_listing \<Rightarrow> scanner \<Rightarrow> stage_event list \<times> scanner" where
  "scan_new guess fs sc = sweep_new guess (iter_files fs sc) sc"

text \<open>The rounds of the watch loop, one per state of the file system it finds when it wakes up.\<close>

fun watch_loop :: "(string \<Rightarrow> string option) \<Rightarrow> fs_listing list \<Rightarrow> scanner \<Rightarrow> stage_event list \<times> scanner" where
  "watch_loop guess [] sc = ([], sc)"
| "watch_loop guess (fs # rounds) sc =
     (if sc_running sc then
        (case scan_new guess fs sc of (out, sc1) \<Rightarrow> (case watch_loop guess rounds sc1 of (later, sc2) \<Rightarrow> (out @ later, sc2)))
      else ([], sc))"

definition scanner_start :: "(string \<Rightarrow> string option) \<Rightarrow> fs_listing \<Rightarrow> scanner \<Rightarrow> stage_event list \<times> scanner" where
  "scanner_start guess fs sc =
     (if sc_running sc then ([], sc)
      else (case scan_new guess fs (sc\<lparr>sc_running := True\<rparr>) of (out, sc1) \<Rightarrow> (out, sc1\<lparr>sc_task := True\<rparr>)))"

definition scanner_stop :: "scanner \<Rightarrow> scanner" where
  "scanner_stop sc = sc\<lparr>sc_running := False, sc_task := False\<rparr>"

subsection \<open>The parser\<close>

record content_env =
  ce_read_text :: "string \<Rightarrow> exn + string"
  ce_pdfminer :: "(string \<Rightarrow> exn + string option) option"

definition text_mimes :: "string list" where
  "text_mimes = [''text/markdown'', ''text/plain'', ''text/csv'', ''text/html'', ''application/json'']"

text \<open>\<open>PurePath.name\<close>: the last component, empty and dot components left out.\<close>

definition path_name :: "string \<Rightarrow> string" where
  "path_name p = (case rev (filter (\<lambda>w. w \<noteq> [] \<and> w \<noteq> ''.'') (split_on (CHR ''/'') p)) of [] \<Rightarrow> [] | w # _ \<Rightarrow> w)"

definition parse_text :: "content_env \<Rightarrow> string \<Rightarrow> exn + string" where
  "parse_text env p = (case ce_read_text env p of Inr s \<Rightarrow> Inr s | Inl x \<Rightarrow> if catches ''OSError'' x then Inr [] else Inl x)"

definition parse_pdf :: "content_env \<Rightarrow> string \<Rightarrow> exn + string" where
  "parse_pdf env p =
     (case ce_pdfminer env of
        None \<Rightarrow> Inr (''[pdf:'' @ path_name p @ '']'')
      | Some extract_text \<Rightarrow>
          (case extract_text p of
             Inr t \<Rightarrow> Inr (or_str t [])
           | Inl x \<Rightarrow> if catches ''Exception'' x then Inr [] else Inl x))"

definition parse :: "content_env \<Rightarrow> string \<Rightarrow> string option \<Rightarrow> exn + string" where
  "parse env path mime_type =
     (let mime = lower (or_str mime_type [])
      in if mime = ''application/pdf'' \<or> lower (suffix_of (path_name path)) = ''.pdf'' then parse_pdf env path
         else if mime \<in> set text_mimes \<or> startswith ''text/'' mime \<or> mime = [] then parse_text env path
         else Inr [])"

text \<open>\<open>Path(path)\<close> and \<open>mime_type.lower()\<close> raise on values of the wrong type, inside the \<open>try\<close>.\<close>

definition on_scanned :: "content_env \<Rightarrow> stage_event \<Rightarrow> (exn + stage_event list)" where
  "on_scanned env e =
     (let payload = se_payload e;
          path = dget_or payload ''path'' DNone;
          mime = dget_or payload ''mime_type'' DNone;
          content = (case path of
             DStr p \<Rightarrow> (case mime of
                DStr m \<Rightarrow> parse env p (Some m)
              | m \<Rightarrow> if datum_truthy m then Inl (AttributeError ''lower'') else parse env p None)
           | _ \<Rightarrow> Inl (TypeError ''expected str, bytes or os.PathLike object''))
      in case content of
           Inl x \<Rightarrow> if catches ''Exception'' x then Inr [] else Inl x
         | Inr t \<Rightarrow>
             Inr [\<lparr>se_type = ''document.parsed'', se_source = ''parser'',
                   se_payload = [(''path'', path), (''content'', DStr t), (''mime_type'', mime),
                                 (''workspace_id'', dget_or payload ''workspace_id'' DNone)]\<rparr>])"

subsection \<open>The chunker\<close>

record chunker =
  chk_size :: int
  chk_overlap :: int

definition new_chunker :: "int \<Rightarrow> int \<Rightarrow> exn + chunker" where
  "new_chunker chunk_size overlap =
     (if chunk_size \<le> 0 then Inl (ValueError ''chunk_size must be > 0'')
      else if overlap < 0 \<or> overlap \<ge> chunk_size then Inl (ValueError ''overlap must satisfy 0 <= overlap < chunk_size'')
      else Inr \<lparr>chk_size = chunk_size, chk_overlap = overlap\<rparr>)"

definition chunker_ok :: "chunker \<Rightarrow> bool" where
  "chunker_ok k \<longleftrightarrow> 0 < chk_size k \<and> 0 \<le> chk_overlap k \<and> chk_overlap k < chk_size k"

text \<open>The positions of the window: \<open>start\<close> and \<open>end\<close> of every chunk. \<open>step\<close> is positive.\<close>

function windows :: "nat \<Rightarrow> nat \<Rightarrow> nat \<Rightarrow> nat \<Rightarrow> (nat \<times> nat) list" where
  "windows width step n start =
     (if start < n \<and> 0 < step then
        (let e = min (start + width) n
         in (start, e) # (if e \<ge> n then [] else windows width step n (start + step)))
      else [])"
  by pat_completeness auto
termination by (relation "measure (\<lambda>(width, step, n, start). n - start)") auto

declare windows.simps [simp del]

definition new_entity :: "string \<Rightarrow> string \<Rightarrow> attrs \<Rightarrow> string \<Rightarrow> base_entity" where
  "new_entity uid now metadata workspace_id =
     \<lparr>be_id = uid, be_version = 1, be_created_at = now, be_updated_at = now, be_metadata = metadata, be_workspace_id = workspace_id\<rparr>"

definition slice :: "nat \<Rightarrow> nat \<Rightarrow> 'a list \<Rightarrow> 'a list" where
  "slice i j xs = take (j - i) (drop i xs)"

definition new_chunk :: "base_entity \<Rightarrow> string \<Rightarrow> string \<Rightarrow> real list option \<Rightarrow> nat \<Rightarrow> nat \<Rightarrow> chunk" where
  "new_chunk base document_id text embedding start e =
     base_entity.extend base \<lparr>ck_document_id = document_id, ck_text = text, ck_embedding = embedding, ck_start = int start, ck_end = int e\<rparr>"

definition chunk_content :: "(nat \<Rightarrow> string) \<Rightarrow> string \<Rightarrow> chunker \<Rightarrow> string \<Rightarrow> string \<Rightarrow> string \<Rightarrow> chunk list" where
  "chunk_content uid now k content source_path workspace_id =
     map (\<lambda>(i, (s, e)). new_chunk (new_entity (uid i) now [(''document_path'', DStr source_path)] workspace_id) source_path (slice s e content) None s e)
       (enumerate 0 (windows (nat (chk_size k)) (nat (chk_size k - chk_overlap k)) (length content) 0))"

text \<open>
  A path or workspace that is not a string fails the validation of \<open>Chunk\<close>, which is contained; an
  empty content makes no chunk and so no validation. Content that is no string is not sliced into
  texts either.
\<close>

definition on_parsed :: "(nat \<Rightarrow> string) \<Rightarrow> string \<Rightarrow> chunker \<Rightarrow> stage_event \<Rightarrow> stage_event list" where
  "on_parsed uid now k e =
     (let payload = se_payload e;
          content = dget_or payload ''content'' DNone;
          path = dget_or payload ''path'' DNone;
          workspace_id = dget_or payload ''workspace_id'' (DStr ''default'')
      in case (content, path, workspace_id) of
           (DStr t, DStr p, DStr w) \<Rightarrow>
             map (\<lambda>c. \<lparr>se_type = ''chunk.created'', se_source = ''chunker'',
                        se_payload = [(''chunk_id'', DStr (be_id c)), (''document_path'', path), (''text'', DStr (ck_text c)),
                                      (''embedding'', DNone), (''workspace_id'', workspace_id)]\<rparr>)
               (chunk_content uid now k t p w)
         | _ \<Rightarrow> [])"

subsection \<open>The embedder\<close>

definition HASH_DIM :: nat where
  "HASH_DIM = 64"

text \<open>
  \<open>counter.to_bytes(4, "big")\<close> and \<open>struct.unpack(">I", ...)\<close>. The digest of the hash function
  has a multiple of four bytes.
\<close>

definition be32 :: "nat \<Rightarrow> bytes" where
  "be32 n = [n div 16777216 mod 256, n div 65536 mod 256, n div 256 mod 256, n mod 256]"

fun digest_floats :: "bytes \<Rightarrow> real list \<Rightarrow> real list" where
  "digest_floats (a # b # c # d # rest) floats =
     (if length floats \<ge> HASH_DIM then floats
      else digest_floats rest (floats @ [real (((a * 256 + b) * 256 + c) * 256 + d) / 4294967295]))"
| "digest_floats _ floats = floats"

partial_function (option) hash_floats :: "(bytes \<Rightarrow> bytes) \<Rightarrow> bytes \<Rightarrow> nat \<Rightarrow> real list \<Rightarrow> real list option" where
  "hash_floats sha256 raw counter floats =
     (if length floats < HASH_DIM then hash_floats sha256 raw (counter + 1) (digest_floats (sha256 (raw @ be32 counter)) floats)
      else Some floats)"

definition l2_normalise :: "real list \<Rightarrow> real list" where
  "l2_normalise floats =
     (let norm = sqrt (sum_list (map (\<lambda>f. f * f) floats))
      in if norm > 0 then map (\<lambda>f. f / norm) floats else floats)"

definition embed_hash :: "(bytes \<Rightarrow> bytes) \<Rightarrow> string \<Rightarrow> real list option" where
  "embed_hash sha256 text = map_option l2_normalise (hash_floats sha256 (utf8_encode text) 0 [])"

record embedder =
  eb_backend :: string
  eb_sha256 :: "bytes \<Rightarrow> bytes"
  eb_model :: "(string \<Rightarrow> exn + real list) option"

definition embed_st :: "embedder \<Rightarrow> string \<Rightarrow> exn + real list option" where
  "embed_st eb text =
     (case eb_model eb of
        None \<Rightarrow> Inr None
      | Some encode \<Rightarrow>
          (case encode text of Inr v \<Rightarrow> Inr (Some v) | Inl x \<Rightarrow> if catches ''Exception'' x then Inr None else Inl x))"

text \<open>The outer option is the loop of the hash backend, which might not end.\<close>

definition embed :: "embedder \<Rightarrow> string \<Rightarrow> (exn + real list) option" where
  "embed eb text =
     (if eb_backend eb = ''sentence-transformers'' then
        (case embed_st eb text of
           Inl x \<Rightarrow> Some (Inl x)
         | Inr (Some v) \<Rightarrow> Some (Inr v)
         | Inr None \<Rightarrow> map_option Inr (embed_hash (eb_sha256 eb) text))
      else map_option Inr (embed_hash (eb_sha256 eb) text))"

definition on_chunk :: "embedder \<Rightarrow> stage_event \<Rightarrow> (exn + stage_event list) option" where
  "on_chunk eb e =
     (let payload = se_payload e;
          text = (case dget payload ''text'' of None \<Rightarrow> DStr [] | Some d \<Rightarrow> if datum_truthy d then d else DStr []);
          published = (\<lambda>v. [\<lparr>se_type = ''chunk.embedded'', se_source = ''embedder'',
            se_payload = [(''chunk_id'', dget_or payload ''chunk_id'' DNone), (''embedding'', DVec v),
                          (''workspace_id'', dget_or payload ''workspace_id'' (DStr ''default''))]\<rparr>])
      in case text of
           DStr t \<Rightarrow>
             (case embed eb t of
                None \<Rightarrow> None
              | Some (Inr v) \<Rightarrow> Some (Inr (published v))
              | Some (Inl x) \<Rightarrow> if catches ''Exception'' x then Some (Inr []) else Some (Inl x))
         | _ \<Rightarrow> Some (Inr []))"

section \<open>The scanner\<close>

lemma sweep_new_spec:
  "sweep_new guess es sc = (out, sc') \<Longrightarrow>
     \<exists>new. out = map (scanned_event guess sc) new \<and> distinct (map fe_resolved new) \<and>
       fe_resolved ` set new = fe_resolved ` set es - sc_seen sc \<and>
       sc' = sc\<lparr>sc_seen := sc_seen sc \<union> fe_resolved ` set es\<rparr>"
proof (induction guess es sc arbitrary: out sc' rule: sweep_new.induct)
  case (2 guess e es sc)
  show ?case
  proof (cases "fe_resolved e \<in> sc_seen sc")
    case True
    with 2(1) 2(3) show ?thesis by (auto simp: insert_absorb)
  next
    case False
    let ?sc1 = "sc\<lparr>sc_seen := insert (fe_resolved e) (sc_seen sc)\<rparr>"
    obtain out1 sc1 where r: "sweep_new guess es ?sc1 = (out1, sc1)" by (metis surj_pair)
    from 2(2) [OF False r] obtain new where new: "out1 = map (scanned_event guess ?sc1) new" "distinct (map fe_resolved new)"
      "fe_resolved ` set new = fe_resolved ` set es - sc_seen ?sc1" "sc1 = ?sc1\<lparr>sc_seen := sc_seen ?sc1 \<union> fe_resolved ` set es\<rparr>" by blast
    have "scanned_event guess ?sc1 = scanned_event guess sc" by (simp add: scanned_event_def fun_eq_iff)
    moreover have "fe_resolved e \<notin> fe_resolved ` set new" using new(3) by simp
    ultimately show ?thesis using 2(3) False r new
      by (intro exI [of _ "e # new"]) auto
  qed
qed simp

text \<open>What the rounds of the watch loop find.\<close>

definition found :: "fs_listing list \<Rightarrow> scanner \<Rightarrow> string set" where
  "found rounds sc = (\<Union>fs \<in> set rounds. fe_resolved ` set (iter_files fs sc))"

lemma watch_loop_spec:
  assumes "sc_running sc" and "watch_loop guess rounds sc = (out, sc')"
  shows "\<exists>new. out = map (scanned_event guess sc) new \<and> distinct (map fe_resolved new) \<and>
       fe_resolved ` set new = found rounds sc - sc_seen sc \<and> sc' = sc\<lparr>sc_seen := sc_seen sc \<union> found rounds sc\<rparr>"
  using assms
proof (induction rounds arbitrary: sc out sc')
  case (Cons fs rounds)
  obtain out1 sc1 where one: "scan_new guess fs sc = (out1, sc1)" by (cases "scan_new guess fs sc")
  obtain out2 sc2 where two: "watch_loop guess rounds sc1 = (out2, sc2)" by (cases "watch_loop guess rounds sc1")
  let ?here = "fe_resolved ` set (iter_files fs sc)"
  from sweep_new_spec [OF one [unfolded scan_new_def]] obtain new1 where n1: "out1 = map (scanned_event guess sc) new1"
    "distinct (map fe_resolved new1)" "fe_resolved ` set new1 = ?here - sc_seen sc" "sc1 = sc\<lparr>sc_seen := sc_seen sc \<union> ?here\<rparr>" by blast
  from Cons.IH [OF _ two] Cons.prems(1) n1(4) obtain new2 where n2: "out2 = map (scanned_event guess sc1) new2" "distinct (map fe_resolved new2)"
    "fe_resolved ` set new2 = found rounds sc1 - sc_seen sc1" "sc2 = sc1\<lparr>sc_seen := sc_seen sc1 \<union> found rounds sc1\<rparr>" by auto
  have same: "scanned_event guess sc1 = scanned_event guess sc" "found rounds sc1 = found rounds sc"
    using n1(4) by (simp_all add: scanned_event_def fun_eq_iff found_def iter_files_def)
  have "distinct (map fe_resolved (new1 @ new2))" using n1 n2 by auto
  moreover have un: "found (fs # rounds) sc = ?here \<union> found rounds sc" by (simp add: found_def)
  moreover have "fe_resolved ` set (new1 @ new2) = found (fs # rounds) sc - sc_seen sc"
    unfolding un set_append image_Un n1(3) n2(3) same using n1(4) by auto
  moreover have "out = out1 @ out2" "sc' = sc2" using Cons.prems one two by simp_all
  moreover have "sc2 = sc\<lparr>sc_seen := sc_seen sc \<union> found (fs # rounds) sc\<rparr>" using n2(4) n1(4) same un by (simp add: Un_assoc)
  moreover have "out1 @ out2 = map (scanned_event guess sc) (new1 @ new2)" using n1(1) n2(1) same by simp
  ultimately show ?case by blast
qed (simp add: found_def)

section \<open>The chunker\<close>

text \<open>The content put together again: the first text and what every later one adds to its overlap.\<close>

definition rebuild :: "nat \<Rightarrow> 'a list list \<Rightarrow> 'a list" where
  "rebuild overlap ts = (case ts of [] \<Rightarrow> [] | t # ts' \<Rightarrow> t @ concat (map (drop overlap) ts'))"

lemma windows_rebuild:
  assumes "start < length xs" and "0 < step" and "step \<le> width"
  shows "rebuild (width - step) (map (\<lambda>(s, e). slice s e xs) (windows width step (length xs) start)) = drop start xs"
  using assms
proof (induction width step "length xs" start rule: windows.induct)
  case (1 width step start)
  show ?case
  proof (cases "length xs \<le> start + width")
    case True
    with 1(2,3) show ?thesis by (simp add: windows.simps [of width step] slice_def rebuild_def)
  next
    case False
    let ?ov = "width - step" and ?next = "start + step"
    define ws where "ws = map (\<lambda>(s, e). slice s e xs) (windows width step (length xs) ?next)"
    have IH: "rebuild ?ov ws = drop ?next xs" unfolding ws_def using False 1 by simp
    have ws: "map (\<lambda>(s, e). slice s e xs) (windows width step (length xs) start) = slice start (start + width) xs # ws"
      using False 1(2,3) by (simp add: windows.simps [of width step _ start] ws_def)
    obtain t' ts where t': "ws = t' # ts" "t' = slice ?next (min (?next + width) (length xs)) xs"
      using False 1(2-) by (auto simp: ws_def windows.simps [of width step _ ?next])
    have "?ov \<le> length t'" using t'(2) False 1(2-) by (simp add: slice_def)
    then have "concat (map (drop ?ov) ws) = drop ?ov (rebuild ?ov ws)" using t'(1) by (simp add: rebuild_def)
    then show ?thesis using IH False 1(4) unfolding ws by (simp add: rebuild_def slice_def add.commute) (metis append_take_drop_id drop_drop add.commute)
  qed
qed

lemma windows_bounds:
  assumes "(s, e) \<in> set (windows width step n start)"
  shows "start \<le> s \<and> s < n \<and> e = min (s + width) n"
  using assms
proof (induction width step n start rule: windows.induct)
  case (1 width step n start)
  show ?case using 1(2) 1(1) [OF _ refl]
    by (subst (asm) windows.simps) (auto simp: Let_def split: if_splits)
qed

lemma windows_next:
  assumes "Suc i < length (windows width step n start)"
  shows "case (windows width step n start ! i, windows width step n start ! Suc i) of ((s, e), (s', e')) \<Rightarrow> s' = s + step \<and> e = s + width"
  using assms
proof (induction width step n start arbitrary: i rule: windows.induct)
  case (1 width step n start)
  let ?rest = "windows width step n (start + step)"
  have ws: "windows width step n start = (start, start + width) # ?rest" and go: "start < n" "0 < step" "\<not> min (start + width) n \<ge> n"
    using 1(2) by (auto simp: windows.simps [of width step n start] Let_def split: if_splits)
  then obtain e' rs where rest: "?rest = (start + step, e') # rs" using 1(2) by (cases ?rest) (auto simp: windows.simps [of width step n "start + step"] Let_def split: if_splits)
  show ?case
  proof (cases i)
    case 0
    then show ?thesis using rest by (simp add: ws)
  next
    case (Suc j)
    then show ?thesis using 1(1) [OF _ refl, of j] go 1(2) by (simp add: ws)
  qed
qed

lemma chunk_content_nth:
  assumes "i < length (chunk_content uid now k content path ws)"
  shows "case windows (nat (chk_size k)) (nat (chk_size k - chk_overlap k)) (length content) 0 ! i of (s, e) \<Rightarrow>
     ck_start (chunk_content uid now k content path ws ! i) = int s \<and> ck_end (chunk_content uid now k content path ws ! i) = int e \<and>
     ck_text (chunk_content uid now k content path ws ! i) = slice s e content"
  using assms by (simp add: chunk_content_def nth_enumerate_eq new_chunk_def base_entity.defs case_prod_beta)

lemma chunk_content_texts:
  "map ck_text (chunk_content uid now k content path ws) =
     map (\<lambda>(s, e). slice s e content) (windows (nat (chk_size k)) (nat (chk_size k - chk_overlap k)) (length content) 0)"
proof -
  have "map ck_text (map (\<lambda>(i, (s, e)). new_chunk (b i) path (slice s e content) None s e) (enumerate j xs)) = map (\<lambda>(s, e). slice s e content) xs" for b j xs
    by (induction xs arbitrary: j) (auto simp: new_chunk_def base_entity.defs)
  then show ?thesis by (simp add: chunk_content_def)
qed

section \<open>The embedder\<close>

definition hash_ok :: "(bytes \<Rightarrow> bytes) \<Rightarrow> bool" where
  "hash_ok sha256 \<longleftrightarrow> (\<forall>b. length (sha256 b) = 32 \<and> (\<forall>x \<in> set (sha256 b). x < 256))"

abbreviation unit_interval :: "real list \<Rightarrow> bool" where
  "unit_interval v \<equiv> \<forall>x \<in> set v. 0 \<le> x \<and> x \<le> 1"

lemma digest_floats_spec:
  assumes "length ws = 4 * m" and "\<forall>x \<in> set ws. x < 256" and "length floats \<le> HASH_DIM" and "unit_interval floats"
  shows "length (digest_floats ws floats) = min (length floats + m) HASH_DIM \<and> unit_interval (digest_floats ws floats)"
  using assms
proof (induction ws floats arbitrary: m rule: digest_floats.induct)
  case (1 a b c d rest floats)
  show ?case
  proof (cases "length floats \<ge> HASH_DIM")
    case False
    let ?w = "((a * 256 + b) * 256 + c) * 256 + d"
    obtain m' where m: "m = Suc m'" using 1(2) by (cases m) auto
    have "?w \<le> 4294967295" using 1(3) by simp
    then have "real ?w / 4294967295 \<le> 1" by (simp del: of_nat_add of_nat_mult)
    then have "unit_interval (floats @ [real ?w / 4294967295])" using 1(5) by (auto simp del: of_nat_add of_nat_mult)
    then have new: "length (digest_floats rest (floats @ [real ?w / 4294967295])) = min (length floats + m) HASH_DIM \<and>
        unit_interval (digest_floats rest (floats @ [real ?w / 4294967295]))"
      using 1(1) [OF False, of m'] 1(2,3) False m by (simp del: of_nat_add of_nat_mult)
    have eq: "digest_floats (a # b # c # d # rest) floats = digest_floats rest (floats @ [real ?w / 4294967295])"
      using False by (simp del: of_nat_add of_nat_mult)
    show ?thesis unfolding eq by (rule new)
  qed (use 1 in simp)
qed (auto simp: min_def)

lemma hash_floats_return:
  assumes "hash_ok sha256" and "length floats \<le> HASH_DIM" and "unit_interval floats"
  shows "\<exists>v. hash_floats sha256 raw counter floats = Some v \<and> length v = HASH_DIM \<and> unit_interval v"
  using assms(2,3)
proof (induction "HASH_DIM - length floats" arbitrary: floats counter rule: less_induct)
  case less
  show ?case
  proof (cases "length floats < HASH_DIM")
    case True
    let ?next = "digest_floats (sha256 (raw @ be32 counter)) floats"
    have "length (sha256 (raw @ be32 counter)) = 4 * 8" "\<forall>x \<in> set (sha256 (raw @ be32 counter)). x < 256" using assms(1) by (auto simp: hash_ok_def)
    from digest_floats_spec [OF this less.prems] have "length ?next = min (length floats + 8) HASH_DIM" "unit_interval ?next" by auto
    moreover from this(1) True have "HASH_DIM - length ?next < HASH_DIM - length floats" by auto
    ultimately show ?thesis using less.hyps [of ?next "counter + 1"] True hash_floats.simps [of sha256 raw counter floats] by simp
  qed (use less hash_floats.simps [of sha256 raw counter floats] in simp)
qed

lemma sum_squares_nonneg: "0 \<le> sum_list (map (\<lambda>f. f * f) (v :: real list))"
  by (induction v) simp_all

lemma square_le_sum: "x \<in> set v \<Longrightarrow> x * x \<le> sum_list (map (\<lambda>f. f * f) (v :: real list))"
  by (induction v) (auto intro: order_trans [OF _ add_left_mono] add_increasing2 sum_squares_nonneg simp: add_increasing)

lemma l2_normalise_spec:
  fixes v :: "real list"
  assumes "unit_interval v"
  shows "length (l2_normalise v) = length v \<and> unit_interval (l2_normalise v) \<and>
    (sum_list (map (\<lambda>f. f * f) (l2_normalise v)) = 1 \<or> l2_normalise v = v \<and> set v \<subseteq> {0})"
proof (cases "sqrt (sum_list (map (\<lambda>f. f * f) v)) > 0")
  case True
  let ?s = "sum_list (map (\<lambda>f. f * f) v)"
  have s: "?s > 0" using True by simp
  have eq: "l2_normalise v = map (\<lambda>f. f / sqrt ?s) v" using True by (simp add: l2_normalise_def)
  have "sum_list (map (\<lambda>f. (f / sqrt ?s) * (f / sqrt ?s)) v) = ?s / ?s" for w
  proof -
    have "(f / sqrt ?s) * (f / sqrt ?s) = f * f / ?s" for f using s by (simp add: power2_eq_square [symmetric] power_divide)
    moreover have "sum_list (map (\<lambda>f. f * f / c) w) = sum_list (map (\<lambda>f. f * f) w) / c" for w :: "real list" and c :: real
      by (induction w) (simp_all add: add_divide_distrib)
    ultimately show ?thesis using s by simp
  qed
  moreover have "x / sqrt ?s \<le> 1" if "x \<in> set v" for x
  proof -
    have "x * x \<le> ?s" using that by (rule square_le_sum)
    then have "\<bar>x\<bar> \<le> sqrt ?s" by (intro real_le_rsqrt) (simp add: power2_eq_square)
    then show ?thesis using True by (simp add: divide_le_eq)
  qed
  ultimately show ?thesis using s assms True unfolding eq by (auto simp: comp_def)
next
  case False
  then have "x = 0" if "x \<in> set v" for x using square_le_sum [OF that] sum_squares_nonneg [of v] by (simp add: not_less) (metis dual_order.antisym mult_eq_0_iff order_trans zero_le_square)
  with False assms show ?thesis by (auto simp: l2_normalise_def Let_def)
qed

section \<open>Properties\<close>

text \<open>
  C35: Chunking loses nothing. With the sizes the constructor accepts, every chunk is a non-empty part
  of the content of at most the chunk size, from its start to its end offset; two neighbours share
  exactly the configured overlap, and the first text followed by what each later one adds to it is
  the content again.\<close>

theorem chunks_cover:
  assumes "new_chunker width overlap = Inr k"
  shows "let cs = chunk_content uid now k content path ws in
     rebuild (nat overlap) (map ck_text cs) = content \<and>
     (\<forall>i < length cs. ck_text (cs ! i) = slice (nat (ck_start (cs ! i))) (nat (ck_end (cs ! i))) content \<and>
        ck_text (cs ! i) \<noteq> [] \<and> int (length (ck_text (cs ! i))) \<le> width) \<and>
     (\<forall>i. Suc i < length cs \<longrightarrow> ck_end (cs ! i) = ck_start (cs ! Suc i) + overlap)"
proof -
  have k: "k = \<lparr>chk_size = width, chk_overlap = overlap\<rparr>" "0 < width" "0 \<le> overlap" "overlap < width"
    using assms by (simp_all add: new_chunker_def split: if_splits)
  let ?w = "nat width" and ?s = "nat (width - overlap)" and ?cs = "chunk_content uid now k content path ws"
  let ?ws = "windows ?w ?s (length content) 0"
  have len: "length ?cs = length ?ws" using k(1) by (simp add: chunk_content_def)
  have "rebuild (nat overlap) (map ck_text ?cs) = content"
  proof (cases "content = []")
    case False
    have "?w - ?s = nat overlap" using k by simp
    with windows_rebuild [of 0 content ?s ?w] False k show ?thesis by (simp add: chunk_content_texts)
  qed (simp add: chunk_content_texts windows.simps rebuild_def)
  moreover have "ck_text (?cs ! i) = slice (nat (ck_start (?cs ! i))) (nat (ck_end (?cs ! i))) content \<and> ck_text (?cs ! i) \<noteq> [] \<and>
      int (length (ck_text (?cs ! i))) \<le> width" if "i < length ?cs" for i
  proof -
    obtain s e where se: "?ws ! i = (s, e)" by (cases "?ws ! i")
    have "(s, e) \<in> set ?ws" using that len se by (metis nth_mem)
    from windows_bounds [OF this] chunk_content_nth [OF that] se k show ?thesis by (auto simp: slice_def)
  qed
  moreover have "ck_end (?cs ! i) = ck_start (?cs ! Suc i) + overlap" if "Suc i < length ?cs" for i
    using windows_next [of i ?w ?s "length content" 0] chunk_content_nth [OF that] chunk_content_nth [OF Suc_lessD [OF that]] that len k
    by (auto split: prod.splits)
  ultimately show ?thesis unfolding Let_def by blast
qed

theorem chunks_cover_witness:
  "rebuild 1 (map ck_text (chunk_content (\<lambda>_. []) [] \<lparr>chk_size = 3, chk_overlap = 1\<rparr> ''abcdef'' ''p'' ''w'')) = ''abcdef''"
proof -
  have "new_chunker 3 1 = Inr \<lparr>chk_size = 3, chk_overlap = 1\<rparr>" by (simp add: new_chunker_def)
  from chunks_cover [OF this, of "\<lambda>_. []" "[]" "''abcdef''" "''p''" "''w''"] show ?thesis by (simp add: Let_def)
qed

text \<open>
  C36: The hash backend always returns. If the hash function gives 32 bytes, the loop that collects
  numbers ends, the embedding has 64 coordinates between 0 and 1, and it is a unit vector unless
  every coordinate is 0.\<close>

theorem hash_embedding_unit:
  assumes "hash_ok sha256"
  shows "\<exists>v. embed_hash sha256 text = Some v \<and> length v = 64 \<and> (\<forall>x \<in> set v. 0 \<le> x \<and> x \<le> 1) \<and>
    (sum_list (map (\<lambda>f. f * f) v) = 1 \<or> set v \<subseteq> {0})"
proof -
  obtain v where "hash_floats sha256 (utf8_encode text) 0 [] = Some v" "length v = HASH_DIM" "unit_interval v"
    using hash_floats_return [OF assms, of "[]" "utf8_encode text" 0] by auto
  with l2_normalise_spec [of v] show ?thesis by (auto simp: embed_hash_def HASH_DIM_def)
qed

theorem hash_embedding_unit_witness: "\<exists>v. embed_hash (\<lambda>_. replicate 32 255) ''hi'' = Some v \<and> length v = 64"
proof -
  have "hash_ok (\<lambda>_. replicate 32 255)" by (simp add: hash_ok_def)
  from hash_embedding_unit [OF this, of "''hi''"] show ?thesis by blast
qed

text \<open>
  Watching announces every file once. Whatever the file system looks like from one round to the
  next, the watch loop publishes one event for each matching file that was there in some round and
  had not been seen before, and none for any other.\<close>

theorem watch_announces_once:
  assumes "sc_running sc"
  shows "case watch_loop guess rounds sc of (out, sc') \<Rightarrow>
     \<exists>new. out = map (scanned_event guess sc) new \<and> distinct (map fe_resolved new) \<and>
       fe_resolved ` set new = found rounds sc - sc_seen sc \<and> sc_seen sc' = sc_seen sc \<union> found rounds sc"
  using watch_loop_spec [OF assms, of guess rounds] by (cases "watch_loop guess rounds sc") auto

definition demo_rounds :: "fs_listing list" where
  "demo_rounds = [\<lambda>_ _. None, \<lambda>_ _. Some [\<lparr>fe_resolved = ''/a.md'', fe_name = ''a.md'', fe_is_file = True\<rparr>]]"

definition demo_scanner :: scanner where
  "demo_scanner = (new_scanner ''w'' [''/''] [''md''] True)\<lparr>sc_running := True\<rparr>"

theorem watch_announces_once_witness:
  "case watch_loop (\<lambda>_. None) demo_rounds demo_scanner of (out, sc') \<Rightarrow>
     \<exists>new. out = map (scanned_event (\<lambda>_. None) demo_scanner) new \<and> distinct (map fe_resolved new) \<and> fe_resolved ` set new = {''/a.md''}"
proof -
  have "lower (suffix_of ''a.md'') = ''.md''" by (simp add: suffix_of_def lower_def lower_char_def)
  moreover have "normal_extension ''md'' = ''.md''" by (simp add: normal_extension_def startswith_def lower_def lower_char_def)
  ultimately have "found demo_rounds demo_scanner - sc_seen demo_scanner = {''/a.md''}"
    by (simp add: found_def iter_files_def new_scanner_def demo_rounds_def demo_scanner_def Collect_conv_if)
  moreover have "sc_running demo_scanner" by (simp add: demo_scanner_def)
  ultimately show ?thesis using watch_announces_once [of demo_scanner "\<lambda>_. None" demo_rounds]
    by (cases "watch_loop (\<lambda>_. None) demo_rounds demo_scanner") auto
qed

end
