(* ===== verification/Vector_Graph.thy ===== *)
theory Vector_Graph
  imports Ingest "HOL-Library.Multiset"
begin

text \<open>
  The last stage of the knowledge pipeline: the similarity graph of \<open>kernel/graph.py\<close>.

  \<^item> \<open>vgraph\<close> has the three dictionaries of \<open>KnowledgeGraph\<close>. The ids pydantic draws for one call are
    an argument, \<open>uid\<close>: the first is the node's, the others those of its edges in order.
  \<^item> Validating an embedding is pydantic's: \<open>floats\<close> is a parameter.
  \<^item> Saving into and loading from the entity store thread both states, as far as they got.
\<close>

section \<open>Definitions\<close>

definition cosine_similarity :: "real list \<Rightarrow> real list \<Rightarrow> real" where
  "cosine_similarity a b =
     (if a = [] \<or> b = [] \<or> length a \<noteq> length b then 0
      else let dot = sum_list (map (\<lambda>(x, y). x * y) (zip a b));
               na = sqrt (sum_list (map (\<lambda>x. x * x) a));
               nb = sqrt (sum_list (map (\<lambda>y. y * y) b))
           in if na = 0 \<or> nb = 0 then 0 else dot / (na * nb))"

record vgraph =
  vg_threshold :: real
  vg_nodes :: "(string, knowledge_node) dict"
  vg_embeddings :: "(string, real list) dict"
  vg_edges :: "(string, node_relation list) dict"

definition new_vgraph :: "real \<Rightarrow> vgraph" where
  "new_vgraph similarity_threshold = \<lparr>vg_threshold = similarity_threshold, vg_nodes = [], vg_embeddings = [], vg_edges = []\<rparr>"

fun score_nodes :: "real list \<Rightarrow> string option \<Rightarrow> vgraph \<Rightarrow> (string \<times> real list) list \<Rightarrow> exn + (string \<times> real) list" where
  "score_nodes embedding workspace_id g [] = Inr []"
| "score_nodes embedding workspace_id g ((node_id, other_emb) # rest) =
     (let keep = (case workspace_id of None \<Rightarrow> Inr True
                  | Some w \<Rightarrow> (case dget (vg_nodes g) node_id of None \<Rightarrow> Inl (KeyError node_id) | Some n \<Rightarrow> Inr (kn_domain n = w)));
          score = cosine_similarity embedding other_emb
      in case keep of
           Inl x \<Rightarrow> Inl x
         | Inr k \<Rightarrow>
             (case score_nodes embedding workspace_id g rest of
                Inl x \<Rightarrow> Inl x
              | Inr out \<Rightarrow> Inr (if k \<and> score \<ge> vg_threshold g then (node_id, score) # out else out)))"

text \<open>\<open>sort(key=..., reverse=True)\<close> is stable: equal scores stay in their order.\<close>

definition by_score :: "(string \<times> real) list \<Rightarrow> (string \<times> real) list" where
  "by_score xs = sort_key (\<lambda>t. - snd t) xs"

definition find_similar :: "real list \<Rightarrow> string option \<Rightarrow> vgraph \<Rightarrow> exn + (string \<times> real) list" where
  "find_similar embedding workspace_id g = map_sum id by_score (score_nodes embedding workspace_id g (vg_embeddings g))"

definition similar_to :: "string \<Rightarrow> string \<Rightarrow> string \<Rightarrow> string \<Rightarrow> real \<Rightarrow> string \<Rightarrow> node_relation" where
  "similar_to uid now source target score workspace_id =
     base_entity.extend (new_entity uid now [] workspace_id)
       \<lparr>nr_source_id = source, nr_target_id = target, nr_type = ''similar_to'', nr_properties = [(''score'', DReal score)]\<rparr>"

fun link_similar ::
  "(nat \<Rightarrow> string) \<Rightarrow> string \<Rightarrow> string \<Rightarrow> string \<Rightarrow> nat \<Rightarrow> (string \<times> real) list \<Rightarrow> (string, node_relation list) dict \<Rightarrow> (string, node_relation list) dict" where
  "link_similar uid now workspace_id node_id i [] edges = edges"
| "link_similar uid now workspace_id node_id i ((other_id, score) # rest) edges =
     (let edge = similar_to (uid i) now node_id other_id score workspace_id;
          mirror = similar_to (uid (i + 1)) now other_id node_id score workspace_id
      in link_similar uid now workspace_id node_id (i + 2) rest
           (dmod other_id [] (\<lambda>l. l @ [mirror]) (dmod node_id [] (\<lambda>l. l @ [edge]) edges)))"

text \<open>The id that a node remembers of its chunk may be any value of a payload.\<close>

definition add_node_for :: "(nat \<Rightarrow> string) \<Rightarrow> string \<Rightarrow> datum \<Rightarrow> chunk \<Rightarrow> vgraph \<Rightarrow> (knowledge_node, vgraph) res" where
  "add_node_for uid now chunk_id c g =
     (let embedding = (case ck_embedding c of None \<Rightarrow> [] | Some v \<Rightarrow> v);
          workspace_id = be_workspace_id c;
          node = base_entity.extend (new_entity (uid 0) now [] workspace_id)
            \<lparr>kn_label = take 80 (ck_text c), kn_type = ''chunk'', kn_domain = workspace_id,
             kn_properties = [(''chunk_id'', chunk_id), (''text'', DStr (ck_text c)), (''document_id'', DStr (ck_document_id c))]\<rparr>
      in case find_similar embedding (Some workspace_id) g of
           Inl x \<Rightarrow> (Inl x, g)
         | Inr similar \<Rightarrow>
             (Inr node,
              g\<lparr>vg_nodes := dset (be_id node) node (vg_nodes g),
                vg_embeddings := dset (be_id node) embedding (vg_embeddings g),
                vg_edges := link_similar uid now workspace_id (be_id node) 1 similar (dset (be_id node) [] (vg_edges g))\<rparr>))"

definition add_node :: "(nat \<Rightarrow> string) \<Rightarrow> string \<Rightarrow> chunk \<Rightarrow> vgraph \<Rightarrow> (knowledge_node, vgraph) res" where
  "add_node uid now c g = add_node_for uid now (DStr (be_id c)) c g"

definition edges_of :: "string \<Rightarrow> vgraph \<Rightarrow> node_relation list" where
  "edges_of node_id g = dget_or (vg_edges g) node_id []"

definition vg_node_count :: "vgraph \<Rightarrow> nat" where
  "vg_node_count g = length (vg_nodes g)"

subsection \<open>The event handler\<close>

definition ValidationError :: "string \<Rightarrow> exn" where
  "ValidationError m = std_exn [''ValidationError'', ''ValueError''] m"

definition embedded_chunk :: "(datum \<Rightarrow> exn + real list option) \<Rightarrow> string \<Rightarrow> string \<Rightarrow> attrs \<Rightarrow> exn + chunk" where
  "embedded_chunk floats uid now payload =
     (case (dget_or payload ''document_path'' (DStr []), dget_or payload ''text'' (DStr []), dget_or payload ''workspace_id'' (DStr ''default'')) of
        (DStr d, DStr t, DStr w) \<Rightarrow>
          (case floats (dget_or payload ''embedding'' DNone) of
             Inl x \<Rightarrow> Inl x
           | Inr v \<Rightarrow> Inr (new_chunk (new_entity uid now [] w) d t v 0 0))
      | _ \<Rightarrow> Inl (ValidationError ''Chunk''))"

definition on_embedded ::
  "(datum \<Rightarrow> exn + real list option) \<Rightarrow> (nat \<Rightarrow> string) \<Rightarrow> string \<Rightarrow> string \<Rightarrow> stage_event \<Rightarrow> vgraph \<Rightarrow> (stage_event list, vgraph) res" where
  "on_embedded floats uid cuid now e g =
     (let payload = se_payload e
      in case (case embedded_chunk floats cuid now payload of
                 Inl x \<Rightarrow> (Inl x, g)
               | Inr c \<Rightarrow>
                   add_node_for uid now
                     (case dget payload ''chunk_id'' of None \<Rightarrow> DStr (be_id c) | Some d \<Rightarrow> if datum_truthy d then d else DStr (be_id c)) c g) of
           (Inl x, g1) \<Rightarrow> if catches ''Exception'' x then (Inr [], g1) else (Inl x, g1)
         | (Inr node, g1) \<Rightarrow>
             (Inr [\<lparr>se_type = ''graph.updated'', se_source = ''graph'',
                    se_payload = [(''node_id'', DStr (be_id node)), (''edges'', DList (map (\<lambda>r. DStr (nr_target_id r)) (edges_of (be_id node) g1))),
                                  (''workspace_id'', DStr (be_workspace_id node))]\<rparr>], g1))"

subsection \<open>Saving and loading\<close>

fun persist_edges :: "'j codec \<Rightarrow> node_relation list \<Rightarrow> 'j persistence \<Rightarrow> (int, 'j persistence) res" where
  "persist_edges c [] p = (Inr 0, p)"
| "persist_edges c (r # rs) p =
     (case pe_save c (Relation r) p of
        (Inl x, p1) \<Rightarrow> (Inl x, p1)
      | (Inr _, p1) \<Rightarrow> (case persist_edges c rs p1 of (Inl x, p2) \<Rightarrow> (Inl x, p2) | (Inr n, p2) \<Rightarrow> (Inr (n + 1), p2)))"

text \<open>Saving writes the embedding into the properties of the node in the graph.\<close>

fun persist_nodes :: "'j codec \<Rightarrow> string \<Rightarrow> (string \<times> knowledge_node) list \<Rightarrow> vgraph \<times> 'j persistence \<Rightarrow> (int, vgraph \<times> 'j persistence) res" where
  "persist_nodes c workspace_id [] s = (Inr 0, s)"
| "persist_nodes c workspace_id ((nid, node) # rest) (g, p) =
     (if kn_domain node \<noteq> workspace_id then persist_nodes c workspace_id rest (g, p)
      else
        let node1 = node\<lparr>kn_properties := dset ''embedding'' (DVec (dget_or (vg_embeddings g) nid [])) (kn_properties node)\<rparr>;
            g1 = g\<lparr>vg_nodes := dset nid node1 (vg_nodes g)\<rparr>
        in case pe_save c (KnowledgeNode node1) p of
             (Inl x, p1) \<Rightarrow> (Inl x, (g1, p1))
           | (Inr _, p1) \<Rightarrow>
               (case persist_edges c (dget_or (vg_edges g) nid []) p1 of
                  (Inl x, p2) \<Rightarrow> (Inl x, (g1, p2))
                | (Inr n, p2) \<Rightarrow>
                    (case persist_nodes c workspace_id rest (g1, p2) of
                       (Inl x, s) \<Rightarrow> (Inl x, s)
                     | (Inr m, s) \<Rightarrow> (Inr (n + 1 + m), s))))"

definition persist_into :: "'j codec \<Rightarrow> string \<Rightarrow> vgraph \<times> 'j persistence \<Rightarrow> (int, vgraph \<times> 'j persistence) res" where
  "persist_into c workspace_id s = persist_nodes c workspace_id (vg_nodes (fst s)) s"

text \<open>
  An embedding that was saved is a list of numbers. Anything else in its place is no vector: the
  similarity of no vector is 0, as that of the empty one.
\<close>

fun number_of :: "datum \<Rightarrow> real option" where
  "number_of (DReal x) = Some x"
| "number_of (DInt i) = Some (real_of_int i)"
| "number_of _ = None"

definition vector_of :: "datum \<Rightarrow> real list" where
  "vector_of d = (case d of DList ds \<Rightarrow> if list_all (\<lambda>x. number_of x \<noteq> None) ds then map (the \<circ> number_of) ds else [] | _ \<Rightarrow> [])"

fun as_node :: "stored \<Rightarrow> exn + knowledge_node" where
  "as_node (KnowledgeNode n) = Inr n"
| "as_node _ = Inl (AttributeError ''properties'')"

fun as_relation :: "stored \<Rightarrow> exn + node_relation" where
  "as_relation (Relation r) = Inr r"
| "as_relation _ = Inl (AttributeError ''source_id'')"

fun load_nodes :: "stored list \<Rightarrow> vgraph \<Rightarrow> (int, vgraph) res" where
  "load_nodes [] g = (Inr 0, g)"
| "load_nodes (e # es) g =
     (case as_node e of
        Inl x \<Rightarrow> (Inl x, g)
      | Inr node \<Rightarrow>
          (let embedding = vector_of (dget_or (kn_properties node) ''embedding'' (DList []));
               node1 = node\<lparr>kn_properties := ddel ''embedding'' (kn_properties node)\<rparr>;
               g1 = g\<lparr>vg_nodes := dset (be_id node) node1 (vg_nodes g),
                      vg_embeddings := dset (be_id node) embedding (vg_embeddings g),
                      vg_edges := dmod (be_id node) [] id (vg_edges g)\<rparr>
           in case load_nodes es g1 of (Inl x, g2) \<Rightarrow> (Inl x, g2) | (Inr n, g2) \<Rightarrow> (Inr (n + 1), g2)))"

fun group_relations :: "stored list \<Rightarrow> (string, node_relation list) dict \<Rightarrow> exn + (string, node_relation list) dict" where
  "group_relations [] d = Inr d"
| "group_relations (e # es) d =
     (case as_relation e of Inl x \<Rightarrow> Inl x | Inr r \<Rightarrow> group_relations es (dmod (nr_source_id r) [] (\<lambda>l. l @ [r]) d))"

definition put_relations :: "(string, node_relation list) dict \<Rightarrow> vgraph \<Rightarrow> vgraph" where
  "put_relations d g =
     fold (\<lambda>(nid, rels) g. if dget (vg_edges g) nid \<noteq> None then g\<lparr>vg_edges := dset nid rels (vg_edges g)\<rparr> else g) d g"

definition load_graph :: "'j codec \<Rightarrow> string \<Rightarrow> vgraph \<times> 'j persistence \<Rightarrow> (int, vgraph \<times> 'j persistence) res" where
  "load_graph c workspace_id s =
     (case s of (g, p) \<Rightarrow>
        (case pe_list c workspace_id (Some ''KnowledgeNode'') p of
           (Inl x, p1) \<Rightarrow> (Inl x, (g, p1))
         | (Inr nodes, p1) \<Rightarrow>
             (case pe_list c workspace_id (Some ''Relation'') p1 of
                (Inl x, p2) \<Rightarrow> (Inl x, (g, p2))
              | (Inr relations, p2) \<Rightarrow>
                  (case load_nodes nodes g of
                     (Inl x, g1) \<Rightarrow> (Inl x, (g1, p2))
                   | (Inr loaded, g1) \<Rightarrow>
                       (case group_relations relations [] of
                          Inl x \<Rightarrow> (Inl x, (g1, p2))
                        | Inr d \<Rightarrow> (Inr loaded, (put_relations d g1, p2)))))))"

section \<open>Cosine similarity\<close>

lemma cauchy_schwarz_lists:
  fixes a b :: "real list"
  assumes "length a = length b"
  shows "(sum_list (map (\<lambda>(x, y). x * y) (zip a b)))\<^sup>2 \<le> sum_list (map (\<lambda>x. x * x) a) * sum_list (map (\<lambda>y. y * y) b)"
  using assms
proof (induction rule: list_induct2)
  case (Cons x a y b)
  let ?D = "sum_list (map (\<lambda>(x, y). x * y) (zip a b))" and ?A = "sum_list (map (\<lambda>x. x * x) a)" and ?B = "sum_list (map (\<lambda>y. y * y) b)"
  have AB: "0 \<le> ?A" "0 \<le> ?B" by (rule sum_squares_nonneg)+
  have "\<bar>?D\<bar> \<le> sqrt ?A * sqrt ?B" using real_le_rsqrt [of "\<bar>?D\<bar>" "?A * ?B"] Cons.IH by (simp add: real_sqrt_mult)
  then have "?D * (x * y) \<le> (sqrt ?A * \<bar>y\<bar>) * (sqrt ?B * \<bar>x\<bar>)"
    using mult_right_mono [of "\<bar>?D\<bar>" "sqrt ?A * sqrt ?B" "\<bar>x * y\<bar>"] abs_ge_self [of "?D * (x * y)"] by (simp add: abs_mult algebra_simps)
  also have "2 * ((sqrt ?A * \<bar>y\<bar>) * (sqrt ?B * \<bar>x\<bar>)) \<le> (sqrt ?A * \<bar>y\<bar>)\<^sup>2 + (sqrt ?B * \<bar>x\<bar>)\<^sup>2"
    using sum_squares_bound [of "sqrt ?A * \<bar>y\<bar>" "sqrt ?B * \<bar>x\<bar>"] by (simp add: mult.assoc)
  ultimately have "2 * (?D * (x * y)) \<le> ?A * y\<^sup>2 + ?B * x\<^sup>2" using AB by (simp add: power_mult_distrib)
  then show ?case using Cons.IH by (simp add: power2_eq_square algebra_simps)
qed simp

lemma cosine_symmetric: "cosine_similarity a b = cosine_similarity b a"
proof -
  have "sum_list (map (\<lambda>(x, y). x * y) (zip a b)) = sum_list (map (\<lambda>(x, y). x * y) (zip b a))" if "length a = length b"
    using that by (induction rule: list_induct2) simp_all
  then show ?thesis by (auto simp: cosine_similarity_def Let_def mult.commute)
qed

lemma cosine_bounded: "\<bar>cosine_similarity a b\<bar> \<le> 1"
proof -
  let ?D = "sum_list (map (\<lambda>(x, y). x * y) (zip a b))" and ?A = "sum_list (map (\<lambda>x. x * x) a)" and ?B = "sum_list (map (\<lambda>y. y * y) b)"
  have "\<bar>?D\<bar> \<le> sqrt ?A * sqrt ?B" if "length a = length b"
    using real_le_rsqrt [of "\<bar>?D\<bar>" "?A * ?B"] cauchy_schwarz_lists [OF that] by (simp add: real_sqrt_mult)
  moreover have "0 \<le> sqrt ?A" "0 \<le> sqrt ?B" by (simp_all add: sum_squares_nonneg)
  ultimately show ?thesis by (auto simp: cosine_similarity_def Let_def abs_mult divide_le_eq_1)
qed

lemma cosine_self: "set v - {0} \<noteq> {} \<Longrightarrow> cosine_similarity v v = 1"
proof -
  assume "set v - {0} \<noteq> {}"
  then obtain x where "x \<in> set v" "x \<noteq> 0" by auto
  with square_le_sum [of x v] have "0 < sum_list (map (\<lambda>x. x * x) v)" by (smt (verit) not_real_square_gt_zero)
  moreover have "sum_list (map (\<lambda>(x, y). x * y) (zip v v)) = sum_list (map (\<lambda>x. x * x) v)" by (induction v) simp_all
  moreover have "v \<noteq> []" using \<open>x \<in> set v\<close> by auto
  ultimately show ?thesis by (simp add: cosine_similarity_def Let_def)
qed

section \<open>The invariant of the graph\<close>

definition alike :: "vgraph \<Rightarrow> string \<Rightarrow> string \<Rightarrow> bool" where
  "alike g a b \<longleftrightarrow> a \<noteq> b \<and>
     (case (dget (vg_nodes g) a, dget (vg_nodes g) b, dget (vg_embeddings g) a, dget (vg_embeddings g) b) of
        (Some m, Some n, Some v, Some w) \<Rightarrow> kn_domain m = kn_domain n \<and> cosine_similarity v w \<ge> vg_threshold g
      | _ \<Rightarrow> False)"

definition used_ids :: "vgraph \<Rightarrow> string list" where
  "used_ids g = dkeys (vg_nodes g) @ map be_id (concat (dvals (vg_edges g)))"

definition node_ok :: "string \<Rightarrow> knowledge_node \<Rightarrow> bool" where
  "node_ok i n \<longleftrightarrow> be_id n = i \<and> kn_domain n = be_workspace_id n"

text \<open>Saving a workspace leaves the embeddings in the properties of its nodes; a graph that was never saved has none there.\<close>

definition bare :: "vgraph \<Rightarrow> bool" where
  "bare g \<longleftrightarrow> (\<forall>i n. dget (vg_nodes g) i = Some n \<longrightarrow> dget (kn_properties n) ''embedding'' = None)"

definition vgraph_inv :: "vgraph \<Rightarrow> bool" where
  "vgraph_inv g \<longleftrightarrow>
     dkeys (vg_embeddings g) = dkeys (vg_nodes g) \<and> dkeys (vg_edges g) = dkeys (vg_nodes g) \<and> distinct (used_ids g) \<and>
     (\<forall>i n. dget (vg_nodes g) i = Some n \<longrightarrow> node_ok i n) \<and>
     (\<forall>a b. (\<exists>r \<in> set (edges_of a g). nr_target_id r = b) \<longleftrightarrow> alike g a b) \<and>
     (\<forall>a. \<forall>r \<in> set (edges_of a g). nr_source_id r = a \<and> (\<forall>n. dget (vg_nodes g) a = Some n \<longrightarrow> be_workspace_id r = kn_domain n))"

lemma score_nodes_spec:
  assumes "\<forall>i \<in> fst ` set es. dget (vg_nodes g) i \<noteq> None"
  shows "score_nodes emb (Some w) g es =
    Inr (map (\<lambda>(i, v). (i, cosine_similarity emb v))
          (filter (\<lambda>(i, v). (\<exists>n. dget (vg_nodes g) i = Some n \<and> kn_domain n = w) \<and> cosine_similarity emb v \<ge> vg_threshold g) es))"
  using assms
proof (induction es)
  case (Cons e es)
  obtain i v where e: "e = (i, v)" by (cases e)
  obtain n where n: "dget (vg_nodes g) i = Some n" using Cons.prems e by auto
  have "\<forall>i \<in> fst ` set es. dget (vg_nodes g) i \<noteq> None" using Cons.prems by simp
  from Cons.IH [OF this] show ?case using n by (simp add: e Let_def)
qed simp

lemma by_score_simps [simp]: "set (by_score xs) = set xs" "distinct (map fst (by_score xs)) = distinct (map fst xs)"
proof -
  have "mset (map fst (by_score xs)) = mset (map fst xs)" by (metis by_score_def mset_map mset_sort)
  then show "distinct (map fst (by_score xs)) = distinct (map fst xs)" by (rule mset_eq_imp_distinct_iff)
qed (simp add: by_score_def)

lemma find_similar_spec:
  assumes "dkeys (vg_embeddings g) = dkeys (vg_nodes g)" and "dict_ok (vg_nodes g)"
  shows "\<exists>sim. find_similar emb (Some w) g = Inr sim \<and> distinct (map fst sim) \<and> fst ` set sim \<subseteq> set (dkeys (vg_nodes g)) \<and>
    (\<forall>i. i \<in> fst ` set sim \<longleftrightarrow> (\<exists>n v. dget (vg_nodes g) i = Some n \<and> dget (vg_embeddings g) i = Some v \<and> kn_domain n = w \<and> cosine_similarity emb v \<ge> vg_threshold g))"
proof -
  let ?P = "\<lambda>(i, v). (\<exists>n. dget (vg_nodes g) i = Some n \<and> kn_domain n = w) \<and> cosine_similarity emb v \<ge> vg_threshold g"
  let ?raw = "map (\<lambda>(i, v). (i, cosine_similarity emb v)) (filter ?P (vg_embeddings g))"
  have keys: "fst ` set (vg_embeddings g) = set (dkeys (vg_nodes g))" using assms(1) by (metis list.set_map)
  have known: "\<forall>i \<in> fst ` set (vg_embeddings g). dget (vg_nodes g) i \<noteq> None" using keys by (auto simp: map_of_eq_None_iff)
  have ok: "dict_ok (vg_embeddings g)" using assms by (simp add: dict_ok_def)
  have raw: "map fst ?raw = map fst (filter ?P (vg_embeddings g))" by (simp add: case_prod_beta)
  then have set_raw: "fst ` set ?raw = fst ` set (filter ?P (vg_embeddings g))" by (metis list.set_map)
  have "distinct (map fst ?raw)" unfolding raw using dict_ok_filter [OF ok] by (simp add: dict_ok_def)
  moreover have "fst ` set ?raw \<subseteq> set (dkeys (vg_nodes g))" unfolding set_raw keys [symmetric] by (rule image_mono) simp
  moreover have "i \<in> fst ` set ?raw \<longleftrightarrow> (\<exists>n v. dget (vg_nodes g) i = Some n \<and> dget (vg_embeddings g) i = Some v \<and> kn_domain n = w \<and> cosine_similarity emb v \<ge> vg_threshold g)" for i
    unfolding set_raw using dget_iff_in [OF ok, of i] by (auto simp: image_iff)
  ultimately show ?thesis unfolding find_similar_def score_nodes_spec [OF known] by (intro exI [of _ "by_score ?raw"]) simp
qed

lemma similar_to_sel [simp]:
  "nr_source_id (similar_to u now a b sc w) = a" "nr_target_id (similar_to u now a b sc w) = b"
  "be_id (similar_to u now a b sc w) = u" "be_workspace_id (similar_to u now a b sc w) = w"
  by (simp_all add: similar_to_def base_entity.defs new_entity_def)

lemma dget_or_dmod: "dget_or (dmod k v f d) k' v = (if k' = k then f (dget_or d k v) else dget_or d k' v)"
  by (simp add: dmod_def dget_or_def update_conv')

lemma mset_dmod_append: "mset (concat (dvals (dmod k [] (\<lambda>l. l @ [r]) d))) = add_mset r (mset (concat (dvals d)))"
  unfolding dmod_def by (induction d) (auto simp: dget_or_def)

lemma dkeys_dmod: "k \<in> set (dkeys d) \<Longrightarrow> dkeys (dmod k v f d) = dkeys d"
  unfolding dmod_def by (induction d) (auto simp: update_keys)

lemma link_similar_spec:
  assumes "distinct (map fst sim)" and "nid \<notin> fst ` set sim" and "nid \<in> set (dkeys edges)" and "fst ` set sim \<subseteq> set (dkeys edges)"
  shows "dkeys (link_similar uid now w nid i sim edges) = dkeys edges \<and>
    mset (map be_id (concat (dvals (link_similar uid now w nid i sim edges)))) =
      mset (map be_id (concat (dvals edges))) + mset (map uid [i..<i + 2 * length sim]) \<and>
    (\<forall>a. set (dget_or (link_similar uid now w nid i sim edges) a []) \<subseteq>
        set (dget_or edges a []) \<union> {r. nr_source_id r = a \<and> be_workspace_id r = w \<and> (a = nid \<and> nr_target_id r \<in> fst ` set sim \<or> a \<in> fst ` set sim \<and> nr_target_id r = nid)} \<and>
      nr_target_id ` set (dget_or (link_similar uid now w nid i sim edges) a []) =
        nr_target_id ` set (dget_or edges a []) \<union> (if a = nid then fst ` set sim else if a \<in> fst ` set sim then {nid} else {}))"
  using assms
proof (induction sim arbitrary: i edges)
  case (Cons x sim)
  obtain o_id sc where x: "x = (o_id, sc)" by (cases x)
  let ?edge = "similar_to (uid i) now nid o_id sc w" and ?mirror = "similar_to (uid (i + 1)) now o_id nid sc w"
  define ed where "ed = dmod o_id [] (\<lambda>l. l @ [?mirror]) (dmod nid [] (\<lambda>l. l @ [?edge]) edges)"
  have keys: "dkeys ed = dkeys edges" using Cons.prems x by (simp add: ed_def dkeys_dmod)
  have ne: "o_id \<noteq> nid" using Cons.prems(2) x by auto
  have ids: "mset (map be_id (concat (dvals ed))) = mset (map be_id (concat (dvals edges))) + {#uid i, uid (i + 1)#}"
    unfolding ed_def mset_map mset_dmod_append by simp
  have get: "dget_or ed a [] = (if a = nid then dget_or edges nid [] @ [?edge] else if a = o_id then dget_or edges o_id [] @ [?mirror] else dget_or edges a [])" for a
    using ne by (simp add: ed_def dget_or_dmod)
  have up: "[i..<i + 2 * length (x # sim)] = i # (i + 1) # [i + 2..<i + 2 + 2 * length sim]" by (simp add: upt_rec)
  have step: "link_similar uid now w nid i (x # sim) edges = link_similar uid now w nid (i + 2) sim ed"
    by (simp add: x ed_def Let_def)
  note IH = Cons.IH [of ed "i + 2", unfolded keys]
  have prems: "distinct (map fst sim)" "nid \<notin> fst ` set sim" "nid \<in> set (dkeys edges)" "fst ` set sim \<subseteq> set (dkeys edges)" "o_id \<notin> fst ` set sim"
    using Cons.prems x by auto
  note IH = IH [OF prems(1-4)]
  note IH_edges = spec [OF conjunct2 [OF conjunct2 [OF IH]]]
  have "mset (map be_id (concat (dvals (link_similar uid now w nid i (x # sim) edges)))) =
      mset (map be_id (concat (dvals edges))) + mset (map uid [i..<i + 2 * length (x # sim)])"
    unfolding step up conjunct1 [OF conjunct2 [OF IH]] ids by (simp del: upt_Suc)
  moreover have "set (dget_or (link_similar uid now w nid i (x # sim) edges) a []) \<subseteq>
        set (dget_or edges a []) \<union> {r. nr_source_id r = a \<and> be_workspace_id r = w \<and> (a = nid \<and> nr_target_id r \<in> fst ` set (x # sim) \<or> a \<in> fst ` set (x # sim) \<and> nr_target_id r = nid)}" for a
  proof -
    have now: "set (dget_or ed a []) \<subseteq> set (dget_or edges a []) \<union>
        {r. nr_source_id r = a \<and> be_workspace_id r = w \<and> (a = nid \<and> nr_target_id r = o_id \<or> a = o_id \<and> nr_target_id r = nid)}"
      unfolding get by (auto split: if_splits)
    show ?thesis unfolding step
      by (rule subset_trans [OF conjunct1 [OF IH_edges]], rule Un_least, rule subset_trans [OF now]) (auto simp: x)
  qed
  moreover have "nr_target_id ` set (dget_or (link_similar uid now w nid i (x # sim) edges) a []) =
        nr_target_id ` set (dget_or edges a []) \<union> (if a = nid then fst ` set (x # sim) else if a \<in> fst ` set (x # sim) then {nid} else {})" for a
  proof -
    have "nr_target_id ` set (dget_or ed a []) = nr_target_id ` set (dget_or edges a []) \<union> (if a = nid then {o_id} else if a = o_id then {nid} else {})"
      unfolding get using ne by simp
    then show ?thesis using prems(5) ne unfolding step conjunct2 [OF IH_edges [of a]] by (simp add: x)
  qed
  ultimately show ?case using conjunct1 [OF IH] unfolding step [symmetric] by simp
qed simp

lemma vgraph_inv_new: "vgraph_inv (new_vgraph thr)"
  by (simp add: vgraph_inv_def new_vgraph_def used_ids_def edges_of_def dget_or_def alike_def)

lemma vgraph_invD:
  assumes "vgraph_inv g"
  shows "dkeys (vg_embeddings g) = dkeys (vg_nodes g)" "dkeys (vg_edges g) = dkeys (vg_nodes g)" "distinct (used_ids g)"
    "dget (vg_nodes g) i = Some n \<Longrightarrow> node_ok i n" "(\<exists>r \<in> set (edges_of a g). nr_target_id r = b) \<longleftrightarrow> alike g a b"
    "r \<in> set (edges_of a g) \<Longrightarrow> nr_source_id r = a" "r \<in> set (edges_of a g) \<Longrightarrow> dget (vg_nodes g) a = Some n \<Longrightarrow> be_workspace_id r = kn_domain n"
    "dict_ok (vg_nodes g)"
  using assms by (simp_all add: vgraph_inv_def dict_ok_def used_ids_def)

lemma dkeys_dset_new: "k \<notin> set (dkeys d) \<Longrightarrow> dkeys (dset k v d) = dkeys d @ [k]"
  by (induction d) auto

lemma concat_dset_new: "k \<notin> set (dkeys d) \<Longrightarrow> concat (dvals (dset k [] d)) = concat (dvals d)"
  by (induction d) auto

lemma alike_symmetric: "alike g a b \<longleftrightarrow> alike g b a"
  by (auto simp: alike_def cosine_symmetric split: option.splits)

lemma alike_nodes: "alike g a b \<Longrightarrow> a \<in> set (dkeys (vg_nodes g)) \<and> b \<in> set (dkeys (vg_nodes g))"
  by (auto simp: alike_def domI simp flip: dom_map_of_conv_image_fst split: option.splits)

text \<open>The graph with one more node, before its edges are known to be right.\<close>

definition with_node :: "string \<Rightarrow> knowledge_node \<Rightarrow> real list \<Rightarrow> (string, node_relation list) dict \<Rightarrow> vgraph \<Rightarrow> vgraph" where
  "with_node nid node emb ed g =
     g\<lparr>vg_nodes := dset nid node (vg_nodes g), vg_embeddings := dset nid emb (vg_embeddings g), vg_edges := ed\<rparr>"

definition matching :: "vgraph \<Rightarrow> real list \<Rightarrow> string \<Rightarrow> string set" where
  "matching g emb w =
     {i. \<exists>n v. dget (vg_nodes g) i = Some n \<and> dget (vg_embeddings g) i = Some v \<and> kn_domain n = w \<and> cosine_similarity emb v \<ge> vg_threshold g}"

lemma with_node_alike:
  assumes "nid \<notin> set (dkeys (vg_nodes g))"
  shows "alike (with_node nid node emb ed g) a b \<longleftrightarrow>
    alike g a b \<or> a = nid \<and> b \<in> matching g emb (kn_domain node) \<or> b = nid \<and> a \<in> matching g emb (kn_domain node)"
proof -
  let ?g = "with_node nid node emb ed g" and ?sim = "matching g emb (kn_domain node)"
  have *: "alike ?g nid b \<longleftrightarrow> b \<in> ?sim" if "b \<noteq> nid" for b
    using that by (auto simp: alike_def with_node_def matching_def update_conv' split: option.splits)
  have both: "alike ?g a b = alike g a b" if "a \<noteq> nid" "b \<noteq> nid" using that by (simp add: alike_def with_node_def update_conv' split: option.splits)
  have no: "\<not> alike g nid b" "\<not> alike g b nid" for b using alike_nodes assms by blast+
  have "dget (vg_nodes g) nid = None" using assms by (simp add: map_of_eq_None_iff)
  then have "nid \<notin> ?sim" "\<not> alike ?g nid nid" by (simp_all add: matching_def alike_def)
  then show ?thesis
    using both no [of a] no [of b] * [of a] * [of b] alike_symmetric [of ?g a b] by (cases "a = nid"; cases "b = nid") simp_all
qed

lemma with_node_ids:
  assumes "mset (map be_id (concat (dvals ed))) = mset (map be_id (concat (dvals (vg_edges g)))) + mset (map uid [1..<1 + n])"
    and "uid 0 \<notin> set (dkeys (vg_nodes g))" and "distinct (used_ids g)" and "inj uid" and "range uid \<inter> set (used_ids g) = {}"
  shows "distinct (used_ids (with_node (uid 0) node emb ed g))"
proof -
  have up: "[0..<1 + n] = 0 # [1..<1 + n]" by (simp add: upt_conv_Cons del: upt_Suc)
  have "mset (used_ids (with_node (uid 0) node emb ed g)) = mset (used_ids g) + mset (map uid [0..<1 + n])"
    unfolding used_ids_def mset_append up using assms(1,2) by (simp add: with_node_def dkeys_dset_new del: upt_Suc mset_upt)
  moreover have "distinct (used_ids g @ map uid [0..<1 + n])"
    using assms(3,5) inj_on_subset [OF assms(4)] by (simp add: distinct_map del: upt_Suc) blast
  ultimately show ?thesis by (metis mset_append mset_eq_imp_distinct_iff)
qed

lemma with_node_inv:
  assumes inv: "vgraph_inv g" and fresh: "nid \<notin> set (dkeys (vg_nodes g))" and node: "node_ok nid node" and keys: "dkeys ed = dkeys (vg_nodes g) @ [nid]"
    and dist: "distinct (used_ids (with_node nid node emb ed g))"
    and edges: "\<And>a. set (dget_or ed a []) \<subseteq> set (edges_of a g) \<union>
       {r. nr_source_id r = a \<and> be_workspace_id r = kn_domain node \<and> (a = nid \<or> a \<in> matching g emb (kn_domain node))}"
    and targets: "\<And>a. nr_target_id ` set (dget_or ed a []) = nr_target_id ` set (edges_of a g) \<union>
       (if a = nid then matching g emb (kn_domain node) else if a \<in> matching g emb (kn_domain node) then {nid} else {})"
  shows "vgraph_inv (with_node nid node emb ed g)"
proof -
  let ?g = "with_node nid node emb ed g" and ?sim = "matching g emb (kn_domain node)"
  note I = vgraph_invD [OF inv]
  have eg: "edges_of a ?g = dget_or ed a []" for a by (simp add: edges_of_def with_node_def)
  have "dget (vg_nodes g) nid = None" using fresh by (simp add: map_of_eq_None_iff)
  then have out: "a \<noteq> nid" if "a \<in> ?sim" for a using that by (auto simp: matching_def)
  have "(\<exists>r \<in> set (edges_of a ?g). nr_target_id r = b) \<longleftrightarrow> alike ?g a b" for a b
  proof -
    have "(\<exists>r \<in> set (edges_of a ?g). nr_target_id r = b) \<longleftrightarrow> b \<in> nr_target_id ` set (dget_or ed a [])" unfolding eg by auto
    also have "\<dots> \<longleftrightarrow> alike g a b \<or> b \<in> (if a = nid then ?sim else if a \<in> ?sim then {nid} else {})"
      unfolding targets using I(5) [of a b] by auto
    finally show ?thesis unfolding with_node_alike [OF fresh] using out by auto
  qed
  moreover have "nr_source_id r = a \<and> (\<forall>n. dget (vg_nodes ?g) a = Some n \<longrightarrow> be_workspace_id r = kn_domain n)" if "r \<in> set (edges_of a ?g)" for r a
  proof -
    have "r \<in> set (edges_of a g) \<or> nr_source_id r = a \<and> be_workspace_id r = kn_domain node \<and> (a = nid \<or> a \<in> ?sim)" using that edges unfolding eg by blast
    moreover have "a \<noteq> nid" if "r \<in> set (edges_of a g)" using that I(5) [of a "nr_target_id r"] alike_nodes [of g a] fresh by blast
    ultimately show ?thesis using I(6,7) [of r a] out [of a] by (auto simp: with_node_def matching_def update_conv' split: if_splits)
  qed
  moreover have "node_ok i n" if "dget (vg_nodes ?g) i = Some n" for i n
    using that I(4) [of i n] node by (auto simp: with_node_def update_conv' split: if_splits)
  moreover have "dkeys (vg_edges ?g) = dkeys (vg_nodes ?g)" "dkeys (vg_embeddings ?g) = dkeys (vg_nodes ?g)"
    using keys fresh I(1) by (simp_all add: with_node_def dkeys_dset_new)
  ultimately show ?thesis unfolding vgraph_inv_def using dist by blast
qed

lemma add_node_inv:
  assumes "vgraph_inv g" and "inj uid" and "range uid \<inter> set (used_ids g) = {}"
  shows "vgraph_inv (snd (add_node_for uid now cid c g))" and "bare g \<Longrightarrow> bare (snd (add_node_for uid now cid c g))"
proof -
  define nid where "nid = uid 0"
  define emb where "emb = (case ck_embedding c of None \<Rightarrow> [] | Some v \<Rightarrow> v)"
  define w where "w = be_workspace_id c"
  define node where "node = base_entity.extend (new_entity nid now [] w)
    \<lparr>kn_label = take 80 (ck_text c), kn_type = ''chunk'', kn_domain = w,
     kn_properties = [(''chunk_id'', cid), (''text'', DStr (ck_text c)), (''document_id'', DStr (ck_document_id c))]\<rparr>"
  note I = vgraph_invD [OF assms(1)]
  have node: "be_id node = nid" "node_ok nid node" "kn_domain node = w" by (simp_all add: node_def node_ok_def base_entity.defs new_entity_def)
  obtain sim where sim: "find_similar emb (Some w) g = Inr sim" "distinct (map fst sim)" "fst ` set sim \<subseteq> set (dkeys (vg_nodes g))"
    "fst ` set sim = matching g emb w"
    using find_similar_spec [OF I(1) I(8), of emb w] unfolding matching_def set_eq_iff mem_Collect_eq by metis
  have fresh: "nid \<notin> set (dkeys (vg_nodes g))" using assms(3) by (auto simp: nid_def used_ids_def)
  define ed where "ed = link_similar uid now w nid 1 sim (dset nid [] (vg_edges g))"
  have eq: "snd (add_node_for uid now cid c g) = with_node nid node emb ed g"
    using sim(1) node(1) by (simp add: add_node_for_def with_node_def ed_def Let_def flip: emb_def w_def nid_def node_def)
  have keys0: "dkeys (dset nid [] (vg_edges g)) = dkeys (vg_nodes g) @ [nid]" using fresh I(2) by (simp add: dkeys_dset_new)
  then have "nid \<in> set (dkeys (dset nid [] (vg_edges g)))" "fst ` set sim \<subseteq> set (dkeys (dset nid [] (vg_edges g)))" "nid \<notin> fst ` set sim"
    using sim(3) fresh by auto
  note L = link_similar_spec [OF sim(2) this(3,1,2), of uid now w 1, folded ed_def]
  have ids: "mset (map be_id (concat (dvals ed))) = mset (map be_id (concat (dvals (vg_edges g)))) + mset (map uid [1..<1 + 2 * length sim])"
    using L fresh I(2) by (simp add: concat_dset_new del: upt_Suc)
  have "nid \<notin> fst ` set (vg_edges g)" using fresh I(2) by (metis list.set_map)
  then have "dget (vg_edges g) nid = None" by (simp add: map_of_eq_None_iff)
  then have "dget_or (dset nid [] (vg_edges g)) a [] = edges_of a g" for a by (cases "a = nid") (simp_all add: edges_of_def dget_or_def)
  note L' = L [unfolded this sim(4)]
  have "dget (kn_properties node) ''embedding'' = None" by (simp add: node_def base_entity.defs)
  then show "bare (snd (add_node_for uid now cid c g))" if "bare g"
    using that unfolding eq bare_def by (auto simp: with_node_def update_conv' split: if_splits)
  show "vgraph_inv (snd (add_node_for uid now cid c g))" unfolding eq
  proof (rule with_node_inv [OF assms(1) fresh node(2)])
    show "dkeys ed = dkeys (vg_nodes g) @ [nid]" using L keys0 by simp
    show "distinct (used_ids (with_node nid node emb ed g))"
      unfolding nid_def by (rule with_node_ids [OF ids _ I(3) assms(2,3)]) (use fresh in \<open>simp add: nid_def\<close>)
  qed (use L' in \<open>auto simp: node(3)\<close>)
qed

text \<open>A step of the graph: a node is added by a call or by an event. The ids that are drawn are new.\<close>

inductive vg_step :: "vgraph \<Rightarrow> vgraph \<Rightarrow> bool" where
  step_add: "inj uid \<Longrightarrow> range uid \<inter> set (used_ids g) = {} \<Longrightarrow> vg_step g (snd (add_node uid now c g))"
| step_embedded: "inj uid \<Longrightarrow> range uid \<inter> set (used_ids g) = {} \<Longrightarrow> vg_step g (snd (on_embedded floats uid cuid now e g))"

lemma add_node_threshold: "vg_threshold (snd (add_node_for uid now cid c g)) = vg_threshold g"
  by (simp add: add_node_for_def Let_def split: sum.split)

lemma on_embedded_state:
  "snd (on_embedded floats uid cuid now e g) = g \<or> (\<exists>cid c. snd (on_embedded floats uid cuid now e g) = snd (add_node_for uid now cid c g))"
proof (cases "embedded_chunk floats cuid now (se_payload e)")
  case (Inr c)
  define cid where "cid = (case dget (se_payload e) ''chunk_id'' of None \<Rightarrow> DStr (be_id c) | Some d \<Rightarrow> if datum_truthy d then d else DStr (be_id c))"
  obtain r g1 where "add_node_for uid now cid c g = (r, g1)" by (cases "add_node_for uid now cid c g")
  with Inr have "snd (on_embedded floats uid cuid now e g) = g1" by (cases r) (simp_all add: on_embedded_def Let_def flip: cid_def)
  with \<open>add_node_for uid now cid c g = (r, g1)\<close> show ?thesis by (metis snd_conv)
qed (simp add: on_embedded_def)

lemma vg_step_inv: "vg_step g g' \<Longrightarrow> vgraph_inv g \<Longrightarrow> vgraph_inv g' \<and> (bare g \<longrightarrow> bare g') \<and> vg_threshold g' = vg_threshold g"
proof (induction rule: vg_step.induct)
  case (step_embedded uid g floats cuid now e)
  then show ?case using on_embedded_state [of floats uid cuid now e g] add_node_inv add_node_threshold by metis
qed (simp add: add_node_def add_node_inv add_node_threshold)

interpretation similarity: guarded_system "\<lambda>g. \<exists>thr. g = new_vgraph thr" vg_step "\<lambda>g. vgraph_inv g \<and> bare g"
proof unfold_locales
  show "vgraph_inv g \<and> bare g" if "\<exists>thr. g = new_vgraph thr" for g using that by (auto simp: vgraph_inv_new bare_def, auto simp: new_vgraph_def)
  show "vgraph_inv g' \<and> bare g'" if "vgraph_inv g \<and> bare g" "vg_step g g'" for g g' using vg_step_inv that by blast
qed

section \<open>Saving and loading\<close>

definition with_embedding :: "vgraph \<Rightarrow> string \<Rightarrow> knowledge_node \<Rightarrow> knowledge_node" where
  "with_embedding g i n = n\<lparr>kn_properties := dset ''embedding'' (DVec (dget_or (vg_embeddings g) i [])) (kn_properties n)\<rparr>"

definition entities_of :: "string \<Rightarrow> (string \<times> knowledge_node) list \<Rightarrow> vgraph \<Rightarrow> stored list" where
  "entities_of ws ns g =
     concat (map (\<lambda>(i, n). if kn_domain n = ws then KnowledgeNode (with_embedding g i n) # map Relation (edges_of i g) else []) ns)"

lemma nodes_irrelevant [simp]: "with_embedding (g\<lparr>vg_nodes := ns\<rparr>) = with_embedding g" "edges_of i (g\<lparr>vg_nodes := ns\<rparr>) = edges_of i g"
  by (simp_all add: with_embedding_def edges_of_def fun_eq_iff)

lemma save_all_append: "save_all c (xs @ ys) p = save_all c ys (save_all c xs p)"
  by (simp add: save_all_def)

lemma pe_save_open: "\<not> pe_shut p \<Longrightarrow> pe_save c e p = (Inr (entity_id e), save_all c [e] p)"
  by (simp add: pe_save_def on_thread_def save_all_def entity_id_def)

lemma persist_edges_saves:
  "\<not> pe_shut p \<Longrightarrow> persist_edges c rs p = (Inr (int (length rs)), save_all c (map Relation rs) p)"
proof (induction rs arbitrary: p)
  case (Cons r rs)
  then show ?case using Cons.IH [of "save_all c [Relation r] p"] by (simp add: pe_save_open save_all_tables flip: save_all_append)
qed (simp add: save_all_def)

lemma persist_nodes_saves:
  "\<not> pe_shut p \<Longrightarrow> \<exists>k g'. persist_nodes c ws ns (g, p) = (Inr k, (g', save_all c (entities_of ws ns g) p))"
proof (induction ns arbitrary: g p)
  case Nil
  then show ?case by (simp add: entities_of_def save_all_def)
next
  case (Cons x ns)
  obtain i n where x: "x = (i, n)" by (cases x)
  show ?case
  proof (cases "kn_domain n = ws")
    case True
    let ?g = "g\<lparr>vg_nodes := dset i (with_embedding g i n) (vg_nodes g)\<rparr>"
    let ?p = "save_all c (KnowledgeNode (with_embedding g i n) # map Relation (edges_of i g)) p"
    have same: "entities_of ws ns ?g = entities_of ws ns g" unfolding entities_of_def nodes_irrelevant by (rule refl)
    have "\<not> pe_shut ?p" using Cons.prems by (simp add: save_all_tables)
    from Cons.IH [OF this, of ?g] obtain k g' where "persist_nodes c ws ns (?g, ?p) = (Inr k, (g', save_all c (entities_of ws ns g) ?p))"
      unfolding same by blast
    moreover have "persist_edges c (edges_of i g) (save_all c [KnowledgeNode (with_embedding g i n)] p) = (Inr (int (length (edges_of i g))), ?p)"
      using persist_edges_saves [of "save_all c [KnowledgeNode (with_embedding g i n)] p" c "edges_of i g"] Cons.prems by (simp add: save_all_tables flip: save_all_append)
    moreover have "save_all c (entities_of ws (x # ns) g) p = save_all c (entities_of ws ns g) ?p"
      using True by (simp add: x entities_of_def flip: save_all_append)
    ultimately show ?thesis using True Cons.prems by (simp add: x pe_save_open Let_def flip: with_embedding_def edges_of_def)
  next
    case False
    with Cons.IH [OF Cons.prems, of g] show ?thesis by (simp add: x entities_of_def)
  qed
qed

lemma distinct_submset: "mset xs \<subseteq># mset ys \<Longrightarrow> distinct ys \<Longrightarrow> distinct xs"
  by (metis distinct_append mset_append mset_eq_imp_distinct_iff mset_subset_eq_exists_conv ex_mset)

lemma contents_distinct: "distinct (map entity_id es) \<Longrightarrow> contents es = map (\<lambda>e. (entity_id e, e)) es"
proof -
  have "distinct (dkeys d @ map entity_id es) \<Longrightarrow> fold (\<lambda>e. dset (entity_id e) e) es d = d @ map (\<lambda>e. (entity_id e, e)) es" for d
  proof (induction es arbitrary: d)
    case (Cons e es)
    have "dset (entity_id e) e d = d @ [(entity_id e, e)]" using Cons.prems by (intro dset_new) auto
    then show ?case using Cons.IH [of "d @ [(entity_id e, e)]"] Cons.prems by simp
  qed simp
  then show "distinct (map entity_id es) \<Longrightarrow> ?thesis" by (simp add: contents_def)
qed

lemma entities_of_distinct:
  assumes "vgraph_inv g"
  shows "distinct (map entity_id (entities_of ws (vg_nodes g) g))"
proof -
  note I = vgraph_invD [OF assms]
  have "mset (map entity_id (entities_of ws ns g)) \<subseteq># mset (map fst ns @ map be_id (concat (map (\<lambda>(i, _). edges_of i g) ns)))"
    if "\<forall>(i, n) \<in> set ns. be_id n = i" for ns
    using that
  proof (induction ns)
    case (Cons x ns)
    obtain i n where x: "x = (i, n)" "be_id n = i" using Cons.prems by (cases x) auto
    let ?M = "mset (map be_id (edges_of i g))" and ?E = "mset (map entity_id (entities_of ws ns g))"
    have "mset (map entity_id (entities_of ws (x # ns) g)) = (if kn_domain n = ws then {#i#} + ?M else {#}) + ?E"
      by (simp add: x entities_of_def comp_def entity_id_def base_entity.defs with_embedding_def image_mset.compositionality)
    also have "\<dots> \<subseteq># ({#i#} + ?M) + mset (map fst ns @ map be_id (concat (map (\<lambda>(i, _). edges_of i g) ns)))"
      using Cons by (intro subset_mset.add_mono) auto
    finally show ?case by (simp add: x ac_simps)
  qed (simp add: entities_of_def)
  moreover have "\<forall>(i, n) \<in> set (vg_nodes g). be_id n = i"
    using I(4) I(8) by (auto simp: node_ok_def dget_iff_in)
  moreover have "map (\<lambda>(i, _). edges_of i g) (vg_nodes g) = dvals (vg_edges g)"
  proof -
    have "dict_ok (vg_edges g)" using I(2,8) by (simp add: dict_ok_def)
    then have "map (\<lambda>i. edges_of i g) (dkeys (vg_edges g)) = dvals (vg_edges g)" by (auto simp: edges_of_def dget_or_def simp flip: dget_iff_in)
    then show ?thesis unfolding I(2) by (simp add: comp_def case_prod_unfold)
  qed
  ultimately show ?thesis using distinct_submset I(3) by (metis used_ids_def)
qed

definition stripped :: "knowledge_node \<Rightarrow> knowledge_node" where
  "stripped n = n\<lparr>kn_properties := ddel ''embedding'' (kn_properties n)\<rparr>"

definition vector_at :: "knowledge_node \<Rightarrow> real list" where
  "vector_at n = vector_of (dget_or (kn_properties n) ''embedding'' (DList []))"

lemma vector_of_DVec [simp]: "vector_of (DVec v) = v"
  by (induction v) (simp_all add: vector_of_def list_all_iff)

lemma stripped_with_embedding:
  "dget (kn_properties n) ''embedding'' = None \<Longrightarrow> stripped (with_embedding g i n) = n"
  "vector_at (with_embedding g i n) = dget_or (vg_embeddings g) i []"
  by (simp_all add: stripped_def with_embedding_def vector_at_def ddel_dset_fresh)

lemma load_nodes_spec:
  "\<exists>g'. load_nodes (map KnowledgeNode ns) g = (Inr (int (length ns)), g') \<and>
     (\<forall>i. dget (vg_nodes g') i = (case map_of (rev (map (\<lambda>n. (be_id n, n)) ns)) i of None \<Rightarrow> dget (vg_nodes g) i | Some n \<Rightarrow> Some (stripped n)) \<and>
          dget (vg_embeddings g') i = (case map_of (rev (map (\<lambda>n. (be_id n, n)) ns)) i of None \<Rightarrow> dget (vg_embeddings g) i | Some n \<Rightarrow> Some (vector_at n)) \<and>
          dget (vg_edges g') i = (if i \<in> be_id ` set ns then Some (edges_of i g) else dget (vg_edges g) i))"
proof (induction ns arbitrary: g)
  case (Cons n ns)
  let ?g = "g\<lparr>vg_nodes := dset (be_id n) (stripped n) (vg_nodes g), vg_embeddings := dset (be_id n) (vector_at n) (vg_embeddings g),
              vg_edges := dmod (be_id n) [] id (vg_edges g)\<rparr>"
  obtain g' where g': "load_nodes (map KnowledgeNode ns) ?g = (Inr (int (length ns)), g')"
    "\<And>i. dget (vg_nodes g') i = (case map_of (rev (map (\<lambda>n. (be_id n, n)) ns)) i of None \<Rightarrow> dget (vg_nodes ?g) i | Some n \<Rightarrow> Some (stripped n))"
    "\<And>i. dget (vg_embeddings g') i = (case map_of (rev (map (\<lambda>n. (be_id n, n)) ns)) i of None \<Rightarrow> dget (vg_embeddings ?g) i | Some n \<Rightarrow> Some (vector_at n))"
    "\<And>i. dget (vg_edges g') i = (if i \<in> be_id ` set ns then Some (edges_of i ?g) else dget (vg_edges ?g) i)"
    using Cons.IH [of ?g] by blast
  have "load_nodes (map KnowledgeNode (n # ns)) g = (Inr (int (length (n # ns))), g')"
    using g'(1) by (simp add: Let_def flip: stripped_def vector_at_def)
  moreover have "dget (vg_edges g') i = (if i \<in> be_id ` set (n # ns) then Some (edges_of i g) else dget (vg_edges g) i)" for i
    unfolding g'(4) by (auto simp: edges_of_def dmod_def dget_or_def update_conv' split: option.splits)
  ultimately show ?case
    by (intro exI [of _ g']) (auto simp: g'(2,3) map_add_def update_conv' split: option.splits)
qed simp

lemma group_relations_spec:
  assumes "dict_ok d"
  shows "\<exists>d'. group_relations (map Relation rs) d = Inr d' \<and> dict_ok d' \<and> (\<forall>a. dget_or d' a [] = dget_or d a [] @ filter (\<lambda>r. nr_source_id r = a) rs)"
  using assms
proof (induction rs arbitrary: d)
  case (Cons r rs)
  let ?d = "dmod (nr_source_id r) [] (\<lambda>l. l @ [r]) d"
  have "dict_ok ?d" using Cons.prems by (simp add: dmod_def)
  from Cons.IH [OF this] show ?case by (auto simp: dget_or_dmod)
qed simp

lemma put_relations_spec:
  assumes "dict_ok d"
  shows "vg_nodes (put_relations d g) = vg_nodes g" "vg_embeddings (put_relations d g) = vg_embeddings g"
    "dget (vg_edges g) a \<noteq> None \<Longrightarrow> dget (vg_edges (put_relations d g)) a = (case dget d a of None \<Rightarrow> dget (vg_edges g) a | Some l \<Rightarrow> Some l)"
    "dget (vg_edges g) a = None \<Longrightarrow> dget (vg_edges (put_relations d g)) a = None"
proof -
  have "vg_nodes (put_relations d g) = vg_nodes g \<and> vg_embeddings (put_relations d g) = vg_embeddings g \<and>
    (dget (vg_edges g) a \<noteq> None \<longrightarrow> dget (vg_edges (put_relations d g)) a = (case dget d a of None \<Rightarrow> dget (vg_edges g) a | Some l \<Rightarrow> Some l)) \<and>
    (dget (vg_edges g) a = None \<longrightarrow> dget (vg_edges (put_relations d g)) a = None)"
    using assms unfolding put_relations_def
  proof (induction d arbitrary: g)
    case (Cons x d)
    obtain k l where x: "x = (k, l)" by (cases x)
    have "dict_ok d" "dget d k = None" using Cons.prems by (auto simp: dict_ok_def x map_of_eq_None_iff)
    with Cons.IH [of "if dget (vg_edges g) k \<noteq> None then g\<lparr>vg_edges := dset k l (vg_edges g)\<rparr> else g"] show ?case
      by (auto simp: x update_conv' split: if_splits option.splits)
  qed simp
  then show "vg_nodes (put_relations d g) = vg_nodes g" "vg_embeddings (put_relations d g) = vg_embeddings g"
    "dget (vg_edges g) a \<noteq> None \<Longrightarrow> dget (vg_edges (put_relations d g)) a = (case dget d a of None \<Rightarrow> dget (vg_edges g) a | Some l \<Rightarrow> Some l)"
    "dget (vg_edges g) a = None \<Longrightarrow> dget (vg_edges (put_relations d g)) a = None" by blast+
qed

text \<open>The part of a graph that belongs to a workspace.\<close>

definition node_in :: "string \<Rightarrow> vgraph \<Rightarrow> string \<Rightarrow> knowledge_node option" where
  "node_in ws g i = (case dget (vg_nodes g) i of None \<Rightarrow> None | Some n \<Rightarrow> if kn_domain n = ws then Some n else None)"

lemma node_in_iff: "node_in ws g i = Some n \<longleftrightarrow> dget (vg_nodes g) i = Some n \<and> kn_domain n = ws"
  by (auto simp: node_in_def split: option.splits if_splits)

lemma sub_listing:
  assumes "\<And>e. e \<in> set es \<Longrightarrow> P e \<Longrightarrow> \<exists>x. e = K x"
  shows "\<exists>xs. map snd (sort_key fst (filter (\<lambda>(_, e). P e) (map (\<lambda>e. (entity_id e, e)) es))) = map K xs \<and> K ` set xs = {e \<in> set es. P e} \<and>
    (distinct (map entity_id es) \<longrightarrow> distinct (map (\<lambda>x. entity_id (K x)) xs))"
proof -
  let ?l = "map snd (sort_key fst (filter (\<lambda>(_, e). P e) (map (\<lambda>e. (entity_id e, e)) es)))"
  have l: "set ?l = {e \<in> set es. P e}" by (auto simp: image_iff)
  then obtain xs where xs: "?l = map K xs" using assms ex_map_conv [of ?l K] by blast
  have "mset ?l = mset (filter P es)" unfolding mset_map mset_sort mset_filter by (induction es) auto
  then have "mset (map entity_id (map K xs)) = mset (map entity_id (filter P es))" unfolding xs mset_map [of entity_id] by simp
  then have "distinct (map entity_id (map K xs))" if "distinct (map entity_id es)"
    using that distinct_map_filter mset_eq_imp_distinct_iff by blast
  moreover have "K ` set xs = {e \<in> set es. P e}" using l xs by (metis list.set_map)
  ultimately show ?thesis using xs by (auto simp: comp_def)
qed

lemma entities_of_mem:
  assumes "vgraph_inv g"
  shows "e \<in> set (entities_of ws (vg_nodes g) g) \<longleftrightarrow>
    (\<exists>i n. node_in ws g i = Some n \<and> (e = KnowledgeNode (with_embedding g i n) \<or> e \<in> Relation ` set (edges_of i g)))"
proof -
  have "e \<in> set (entities_of ws (vg_nodes g) g) \<longleftrightarrow>
      (\<exists>i n. (i, n) \<in> set (vg_nodes g) \<and> kn_domain n = ws \<and> (e = KnowledgeNode (with_embedding g i n) \<or> e \<in> Relation ` set (edges_of i g)))"
    by (auto simp: entities_of_def split: if_splits)
  then show ?thesis using vgraph_invD(8) [OF assms] by (simp add: node_in_iff dget_iff_in conj_assoc)
qed

lemma persisted_part:
  assumes "vgraph_inv g" and "codec_ok c"
  shows "\<exists>k g1 p1 ns rs p2 p3. persist_into c ws (g, new_persistence path empty_tables) = (Inr k, (g1, p1)) \<and>
     pe_list c ws (Some ''KnowledgeNode'') p1 = (Inr (map KnowledgeNode ns), p2) \<and> pe_list c ws (Some ''Relation'') p2 = (Inr (map Relation rs), p3) \<and>
     set ns = {with_embedding g i n |i n. node_in ws g i = Some n} \<and> set rs = {r. \<exists>i n. node_in ws g i = Some n \<and> r \<in> set (edges_of i g)} \<and>
     distinct (map be_id ns) \<and> distinct (map be_id rs)"
proof -
  note I = vgraph_invD [OF assms(1)]
  let ?p = "new_persistence path (empty_tables :: 'a tables)" and ?es = "entities_of ws (vg_nodes g) g"
  define p1 where "p1 = save_all c ?es ?p"
  obtain k g1 where per: "persist_into c ws (g, ?p) = (Inr k, (g1, p1))"
    using persist_nodes_saves [of ?p c ws "vg_nodes g" g] by (auto simp: persist_into_def p1_def new_persistence_def)
  have con: "contents ?es = map (\<lambda>e. (entity_id e, e)) ?es" by (rule contents_distinct [OF entities_of_distinct [OF assms(1)]])
  have p1: "\<not> pe_shut p1" "tb_entities (pe_tables p1) = map (apsnd (row_of c)) (contents ?es)"
    using save_all_tables [of ?p c ?es] save_all_rows [of ?p c "[]" ?es] by (simp_all add: p1_def contents_def new_persistence_def empty_tables_def)
  note mem = entities_of_mem [OF assms(1), of _ ws]
  have ws: "be_workspace_id (base_of e) = ws" if "e \<in> set ?es" for e
    using that I(4,7) unfolding mem by (auto simp: node_in_iff node_ok_def with_embedding_def base_entity.defs)
  have ok: "list_all stored_ok ?es" by (auto simp: list_all_iff mem)
  let ?P = "\<lambda>ty e. be_workspace_id (base_of e) = ws \<and> type_clause (Some ty) (row_of c e)"
  have only: "?P ''KnowledgeNode'' e \<Longrightarrow> \<exists>x. e = KnowledgeNode x" "?P ''Relation'' e \<Longrightarrow> \<exists>x. e = Relation x" if "e \<in> set ?es" for e
    using that unfolding mem by (auto simp: type_clause_def)
  obtain ns where ns: "map snd (sort_key fst (filter (\<lambda>(_, e). ?P ''KnowledgeNode'' e) (contents ?es))) = map KnowledgeNode ns"
    "KnowledgeNode ` set ns = {e \<in> set ?es. ?P ''KnowledgeNode'' e}" "distinct (map (\<lambda>x. entity_id (KnowledgeNode x)) ns)"
    using sub_listing [of ?es "?P ''KnowledgeNode''" KnowledgeNode] only(1) entities_of_distinct [OF assms(1), of ws] unfolding con by blast
  obtain rs where rs: "map snd (sort_key fst (filter (\<lambda>(_, e). ?P ''Relation'' e) (contents ?es))) = map Relation rs"
    "Relation ` set rs = {e \<in> set ?es. ?P ''Relation'' e}" "distinct (map (\<lambda>x. entity_id (Relation x)) rs)"
    using sub_listing [of ?es "?P ''Relation''" Relation] only(2) entities_of_distinct [OF assms(1), of ws] unfolding con by blast
  have "pe_list c ws (Some ''KnowledgeNode'') p1 = (Inr (map KnowledgeNode ns), p1\<lparr>pe_conn := True\<rparr>)"
    unfolding list_saved [OF assms(2) ok p1] ns(1) by simp
  moreover have "pe_list c ws (Some ''Relation'') (p1\<lparr>pe_conn := True\<rparr>) = (Inr (map Relation rs), p1\<lparr>pe_conn := True\<rparr>)"
  proof -
    have same: "\<not> pe_shut (p1\<lparr>pe_conn := True\<rparr>)" "tb_entities (pe_tables (p1\<lparr>pe_conn := True\<rparr>)) = map (apsnd (row_of c)) (contents ?es)" using p1 by simp_all
    show ?thesis unfolding list_saved [OF assms(2) ok same] rs(1) by simp
  qed
  moreover have "n \<in> set ns \<longleftrightarrow> KnowledgeNode n \<in> set ?es" "r \<in> set rs \<longleftrightarrow> Relation r \<in> set ?es" for n r
    using ns(2) rs(2) ws [of "KnowledgeNode n"] ws [of "Relation r"] by (auto simp: type_clause_def set_eq_iff image_iff)
  then have "set ns = {with_embedding g i n |i n. node_in ws g i = Some n}" "set rs = {r. \<exists>i n. node_in ws g i = Some n \<and> r \<in> set (edges_of i g)}"
    unfolding mem set_eq_iff by (auto simp: image_iff)
  moreover have "distinct (map be_id ns)" "distinct (map be_id rs)" using ns(3) rs(3) by (simp_all add: entity_id_def base_entity.defs)
  ultimately show ?thesis using per by blast
qed

lemma reloaded_nodes:
  assumes "vgraph_inv g" and "set ns = {with_embedding g i n |i n. node_in ws g i = Some n}"
  shows "map_of (rev (map (\<lambda>n. (be_id n, n)) ns)) i = map_option (with_embedding g i) (node_in ws g i)" "i \<in> be_id ` set ns \<longleftrightarrow> node_in ws g i \<noteq> None"
proof -
  have ids: "be_id (with_embedding g j n) = j" if "node_in ws g j = Some n" for j n
    using that vgraph_invD(4) [OF assms(1), of j n] by (simp add: node_in_iff node_ok_def with_embedding_def)
  have mem: "m \<in> set ns \<longleftrightarrow> (\<exists>j n. node_in ws g j = Some n \<and> m = with_embedding g j n)" for m unfolding assms(2) by auto
  show member: "i \<in> be_id ` set ns \<longleftrightarrow> node_in ws g i \<noteq> None"
  proof
    assume "i \<in> be_id ` set ns"
    then show "node_in ws g i \<noteq> None" using ids by (auto simp: mem)
  next
    assume "node_in ws g i \<noteq> None"
    then obtain n where "node_in ws g i = Some n" by auto
    then show "i \<in> be_id ` set ns" using ids mem by (intro rev_image_eqI [of "with_embedding g i n"]) auto
  qed
  let ?m = "map_of (rev (map (\<lambda>n. (be_id n, n)) ns)) i"
  have none: "?m = None \<longleftrightarrow> i \<notin> be_id ` set ns" by (simp add: map_of_eq_None_iff image_image)
  have some: "m \<in> set ns \<and> be_id m = i" if "?m = Some m" for m using map_of_SomeD [OF that] by auto
  show "?m = map_option (with_embedding g i) (node_in ws g i)"
  proof (cases ?m)
    case (Some m)
    then obtain j n where "node_in ws g j = Some n" "m = with_embedding g j n" using some mem by blast
    with some [OF Some] ids Some show ?thesis by auto
  qed (use none member in auto)
qed

lemma loaded_part:
  assumes "vgraph_inv g" and bare: "bare g" and "set ns = {with_embedding g i n |i n. node_in ws g i = Some n}"
    and "set rs = {r. \<exists>i n. node_in ws g i = Some n \<and> r \<in> set (edges_of i g)}"
  shows "\<exists>m g' d. load_nodes (map KnowledgeNode ns) (new_vgraph thr) = (Inr m, g') \<and> group_relations (map Relation rs) [] = Inr d \<and>
     (\<forall>i. dget (vg_nodes (put_relations d g')) i = node_in ws g i \<and>
          dget (vg_embeddings (put_relations d g')) i = (if node_in ws g i = None then None else dget (vg_embeddings g) i) \<and>
          set (edges_of i (put_relations d g')) = (if node_in ws g i = None then {} else set (edges_of i g)))"
proof -
  note I = vgraph_invD [OF assms(1)] and R = reloaded_nodes [OF assms(1,3)]
  have new: "vg_nodes (new_vgraph thr) = []" "vg_embeddings (new_vgraph thr) = []" "vg_edges (new_vgraph thr) = []" "edges_of i (new_vgraph thr) = []" for i
    by (simp_all add: new_vgraph_def edges_of_def dget_or_def)
  obtain g' where g': "load_nodes (map KnowledgeNode ns) (new_vgraph thr) = (Inr (int (length ns)), g')"
    and get: "\<And>i. dget (vg_nodes g') i = map_option (stripped \<circ> with_embedding g i) (node_in ws g i)"
      "\<And>i. dget (vg_embeddings g') i = map_option (vector_at \<circ> with_embedding g i) (node_in ws g i)"
      "\<And>i. dget (vg_edges g') i = (if node_in ws g i \<noteq> None then Some [] else None)"
    using load_nodes_spec [of ns "new_vgraph thr"] unfolding R new by (auto simp: option.case_eq_if map_option_case comp_def)
  obtain d where d: "group_relations (map Relation rs) [] = Inr d" "dict_ok d" "\<And>a. dget_or d a [] = filter (\<lambda>r. nr_source_id r = a) rs"
    using group_relations_spec [of "[]" rs] by (auto simp: dict_ok_def dget_or_def)
  note P = put_relations_spec [OF d(2), of g']
  have "dget (vg_nodes g') i = node_in ws g i" for i
  proof (cases "node_in ws g i")
    case (Some n)
    then have "dget (kn_properties n) ''embedding'' = None" using bare unfolding node_in_iff bare_def by blast
    then show ?thesis using Some by (simp add: get(1) stripped_with_embedding)
  qed (simp add: get(1))
  moreover have "dget (vg_embeddings g') i = (if node_in ws g i = None then None else dget (vg_embeddings g) i)" for i
  proof (cases "node_in ws g i")
    case (Some n)
    then have "i \<in> set (dkeys (vg_embeddings g))" unfolding I(1) by (simp add: node_in_iff domI flip: dom_map_of_conv_image_fst)
    then obtain v where "dget (vg_embeddings g) i = Some v" by (auto simp flip: dom_map_of_conv_image_fst)
    then show ?thesis using Some by (simp add: get(2) stripped_with_embedding dget_or_def)
  qed (simp add: get(2))
  moreover have "set (edges_of i (put_relations d g')) = (if node_in ws g i = None then {} else set (edges_of i g))" for i
  proof (cases "node_in ws g i")
    case None
    then show ?thesis using P(4) [of i] by (simp add: get(3) edges_of_def dget_or_def)
  next
    case (Some n)
    then have "edges_of i (put_relations d g') = dget_or d i []"
      using P(3) [of i] by (simp add: get(3) edges_of_def dget_or_def split: option.splits)
    then show ?thesis using Some I(6) by (auto simp: d(3) assms(4))
  qed
  ultimately show ?thesis using g' d(1) P(1,2) by auto
qed

subsection \<open>Saving and loading keep the invariant\<close>

definition signature :: "knowledge_node \<Rightarrow> string \<times> string \<times> string" where
  "signature n = (be_id n, kn_domain n, be_workspace_id n)"

lemma signature_with_embedding [simp]: "signature (n\<lparr>kn_properties := p\<rparr>) = signature n" "signature (with_embedding g i n) = signature n" "signature (stripped n) = signature n"
  by (simp_all add: signature_def with_embedding_def stripped_def)

definition same_shape :: "vgraph \<Rightarrow> vgraph \<Rightarrow> bool" where
  "same_shape g g' \<longleftrightarrow>
     vg_embeddings g' = vg_embeddings g \<and> vg_edges g' = vg_edges g \<and> vg_threshold g' = vg_threshold g \<and> dkeys (vg_nodes g') = dkeys (vg_nodes g) \<and>
     (\<forall>i. map_option signature (dget (vg_nodes g') i) = map_option signature (dget (vg_nodes g) i))"

lemma same_shape_refl [simp]: "same_shape g g"
  by (simp add: same_shape_def)

lemma same_shape_trans: "same_shape g g1 \<Longrightarrow> same_shape g1 g2 \<Longrightarrow> same_shape g g2"
  by (simp add: same_shape_def)

lemma persist_nodes_shape:
  assumes "\<forall>(i, n) \<in> set ns. map_option signature (dget (vg_nodes g) i) = Some (signature n)"
  shows "same_shape g (fst (snd (persist_nodes c ws ns (g, p))))"
  using assms
proof (induction ns arbitrary: g p)
  case (Cons x ns)
  obtain i n where x: "x = (i, n)" by (cases x)
  show ?case
  proof (cases "kn_domain n = ws")
    case False
    with Cons x show ?thesis by simp
  next
    case True
    let ?n = "n\<lparr>kn_properties := dset ''embedding'' (DVec (dget_or (vg_embeddings g) i [])) (kn_properties n)\<rparr>"
    let ?g = "g\<lparr>vg_nodes := dset i ?n (vg_nodes g)\<rparr>"
    have i: "map_option signature (dget (vg_nodes g) i) = Some (signature n)" using Cons.prems x by auto
    then have "i \<in> set (dkeys (vg_nodes g))" by (auto dest!: dget_Some_in intro: rev_image_eqI)
    then have shape: "same_shape g ?g" using i by (auto simp: same_shape_def dget_dset update_keys)
    then have "\<forall>(i, n) \<in> set ns. map_option signature (dget (vg_nodes ?g) i) = Some (signature n)" using Cons.prems by (auto simp: same_shape_def)
    from Cons.IH [OF this] have rest: "same_shape g (fst (snd (persist_nodes c ws ns (?g, p))))" for p using same_shape_trans [OF shape] by blast
    obtain r1 p1 where s: "pe_save c (KnowledgeNode ?n) p = (r1, p1)" by fastforce
    obtain r2 p2 where e: "persist_edges c (dget_or (vg_edges g) i []) p1 = (r2, p2)" by fastforce
    obtain r3 g3 p3 where n: "persist_nodes c ws ns (?g, p2) = (r3, (g3, p3))" by (metis surj_pair)
    have "same_shape g g3" using rest [of p2] n by simp
    then show ?thesis using True shape s e n by (cases r1; cases r2; cases r3) (simp_all add: x Let_def)
  qed
qed simp

lemma same_shape_alike: "same_shape g g' \<Longrightarrow> alike g' a b \<longleftrightarrow> alike g a b"
proof -
  assume s: "same_shape g g'"
  have a: "map_option signature (dget (vg_nodes g') i) = map_option signature (dget (vg_nodes g) i)" for i using s by (simp add: same_shape_def)
  have d: "map_option kn_domain (dget (vg_nodes g') i) = map_option kn_domain (dget (vg_nodes g) i)" for i
    using a [of i] by (cases "dget (vg_nodes g') i"; cases "dget (vg_nodes g) i") (simp_all add: signature_def)
  have alike: "alike h a b \<longleftrightarrow> a \<noteq> b \<and> map_option kn_domain (dget (vg_nodes h) a) \<noteq> None \<and>
      map_option kn_domain (dget (vg_nodes h) a) = map_option kn_domain (dget (vg_nodes h) b) \<and>
      (\<exists>v w. dget (vg_embeddings h) a = Some v \<and> dget (vg_embeddings h) b = Some w \<and> cosine_similarity v w \<ge> vg_threshold h)" for h
    by (auto simp: alike_def split: option.splits)
  show ?thesis unfolding alike d using s by (simp add: same_shape_def)
qed

lemma vgraph_inv_shape:
  assumes "vgraph_inv g" and "same_shape g g'"
  shows "vgraph_inv g'"
proof -
  note I = vgraph_invD [OF assms(1)]
  have s: "vg_embeddings g' = vg_embeddings g" "vg_edges g' = vg_edges g" "dkeys (vg_nodes g') = dkeys (vg_nodes g)"
    "map_option signature (dget (vg_nodes g') i) = map_option signature (dget (vg_nodes g) i)" for i using assms(2) by (simp_all add: same_shape_def)
  have e: "edges_of a g' = edges_of a g" for a by (simp add: edges_of_def s)
  have old: "\<exists>m. dget (vg_nodes g) i = Some m \<and> signature m = signature n" if "dget (vg_nodes g') i = Some n" for i n
    using s(4) [of i] that by (cases "dget (vg_nodes g) i") auto
  have "node_ok i n" if n: "dget (vg_nodes g') i = Some n" for i n using old [OF n] I(4) by (fastforce simp: node_ok_def signature_def)
  moreover have "nr_source_id r = a \<and> (\<forall>n. dget (vg_nodes g') a = Some n \<longrightarrow> be_workspace_id r = kn_domain n)" if "r \<in> set (edges_of a g')" for a r
    using that I(6,7) [of r a] old [of a] unfolding e by (fastforce simp: signature_def)
  moreover have "used_ids g' = used_ids g" by (simp add: used_ids_def s)
  ultimately show ?thesis unfolding vgraph_inv_def using I(1-3,5) s same_shape_alike [OF assms(2)] e by simp
qed

lemma persist_into_inv:
  assumes "vgraph_inv g"
  shows "vgraph_inv (fst (snd (persist_into c ws (g, p)))) \<and> vg_threshold (fst (snd (persist_into c ws (g, p)))) = vg_threshold g"
proof -
  have "\<forall>(i, n) \<in> set (vg_nodes g). map_option signature (dget (vg_nodes g) i) = Some (signature n)"
    using vgraph_invD(8) [OF assms] by (auto simp: dget_iff_in [symmetric])
  then have "same_shape g (fst (snd (persist_into c ws (g, p))))" unfolding persist_into_def fst_conv by (rule persist_nodes_shape)
  then show ?thesis using vgraph_inv_shape [OF assms] by (simp add: same_shape_def)
qed

lemma load_nodes_keys:
  assumes "load_nodes (map KnowledgeNode ns) g = (r, g')" and "distinct (map be_id ns)" and "set (map be_id ns) \<inter> set (dkeys (vg_nodes g)) = {}"
    and "dkeys (vg_embeddings g) = dkeys (vg_nodes g)" and "dkeys (vg_edges g) = dkeys (vg_nodes g)"
  shows "dkeys (vg_nodes g') = dkeys (vg_nodes g) @ map be_id ns \<and> dkeys (vg_embeddings g') = dkeys (vg_nodes g) @ map be_id ns \<and>
    dkeys (vg_edges g') = dkeys (vg_nodes g) @ map be_id ns \<and> vg_threshold g' = vg_threshold g"
  using assms
proof (induction ns arbitrary: g r)
  case (Cons n ns)
  let ?g = "g\<lparr>vg_nodes := dset (be_id n) (stripped n) (vg_nodes g), vg_embeddings := dset (be_id n) (vector_at n) (vg_embeddings g),
              vg_edges := dmod (be_id n) [] id (vg_edges g)\<rparr>"
  obtain r1 where l: "load_nodes (map KnowledgeNode ns) ?g = (r1, g')"
    using Cons.prems(1) by (auto simp: Let_def simp flip: stripped_def vector_at_def split: prod.splits sum.splits)
  have new: "be_id n \<notin> set (dkeys (vg_nodes g))" using Cons.prems(3) by auto
  then have keys: "dkeys (vg_nodes ?g) = dkeys (vg_nodes g) @ [be_id n]" "dkeys (vg_embeddings ?g) = dkeys (vg_nodes g) @ [be_id n]"
    "dkeys (vg_edges ?g) = dkeys (vg_nodes g) @ [be_id n]" using Cons.prems(4,5) by (simp_all add: dkeys_dset_new dmod_def)
  have "distinct (map be_id ns)" "set (map be_id ns) \<inter> set (dkeys (vg_nodes ?g)) = {}" using Cons.prems(2,3) unfolding keys by auto
  from Cons.IH [OF l this] show ?case unfolding keys by simp
qed simp

lemma put_relations_keys: "dkeys (vg_edges (put_relations d g)) = dkeys (vg_edges g) \<and> vg_threshold (put_relations d g) = vg_threshold g"
  unfolding put_relations_def
proof (induction d arbitrary: g)
  case (Cons x d)
  obtain k l where x: "x = (k, l)" by (cases x)
  have "dkeys (dset k l (vg_edges g)) = dkeys (vg_edges g)" if "dget (vg_edges g) k \<noteq> None"
    using that by (subst update_keys) (auto simp: map_of_eq_None_iff)
  then show ?case using Cons.IH [of "if dget (vg_edges g) k \<noteq> None then g\<lparr>vg_edges := dset k l (vg_edges g)\<rparr> else g"] by (simp add: x)
qed simp

lemma group_relations_nonempty:
  "group_relations (map Relation rs) d = Inr d' \<Longrightarrow> \<forall>a. dget d a \<noteq> Some [] \<Longrightarrow> dget d' a \<noteq> Some []"
proof (induction rs arbitrary: d)
  case (Cons r rs)
  have "\<forall>a. dget (dmod (nr_source_id r) [] (\<lambda>l. l @ [r]) d) a \<noteq> Some []" using Cons.prems(2) by (simp add: dmod_def dget_dset)
  then show ?case using Cons.IH Cons.prems(1) by simp
qed simp

lemma set_concat_dict:
  assumes "dict_ok d"
  shows "set (concat (dvals d)) = (\<Union>a. set (dget_or d a []))"
proof (rule set_eqI)
  fix y
  have mem: "y \<in> set (concat (dvals d)) \<longleftrightarrow> (\<exists>k l. dget d k = Some l \<and> y \<in> set l)" by (simp add: dget_iff_in [OF assms]) force
  have "(\<exists>l. dget d k = Some l \<and> y \<in> set l) \<longleftrightarrow> y \<in> set (dget_or d k [])" for k by (cases "dget d k") (simp_all add: dget_or_def)
  then show "y \<in> set (concat (dvals d)) \<longleftrightarrow> y \<in> (\<Union>a. set (dget_or d a []))" unfolding mem UN_iff by simp
qed

lemma distinct_concat_dict:
  assumes "dict_ok d"
  shows "distinct (map f (concat (dvals d))) \<longleftrightarrow>
    (\<forall>a. distinct (map f (dget_or d a []))) \<and> (\<forall>a b. a \<noteq> b \<longrightarrow> f ` set (dget_or d a []) \<inter> f ` set (dget_or d b []) = {})"
  using assms
proof (induction d)
  case (Cons x d)
  obtain k l where x: "x = (k, l)" by (cases x)
  have d: "dict_ok d" "dget d k = None" using Cons.prems by (auto simp: dict_ok_def x map_of_eq_None_iff)
  then have k: "dget_or d k [] = []" by (simp add: dget_or_def)
  have get: "dget_or (x # d) a [] = (if a = k then l else dget_or d a [])" for a by (simp add: x dget_or_def)
  have "set (concat (dvals d)) = (\<Union>a. set (dget_or d a []))" by (rule set_concat_dict [OF d(1)])
  then have "f ` set (concat (dvals d)) = (\<Union>a. f ` set (dget_or d a []))" by (simp only: image_UN)
  then have lhs: "distinct (map f (concat (dvals (x # d)))) \<longleftrightarrow>
      distinct (map f l) \<and> distinct (map f (concat (dvals d))) \<and> f ` set l \<inter> (\<Union>a. f ` set (dget_or d a [])) = {}" by (simp add: x)
  have one: "(\<forall>a. distinct (map f (dget_or (x # d) a []))) \<longleftrightarrow> distinct (map f l) \<and> (\<forall>a. distinct (map f (dget_or d a [])))"
  proof (intro iffI conjI allI)
    assume all: "\<forall>a. distinct (map f (dget_or (x # d) a []))"
    show "distinct (map f l)" using spec [OF all, of k] by (simp add: get)
    show "distinct (map f (dget_or d a []))" for a using spec [OF all, of a] k by (cases "a = k") (simp_all add: get)
  qed (simp add: get)
  have two: "(\<forall>a b. a \<noteq> b \<longrightarrow> f ` set (dget_or (x # d) a []) \<inter> f ` set (dget_or (x # d) b []) = {}) \<longleftrightarrow>
      (\<forall>a b. a \<noteq> b \<longrightarrow> f ` set (dget_or d a []) \<inter> f ` set (dget_or d b []) = {}) \<and> f ` set l \<inter> (\<Union>a. f ` set (dget_or d a [])) = {}" (is "?all = (?old \<and> ?new)")
  proof
    assume all: ?all
    have apart: "f ` set (dget_or (x # d) a []) \<inter> f ` set (dget_or (x # d) b []) = {}" if "a \<noteq> b" for a b using all that by simp
    have ?old
    proof (intro allI impI)
      show "f ` set (dget_or d a []) \<inter> f ` set (dget_or d b []) = {}" if "a \<noteq> b" for a b
        using apart [OF that] k by (cases "a = k"; cases "b = k") (simp_all add: get)
    qed
    moreover have "f ` set l \<inter> f ` set (dget_or d a []) = {}" for a using apart [of k a] k by (cases "a = k") (simp_all add: get)
    ultimately show "?old \<and> ?new" by blast
  next
    assume old: "?old \<and> ?new"
    have new: "f ` set l \<inter> f ` set (dget_or d a []) = {}" for a using old by blast
    show ?all
    proof (intro allI impI)
      show "f ` set (dget_or (x # d) a []) \<inter> f ` set (dget_or (x # d) b []) = {}" if "a \<noteq> b" for a b
        using that old new [of a] new [of b] by (cases "a = k"; cases "b = k") (simp_all add: get Int_commute)
    qed
  qed
  show ?case unfolding lhs one two Cons.IH [OF d(1)] by blast
qed (simp add: dget_or_def)

text \<open>The ids of the nodes of a workspace and of their edges.\<close>

definition part_ids :: "string \<Rightarrow> vgraph \<Rightarrow> string set" where
  "part_ids ws g = {i. node_in ws g i \<noteq> None} \<union> {be_id r |r i. node_in ws g i \<noteq> None \<and> r \<in> set (edges_of i g)}"

text \<open>A workspace of one graph, loaded into another one that has nothing of it, makes a graph with both.\<close>

lemma loaded_graph:
  assumes h: "vgraph_inv h" and g: "vgraph_inv g" and empty: "\<And>i. node_in ws g i = None" and disj: "part_ids ws h \<inter> set (used_ids g) = {}"
    and ns: "set ns = {with_embedding h i n |i n. node_in ws h i = Some n}" "distinct (map be_id ns)"
    and rs: "set rs = {r. \<exists>i n. node_in ws h i = Some n \<and> r \<in> set (edges_of i h)}" "distinct (map be_id rs)"
  obtains m g' d where "load_nodes (map KnowledgeNode ns) g = (Inr m, g')" and "group_relations (map Relation rs) [] = Inr d"
    and "dkeys (vg_nodes (put_relations d g')) = dkeys (vg_nodes g) @ map be_id ns" "dkeys (vg_embeddings (put_relations d g')) = dkeys (vg_nodes g) @ map be_id ns"
      "dkeys (vg_edges (put_relations d g')) = dkeys (vg_nodes g) @ map be_id ns" "vg_threshold (put_relations d g') = vg_threshold g"
    and "\<forall>i. dget (vg_nodes (put_relations d g')) i = (case node_in ws h i of None \<Rightarrow> dget (vg_nodes g) i | Some n \<Rightarrow> Some (stripped (with_embedding h i n)))"
      "\<forall>i. dget (vg_embeddings (put_relations d g')) i = (if node_in ws h i = None then dget (vg_embeddings g) i else dget (vg_embeddings h) i)"
      "\<forall>i. edges_of i (put_relations d g') = (if node_in ws h i = None then edges_of i g else filter (\<lambda>r. nr_source_id r = i) rs)"
proof -
  note Ih = vgraph_invD [OF h] and Ig = vgraph_invD [OF g] and R = reloaded_nodes [OF h ns(1)]
  have new: "i \<notin> set (dkeys (vg_nodes g))" if "node_in ws h i \<noteq> None" for i
    using that disj by (auto simp: part_ids_def used_ids_def)
  have ids: "set (map be_id ns) = {i. node_in ws h i \<noteq> None}" using R(2) by auto
  obtain g' where l: "load_nodes (map KnowledgeNode ns) g = (Inr (int (length ns)), g')"
    and raw: "\<forall>i. dget (vg_nodes g') i = (case map_option (with_embedding h i) (node_in ws h i) of None \<Rightarrow> dget (vg_nodes g) i | Some n \<Rightarrow> Some (stripped n)) \<and>
      dget (vg_embeddings g') i = (case map_option (with_embedding h i) (node_in ws h i) of None \<Rightarrow> dget (vg_embeddings g) i | Some n \<Rightarrow> Some (vector_at n)) \<and>
      dget (vg_edges g') i = (if node_in ws h i \<noteq> None then Some (edges_of i g) else dget (vg_edges g) i)"
    using load_nodes_spec [of ns g] unfolding R by blast
  have get: "dget (vg_nodes g') i = (case node_in ws h i of None \<Rightarrow> dget (vg_nodes g) i | Some n \<Rightarrow> Some (stripped (with_embedding h i n)))"
    "dget (vg_embeddings g') i = (case node_in ws h i of None \<Rightarrow> dget (vg_embeddings g) i | Some n \<Rightarrow> Some (vector_at (with_embedding h i n)))"
    "dget (vg_edges g') i = (if node_in ws h i \<noteq> None then Some (edges_of i g) else dget (vg_edges g) i)" for i
    using spec [OF raw, of i] by (cases "node_in ws h i"; simp)+
  have keys: "dkeys (vg_nodes g') = dkeys (vg_nodes g) @ map be_id ns \<and> dkeys (vg_embeddings g') = dkeys (vg_nodes g) @ map be_id ns \<and>
    dkeys (vg_edges g') = dkeys (vg_nodes g) @ map be_id ns \<and> vg_threshold g' = vg_threshold g"
    using load_nodes_keys [OF l ns(2) _ Ig(1,2)] new ids by blast
  obtain d where d: "group_relations (map Relation rs) [] = Inr d" "dict_ok d" "\<And>a. dget_or d a [] = filter (\<lambda>r. nr_source_id r = a) rs"
    using group_relations_spec [of "[]" rs] by (auto simp: dict_ok_def dget_or_def)
  have ne: "dget d a \<noteq> Some []" for a using group_relations_nonempty [OF d(1)] by simp
  note P = put_relations_spec [OF d(2), of g']
  have "dget (vg_embeddings g') i = (if node_in ws h i = None then dget (vg_embeddings g) i else dget (vg_embeddings h) i)" for i
  proof (cases "node_in ws h i")
    case (Some n)
    then have "i \<in> set (dkeys (vg_embeddings h))" unfolding Ih(1) by (simp add: node_in_iff domI flip: dom_map_of_conv_image_fst)
    then obtain v where "dget (vg_embeddings h) i = Some v" by (auto simp flip: dom_map_of_conv_image_fst)
    then show ?thesis using Some by (simp add: get(2) stripped_with_embedding dget_or_def)
  qed (simp add: get(2))
  moreover have "edges_of i (put_relations d g') = (if node_in ws h i = None then edges_of i g else filter (\<lambda>r. nr_source_id r = i) rs)" for i
  proof (cases "node_in ws h i")
    case None
    have "filter (\<lambda>r. nr_source_id r = i) rs = []" using None Ih(6) by (auto simp: filter_empty_conv rs(1))
    then have "dget d i = None" using d(3) [of i] ne [of i] by (cases "dget d i") (auto simp: dget_or_def)
    then show ?thesis using None P(3,4) [of i] by (cases "dget (vg_edges g) i") (simp_all add: edges_of_def dget_or_def get(3))
  next
    case (Some n)
    have "dget (vg_edges g) i = None" using new [of i] Some unfolding Ig(2) [symmetric] by (simp add: map_of_eq_None_iff)
    then have "dget (vg_edges g') i = Some []" using Some by (simp add: get(3) edges_of_def dget_or_def)
    then have "edges_of i (put_relations d g') = dget_or d i []" using P(3) [of i] by (simp add: edges_of_def dget_or_def split: option.splits)
    then show ?thesis using Some by (simp add: d(3))
  qed
  ultimately show thesis using that [OF l d(1)] keys put_relations_keys [of d g'] P(1,2) get(1) by simp
qed

lemma loaded_inv:
  assumes h: "vgraph_inv h" and g: "vgraph_inv g" and empty: "\<And>i. node_in ws g i = None" and disj: "part_ids ws h \<inter> set (used_ids g) = {}"
    and thr: "vg_threshold h = vg_threshold g"
    and ns: "set ns = {with_embedding h i n |i n. node_in ws h i = Some n}" "distinct (map be_id ns)"
    and rs: "set rs = {r. \<exists>i n. node_in ws h i = Some n \<and> r \<in> set (edges_of i h)}" "distinct (map be_id rs)"
  shows "\<exists>m g' d. load_nodes (map KnowledgeNode ns) g = (Inr m, g') \<and> group_relations (map Relation rs) [] = Inr d \<and>
    vgraph_inv (put_relations d g') \<and> vg_threshold (put_relations d g') = vg_threshold g"
proof -
  note Ih = vgraph_invD [OF h] and Ig = vgraph_invD [OF g] and R = reloaded_nodes [OF h ns(1)]
  obtain m g' d where l: "load_nodes (map KnowledgeNode ns) g = (Inr m, g')" "group_relations (map Relation rs) [] = Inr d"
    and keys: "dkeys (vg_nodes (put_relations d g')) = dkeys (vg_nodes g) @ map be_id ns" "dkeys (vg_embeddings (put_relations d g')) = dkeys (vg_nodes g) @ map be_id ns"
      "dkeys (vg_edges (put_relations d g')) = dkeys (vg_nodes g) @ map be_id ns" "vg_threshold (put_relations d g') = vg_threshold g"
    and all: "\<forall>i. dget (vg_nodes (put_relations d g')) i = (case node_in ws h i of None \<Rightarrow> dget (vg_nodes g) i | Some n \<Rightarrow> Some (stripped (with_embedding h i n)))"
      "\<forall>i. dget (vg_embeddings (put_relations d g')) i = (if node_in ws h i = None then dget (vg_embeddings g) i else dget (vg_embeddings h) i)"
      "\<forall>i. edges_of i (put_relations d g') = (if node_in ws h i = None then edges_of i g else filter (\<lambda>r. nr_source_id r = i) rs)"
    by (rule loaded_graph [OF h g empty disj ns rs])
  note get = spec [OF all(1)] spec [OF all(2)] spec [OF all(3)]
  let ?G = "put_relations d g'" and ?in = "\<lambda>i. node_in ws h i \<noteq> None"
  have new: "dget (vg_nodes g) i = None" if "?in i" for i
    using that disj by (auto simp: part_ids_def used_ids_def map_of_eq_None_iff)
  have edges: "set (edges_of i ?G) = (if ?in i then set (edges_of i h) else set (edges_of i g))" for i
    using Ih(6) by (auto simp: get(3) rs(1))
  have none: "edges_of i g = []" if "?in i" for i
  proof -
    have "r \<notin> set (edges_of i g)" for r
    proof
      assume "r \<in> set (edges_of i g)"
      then have "alike g i (nr_target_id r)" using Ig(5) by blast
      then show False using new [OF that] alike_nodes [of g i "nr_target_id r"] by (auto simp: map_of_eq_None_iff)
    qed
    then show ?thesis by (cases "edges_of i g") auto
  qed
  have node: "dget (vg_nodes ?G) i = Some n \<Longrightarrow> \<exists>n'. (if ?in i then dget (vg_nodes h) i else dget (vg_nodes g) i) = Some n' \<and> signature n = signature n'" for i n
    by (cases "node_in ws h i") (auto simp: get(1) node_in_iff)
  have alike: "alike ?G a b \<longleftrightarrow> (if ?in a then alike h a b else alike g a b)" for a b
  proof -
    have hn: "node_in ws h i = Some n \<Longrightarrow> dget (vg_nodes h) i = Some n \<and> kn_domain n = ws" for i n by (simp add: node_in_iff)
    have gn: "dget (vg_nodes g) i = Some n \<Longrightarrow> kn_domain n \<noteq> ws" for i n using empty [of i] by (auto simp: node_in_def split: if_splits)
    have dom: "kn_domain (stripped (with_embedding h i n)) = kn_domain n" for i n by (simp add: stripped_def with_embedding_def)
    have out: "node_in ws h i = None \<Longrightarrow> dget (vg_nodes h) i = Some n \<Longrightarrow> kn_domain n \<noteq> ws" for i n by (auto simp: node_in_def split: if_splits)
    show ?thesis
    proof (cases "node_in ws h a"; cases "node_in ws h b")
      assume a: "node_in ws h a = None" and b: "node_in ws h b = None"
      then show ?thesis unfolding alike_def keys(4) get(1,2) by simp
    next
      fix n assume a: "node_in ws h a = None" and b: "node_in ws h b = Some n"
      have "\<not> alike ?G a b" using a b gn [of a] hn [OF b] dom by (auto simp: alike_def get(1,2) split: option.splits)
      moreover have "\<not> alike g a b" using new [of b] b by (auto simp: alike_def split: option.splits)
      ultimately show ?thesis using a by simp
    next
      fix n assume a: "node_in ws h a = Some n" and b: "node_in ws h b = None"
      have "\<not> alike ?G a b" using a b gn [of b] hn [OF a] dom by (auto simp: alike_def get(1,2) split: option.splits)
      moreover have "\<not> alike h a b" using hn [OF a] out [OF b] by (auto simp: alike_def split: option.splits)
      ultimately show ?thesis using a by simp
    next
      fix n n' assume a: "node_in ws h a = Some n" and b: "node_in ws h b = Some n'"
      then show ?thesis using hn [OF a] hn [OF b] unfolding alike_def keys(4) get(1,2) thr by (simp add: dom cong: option.case_cong)
    qed
  qed
  have "distinct (used_ids ?G)"
  proof -
    have ids: "set (map be_id ns) = {i. ?in i}" using R(2) by auto
    have nodes: "distinct (dkeys (vg_nodes g) @ map be_id ns)"
      using Ig(8) ns(2) new unfolding distinct_append ids by (auto simp: dict_ok_def map_of_eq_None_iff)
    have ok: "dict_ok (vg_edges ?G)" "dict_ok (vg_edges g)" "dict_ok (vg_edges h)" using nodes keys(3) Ig(2,8) Ih(2,8) by (simp_all add: dict_ok_def)
    have used: "distinct (dkeys (vg_nodes k)) \<and> distinct (map be_id (concat (dvals (vg_edges k)))) \<and>
        (\<forall>a. be_id ` set (edges_of a k) \<inter> set (dkeys (vg_nodes k)) = {}) \<longleftrightarrow> distinct (used_ids k)" if "dict_ok (vg_edges k)" for k
    proof -
      have "set (concat (dvals (vg_edges k))) = (\<Union>a. set (edges_of a k))" by (rule set_concat_dict [OF that, folded edges_of_def])
      then show ?thesis unfolding used_ids_def distinct_append set_map by blast
    qed
    note split_edges = distinct_concat_dict [OF ok(1), of be_id, folded edges_of_def] distinct_concat_dict [OF ok(2), of be_id, folded edges_of_def]
      distinct_concat_dict [OF ok(3), of be_id, folded edges_of_def]
    have ug: "distinct (map be_id (edges_of a g))" "a \<noteq> b \<Longrightarrow> be_id ` set (edges_of a g) \<inter> be_id ` set (edges_of b g) = {}"
      "be_id ` set (edges_of a g) \<inter> set (dkeys (vg_nodes g)) = {}" for a b using Ig(3) unfolding used [OF ok(2), symmetric] split_edges by blast+
    have uh: "a \<noteq> b \<Longrightarrow> be_id ` set (edges_of a h) \<inter> be_id ` set (edges_of b h) = {}"
      "be_id ` set (edges_of a h) \<inter> set (dkeys (vg_nodes h)) = {}" for a b using Ih(3) unfolding used [OF ok(3), symmetric] split_edges by blast+
    have part: "be_id ` set (edges_of a h) \<subseteq> part_ids ws h" if "?in a" for a using that by (auto simp: part_ids_def)
    have "be_id ` set (edges_of a g) \<subseteq> set (used_ids g)" for a
    proof -
      have "set (concat (dvals (vg_edges g))) = (\<Union>a. set (edges_of a g))" by (rule set_concat_dict [OF ok(2), folded edges_of_def])
      then show ?thesis unfolding used_ids_def set_append set_map by blast
    qed
    moreover have "set (dkeys (vg_nodes g)) \<subseteq> set (used_ids g)" unfolding used_ids_def set_append by (rule Un_upper1)
    ultimately have sub: "be_id ` set (edges_of a g) \<subseteq> set (used_ids g)" "set (dkeys (vg_nodes g)) \<subseteq> set (used_ids g)" for a by blast+
    have cross: "be_id ` set (edges_of a h) \<inter> be_id ` set (edges_of b g) = {}" "be_id ` set (edges_of a h) \<inter> set (dkeys (vg_nodes g)) = {}" if "?in a" for a b
      using part [OF that] disj sub by blast+
    have "distinct (map be_id (edges_of a ?G))" for a using ug(1) rs(2) by (simp add: get(3) distinct_map_filter)
    moreover have "be_id ` set (edges_of a ?G) \<inter> be_id ` set (edges_of b ?G) = {}" if "a \<noteq> b" for a b
      unfolding edges using ug(2) [OF that] uh(1) [OF that] cross(1) [of a b] cross(1) [of b a] by (auto split: if_splits)
    moreover have "be_id ` set (edges_of a ?G) \<inter> set (dkeys (vg_nodes ?G)) = {}" for a
    proof -
      have "{i. ?in i} \<subseteq> set (dkeys (vg_nodes h))" by (auto simp: node_in_iff dest!: dget_Some_in intro: rev_image_eqI)
      then have "be_id ` set (edges_of a h) \<inter> {i. ?in i} = {}" using uh(2) [of a] by blast
      moreover have "be_id ` set (edges_of a g) \<inter> {i. ?in i} = {}"
        using disj sub(1) [of a] unfolding part_ids_def by blast
      ultimately show ?thesis unfolding edges keys(1) set_append ids using ug(3) [of a] cross(2) [of a] by (auto split: if_splits)
    qed
    ultimately show ?thesis using nodes unfolding used [OF ok(1), symmetric] split_edges keys(1) by blast
  qed
  moreover have "node_ok i n" if n: "dget (vg_nodes ?G) i = Some n" for i n
    using node [OF n] Ih(4) [of i] Ig(4) [of i] by (auto simp: node_ok_def signature_def split: if_splits)
  moreover have "(\<exists>r \<in> set (edges_of a ?G). nr_target_id r = b) \<longleftrightarrow> alike ?G a b" for a b
    unfolding alike edges using Ih(5) [of a b] Ig(5) [of a b] by auto
  moreover have "nr_source_id r = a \<and> (\<forall>n. dget (vg_nodes ?G) a = Some n \<longrightarrow> be_workspace_id r = kn_domain n)" if "r \<in> set (edges_of a ?G)" for a r
    using that node [of a] Ih(6,7) [of r a] Ig(6,7) [of r a] unfolding edges by (fastforce simp: signature_def split: if_splits)
  ultimately have "vgraph_inv ?G" using keys(1-3) unfolding vgraph_inv_def by simp
  then show ?thesis using l keys(4) by blast
qed

text \<open>
  The graphs that a program gets to: a new one, then nodes are added by calls and events, workspaces are
  saved, and a workspace that another such graph with the same threshold has saved into an empty store
  is loaded by a graph that has nothing of that workspace yet.\<close>

inductive graph_reached :: "'j codec \<Rightarrow> real \<Rightarrow> vgraph \<Rightarrow> bool" where
  starts: "graph_reached c thr (new_vgraph thr)"
| grows: "graph_reached c thr g \<Longrightarrow> vg_step g g' \<Longrightarrow> graph_reached c thr g'"
| saves: "graph_reached c thr g \<Longrightarrow> graph_reached c thr (fst (snd (persist_into c ws (g, p))))"
| loads: "graph_reached c thr g \<Longrightarrow> graph_reached c thr h \<Longrightarrow> codec_ok c \<Longrightarrow>
    persist_into c ws (h, new_persistence path empty_tables) = (Inr k, (h1, p)) \<Longrightarrow>
    (\<forall>i. node_in ws g i = None) \<Longrightarrow> part_ids ws h \<inter> set (used_ids g) = {} \<Longrightarrow>
    graph_reached c thr (fst (snd (load_graph c ws (g, p))))"

lemma graph_reached_inv: "graph_reached c thr g \<Longrightarrow> vgraph_inv g \<and> vg_threshold g = thr"
proof (induction rule: graph_reached.induct)
  case (starts c thr)
  then show ?case using vgraph_inv_new [of thr] by (simp add: new_vgraph_def)
next
  case (grows c thr g g')
  then show ?case using vg_step_inv by blast
next
  case (saves c thr g ws p)
  then show ?case using persist_into_inv by blast
next
  case (loads c thr g h ws path k h1 p)
  obtain k' g1 p1 ns rs p2 p3 where per: "persist_into c ws (h, new_persistence path empty_tables) = (Inr k', (g1, p1))"
    "pe_list c ws (Some ''KnowledgeNode'') p1 = (Inr (map KnowledgeNode ns), p2)" "pe_list c ws (Some ''Relation'') p2 = (Inr (map Relation rs), p3)"
    and parts: "set ns = {with_embedding h i n |i n. node_in ws h i = Some n}" "set rs = {r. \<exists>i n. node_in ws h i = Some n \<and> r \<in> set (edges_of i h)}"
      "distinct (map be_id ns)" "distinct (map be_id rs)"
    using persisted_part [OF conjunct1 [OF loads.IH(2)] loads.hyps(3), of ws path] by (elim exE conjE) (rule that)
  have p: "p1 = p" using per(1) loads.hyps(4) by simp
  have inv: "vgraph_inv h" "vgraph_inv g" "vg_threshold h = vg_threshold g" using loads.IH by simp_all
  obtain m g' d where l: "load_nodes (map KnowledgeNode ns) g = (Inr m, g')" "group_relations (map Relation rs) [] = Inr d"
    and G: "vgraph_inv (put_relations d g')" "vg_threshold (put_relations d g') = vg_threshold g"
    using loaded_inv [OF inv(1,2) spec [OF loads.hyps(5)] loads.hyps(6) inv(3) parts(1,3,2,4)] by blast
  have "load_graph c ws (g, p) = (Inr m, (put_relations d g', p3))" using per(2,3) l by (simp add: load_graph_def p)
  then show ?case using G loads.IH(1) by simp
qed


lemma steps_reached: "vg_step\<^sup>*\<^sup>* (new_vgraph thr) g \<Longrightarrow> graph_reached c thr g"
  by (induction rule: rtranclp_induct) (auto intro: graph_reached.intros)

text \<open>Loading only brings back edges that were saved: it compares the nodes it loads with none that is there.\<close>

lemma loading_links_nothing:
  assumes "load_graph c ws (g, p) = (Inr m, (g2, p2))" and "pe_list c ws (Some ''KnowledgeNode'') p = (Inr (map KnowledgeNode ns), p1)"
    and "pe_list c ws (Some ''Relation'') p1 = (Inr (map Relation rs), p2)" and "r \<in> set (edges_of i g2)"
  shows "r \<in> set rs \<or> r \<in> set (edges_of i g)"
proof -
  obtain g1 d where l: "load_nodes (map KnowledgeNode ns) g = (Inr m, g1)" "group_relations (map Relation rs) [] = Inr d" "g2 = put_relations d g1"
    using assms(1-3) by (auto simp: load_graph_def split: prod.splits sum.splits)
  obtain d' where d': "group_relations (map Relation rs) [] = Inr d'" "dict_ok d'" "\<And>a. dget_or d' a [] = filter (\<lambda>r. nr_source_id r = a) rs"
    using group_relations_spec [of "[]" rs] by (auto simp: dict_ok_def dget_or_def)
  then have d: "dict_ok d" "dget_or d i [] = filter (\<lambda>r. nr_source_id r = i) rs" using l(2) by simp_all
  have "set (edges_of i g1) \<subseteq> set (edges_of i g)"
    using load_nodes_spec [of ns g] l(1) by (cases "dget (vg_edges g) i") (auto simp: edges_of_def dget_or_def split: if_splits)
  moreover have "set (edges_of i g2) \<subseteq> set rs \<union> set (edges_of i g1)"
    using put_relations_spec(3,4) [OF d(1), of g1 i] d(2) unfolding l(3) by (cases "dget d i"; cases "dget (vg_edges g1) i") (auto simp: edges_of_def dget_or_def)
  ultimately show ?thesis using assms(4) by blast
qed

section \<open>Properties\<close>

text \<open>
  C18: The edges of the graph are exactly the similarities. Take any graph that a program gets to by
  adding nodes, with calls or events, by saving workspaces, and by loading workspaces that such a graph
  of the same threshold saved into an empty store, each into a graph that has no node of the workspace
  and none of the saved ids yet. There a node has an edge to another one if and only if both belong to
  the same workspace and the cosine of their embeddings reaches the threshold; every edge has its
  counterpart and none leaves its workspace. (Loading into a graph that already has nodes of the
  workspace is no such step: \<open>load_from_db\<close> does not compare the nodes it loads with those.)\<close>

theorem similarity_graph_exact:
  assumes "graph_reached c thr g"
  shows "((\<exists>r \<in> set (edges_of a g). nr_target_id r = b) \<longleftrightarrow> alike g a b) \<and>
    ((\<exists>r \<in> set (edges_of a g). nr_target_id r = b) \<longleftrightarrow> (\<exists>r \<in> set (edges_of b g). nr_target_id r = a)) \<and>
    (\<forall>r \<in> set (edges_of a g). nr_source_id r = a \<and> (\<forall>n. dget (vg_nodes g) a = Some n \<longrightarrow> be_workspace_id r = kn_domain n))"
proof -
  note I = vgraph_invD [OF conjunct1 [OF graph_reached_inv [OF assms]]]
  show ?thesis using I(5) [of a b] I(5) [of b a] I(6,7) [of _ a] alike_symmetric [of g a b] by blast
qed

definition demo_ids :: "string \<Rightarrow> nat \<Rightarrow> string" where
  "demo_ids p i = p @ replicate i (CHR ''+'')"

definition demo_chunk :: "string \<Rightarrow> chunk" where
  "demo_chunk w = new_chunk (new_entity ''c'' [] [] w) ''d'' ''t'' (Some [1]) 0 0"

definition demo_vgraph :: vgraph where
  "demo_vgraph = snd (add_node (demo_ids ''b'') [] (demo_chunk ''w'') (snd (add_node (demo_ids ''a'') [] (demo_chunk ''w'') (new_vgraph 1))))"

lemma demo_vgraph_reachable: "vg_step\<^sup>*\<^sup>* (new_vgraph 1) demo_vgraph"
proof -
  have inj: "inj (demo_ids p)" for p by (auto simp: inj_def demo_ids_def dest: arg_cong [where f = length])
  let ?g = "snd (add_node (demo_ids ''a'') [] (demo_chunk ''w'') (new_vgraph 1))"
  have ids: "used_ids ?g = [''a'']" by (simp add: add_node_def add_node_for_def find_similar_def by_score_def new_vgraph_def used_ids_def demo_ids_def Let_def
      base_entity.defs new_entity_def)
  have "vg_step (new_vgraph 1) ?g" by (intro vg_step.intros inj) (simp add: used_ids_def new_vgraph_def)
  moreover have "vg_step ?g demo_vgraph" unfolding demo_vgraph_def by (intro vg_step.intros inj) (auto simp: ids demo_ids_def)
  ultimately show ?thesis by simp
qed

theorem similarity_graph_exact_witness: "\<exists>r \<in> set (edges_of ''a'' demo_vgraph). nr_target_id r = ''b''"
proof -
  have "cosine_similarity [1] [1] = 1" by (rule cosine_self) simp
  then have "alike demo_vgraph ''a'' ''b''"
    by (simp add: demo_vgraph_def alike_def add_node_def add_node_for_def find_similar_def by_score_def new_vgraph_def demo_ids_def demo_chunk_def
        new_chunk_def Let_def base_entity.defs new_entity_def)
  then show ?thesis using similarity_graph_exact [OF steps_reached [OF demo_vgraph_reachable, where c = plain_codec], of "''a''" "''b''"] by blast
qed



end
