(* ===== verification/Retrieval.thy ===== *)
theory Retrieval
  imports Vector_Graph
begin

text \<open>
  Vector search: the backends of \<open>kernel/retrieval_backends.py\<close> and the service of
  \<open>kernel/retrieval.py\<close>, and the knowledge pipeline from end to end.

  \<^item> What the service may rely on is the locale \<open>vector_backend\<close>; \<open>MemoryBackend\<close> is its instance. The
    service takes the backend as a record of operations.
  \<^item> In \<open>FaissBackend\<close> the library is a parameter (\<open>faiss_lib\<close>); the id maps, the counters and the
    files, which are the program's own, are modelled. The files of a workspace are named by its id.
\<close>

section \<open>Backends\<close>

definition backend_cosine :: "real list \<Rightarrow> real list \<Rightarrow> real" where
  "backend_cosine a b =
     (if a = [] \<or> b = [] \<or> length a \<noteq> length b then 0
      else let dot = sum_list (map (\<lambda>(x, y). x * y) (zip a b));
               na = sqrt (sum_list (map (\<lambda>x. x * x) a));
               nb = sqrt (sum_list (map (\<lambda>x. x * x) b))
           in if na = 0 \<or> nb = 0 then 0 else dot / (na * nb))"

subsection \<open>The memory backend\<close>

type_synonym mem_store = "(string \<times> string, real list) dict"

definition mem_add :: "string \<Rightarrow> real list \<Rightarrow> string \<Rightarrow> mem_store \<Rightarrow> mem_store" where
  "mem_add node_id embedding workspace_id st = dset (workspace_id, node_id) embedding st"

definition mem_query :: "real list \<Rightarrow> string \<Rightarrow> int \<Rightarrow> mem_store \<Rightarrow> (string \<times> real) list" where
  "mem_query embedding workspace_id top_k st =
     head_slice top_k (by_score (map (\<lambda>((ws, nid), vec). (nid, backend_cosine embedding vec)) (filter (\<lambda>((ws, nid), vec). ws = workspace_id) st)))"

definition mem_remove :: "string \<Rightarrow> string \<Rightarrow> mem_store \<Rightarrow> mem_store" where
  "mem_remove node_id workspace_id st = ddel (workspace_id, node_id) st"

definition mem_clear_workspace :: "string \<Rightarrow> mem_store \<Rightarrow> mem_store" where
  "mem_clear_workspace workspace_id st = fold ddel (filter (\<lambda>k. fst k = workspace_id) (dkeys st)) st"

subsection \<open>The Faiss backend\<close>

record 'x faiss_lib =
  fl_index :: 'x
  fl_add_with_ids :: "real list \<Rightarrow> int \<Rightarrow> 'x \<Rightarrow> 'x"
  fl_search :: "real list \<Rightarrow> int \<Rightarrow> 'x \<Rightarrow> (real \<times> int) list"
  fl_ntotal :: "'x \<Rightarrow> int"
  fl_reconstruct :: "int \<Rightarrow> 'x \<Rightarrow> exn + real list"
  fl_normalize :: "real list \<Rightarrow> real list"

record 'x faiss_backend =
  fb_indices :: "(string, 'x) dict"
  fb_id_maps :: "(string, (int, string) dict) dict"
  fb_counters :: "(string, int) dict"
  fb_files :: "(string, 'x) dict"
  fb_metas :: "(string, (int, string) dict \<times> int) dict"

definition get_index :: "'x faiss_lib \<Rightarrow> string \<Rightarrow> 'x faiss_backend \<Rightarrow> 'x \<times> 'x faiss_backend" where
  "get_index lib workspace_id b =
     (case dget (fb_indices b) workspace_id of
        Some x \<Rightarrow> (x, b)
      | None \<Rightarrow>
          (let (x, m, n) =
             (case dget (fb_files b) workspace_id of
                Some x \<Rightarrow> (case dget (fb_metas b) workspace_id of Some (m, n) \<Rightarrow> (x, m, n) | None \<Rightarrow> (x, [], 0))
              | None \<Rightarrow> (fl_index lib, [], 0))
           in (x, b\<lparr>fb_indices := dset workspace_id x (fb_indices b), fb_id_maps := dset workspace_id m (fb_id_maps b),
                    fb_counters := dset workspace_id n (fb_counters b)\<rparr>)))"

definition faiss_add :: "'x faiss_lib \<Rightarrow> string \<Rightarrow> real list \<Rightarrow> string \<Rightarrow> 'x faiss_backend \<Rightarrow> 'x faiss_backend" where
  "faiss_add lib node_id embedding workspace_id b =
     (let (x, b1) = get_index lib workspace_id b;
          fid = dget_or (fb_counters b1) workspace_id 0
      in b1\<lparr>fb_counters := dset workspace_id (fid + 1) (fb_counters b1),
            fb_id_maps := dmod workspace_id [] (dset fid node_id) (fb_id_maps b1),
            fb_indices := dset workspace_id (fl_add_with_ids lib (fl_normalize lib embedding) fid x) (fb_indices b1)\<rparr>)"

definition faiss_query :: "'x faiss_lib \<Rightarrow> real list \<Rightarrow> string \<Rightarrow> int \<Rightarrow> 'x faiss_backend \<Rightarrow> (string \<times> real) list \<times> 'x faiss_backend" where
  "faiss_query lib embedding workspace_id top_k b =
     (let (x, b1) = get_index lib workspace_id b
      in if fl_ntotal lib x = 0 then ([], b1)
         else (List.map_filter (\<lambda>(dist, fid). map_option (\<lambda>nid. (nid, dist)) (dget (dget_or (fb_id_maps b1) workspace_id []) fid))
                 (fl_search lib (fl_normalize lib embedding) (min top_k (fl_ntotal lib x)) x), b1))"

fun rebuild_index :: "'x faiss_lib \<Rightarrow> string \<Rightarrow> 'x \<Rightarrow> (int \<times> string) list \<Rightarrow> 'x \<times> (int, string) dict \<times> int \<Rightarrow> exn + ('x \<times> (int, string) dict \<times> int)" where
  "rebuild_index lib node_id old [] acc = Inr acc"
| "rebuild_index lib node_id old ((old_fid, nid) # rest) (x, m, n) =
     (if nid = node_id then rebuild_index lib node_id old rest (x, m, n)
      else (case fl_reconstruct lib old_fid old of
              Inl e \<Rightarrow> Inl e
            | Inr vec \<Rightarrow> rebuild_index lib node_id old rest (fl_add_with_ids lib vec n x, dset n nid m, n + 1)))"

definition faiss_remove :: "'x faiss_lib \<Rightarrow> string \<Rightarrow> string \<Rightarrow> 'x faiss_backend \<Rightarrow> (unit, 'x faiss_backend) res" where
  "faiss_remove lib node_id workspace_id b =
     (let (old, b1) = get_index lib workspace_id b;
          id_map = dget_or (fb_id_maps b1) workspace_id []
      in if fl_ntotal lib old = 0 \<or> node_id \<notin> set (dvals id_map) then (Inr (), b1)
         else (case rebuild_index lib node_id old id_map (fl_index lib, [], 0) of
                 Inl e \<Rightarrow> (Inl e, b1)
               | Inr (x, m, n) \<Rightarrow>
                   (Inr (), b1\<lparr>fb_indices := dset workspace_id x (fb_indices b1), fb_id_maps := dset workspace_id m (fb_id_maps b1),
                               fb_counters := dset workspace_id n (fb_counters b1)\<rparr>)))"

definition faiss_clear_workspace :: "string \<Rightarrow> 'x faiss_backend \<Rightarrow> 'x faiss_backend" where
  "faiss_clear_workspace workspace_id b =
     b\<lparr>fb_indices := ddel workspace_id (fb_indices b), fb_id_maps := ddel workspace_id (fb_id_maps b), fb_counters := ddel workspace_id (fb_counters b),
       fb_files := ddel workspace_id (fb_files b), fb_metas := ddel workspace_id (fb_metas b)\<rparr>"

definition faiss_persist :: "'x faiss_backend \<Rightarrow> 'x faiss_backend" where
  "faiss_persist b =
     fold (\<lambda>(ws, x) b. b\<lparr>fb_files := dset ws x (fb_files b),
                          fb_metas := dset ws (dget_or (fb_id_maps b) ws [], dget_or (fb_counters b) ws 0) (fb_metas b)\<rparr>)
       (fb_indices b) b"

section \<open>The service\<close>

record 'b backend =
  bk_add :: "string \<Rightarrow> real list \<Rightarrow> string \<Rightarrow> 'b \<Rightarrow> 'b"
  bk_query :: "real list \<Rightarrow> string \<Rightarrow> int \<Rightarrow> 'b \<Rightarrow> (string \<times> real) list"
  bk_remove :: "string \<Rightarrow> string \<Rightarrow> 'b \<Rightarrow> 'b"
  bk_clear_workspace :: "string \<Rightarrow> 'b \<Rightarrow> 'b"

definition memory_backend :: "mem_store backend" where
  "memory_backend = \<lparr>bk_add = mem_add, bk_query = mem_query, bk_remove = mem_remove, bk_clear_workspace = mem_clear_workspace\<rparr>"

type_synonym ('b, 'j) service = "'b \<times> 'j persistence"

definition node_embedding :: "knowledge_node \<Rightarrow> real list" where
  "node_embedding n = vector_of (dget_or (kn_properties n) ''embedding'' DNone)"

definition index_and_persist :: "'b backend \<Rightarrow> 'j codec \<Rightarrow> knowledge_node \<Rightarrow> ('b, 'j) service \<Rightarrow> (unit, ('b, 'j) service) res" where
  "index_and_persist bk c n s =
     (case s of (b, p) \<Rightarrow>
        if node_embedding n = [] then (Inr (), (b, p))
        else (case pe_save c (KnowledgeNode n) p of (r, p1) \<Rightarrow> (map_sum id (\<lambda>_. ()) r, (bk_add bk (be_id n) (node_embedding n) (be_workspace_id n) b, p1))))"

definition index :: "'b backend \<Rightarrow> knowledge_node \<Rightarrow> 'b \<Rightarrow> 'b" where
  "index bk n b = (if node_embedding n = [] then b else bk_add bk (be_id n) (node_embedding n) (be_workspace_id n) b)"

definition service_query :: "'b backend \<Rightarrow> real list \<Rightarrow> string \<Rightarrow> int \<Rightarrow> 'b \<Rightarrow> (string \<times> real) list" where
  "service_query bk embedding workspace_id top_k b = bk_query bk embedding workspace_id top_k b"

definition service_remove :: "'b backend \<Rightarrow> string \<Rightarrow> string \<Rightarrow> ('b, 'j) service \<Rightarrow> ('b, 'j) service" where
  "service_remove bk node_id workspace_id s = (bk_remove bk node_id workspace_id (fst s), snd s)"

definition service_clear_workspace :: "'b backend \<Rightarrow> string \<Rightarrow> ('b, 'j) service \<Rightarrow> ('b, 'j) service" where
  "service_clear_workspace bk workspace_id s = (bk_clear_workspace bk workspace_id (fst s), snd s)"

definition query_node :: "'b backend \<Rightarrow> knowledge_node \<Rightarrow> int \<Rightarrow> 'b \<Rightarrow> (string \<times> real) list" where
  "query_node bk n top_k b = service_query bk (node_embedding n) (be_workspace_id n) top_k b"

fun index_stored :: "'b backend \<Rightarrow> stored list \<Rightarrow> 'b \<Rightarrow> (int, 'b) res" where
  "index_stored bk [] b = (Inr 0, b)"
| "index_stored bk (e # es) b =
     (case as_node e of
        Inl x \<Rightarrow> (Inl x, b)
      | Inr n \<Rightarrow> (case index_stored bk es (index bk n b) of
                    (Inl x, b1) \<Rightarrow> (Inl x, b1)
                  | (Inr k, b1) \<Rightarrow> (Inr (if node_embedding n = [] then k else k + 1), b1)))"

definition load_from_persistence :: "'b backend \<Rightarrow> 'j codec \<Rightarrow> string \<Rightarrow> ('b, 'j) service \<Rightarrow> (int, ('b, 'j) service) res" where
  "load_from_persistence bk c workspace_id s =
     (case s of (b, p) \<Rightarrow>
        (case pe_list c workspace_id (Some ''KnowledgeNode'') p of
           (Inl x, p1) \<Rightarrow> (Inl x, (b, p1))
         | (Inr es, p1) \<Rightarrow> (case index_stored bk es b of (r, b1) \<Rightarrow> (r, (b1, p1)))))"

text \<open>The events of the graph carry the id of a node as a string; other payloads are not considered.\<close>

definition on_graph_updated :: "'b backend \<Rightarrow> 'j codec \<Rightarrow> stage_event \<Rightarrow> ('b, 'j) service \<Rightarrow> (unit, ('b, 'j) service) res" where
  "on_graph_updated bk c e s =
     (case dget_or (se_payload e) ''node_id'' DNone of
        DStr i \<Rightarrow>
          if i = [] then (Inr (), s)
          else (case pe_get c i (snd s) of
                  (Inl x, p1) \<Rightarrow> (Inl x, (fst s, p1))
                | (Inr (Some (KnowledgeNode n)), p1) \<Rightarrow> index_and_persist bk c n (fst s, p1)
                | (Inr _, p1) \<Rightarrow> (Inr (), (fst s, p1)))
      | _ \<Rightarrow> (Inr (), s))"

section \<open>The contract of a backend\<close>

lemma backend_cosine_eq: "backend_cosine = cosine_similarity"
  by (intro ext) (simp add: backend_cosine_def cosine_similarity_def)

locale vector_backend =
  fixes bk :: "'b backend"
    and entries :: "'b \<Rightarrow> string \<Rightarrow> string \<Rightarrow> real list option"
    and inv :: "'b \<Rightarrow> bool"
  assumes inv_add: "inv b \<Longrightarrow> inv (bk_add bk n v w b)"
    and inv_remove: "inv b \<Longrightarrow> inv (bk_remove bk n w b)"
    and inv_clear: "inv b \<Longrightarrow> inv (bk_clear_workspace bk w b)"
    and entries_add: "inv b \<Longrightarrow> entries (bk_add bk n v w b) w' = (if w' = w then (entries b w)(n \<mapsto> v) else entries b w')"
    and entries_remove: "inv b \<Longrightarrow> entries (bk_remove bk n w b) w' = (if w' = w then (entries b w)(n := None) else entries b w')"
    and entries_clear: "inv b \<Longrightarrow> entries (bk_clear_workspace bk w b) w' = (if w' = w then Map.empty else entries b w')"
    and query_sound: "inv b \<Longrightarrow> (n, s) \<in> set (bk_query bk q w k b) \<Longrightarrow> \<exists>v. entries b w n = Some v \<and> s = cosine_similarity q v"
    and query_sorted: "inv b \<Longrightarrow> sorted_wrt (\<lambda>x y. snd x \<ge> snd y) (bk_query bk q w k b)"
    and query_distinct: "inv b \<Longrightarrow> distinct (map fst (bk_query bk q w k b))"
    and query_best: "inv b \<Longrightarrow> 0 \<le> k \<Longrightarrow> entries b w n = Some v \<Longrightarrow> n \<notin> fst ` set (bk_query bk q w k b) \<Longrightarrow>
       int (length (bk_query bk q w k b)) = k \<and> (\<forall>x \<in> set (bk_query bk q w k b). snd x \<ge> cosine_similarity q v)"
begin

text \<open>A query for the embedding of a node that was just indexed starts with a perfect match.\<close>

lemma indexed_found:
  assumes "inv b" and "set v - {0} \<noteq> {}" and "1 \<le> k"
  shows "\<exists>m rest. bk_query bk v w k (bk_add bk n v w b) = (m, 1) # rest"
proof -
  let ?b = "bk_add bk n v w b" and ?q = "bk_query bk v w k (bk_add bk n v w b)"
  have inv: "inv ?b" using assms(1) by (rule inv_add)
  have here: "entries ?b w n = Some v" using assms(1) by (simp add: entries_add)
  have one: "cosine_similarity v v = 1" using assms(2) by (rule cosine_self)
  have "\<exists>x \<in> set ?q. snd x \<ge> 1"
  proof (cases "n \<in> fst ` set ?q")
    case True
    then obtain s where "(n, s) \<in> set ?q" by auto
    with query_sound [OF inv this] here one show ?thesis by force
  next
    case False
    have "int (length ?q) = k" "\<forall>x \<in> set ?q. snd x \<ge> cosine_similarity v v"
      using query_best [OF inv _ here False] assms(3) by simp_all
    then show ?thesis using assms(3) one by (cases ?q) auto
  qed
  moreover obtain m s rest where q: "?q = (m, s) # rest" using calculation by (cases ?q) auto
  ultimately have "s \<ge> 1" using query_sorted [OF inv, of v w k] by auto
  moreover have "s \<le> 1" using query_sound [OF inv, of m s v w k] q cosine_bounded [of v] by (auto simp: abs_le_iff)
  ultimately show ?thesis using q by simp
qed

text \<open>What is indexed in one workspace changes no answer in another.\<close>

lemma other_workspace:
  assumes "inv b" and "w' \<noteq> w"
  shows "entries (bk_add bk n v w b) w' = entries b w'" "entries (bk_remove bk n w b) w' = entries b w'" "entries (bk_clear_workspace bk w b) w' = entries b w'"
  using assms by (simp_all add: entries_add entries_remove entries_clear)

end

definition mem_entries :: "mem_store \<Rightarrow> string \<Rightarrow> string \<Rightarrow> real list option" where
  "mem_entries st w n = dget st (w, n)"

lemma fold_ddel: "dget (fold ddel ks st) k = (if k \<in> set ks then None else dget st k)" "dict_ok st \<Longrightarrow> dict_ok (fold ddel ks st)"
  by (induction ks arbitrary: st) (simp_all add: dget_ddel)

lemma head_slice_take: "\<exists>m. head_slice k xs = take m xs \<and> (0 \<le> k \<longrightarrow> m = nat k)"
  by (auto simp: head_slice_def)

lemma by_score_sorted: "sorted_wrt (\<lambda>x y. snd x \<ge> snd y) (by_score xs)"
proof -
  have "sorted (map (\<lambda>t. - snd t) (by_score xs))" by (simp add: by_score_def)
  then show ?thesis by (simp add: sorted_wrt_map)
qed

text \<open>The scores of a workspace, before they are sorted and cut.\<close>

definition mem_scores :: "real list \<Rightarrow> string \<Rightarrow> mem_store \<Rightarrow> (string \<times> real) list" where
  "mem_scores q w st = map (\<lambda>((ws, nid), vec). (nid, cosine_similarity q vec)) (filter (\<lambda>((ws, nid), vec). ws = w) st)"

lemma mem_query_eq: "mem_query q w k st = head_slice k (by_score (mem_scores q w st))"
  by (simp add: mem_query_def mem_scores_def backend_cosine_eq)

lemma mem_scores_spec:
  assumes "dict_ok st"
  shows "(n, s) \<in> set (mem_scores q w st) \<longleftrightarrow> (\<exists>v. dget st (w, n) = Some v \<and> s = cosine_similarity q v)" "distinct (map fst (mem_scores q w st))"
proof -
  show "(n, s) \<in> set (mem_scores q w st) \<longleftrightarrow> (\<exists>v. dget st (w, n) = Some v \<and> s = cosine_similarity q v)"
    using dget_iff_in [OF assms] by (auto simp: mem_scores_def image_iff)
  have "map fst (mem_scores q w st) = map (snd \<circ> fst) (filter (\<lambda>((ws, nid), vec). ws = w) st)" by (simp add: mem_scores_def comp_def case_prod_unfold)
  moreover have "distinct (map (snd \<circ> fst) (filter (\<lambda>((ws, nid), vec). ws = w) st))"
    using assms unfolding dict_ok_def by (induction st) (auto simp: image_iff)
  ultimately show "distinct (map fst (mem_scores q w st))" by simp
qed

lemma mem_query_best:
  assumes "dict_ok st" and "0 \<le> k" and "dget st (w, n) = Some v" and "n \<notin> fst ` set (mem_query q w k st)"
  shows "int (length (mem_query q w k st)) = k \<and> (\<forall>x \<in> set (mem_query q w k st). snd x \<ge> cosine_similarity q v)"
proof -
  let ?l = "by_score (mem_scores q w st)" and ?x = "(n, cosine_similarity q v)"
  have q: "mem_query q w k st = take (nat k) ?l" using assms(2) by (simp add: mem_query_eq head_slice_def)
  have "?x \<in> set ?l" using mem_scores_spec(1) [OF assms(1)] assms(3) by simp
  moreover have "?x \<notin> set (take (nat k) ?l)" using assms(4) unfolding q by force
  ultimately have "?x \<in> set (drop (nat k) ?l)" by (metis append_take_drop_id Un_iff set_append)
  moreover have "sorted_wrt (\<lambda>x y. snd x \<ge> snd y) (take (nat k) ?l @ drop (nat k) ?l)" using by_score_sorted by simp
  ultimately have "\<forall>y \<in> set (take (nat k) ?l). snd y \<ge> cosine_similarity q v" "drop (nat k) ?l \<noteq> []"
    unfolding sorted_wrt_append by force+
  then show ?thesis using assms(2) unfolding q by (simp add: not_le)
qed

interpretation memory: vector_backend memory_backend mem_entries dict_ok
proof
  fix st :: mem_store and n w w' :: string and v q :: "real list" and k s
  assume ok: "dict_ok st"
  obtain m where m: "mem_query q w k st = take m (by_score (mem_scores q w st))" using head_slice_take [of k "by_score (mem_scores q w st)"] by (auto simp: mem_query_eq)
  show "sorted_wrt (\<lambda>x y. snd x \<ge> snd y) (bk_query memory_backend q w k st)"
    using sorted_wrt_take [OF by_score_sorted, of m "mem_scores q w st"] by (simp add: memory_backend_def m)
  have "distinct (map fst (by_score (mem_scores q w st)))" using mem_scores_spec(2) [OF ok] by simp
  then show "distinct (map fst (bk_query memory_backend q w k st))" by (simp add: memory_backend_def m flip: take_map)
  assume "(n, s) \<in> set (bk_query memory_backend q w k st)"
  then have "(n, s) \<in> set (mem_scores q w st)" using in_set_takeD by (fastforce simp: memory_backend_def m)
  then show "\<exists>v. mem_entries st w n = Some v \<and> s = cosine_similarity q v" using mem_scores_spec(1) [OF ok] by (simp add: mem_entries_def)
next
  fix st :: mem_store and n w :: string and v q :: "real list" and k
  assume "dict_ok st" "0 \<le> k" "mem_entries st w n = Some v" "n \<notin> fst ` set (bk_query memory_backend q w k st)"
  then show "int (length (bk_query memory_backend q w k st)) = k \<and> (\<forall>x \<in> set (bk_query memory_backend q w k st). snd x \<ge> cosine_similarity q v)"
    using mem_query_best [of st k w n v q] by (simp add: memory_backend_def mem_entries_def)
qed (auto simp: memory_backend_def mem_add_def mem_remove_def mem_clear_workspace_def mem_entries_def fun_eq_iff update_conv' dget_ddel fold_ddel map_of_eq_None_iff image_iff)

section \<open>Properties of the backends\<close>

datatype mem_op = MAdd string "real list" string | MRemove string string | MClear string

fun mem_do :: "mem_op \<Rightarrow> mem_store \<Rightarrow> mem_store" where
  "mem_do (MAdd n v w) st = mem_add n v w st"
| "mem_do (MRemove n w) st = mem_remove n w st"
| "mem_do (MClear w) st = mem_clear_workspace w st"

fun op_workspace :: "mem_op \<Rightarrow> string" where
  "op_workspace (MAdd n v w) = w"
| "op_workspace (MRemove n w) = w"
| "op_workspace (MClear w) = w"

definition part :: "string \<Rightarrow> mem_store \<Rightarrow> mem_store" where
  "part w st = filter (\<lambda>((ws, nid), vec). ws = w) st"

lemma part_dset: "part w (dset (w', n) v st) = (if w' = w then dset (w, n) v (part w st) else part w st)"
  unfolding part_def by (induction st) auto

lemma part_ddel: "part w (ddel (w', n) st) = (if w' = w then ddel (w, n) (part w st) else part w st)"
  unfolding part_def by (induction st) auto

lemma part_keys: "part w (fold ddel ks st) = fold ddel (filter (\<lambda>k. fst k = w) ks) (part w st)"
  by (induction ks arbitrary: st) (auto simp: part_ddel split: if_splits prod.splits)

lemma part_do: "part w (mem_do op st) = (if op_workspace op = w then mem_do op (part w st) else part w st)"
proof (cases op)
  case (MClear w')
  have "filter (\<lambda>k. fst k = w) (filter (\<lambda>k. fst k = w') (dkeys st)) = (if w' = w then filter (\<lambda>k. fst k = w) (dkeys (part w st)) else [])"
    unfolding part_def by (induction st) auto
  then show ?thesis using MClear by (simp add: mem_clear_workspace_def part_keys)
qed (simp_all add: mem_add_def mem_remove_def part_dset part_ddel)

lemma part_dos: "part w (fold mem_do ops st) = fold mem_do (filter (\<lambda>op. op_workspace op = w) ops) (part w st)"
  by (induction ops arbitrary: st) (simp_all add: part_do)

lemma dos_ok: "dict_ok st \<Longrightarrow> dict_ok (fold mem_do ops st)"
proof (induction ops arbitrary: st)
  case (Cons op ops)
  have "dict_ok (mem_do op st)" using Cons.prems by (cases op) (simp_all add: mem_add_def mem_remove_def mem_clear_workspace_def fold_ddel)
  then show ?case using Cons.IH by simp
qed simp

lemma query_part: "mem_query q w k (part w st) = mem_query q w k st"
  by (simp add: mem_query_def part_def)

text \<open>
  C20: Searches are isolated and exact. What a search in a workspace answers depends on nothing but
  the operations on that workspace; its hits are nodes of the workspace, each once, with their cosine
  to the query and the best first; and a node it leaves out is no better than any hit, and is left
  out only because the requested number of hits was reached.\<close>

theorem search_isolated_exact:
  assumes "0 \<le> k"
  shows "let st = fold mem_do ops []; hits = mem_query q w k st in
     hits = mem_query q w k (fold mem_do (filter (\<lambda>op. op_workspace op = w) ops) []) \<and>
     sorted_wrt (\<lambda>x y. snd x \<ge> snd y) hits \<and> distinct (map fst hits) \<and>
     (\<forall>(n, s) \<in> set hits. \<exists>v. mem_entries st w n = Some v \<and> s = cosine_similarity q v) \<and>
     (\<forall>n v. mem_entries st w n = Some v \<longrightarrow> n \<notin> fst ` set hits \<longrightarrow> int (length hits) = k \<and> (\<forall>x \<in> set hits. snd x \<ge> cosine_similarity q v))"
proof -
  let ?st = "fold mem_do ops []"
  have ok: "dict_ok ?st" by (rule dos_ok) (simp add: dict_ok_def)
  have "mem_query q w k ?st = mem_query q w k (part w ?st)" by (simp only: query_part)
  also have "part w ?st = fold mem_do (filter (\<lambda>op. op_workspace op = w) ops) []" by (simp add: part_dos) (simp add: part_def)
  finally have "mem_query q w k ?st = mem_query q w k (fold mem_do (filter (\<lambda>op. op_workspace op = w) ops) [])" .
  moreover have mq: "bk_query memory_backend = mem_query" by (simp add: memory_backend_def)
  ultimately show ?thesis
    using memory.query_sorted [OF ok, of q w k] memory.query_distinct [OF ok, of q w k] memory.query_sound [OF ok, of _ _ q w k] memory.query_best [OF ok assms, of w _ _ q]
    unfolding Let_def mq by blast
qed

theorem search_isolated_exact_witness:
  "mem_query [1] ''w'' 1 (fold mem_do [MAdd ''n'' [1] ''w'', MClear ''v''] []) = mem_query [1] ''w'' 1 (fold mem_do [MAdd ''n'' [1] ''w''] [])"
  using search_isolated_exact [of 1 "[MAdd ''n'' [1] ''w'', MClear ''v'']" "[1]" "''w''"] by (simp add: Let_def)

text \<open>
  A node that was just indexed is found: the first hit of a search for its own embedding, in its
  own workspace, is a perfect match.\<close>

theorem indexed_node_found:
  assumes "set (node_embedding n) - {0} \<noteq> {}" and "1 \<le> k"
  shows "\<exists>m rest. query_node memory_backend n k (index memory_backend n (fold mem_do ops [])) = (m, 1) # rest"
proof -
  have "dict_ok (fold mem_do ops [])" by (rule dos_ok) (simp add: dict_ok_def)
  moreover have "node_embedding n \<noteq> []" using assms(1) by auto
  ultimately show ?thesis using memory.indexed_found [OF _ assms, of _ "be_workspace_id n" "be_id n"] by (simp add: query_node_def service_query_def index_def)
qed

definition demo_node :: knowledge_node where
  "demo_node = base_entity.extend (demo_base ''n'' ''w'') \<lparr>kn_label = [], kn_type = ''chunk'', kn_domain = ''w'', kn_properties = [(''embedding'', DVec [1])]\<rparr>"

theorem indexed_node_found_witness: "\<exists>m rest. query_node memory_backend demo_node 1 (index memory_backend demo_node (fold mem_do [] [])) = (m, 1) # rest"
proof -
  have "node_embedding demo_node = [1]" by (simp add: node_embedding_def demo_node_def base_entity.defs dget_or_def vector_of_def)
  then show ?thesis using indexed_node_found [of demo_node 1 "[]"] by simp
qed

text \<open>What the Faiss backend relies on: a flat index keeps what is added, and a search for all of it finds all of it.\<close>

definition flat_index :: "'x faiss_lib \<Rightarrow> ('x \<Rightarrow> (int \<times> real list) list) \<Rightarrow> bool" where
  "flat_index lib view \<longleftrightarrow>
     view (fl_index lib) = [] \<and> (\<forall>v i x. view (fl_add_with_ids lib v i x) = view x @ [(i, v)]) \<and> (\<forall>x. fl_ntotal lib x = int (length (view x))) \<and>
     (\<forall>q x. mset (map snd (fl_search lib q (fl_ntotal lib x) x)) = mset (map fst (view x)))"

definition no_faiss :: "'x faiss_backend" where
  "no_faiss = \<lparr>fb_indices = [], fb_id_maps = [], fb_counters = [], fb_files = [], fb_metas = []\<rparr>"

text \<open>
  The Faiss backend does not keep the contract that the memory backend has: a node that is indexed
  again, with whatever embedding, is not replaced but added, and a search returns it twice.\<close>

theorem faiss_readd_duplicates:
  assumes "flat_index lib view"
  shows "map fst (fst (faiss_query lib q w 2 (faiss_add lib n v' w (faiss_add lib n v w no_faiss)))) = [n, n] \<and>
    map fst (mem_query q w 2 (mem_add n v' w (mem_add n v w []))) = [n]"
proof -
  let ?x = "fl_add_with_ids lib (fl_normalize lib v') 1 (fl_add_with_ids lib (fl_normalize lib v) 0 (fl_index lib))"
  let ?b = "faiss_add lib n v' w (faiss_add lib n v w no_faiss)"
  have F: "view ?x = [(0, fl_normalize lib v), (1, fl_normalize lib v')]" "fl_ntotal lib ?x = 2" using assms by (simp_all add: flat_index_def)
  have get: "get_index lib w ?b = (?x, ?b)" "dget_or (fb_id_maps ?b) w [] = [(0, n), (1, n)]"
    by (simp_all add: faiss_add_def get_index_def no_faiss_def dmod_def dget_or_def Let_def)
  let ?hits = "fl_search lib (fl_normalize lib q) 2 ?x"
  have two: "mset (map snd ?hits) = {#0, 1#}"
    using assms F unfolding flat_index_def by (metis list.simps(8,9) fst_conv mset.simps)
  then have len: "length ?hits = 2" by (metis length_map size_mset size_add_mset size_empty One_nat_def Suc_1)
  have ids: "snd h = 0 \<or> snd h = 1" if "h \<in> set ?hits" for h
  proof -
    have "snd h \<in># mset (map snd ?hits)" using that by simp
    then show ?thesis unfolding two by auto
  qed
  have "map fst (List.map_filter (\<lambda>(dist, fid). map_option (\<lambda>nid. (nid, dist)) (dget [(0, n), (1, n)] fid)) hs) = replicate (length hs) n"
    if "\<forall>h \<in> set hs. snd h = 0 \<or> snd h = 1" for hs :: "(real \<times> int) list"
    using that by (induction hs) (auto simp: map_filter_simps)
  from this [of ?hits] ids len have "map fst (fst (faiss_query lib q w 2 ?b)) = [n, n]"
    using get F(2) by (simp add: faiss_query_def Let_def numeral_2_eq_2)
  moreover have "map fst (mem_query q w 2 (mem_add n v' w (mem_add n v w []))) = [n]"
    by (simp add: mem_query_def mem_add_def by_score_def head_slice_def)
  ultimately show ?thesis by blast
qed

definition list_faiss :: "(int \<times> real list) list faiss_lib" where
  "list_faiss = \<lparr>fl_index = [], fl_add_with_ids = (\<lambda>v i x. x @ [(i, v)]), fl_search = (\<lambda>q k x. map (\<lambda>(i, v). (cosine_similarity q v, i)) (head_slice k x)),
     fl_ntotal = (\<lambda>x. int (length x)), fl_reconstruct = (\<lambda>i x. Inr []), fl_normalize = (\<lambda>v. v)\<rparr>"

theorem faiss_readd_duplicates_witness:
  "map fst (fst (faiss_query list_faiss [1] ''w'' 2 (faiss_add list_faiss ''n'' [2] ''w'' (faiss_add list_faiss ''n'' [1] ''w'' no_faiss)))) = [''n'', ''n'']"
proof -
  have "flat_index list_faiss (\<lambda>x. x)" by (simp add: flat_index_def list_faiss_def head_slice_def comp_def case_prod_unfold)
  from faiss_readd_duplicates [OF this, of "[1]" "''w''" "''n''" "[2]" "[1]"] show ?thesis by blast
qed

section \<open>The pipeline from end to end\<close>

lemma add_node_total:
  assumes "vgraph_inv g"
  shows "\<exists>node g'. add_node_for uid now cid c g = (Inr node, g') \<and> be_id node = uid 0 \<and> dget (vg_nodes g') (uid 0) = Some node \<and>
    kn_label node = take 80 (ck_text c) \<and> kn_properties node = [(''chunk_id'', cid), (''text'', DStr (ck_text c)), (''document_id'', DStr (ck_document_id c))] \<and>
    dget (vg_embeddings g') (uid 0) = Some (case ck_embedding c of None \<Rightarrow> [] | Some v \<Rightarrow> v)"
  using find_similar_spec [OF vgraph_invD(1) [OF assms] vgraph_invD(8) [OF assms], of "case ck_embedding c of None \<Rightarrow> [] | Some v \<Rightarrow> v" "be_workspace_id c"]
  by (auto simp: add_node_for_def Let_def base_entity.defs new_entity_def)

lemma on_parsed_event:
  assumes "ce \<in> set (on_parsed uid now k pe)" and "new_chunker width overlap = Inr k"
  shows "\<exists>cid p t w. t \<noteq> [] \<and> se_payload ce = [(''chunk_id'', DStr cid), (''document_path'', DStr p), (''text'', DStr t), (''embedding'', DNone), (''workspace_id'', DStr w)]"
proof -
  let ?f = "\<lambda>p w c. \<lparr>se_type = ''chunk.created'', se_source = ''chunker'',
      se_payload = [(''chunk_id'', DStr (be_id c)), (''document_path'', DStr p), (''text'', DStr (ck_text c)), (''embedding'', DNone), (''workspace_id'', DStr w)]\<rparr>"
  obtain p t w where d: "DStr t = dget_or (se_payload pe) ''content'' DNone" "DStr p = dget_or (se_payload pe) ''path'' DNone"
    "DStr w = dget_or (se_payload pe) ''workspace_id'' (DStr ''default'')"
    using assms(1) by (auto simp: on_parsed_def Let_def split: datum.splits)
  have c: "ce \<in> ?f p w ` set (chunk_content uid now k t p w)"
    using assms(1) by (simp add: on_parsed_def Let_def flip: d)
  have k: "0 < chk_size k" using assms(2) by (auto simp: new_chunker_def split: if_splits)
  have "ck_text c \<noteq> []" if "c \<in> set (chunk_content uid now k t p w)" for c
  proof -
    let ?ws = "windows (nat (chk_size k)) (nat (chk_size k - chk_overlap k)) (length t) 0"
    have "ck_text c \<in> set (map ck_text (chunk_content uid now k t p w))" using that by simp
    then obtain s e where "(s, e) \<in> set ?ws" "ck_text c = slice s e t" unfolding chunk_content_texts by auto
    with windows_bounds [of s e] k show ?thesis by (fastforce simp: slice_def)
  qed
  with c show ?thesis by auto
qed

text \<open>
  C40: Every chunk becomes a node of the graph, without its text. For each chunk the chunker publishes,
  the embedder publishes one event and the graph adds a node whose embedding is that of the text; but
  the event of the embedder carries neither the text nor the path of the document, so the label and
  the text of the node are empty although those of the chunk are not.\<close>

theorem chunk_becomes_textless_node:
  assumes "new_chunker width overlap = Inr k" and "ce \<in> set (on_parsed cuid cnow k pe)" and "eb_backend eb \<noteq> ''sentence-transformers''" and "hash_ok (eb_sha256 eb)"
    and "\<forall>v. floats (DVec v) = Inr (Some v)" and "vg_step\<^sup>*\<^sup>* (new_vgraph thr) g"
  shows "\<exists>t v ee ge g' n. dget (se_payload ce) ''text'' = Some (DStr t) \<and> t \<noteq> [] \<and> on_chunk eb ce = Some (Inr [ee]) \<and>
     embed_hash (eb_sha256 eb) t = Some v \<and> on_embedded floats uid nuid now ee g = (Inr [ge], g') \<and>
     dget (vg_embeddings g') (uid 0) = Some v \<and> dget (vg_nodes g') (uid 0) = Some n \<and>
     kn_label n = [] \<and> dget (kn_properties n) ''text'' = Some (DStr []) \<and> dget (kn_properties n) ''document_id'' = Some (DStr [])"
proof -
  have inv: "vgraph_inv g" using similarity.reachable_inv assms(6) by blast
  obtain cid p t w where ce: "t \<noteq> []"
    "se_payload ce = [(''chunk_id'', DStr cid), (''document_path'', DStr p), (''text'', DStr t), (''embedding'', DNone), (''workspace_id'', DStr w)]"
    using on_parsed_event [OF assms(2,1)] by blast
  obtain v where v: "embed_hash (eb_sha256 eb) t = Some v"
    using hash_floats_return [OF assms(4), of "[]" "utf8_encode t" 0] by (auto simp: embed_hash_def)
  define ee where "ee = \<lparr>se_type = ''chunk.embedded'', se_source = ''embedder'', se_payload = [(''chunk_id'', DStr cid), (''embedding'', DVec v), (''workspace_id'', DStr w)]\<rparr>"
  have chunk: "on_chunk eb ce = Some (Inr [ee])" using assms(3) ce v by (simp add: on_chunk_def embed_def ee_def dget_or_def)
  define c where "c = new_chunk (new_entity nuid now [] w) [] [] (Some v) 0 0"
  have ec: "embedded_chunk floats nuid now (se_payload ee) = Inr c" using assms(5) by (simp add: embedded_chunk_def ee_def dget_or_def c_def)
  have cs: "ck_text c = []" "ck_document_id c = []" "ck_embedding c = Some v" by (simp_all add: c_def new_chunk_def base_entity.defs)
  define d where "d = (case dget (se_payload ee) ''chunk_id'' of None \<Rightarrow> DStr (be_id c) | Some d \<Rightarrow> if datum_truthy d then d else DStr (be_id c))"
  obtain n g' where n: "add_node_for uid now d c g = (Inr n, g')" "dget (vg_nodes g') (uid 0) = Some n" "kn_label n = []"
    "kn_properties n = [(''chunk_id'', d), (''text'', DStr []), (''document_id'', DStr [])]" "dget (vg_embeddings g') (uid 0) = Some v"
    using add_node_total [OF inv, of uid now d c] cs by auto
  obtain ge where "on_embedded floats uid nuid now ee g = (Inr [ge], g')"
    unfolding on_embedded_def Let_def ec sum.case d_def [symmetric] n(1) prod.case by blast
  then show ?thesis using ce v chunk n
    by (rule_tac x = t in exI, rule_tac x = v in exI, rule_tac x = ee in exI, rule_tac x = ge in exI, rule_tac x = g' in exI, rule_tac x = n in exI) simp
qed

definition demo_embedder :: embedder where
  "demo_embedder = \<lparr>eb_backend = ''hash'', eb_sha256 = (\<lambda>_. replicate 32 1), eb_model = None\<rparr>"

definition demo_floats :: "datum \<Rightarrow> exn + real list option" where
  "demo_floats d = Inr (if d = DNone then None else Some (vector_of d))"

definition demo_parsed :: stage_event where
  "demo_parsed = \<lparr>se_type = ''document.parsed'', se_source = ''parser'', se_payload = [(''path'', DStr ''p''), (''content'', DStr ''abc''), (''workspace_id'', DStr ''w'')]\<rparr>"

theorem chunk_becomes_textless_node_witness:
  "\<exists>ce t ee ge g' n. ce \<in> set (on_parsed (demo_ids ''c'') [] \<lparr>chk_size = 2, chk_overlap = 1\<rparr> demo_parsed) \<and>
     dget (se_payload ce) ''text'' = Some (DStr t) \<and> t \<noteq> [] \<and> on_chunk demo_embedder ce = Some (Inr [ee]) \<and>
     on_embedded demo_floats (demo_ids ''n'') ''u'' [] ee demo_vgraph = (Inr [ge], g') \<and> dget (vg_nodes g') ''n'' = Some n \<and> kn_label n = []"
proof -
  let ?k = "\<lparr>chk_size = 2, chk_overlap = 1\<rparr>"
  have "windows 2 (Suc 0) (Suc (Suc (Suc 0))) 0 = [(0, 2), (1, 3)]" by (simp add: windows.simps)
  then have "on_parsed (demo_ids ''c'') [] ?k demo_parsed \<noteq> []"
    by (simp add: on_parsed_def demo_parsed_def dget_or_def chunk_content_def Let_def)
  then obtain ce where ce: "ce \<in> set (on_parsed (demo_ids ''c'') [] ?k demo_parsed)" by (meson last_in_set)
  have "new_chunker 2 1 = Inr ?k" by (simp add: new_chunker_def)
  moreover have "eb_backend demo_embedder \<noteq> ''sentence-transformers''" "hash_ok (eb_sha256 demo_embedder)" by (simp_all add: demo_embedder_def hash_ok_def)
  moreover have "\<forall>v. demo_floats (DVec v) = Inr (Some v)" by (simp add: demo_floats_def)
  ultimately have r: "\<exists>t v ee ge g' n. dget (se_payload ce) ''text'' = Some (DStr t) \<and> t \<noteq> [] \<and> on_chunk demo_embedder ce = Some (Inr [ee]) \<and>
     embed_hash (eb_sha256 demo_embedder) t = Some v \<and> on_embedded demo_floats (demo_ids ''n'') ''u'' [] ee demo_vgraph = (Inr [ge], g') \<and>
     dget (vg_embeddings g') (demo_ids ''n'' 0) = Some v \<and> dget (vg_nodes g') (demo_ids ''n'' 0) = Some n \<and>
     kn_label n = [] \<and> dget (kn_properties n) ''text'' = Some (DStr []) \<and> dget (kn_properties n) ''document_id'' = Some (DStr [])"
    by (rule chunk_becomes_textless_node [OF _ ce _ _ _ demo_vgraph_reachable])
  have "demo_ids ''n'' 0 = ''n''" by (simp add: demo_ids_def)
  with r ce show ?thesis by (elim exE conjE) (intro exI conjI, assumption+, simp, assumption)
qed

text \<open>
  A new node of the graph does not become searchable. The service is told of it and looks it up in
  the store, but nothing has saved it there, so it is not indexed.\<close>

theorem new_node_not_indexed:
  assumes "vg_step\<^sup>*\<^sup>* (new_vgraph thr) g" and "on_embedded floats uid nuid now ee g = (Inr [ge], g')"
    and "dget (tb_entities (pe_tables p)) (uid 0) = None" and "\<not> pe_shut p"
  shows "\<exists>p'. on_graph_updated bk c ge (b, p) = (Inr (), (b, p')) \<and> pe_tables p' = pe_tables p"
proof -
  have inv: "vgraph_inv g" using similarity.reachable_inv assms(1) by blast
  obtain ch where ch: "embedded_chunk floats nuid now (se_payload ee) = Inr ch"
    using assms(2) by (cases "embedded_chunk floats nuid now (se_payload ee)") (auto simp: on_embedded_def split: if_splits)
  define d where "d = (case dget (se_payload ee) ''chunk_id'' of None \<Rightarrow> DStr (be_id ch) | Some d \<Rightarrow> if datum_truthy d then d else DStr (be_id ch))"
  obtain n g1 where n: "add_node_for uid now d ch g = (Inr n, g1)" "be_id n = uid 0" using add_node_total [OF inv, of uid now d ch] by blast
  have "dget_or (se_payload ge) ''node_id'' DNone = DStr (uid 0)"
    using assms(2) n unfolding on_embedded_def Let_def ch sum.case d_def [symmetric] n(1) prod.case by (auto simp: dget_or_def)
  with assms(3,4) show ?thesis by (auto simp: on_graph_updated_def pe_get_def on_thread_def)
qed

theorem new_node_not_indexed_witness:
  "\<exists>ge g' p'. on_embedded demo_floats (demo_ids ''n'') ''u'' [] \<lparr>se_type = [], se_source = [], se_payload = []\<rparr> (new_vgraph 1) = (Inr [ge], g') \<and>
     on_graph_updated memory_backend plain_codec ge ([], new_persistence ''f'' empty_tables) = (Inr (), ([], p'))"
proof -
  let ?e = "\<lparr>se_type = [], se_source = [], se_payload = []\<rparr>"
  obtain ge g' where e: "on_embedded demo_floats (demo_ids ''n'') ''u'' [] ?e (new_vgraph 1) = (Inr [ge], g')"
    by (simp add: on_embedded_def embedded_chunk_def dget_or_def demo_floats_def add_node_for_def find_similar_def new_vgraph_def Let_def)
  have "dget (tb_entities (pe_tables (new_persistence ''f'' empty_tables))) (demo_ids ''n'' 0) = None" "\<not> pe_shut (new_persistence ''f'' empty_tables)"
    by (simp_all add: new_persistence_def empty_tables_def)
  from new_node_not_indexed [OF rtranclp.rtrancl_refl e this] e show ?thesis by metis
qed

end
