(* ===== verification/Mcp_Server.thy ===== *)
theory Mcp_Server
  imports Storage Codecs Registries
begin

text \<open>
  The MCP server over stdio: \<open>mcp/tools.py\<close> and \<open>mcp/server.py\<close>.

  \<^item> Messages are JSON values (\<open>pyval\<close>); writing and reading JSON text and \<open>str\<close> of a value are
    parameters. What Python raises on a value of an unexpected type is modelled, because the message
    loop does not contain it.
  \<^item> \<open>handle\<close> is \<open>_handle\<close>: an answer, no answer for a notification, or an exception.
  \<^item> The stream is the bytes that are still to be read, followed by its end; \<open>serve\<close> is the loop of
    \<open>start\<close>. Lines longer than the limit of the stream reader are not considered.
  \<^item> Tool handlers are injected and act on a world.
\<close>

section \<open>Tools\<close>

record schema_tool = tool +
  st_input_schema :: pydict
  st_metadata :: pydict

definition to_mcp_schema :: "schema_tool \<Rightarrow> pyval" where
  "to_mcp_schema t =
     PDict [(''name'', PStr (t_name t)),
            (''description'', case dget (st_metadata t) ''description'' of
                Some d \<Rightarrow> if truthy d then d else PStr (t_capability t)
              | None \<Rightarrow> PStr (t_capability t)),
            (''inputSchema'', PDict (if st_input_schema t = [] then [(''type'', PStr ''object''), (''properties'', PDict [])] else st_input_schema t))]"

definition from_mcp_call :: "string \<Rightarrow> string \<Rightarrow> pydict \<Rightarrow> exn + schema_tool \<times> pydict" where
  "from_mcp_call uid name arguments =
     (case dget_or arguments ''__schema__'' (PDict []) of
        PDict d \<Rightarrow> Inr (\<lparr>t_id = uid, t_name = name, t_capability = [], st_input_schema = d, st_metadata = []\<rparr>, arguments)
      | _ \<Rightarrow> Inl (std_exn [''ValidationError'', ''ValueError''] ''Tool''))"

text \<open>\<open>isinstance\<close> with the types of \<open>type_map\<close>: a Boolean is an integer in Python.\<close>

fun type_matches :: "string \<Rightarrow> pyval \<Rightarrow> bool" where
  "type_matches ty (PStr _) = (ty = ''string'')"
| "type_matches ty (PInt _) = (ty = ''integer'' \<or> ty = ''number'')"
| "type_matches ty (PFloat _) = (ty = ''number'')"
| "type_matches ty (PBool _) = (ty = ''boolean'' \<or> ty = ''integer'' \<or> ty = ''number'')"
| "type_matches ty (PDict _) = (ty = ''object'')"
| "type_matches ty (PList _) = (ty = ''array'')"
| "type_matches ty PNone = False"

definition type_map :: "string list" where
  "type_map = [''string'', ''integer'', ''number'', ''boolean'', ''object'', ''array'']"

fun hashable :: "pyval \<Rightarrow> bool" where
  "hashable (PList _) = False"
| "hashable (PDict _) = False"
| "hashable _ = True"

text \<open>\<open>for r in required\<close>: a string and a dictionary can be iterated too.\<close>

fun iterated :: "pyval \<Rightarrow> exn + pyval list" where
  "iterated (PList xs) = Inr xs"
| "iterated (PStr s) = Inr (map (\<lambda>c. PStr [c]) s)"
| "iterated (PDict d) = Inr (map (\<lambda>(k, _). PStr k) d)"
| "iterated _ = Inl (TypeError ''object is not iterable'')"

fun required_present :: "pyval list \<Rightarrow> pydict \<Rightarrow> exn + bool" where
  "required_present [] args = Inr True"
| "required_present (r # rs) args =
     (if \<not> hashable r then Inl (TypeError ''unhashable type'')
      else if (case r of PStr k \<Rightarrow> dget args k \<noteq> None | _ \<Rightarrow> False) then required_present rs args
      else Inr False)"

text \<open>\<open>key in props\<close> and \<open>props[key]\<close>.\<close>

fun prop_of :: "pyval \<Rightarrow> string \<Rightarrow> exn + pyval option" where
  "prop_of (PDict d) key = Inr (dget d key)"
| "prop_of (PList xs) key = (if PStr key \<in> set xs then Inl (TypeError ''list indices must be integers or slices'') else Inr None)"
| "prop_of (PStr s) key = (if contains key s then Inl (TypeError ''string indices must be integers'') else Inr None)"
| "prop_of _ key = Inl (TypeError ''argument is not iterable'')"

fun types_ok :: "pyval \<Rightarrow> bool \<Rightarrow> (string \<times> pyval) list \<Rightarrow> exn + bool" where
  "types_ok props strict [] = Inr True"
| "types_ok props strict ((key, val) # rest) =
     (case prop_of props key of
        Inl x \<Rightarrow> Inl x
      | Inr None \<Rightarrow> if strict then Inr False else types_ok props strict rest
      | Inr (Some (PDict p)) \<Rightarrow>
          (case dget_or p ''type'' PNone of
             PStr ty \<Rightarrow> if ty \<in> set type_map \<and> \<not> type_matches ty val then Inr False else types_ok props strict rest
           | ty \<Rightarrow> if truthy ty \<and> \<not> hashable ty then Inl (TypeError ''unhashable type'') else types_ok props strict rest)
      | Inr (Some _) \<Rightarrow> Inl (AttributeError ''get''))"

definition validate_arguments :: "schema_tool \<Rightarrow> pyval \<Rightarrow> exn + bool" where
  "validate_arguments t args =
     (let schema = st_input_schema t
      in case args of
           PDict a \<Rightarrow>
             (case iterated (dget_or schema ''required'' (PList [])) of
                Inl x \<Rightarrow> Inl x
              | Inr rs \<Rightarrow>
                  (case required_present rs a of
                     Inr True \<Rightarrow> types_ok (dget_or schema ''properties'' (PDict [])) (dget schema ''additionalProperties'' = Some (PBool False)) a
                   | r \<Rightarrow> r))
         | _ \<Rightarrow> Inr False)"

section \<open>Requests\<close>

definition E_INVALID_REQUEST :: int where "E_INVALID_REQUEST = -32600"
definition E_METHOD_NOT_FOUND :: int where "E_METHOD_NOT_FOUND = -32601"
definition E_INVALID_PARAMS :: int where "E_INVALID_PARAMS = -32602"
definition E_SERVER_ERROR :: int where "E_SERVER_ERROR = -32000"

type_synonym 'w tool_handler = "pydict \<Rightarrow> 'w \<Rightarrow> (pyval, 'w) res"

record 'w stdio_server =
  sv_tools :: "(string, schema_tool) dict"
  sv_handlers :: "(string, 'w tool_handler) dict"
  sv_calls :: "pydict list"
  sv_written :: bytes
  sv_world :: 'w

definition rpc_error :: "int \<Rightarrow> string \<Rightarrow> pyval \<Rightarrow> pyval" where
  "rpc_error code message msg_id =
     PDict [(''jsonrpc'', PStr ''2.0''), (''id'', msg_id), (''error'', PDict [(''code'', PInt code), (''message'', PStr message)])]"

definition rpc_result :: "pyval \<Rightarrow> pyval \<Rightarrow> pyval" where
  "rpc_result result msg_id = PDict [(''jsonrpc'', PStr ''2.0''), (''id'', msg_id), (''result'', result)]"

definition set_handler :: "string \<Rightarrow> 'w tool_handler \<Rightarrow> 'w stdio_server \<Rightarrow> 'w stdio_server" where
  "set_handler tool_name h s = s\<lparr>sv_handlers := dset tool_name h (sv_handlers s)\<rparr>"

definition invoke :: "schema_tool \<Rightarrow> pydict \<Rightarrow> 'w stdio_server \<Rightarrow> (pyval, 'w stdio_server) res" where
  "invoke t arguments s =
     (case dget (sv_handlers s) (t_name t) of
        None \<Rightarrow> (Inl (RuntimeError (''no handler registered for tool '' @ quoted (t_name t))), s)
      | Some h \<Rightarrow> (case h arguments (sv_world s) of (r, w) \<Rightarrow> (r, s\<lparr>sv_world := w\<rparr>)))"

definition call_published :: "pyval \<Rightarrow> pydict \<Rightarrow> string \<times> pyval \<Rightarrow> 'w stdio_server \<Rightarrow> 'w stdio_server" where
  "call_published name arguments outcome s = s\<lparr>sv_calls := sv_calls s @ [[(''name'', name), (''args'', PDict arguments), outcome]]\<rparr>"

definition find_tool :: "pyval \<Rightarrow> 'w stdio_server \<Rightarrow> schema_tool option" where
  "find_tool name s = (case name of PStr n \<Rightarrow> get_tool_by_name (sv_tools s) n | _ \<Rightarrow> None)"

definition handle_call :: "(pyval \<Rightarrow> string) \<Rightarrow> pyval \<Rightarrow> pyval \<Rightarrow> 'w stdio_server \<Rightarrow> (pyval, 'w stdio_server) res" where
  "handle_call pystr params msg_id s =
     (case params of
        PDict p \<Rightarrow>
          (let name = dget_or p ''name'' PNone;
               arguments = (case dget p ''arguments'' of None \<Rightarrow> PDict [] | Some a \<Rightarrow> if truthy a then a else PDict [])
           in if \<not> truthy name then (Inr (rpc_error E_INVALID_PARAMS (''missing '' @ quoted ''name'') msg_id), s)
              else
                (case find_tool name s of
                   None \<Rightarrow> (Inr (rpc_error E_INVALID_PARAMS (''tool not found: '' @ pystr name) msg_id), s)
                 | Some t \<Rightarrow>
                     (case (validate_arguments t arguments, arguments) of
                        (Inl x, _) \<Rightarrow> (Inl x, s)
                      | (Inr True, PDict a) \<Rightarrow>
                          (case invoke t a s of
                             (Inr result, s1) \<Rightarrow>
                               (Inr (rpc_result (PDict [(''content'', PList [PDict [(''type'', PStr ''text''), (''text'', PStr (pystr result))]])]) msg_id),
                                call_published name a (''result'', result) s1)
                           | (Inl x, s1) \<Rightarrow>
                               if catches ''Exception'' x
                               then (Inr (rpc_error E_SERVER_ERROR (''tool invocation failed: '' @ exn_msg x) msg_id),
                                     call_published name a (''error'', PStr (exn_msg x)) s1)
                               else (Inl x, s1))
                      | _ \<Rightarrow> (Inr (rpc_error E_INVALID_PARAMS ''arguments failed schema validation'' msg_id), s))))
      | _ \<Rightarrow> (Inl (AttributeError ''get''), s))"

definition handle :: "(pyval \<Rightarrow> string) \<Rightarrow> pyval \<Rightarrow> 'w stdio_server \<Rightarrow> (pyval option, 'w stdio_server) res" where
  "handle pystr msg s =
     (case msg of
        PDict m \<Rightarrow>
          (let msg_id = dget_or m ''id'' PNone;
               meth = dget_or m ''method'' PNone;
               params = (case dget m ''params'' of None \<Rightarrow> PDict [] | Some p \<Rightarrow> if truthy p then p else PDict [])
           in if dget m ''jsonrpc'' \<noteq> Some (PStr ''2.0'') then (Inr (Some (rpc_error E_INVALID_REQUEST ''not a JSON-RPC 2.0 object'' msg_id)), s)
              else if msg_id = PNone then (Inr None, s)
              else if meth = PStr ''initialize'' then
                (Inr (Some (rpc_result (PDict [(''protocolVersion'', PStr ''2024-11-05''), (''capabilities'', PDict [(''tools'', PDict [])]),
                    (''serverInfo'', PDict [(''name'', PStr ''hermes-kernel-v2''), (''version'', PStr ''0.1.0'')])]) msg_id)), s)
              else if meth = PStr ''tools/list'' then
                (Inr (Some (rpc_result (PDict [(''tools'', PList (map to_mcp_schema (list_tools (sv_tools s))))]) msg_id)), s)
              else if meth = PStr ''tools/call'' then (case handle_call pystr params msg_id s of (r, s1) \<Rightarrow> (map_sum id Some r, s1))
              else (Inr (Some (rpc_error E_METHOD_NOT_FOUND (''method not found: '' @ pystr meth) msg_id)), s))
      | _ \<Rightarrow> (Inl (AttributeError ''get''), s))"

section \<open>The stream\<close>

definition crlf :: bytes where
  "crlf = [13, 10]"

definition send_frame :: "(pyval \<Rightarrow> string) \<Rightarrow> pyval \<Rightarrow> bytes" where
  "send_frame dumps obj =
     (let data = utf8_encode (dumps obj)
      in utf8_encode (''Content-Length: '' @ nat_str (length data)) @ crlf @ crlf @ data)"

definition mcp_send :: "(pyval \<Rightarrow> string) \<Rightarrow> pyval \<Rightarrow> 'w stdio_server \<Rightarrow> 'w stdio_server" where
  "mcp_send dumps obj s = s\<lparr>sv_written := sv_written s @ send_frame dumps obj\<rparr>"

definition notify_tools_changed :: "(pyval \<Rightarrow> string) \<Rightarrow> 'w stdio_server \<Rightarrow> 'w stdio_server" where
  "notify_tools_changed dumps s = mcp_send dumps (PDict [(''jsonrpc'', PStr ''2.0''), (''method'', PStr ''notifications/tools/list_changed'')]) s"

definition readline :: "bytes \<Rightarrow> bytes \<times> bytes" where
  "readline buf = (takeWhile (\<lambda>b. b \<noteq> 10) buf @ take 1 (dropWhile (\<lambda>b. b \<noteq> 10) buf), drop 1 (dropWhile (\<lambda>b. b \<noteq> 10) buf))"

definition strip :: "string \<Rightarrow> string" where
  "strip s = rev (dropWhile is_space (rev (dropWhile is_space s)))"

text \<open>\<open>int\<close> of a text of digits with an optional sign; other spellings (underscores) count as errors here.\<close>

definition parse_int :: "string \<Rightarrow> exn + int" where
  "parse_int s =
     (let (neg, ds) = (case s of c # cs \<Rightarrow> if c = CHR ''-'' then (True, cs) else if c = CHR ''+'' then (False, cs) else (False, s) | [] \<Rightarrow> (False, []));
          digit = (\<lambda>c. 48 \<le> (of_char c :: nat) \<and> (of_char c :: nat) \<le> 57);
          n = fold (\<lambda>c n. 10 * n + int (of_char c - 48)) ds 0
      in if ds = [] \<or> \<not> list_all digit ds then Inl (ValueError ''invalid literal for int() with base 10'') else Inr (if neg then - n else n))"

lemma readline_shorter: "buf \<noteq> [] \<Longrightarrow> length (snd (readline buf)) < length buf"
  using length_dropWhile_le [of "\<lambda>b. b \<noteq> 10" buf] length_greater_0_conv [of buf] unfolding readline_def snd_conv length_drop by linarith

function read_headers :: "bytes \<Rightarrow> (string, string) dict \<Rightarrow> (exn + (string, string) dict) \<times> bytes" where
  "read_headers buf hs =
     (let (line, rest) = readline buf
      in if buf = [] \<or> line = crlf then (Inr hs, rest)
         else if 58 \<notin> set line then read_headers rest hs
         else (case utf8_decode line of
                 Inl x \<Rightarrow> (Inl x, rest)
               | Inr l \<Rightarrow>
                   read_headers rest (dset (lower (strip (takeWhile (\<lambda>c. c \<noteq> CHR '':'') l))) (strip (drop 1 (dropWhile (\<lambda>c. c \<noteq> CHR '':'') l))) hs)))"
  by pat_completeness auto
termination by (relation "measure (\<lambda>(buf, hs). length buf)") (auto dest: readline_shorter simp: prod_eq_iff)

declare read_headers.simps [simp del]

definition IncompleteReadError :: exn where
  "IncompleteReadError = std_exn [''IncompleteReadError'', ''EOFError''] ''bytes read on a total of expected bytes''"

text \<open>The message is Python's value of the JSON text, so a \<open>null\<close> cannot be told from a missing message.\<close>

definition read_message :: "(string \<Rightarrow> exn + pyval) \<Rightarrow> bytes \<Rightarrow> (pyval option, bytes) res" where
  "read_message loads buf =
     (case read_headers buf [] of
        (Inl x, rest) \<Rightarrow> (Inl x, rest)
      | (Inr hs, rest) \<Rightarrow>
          (case dget hs ''content-length'' of
             None \<Rightarrow> (Inr None, rest)
           | Some v \<Rightarrow>
               (case parse_int v of
                  Inl x \<Rightarrow> (Inl x, rest)
                | Inr n \<Rightarrow>
                    if n < 0 then (Inl (ValueError ''readexactly size can not be less than zero''), rest)
                    else if length rest < nat n then (Inl IncompleteReadError, [])
                    else (case utf8_decode (take (nat n) rest) of
                            Inl x \<Rightarrow> (Inl x, drop (nat n) rest)
                          | Inr text \<Rightarrow> (case loads text of Inl x \<Rightarrow> (Inl x, drop (nat n) rest) | Inr msg \<Rightarrow> (Inr (if msg = PNone then None else Some msg), drop (nat n) rest))))))"

lemma read_headers_shorter: "length (snd (read_headers buf hs)) \<le> length buf - (if buf = [] then 0 else 1)"
proof (induction buf hs rule: read_headers.induct)
  case (1 buf hs)
  obtain line rest where l: "readline buf = (line, rest)" by (cases "readline buf")
  have rest: "length rest \<le> length buf - (if buf = [] then 0 else 1)" using readline_shorter [of buf] l by (auto simp: readline_def)
  have IH: "length (snd (read_headers rest h)) \<le> length buf - (if buf = [] then 0 else 1)" if "\<not> (buf = [] \<or> line = crlf)"
    "h = hs \<and> 58 \<notin> set line \<or> (\<exists>t. 58 \<in> set line \<and> utf8_decode line = Inr t \<and>
       h = dset (lower (strip (takeWhile (\<lambda>c. c \<noteq> CHR '':'') t))) (strip (drop 1 (dropWhile (\<lambda>c. c \<noteq> CHR '':'') t))) hs)" for h
    using that 1(1) [OF l [symmetric]] 1(2) [OF l [symmetric]] rest by fastforce
  show ?case
  proof (cases "buf = [] \<or> line = crlf")
    case True
    then show ?thesis using rest by (subst read_headers.simps) (simp add: l)
  next
    case False
    note IH = IH [OF False]
    show ?thesis
    proof (cases "58 \<in> set line")
      case True
      then show ?thesis using False rest IH by (subst read_headers.simps) (cases "utf8_decode line"; simp add: l)
    next
      case 2: False
      then show ?thesis using False IH [of hs] by (subst read_headers.simps) (simp add: l)
    qed
  qed
qed

lemma read_message_shorter: "buf \<noteq> [] \<Longrightarrow> length (snd (read_message loads buf)) < length buf"
proof -
  assume "buf \<noteq> []"
  then have "length (snd (read_headers buf [])) < length buf"
    using read_headers_shorter [of buf "[]"] length_greater_0_conv [of buf] by (simp del: length_greater_0_conv)
  then show ?thesis by (auto simp: read_message_def split: prod.splits sum.splits option.splits)
qed

text \<open>The loop of \<open>start\<close>. At the end of the stream nothing is left to read; no message before the end, a
  \<open>null\<close> among them, is passed over.\<close>

function serve ::
  "(pyval \<Rightarrow> string) \<Rightarrow> (string \<Rightarrow> exn + pyval) \<Rightarrow> (pyval \<Rightarrow> string) \<Rightarrow> bytes \<Rightarrow> 'w stdio_server \<Rightarrow> (unit, 'w stdio_server) res" where
  "serve dumps loads pystr buf s =
     (if buf = [] then (Inr (), s)
      else
        (case read_message loads buf of
           (Inl x, rest) \<Rightarrow> if catches ''Exception'' x then serve dumps loads pystr rest s else (Inl x, s)
         | (Inr None, rest) \<Rightarrow> serve dumps loads pystr rest s
         | (Inr (Some msg), rest) \<Rightarrow>
             (case handle pystr msg s of
                (Inl x, s1) \<Rightarrow> (Inl x, s1)
              | (Inr None, s1) \<Rightarrow> serve dumps loads pystr rest s1
              | (Inr (Some response), s1) \<Rightarrow> serve dumps loads pystr rest (mcp_send dumps response s1))))"
  by pat_completeness auto
termination
  by (relation "measure (\<lambda>(dumps, loads, pystr, buf, s). length buf)") (auto dest: read_message_shorter simp: prod_eq_iff)

declare serve.simps [simp del]

section \<open>Framing\<close>

lemma utf8_ascii: "\<forall>c \<in> set str. (of_char c :: nat) < 128 \<Longrightarrow> utf8_encode str = map of_char str"
  by (induction str) (simp_all add: utf8_encode_def utf8_char_def)

lemma readline_break: "10 \<notin> set l \<Longrightarrow> readline (l @ 10 # rest) = (l @ [10], rest)"
  by (induction l) (auto simp: readline_def)

lemma nat_str_digits: "\<forall>c \<in> set (nat_str n). 48 \<le> (of_char c :: nat) \<and> (of_char c :: nat) \<le> 57" "nat_str n \<noteq> []"
proof (induction n rule: nat_str.induct)
  case (1 n)
  { case 1 show ?case using "1.IH" by (subst nat_str.simps) (auto simp: of_char_of)
  next
    case 2 show ?case by (subst nat_str.simps) simp }
qed

lemma parse_nat_str: "parse_int (nat_str n) = Inr (int n)"
proof -
  have val: "fold (\<lambda>c n. 10 * n + int (of_char c - 48)) (nat_str m) 0 = int m" for m
  proof (induction m rule: nat_str.induct)
    case (1 m)
    moreover have "10 * int (m div 10) + int (m mod 10) = int m"
      using arg_cong [OF mult_div_mod_eq [of 10 m], of int] by (simp only: of_nat_add of_nat_mult of_nat_numeral)
    ultimately show ?case by (subst nat_str.simps) (auto simp: of_char_of)
  qed
  obtain c cs where c: "nat_str n = c # cs" using nat_str_digits(2) [of n] by (cases "nat_str n") auto
  have "c \<noteq> CHR ''-''" "c \<noteq> CHR ''+''" using nat_str_digits(1) [of n] c by auto
  moreover have "list_all (\<lambda>c. 48 \<le> (of_char c :: nat) \<and> (of_char c :: nat) \<le> 57) (nat_str n)" using nat_str_digits(1) [of n] by (simp add: list_all_iff)
  ultimately show ?thesis using val [of n] by (simp add: parse_int_def c)
qed

lemma length_text: "\<forall>c \<in> set ''Content-Length: ''. (of_char c :: nat) < 128"
  by simp

lemma strip_digits: "\<forall>c \<in> set ds. \<not> is_space c \<Longrightarrow> ds \<noteq> [] \<Longrightarrow> strip (CHR '' '' # ds @ [CHR 0x0D, CHR 0x0A]) = ds"
proof -
  assume ds: "\<forall>c \<in> set ds. \<not> is_space c" "ds \<noteq> []"
  have sp: "is_space CHR '' ''" "is_space CHR 0x0D" "is_space CHR 0x0A" by (simp_all add: is_space_def)
  have keep: "dropWhile is_space xs = xs" if "xs \<noteq> []" "\<not> is_space (hd xs)" for xs using that by (cases xs) auto
  have "dropWhile is_space (ds @ [CHR 0x0D, CHR 0x0A]) = ds @ [CHR 0x0D, CHR 0x0A]" using ds by (intro keep) auto
  moreover have "dropWhile is_space (rev ds) = rev ds" using ds by (intro keep) (auto simp: hd_rev)
  ultimately show ?thesis using sp by (simp add: strip_def)
qed

lemma digit_chars: "c \<in> set (nat_str n) \<Longrightarrow> \<not> is_space c \<and> (of_char c :: nat) < 128 \<and> c \<noteq> CHR '':''"
proof -
  assume "c \<in> set (nat_str n)"
  then have "48 \<le> (of_char c :: nat)" "(of_char c :: nat) \<le> 57" using nat_str_digits(1) by blast+
  then show ?thesis by (auto simp: is_space_def)
qed

text \<open>The bytes of a frame are read back as the message they were made of; \<open>null\<close> is no message.\<close>

lemma read_frame:
  assumes "loads (dumps obj) = Inr m"
  shows "read_message loads (send_frame dumps obj @ rest) = (Inr (if m = PNone then None else Some m), rest)"
proof -
  let ?data = "utf8_encode (dumps obj)"
  let ?ds = "nat_str (length ?data)"
  let ?line = "''Content-Length: '' @ ?ds @ [CHR 0x0D, CHR 0x0A]"
  have ascii: "\<forall>c \<in> set (''Content-Length: '' @ ?ds). (of_char c :: nat) < 128" using digit_chars by (auto simp: length_text)
  have enc: "utf8_encode ?line = utf8_encode (''Content-Length: '' @ ?ds) @ crlf" by (simp add: utf8_encode_def utf8_char_def crlf_def)
  have no: "10 \<notin> set (utf8_encode (''Content-Length: '' @ ?ds) @ [13])"
    unfolding utf8_ascii [OF ascii] using nat_str_digits(1) [of "length ?data"] by auto
  have line: "readline (send_frame dumps obj @ rest) = (utf8_encode ?line, crlf @ ?data @ rest)"
    using readline_break [OF no, of "crlf @ ?data @ rest"] unfolding enc by (simp add: send_frame_def crlf_def Let_def)
  have blank: "readline (crlf @ ?data @ rest) = (crlf, ?data @ rest)"
    using readline_break [of "[13]" "?data @ rest"] by (simp add: crlf_def)
  have colon: "58 \<in> set (utf8_encode ?line)" "utf8_encode ?line \<noteq> crlf" "send_frame dumps obj @ rest \<noteq> []"
    by (simp_all add: utf8_encode_def utf8_char_def crlf_def send_frame_def Let_def)
  have key: "takeWhile (\<lambda>c. c \<noteq> CHR '':'') ?line = ''Content-Length''" "drop 1 (dropWhile (\<lambda>c. c \<noteq> CHR '':'') ?line) = CHR '' '' # ?ds @ [CHR 0x0D, CHR 0x0A]"
    by simp_all
  have name: "lower (strip ''Content-Length'') = ''content-length''" by code_simp
  have val: "strip (CHR '' '' # ?ds @ [CHR 0x0D, CHR 0x0A]) = ?ds" by (rule strip_digits) (use digit_chars nat_str_digits(2) in blast)+
  have "read_headers (crlf @ ?data @ rest) hs = (Inr hs, ?data @ rest)" for hs
    by (subst read_headers.simps) (simp only: blank prod.case Let_def simp_thms if_True)
  then have "read_headers (send_frame dumps obj @ rest) [] = (Inr [(''content-length'', ?ds)], ?data @ rest)"
    using colon by (subst read_headers.simps) (simp add: line utf8_roundtrip key key(2) [unfolded One_nat_def] name val del: append.simps)
  then show ?thesis using assms by (simp add: read_message_def parse_nat_str utf8_roundtrip)
qed

section \<open>Answers\<close>

text \<open>The messages of a list in their order: \<open>null\<close> is passed over, and an exception ends the loop.\<close>

fun answer_all :: "(pyval \<Rightarrow> string) \<Rightarrow> (pyval \<Rightarrow> string) \<Rightarrow> pyval list \<Rightarrow> 'w stdio_server \<Rightarrow> (unit, 'w stdio_server) res" where
  "answer_all dumps pystr [] s = (Inr (), s)"
| "answer_all dumps pystr (m # ms) s =
     (if m = PNone then answer_all dumps pystr ms s
      else
        (case handle pystr m s of
           (Inl x, s1) \<Rightarrow> (Inl x, s1)
         | (Inr None, s1) \<Rightarrow> answer_all dumps pystr ms s1
         | (Inr (Some r), s1) \<Rightarrow> answer_all dumps pystr ms (mcp_send dumps r s1)))"

lemma send_frame_nonempty [simp]: "send_frame dumps m \<noteq> []"
  by (simp add: send_frame_def crlf_def Let_def)

lemma serve_frame:
  assumes "loads (dumps m) = Inr m"
  shows "serve dumps loads pystr (send_frame dumps m @ rest) s =
    (if m = PNone then serve dumps loads pystr rest s
     else
       (case handle pystr m s of
          (Inl x, s1) \<Rightarrow> (Inl x, s1)
        | (Inr None, s1) \<Rightarrow> serve dumps loads pystr rest s1
        | (Inr (Some r), s1) \<Rightarrow> serve dumps loads pystr rest (mcp_send dumps r s1)))"
  by (subst serve.simps) (simp add: read_frame [where loads = loads and dumps = dumps and obj = m and m = m, OF assms])

text \<open>A schema with which validation raises nothing.\<close>

definition schema_ok :: "schema_tool \<Rightarrow> bool" where
  "schema_ok t \<longleftrightarrow>
     (\<exists>rs. dget_or (st_input_schema t) ''required'' (PList []) = PList (map PStr rs)) \<and>
     (\<exists>ps. dget_or (st_input_schema t) ''properties'' (PDict []) = PDict ps \<and>
        (\<forall>k v. dget ps k = Some v \<longrightarrow> (\<exists>d. v = PDict d \<and> hashable (dget_or d ''type'' PNone))))"

definition handler_ok :: "'w tool_handler \<Rightarrow> bool" where
  "handler_ok h \<longleftrightarrow> (\<forall>a w. case fst (h a w) of Inl x \<Rightarrow> catches ''Exception'' x | Inr _ \<Rightarrow> True)"

lemma required_total: "\<exists>b. required_present (map PStr rs) a = Inr b"
  by (induction rs) auto

lemma types_total:
  assumes "\<forall>k v. dget ps k = Some v \<longrightarrow> (\<exists>d. v = PDict d \<and> hashable (dget_or d ''type'' PNone))"
  shows "\<exists>b. types_ok (PDict ps) strict a = Inr b"
proof (induction a)
  case (Cons kv a)
  have [simp]: "\<exists>b. b" "\<exists>b. \<not> b" by blast+
  obtain k v where kv: "kv = (k, v)" by (cases kv)
  show ?case
  proof (cases "dget ps k")
    case (Some p)
    then obtain d where "p = PDict d" "hashable (dget_or d ''type'' PNone)" using assms by blast
    with Some Cons show ?thesis by (cases "dget_or d ''type'' PNone") (auto simp: kv)
  qed (use Cons in \<open>auto simp: kv\<close>)
qed (simp, blast)

lemma validate_total:
  assumes "schema_ok t"
  shows "\<exists>b. validate_arguments t args = Inr b"
proof (cases args)
  case (PDict a)
  obtain rs ps where s: "dget_or (st_input_schema t) ''required'' (PList []) = PList (map PStr rs)" "dget_or (st_input_schema t) ''properties'' (PDict []) = PDict ps"
    "\<forall>k v. dget ps k = Some v \<longrightarrow> (\<exists>d. v = PDict d \<and> hashable (dget_or d ''type'' PNone))" using assms by (auto simp: schema_ok_def)
  obtain b where b: "required_present (map PStr rs) a = Inr b" using required_total by blast
  obtain c where c: "types_ok (PDict ps) (dget (st_input_schema t) ''additionalProperties'' = Some (PBool False)) a = Inr c" using types_total [OF s(3)] by blast
  have "validate_arguments t args = Inr (if b then c else False)" using s(1,2) b c PDict by (cases b) (simp_all add: validate_arguments_def)
  then show ?thesis by blast
qed (simp add: validate_arguments_def, blast)+

lemma validate_only_objects: "validate_arguments t args = Inr True \<Longrightarrow> \<exists>a. args = PDict a"
  by (cases args) (simp_all add: validate_arguments_def)

definition answers :: "pyval \<Rightarrow> pyval \<Rightarrow> bool" where
  "answers msg_id r \<longleftrightarrow> (\<exists>b. r = rpc_result b msg_id) \<or> (\<exists>code m. r = rpc_error code m msg_id)"

lemma handle_call_answers:
  assumes "\<forall>t \<in> set (dvals (sv_tools s)). schema_ok t" and "\<forall>n h. dget (sv_handlers s) n = Some h \<longrightarrow> handler_ok h"
  shows "\<exists>r s1. handle_call pystr (PDict p) msg_id s = (Inr r, s1) \<and> answers msg_id r"
proof -
  let ?name = "dget_or p ''name'' PNone"
  let ?args = "case dget p ''arguments'' of None \<Rightarrow> PDict [] | Some a \<Rightarrow> if truthy a then a else PDict []"
  have ans: "answers msg_id (rpc_result b msg_id)" "answers msg_id (rpc_error c m msg_id)" for b c m unfolding answers_def by blast+
  show ?thesis
  proof (cases "truthy ?name \<and> find_tool ?name s \<noteq> None")
    case True
    then obtain t where t: "find_tool ?name s = Some t" by auto
    then have "t \<in> set (dvals (sv_tools s))" by (auto simp: find_tool_def get_tool_by_name_def find_Some_iff split: pyval.splits)
    then obtain b where b: "validate_arguments t ?args = Inr b" using assms(1) validate_total by blast
    show ?thesis
    proof (cases b)
      case False
      then show ?thesis using True t b ans by (cases ?args) (simp_all add: handle_call_def Let_def)
    next
      case 2: True
      then obtain a where a: "?args = PDict a" using validate_only_objects [of t ?args] b 2 by auto
      obtain r s1 where i: "invoke t a s = (r, s1)" by (cases "invoke t a s")
      have "catches ''Exception'' x" if "r = Inl x" for x
        using i that assms(2) by (auto simp: invoke_def handler_ok_def RuntimeError_def split: option.splits prod.splits) (metis fst_conv sum.simps(5))
      then show ?thesis using True t b 2 a i ans by (cases r) (simp_all add: handle_call_def Let_def)
    qed
  qed (use ans in \<open>auto simp: handle_call_def Let_def\<close>)
qed

section \<open>Properties\<close>

text \<open>
  C22: What is written is what is served. A client that writes JSON messages in frames gets them handled
  in the order it wrote them, each exactly once and each answer framed the same way; a message \<open>null\<close>
  is passed over. The loop ends at the end of the stream, or earlier with the exception that handling
  a message raises.\<close>

theorem frames_served_in_order:
  assumes "\<forall>m \<in> set ms. loads (dumps m) = Inr m"
  shows "serve dumps loads pystr (concat (map (send_frame dumps) ms)) s = answer_all dumps pystr ms s"
  using assms
proof (induction ms arbitrary: s)
  case Nil
  then show ?case by (simp add: serve.simps)
next
  case (Cons m ms)
  then show ?case by (auto simp: serve_frame split: prod.splits sum.splits option.splits)
qed

definition demo_dumps :: "pyval \<Rightarrow> string" where
  "demo_dumps v = (if v = PList [] then ''[]'' else if v = PNone then ''null'' else ''{}'')"

definition demo_loads :: "string \<Rightarrow> exn + pyval" where
  "demo_loads t = (if t = ''[]'' then Inr (PList []) else if t = ''null'' then Inr PNone else Inr (PDict []))"

definition demo_server :: "unit stdio_server" where
  "demo_server = \<lparr>sv_tools = [], sv_handlers = [], sv_calls = [], sv_written = [], sv_world = ()\<rparr>"

theorem frames_served_in_order_witness:
  "serve demo_dumps demo_loads (\<lambda>_. []) (concat (map (send_frame demo_dumps) [PDict [], PNone, PDict []])) demo_server =
   answer_all demo_dumps (\<lambda>_. []) [PDict [], PNone, PDict []] demo_server"
  by (rule frames_served_in_order) (simp add: demo_dumps_def demo_loads_def)

text \<open>
  C34: Every request is answered. If the schemas of the tools are well-formed and their handlers raise
  nothing but exceptions, a request whose parameters are an object is answered with its own id, by a
  result or by an error, whatever method, tool and arguments it names.\<close>

theorem request_answered:
  assumes "\<forall>t \<in> set (dvals (sv_tools s)). schema_ok t" and "\<forall>n h. dget (sv_handlers s) n = Some h \<longrightarrow> handler_ok h"
    and "dget m ''jsonrpc'' = Some (PStr ''2.0'')" and "dget m ''id'' = Some msg_id" and "msg_id \<noteq> PNone"
    and "dget m ''params'' = None \<or> (\<exists>p. dget m ''params'' = Some (PDict p))"
  shows "\<exists>r s1. handle pystr (PDict m) s = (Inr (Some r), s1) \<and> answers msg_id r"
proof -
  have ans: "answers msg_id (rpc_result b msg_id)" "answers msg_id (rpc_error c e msg_id)" for b c e unfolding answers_def by blast+
  obtain p where params: "(case dget m ''params'' of None \<Rightarrow> PDict [] | Some p \<Rightarrow> if truthy p then p else PDict []) = PDict p"
  proof (cases "dget m ''params'' = None")
    case False
    then obtain q where "dget m ''params'' = Some (PDict q)" using assms(6) by auto
    then show ?thesis by (cases "q = []") (auto intro: that)
  qed (auto intro: that)
  obtain r s1 where "handle_call pystr (PDict p) msg_id s = (Inr r, s1)" "answers msg_id r" using handle_call_answers [OF assms(1,2)] by blast
  with params assms(3-5) ans show ?thesis by (auto simp: handle_def Let_def dget_or_def)
qed

theorem request_answered_witness: "\<exists>r s1. handle (\<lambda>_. []) (PDict [(''jsonrpc'', PStr ''2.0''), (''id'', PInt 1)]) demo_server = (Inr (Some r), s1) \<and> answers (PInt 1) r"
  by (rule request_answered) (simp_all add: demo_server_def)

text \<open>
  C39: A message that is neither an object nor \<open>null\<close> ends the server. The guard against such messages
  reads their id and raises, so the loop ends with an exception, and nothing that follows on the
  stream is served; the same holds for a tool call with positional parameters. A \<open>null\<close> is passed over
  by the loop before it gets there.\<close>

theorem malformed_message_ends_server:
  assumes "loads (dumps m) = Inr m"
    and "(m \<noteq> PNone \<and> (\<forall>d. m \<noteq> PDict d)) \<or>
         (\<exists>d xs. m = PDict d \<and> dget d ''jsonrpc'' = Some (PStr ''2.0'') \<and> dget_or d ''id'' PNone \<noteq> PNone \<and> dget d ''method'' = Some (PStr ''tools/call'') \<and>
                 dget d ''params'' = Some (PList xs) \<and> xs \<noteq> [])"
  shows "serve dumps loads pystr (send_frame dumps m @ rest) s = (Inl (AttributeError ''get''), s)"
proof -
  have "handle pystr m s = (Inl (AttributeError ''get''), s)" using assms(2) by (cases m) (auto simp: handle_def handle_call_def dget_or_def)
  moreover have "m \<noteq> PNone" using assms(2) by auto
  ultimately show ?thesis by (simp add: serve_frame [where loads = loads and dumps = dumps and m = m, OF assms(1)])
qed

theorem malformed_message_ends_server_witness:
  "serve demo_dumps demo_loads (\<lambda>_. []) (send_frame demo_dumps (PList []) @ send_frame demo_dumps (PDict [])) demo_server = (Inl (AttributeError ''get''), demo_server)"
  by (rule malformed_message_ends_server) (simp_all add: demo_dumps_def demo_loads_def)

end
