(* ===== verification/Mcp_Streamable.thy ===== *)
theory Mcp_Streamable
  imports Ingest Mcp_Server "HOL-Library.Multiset"
begin

text \<open>
  The MCP server over Streamable HTTP: \<open>mcp/server_streamable.py\<close>.

  \<^item> A request is its headers, under their canonical names, and the bytes of its body; the sockets,
    the threads and the routes of \<open>http.server\<close> are not modelled. A waiting call on the loop of the
    server is one step, so its time limits never expire.
  \<^item> Session objects are found by their id in \<open>sm_objects\<close>; \<open>sm_registered\<close> holds the keys of the
    code's \<open>_sessions\<close>, because an event stream keeps its session after it is removed there.
  \<^item> Loops are numbered: a session stays bound to the loop that ran when it was made.
  \<^item> \<open>GET\<close> answers with the backlog in one step and then streams the queue. The live stream is a schedule
    of what happens while its handler runs: events are pushed, sessions end, the handler takes the next
    item and writes it, a write fails, or the handler has waited 30 seconds at an empty queue. Taking
    from an empty queue is waiting: nothing happens until something is pushed. A session has at most
    one event stream at a time.
\<close>

section \<open>Sessions\<close>

record http_session =
  hs_session_id :: string
  hs_events :: "string option list"
  hs_seq :: int
  hs_loop :: "nat option"

definition endswith :: "string \<Rightarrow> string \<Rightarrow> bool" where
  "endswith p s = startswith (rev p) (rev s)"

abbreviation nl :: string where
  "nl \<equiv> [CHR 0x0A]"

definition sse_frame :: "int \<Rightarrow> string \<Rightarrow> string" where
  "sse_frame seq data =
     (if startswith ''id:'' data then (if endswith (nl @ nl) data then data else data @ nl)
      else (let frame = ''id: '' @ int_str seq @ nl @ data
            in if endswith (nl @ nl) frame then frame else if endswith nl frame then frame @ nl else frame @ nl @ nl))"

definition session_ws :: "string \<Rightarrow> string" where
  "session_ws sid = ''mcp:'' @ sid"

definition session_event :: "string \<Rightarrow> string \<Rightarrow> string \<Rightarrow> int \<Rightarrow> string \<Rightarrow> mcp_session_event" where
  "session_event uid now sid seq frame =
     base_entity.extend (new_entity uid now [] (session_ws sid)) \<lparr>ms_session_id = sid, ms_seq = seq, ms_sse_data = frame\<rparr>"

text \<open>The loop of the session may have been closed since, and scheduling on it raises then.\<close>

definition push_event ::
  "'j codec \<Rightarrow> nat option \<Rightarrow> string \<Rightarrow> string \<Rightarrow> string \<Rightarrow> http_session \<times> 'j persistence option \<Rightarrow> (int, http_session \<times> 'j persistence option) res" where
  "push_event c running uid now data st =
     (let s = fst st;
          seq = hs_seq s + 1;
          frame = sse_frame seq data;
          s1 = s\<lparr>hs_seq := seq, hs_events := hs_events s @ [Some frame]\<rparr>
      in case (snd st, hs_loop s) of
           (Some p, Some l) \<Rightarrow>
             if running \<noteq> Some l then (Inl (RuntimeError ''Event loop is closed''), (s1, Some p))
             else (case pe_save c (McpSessionEvent (session_event uid now (hs_session_id s) seq frame)) p of
                     (Inr _, p1) \<Rightarrow> (Inr seq, (s1, Some p1))
                   | (Inl x, p1) \<Rightarrow> (if catches ''Exception'' x then Inr seq else Inl x, (s1, Some p1)))
         | (po, _) \<Rightarrow> (Inr seq, (s1, po)))"

definition hs_close :: "http_session \<Rightarrow> http_session" where
  "hs_close s = s\<lparr>hs_events := hs_events s @ [None]\<rparr>"

text \<open>\<open>int(f.split(":", 1)[1].split("\n", 1)[0])\<close>\<close>

definition frame_id :: "string \<Rightarrow> exn + int" where
  "frame_id f =
     (case split_once '':'' f of
        None \<Rightarrow> Inl (std_exn [''IndexError'', ''LookupError''] ''list index out of range'')
      | Some (_, r) \<Rightarrow> parse_int (strip (takeWhile (\<lambda>c. c \<noteq> CHR 0x0A) r)))"

fun keyed_frames :: "string list \<Rightarrow> exn + (int \<times> string) list" where
  "keyed_frames [] = Inr []"
| "keyed_frames (f # fs) =
     (case frame_id f of
        Inl x \<Rightarrow> Inl x
      | Inr k \<Rightarrow> (case keyed_frames fs of Inl x \<Rightarrow> Inl x | Inr ks \<Rightarrow> Inr ((k, f) # ks)))"

fun frames_since :: "int \<Rightarrow> stored list \<Rightarrow> string list" where
  "frames_since last_seq [] = []"
| "frames_since last_seq (McpSessionEvent e # rs) = (if ms_seq e > last_seq then ms_sse_data e # frames_since last_seq rs else frames_since last_seq rs)"
| "frames_since last_seq (_ # rs) = frames_since last_seq rs"

definition replay_since :: "'j codec \<Rightarrow> int \<Rightarrow> string \<Rightarrow> 'j persistence option \<Rightarrow> (string list, 'j persistence option) res" where
  "replay_since c last_seq sid po =
     (case po of
        None \<Rightarrow> (Inr [], None)
      | Some p \<Rightarrow>
          (case pe_list c (session_ws sid) (Some ''McpSessionEvent'') p of
             (Inl x, p1) \<Rightarrow> (Inl x, Some p1)
           | (Inr rows, p1) \<Rightarrow> (map_sum id (\<lambda>ks. map snd (sort_key fst ks)) (keyed_frames (frames_since last_seq rows)), Some p1)))"

section \<open>The server\<close>

record ('w, 'j) streamable =
  sm_core :: "'w stdio_server"
  sm_objects :: "(string, http_session) dict"
  sm_registered :: "string list"
  sm_persistence :: "'j persistence option"
  sm_loop :: "nat option"
  sm_loops :: nat
  sm_ttl :: int
  sm_evicting :: bool
  sm_version :: string

definition new_streamable :: "'w stdio_server \<Rightarrow> 'j persistence option \<Rightarrow> int \<Rightarrow> string \<Rightarrow> ('w, 'j) streamable" where
  "new_streamable core po ttl ver =
     \<lparr>sm_core = core, sm_objects = [], sm_registered = [], sm_persistence = po, sm_loop = None, sm_loops = 0, sm_ttl = ttl, sm_evicting = False,
      sm_version = ver\<rparr>"

definition sm_set_handler :: "string \<Rightarrow> 'w tool_handler \<Rightarrow> ('w, 'j) streamable \<Rightarrow> ('w, 'j) streamable" where
  "sm_set_handler tool_name h s = s\<lparr>sm_core := set_handler tool_name h (sm_core s)\<rparr>"

definition create_session :: "string \<Rightarrow> ('w, 'j) streamable \<Rightarrow> http_session \<times> ('w, 'j) streamable" where
  "create_session uid s =
     (let o1 = \<lparr>hs_session_id = uid, hs_events = [], hs_seq = 0, hs_loop = sm_loop s\<rparr>
      in (o1, s\<lparr>sm_objects := dset uid o1 (sm_objects s), sm_registered := sm_registered s @ [uid]\<rparr>))"

definition session_of :: "string option \<Rightarrow> ('w, 'j) streamable \<Rightarrow> http_session option" where
  "session_of session_id s =
     (case session_id of
        None \<Rightarrow> None
      | Some i \<Rightarrow> if i = [] \<or> i \<notin> set (sm_registered s) then None else dget (sm_objects s) i)"

definition end_session :: "string \<Rightarrow> ('w, 'j) streamable \<Rightarrow> ('w, 'j) streamable" where
  "end_session i s =
     (case session_of (Some i) s of
        None \<Rightarrow> s
      | Some o1 \<Rightarrow> s\<lparr>sm_registered := filter ((\<noteq>) i) (sm_registered s), sm_objects := dset i (hs_close o1) (sm_objects s)\<rparr>)"

definition sm_push :: "'j codec \<Rightarrow> string \<Rightarrow> string \<Rightarrow> string \<Rightarrow> string \<Rightarrow> ('w, 'j) streamable \<Rightarrow> (int option, ('w, 'j) streamable) res" where
  "sm_push c uid now i data s =
     (case dget (sm_objects s) i of
        None \<Rightarrow> (Inr None, s)
      | Some o1 \<Rightarrow>
          (case push_event c (sm_loop s) uid now data (o1, sm_persistence s) of
             (r, (o2, po)) \<Rightarrow> (map_sum id Some r, s\<lparr>sm_objects := dset i o2 (sm_objects s), sm_persistence := po\<rparr>)))"

subsection \<open>Eviction\<close>

text \<open>\<open>iso\<close> is \<open>datetime.fromisoformat\<close>, with a time without a zone read as UTC.\<close>

fun evict_rows :: "(string \<Rightarrow> datetime option) \<Rightarrow> datetime \<Rightarrow> stored list \<Rightarrow> 'j persistence \<Rightarrow> 'j persistence" where
  "evict_rows fromiso cutoff [] p = p"
| "evict_rows fromiso cutoff (McpSessionEvent e # rows) p =
     (case fromiso (be_created_at e) of
        None \<Rightarrow> evict_rows fromiso cutoff rows p
      | Some created \<Rightarrow> evict_rows fromiso cutoff rows (if created < cutoff then snd (pe_delete (be_id e) p) else p))"
| "evict_rows fromiso cutoff (_ # rows) p = evict_rows fromiso cutoff rows p"

definition evict_session :: "(string \<Rightarrow> datetime option) \<Rightarrow> datetime \<Rightarrow> 'j codec \<Rightarrow> string \<Rightarrow> 'j persistence \<Rightarrow> 'j persistence" where
  "evict_session fromiso cutoff c sid p =
     (case pe_list c (session_ws sid) (Some ''McpSessionEvent'') p of
        (Inl _, p1) \<Rightarrow> p1
      | (Inr rows, p1) \<Rightarrow> evict_rows fromiso cutoff rows p1)"

definition evict_expired :: "(string \<Rightarrow> datetime option) \<Rightarrow> datetime \<Rightarrow> 'j codec \<Rightarrow> ('w, 'j) streamable \<Rightarrow> ('w, 'j) streamable" where
  "evict_expired fromiso now c s =
     (case sm_persistence s of
        None \<Rightarrow> s
      | Some p \<Rightarrow>
          if sm_ttl s \<le> 0 then s
          else s\<lparr>sm_persistence := Some (fold (evict_session fromiso (now - 1000000 * sm_ttl s) c) (sm_registered s) p)\<rparr>)"

subsection \<open>Requests\<close>

record http_response =
  rs_status :: nat
  rs_headers :: "(string, string) dict"
  rs_body :: bytes

definition check_protocol_version :: "(pyval \<Rightarrow> string) \<Rightarrow> string \<Rightarrow> (string, string) dict \<Rightarrow> http_response option" where
  "check_protocol_version dumps ver hdrs =
     (case dget hdrs ''Mcp-Protocol-Version'' of
        None \<Rightarrow> None
      | Some v \<Rightarrow>
          if v = ver then None
          else Some \<lparr>rs_status = 426, rs_headers = [(''Mcp-Protocol-Version'', ver), (''Content-Type'', ''application/json'')],
                     rs_body = utf8_encode (dumps (PDict [(''error'', PStr ''unsupported protocol version''), (''supported'', PStr ver)]))\<rparr>)"

definition sm_dispatch :: "(pyval \<Rightarrow> string) \<Rightarrow> pyval \<Rightarrow> ('w, 'j) streamable \<Rightarrow> (pyval option, ('w, 'j) streamable) res" where
  "sm_dispatch pystr msg s =
     (if sm_loop s = None then (Inr None, s)
      else (case handle pystr msg (sm_core s) of
              (Inr r, core) \<Rightarrow> (Inr r, s\<lparr>sm_core := core\<rparr>)
            | (Inl x, core) \<Rightarrow> (if catches ''Exception'' x then Inr None else Inl x, s\<lparr>sm_core := core\<rparr>)))"

fun dispatch_batch :: "(pyval \<Rightarrow> string) \<Rightarrow> pyval list \<Rightarrow> ('w, 'j) streamable \<Rightarrow> (pyval list, ('w, 'j) streamable) res" where
  "dispatch_batch pystr [] s = (Inr [], s)"
| "dispatch_batch pystr (PDict m # ms) s =
     (case sm_dispatch pystr (PDict m) s of
        (Inl x, s1) \<Rightarrow> (Inl x, s1)
      | (Inr r, s1) \<Rightarrow> (case dispatch_batch pystr ms s1 of (rs, s2) \<Rightarrow> (map_sum id ((@) (case r of None \<Rightarrow> [] | Some v \<Rightarrow> [v])) rs, s2)))"
| "dispatch_batch pystr (_ # ms) s = dispatch_batch pystr ms s"

definition respond :: "string \<Rightarrow> http_session \<Rightarrow> nat \<Rightarrow> string \<Rightarrow> bytes \<Rightarrow> http_response" where
  "respond ver session code content_type body =
     \<lparr>rs_status = code,
      rs_headers = [(''Content-Type'', content_type), (''Mcp-Session-Id'', hs_session_id session), (''Mcp-Protocol-Version'', ver), (''Access-Control-Allow-Origin'', ''*'')],
      rs_body = body\<rparr>"

definition respond_json :: "(pyval \<Rightarrow> string) \<Rightarrow> string \<Rightarrow> http_session \<Rightarrow> nat \<Rightarrow> pyval \<Rightarrow> http_response" where
  "respond_json dumps ver session code payload = respond ver session code ''application/json'' (utf8_encode (dumps payload))"

definition raw_body :: "(string, string) dict \<Rightarrow> bytes \<Rightarrow> exn + bytes" where
  "raw_body hdrs body =
     (case dget hdrs ''Content-Length'' of
        None \<Rightarrow> Inr (utf8_encode ''{}'')
      | Some v \<Rightarrow> map_sum id (\<lambda>n. if n = 0 then utf8_encode ''{}'' else if n < 0 then body else take (nat n) body) (parse_int (strip v)))"

definition answer_post ::
  "(pyval \<Rightarrow> string) \<Rightarrow> (string \<Rightarrow> exn + pyval) \<Rightarrow> (pyval \<Rightarrow> string) \<Rightarrow> http_session \<Rightarrow> bytes \<Rightarrow> ('w, 'j) streamable \<Rightarrow> (http_response, ('w, 'j) streamable) res" where
  "answer_post dumps loads pystr session raw s =
     (case (case utf8_decode raw of Inl x \<Rightarrow> Inl x | Inr t \<Rightarrow> loads t) of
        Inl x \<Rightarrow>
          if catches ''JSONDecodeError'' x then (Inr (respond_json dumps (sm_version s) session 400 (PDict [(''error'', PStr ''invalid JSON'')])), s)
          else (Inl x, s)
      | Inr (PList ms) \<Rightarrow>
          (case dispatch_batch pystr ms s of
             (Inl x, s1) \<Rightarrow> (Inl x, s1)
           | (Inr payload, s1) \<Rightarrow> (Inr (respond_json dumps (sm_version s1) session 200 (PList payload)), s1))
      | Inr m \<Rightarrow>
          (case sm_dispatch pystr m s of
             (Inl x, s1) \<Rightarrow> (Inl x, s1)
           | (Inr None, s1) \<Rightarrow> (Inr (respond (sm_version s1) session 202 ''application/json'' []), s1)
           | (Inr (Some r), s1) \<Rightarrow> (Inr (respond_json dumps (sm_version s1) session 200 r), s1)))"

definition handle_post_messages ::
  "(pyval \<Rightarrow> string) \<Rightarrow> (string \<Rightarrow> exn + pyval) \<Rightarrow> (pyval \<Rightarrow> string) \<Rightarrow> string \<Rightarrow> (string, string) dict \<Rightarrow> bytes \<Rightarrow> ('w, 'j) streamable \<Rightarrow>
   (http_response, ('w, 'j) streamable) res" where
  "handle_post_messages dumps loads pystr uid hdrs body s =
     (case check_protocol_version dumps (sm_version s) hdrs of
        Some r \<Rightarrow> (Inr r, s)
      | None \<Rightarrow>
          (case raw_body hdrs body of
             Inl x \<Rightarrow> (Inl x, s)
           | Inr raw \<Rightarrow>
               (case session_of (dget hdrs ''Mcp-Session-Id'') s of
                  Some o1 \<Rightarrow> answer_post dumps loads pystr o1 raw s
                | None \<Rightarrow> (case create_session uid s of (o1, s1) \<Rightarrow> answer_post dumps loads pystr o1 raw s1))))"

text \<open>\<open>str.isdigit\<close> on ASCII.\<close>

definition isdigit :: "string \<Rightarrow> bool" where
  "isdigit t \<longleftrightarrow> t \<noteq> [] \<and> list_all (\<lambda>c. 48 \<le> (of_char c :: nat) \<and> (of_char c :: nat) \<le> 57) t"

definition last_event_id :: "(string, string) dict \<Rightarrow> int" where
  "last_event_id hdrs =
     (case dget hdrs ''Last-Event-ID'' of
        None \<Rightarrow> 0
      | Some t \<Rightarrow> if isdigit t then (case parse_int t of Inr n \<Rightarrow> n | Inl _ \<Rightarrow> 0) else 0)"

text \<open>The answer to a \<open>GET\<close> up to the live stream, and the session whose events follow.\<close>

definition get_events_open ::
  "(pyval \<Rightarrow> string) \<Rightarrow> 'j codec \<Rightarrow> (string, string) dict \<Rightarrow> ('w, 'j) streamable \<Rightarrow> (http_response \<times> string list \<times> string option, ('w, 'j) streamable) res" where
  "get_events_open dumps c hdrs s =
     (case check_protocol_version dumps (sm_version s) hdrs of
        Some r \<Rightarrow> (Inr (r, [], None), s)
      | None \<Rightarrow>
          (case session_of (dget hdrs ''Mcp-Session-Id'') s of
             None \<Rightarrow> (Inr (\<lparr>rs_status = 404, rs_headers = [(''Content-Type'', ''application/json'')],
                             rs_body = utf8_encode (''{\"error\": \"unknown or missing session\"}'')\<rparr>, [], None), s)
           | Some o1 \<Rightarrow>
               (let r = \<lparr>rs_status = 200,
                         rs_headers = [(''Content-Type'', ''text/event-stream''), (''Cache-Control'', ''no-cache''), (''Connection'', ''keep-alive''),
                                       (''Mcp-Protocol-Version'', sm_version s)],
                         rs_body = utf8_encode ('': connected'' @ nl @ nl)\<rparr>;
                    i = hs_session_id o1
                in if last_event_id hdrs > 0 \<and> sm_persistence s \<noteq> None \<and> sm_loop s \<noteq> None
                   then (case replay_since c (last_event_id hdrs) i (sm_persistence s) of
                           (Inr backlog, po) \<Rightarrow> (Inr (r, backlog, Some i), s\<lparr>sm_persistence := po\<rparr>)
                         | (Inl x, po) \<Rightarrow> (if catches ''Exception'' x then Inr (r, [], Some i) else Inl x, s\<lparr>sm_persistence := po\<rparr>))
                   else (Inr (r, [], Some i), s))))"

datatype stream_end = Ended | Broken | TimedOut

text \<open>The live stream of a session: the frames written, how it ended if it has, and the server.\<close>

datatype live_event =
    Pushed "string \<times> string \<times> string \<times> string"
  | SessionEnded string
  | Delivered
  | WriteFails
  | TimesOut

type_synonym ('w, 'j) live = "string list \<times> stream_end option \<times> ('w, 'j) streamable"

definition queued :: "string \<Rightarrow> ('w, 'j) streamable \<Rightarrow> string option list" where
  "queued i s = (case dget (sm_objects s) i of None \<Rightarrow> [] | Some o1 \<Rightarrow> hs_events o1)"

definition set_queue :: "string \<Rightarrow> string option list \<Rightarrow> ('w, 'j) streamable \<Rightarrow> ('w, 'j) streamable" where
  "set_queue i q s =
     (case dget (sm_objects s) i of None \<Rightarrow> s | Some o1 \<Rightarrow> s\<lparr>sm_objects := dset i (o1\<lparr>hs_events := q\<rparr>) (sm_objects s)\<rparr>)"

text \<open>The \<open>finally\<close> clause: whatever is left in the queue of a registered session is dropped.\<close>

definition leave_stream :: "string \<Rightarrow> string option list \<Rightarrow> ('w, 'j) streamable \<Rightarrow> ('w, 'j) streamable" where
  "leave_stream i q s = set_queue i (if i \<in> set (sm_registered s) then [] else q) s"

text \<open>
  One event during the live stream of session \<open>i\<close>. The handler blocks in \<open>get_event\<close> while the queue is
  empty; after 30 seconds there \<open>queue.Empty\<close> leaves it. An item whose write fails has been taken from
  the queue. After the end of the stream only pushes and ends of sessions have an effect.\<close>

fun live_step :: "'j codec \<Rightarrow> string \<Rightarrow> live_event \<Rightarrow> ('w, 'j) live \<Rightarrow> ('w, 'j) live" where
  "live_step c i (Pushed (j, uid, now, data)) (fs, e, s) = (fs, e, snd (sm_push c uid now j data s))"
| "live_step c i (SessionEnded j) (fs, e, s) = (fs, e, end_session j s)"
| "live_step c i Delivered (fs, None, s) =
     (case queued i s of
        [] \<Rightarrow> (fs, None, s)
      | None # q \<Rightarrow> (fs, Some Ended, leave_stream i q s)
      | Some f # q \<Rightarrow> (fs @ [f], None, set_queue i q s))"
| "live_step c i WriteFails (fs, None, s) =
     (case queued i s of
        [] \<Rightarrow> (fs, None, s)
      | None # q \<Rightarrow> (fs, Some Ended, leave_stream i q s)
      | Some f # q \<Rightarrow> (fs, Some Broken, leave_stream i q s))"
| "live_step c i TimesOut (fs, None, s) = (if queued i s = [] then (fs, Some TimedOut, leave_stream i [] s) else (fs, None, s))"
| "live_step c i ev (fs, Some e, s) = (fs, Some e, s)"

definition live_run :: "'j codec \<Rightarrow> string \<Rightarrow> live_event list \<Rightarrow> ('w, 'j) live \<Rightarrow> ('w, 'j) live" where
  "live_run c i evs st = fold (live_step c i) evs st"

subsection \<open>Lifecycle\<close>

definition schedule_eviction :: "('w, 'j) streamable \<Rightarrow> ('w, 'j) streamable" where
  "schedule_eviction s = (if sm_persistence s = None \<or> sm_ttl s \<le> 0 \<or> sm_loop s = None then s else s\<lparr>sm_evicting := True\<rparr>)"

definition streamable_start :: "('w, 'j) streamable \<Rightarrow> ('w, 'j) streamable" where
  "streamable_start s = schedule_eviction (s\<lparr>sm_loop := Some (sm_loops s), sm_loops := sm_loops s + 1\<rparr>)"

definition streamable_stop :: "('w, 'j) streamable \<Rightarrow> ('w, 'j) streamable" where
  "streamable_stop s = s\<lparr>sm_evicting := False, sm_loop := None\<rparr>"

section \<open>Lemmas\<close>

lemma strip_number: "strip (CHR '' '' # nat_str n) = nat_str n"
proof -
  have keep: "dropWhile is_space xs = xs" if "xs \<noteq> []" "\<not> is_space (hd xs)" for xs using that by (cases xs) auto
  have "dropWhile is_space (nat_str n) = nat_str n" "dropWhile is_space (rev (nat_str n)) = rev (nat_str n)"
    using nat_str_digits(2) [of n] digit_chars [of _ n] by (auto intro!: keep simp: hd_rev)
  moreover have "is_space CHR '' ''" by (simp add: is_space_def)
  ultimately show ?thesis by (simp add: strip_def)
qed

lemma takeWhile_number: "takeWhile (\<lambda>c. c \<noteq> CHR 0x0A) (nat_str n @ CHR 0x0A # rest) = nat_str n"
  using digit_chars [of "CHR 0x0A" n] by (subst takeWhile_append2) (auto simp: is_space_def)

text \<open>The number of a frame is the one it was given.\<close>

lemma frame_id_sse_frame:
  assumes "\<not> startswith ''id:'' data" and "0 \<le> seq"
  shows "frame_id (sse_frame seq data) = Inr seq"
proof -
  have "\<exists>u. sse_frame seq data = (''id: '' @ int_str seq @ nl @ data) @ u" using assms(1) unfolding sse_frame_def Let_def by (metis append_Nil2)
  then obtain t where t: "sse_frame seq data = ''id: '' @ int_str seq @ CHR 0x0A # t" by auto
  have str: "int_str seq = nat_str (nat seq)" using assms(2) by (simp add: int_str_def)
  have "split_once '':'' (''id: '' @ int_str seq @ CHR 0x0A # t) = Some (''id'', CHR '' '' # nat_str (nat seq) @ CHR 0x0A # t)"
    by (simp add: startswith_def str)
  then show ?thesis using assms(2) unfolding t by (simp add: frame_id_def takeWhile_number strip_number parse_nat_str)
qed

lemma session_ws_inj [simp]: "session_ws i = session_ws j \<longleftrightarrow> i = j"
  by (simp add: session_ws_def)

lemma session_event_sel [simp]:
  "ms_seq (session_event uid now i n f) = n" "ms_sse_data (session_event uid now i n f) = f"
  "be_id (session_event uid now i n f) = uid" "be_workspace_id (session_event uid now i n f) = session_ws i"
  "be_created_at (session_event uid now i n f) = now"
  by (simp_all add: session_event_def base_entity.defs new_entity_def)

lemma base_of_event [simp]: "be_id (base_of (McpSessionEvent e)) = be_id e" "be_workspace_id (base_of (McpSessionEvent e)) = be_workspace_id e"
  by (simp_all add: base_entity.defs)

lemma frames_since_events: "frames_since k (map McpSessionEvent es) = map ms_sse_data (filter (\<lambda>e. ms_seq e > k) es)"
  by (induction es) auto

lemma keyed_frames_events:
  "\<forall>e \<in> set es. frame_id (ms_sse_data e) = Inr (ms_seq e) \<Longrightarrow> keyed_frames (map ms_sse_data es) = Inr (map (\<lambda>e. (ms_seq e, ms_sse_data e)) es)"
  by (induction es) auto

text \<open>Sorting a permutation of a list whose keys rise gives the list.\<close>

lemma sort_key_rising:
  assumes "mset xs = mset ys" and "sorted_wrt (<) (map f ys)"
  shows "sort_key f xs = ys"
proof (rule properties_for_sort_key)
  show "mset ys = mset xs" using assms(1) by simp
  have sd: "sorted (map f ys)" "distinct (map f ys)" using assms(2) by (simp_all add: strict_sorted_iff)
  then show "sorted (map f ys)" by simp
  show "filter (\<lambda>x. f k = f x) ys = filter (\<lambda>x. f k = f x) xs" if "k \<in> set ys" for k
  proof -
    have "inj_on f (set ys)" using sd(2) by (simp add: distinct_map)
    moreover have "distinct ys" "distinct xs" using sd(2) assms(1) mset_eq_imp_distinct_iff [of xs ys] by (auto simp: distinct_map)
    moreover have "set xs = set ys" using assms(1) by (rule mset_eq_setD)
    ultimately have "filter (\<lambda>x. f k = f x) zs = filter ((=) k) zs \<and> distinct zs \<and> k \<in> set zs" if "zs = xs \<or> zs = ys" for zs
      using that \<open>k \<in> set ys\<close> by (auto intro!: filter_cong dest: inj_onD)
    moreover have "distinct zs \<Longrightarrow> k \<in> set zs \<Longrightarrow> filter ((=) k) zs = [k]" for zs
      by (induction zs) (auto simp: filter_empty_conv)
    ultimately show ?thesis by metis
  qed
qed

subsection \<open>Runs of pushes\<close>

type_synonym push = "string \<times> string \<times> string \<times> string"

definition push_run :: "'j codec \<Rightarrow> push list \<Rightarrow> ('w, 'j) streamable \<Rightarrow> ('w, 'j) streamable" where
  "push_run c ops s = fold (\<lambda>(i, uid, now, data) s. snd (sm_push c uid now i data s)) ops s"

fun run_events :: "(string \<Rightarrow> int) \<Rightarrow> push list \<Rightarrow> mcp_session_event list" where
  "run_events cnt [] = []"
| "run_events cnt ((i, uid, now, data) # ops) =
     session_event uid now i (cnt i + 1) (sse_frame (cnt i + 1) data) # run_events (cnt(i := cnt i + 1)) ops"

definition texts_of :: "string \<Rightarrow> push list \<Rightarrow> string list" where
  "texts_of i ops = map (\<lambda>(_, _, _, data). data) (filter (\<lambda>(j, _). j = i) ops)"

fun numbered :: "int \<Rightarrow> string list \<Rightarrow> string list" where
  "numbered n [] = []"
| "numbered n (d # ds) = sse_frame (n + 1) d # numbered (n + 1) ds"

definition counted :: "(string \<Rightarrow> int) \<Rightarrow> push list \<Rightarrow> string \<Rightarrow> int" where
  "counted cnt ops i = cnt i + int (length (texts_of i ops))"

lemma texts_of_simps [simp]:
  "texts_of i [] = []" "texts_of i ((j, uid, now, data) # ops) = (if j = i then data # texts_of i ops else texts_of i ops)"
  by (simp_all add: texts_of_def)

lemma texts_of_append [simp]: "texts_of i (ops @ ops') = texts_of i ops @ texts_of i ops'"
  by (simp add: texts_of_def)

lemma length_numbered [simp]: "length (numbered n ds) = length ds"
  by (induction ds arbitrary: n) simp_all

lemma numbered_append: "numbered n (ds @ es) = numbered n ds @ numbered (n + int (length ds)) es"
  by (induction ds arbitrary: n) (simp_all add: algebra_simps)

text \<open>The events of one session among those of a run, and those of them after number \<open>k\<close>.\<close>

lemma run_events_since:
  "map ms_sse_data (filter (\<lambda>e. ms_seq e > k) (filter (\<lambda>e. be_workspace_id e = session_ws i) (run_events cnt ops))) =
   drop (nat (k - cnt i)) (numbered (cnt i) (texts_of i ops))"
proof (induction ops arbitrary: cnt)
  case (Cons op ops)
  obtain j uid now data where op: "op = (j, uid, now, data)" by (cases op)
  show ?case
  proof (cases "j = i")
    case True
    show ?thesis
    proof (cases "k \<le> cnt i")
      case k: True
      then show ?thesis using Cons True by (simp add: op)
    next
      case False
      then have "nat (k - cnt i) = Suc (nat (k - (cnt i + 1)))" by simp
      then show ?thesis using Cons True False by (simp add: op)
    qed
  qed (use Cons in \<open>simp add: op\<close>)
qed simp

lemma run_events_append: "run_events cnt (ops @ ops') = run_events cnt ops @ run_events (counted cnt ops) ops'"
proof (induction ops arbitrary: cnt)
  case Nil
  have "counted cnt [] = cnt" by (simp add: counted_def fun_eq_iff)
  then show ?case by simp
next
  case (Cons op ops)
  obtain i uid now data where op: "op = (i, uid, now, data)" by (cases op)
  have "counted (cnt(i := cnt i + 1)) ops = counted cnt (op # ops)" by (auto simp: counted_def op fun_eq_iff)
  then show ?case using Cons [of "cnt(i := cnt i + 1)"] by (simp add: op fun_upd_def)
qed

lemma run_events_rising:
  "sorted_wrt (<) (map ms_seq (filter (\<lambda>e. be_workspace_id e = session_ws i) (run_events cnt ops))) \<and>
   (\<forall>e \<in> set (filter (\<lambda>e. be_workspace_id e = session_ws i) (run_events cnt ops)). cnt i < ms_seq e)"
proof (induction ops arbitrary: cnt)
  case (Cons op ops)
  obtain j uid now data where op: "op = (j, uid, now, data)" by (cases op)
  show ?case using Cons [of "cnt(j := cnt j + 1)"] by (cases "j = i") (auto simp: op fun_upd_def)
qed simp

lemma run_events_frame_id:
  assumes "\<forall>(i, uid, now, data) \<in> set ops. \<not> startswith ''id:'' data" and "\<forall>i. 0 \<le> cnt i"
  shows "\<forall>e \<in> set (run_events cnt ops). frame_id (ms_sse_data e) = Inr (ms_seq e)"
  using assms
proof (induction ops arbitrary: cnt)
  case (Cons op ops)
  obtain j uid now data where op: "op = (j, uid, now, data)" by (cases op)
  show ?case using Cons.IH [of "cnt(j := cnt j + 1)"] Cons.prems by (auto simp: op frame_id_sse_frame fun_upd_def)
qed simp

lemma run_events_ids: "map be_id (run_events cnt ops) = map (\<lambda>(_, uid, _). uid) ops"
  by (induction ops arbitrary: cnt) (auto)

text \<open>A running server whose sessions are at the numbers \<open>cnt\<close> and whose store holds \<open>es\<close>.\<close>

definition event_rows :: "'j codec \<Rightarrow> mcp_session_event list \<Rightarrow> (string, 'j row) dict" where
  "event_rows c es = map (\<lambda>e. (be_id e, row_of c (McpSessionEvent e))) es"

definition running :: "'j codec \<Rightarrow> nat \<Rightarrow> (string \<Rightarrow> int) \<Rightarrow> mcp_session_event list \<Rightarrow> ('w, 'j) streamable \<Rightarrow> bool" where
  "running c l cnt es s \<longleftrightarrow>
     sm_loop s = Some l \<and>
     (\<exists>p. sm_persistence s = Some p \<and> \<not> pe_shut p \<and> tb_entities (pe_tables p) = event_rows c es) \<and>
     (\<forall>i o1. dget (sm_objects s) i = Some o1 \<longrightarrow> hs_session_id o1 = i \<and> hs_loop o1 = Some l \<and> hs_seq o1 = cnt i)"

lemma push_running:
  assumes "running c l cnt es s" and "dget (sm_objects s) i = Some o1" and "uid \<notin> be_id ` set es"
  shows "running c l (cnt(i := cnt i + 1)) (es @ [session_event uid now i (cnt i + 1) (sse_frame (cnt i + 1) data)]) (snd (sm_push c uid now i data s))"
    and "sm_objects (snd (sm_push c uid now i data s)) = dset i (o1\<lparr>hs_seq := cnt i + 1, hs_events := hs_events o1 @ [Some (sse_frame (cnt i + 1) data)]\<rparr>) (sm_objects s)"
    and "sm_registered (snd (sm_push c uid now i data s)) = sm_registered s" "sm_version (snd (sm_push c uid now i data s)) = sm_version s"
    and "sm_ttl (snd (sm_push c uid now i data s)) = sm_ttl s"
proof -
  let ?e = "session_event uid now i (cnt i + 1) (sse_frame (cnt i + 1) data)"
  obtain p where p: "sm_persistence s = Some p" "\<not> pe_shut p" "tb_entities (pe_tables p) = event_rows c es" using assms(1) by (auto simp: running_def)
  have o1: "hs_session_id o1 = i" "hs_loop o1 = Some l" "hs_seq o1 = cnt i" "sm_loop s = Some l" using assms(1,2) by (auto simp: running_def)
  obtain p1 where save: "pe_save c (McpSessionEvent ?e) p = (Inr uid, p1)" and p1: "\<not> pe_shut p1"
    "tb_entities (pe_tables p1) = dset uid (row_of c (McpSessionEvent ?e)) (event_rows c es)"
    using p that by (simp add: pe_save_def on_thread_def del: base_of.simps)
  have rows: "tb_entities (pe_tables p1) = event_rows c (es @ [?e])"
    using assms(3) unfolding p1(2) by (subst dset_new) (auto simp: event_rows_def image_image)
  have push: "sm_push c uid now i data s = (Inr (Some (cnt i + 1)),
      s\<lparr>sm_objects := dset i (o1\<lparr>hs_seq := cnt i + 1, hs_events := hs_events o1 @ [Some (sse_frame (cnt i + 1) data)]\<rparr>) (sm_objects s), sm_persistence := Some p1\<rparr>)"
    using assms(2) p(1) o1 save by (simp add: sm_push_def push_event_def Let_def)
  show "running c l (cnt(i := cnt i + 1)) (es @ [?e]) (snd (sm_push c uid now i data s))"
    using assms(1) rows p1(1) o1 unfolding push running_def by (auto simp: dget_dset)
  show "sm_objects (snd (sm_push c uid now i data s)) = dset i (o1\<lparr>hs_seq := cnt i + 1, hs_events := hs_events o1 @ [Some (sse_frame (cnt i + 1) data)]\<rparr>) (sm_objects s)"
    "sm_registered (snd (sm_push c uid now i data s)) = sm_registered s" "sm_version (snd (sm_push c uid now i data s)) = sm_version s"
    "sm_ttl (snd (sm_push c uid now i data s)) = sm_ttl s" unfolding push by simp_all
qed

lemma push_run_running:
  assumes "running c l cnt es s" and "distinct (map be_id es @ map (\<lambda>(_, uid, _). uid) ops)"
    and "fst ` set ops \<subseteq> fst ` set (sm_objects s)"
  shows "running c l (counted cnt ops) (es @ run_events cnt ops) (push_run c ops s) \<and>
    (\<forall>i. queued i (push_run c ops s) = queued i s @ map Some (numbered (cnt i) (texts_of i ops))) \<and>
    fst ` set (sm_objects (push_run c ops s)) = fst ` set (sm_objects s) \<and>
    sm_registered (push_run c ops s) = sm_registered s \<and> sm_version (push_run c ops s) = sm_version s"
  using assms
proof (induction ops arbitrary: cnt es s)
  case Nil
  have "counted cnt [] = cnt" by (simp add: counted_def fun_eq_iff)
  with Nil show ?case by (simp add: push_run_def)
next
  case (Cons op ops)
  obtain i uid now data where op: "op = (i, uid, now, data)" by (cases op)
  let ?s = "snd (sm_push c uid now i data s)"
  let ?e = "session_event uid now i (cnt i + 1) (sse_frame (cnt i + 1) data)"
  obtain o1 where o1: "dget (sm_objects s) i = Some o1"
    using Cons.prems(3) by (cases "dget (sm_objects s) i") (auto simp: op dget_None_iff)
  have fresh: "uid \<notin> be_id ` set es" using Cons.prems(2) by (auto simp: op)
  note push = push_running [OF Cons.prems(1) o1 fresh, of now data]
  have objs: "fst ` set (sm_objects ?s) = fst ` set (sm_objects s)" using o1 unfolding push(2) by (auto dest!: dget_Some_in intro: rev_image_eqI)
  have q: "queued j ?s = queued j s @ (if j = i then [Some (sse_frame (cnt i + 1) data)] else [])" for j
    using o1 by (simp add: queued_def push(2) dget_dset)
  have dist: "distinct (map be_id (es @ [?e]) @ map (\<lambda>(_, uid, _). uid) ops)" using Cons.prems(2) by (simp add: op)
  have known: "fst ` set ops \<subseteq> fst ` set (sm_objects ?s)" using Cons.prems(3) unfolding objs by (simp add: op)
  have cnt: "counted (cnt(i := cnt i + 1)) ops = counted cnt (op # ops)" by (auto simp: counted_def op fun_eq_iff)
  have run: "push_run c (op # ops) s = push_run c ops ?s" by (simp add: push_run_def op)
  note IH = Cons.IH [OF push(1) dist known]
  have "queued j (push_run c ops ?s) = queued j s @ map Some (numbered (cnt j) (texts_of j (op # ops)))" for j
    using IH q [of j] by (cases "j = i") (simp_all add: op)
  moreover have "es @ run_events cnt (op # ops) = (es @ [?e]) @ run_events (cnt(i := cnt i + 1)) ops" by (simp add: op)
  ultimately show ?case using IH push(3,4) objs unfolding cnt run by metis
qed

subsection \<open>Replay\<close>

lemma contents_distinct_ids:
  assumes "distinct (map entity_id xs)"
  shows "contents xs = map (\<lambda>e. (entity_id e, e)) xs"
proof -
  have "fold (\<lambda>e. dset (entity_id e) e) xs d = d @ map (\<lambda>e. (entity_id e, e)) xs" if "fst ` set d \<inter> entity_id ` set xs = {}" for d
    using assms that by (induction xs arbitrary: d) (auto simp: dset_new)
  then show ?thesis by (simp add: contents_def)
qed

lemma sort_key_map_comp: "sort_key f (map g xs) = map g (sort_key (\<lambda>x. f (g x)) xs)"
proof (induction xs)
  case (Cons x xs)
  have "insort_key f (g x) (map g ys) = map g (insort_key (\<lambda>x. f (g x)) x ys)" for ys by (induction ys) auto
  with Cons show ?case by simp
qed simp

text \<open>What is listed of a session is a permutation of its events.\<close>

lemma listed_events:
  assumes "codec_ok c" and "distinct (map be_id es)" and "\<not> pe_shut p" and "tb_entities (pe_tables p) = event_rows c es"
  shows "pe_list c (session_ws i) (Some ''McpSessionEvent'') p =
    (Inr (map McpSessionEvent (sort_key be_id (filter (\<lambda>e. be_workspace_id e = session_ws i) es))), p\<lparr>pe_conn := True\<rparr>)"
proof -
  let ?P = "\<lambda>e. be_workspace_id e = session_ws i"
  have id: "entity_id (McpSessionEvent e) = be_id e" for e by (simp add: entity_id_def del: base_of.simps)
  have con: "contents (map McpSessionEvent es) = map (\<lambda>e. (be_id e, McpSessionEvent e)) es"
    using assms(2) by (subst contents_distinct_ids) (simp_all add: comp_def id)
  have rows: "tb_entities (pe_tables p) = map (apsnd (row_of c)) (contents (map McpSessionEvent es))" unfolding assms(4) con by (simp add: event_rows_def)
  have ok: "list_all stored_ok (map McpSessionEvent es)" by (simp add: list_all_iff)
  have "filter (\<lambda>(_, e). be_workspace_id (base_of e) = session_ws i \<and> type_clause (Some ''McpSessionEvent'') (row_of c e)) (contents (map McpSessionEvent es))
      = map (\<lambda>e. (be_id e, McpSessionEvent e)) (filter ?P es)"
    unfolding con by (simp add: filter_map comp_def type_clause_def del: base_of.simps)
  then show ?thesis unfolding list_saved [OF assms(1) ok assms(3) rows] by (simp add: sort_key_map_comp comp_def)
qed

lemma replay_running:
  assumes "codec_ok c" and "distinct (map be_id es)" and "\<not> pe_shut p" and "tb_entities (pe_tables p) = event_rows c es"
    and "\<forall>e \<in> set es. frame_id (ms_sse_data e) = Inr (ms_seq e)"
    and "sorted_wrt (<) (map ms_seq (filter (\<lambda>e. be_workspace_id e = session_ws i) es))"
  shows "replay_since c k i (Some p) =
    (Inr (map ms_sse_data (filter (\<lambda>e. ms_seq e > k) (filter (\<lambda>e. be_workspace_id e = session_ws i) es))), Some (p\<lparr>pe_conn := True\<rparr>))"
proof -
  let ?L = "filter (\<lambda>e. be_workspace_id e = session_ws i) es"
  let ?F = "filter (\<lambda>e. ms_seq e > k)"
  let ?key = "\<lambda>e. (ms_seq e, ms_sse_data e)"
  have keyed: "keyed_frames (map ms_sse_data (?F (sort_key be_id ?L))) = Inr (map ?key (?F (sort_key be_id ?L)))"
    using assms(5) by (intro keyed_frames_events) auto
  have "sort_key fst (map ?key (?F (sort_key be_id ?L))) = map ?key (?F ?L)"
  proof (rule sort_key_rising)
    show "mset (map ?key (?F (sort_key be_id ?L))) = mset (map ?key (?F ?L))" by (simp only: mset_map mset_filter mset_sort)
    show "sorted_wrt (<) (map fst (map ?key (?F ?L)))" using sorted_wrt_filter [OF assms(6) [unfolded sorted_wrt_map]] by (simp add: sorted_wrt_map)
  qed
  then show ?thesis
    unfolding replay_since_def option.case listed_events [OF assms(1-4)] by (simp add: frames_since_events keyed comp_def)
qed

section \<open>Properties\<close>

text \<open>A server that has just been started, with registered sessions that nothing was pushed to.\<close>

definition fresh_server :: "'j codec \<Rightarrow> ('w, 'j) streamable \<Rightarrow> bool" where
  "fresh_server c s \<longleftrightarrow> (\<exists>l. running c l (\<lambda>_. 0) [] s) \<and> (\<forall>i. queued i s = []) \<and> set (sm_registered s) = fst ` set (sm_objects s)"

definition pushes_ok :: "push list \<Rightarrow> ('w, 'j) streamable \<Rightarrow> bool" where
  "pushes_ok ops s \<longleftrightarrow> distinct (map (\<lambda>(_, uid, _). uid) ops) \<and> fst ` set ops \<subseteq> set (sm_registered s) \<and> (\<forall>(i, uid, now, data) \<in> set ops. \<not> startswith ''id:'' data)"

lemma replay_pushed:
  assumes "codec_ok c" and "\<not> pe_shut p" and "tb_entities (pe_tables p) = event_rows c (run_events (\<lambda>_. 0) ops)"
    and "distinct (map (\<lambda>(_, uid, _). uid) ops)" and "\<forall>(i, uid, now, data) \<in> set ops. \<not> startswith ''id:'' data"
  shows "replay_since c k i (Some p) = (Inr (drop (nat k) (numbered 0 (texts_of i ops))), Some (p\<lparr>pe_conn := True\<rparr>))"
proof -
  have "distinct (map be_id (run_events (\<lambda>_. 0) ops))" using assms(4) by (simp add: run_events_ids)
  moreover have "\<forall>e \<in> set (run_events (\<lambda>_. 0) ops). frame_id (ms_sse_data e) = Inr (ms_seq e)"
    using assms(5) by (intro run_events_frame_id) simp_all
  ultimately show ?thesis
    using replay_running [OF assms(1) _ assms(2,3)] run_events_rising run_events_since [of k i "\<lambda>_. 0" ops] by simp
qed

lemma last_event_id_number: "last_event_id (hdrs @ [(''Last-Event-ID'', nat_str n)]) = (case dget hdrs ''Last-Event-ID'' of None \<Rightarrow> int n | Some _ \<Rightarrow> last_event_id hdrs)"
  using nat_str_digits [of n] by (auto simp: last_event_id_def isdigit_def list_all_iff parse_nat_str split: option.splits)

lemma pushes_replayed:
  assumes "codec_ok c" and "fresh_server c s" and "pushes_ok ops s"
  shows "\<exists>l p. running c l (counted (\<lambda>_. 0) ops) (run_events (\<lambda>_. 0) ops) (push_run c ops s) \<and> sm_persistence (push_run c ops s) = Some p \<and>
    replay_since c k i (Some p) = (Inr (drop (nat k) (numbered 0 (texts_of i ops))), Some (p\<lparr>pe_conn := True\<rparr>))"
proof -
  obtain l where "running c l (\<lambda>_. 0) [] s" using assms(2) by (auto simp: fresh_server_def)
  moreover have "distinct (map be_id [] @ map (\<lambda>(_, uid, _). uid) ops)" "fst ` set ops \<subseteq> fst ` set (sm_objects s)"
    using assms(2,3) by (auto simp: pushes_ok_def fresh_server_def)
  ultimately have run: "running c l (counted (\<lambda>_. 0) ops) (run_events (\<lambda>_. 0) ops) (push_run c ops s)" using push_run_running [of c l "\<lambda>_. 0" "[]" s ops] by simp
  then obtain p where p: "sm_persistence (push_run c ops s) = Some p" "\<not> pe_shut p" "tb_entities (pe_tables p) = event_rows c (run_events (\<lambda>_. 0) ops)"
    by (auto simp: running_def)
  show ?thesis using p(1) run replay_pushed [OF assms(1) p(2,3)] assms(3) by (auto simp: pushes_ok_def)
qed

text \<open>
  C24: The event log of a session is complete. After any interleaving of pushes to the sessions of a
  fresh server that is running, asking for what follows number \<open>k\<close> gives the frames of that session
  with the numbers after \<open>k\<close>, all of them, in the order in which they were pushed, and none of another
  session. The pushed texts do not start with \<open>id:\<close>: such a text keeps the number written in it, by
  which the replay would then sort, or at which it would fail (\<open>own_id_breaks_replay\<close>).\<close>

theorem events_replayable:
  assumes "codec_ok c" and "fresh_server c s" and "pushes_ok ops s"
  shows "fst (replay_since c k i (sm_persistence (push_run c ops s))) = Inr (drop (nat k) (numbered 0 (texts_of i ops)))"
  using pushes_replayed [OF assms, of k i] by auto

definition demo_streamable :: "(unit, stored) streamable" where
  "demo_streamable =
     snd (create_session ''b'' (snd (create_session ''a'' (streamable_start (new_streamable demo_server (Some (new_persistence '':memory:'' empty_tables)) 60 ''1'')))))"

definition demo_pushes :: "push list" where
  "demo_pushes = [(''a'', ''u1'', [], ''x''), (''b'', ''u2'', [], ''y''), (''a'', ''u3'', [], ''z'')]"

lemma demo_streamable_eq:
  "demo_streamable = \<lparr>sm_core = demo_server,
     sm_objects = [(''a'', \<lparr>hs_session_id = ''a'', hs_events = [], hs_seq = 0, hs_loop = Some 0\<rparr>), (''b'', \<lparr>hs_session_id = ''b'', hs_events = [], hs_seq = 0, hs_loop = Some 0\<rparr>)],
     sm_registered = [''a'', ''b''], sm_persistence = Some (new_persistence '':memory:'' empty_tables), sm_loop = Some 0, sm_loops = 1, sm_ttl = 60, sm_evicting = True,
     sm_version = ''1''\<rparr>"
  by (simp add: demo_streamable_def create_session_def streamable_start_def schedule_eviction_def new_streamable_def Let_def)

lemma demo_fresh: "fresh_server plain_codec demo_streamable"
  by (simp add: fresh_server_def running_def demo_streamable_eq new_persistence_def empty_tables_def event_rows_def queued_def)

lemma demo_pushes_ok: "pushes_ok demo_pushes demo_streamable"
  by (simp add: pushes_ok_def demo_pushes_def demo_streamable_eq startswith_def)

theorem events_replayable_witness:
  "fst (replay_since plain_codec 1 ''a'' (sm_persistence (push_run plain_codec demo_pushes demo_streamable))) = Inr [''id: 2'' @ nl @ ''z'' @ nl @ nl]"
proof -
  have "drop (nat 1) (numbered 0 (texts_of ''a'' demo_pushes)) = [''id: 2'' @ nl @ ''z'' @ nl @ nl]" by code_simp
  then show ?thesis using events_replayable [OF plain_codec_ok demo_fresh demo_pushes_ok, of 1 "''a''"] by simp
qed

text \<open>A text that brings its own \<open>id:\<close> line is not numbered, and one that is no number fails every replay that meets it.\<close>

lemma own_id_breaks_replay: "\<exists>x. keyed_frames (fs @ sse_frame seq ''id:x'' # gs) = Inl x"
proof (induction fs)
  case Nil
  have "sse_frame seq ''id:x'' = ''id:x'' @ nl" by (simp add: sse_frame_def startswith_def endswith_def)
  moreover have "frame_id (''id:x'' @ nl) = Inl (ValueError ''invalid literal for int() with base 10'')" by code_simp
  ultimately show ?case by simp
qed (auto split: sum.splits)

section \<open>Live streams\<close>

text \<open>The pushes of a schedule, and a stream that is open: all it was given is written or queued.\<close>

fun pushed :: "live_event list \<Rightarrow> push list" where
  "pushed [] = []"
| "pushed (Pushed p # evs) = p # pushed evs"
| "pushed (_ # evs) = pushed evs"

definition serving ::
  "'j codec \<Rightarrow> nat \<Rightarrow> string \<Rightarrow> string \<Rightarrow> string set \<Rightarrow> (string \<Rightarrow> int) \<Rightarrow> mcp_session_event list \<Rightarrow> ('w, 'j) streamable \<Rightarrow> bool" where
  "serving c l i ver D cnt es s \<longleftrightarrow>
     running c l cnt es s \<and> fst ` set (sm_objects s) = D \<and> i \<in> D \<and> i \<in> set (sm_registered s) \<and> sm_version s = ver"

lemma serving_object: "serving c l i ver D cnt es s \<Longrightarrow> j \<in> D \<Longrightarrow> \<exists>o1. dget (sm_objects s) j = Some o1"
  by (cases "dget (sm_objects s) j") (auto simp: serving_def dget_None_iff)

lemma known_key: "dget d i = Some v \<Longrightarrow> i \<in> fst ` set d"
  by (auto dest!: dget_Some_in intro: rev_image_eqI)

lemma keys_dset_known: "dget d i = Some v \<Longrightarrow> fst ` set (dset i w d) = fst ` set d"
  using known_key [of d i v] by auto

lemma serving_set_queue:
  assumes "serving c l i ver D cnt es s"
  shows "serving c l i ver D cnt es (set_queue i q s)" and "queued i (set_queue i q s) = q"
proof -
  obtain o1 where "dget (sm_objects s) i = Some o1" using serving_object [OF assms, of i] assms by (auto simp: serving_def)
  then show "serving c l i ver D cnt es (set_queue i q s)" "queued i (set_queue i q s) = q"
    using assms by (auto simp: serving_def set_queue_def running_def dget_dset queued_def keys_dset_known split: if_splits)
qed

lemma serving_end_session:
  assumes "serving c l i ver D cnt es s" and "j \<noteq> i"
  shows "serving c l i ver D cnt es (end_session j s)" and "queued i (end_session j s) = queued i s"
proof -
  have "serving c l i ver D cnt es (end_session j s) \<and> queued i (end_session j s) = queued i s"
  proof (cases "session_of (Some j) s")
    case (Some o1)
    then have "dget (sm_objects s) j = Some o1" by (auto simp: session_of_def split: if_splits)
    then show ?thesis using assms Some known_key [of "sm_objects s" j o1]
      by (auto simp: serving_def end_session_def running_def dget_dset queued_def hs_close_def split: if_splits)
  qed (use assms in \<open>simp add: end_session_def\<close>)
  then show "serving c l i ver D cnt es (end_session j s)" "queued i (end_session j s) = queued i s" by blast+
qed

lemma serving_push:
  assumes "serving c l i ver D cnt es s" and "j \<in> D" and "uid \<notin> be_id ` set es"
  shows "serving c l i ver D (counted cnt [(j, uid, now, data)]) (es @ run_events cnt [(j, uid, now, data)]) (snd (sm_push c uid now j data s))"
    and "queued i (snd (sm_push c uid now j data s)) = queued i s @ map Some (numbered (cnt i) (texts_of i [(j, uid, now, data)]))"
proof -
  obtain o1 where o1: "dget (sm_objects s) j = Some o1" using serving_object [OF assms(1,2)] by blast
  have run: "running c l cnt es s" using assms(1) by (simp add: serving_def)
  note push = push_running [OF run o1 assms(3), of now data]
  have cnt: "counted cnt [(j, uid, now, data)] = cnt(j := cnt j + 1)" by (auto simp: counted_def)
  show "serving c l i ver D (counted cnt [(j, uid, now, data)]) (es @ run_events cnt [(j, uid, now, data)]) (snd (sm_push c uid now j data s))"
    using assms(1) push known_key [OF o1] unfolding cnt serving_def by (simp add: insert_absorb)
  show "queued i (snd (sm_push c uid now j data s)) = queued i s @ map Some (numbered (cnt i) (texts_of i [(j, uid, now, data)]))"
    using o1 by (simp add: queued_def push(2) dget_dset)
qed

lemma serving_pushes:
  assumes "serving c l i ver D cnt es s" and "distinct (map be_id es @ map (\<lambda>(_, uid, _). uid) ops)" and "fst ` set ops \<subseteq> D"
  shows "serving c l i ver D (counted cnt ops) (es @ run_events cnt ops) (push_run c ops s) \<and>
    queued i (push_run c ops s) = queued i s @ map Some (numbered (cnt i) (texts_of i ops))"
  using assms push_run_running [of c l cnt es s ops] by (simp add: serving_def)

lemma live_ended: "live_run c i evs (fs, Some e, s) = (fs1, e1, s1) \<Longrightarrow> e1 = Some e"
proof (induction evs arbitrary: fs s)
  case (Cons ev evs)
  show ?case
  proof (cases ev)
    case (Pushed p)
    then show ?thesis using Cons by (cases p) (auto simp: live_run_def)
  qed (use Cons in \<open>auto simp: live_run_def\<close>)
qed (simp add: live_run_def)

text \<open>One event of an open stream loses nothing and repeats nothing; and where the stream ends, the queue is dropped.\<close>

lemma live_step_open:
  assumes "serving c l i ver D cnt es s" and "queued i s = map Some qs" and "ev \<noteq> SessionEnded i"
    and "\<forall>(j, uid, _) \<in> set (pushed [ev]). j \<in> D \<and> uid \<notin> be_id ` set es"
    and "live_step c i ev (fs, None, s) = (fs1, None, s1)"
  shows "serving c l i ver D (counted cnt (pushed [ev])) (es @ run_events cnt (pushed [ev])) s1 \<and>
    (\<exists>qs1. queued i s1 = map Some qs1 \<and> fs1 @ qs1 = fs @ qs @ numbered (cnt i) (texts_of i (pushed [ev])) \<and>
       min (length fs + length qs) (length fs + (if ev = Delivered then 1 else 0)) \<le> length fs1)"
proof (cases ev)
  case (Pushed p)
  obtain j uid now data where p: "p = (j, uid, now, data)" by (cases p)
  then have "j \<in> D" "uid \<notin> be_id ` set es" using assms(4) Pushed by auto
  note push = serving_push [OF assms(1) this, of now data]
  have "fs1 = fs" "s1 = snd (sm_push c uid now j data s)" using assms(5) Pushed p by simp_all
  then show ?thesis using push assms(2) Pushed p by (auto simp: exI [of _ "qs @ x" for x])
next
  case (SessionEnded j)
  have none: "counted cnt [] = cnt" by (simp add: counted_def fun_eq_iff)
  have "fs1 = fs" "s1 = end_session j s" using assms(5) SessionEnded by simp_all
  then show ?thesis using serving_end_session [OF assms(1), of j] assms(2,3) SessionEnded none by simp
next
  case Delivered
  have none: "counted cnt [] = cnt" by (simp add: counted_def fun_eq_iff)
  show ?thesis
  proof (cases qs)
    case (Cons f q)
    then have "fs1 = fs @ [f]" "s1 = set_queue i (map Some q) s" using assms(2,5) Delivered by simp_all
    then show ?thesis using serving_set_queue [OF assms(1), of "map Some q"] Cons Delivered none by simp
  qed (use assms Delivered none in simp)
next
  case WriteFails
  have none: "counted cnt [] = cnt" by (simp add: counted_def fun_eq_iff)
  show ?thesis using assms WriteFails none by (cases qs) simp_all
next
  case TimesOut
  have none: "counted cnt [] = cnt" by (simp add: counted_def fun_eq_iff)
  show ?thesis using assms TimesOut none by (cases qs) simp_all
qed

lemma live_step_ends:
  assumes "serving c l i ver D cnt es s" and "queued i s = map Some qs" and "live_step c i ev (fs, None, s) = (fs1, Some e, s1)"
  shows "fs1 = fs \<and> serving c l i ver D cnt es s1 \<and> queued i s1 = []"
proof -
  have "\<exists>q. fs1 = fs \<and> s1 = leave_stream i q s"
  proof (cases ev)
    case (Pushed p)
    then show ?thesis using assms(3) by (cases p) simp
  qed (use assms(2,3) in \<open>auto split: list.splits if_splits\<close>)
  moreover have "i \<in> set (sm_registered s)" using assms(1) by (simp add: serving_def)
  ultimately show ?thesis using serving_set_queue [OF assms(1)] by (auto simp: leave_stream_def)
qed

lemma live_run_open:
  assumes "serving c l i ver D cnt es s" and "queued i s = map Some qs" and "SessionEnded i \<notin> set evs"
    and "distinct (map be_id es @ map (\<lambda>(_, uid, _). uid) (pushed evs))" and "fst ` set (pushed evs) \<subseteq> D"
    and "live_run c i evs (fs, None, s) = (fs1, None, s1)"
  shows "serving c l i ver D (counted cnt (pushed evs)) (es @ run_events cnt (pushed evs)) s1 \<and>
    (\<exists>qs1. queued i s1 = map Some qs1 \<and> fs1 @ qs1 = fs @ qs @ numbered (cnt i) (texts_of i (pushed evs)) \<and>
       min (length fs + length qs) (length fs + count_list evs Delivered) \<le> length fs1)"
  using assms
proof (induction evs arbitrary: cnt es s fs qs)
  case Nil
  have "counted cnt [] = cnt" by (simp add: counted_def fun_eq_iff)
  with Nil show ?case by (simp add: live_run_def)
next
  case (Cons ev evs)
  obtain fs2 e2 s2 where st: "live_step c i ev (fs, None, s) = (fs2, e2, s2)" by (cases "live_step c i ev (fs, None, s)")
  have run: "live_run c i evs (fs2, e2, s2) = (fs1, None, s1)" using Cons.prems(6) st by (simp add: live_run_def)
  have e2: "e2 = None"
  proof (cases e2)
    case (Some e)
    then show ?thesis using live_ended [of c i evs fs2 e s2 fs1 None s1] run by simp
  qed
  have app: "pushed (ev # evs) = pushed [ev] @ pushed evs" by (cases ev) simp_all
  have ok: "\<forall>(j, uid, _) \<in> set (pushed [ev]). j \<in> D \<and> uid \<notin> be_id ` set es" using Cons.prems(4,5) by (cases ev) auto
  note opened = live_step_open [OF Cons.prems(1,2) _ ok st [unfolded e2]]
  have step: "serving c l i ver D (counted cnt (pushed [ev])) (es @ run_events cnt (pushed [ev])) s2"
    and "\<exists>qs1. queued i s2 = map Some qs1 \<and> fs2 @ qs1 = fs @ qs @ numbered (cnt i) (texts_of i (pushed [ev])) \<and>
       min (length fs + length qs) (length fs + (if ev = Delivered then 1 else 0)) \<le> length fs2"
    using opened Cons.prems(3) by auto
  then obtain qs2 where q2: "queued i s2 = map Some qs2" "fs2 @ qs2 = fs @ qs @ numbered (cnt i) (texts_of i (pushed [ev]))"
    "min (length fs + length qs) (length fs + (if ev = Delivered then 1 else 0)) \<le> length fs2" by blast
  have dist: "distinct (map be_id (es @ run_events cnt (pushed [ev])) @ map (\<lambda>(_, uid, _). uid) (pushed evs))"
    using Cons.prems(4) unfolding app by (simp add: run_events_ids)
  have "SessionEnded i \<notin> set evs" "fst ` set (pushed evs) \<subseteq> D" using Cons.prems(3,5) unfolding app by auto
  note IH = Cons.IH [OF step q2(1) this(1) dist this(2) run [unfolded e2]]
  have cnt: "counted (counted cnt (pushed [ev])) (pushed evs) = counted cnt (pushed (ev # evs))" unfolding app by (auto simp: counted_def fun_eq_iff)
  have es: "(es @ run_events cnt (pushed [ev])) @ run_events (counted cnt (pushed [ev])) (pushed evs) = es @ run_events cnt (pushed (ev # evs))"
    unfolding app by (simp add: run_events_append)
  have num: "numbered (cnt i) (texts_of i (pushed [ev])) @ numbered (counted cnt (pushed [ev]) i) (texts_of i (pushed evs)) = numbered (cnt i) (texts_of i (pushed (ev # evs)))"
    unfolding app by (simp add: numbered_append counted_def)
  have serving: "serving c l i ver D (counted cnt (pushed (ev # evs))) (es @ run_events cnt (pushed (ev # evs))) s1" using IH unfolding cnt es by blast
  obtain qs1 where q1: "queued i s1 = map Some qs1" "fs1 @ qs1 = fs2 @ qs2 @ numbered (counted cnt (pushed [ev]) i) (texts_of i (pushed evs))"
    "min (length fs2 + length qs2) (length fs2 + count_list evs Delivered) \<le> length fs1" using IH by blast
  have "fs1 @ qs1 = (fs2 @ qs2) @ numbered (counted cnt (pushed [ev]) i) (texts_of i (pushed evs))" using q1(2) by simp
  also have "\<dots> = fs @ qs @ numbered (cnt i) (texts_of i (pushed (ev # evs)))" unfolding q2(2) num [symmetric] by (simp only: append.assoc)
  finally have "fs1 @ qs1 = fs @ qs @ numbered (cnt i) (texts_of i (pushed (ev # evs)))" .
  moreover have "length fs2 + length qs2 \<ge> length fs + length qs" using arg_cong [OF q2(2), of length] by simp
  then have "min (length fs + length qs) (length fs + count_list (ev # evs) Delivered) \<le> length fs1" using q1(3) q2(3) by (auto split: if_splits)
  ultimately show ?case using serving q1(1) by blast
qed

text \<open>
  C38: A resumed stream repeats itself. Whatever happened on the first event stream of a session, when
  it has ended, by a write that failed or by a time-out, and more events are pushed before the client
  resumes after number \<open>k\<close> that it has seen, the backlog has all frames after \<open>k\<close>, those pushed since the
  stream ended among them, and the new live stream delivers these once more before anything else, as
  soon as its handler has written as many frames. Two streams of one session do not overlap, no
  pushed text starts with \<open>id:\<close>, and the session does not end.\<close>

theorem resumed_stream_repeats:
  assumes "codec_ok c" and "fresh_server c s" and "i \<in> set (sm_registered s)" and "i \<noteq> []"
    and "pushes_ok (pushed first @ between @ pushed resumed) s" and "SessionEnded i \<notin> set first" and "SessionEnded i \<notin> set resumed"
    and "live_run c i first ([], None, s) = (seen, None, s0)" and "live_step c i ev (seen, None, s0) = (seen1, Some e, s1)"
    and "0 < k" and "k \<le> length (texts_of i (pushed first))"
    and "get_events_open dumps c [(''Mcp-Session-Id'', i), (''Last-Event-ID'', nat_str k)] (push_run c between s1) = (r, s2)"
    and "live_run c i resumed ([], None, s2) = (again, None, s3)" and "length (texts_of i between) \<le> count_list resumed Delivered"
  shows "let given = numbered 0 (texts_of i (pushed first));
             missed = numbered (int (length given)) (texts_of i between)
         in seen = take (length seen) given \<and>
            (\<exists>resp. r = Inr (resp, drop k given @ missed, Some i) \<and> rs_status resp = 200) \<and>
            take (length missed) again = missed"
proof -
  let ?D = "set (sm_registered s)" and ?zero = "\<lambda>_. 0 :: int"
  let ?cnt = "counted ?zero (pushed first)" and ?es = "run_events ?zero (pushed first)" and ?ver = "sm_version s"
  let ?given = "numbered 0 (texts_of i (pushed first))"
  let ?missed = "numbered (int (length ?given)) (texts_of i between)"
  obtain l where l: "running c l ?zero [] s" and q: "queued i s = map Some []" and reg: "fst ` set (sm_objects s) = ?D"
    using assms(2) by (auto simp: fresh_server_def)
  have start: "serving c l i ?ver ?D ?zero [] s" using l reg assms(3) by (simp add: serving_def)
  have uids: "distinct (map (\<lambda>(_, uid, _). uid) (pushed first @ between @ pushed resumed))"
    and known: "fst ` set (pushed first) \<subseteq> ?D" "fst ` set between \<subseteq> ?D" "fst ` set (pushed resumed) \<subseteq> ?D"
    and plain: "\<forall>(i, uid, now, data) \<in> set (pushed first @ between). \<not> startswith ''id:'' data"
    using assms(5) unfolding pushes_ok_def by (simp_all add: ball_Un image_Un del: map_append)
  have "distinct (map be_id [] @ map (\<lambda>(_, uid, _). uid) (pushed first))" using uids by simp
  note one = live_run_open [OF start q assms(6) this known(1) assms(8)]
  then have s0: "serving c l i ?ver ?D ?cnt ?es s0" by simp
  obtain qs0 where q0: "queued i s0 = map Some qs0" "seen @ qs0 = ?given" using one by auto
  have s1: "serving c l i ?ver ?D ?cnt ?es s1" "queued i s1 = []" using live_step_ends [OF s0 q0(1) assms(9)] by blast+
  let ?s = "push_run c between s1" and ?cnt1 = "counted ?cnt between" and ?es1 = "?es @ run_events ?cnt between"
  have cnt: "?cnt i = int (length ?given)" by (simp add: counted_def)
  have "distinct (map be_id ?es @ map (\<lambda>(_, uid, _). uid) between)" using uids by (simp add: run_events_ids Int_Un_distrib del: set_map)
  from serving_pushes [OF s1(1) this known(2)]
  have s: "serving c l i ?ver ?D ?cnt1 ?es1 ?s" "queued i ?s = map Some ?missed" using s1(2) by (simp_all add: cnt)
  obtain p where p: "sm_persistence ?s = Some p" "\<not> pe_shut p" "tb_entities (pe_tables p) = event_rows c ?es1" and loop: "sm_loop ?s = Some l"
    using s(1) by (auto simp: serving_def running_def)
  have uids2: "distinct (map (\<lambda>(_, uid, _). uid) (pushed first @ between))" using uids by (simp add: Int_Un_distrib del: set_map)
  have all: "?es1 = run_events ?zero (pushed first @ between)" by (simp add: run_events_append)
  have "replay_since c (int k) i (Some p) = (Inr (drop (nat (int k)) (numbered 0 (texts_of i (pushed first @ between)))), Some (p\<lparr>pe_conn := True\<rparr>))"
    by (rule replay_pushed [OF assms(1) p(2) p(3) [unfolded all] uids2 plain])
  then have replay: "replay_since c (int k) i (Some p) = (Inr (drop k ?given @ ?missed), Some (p\<lparr>pe_conn := True\<rparr>))"
    using assms(11) by (simp add: numbered_append)
  let ?hdrs = "[(''Mcp-Session-Id'', i), (''Last-Event-ID'', nat_str k)]"
  let ?s2 = "?s\<lparr>sm_persistence := Some (p\<lparr>pe_conn := True\<rparr>)\<rparr>"
  obtain o1 where o1: "dget (sm_objects ?s) i = Some o1" using serving_object [OF s(1)] assms(3) by blast
  then have o1_id: "hs_session_id o1 = i" using s(1) by (simp add: serving_def running_def)
  have sess: "session_of (Some i) ?s = Some o1" using o1 s(1) assms(4) by (simp add: session_of_def serving_def)
  have last_id: "last_event_id ?hdrs = int k" using last_event_id_number [of "[(''Mcp-Session-Id'', i)]" k] by simp
  have ver: "check_protocol_version dumps (sm_version ?s) ?hdrs = None" by (simp add: check_protocol_version_def)
  have resp: "\<exists>resp. (r, s2) = (Inr (resp, drop k ?given @ ?missed, Some i), ?s2) \<and> rs_status resp = 200"
    using assms(10) unfolding assms(12) [symmetric] by (simp add: get_events_open_def ver sess last_id replay p(1) loop o1_id Let_def)
  then have s2: "s2 = ?s2" by blast
  have serving2: "serving c l i ?ver ?D ?cnt1 ?es1 s2" "queued i s2 = map Some ?missed" using s p unfolding s2 by (auto simp: serving_def running_def queued_def)
  have "distinct (map be_id ?es1 @ map (\<lambda>(_, uid, _). uid) (pushed resumed))" using uids unfolding all by (simp add: run_events_ids del: set_map)
  from live_run_open [OF serving2 assms(7) this known(3) assms(13)]
  obtain qs3 rest where q3: "again @ qs3 = ?missed @ rest" "min (length ?missed) (count_list resumed Delivered) \<le> length again" by auto
  have "take (length ?missed) again = ?missed" using arg_cong [OF q3(1), of "take (length ?missed)"] q3(2) assms(14) by simp
  moreover have "seen = take (length seen) ?given" using q0(2) by (metis append_eq_conv_conj)
  ultimately show ?thesis using resp unfolding Let_def by blast
qed

text \<open>A client reads the first of two events and goes away, which the handler finds out when it writes the second.\<close>

definition demo_first :: "live_event list" where
  "demo_first = [Pushed (''a'', ''u1'', [], ''x''), Delivered, Pushed (''a'', ''u2'', [], ''y'')]"

definition demo_seen :: "(unit, stored) live" where
  "demo_seen = live_run plain_codec ''a'' demo_first ([], None, demo_streamable)"

definition demo_broken :: "(unit, stored) live" where
  "demo_broken = live_step plain_codec ''a'' WriteFails demo_seen"

definition demo_between :: "push list" where
  "demo_between = [(''a'', ''u3'', [], ''z'')]"

definition demo_reopened :: "(http_response \<times> string list \<times> string option, (unit, stored) streamable) res" where
  "demo_reopened = get_events_open demo_dumps plain_codec [(''Mcp-Session-Id'', ''a''), (''Last-Event-ID'', nat_str 1)]
     (push_run plain_codec demo_between (snd (snd demo_broken)))"

definition demo_again :: "(unit, stored) live" where
  "demo_again = live_run plain_codec ''a'' [Delivered] ([], None, snd demo_reopened)"

lemma demo_streams: "demo_seen = (fst demo_seen, None, snd (snd demo_seen))" "demo_broken = (fst demo_broken, Some Broken, snd (snd demo_broken))"
  "demo_again = (fst demo_again, None, snd (snd demo_again))"
proof -
  have "fst (snd demo_seen) = None" "fst (snd demo_broken) = Some Broken" "fst (snd demo_again) = None" by code_simp+
  then show "demo_seen = (fst demo_seen, None, snd (snd demo_seen))" "demo_broken = (fst demo_broken, Some Broken, snd (snd demo_broken))"
    "demo_again = (fst demo_again, None, snd (snd demo_again))" by (simp_all add: prod_eq_iff)
qed

theorem resumed_stream_repeats_witness:
  "let given = numbered 0 [''x'', ''y'']; missed = numbered 2 [''z'']
   in fst demo_seen = take (length (fst demo_seen)) given \<and>
      (\<exists>resp. fst demo_reopened = Inr (resp, drop 1 given @ missed, Some ''a'') \<and> rs_status resp = 200) \<and>
      take (length missed) (fst demo_again) = missed"
proof -
  have ok: "pushes_ok (pushed demo_first @ demo_between @ pushed [Delivered]) demo_streamable"
    by (simp add: pushes_ok_def demo_streamable_eq startswith_def demo_first_def demo_between_def)
  have runs: "live_run plain_codec ''a'' demo_first ([], None, demo_streamable) = (fst demo_seen, None, snd (snd demo_seen))"
    "live_step plain_codec ''a'' WriteFails (fst demo_seen, None, snd (snd demo_seen)) = (fst demo_broken, Some Broken, snd (snd demo_broken))"
    "live_run plain_codec ''a'' [Delivered] ([], None, snd demo_reopened) = (fst demo_again, None, snd (snd demo_again))"
    using demo_streams unfolding demo_seen_def [symmetric] demo_again_def [symmetric] demo_broken_def [symmetric] by (metis demo_broken_def)+
  have reopened: "get_events_open demo_dumps plain_codec [(''Mcp-Session-Id'', ''a''), (''Last-Event-ID'', nat_str 1)]
     (push_run plain_codec demo_between (snd (snd demo_broken))) = (fst demo_reopened, snd demo_reopened)" by (simp add: demo_reopened_def)
  have texts: "texts_of ''a'' (pushed demo_first) = [''x'', ''y'']" "texts_of ''a'' demo_between = [''z'']" by (simp_all add: demo_first_def demo_between_def)
  show ?thesis
    using resumed_stream_repeats [OF plain_codec_ok demo_fresh _ _ ok _ _ runs(1,2) _ _ reopened runs(3)]
    by (simp add: texts demo_streamable_eq demo_first_def [THEN arg_cong [where f = set]] Let_def)
qed

section \<open>What eviction removes\<close>

definition expired :: "(string \<Rightarrow> datetime option) \<Rightarrow> datetime \<Rightarrow> mcp_session_event \<Rightarrow> bool" where
  "expired fromiso cutoff e \<longleftrightarrow> (case fromiso (be_created_at e) of None \<Rightarrow> False | Some t \<Rightarrow> t < cutoff)"

lemma evict_rows_spec:
  assumes "\<not> pe_shut p"
  shows "\<not> pe_shut (evict_rows fromiso cutoff (map McpSessionEvent L) p) \<and>
    tb_entities (pe_tables (evict_rows fromiso cutoff (map McpSessionEvent L) p)) =
    filter (\<lambda>(i, _). \<not> (\<exists>e \<in> set L. be_id e = i \<and> expired fromiso cutoff e)) (tb_entities (pe_tables p))"
  using assms
proof (induction L arbitrary: p)
  case (Cons e L)
  show ?case
  proof (cases "expired fromiso cutoff e")
    case True
    then obtain t where t: "fromiso (be_created_at e) = Some t" "t < cutoff" by (auto simp: expired_def split: option.splits)
    let ?p = "snd (pe_delete (be_id e) p)"
    have p: "\<not> pe_shut ?p" "tb_entities (pe_tables ?p) = ddel (be_id e) (tb_entities (pe_tables p))" using Cons.prems by (simp_all add: pe_delete_def on_thread_def)
    have "filter (\<lambda>(i, _). \<not> (\<exists>e \<in> set L. be_id e = i \<and> expired fromiso cutoff e)) (ddel (be_id e) (tb_entities (pe_tables p)))
        = filter (\<lambda>(i, _). \<not> (\<exists>e' \<in> set (e # L). be_id e' = i \<and> expired fromiso cutoff e')) (tb_entities (pe_tables p))"
      using True by (auto simp: AList.delete_eq intro!: filter_cong)
    then show ?thesis using Cons.IH [OF p(1)] p(2) t by simp
  next
    case False
    then have "evict_rows fromiso cutoff (map McpSessionEvent (e # L)) p = evict_rows fromiso cutoff (map McpSessionEvent L) p"
      by (auto simp: expired_def split: option.splits)
    then show ?thesis using Cons.IH [OF Cons.prems] False by (auto intro!: filter_cong)
  qed
qed (auto intro: filter_True [symmetric])

lemma evict_session_spec:
  assumes "codec_ok c" and "distinct (map be_id es)" and "\<not> pe_shut p" and "tb_entities (pe_tables p) = event_rows c es"
  shows "\<not> pe_shut (evict_session fromiso cutoff c i p) \<and>
    tb_entities (pe_tables (evict_session fromiso cutoff c i p)) =
    event_rows c (filter (\<lambda>e. \<not> (be_workspace_id e = session_ws i \<and> expired fromiso cutoff e)) es)"
proof -
  let ?L = "sort_key be_id (filter (\<lambda>e. be_workspace_id e = session_ws i) es)"
  let ?p = "p\<lparr>pe_conn := True\<rparr>"
  have ev: "evict_session fromiso cutoff c i p = evict_rows fromiso cutoff (map McpSessionEvent ?L) ?p"
    unfolding evict_session_def listed_events [OF assms] by simp
  have same: "e = e'" if "e \<in> set es" "e' \<in> set es" "be_id e = be_id e'" for e e'
    using assms(2) that by (auto simp: distinct_map dest: inj_onD)
  have "filter (\<lambda>(i', _). \<not> (\<exists>e \<in> set ?L. be_id e = i' \<and> expired fromiso cutoff e)) (event_rows c es)
      = event_rows c (filter (\<lambda>e'. \<not> (\<exists>e \<in> set ?L. be_id e = be_id e' \<and> expired fromiso cutoff e)) es)"
    by (simp add: event_rows_def filter_map comp_def)
  also have "filter (\<lambda>e'. \<not> (\<exists>e \<in> set ?L. be_id e = be_id e' \<and> expired fromiso cutoff e)) es
      = filter (\<lambda>e. \<not> (be_workspace_id e = session_ws i \<and> expired fromiso cutoff e)) es"
    using same by (intro filter_cong) auto
  finally show ?thesis using evict_rows_spec [of ?p fromiso cutoff ?L] assms(3,4) unfolding ev by simp
qed

text \<open>
  Eviction removes what is too old and nothing else. On a store of session events, it drops the
  events of the registered sessions whose time is a valid one before the cut-off, and keeps the younger
  ones, those with an unreadable time and those of sessions that are no longer registered.\<close>

theorem eviction_exact:
  assumes "codec_ok c" and "running c l cnt es s" and "distinct (map be_id es)" and "0 < sm_ttl s"
  shows "running c l cnt
    (filter (\<lambda>e. \<not> ((\<exists>i \<in> set (sm_registered s). be_workspace_id e = session_ws i) \<and> expired fromiso (now - 1000000 * sm_ttl s) e)) es)
    (evict_expired fromiso now c s)"
proof -
  let ?old = "expired fromiso (now - 1000000 * sm_ttl s)"
  let ?ev = "evict_session fromiso (now - 1000000 * sm_ttl s) c"
  obtain p where p: "sm_persistence s = Some p" "\<not> pe_shut p" "tb_entities (pe_tables p) = event_rows c es" using assms(2) by (auto simp: running_def)
  have "\<not> pe_shut (fold ?ev js p) \<and> tb_entities (pe_tables (fold ?ev js p)) = event_rows c (filter (\<lambda>e. \<not> ((\<exists>i \<in> set js. be_workspace_id e = session_ws i) \<and> ?old e)) es)" for js
    using p(2,3) assms(3)
  proof (induction js arbitrary: p es)
    case (Cons i ids)
    note ev = evict_session_spec [OF assms(1) Cons.prems(3,1,2), of fromiso "now - 1000000 * sm_ttl s" i]
    have dist: "distinct (map be_id (filter (\<lambda>e. \<not> (be_workspace_id e = session_ws i \<and> ?old e)) es))" using Cons.prems(3) by (simp add: distinct_map_filter)
    have "filter (\<lambda>e. \<not> ((\<exists>i \<in> set ids. be_workspace_id e = session_ws i) \<and> ?old e)) (filter (\<lambda>e. \<not> (be_workspace_id e = session_ws i \<and> ?old e)) es)
        = filter (\<lambda>e. \<not> ((\<exists>j \<in> set (i # ids). be_workspace_id e = session_ws j) \<and> ?old e)) es" by (auto intro!: filter_cong)
    then show ?case using Cons.IH [OF ev [THEN conjunct1] ev [THEN conjunct2] dist] by simp
  qed simp
  from this [of "sm_registered s"] show ?thesis using assms(2,4) p(1) by (auto simp: evict_expired_def running_def)
qed

theorem eviction_exact_witness:
  "running plain_codec 0 (counted (\<lambda>_. 0) demo_pushes) [] (evict_expired (\<lambda>_. Some 0) 100000000 plain_codec (push_run plain_codec demo_pushes demo_streamable))"
proof -
  let ?s = "push_run plain_codec demo_pushes demo_streamable"
  have start: "running plain_codec 0 (\<lambda>_. 0) [] demo_streamable" "distinct (map be_id [] @ map (\<lambda>(_, uid, _). uid) demo_pushes)"
    "fst ` set demo_pushes \<subseteq> fst ` set (sm_objects demo_streamable)"
    by (simp_all add: running_def demo_streamable_eq new_persistence_def empty_tables_def event_rows_def demo_pushes_def)
  have run: "running plain_codec 0 (counted (\<lambda>_. 0) demo_pushes) (run_events (\<lambda>_. 0) demo_pushes) ?s" and reg: "sm_registered ?s = [''a'', ''b'']"
    using push_run_running [OF start] by (simp_all add: demo_streamable_eq)
  have ttl: "sm_ttl ?s = 60" by (simp add: push_run_def demo_pushes_def sm_push_def push_event_def demo_streamable_eq Let_def split: prod.splits)
  have dist: "distinct (map be_id (run_events (\<lambda>_. 0) demo_pushes))" by (simp add: run_events_ids demo_pushes_def)
  have "\<forall>e \<in> set (run_events (\<lambda>_. 0) demo_pushes). be_workspace_id e = session_ws ''a'' \<or> be_workspace_id e = session_ws ''b''" by (simp add: demo_pushes_def)
  then show ?thesis using eviction_exact [OF plain_codec_ok run dist, of "\<lambda>_. Some 0" 100000000] by (simp add: ttl reg expired_def filter_empty_conv [THEN iffD2] cong: filter_cong)
qed

end
