(* ===== verification/Mcp_Client.thy ===== *)
theory Mcp_Client
  imports Mcp_Server
begin

text \<open>
  The MCP client over stdio: \<open>mcp/client.py\<close>.

  \<^item> Futures are numbered in the order they are made; a request makes one, so future \<open>k\<close> belongs to the
    request with id \<open>k + 1\<close>. A waiting call is two steps, sending and going on with the result.
  \<^item> The read loop is a step for each line it reads and one for the end of the stream. \<open>loads\<close> is
    \<open>json.loads\<close> on the bytes of a line that is not blank.
  \<^item> The process is a parameter: its id and what ends it. Writing to it and draining do not fail here.
\<close>

section \<open>Tools\<close>

definition tool_error :: exn where
  "tool_error = std_exn [''ValidationError'', ''ValueError''] ''Tool''"

text \<open>
  \<open>to_kernel_tool\<close>: on a value that is no dictionary the subscript raises a \<open>TypeError\<close>, and the
  handler for it reads \<open>raw.get\<close>, which raises again. \<open>pystr\<close> is \<open>str\<close>, used by the f-string.\<close>

definition to_kernel_tool :: "(pyval \<Rightarrow> string) \<Rightarrow> string \<Rightarrow> string \<Rightarrow> pyval \<Rightarrow> exn + schema_tool option" where
  "to_kernel_tool pystr uid namespace raw =
     (case raw of
        PDict d \<Rightarrow>
          (case dget d ''name'' of
             None \<Rightarrow> Inr None
           | Some name \<Rightarrow>
               (let first_true = (\<lambda>a b. case a of Some v \<Rightarrow> if truthy v then v else b | None \<Rightarrow> b);
                    schema = first_true (dget d ''inputSchema'') (first_true (dget d ''input_schema'') (PDict []))
                in (case (name, schema) of
                      (PStr n, PDict sc) \<Rightarrow>
                        Inr (Some \<lparr>t_id = uid, t_name = n, t_capability = namespace @ ''.'' @ pystr name, st_input_schema = sc, st_metadata = []\<rparr>)
                    | _ \<Rightarrow> Inl tool_error)))
      | _ \<Rightarrow> Inl (AttributeError ''get''))"

section \<open>The client\<close>

definition MCPClientError :: "string \<Rightarrow> exn" where
  "MCPClientError m = std_exn [''MCPClientError'', ''RuntimeError''] m"

type_synonym settlement = "(exn + pydict) option"

record mcp_client =
  cl_connected :: bool
  cl_shutdown :: bool
  cl_writer :: bool
  cl_reading :: bool
  cl_req_id :: int
  cl_pending :: "(int, nat) dict"
  cl_futures :: "settlement list"
  cl_written :: "pydict list"
  cl_events :: "(string \<times> pydict) list"
  cl_server_info :: pyval
  cl_capabilities :: pyval
  cl_namespace :: string
  cl_tools :: "(string, schema_tool) dict"

definition new_client :: "string \<Rightarrow> (string, schema_tool) dict \<Rightarrow> mcp_client" where
  "new_client namespace tools =
     \<lparr>cl_connected = False, cl_shutdown = False, cl_writer = False, cl_reading = False, cl_req_id = 0, cl_pending = [], cl_futures = [], cl_written = [],
      cl_events = [], cl_server_info = PNone, cl_capabilities = PNone, cl_namespace = namespace, cl_tools = tools\<rparr>"

definition cl_emit :: "string \<Rightarrow> pydict \<Rightarrow> mcp_client \<Rightarrow> mcp_client" where
  "cl_emit event_type payload c = c\<lparr>cl_events := cl_events c @ [(event_type, payload)]\<rparr>"

definition emit_error :: "string \<Rightarrow> mcp_client \<Rightarrow> mcp_client" where
  "emit_error error c = cl_emit ''mcp.client.error'' [(''error'', PStr error)] (c\<lparr>cl_connected := False\<rparr>)"

definition client_connect :: "int \<Rightarrow> mcp_client \<Rightarrow> (unit, mcp_client) res" where
  "client_connect pid c =
     (if cl_connected c then (Inl (MCPClientError ''already connected''), c)
      else (Inr (), cl_emit ''mcp.client.connected'' [(''pid'', PInt pid)] (c\<lparr>cl_writer := True, cl_connected := True, cl_shutdown := False, cl_reading := True\<rparr>)))"

text \<open>The key a response is looked up under: Python takes \<open>1\<close>, \<open>1.0\<close> and \<open>True\<close> for the same key.\<close>

fun response_key :: "pyval \<Rightarrow> exn + int option" where
  "response_key (PInt i) = Inr (Some i)"
| "response_key (PBool b) = Inr (Some (if b then 1 else 0))"
| "response_key (PFloat q) = Inr (if of_int \<lfloor>q\<rfloor> = q then Some \<lfloor>q\<rfloor> else None)"
| "response_key (PStr _) = Inr None"
| "response_key PNone = Inr None"
| "response_key _ = Inl (TypeError ''unhashable type'')"

definition fut_settle :: "nat \<Rightarrow> exn + pydict \<Rightarrow> mcp_client \<Rightarrow> mcp_client" where
  "fut_settle k r c = (if cl_futures c ! k = None then c\<lparr>cl_futures := (cl_futures c)[k := Some r]\<rparr> else c)"

text \<open>What the loop does with a message, or the exception that ends it.\<close>

definition on_message :: "(pyval \<Rightarrow> string) \<Rightarrow> pyval \<Rightarrow> mcp_client \<Rightarrow> (unit, mcp_client) res" where
  "on_message pystr msg c =
     (case msg of
        PDict m \<Rightarrow>
          (let rid = dget_or m ''id'' PNone
           in if rid = PNone then (Inr (), c)
              else (case response_key rid of
                      Inl x \<Rightarrow> (Inl x, c)
                    | Inr None \<Rightarrow> (Inr (), c)
                    | Inr (Some i) \<Rightarrow>
                        (case dget (cl_pending c) i of
                           None \<Rightarrow> (Inr (), c)
                         | Some k \<Rightarrow>
                             (Inr (), fut_settle k (case dget m ''error'' of Some e \<Rightarrow> Inl (MCPClientError (pystr e)) | None \<Rightarrow> Inr m)
                                        (c\<lparr>cl_pending := ddel i (cl_pending c)\<rparr>)))))
      | _ \<Rightarrow> (Inl (AttributeError ''get''), c))"

definition loop_ended :: "mcp_client \<Rightarrow> mcp_client" where
  "loop_ended c = (let c1 = c\<lparr>cl_reading := False\<rparr> in if cl_shutdown c then c1 else emit_error ''connection closed unexpectedly'' c1)"

definition read_line :: "(bytes \<Rightarrow> exn + pyval) \<Rightarrow> (pyval \<Rightarrow> string) \<Rightarrow> bytes \<Rightarrow> mcp_client \<Rightarrow> mcp_client" where
  "read_line loads pystr line c =
     (let blank = list_all (\<lambda>b. b \<in> {9, 10, 11, 12, 13, 32}) line
      in if line = [] then loop_ended c
         else if blank then c
         else (case loads line of
                 Inl x \<Rightarrow> if catches ''JSONDecodeError'' x then c else loop_ended (emit_error (exn_msg x) c)
               | Inr msg \<Rightarrow> (case on_message pystr msg c of (Inr _, c1) \<Rightarrow> c1 | (Inl x, c1) \<Rightarrow> loop_ended (emit_error (exn_msg x) c1))))"

definition rpc_payload :: "int \<Rightarrow> string \<Rightarrow> pydict option \<Rightarrow> pydict" where
  "rpc_payload rid meth params =
     [(''jsonrpc'', PStr ''2.0''), (''id'', PInt rid), (''method'', PStr meth)] @ (case params of None \<Rightarrow> [] | Some p \<Rightarrow> [(''params'', PDict p)])"

text \<open>Sending a request gives the number of the future that is waited for.\<close>

definition cl_rpc :: "string \<Rightarrow> pydict option \<Rightarrow> mcp_client \<Rightarrow> (nat, mcp_client) res" where
  "cl_rpc meth params c =
     (if \<not> cl_connected c \<or> \<not> cl_writer c then (Inl (MCPClientError ''not connected''), c)
      else
        (let rid = cl_req_id c + 1;
             k = length (cl_futures c)
         in (Inr k, c\<lparr>cl_req_id := rid, cl_futures := cl_futures c @ [None], cl_pending := dset rid k (cl_pending c),
                      cl_written := cl_written c @ [rpc_payload rid meth params]\<rparr>)))"

definition notify_server :: "string \<Rightarrow> pydict option \<Rightarrow> mcp_client \<Rightarrow> (unit, mcp_client) res" where
  "notify_server meth params c =
     (if \<not> cl_writer c then (Inl (MCPClientError ''not connected''), c)
      else (Inr (), c\<lparr>cl_written := cl_written c @ [[(''jsonrpc'', PStr ''2.0''), (''method'', PStr meth)] @ (case params of None \<Rightarrow> [] | Some p \<Rightarrow> [(''params'', PDict p)])]\<rparr>))"

definition initialize_send :: "mcp_client \<Rightarrow> (nat, mcp_client) res" where
  "initialize_send c =
     cl_rpc ''initialize'' (Some [(''protocolVersion'', PStr ''2024-11-05''), (''clientInfo'', PDict [(''name'', PStr ''hermes-kernel''), (''version'', PStr ''2.0.0'')]),
       (''capabilities'', PDict [])]) c"

text \<open>\<open>x.get(key, default)\<close>\<close>

definition value_get :: "pyval \<Rightarrow> string \<Rightarrow> pyval \<Rightarrow> exn + pyval" where
  "value_get v key v0 = (case v of PDict d \<Rightarrow> Inr (dget_or d key v0) | _ \<Rightarrow> Inl (AttributeError ''get''))"

definition initialize_finish :: "pydict \<Rightarrow> mcp_client \<Rightarrow> (pydict, mcp_client) res" where
  "initialize_finish resp c =
     (case dget_or resp ''result'' (PDict []) of
        PDict result \<Rightarrow>
          (let c1 = c\<lparr>cl_server_info := dget_or result ''serverInfo'' PNone, cl_capabilities := dget_or result ''capabilities'' PNone\<rparr>
           in (case notify_server ''notifications/initialized'' None c1 of
                 (Inl x, c2) \<Rightarrow> (Inl x, c2)
               | (Inr _, c2) \<Rightarrow> (Inr [(''serverInfo'', cl_server_info c2), (''capabilities'', cl_capabilities c2)], c2)))
      | _ \<Rightarrow> (Inl (AttributeError ''get''), c))"

definition tools_list_send :: "mcp_client \<Rightarrow> (nat, mcp_client) res" where
  "tools_list_send c = cl_rpc ''tools/list'' (Some []) c"

fun import_tools :: "(pyval \<Rightarrow> string) \<Rightarrow> (nat \<Rightarrow> string) \<Rightarrow> nat \<Rightarrow> pyval list \<Rightarrow> mcp_client \<Rightarrow> (schema_tool list, mcp_client) res" where
  "import_tools pystr uid n [] c = (Inr [], c)"
| "import_tools pystr uid n (raw # raws) c =
     (case to_kernel_tool pystr (uid n) (cl_namespace c) raw of
        Inl x \<Rightarrow> (Inl x, c)
      | Inr None \<Rightarrow> import_tools pystr uid (Suc n) raws c
      | Inr (Some t) \<Rightarrow>
          (case register_tool t (cl_tools c) of
             (Inl x, _) \<Rightarrow> if catches ''ValueError'' x then import_tools pystr uid (Suc n) raws c else (Inl x, c)
           | (Inr _, r) \<Rightarrow> (case import_tools pystr uid (Suc n) raws (c\<lparr>cl_tools := r\<rparr>) of (ts, c1) \<Rightarrow> (map_sum id ((#) t) ts, c1))))"

definition tools_list_finish :: "(pyval \<Rightarrow> string) \<Rightarrow> (nat \<Rightarrow> string) \<Rightarrow> pydict \<Rightarrow> mcp_client \<Rightarrow> (schema_tool list, mcp_client) res" where
  "tools_list_finish pystr uid resp c =
     (case value_get (dget_or resp ''result'' (PDict [])) ''tools'' (PList []) of
        Inl x \<Rightarrow> (Inl x, c)
      | Inr raw_tools \<Rightarrow> (case iterated raw_tools of Inl x \<Rightarrow> (Inl x, c) | Inr raws \<Rightarrow> import_tools pystr uid 0 raws c))"

definition tools_call_send :: "string \<Rightarrow> pydict \<Rightarrow> mcp_client \<Rightarrow> (nat, mcp_client) res" where
  "tools_call_send name arguments c = cl_rpc ''tools/call'' (Some [(''name'', PStr name), (''arguments'', PDict arguments)]) c"

definition tools_call_finish :: "string \<Rightarrow> pydict \<Rightarrow> pydict \<Rightarrow> mcp_client \<Rightarrow> pydict \<times> mcp_client" where
  "tools_call_finish name arguments resp c =
     ((case dget resp ''error'' of Some e \<Rightarrow> [(''error'', e)] | None \<Rightarrow> [(''result'', dget_or resp ''result'' PNone)]),
      cl_emit ''mcp.tool.called'' [(''name'', PStr name), (''arguments'', PDict arguments)] c)"

text \<open>Cancelling the read loop ends it without an error event, because \<open>_shutdown\<close> is set.\<close>

definition client_disconnect :: "mcp_client \<Rightarrow> mcp_client" where
  "client_disconnect c = cl_emit ''mcp.client.disconnected'' [] (c\<lparr>cl_shutdown := True, cl_reading := False, cl_connected := False\<rparr>)"

section \<open>Runs\<close>

text \<open>
  The steps of a client: operations of the kernel, and lines from the server, which are read only while
  the loop runs. The list beside it holds the messages that were read.\<close>

inductive client_step :: "(bytes \<Rightarrow> exn + pyval) \<Rightarrow> (pyval \<Rightarrow> string) \<Rightarrow> mcp_client \<times> pyval list \<Rightarrow> mcp_client \<times> pyval list \<Rightarrow> bool"
  for loads :: "bytes \<Rightarrow> exn + pyval" and pystr :: "pyval \<Rightarrow> string" where
  connects: "client_step loads pystr (c, seen) (snd (client_connect pid c), seen)"
| sends: "client_step loads pystr (c, seen) (snd (cl_rpc meth params c), seen)"
| notifies: "client_step loads pystr (c, seen) (snd (notify_server meth params c), seen)"
| initialized: "client_step loads pystr (c, seen) (snd (initialize_finish resp c), seen)"
| imports_tools: "client_step loads pystr (c, seen) (snd (tools_list_finish pystr uid resp c), seen)"
| called: "client_step loads pystr (c, seen) (snd (tools_call_finish name arguments resp c), seen)"
| reads: "cl_reading c \<Longrightarrow> client_step loads pystr (c, seen) (read_line loads pystr line c, case loads line of Inr msg \<Rightarrow> seen @ [msg] | Inl _ \<Rightarrow> seen)"
| disconnects: "client_step loads pystr (c, seen) (client_disconnect c, seen)"

inductive client_run :: "(bytes \<Rightarrow> exn + pyval) \<Rightarrow> (pyval \<Rightarrow> string) \<Rightarrow> mcp_client \<times> pyval list \<Rightarrow> mcp_client \<times> pyval list \<Rightarrow> bool"
  for loads :: "bytes \<Rightarrow> exn + pyval" and pystr :: "pyval \<Rightarrow> string" where
  run_refl: "client_run loads pystr s s"
| run_step: "client_run loads pystr s t \<Longrightarrow> client_step loads pystr t u \<Longrightarrow> client_run loads pystr s u"

section \<open>Lemmas\<close>

definition answers_id :: "int \<Rightarrow> pyval \<Rightarrow> pydict \<Rightarrow> bool" where
  "answers_id i msg m \<longleftrightarrow> msg = PDict m \<and> response_key (dget_or m ''id'' PNone) = Inr (Some i)"

definition result_of :: "(pyval \<Rightarrow> string) \<Rightarrow> pydict \<Rightarrow> exn + pydict" where
  "result_of pystr m = (case dget m ''error'' of Some e \<Rightarrow> Inl (MCPClientError (pystr e)) | None \<Rightarrow> Inr m)"

text \<open>What every step keeps: a waiting request is pending under its own id only, and what has settled was answered.\<close>

definition client_inv :: "(pyval \<Rightarrow> string) \<Rightarrow> mcp_client \<times> pyval list \<Rightarrow> bool" where
  "client_inv pystr s \<longleftrightarrow>
     (case s of (c, seen) \<Rightarrow>
        cl_req_id c = int (length (cl_futures c)) \<and>
        (\<forall>i k. dget (cl_pending c) i = Some k \<longrightarrow> i = int k + 1 \<and> k < length (cl_futures c)) \<and>
        (\<forall>k r. k < length (cl_futures c) \<longrightarrow> cl_futures c ! k = Some r \<longrightarrow> (\<exists>msg \<in> set seen. \<exists>m. answers_id (int k + 1) msg m \<and> r = result_of pystr m)))"

lemma client_invI:
  assumes "cl_req_id c = int (length (cl_futures c))"
    and "\<And>i k. dget (cl_pending c) i = Some k \<Longrightarrow> i = int k + 1 \<and> k < length (cl_futures c)"
    and "\<And>k r. k < length (cl_futures c) \<Longrightarrow> cl_futures c ! k = Some r \<Longrightarrow> \<exists>msg \<in> set seen. \<exists>m. answers_id (int k + 1) msg m \<and> r = result_of pystr m"
  shows "client_inv pystr (c, seen)"
  unfolding client_inv_def prod.case using assms by blast

text \<open>Only reading a message or sending a request touches the futures.\<close>

definition same_requests :: "mcp_client \<Rightarrow> mcp_client \<Rightarrow> bool" where
  "same_requests c c' \<longleftrightarrow> cl_futures c' = cl_futures c \<and> cl_pending c' = cl_pending c \<and> cl_req_id c' = cl_req_id c"

lemma cl_emit_same [simp]: "same_requests c (cl_emit ty p c)" "cl_futures (cl_emit ty p c) = cl_futures c" "cl_pending (cl_emit ty p c) = cl_pending c" "cl_req_id (cl_emit ty p c) = cl_req_id c"
  by (simp_all add: same_requests_def cl_emit_def)

lemma quiet_steps:
  "same_requests c (snd (client_connect pid c))" "same_requests c (snd (notify_server meth params c))" "same_requests c (snd (initialize_finish resp c))"
  "same_requests c (snd (tools_call_finish name arguments resp c))" "same_requests c (client_disconnect c)" "same_requests c (loop_ended c)" "same_requests c (emit_error e c)"
  by (auto simp: same_requests_def client_connect_def notify_server_def initialize_finish_def tools_call_finish_def client_disconnect_def loop_ended_def emit_error_def Let_def
      split: pyval.splits)

lemma import_tools_same: "same_requests c (snd (import_tools pystr uid n raws c))"
proof (induction raws arbitrary: n c)
  case (Cons raw raws)
  have same: "same_requests (c\<lparr>cl_tools := r\<rparr>) d = same_requests c d" for r d by (simp add: same_requests_def)
  have "snd (import_tools pystr uid n (raw # raws) c) = c \<or> (\<exists>d. (d = c \<or> (\<exists>r. d = c\<lparr>cl_tools := r\<rparr>)) \<and> snd (import_tools pystr uid n (raw # raws) c) = snd (import_tools pystr uid (Suc n) raws d))"
    by (auto split: sum.splits option.splits prod.splits) (metis snd_conv)
  then show ?case
  proof (elim disjE exE conjE)
    fix d r
    assume "d = c\<lparr>cl_tools := r\<rparr>" "snd (import_tools pystr uid n (raw # raws) c) = snd (import_tools pystr uid (Suc n) raws d)"
    then show ?thesis using Cons [of d "Suc n"] same by simp
  next
    fix d
    assume "d = c" "snd (import_tools pystr uid n (raw # raws) c) = snd (import_tools pystr uid (Suc n) raws d)"
    then show ?thesis using Cons by simp
  qed (simp add: same_requests_def)
qed (simp add: same_requests_def)

lemma tools_list_same: "same_requests c (snd (tools_list_finish pystr uid resp c))"
  using import_tools_same by (auto simp: tools_list_finish_def same_requests_def split: sum.splits)

definition settled_by :: "(pyval \<Rightarrow> string) \<Rightarrow> pyval \<Rightarrow> mcp_client \<Rightarrow> mcp_client \<Rightarrow> bool" where
  "settled_by pystr msg c c' \<longleftrightarrow>
     (\<exists>m i k. answers_id i msg m \<and> dget (cl_pending c) i = Some k \<and> cl_req_id c' = cl_req_id c \<and> cl_pending c' = ddel i (cl_pending c) \<and>
        cl_futures c' = (if cl_futures c ! k = None then (cl_futures c)[k := Some (result_of pystr m)] else cl_futures c))"

definition request_added :: "mcp_client \<Rightarrow> mcp_client \<Rightarrow> bool" where
  "request_added c c' \<longleftrightarrow>
     cl_req_id c' = cl_req_id c + 1 \<and> cl_futures c' = cl_futures c @ [None] \<and> cl_pending c' = dset (cl_req_id c + 1) (length (cl_futures c)) (cl_pending c)"

text \<open>The effect of a message on the requests.\<close>

lemma on_message_requests: "on_message pystr msg c = (r, c1) \<Longrightarrow> same_requests c c1 \<or> settled_by pystr msg c c1"
  by (auto simp: on_message_def same_requests_def settled_by_def answers_id_def fut_settle_def result_of_def Let_def split: pyval.splits if_splits sum.splits option.splits)

lemma read_line_requests:
  "same_requests c (read_line loads pystr line c) \<or> (\<exists>msg. loads line = Inr msg \<and> settled_by pystr msg c (read_line loads pystr line c))"
proof (cases "loads line")
  case (Inl x)
  then show ?thesis using quiet_steps(6,7) by (auto simp: read_line_def Let_def same_requests_def)
next
  case (Inr msg)
  obtain r c1 where m: "on_message pystr msg c = (r, c1)" by (cases "on_message pystr msg c")
  have "same_requests c c1" if "r = Inl x" for x using m that by (auto simp: on_message_def same_requests_def Let_def split: pyval.splits if_splits sum.splits option.splits)
  then show ?thesis
    using on_message_requests [OF m] Inr m quiet_steps(6,7) by (cases r) (auto simp: read_line_def Let_def same_requests_def)
qed

text \<open>One step: the requests stay, one is added, or one that is waiting is answered.\<close>

lemma step_requests:
  assumes "client_step loads pystr (c, seen) (c', seen')"
  shows "\<exists>new. seen' = seen @ new \<and> (same_requests c c' \<or> request_added c c' \<or> (\<exists>msg. new = [msg] \<and> settled_by pystr msg c c'))"
  using assms
proof cases
  case (sends meth params)
  then show ?thesis by (auto simp: cl_rpc_def same_requests_def request_added_def Let_def)
next
  case (reads line)
  then show ?thesis using read_line_requests [of c loads pystr line] by (cases "loads line") auto
qed (use quiet_steps tools_list_same in auto)

lemma step_inv:
  assumes "client_inv pystr (c, seen)" and "client_step loads pystr (c, seen) (c', seen')"
  shows "client_inv pystr (c', seen')"
proof -
  obtain new where seen: "seen' = seen @ new" and step: "same_requests c c' \<or> request_added c c' \<or> (\<exists>msg. new = [msg] \<and> settled_by pystr msg c c')"
    using step_requests [OF assms(2)] by blast
  note I = assms(1) [unfolded client_inv_def prod.case]
  have grown: "\<exists>msg \<in> set seen'. \<exists>m. answers_id (int k + 1) msg m \<and> r = result_of pystr m" if "k < length (cl_futures c)" "cl_futures c ! k = Some r" for k r
    using I that unfolding seen set_append by blast
  from step consider (same) "same_requests c c'" | (added) "request_added c c'" | (answered) msg where "new = [msg]" "settled_by pystr msg c c'" by blast
  then show ?thesis
  proof cases
    case same
    then show ?thesis using I grown unfolding client_inv_def prod.case same_requests_def by simp
  next
    case added
    have pend: "i = int k + 1 \<and> k < length (cl_futures c')" if "dget (cl_pending c') i = Some k" for i k
    proof (cases "i = cl_req_id c + 1")
      case True
      then show ?thesis using I added that by (simp add: request_added_def)
    next
      case False
      then have "dget (cl_pending c) i = Some k" using added that by (simp add: request_added_def)
      then have "i = int k + 1 \<and> k < length (cl_futures c)" using I by blast
      then show ?thesis using added by (simp add: request_added_def)
    qed
    have fut: "\<exists>msg \<in> set seen'. \<exists>m. answers_id (int k + 1) msg m \<and> r = result_of pystr m" if "k < length (cl_futures c')" "cl_futures c' ! k = Some r" for k r
      using added that grown [of k r] by (cases "k = length (cl_futures c)") (auto simp: request_added_def nth_append)
    have "cl_req_id c' = int (length (cl_futures c'))" using I added by (simp add: request_added_def)
    then show ?thesis using pend fut by (rule client_invI)
  next
    case answered
    then obtain m i k where a: "answers_id i msg m" "dget (cl_pending c) i = Some k" "cl_req_id c' = cl_req_id c" "cl_pending c' = ddel i (cl_pending c)"
      "cl_futures c' = (if cl_futures c ! k = None then (cl_futures c)[k := Some (result_of pystr m)] else cl_futures c)" by (auto simp: settled_by_def)
    have k: "i = int k + 1" "k < length (cl_futures c)" using I a(2) by auto
    have len: "length (cl_futures c') = length (cl_futures c)" using a(5) by simp
    have pend: "j = int l + 1 \<and> l < length (cl_futures c')" if "dget (cl_pending c') j = Some l" for j l
      using I that unfolding a(4) len by (simp add: dget_ddel split: if_splits)
    have fut: "\<exists>msg \<in> set seen'. \<exists>m. answers_id (int l + 1) msg m \<and> r = result_of pystr m" if l: "l < length (cl_futures c')" "cl_futures c' ! l = Some r" for l r
    proof (cases "cl_futures c ! l = Some r")
      case False
      then have "l = k" "r = result_of pystr m" using l a(5) k(2) by (simp_all add: nth_list_update split: if_splits)
      then show ?thesis using a(1) k(1) seen answered(1) by auto
    qed (use grown l len in auto)
    have "cl_req_id c' = int (length (cl_futures c'))" using I a(3) len by simp
    then show ?thesis using pend fut by (rule client_invI)
  qed
qed

lemma new_client_inv: "client_inv pystr (new_client namespace tools, [])"
  by (simp add: client_inv_def new_client_def)

lemma run_inv: "client_run loads pystr s t \<Longrightarrow> client_inv pystr s \<Longrightarrow> client_inv pystr t"
  by (induction rule: client_run.induct) (metis step_inv surj_pair)+

text \<open>A step keeps what has settled, and settles nothing without an answer.\<close>

lemma step_settled:
  assumes "client_inv pystr (c, seen)" and "client_step loads pystr (c, seen) (c', seen')" and "k < length (cl_futures c)"
  shows "k < length (cl_futures c')" "cl_futures c ! k = Some r \<Longrightarrow> cl_futures c' ! k = Some r" "\<exists>new. seen' = seen @ new"
    "cl_futures c ! k = None \<Longrightarrow> \<forall>msg \<in> set (drop (length seen) seen'). \<forall>m. \<not> answers_id (int k + 1) msg m \<Longrightarrow> cl_futures c' ! k = None"
  using step_requests [OF assms(2)] assms(1,3)
  by (auto simp: client_inv_def same_requests_def request_added_def settled_by_def nth_append nth_list_update split: if_splits)

lemma run_settled:
  assumes "client_run loads pystr s t" and "client_inv pystr s" and "k < length (cl_futures (fst s))"
  shows "k < length (cl_futures (fst t)) \<and> (\<forall>r. cl_futures (fst s) ! k = Some r \<longrightarrow> cl_futures (fst t) ! k = Some r) \<and> (\<exists>new. snd t = snd s @ new) \<and>
    (cl_futures (fst s) ! k = None \<longrightarrow> (\<forall>msg \<in> set (drop (length (snd s)) (snd t)). \<forall>m. \<not> answers_id (int k + 1) msg m) \<longrightarrow> cl_futures (fst t) ! k = None)"
  using assms
proof (induction rule: client_run.induct)
  case (run_step s t u)
  obtain c seen where t: "t = (c, seen)" by (cases t)
  obtain c' seen' where u: "u = (c', seen')" by (cases u)
  have inv: "client_inv pystr (c, seen)" using run_inv [OF run_step(1)] run_step.prems(1) by (simp add: t)
  note IH = run_step.IH [OF run_step.prems, unfolded t fst_conv snd_conv]
  note step = step_settled [OF inv run_step(2) [unfolded t u] IH [THEN conjunct1]]
  obtain n1 n2 where seen: "seen = snd s @ n1" "seen' = seen @ n2" using IH step(3) by blast
  then show ?case using IH step by (auto simp: u)
qed simp

section \<open>Properties\<close>

text \<open>
  C23: Answers reach their requests. In every run of a new client, a request that has settled was
  settled by a message the server sent with the id of that request, with its content or with its error,
  and no later step changes the result.\<close>

theorem responses_correlated:
  assumes "client_run loads pystr (new_client namespace tools, []) (c, seen)" and "client_run loads pystr (c, seen) (c', seen')"
    and "k < length (cl_futures c)" and "cl_futures c ! k = Some r"
  shows "(\<exists>msg \<in> set seen. \<exists>m. answers_id (int k + 1) msg m \<and> r = result_of pystr m) \<and> cl_futures c' ! k = Some r"
proof -
  have inv: "client_inv pystr (c, seen)" using run_inv [OF assms(1) new_client_inv] .
  then show ?thesis using run_settled [OF assms(2) inv] assms(3,4) by (auto simp: client_inv_def)
qed

definition demo_message :: pydict where
  "demo_message = [(''id'', PInt 1), (''result'', PDict [])]"

definition demo_line :: "bytes \<Rightarrow> exn + pyval" where
  "demo_line line = Inr (PDict demo_message)"

definition demo_sent :: mcp_client where
  "demo_sent = snd (cl_rpc ''tools/list'' None (snd (client_connect 7 (new_client ''mcp'' []))))"

lemma demo_sent_run: "client_run loads pystr (new_client ''mcp'' [], []) (demo_sent, [])"
  unfolding demo_sent_def by (rule run_step [OF run_step [OF run_refl connects] sends])

lemma demo_sent_simps [simp]: "cl_futures demo_sent = [None]" "cl_pending demo_sent = [(1, 0)]" "cl_reading demo_sent"
  by (simp_all add: demo_sent_def client_connect_def cl_rpc_def new_client_def cl_emit_def Let_def)

theorem responses_correlated_witness:
  "cl_futures (client_disconnect (read_line demo_line (\<lambda>_. []) [1] demo_sent)) ! 0 = Some (Inr demo_message)"
proof -
  let ?c = "read_line demo_line (\<lambda>_. []) [1] demo_sent"
  have "client_run demo_line (\<lambda>_. []) (new_client ''mcp'' [], []) (?c, [PDict demo_message])"
    using run_step [OF demo_sent_run reads [of demo_sent demo_line "\<lambda>_. []" "[]" "[1]"]] by (simp add: demo_line_def)
  moreover have "client_run demo_line (\<lambda>_. []) (?c, [PDict demo_message]) (client_disconnect ?c, [PDict demo_message])"
    by (rule run_step [OF run_refl disconnects])
  moreover have "cl_futures ?c = [Some (Inr demo_message)]"
    by (simp add: read_line_def demo_line_def on_message_def demo_message_def fut_settle_def dget_or_def Let_def)
  ultimately show ?thesis using responses_correlated [of demo_line "\<lambda>_. []" "''mcp''" "[]" ?c _ _ _ 0 "Inr demo_message"] by simp
qed

text \<open>
  C37: Nothing but an answer ends a request. A request that is waiting keeps waiting as long as no message
  with its id arrives, whatever else happens: the server closes the stream or crashes, the client
  disconnects or connects to another server. There is no limit on the time it waits.\<close>

theorem lost_request_waits:
  assumes "client_run loads pystr (new_client namespace tools, []) (c, seen)" and "client_run loads pystr (c, seen) (c', seen')"
    and "k < length (cl_futures c)" and "cl_futures c ! k = None"
    and "\<forall>msg \<in> set (drop (length seen) seen'). \<forall>m. \<not> answers_id (int k + 1) msg m"
  shows "cl_futures c' ! k = None"
  using run_settled [OF assms(2) run_inv [OF assms(1) new_client_inv]] assms(3-5) by simp

theorem lost_request_waits_witness:
  "cl_futures (client_disconnect (read_line demo_line (\<lambda>_. []) [] demo_sent)) ! 0 = None"
proof (rule lost_request_waits [OF demo_sent_run])
  have "client_run (\<lambda>_. Inl tool_error) (\<lambda>_. []) (demo_sent, []) (read_line demo_line (\<lambda>_. []) [] demo_sent, [])"
    using run_step [OF run_refl reads [of demo_sent "\<lambda>_. Inl tool_error" "\<lambda>_. []" "[]" "[]"]] by (simp add: read_line_def)
  then show "client_run (\<lambda>_. Inl tool_error) (\<lambda>_. []) (demo_sent, []) (client_disconnect (read_line demo_line (\<lambda>_. []) [] demo_sent), [])"
    by (rule run_step [OF _ disconnects])
qed simp_all

end
