(* ===== verification/Spec2Isabelle.thy ===== *)
theory Spec2Isabelle
  imports Bus Access Workflow_Runs Planner Swarm Config Knowledge_Laws Observability Cluster Agent_Laws Retrieval Mcp_Streamable Mcp_Client
begin

text \<open>
  Verification of the Hermes kernel: the packages \<open>src/kernel\<close> and \<open>src/mcp\<close>.

  \<^bold>\<open>The program.\<close> Hermes is an agent kernel in Python. Its parts are engines that own some state (a
  dictionary of objects, sometimes a SQLite store beside it), are called by coroutines, and tell each
  other what happened through events. Agents are run by the agent runtime, by workflows, by plans and
  by swarms; what they do passes through a capability guard, circuit breakers, retries and a sandbox.
  Beside them stand the knowledge services (semantic graph, document pipeline, vector search), the
  configuration vault, observability, the MCP servers and clients that connect tools, and the
  marketplace that installs plugins.

  \<^bold>\<open>How the model corresponds to the code.\<close>

  \<^item> An engine is a record with the attributes its \<open>__init__\<close> sets; a method is a function that takes
    the record and returns it changed, in the type \<open>('a, 's) res\<close> of results when it can raise: a value
    or an exception, and in both cases the state as far as it got. Exceptions carry their base classes,
    so an \<open>except\<close> clause is a test of the model too.
  \<^item> Dictionaries are association lists in insertion order. Where two owners share an object that is
    changed in place, the object lives in a heap and the owners hold positions in it.
  \<^item> An operation between two awaits is one step. Where the code awaits something that may change its
    own state meanwhile (a handler, a guarded body, a probe), that something is a parameter which acts on
    the state of the engine with the rest of the world as the extension of its record.
  \<^item> Clocks, fresh ids and random choices are arguments. Integers are Python's, unbounded; floats are
    rationals in event payloads and reals in embeddings, and rounding is not modelled.
  \<^item> Other packages, the network, the file system, databases of other programs and injected functions
    are parameters. What a theorem needs of them is a hypothesis with a name (\<open>codec_ok\<close>, \<open>cipher_ok\<close>,
    \<open>handler_ok\<close>, \<open>tame\<close>, \<open>honest_executor\<close>), and its witness shows a concrete instance. SQLite is modelled
    as tables that are read in row order, the statements by what they select and change.

  \<^bold>\<open>The theories.\<close> Each opens with the correspondence of its own types.

  \<^item> \<open>Prelude\<close>: Python values, exceptions, dictionaries, slices and string methods, with the simplification
    rules \<open>dict_simps\<close> and \<open>exn_simps\<close>. \<open>Interfaces\<close>: the contracts that several components implement, as
    locales (\<open>keyed_store\<close>, \<open>registry\<close>, \<open>ring_buffer\<close>, \<open>breaker\<close>, \<open>guarded_system\<close>); the components interpret
    them on their own operations. \<open>Codecs\<close>: UTF-8 and base64.
  \<^item> \<open>Events\<close> (\<open>kernel/events.py\<close>): every event class, what it puts on the wire, the event store with its
    table, command and query bus. A topic determines the aggregate and the keys of the payload, and the
    database mirrors the journal.
  \<^item> \<open>Bus\<close> (\<open>kernel/bus.py\<close>): subscriptions, dispatch, \<open>wait_for\<close>. A failing handler does not keep an event
    from the others; a future settles at most once.
  \<^item> \<open>Resilience\<close> (\<open>kernel/resilience.py\<close>, \<open>resilience_domain.py\<close>, \<open>resilience_store.py\<close>): every
    operation takes its breaker along an edge of the documented three-state machine or leaves it alone,
    trial calls are bounded, retries end and say why.
  \<^item> \<open>Guard\<close> (\<open>kernel/capability_guard.py\<close>, \<open>security_domain.py\<close>, \<open>security_store.py\<close>): what is not permitted is
    not run, calls are audited, the store gives back what was put there.
  \<^item> \<open>Health\<close> (\<open>kernel/health.py\<close>): monitor, dead letters, breakers per capability, recovery with its bound
    on restarts. \<open>Sandbox\<close> (\<open>kernel/sandbox.py\<close>): limits, time-out, cleanup exactly once.
  \<^item> \<open>Access\<close> (\<open>kernel/auth.py\<close>, \<open>rbac.py\<close>), \<open>Registries\<close> (\<open>kernel/registry.py\<close>, \<open>capability.py\<close>, \<open>workspace.py\<close>),
    \<open>Dispatch\<close> (\<open>CapabilityExecutor\<close> of \<open>kernel/capability.py\<close>, \<open>discovery.py\<close>, \<open>executor.py\<close>, \<open>planner.py\<close>).
  \<^item> \<open>Wrappers\<close>: what a body does is all a guarded, retried or sandboxed call does to the state of its
    caller. \<open>Workflow\<close> (\<open>kernel/workflow.py\<close>) is built on them; \<open>Workflow_Runs\<close> proves that linear runs
    return, complete when the steps succeed, park a failing step after exactly the allowed attempts,
    run the declared compensations in reverse, and run nothing without its permission or approval.
  \<^item> \<open>Planner\<close> (\<open>kernel/dynamic_planner.py\<close>, \<open>plan_store.py\<close>): the topological sort is correct and complete,
    and a plan whose steps succeed is executed to its end.
  \<^item> \<open>Swarm\<close> (\<open>kernel/swarm.py\<close>, \<open>swarm_store.py\<close>, \<open>team_manager.py\<close>, \<open>distributed_health.py\<close>) and \<open>Cluster\<close>
    (\<open>kernel/cluster.py\<close>): elections; in every reachable state the leader is a live member.
  \<^item> \<open>Config\<close> (\<open>kernel/config_vault.py\<close>, \<open>config_store.py\<close>, \<open>config_domain.py\<close>): scopes, secrets and their
    encryption. \<open>Interpolation\<close>: the placeholders of task parameters, over the locale \<open>resolver\<close>.
  \<^item> \<open>Knowledge\<close>, \<open>Knowledge_Laws\<close> (\<open>kernel/knowledge_graph.py\<close>, \<open>graph_store.py\<close>, \<open>semantic_graph.py\<close>): the
    semantic graph (each entity and relation object belongs to one graph), its invariant under every
    operation, breadth-first search that finds a shortest
    path, and the database that gives back the graphs in memory.
  \<^item> \<open>Observability\<close> (\<open>kernel/observability.py\<close>, \<open>observability_store.py\<close>, \<open>observability_domain.py\<close>): metrics,
    spans and logs account for what was recorded.
  \<^item> \<open>Storage\<close> (\<open>kernel/persistence.py\<close>, entities of \<open>kernel/domain.py\<close>), \<open>Ingest\<close> (\<open>kernel/scanner.py\<close>,
    \<open>parser.py\<close>, \<open>chunker.py\<close>, \<open>embedder.py\<close>), \<open>Vector_Graph\<close> (\<open>kernel/graph.py\<close>) and \<open>Retrieval\<close>
    (\<open>kernel/retrieval.py\<close>, \<open>retrieval_backends.py\<close>): the document pipeline. Chunks cover the text, the
    hash embedding is a unit vector, the graph joins exactly the similar nodes of a workspace, also after
    saving and loading whole workspaces, and comes back from the store, and the memory backend refines the contract \<open>vector_backend\<close>. The last theory
    also follows a chunk through all stages, which shows what is lost on the way.
  \<^item> \<open>Mcp\<close> (\<open>kernel/mcp_gateway.py\<close>, \<open>mcp_store.py\<close>, \<open>mcp_domain.py\<close>): the gateway to MCP servers, on the retries
    and breakers of \<open>Resilience\<close>. \<open>Mcp_Server\<close> (\<open>mcp/server.py\<close>, \<open>mcp/tools.py\<close>): framing, validation and the
    message loop. \<open>Mcp_Streamable\<close> (\<open>mcp/server_streamable.py\<close>): sessions, event log, replay, the live
    stream as a schedule of pushes, writes and the time-out, and eviction.
    \<open>Mcp_Client\<close> (\<open>mcp/client.py\<close>): requests and the futures that wait for their answers.
  \<^item> \<open>Marketplace\<close> (\<open>kernel/marketplace.py\<close>, \<open>marketplace_store.py\<close>, \<open>marketplace_domain.py\<close>): only valid packages
    are installed. \<open>Agent\<close>, \<open>Agent_Laws\<close> (\<open>kernel/agent.py\<close>): the runtime around all of these.

  \<^bold>\<open>Kinds of lemmas.\<close> Each component has the facts that its operations keep its invariant, the behaviour
  of its operations branch by branch, and one or more theorems that a client would rely on. Theorems
  about runs are by rule induction on a step relation or by induction on a list of operations. Several
  theorems state what the code does where it departs from its documentation; their texts say so.

  \<^bold>\<open>Loops, fuel and bounds.\<close> Recursion is structural or has a termination proof. Linear runs of workflows
  take \<open>fuel\<close>, the number of steps they may execute; running out of it is \<open>None\<close>.
  As many steps as the flow has left are enough (\<open>run_linear_returns\<close>), and more fuel gives the same
  result (\<open>run_linear_fuel\<close>). Two loops that need not end are partial functions into \<open>option\<close>: hashing until
  there are enough coordinates (\<open>hash_floats\<close>) and walking back along the predecessors (\<open>trace_back\<close>);
  both are proved to return where the code uses them.

  \<^bold>\<open>Not modelled.\<close>

  \<^item> The plugin loader, the SDK and its command line, and the built-in plugins (\<open>src/plugins\<close>): reflection,
    file templates, and browsers and desktops that are driven by other packages.
  \<^item> The MCP transport over server-sent events (\<open>mcp/server_sse.py\<close>): threads and blocking queues around
    the same request handling. Sockets, routes and the length of time limits of the Streamable HTTP transport.
  \<^item> Of the workflow engine, the executions that hand over to the planner, the semantic graph and the
    swarm (\<open>execute_adaptive\<close>, \<open>execute_with_context\<close>, \<open>replan_step\<close>), and its calls of observability;
    of the search backends, \<open>SQLiteVSSBackend\<close>, whose work is SQL over a table of another package.
  \<^item> Logging, the text of messages that are only logged, and the models of \<open>kernel/scheduler_domain.py\<close>,
    which nothing uses.
\<close>

end
